(* ===== verification/Prelude.thy ===== *)
theory Prelude
  imports Main "HOL-Library.Word" "HOL-Library.List_Lexorder" "HOL-Library.Multiset"
begin

text \<open>
  What every component shares: the error monad that models exceptions (a computation of type
  \<open>'e + 'a\<close> is \<open>Inl\<close> of the value thrown or \<open>Inr\<close> of the value returned), JavaScript strings
  as lists of UTF-16 code units, and the few list facts the component proofs use.
\<close>

named_theorems js_eval \<open>definitions unfolded to evaluate string operations\<close>

section \<open>Exceptions as sums\<close>

definition bindE :: "'e + 'a \<Rightarrow> ('a \<Rightarrow> 'e + 'b) \<Rightarrow> 'e + 'b" where
  "bindE m f = (case m of Inl e \<Rightarrow> Inl e | Inr x \<Rightarrow> f x)"

definition guardE :: "bool \<Rightarrow> 'e \<Rightarrow> 'e + unit" where
  "guardE c e = (if c then Inr () else Inl e)"

fun mapE :: "('a \<Rightarrow> 'e + 'b) \<Rightarrow> 'a list \<Rightarrow> 'e + 'b list" where
  "mapE f [] = Inr []"
| "mapE f (x # xs) = bindE (f x) (\<lambda>y. bindE (mapE f xs) (\<lambda>ys. Inr (y # ys)))"

fun isOk :: "'e + 'a \<Rightarrow> bool" where
  "isOk (Inl _) = False"
| "isOk (Inr _) = True"

lemma bindE_simps [simp]:
  "bindE (Inl e) f = Inl e"
  "bindE (Inr x) f = f x"
  by (simp_all add: bindE_def)

lemma bindE_Inr_iff [simp]:
  "bindE m f = Inr y \<longleftrightarrow> (\<exists>x. m = Inr x \<and> f x = Inr y)"
  by (cases m) simp_all

lemma bindE_Inl_iff:
  "bindE m f = Inl e \<longleftrightarrow> m = Inl e \<or> (\<exists>x. m = Inr x \<and> f x = Inl e)"
  by (cases m) simp_all

lemma guardE_Inr_iff [simp]: "guardE c e = Inr u \<longleftrightarrow> c"
  by (simp add: guardE_def)

lemma guardE_Inl_iff [simp]: "guardE c e = Inl e' \<longleftrightarrow> \<not> c \<and> e' = e"
  by (auto simp: guardE_def)

lemma guardE_simps [simp]: "guardE True e = Inr ()" "guardE False e = Inl e"
  by (simp_all add: guardE_def)

lemma bindE_cong [fundef_cong]:
  "m = m' \<Longrightarrow> (\<And>x. m' = Inr x \<Longrightarrow> f x = f' x) \<Longrightarrow> bindE m f = bindE m' f'"
  by (cases m') simp_all

lemma mapE_cong [fundef_cong]:
  "xs = ys \<Longrightarrow> (\<And>x. x \<in> set ys \<Longrightarrow> f x = g x) \<Longrightarrow> mapE f xs = mapE g ys"
  by (induction ys arbitrary: xs) auto

lemma mapE_Inr_iff: "mapE f xs = Inr ys \<longleftrightarrow> list_all2 (\<lambda>x y. f x = Inr y) xs ys"
proof (induction xs arbitrary: ys)
  case Nil
  then show ?case by (auto simp: eq_commute)
next
  case (Cons x xs)
  then show ?case by (cases ys) auto
qed

lemma mapE_length: "mapE f xs = Inr ys \<Longrightarrow> length ys = length xs"
  by (auto simp: mapE_Inr_iff dest: list_all2_lengthD)

lemma mapE_set: "mapE f xs = Inr ys \<Longrightarrow> y \<in> set ys \<Longrightarrow> \<exists>x \<in> set xs. f x = Inr y"
  by (induction xs arbitrary: ys) auto

lemma mapE_all: "mapE f xs = Inr ys \<Longrightarrow> x \<in> set xs \<Longrightarrow> \<exists>y \<in> set ys. f x = Inr y"
  by (induction xs arbitrary: ys) auto

lemma mapE_total: "(\<And>x. x \<in> set xs \<Longrightarrow> f x = Inr (g x)) \<Longrightarrow> mapE f xs = Inr (map g xs)"
  by (induction xs) auto

lemma mapE_map: "mapE f (map g xs) = mapE (\<lambda>x. f (g x)) xs"
  by (induction xs) simp_all

lemma isOk_iff: "isOk m \<longleftrightarrow> (\<exists>x. m = Inr x)"
  by (cases m) simp_all

section \<open>JavaScript strings: lists of UTF-16 code units\<close>

type_synonym jstring = "16 word list"

definition js :: "string \<Rightarrow> jstring" where
  [js_eval]: "js s = map of_char s"

lemma uint_of_char16: "uint (of_char c :: 16 word) = of_char c"
  by (cases c) (simp add: of_char_def horner_sum_simps)

lemma of_char16_inject [simp]: "(of_char a :: 16 word) = of_char b \<longleftrightarrow> a = b"
proof
  assume "(of_char a :: 16 word) = of_char b"
  then have "(of_char a :: int) = of_char b"
    by (metis uint_of_char16)
  then show "a = b" by simp
qed simp

lemma js_inject [simp]: "js a = js b \<longleftrightarrow> a = b"
  by (simp add: js_def inj_map_eq_map inj_def)

lemma js_Nil_iff [simp]: "js a = [] \<longleftrightarrow> a = []" "[] = js a \<longleftrightarrow> a = []"
  by (auto simp: js_def)

lemma length_js [simp]: "length (js a) = length a"
  by (simp add: js_def)

text \<open>\<open>String.prototype.startsWith\<close>, \<open>endsWith\<close> and \<open>includes\<close>.\<close>

fun startsWith :: "'a list \<Rightarrow> 'a list \<Rightarrow> bool" where
  "startsWith s [] = True"
| "startsWith [] (p # ps) = False"
| "startsWith (c # cs) (p # ps) = (c = p \<and> startsWith cs ps)"

definition endsWith :: "'a list \<Rightarrow> 'a list \<Rightarrow> bool" where
  "endsWith s p = startsWith (rev s) (rev p)"

fun includesStr :: "'a list \<Rightarrow> 'a list \<Rightarrow> bool" where
  "includesStr [] p = (p = [])"
| "includesStr (c # cs) p = (startsWith (c # cs) p \<or> includesStr cs p)"

lemma startsWith_iff: "startsWith s p \<longleftrightarrow> (\<exists>r. s = p @ r)"
  by (induction s p rule: startsWith.induct) auto

lemma startsWith_append [simp]: "startsWith (p @ r) p"
  by (auto simp: startsWith_iff)

lemma startsWith_js [simp]: "startsWith (js a) (js b) = startsWith a b"
  by (induction a b rule: startsWith.induct) (simp_all add: js_def)

lemma drop_js [simp]: "drop n (js s) = js (drop n s)"
  by (simp add: js_def drop_map)

lemma take_js [simp]: "take n (js s) = js (take n s)"
  by (simp add: js_def take_map)

lemma includesStr_iff: "includesStr s p \<longleftrightarrow> (\<exists>a b. s = a @ p @ b)"
proof (induction s)
  case Nil
  then show ?case by auto
next
  case (Cons c cs)
  show ?case
  proof
    assume "includesStr (c # cs) p"
    then consider r where "c # cs = p @ r" | a b where "cs = a @ p @ b"
      using Cons.IH by (auto simp: startsWith_iff)
    then show "\<exists>a b. c # cs = a @ p @ b"
    proof cases
      case 1
      then show ?thesis by (metis append_Nil)
    next
      case 2
      then show ?thesis by (metis append_Cons)
    qed
  next
    assume "\<exists>a b. c # cs = a @ p @ b"
    then show "includesStr (c # cs) p"
      using Cons.IH by (auto simp: startsWith_iff Cons_eq_append_conv)
  qed
qed

text \<open>\<open>String(n)\<close> of a non-negative integer: its decimal digits.\<close>

fun digits10 :: "nat \<Rightarrow> nat list" where
  "digits10 n = (if n < 10 then [n] else digits10 (n div 10) @ [n mod 10])"

declare digits10.simps [simp del]

definition digitUnit :: "nat \<Rightarrow> 16 word" where
  [js_eval]: "digitUnit d = 48 + of_nat d"

definition natStr :: "nat \<Rightarrow> jstring" where
  [js_eval]: "natStr n = map digitUnit (digits10 n)"

definition joinWith :: "'a list \<Rightarrow> 'a list list \<Rightarrow> 'a list" where
  "joinWith sep xss = (case xss of [] \<Rightarrow> [] | x # xs \<Rightarrow> x @ concat (map (\<lambda>y. sep @ y) xs))"

text \<open>The white space that \<open>trim\<close> removes.\<close>

definition isWhite :: "16 word \<Rightarrow> bool" where
  "isWhite c = (9 \<le> c \<and> c \<le> 13 \<or> c = 32 \<or> c = 0xA0 \<or> c = 0x1680 \<or> 0x2000 \<le> c \<and> c \<le> 0x200A \<or> c = 0x2028 \<or>
     c = 0x2029 \<or> c = 0x202F \<or> c = 0x205F \<or> c = 0x3000 \<or> c = 0xFEFF)"

definition trim :: "jstring \<Rightarrow> jstring" where
  "trim s = rev (dropWhile isWhite (rev (dropWhile isWhite s)))"

text \<open>\<open>split\<close> at a character.\<close>

fun splitOn :: "'a \<Rightarrow> 'a list \<Rightarrow> 'a list list" where
  "splitOn s [] = [[]]"
| "splitOn s (c # cs) =
     (if c = s then [] # splitOn s cs
      else case splitOn s cs of [] \<Rightarrow> [[c]] | x # xs \<Rightarrow> (c # x) # xs)"

text \<open>\<open>replaceAll("\r\n", new)\<close>.\<close>

fun replaceCrLf :: "jstring \<Rightarrow> jstring \<Rightarrow> jstring" where
  "replaceCrLf new (c # d # cs) =
     (if c = 13 \<and> d = 10 then new @ replaceCrLf new cs else c # replaceCrLf new (d # cs))"
| "replaceCrLf new cs = cs"

lemma replaceCrLf_no_cr: "13 \<notin> set s \<Longrightarrow> replaceCrLf w s = s"
  by (induction w s rule: replaceCrLf.induct) auto

section \<open>Sets as the source's JavaScript \<open>Set\<close>: first occurrences, and sorting\<close>

text \<open>
  \<open>new Set(xs).size === xs.length\<close> says that no element repeats; \<open>[...new Set(xs)].sort()\<close> is
  the sorted list of the distinct elements (strings compare by code units, as \<open><\<close> does on
  lists of words here).
\<close>

definition uniqueSorted :: "'a::linorder list \<Rightarrow> 'a list" where
  "uniqueSorted xs = sort (remdups xs)"

lemma set_uniqueSorted [simp]: "set (uniqueSorted xs) = set xs"
  by (simp add: uniqueSorted_def)

lemma sorted_uniqueSorted [simp]: "sorted (uniqueSorted xs)"
  by (simp add: uniqueSorted_def)

lemma distinct_uniqueSorted [simp]: "distinct (uniqueSorted xs)"
  by (simp add: uniqueSorted_def)

lemma uniqueSorted_cong: "set xs = set ys \<Longrightarrow> uniqueSorted xs = uniqueSorted ys"
  by (rule sorted_distinct_set_unique) simp_all

lemma sort_set_unique:
  "distinct xs \<Longrightarrow> distinct ys \<Longrightarrow> set xs = set ys \<Longrightarrow> sort xs = sort (ys :: 'a::linorder list)"
  by (rule sorted_distinct_set_unique) simp_all

section \<open>Association lists as objects\<close>

lemma map_of_Some_in: "map_of kvs k = Some v \<Longrightarrow> (k, v) \<in> set kvs"
  by (rule map_of_SomeD)

lemma map_of_sort_key:
  assumes "distinct (map fst kvs)"
  shows "map_of (sort_key fst kvs) = map_of (kvs :: ('k::linorder \<times> 'v) list)"
proof (rule map_of_eqI)
  show "set (map fst (sort_key fst kvs)) = set (map fst kvs)" by simp
next
  have "mset (map fst (sort_key fst kvs)) = mset (map fst kvs)"
    by (simp add: mset_map)
  then have d: "distinct (map fst (sort_key fst kvs))"
    using assms by (metis mset_eq_imp_distinct_iff)
  show "\<forall>k \<in> set (map fst (sort_key fst kvs)). map_of (sort_key fst kvs) k = map_of kvs k"
  proof
    fix k
    assume "k \<in> set (map fst (sort_key fst kvs))"
    then obtain v where kv: "(k, v) \<in> set kvs" by auto
    then have "map_of (sort_key fst kvs) k = Some v"
      using d by (simp add: map_of_eq_Some_iff)
    moreover have "map_of kvs k = Some v"
      using kv assms by (simp add: map_of_eq_Some_iff)
    ultimately show "map_of (sort_key fst kvs) k = map_of kvs k" by simp
  qed
qed

end
