(* ===== verification/Js_Value.thy ===== *)
theory Js_Value
  imports Prelude
begin

text \<open>
  The JavaScript values the program handles.

  A number is kept as the decimal that ECMAScript prints for it: \<open>Dec m e\<close> stands for
  \<open>m * 10 ^ e\<close> with \<open>m\<close> not divisible by 10 (or \<open>Dec 0 0\<close>). The shortest decimal that reads
  back to a finite double identifies the double, orders as the double does, and is the exact
  integer for every safe integer, so equality, comparison, \<open>Number.isSafeInteger\<close> and printing
  agree with the language. NaN and the infinities are the constructor \<open>UNonFinite\<close> of \<open>unknown\<close>.

  \<open>json\<close> is a value known to be plain JSON data (TypeScript's \<open>PolicyJson\<close>, \<open>JsonObject\<close>);
  an object is the list of its own properties in insertion order. \<open>unknown\<close> is a value that
  arrives from outside: it may also be undefined, non-finite, a function or symbol (\<open>UOther\<close>),
  an object with a foreign prototype, symbol keys, accessors or hidden properties, or a
  reference back to an object that encloses it (\<open>UCycle\<close>). Arrays are dense and carry no
  further own properties.
\<close>

section \<open>Numbers\<close>

datatype jsnum = Dec int int

definition num_wf :: "jsnum \<Rightarrow> bool" where
  "num_wf x = (case x of Dec m e \<Rightarrow> (m = 0 \<and> e = 0) \<or> m mod 10 \<noteq> 0)"

function stripZeros :: "nat \<Rightarrow> int \<Rightarrow> nat \<times> int" where
  "stripZeros n e =
     (if n = 0 then (0, 0) else if n mod 10 = 0 then stripZeros (n div 10) (e + 1) else (n, e))"
  by pat_completeness auto
termination by (relation "measure fst") auto

declare stripZeros.simps [simp del]

definition normDec :: "int \<Rightarrow> int \<Rightarrow> jsnum" where
  "normDec m e = (case stripZeros (nat \<bar>m\<bar>) e of (n, e') \<Rightarrow> Dec (sgn m * int n) e')"

definition numInt :: "int \<Rightarrow> jsnum" where
  "numInt n = normDec n 0"

text \<open>\<open>Number.isSafeInteger\<close>, and the integer such a number is.\<close>

definition maxSafeInteger :: int where
  "maxSafeInteger = 9007199254740991"

definition num_to_int :: "jsnum \<Rightarrow> int" where
  "num_to_int x = (case x of Dec m e \<Rightarrow> m * 10 ^ nat e)"

definition isSafeInteger :: "jsnum \<Rightarrow> bool" where
  "isSafeInteger x = (case x of Dec m e \<Rightarrow> 0 \<le> e \<and> \<bar>m * 10 ^ nat e\<bar> \<le> maxSafeInteger)"

text \<open>The order of two finite numbers: both scaled to the smaller exponent.\<close>

definition num_less :: "jsnum \<Rightarrow> jsnum \<Rightarrow> bool" where
  "num_less x y = (case x of Dec a d \<Rightarrow> case y of Dec b e \<Rightarrow>
     a * 10 ^ nat (d - min d e) < b * 10 ^ nat (e - min d e))"

definition num_le :: "jsnum \<Rightarrow> jsnum \<Rightarrow> bool" where
  "num_le x y = (num_less x y \<or> x = y)"

lemma stripZeros_id: "n mod 10 \<noteq> 0 \<Longrightarrow> stripZeros n e = (n, e)"
  by (subst stripZeros.simps) (auto intro: ccontr)

lemma stripZeros_step: "0 < n \<Longrightarrow> stripZeros (n * 10) e = stripZeros n (e + 1)"
  by (subst stripZeros.simps) simp

lemma stripZeros_pow: "n mod 10 \<noteq> 0 \<Longrightarrow> stripZeros (n * 10 ^ z) e = (n, e + int z)"
proof (induction z arbitrary: e)
  case 0
  then show ?case by (simp add: stripZeros_id)
next
  case (Suc z)
  then have "0 < n * 10 ^ z" by (auto intro: ccontr)
  then have "stripZeros (n * 10 ^ z * 10) e = stripZeros (n * 10 ^ z) (e + 1)"
    by (rule stripZeros_step)
  with Suc show ?case by (simp add: algebra_simps)
qed

lemma stripZeros_props:
  "stripZeros n e = (k, f) \<Longrightarrow> 0 < n \<Longrightarrow> k mod 10 \<noteq> 0 \<and> (\<exists>z. f = e + int z \<and> n = k * 10 ^ z)"
proof (induction n e rule: stripZeros.induct)
  case (1 n e)
  show ?case
  proof (cases "n mod 10 = 0")
    case True
    with "1.prems" have "stripZeros (n div 10) (e + 1) = (k, f)" and "0 < n div 10"
      by (auto simp: stripZeros.simps [of n])
    with "1.IH" "1.prems" True obtain z where
      "k mod 10 \<noteq> 0" "f = e + 1 + int z" "n div 10 = k * 10 ^ z" by auto
    moreover from True have "n = n div 10 * 10" by auto
    ultimately have "k mod 10 \<noteq> 0 \<and> f = e + int (Suc z) \<and> n = k * 10 ^ Suc z" by simp
    then show ?thesis by blast
  next
    case False
    with "1.prems" have "k = n" "f = e" by (auto simp: stripZeros_id)
    with False show ?thesis by (intro conjI exI [of _ 0]) simp_all
  qed
qed

lemma nat_abs_mod10: "nat \<bar>m\<bar> mod 10 = 0 \<longleftrightarrow> m mod 10 = 0"
  by (simp add: mod_eq_0_iff_dvd dvd_nat_abs_iff)

lemma normDec_id:
  assumes "m mod 10 \<noteq> 0" shows "normDec m e = Dec m e"
proof -
  have "nat \<bar>m\<bar> mod 10 \<noteq> 0" using assms by (simp add: nat_abs_mod10)
  then show ?thesis
    by (simp add: normDec_def stripZeros_id sgn_mult_abs)
qed

lemma normDec_pow:
  assumes "m mod 10 \<noteq> 0" shows "normDec (m * 10 ^ z) e = Dec m (e + int z)"
proof -
  have "nat \<bar>m\<bar> mod 10 \<noteq> 0" using assms by (simp add: nat_abs_mod10)
  moreover have "nat \<bar>m * 10 ^ z\<bar> = nat \<bar>m\<bar> * 10 ^ z"
    by (simp add: abs_mult nat_mult_distrib nat_power_eq)
  moreover have "sgn (m * 10 ^ z) = sgn m" by (simp add: sgn_mult)
  ultimately show ?thesis
    by (simp add: normDec_def stripZeros_pow sgn_mult_abs)
qed

lemma normDec_zero [simp]: "normDec 0 e = Dec 0 0"
  by (simp add: normDec_def stripZeros.simps)

lemma normDec_value:
  assumes "m \<noteq> 0"
  obtains k z where "normDec m e = Dec k (e + int z)" "k mod 10 \<noteq> 0" "m = k * 10 ^ z"
proof -
  obtain n f where s: "stripZeros (nat \<bar>m\<bar>) e = (n, f)" by fastforce
  with assms obtain z where z: "n mod 10 \<noteq> 0" "f = e + int z" "nat \<bar>m\<bar> = n * 10 ^ z"
    using stripZeros_props by fastforce
  have "\<bar>m\<bar> = int n * 10 ^ z"
    using z(3) by (metis abs_ge_zero int_nat_eq of_nat_mult of_nat_numeral of_nat_power)
  then have m: "m = sgn m * int n * 10 ^ z"
    by (metis mult.assoc sgn_mult_abs)
  have "sgn m * int n mod 10 \<noteq> 0"
    using z(1) assms by (cases "m > 0") (auto simp: sgn_if, presburger+)
  moreover have "normDec m e = Dec (sgn m * int n) (e + int z)"
    using s z(2) by (simp add: normDec_def)
  ultimately show thesis using that m by blast
qed

lemma num_wf_normDec [simp]: "num_wf (normDec m e)"
  by (cases "m = 0") (auto simp: num_wf_def elim: normDec_value [of m e])

lemma num_wf_numInt [simp]: "num_wf (numInt n)"
  by (simp add: numInt_def)

lemma num_to_int_numInt [simp]: "num_to_int (numInt n) = n"
proof (cases "n = 0")
  case False
  then obtain k z where "normDec n 0 = Dec k (0 + int z)" "n = k * 10 ^ z"
    by (rule normDec_value)
  then show ?thesis by (simp add: numInt_def num_to_int_def)
qed (simp add: numInt_def num_to_int_def)

lemma isSafeInteger_numInt [simp]: "isSafeInteger (numInt n) \<longleftrightarrow> \<bar>n\<bar> \<le> maxSafeInteger"
proof (cases "n = 0")
  case False
  then obtain k z where "normDec n 0 = Dec k (0 + int z)" "n = k * 10 ^ z"
    by (rule normDec_value)
  then show ?thesis by (simp add: numInt_def isSafeInteger_def)
qed (simp add: numInt_def isSafeInteger_def maxSafeInteger_def)

lemma numInt_num_to_int:
  assumes "num_wf x" "isSafeInteger x" shows "numInt (num_to_int x) = x"
proof (cases x)
  case (Dec m e)
  show ?thesis
  proof (cases "m mod 10 = 0")
    case True
    with assms Dec show ?thesis by (simp add: num_wf_def num_to_int_def numInt_def)
  next
    case False
    with assms(2) Dec show ?thesis
      by (simp add: num_to_int_def numInt_def normDec_pow isSafeInteger_def)
  qed
qed

lemma numInt_inject [simp]: "numInt a = numInt b \<longleftrightarrow> a = b"
  by (metis num_to_int_numInt)

section \<open>Values\<close>

datatype json =
    JNull
  | JBool bool
  | JNum jsnum
  | JStr jstring
  | JArr "json list"
  | JObj "(jstring \<times> json) list"

datatype unknown =
    UUndefined
  | UNull
  | UBool bool
  | UNum jsnum
  | UNonFinite
  | UStr jstring
  | UArr "unknown list"
  | UObj bool "member list"        \<comment> \<open>plain prototype?, own properties in key order\<close>
  | UCycle                         \<comment> \<open>an object that encloses this position\<close>
  | UOther jstring                 \<comment> \<open>function, symbol or bigint: its typeof\<close>
and member = Member "jstring option" bool bool unknown
    \<comment> \<open>key (\<open>None\<close>: a symbol), data property?, enumerable?, value\<close>

type_synonym jobject = "(jstring \<times> json) list"

text \<open>A JSON value as the language sees it: plain objects, data properties.\<close>

fun of_json :: "json \<Rightarrow> unknown" where
  "of_json JNull = UNull"
| "of_json (JBool b) = UBool b"
| "of_json (JNum n) = UNum n"
| "of_json (JStr s) = UStr s"
| "of_json (JArr xs) = UArr (map of_json xs)"
| "of_json (JObj kvs) = UObj True (map (\<lambda>(k, v). Member (Some k) True True (of_json v)) kvs)"

text \<open>
  What every JSON value of the language satisfies: printed numbers are in their normal form and
  the keys of an object are distinct.
\<close>

fun json_wf :: "json \<Rightarrow> bool" where
  "json_wf JNull = True"
| "json_wf (JBool b) = True"
| "json_wf (JNum n) = num_wf n"
| "json_wf (JStr s) = True"
| "json_wf (JArr xs) = (\<forall>x \<in> set xs. json_wf x)"
| "json_wf (JObj kvs) = (distinct (map fst kvs) \<and> (\<forall>(k, v) \<in> set kvs. json_wf v))"

text \<open>The same of a value of any kind; every value of the language satisfies it.\<close>

fun stringKey :: "member \<Rightarrow> jstring option" where
  "stringKey (Member k d e v) = k"

fun unknown_wf :: "unknown \<Rightarrow> bool"
  and unknowns_wf :: "unknown list \<Rightarrow> bool"
  and members_wf :: "member list \<Rightarrow> bool" where
  "unknown_wf (UNum n) = num_wf n"
| "unknown_wf (UArr xs) = unknowns_wf xs"
| "unknown_wf (UObj plain ms) =
     (distinct (filter (\<lambda>k. k \<noteq> None) (map stringKey ms)) \<and> members_wf ms)"
| "unknown_wf v = True"
| "unknowns_wf [] = True"
| "unknowns_wf (x # xs) = (unknown_wf x \<and> unknowns_wf xs)"
| "members_wf [] = True"
| "members_wf (Member k d e v # ms) = (unknown_wf v \<and> members_wf ms)"

lemma unknowns_wf_iff: "unknowns_wf xs \<longleftrightarrow> (\<forall>x \<in> set xs. unknown_wf x)"
  by (induction xs) auto

lemma members_wf_of_json:
  "members_wf (map (\<lambda>(k, v). Member (Some k) True True (of_json v)) kvs) \<longleftrightarrow>
     (\<forall>kv \<in> set kvs. unknown_wf (of_json (snd kv)))"
  by (induction kvs) auto

lemma unknown_wf_of_json: "unknown_wf (of_json j) = json_wf j"
proof (induction j rule: json_wf.induct)
  case (6 kvs)
  have "filter (\<lambda>k. k \<noteq> None)
      (map stringKey (map (\<lambda>(k, v). Member (Some k) True True (of_json v)) kvs)) =
      map Some (map fst kvs)"
    by (induction kvs) auto
  then have "distinct (filter (\<lambda>k. k \<noteq> None)
      (map stringKey (map (\<lambda>(k, v). Member (Some k) True True (of_json v)) kvs))) =
      distinct (map fst kvs)"
    by (simp only: distinct_map [of Some] inj_on_subset [OF inj_Some subset_UNIV] simp_thms)
  with 6 show ?case by (auto simp: members_wf_of_json)
qed (auto simp: unknowns_wf_iff)

text \<open>Key order is not observable in the canonical text: \<open>norm\<close> sorts the keys of every object.\<close>

fun norm :: "json \<Rightarrow> json" where
  "norm (JArr xs) = JArr (map norm xs)"
| "norm (JObj kvs) = JObj (sort_key fst (map (\<lambda>(k, v). (k, norm v)) kvs))"
| "norm j = j"

lemma of_json_inject: "of_json a = of_json b \<Longrightarrow> a = b"
proof (induction a arbitrary: b rule: norm.induct)
  case (1 xs)
  then obtain ys where b: "b = JArr ys" by (cases b) auto
  with "1.prems" have "list_all2 (\<lambda>x y. of_json x = of_json y) xs ys"
    by (auto simp: list_all2_conv_all_nth list_eq_iff_nth_eq)
  then have "list_all2 (=) xs ys"
    by (rule list.rel_mono_strong) (use "1.IH" in auto)
  then show ?case using b by (simp add: list.rel_eq)
next
  case (2 kvs)
  let ?f = "\<lambda>(k, v). Member (Some k) True True (of_json v)"
  obtain ls where b: "b = JObj ls" using "2.prems" by (cases b) auto
  with "2.prems" have "map ?f kvs = map ?f ls" by simp
  then have "list_all2 (\<lambda>x y. ?f x = ?f y) kvs ls"
    by (auto simp: list_all2_conv_all_nth list_eq_iff_nth_eq)
  then have "list_all2 (=) kvs ls"
    by (rule list.rel_mono_strong) (use "2.IH" in auto)
  then show ?case using b by (simp add: list.rel_eq)
qed (case_tac b; simp)+

abbreviation getKey :: "jobject \<Rightarrow> string \<Rightarrow> json option" where
  "getKey obj k \<equiv> map_of obj (js k)"

definition objKeys :: "jobject \<Rightarrow> jstring list" where
  "objKeys obj = map fst obj"

fun asObject :: "json \<Rightarrow> jobject option" where
  "asObject (JObj kvs) = Some kvs"
| "asObject _ = None"

fun asString :: "json \<Rightarrow> jstring option" where
  "asString (JStr s) = Some s"
| "asString _ = None"

fun asArray :: "json \<Rightarrow> json list option" where
  "asArray (JArr xs) = Some xs"
| "asArray _ = None"

lemma asObject_Some [simp]: "asObject v = Some kvs \<longleftrightarrow> v = JObj kvs"
  by (cases v) auto

lemma asString_Some [simp]: "asString v = Some s \<longleftrightarrow> v = JStr s"
  by (cases v) auto

lemma asArray_Some [simp]: "asArray v = Some xs \<longleftrightarrow> v = JArr xs"
  by (cases v) auto

end
