(* ===== verification/Canonical_Json.thy ===== *)
theory Canonical_Json
  imports Js_Value
begin

text \<open>
  \<open>packages/contracts/src/canonical-json.ts\<close>: the canonical text of a JavaScript value, which every
  hash of the system is taken over. \<open>canonicalize\<close> is the source's function on values of any
  kind, with every TypeError it throws; \<open>canon\<close> is its result on plain JSON data. The parts of
  the language it uses (\<open>JSON.stringify\<close> of strings and numbers, \<open>JSON.parse\<close> of the text it
  produced) are written out. The theorems: canonicalisation succeeds on every JSON value, its
  text reads back to the value up to key order, and so two values have the same text exactly when
  they are equal up to key order.
\<close>

section \<open>JSON.stringify of a string\<close>

definition isHigh :: "16 word \<Rightarrow> bool" where
  "isHigh c = (0xD800 \<le> c \<and> c \<le> 0xDBFF)"

definition isLow :: "16 word \<Rightarrow> bool" where
  "isLow c = (0xDC00 \<le> c \<and> c \<le> 0xDFFF)"

definition hexUnit :: "nat \<Rightarrow> 16 word" where
  "hexUnit d = (if d < 10 then 48 + of_nat d else 87 + of_nat d)"

definition escape4 :: "16 word \<Rightarrow> jstring" where
  "escape4 c = [92, 117, hexUnit (unat c div 4096), hexUnit (unat c div 256 mod 16),
                hexUnit (unat c div 16 mod 16), hexUnit (unat c mod 16)]"

definition quoteUnit :: "16 word \<Rightarrow> jstring" where
  "quoteUnit c =
     (if c = 34 then [92, 34] else if c = 92 then [92, 92] else if c = 8 then [92, 98]
      else if c = 12 then [92, 102] else if c = 10 then [92, 110] else if c = 13 then [92, 114]
      else if c = 9 then [92, 116] else if c < 32 then escape4 c else [c])"

fun quoteUnits :: "jstring \<Rightarrow> jstring" where
  "quoteUnits [] = []"
| "quoteUnits (c # cs) =
     (if isHigh c
      then (case cs of
              [] \<Rightarrow> escape4 c
            | d # r \<Rightarrow> if isLow d then c # d # quoteUnits r else escape4 c @ quoteUnits cs)
      else if isLow c then escape4 c @ quoteUnits cs
      else quoteUnit c @ quoteUnits cs)"

definition quoteString :: "jstring \<Rightarrow> jstring" where
  "quoteString s = 34 # quoteUnits s @ [34]"

text \<open>\<open>JSON.parse\<close> of a string literal, after its opening quote: the string and what follows.\<close>

definition hexVal :: "16 word \<Rightarrow> nat option" where
  "hexVal c = (if 48 \<le> c \<and> c \<le> 57 then Some (unat c - 48)
               else if 97 \<le> c \<and> c \<le> 102 then Some (unat c - 87)
               else if 65 \<le> c \<and> c \<le> 70 then Some (unat c - 55) else None)"

definition simpleEscape :: "16 word \<Rightarrow> 16 word option" where
  "simpleEscape e =
     (if e = 34 \<or> e = 92 \<or> e = 47 then Some e else if e = 98 then Some 8
      else if e = 102 then Some 12 else if e = 110 then Some 10 else if e = 114 then Some 13
      else if e = 116 then Some 9 else None)"

definition consUnit :: "16 word \<Rightarrow> (jstring \<times> jstring) option \<Rightarrow> (jstring \<times> jstring) option" where
  "consUnit c m = map_option (\<lambda>(s, r). (c # s, r)) m"

definition hexVal4 :: "16 word \<Rightarrow> 16 word \<Rightarrow> 16 word \<Rightarrow> 16 word \<Rightarrow> 16 word option" where
  "hexVal4 a b c d =
     (case (hexVal a, hexVal b, hexVal c, hexVal d) of
        (Some w, Some x, Some y, Some z) \<Rightarrow> Some (of_nat (w * 4096 + x * 256 + y * 16 + z))
      | _ \<Rightarrow> None)"

fun unquote :: "jstring \<Rightarrow> (jstring \<times> jstring) option" where
  "unquote [] = None"
| "unquote (c # cs) =
     (if c = 34 then Some ([], cs)
      else if c = 92 then
        (case cs of
           [] \<Rightarrow> None
         | e # r \<Rightarrow>
             if e = 117 then
               (case r of
                  h3 # h2 # h1 # h0 # r' \<Rightarrow>
                    (case hexVal4 h3 h2 h1 h0 of None \<Rightarrow> None | Some u \<Rightarrow> consUnit u (unquote r'))
                | _ \<Rightarrow> None)
             else (case simpleEscape e of None \<Rightarrow> None | Some u \<Rightarrow> consUnit u (unquote r)))
      else if c < 32 then None
      else consUnit c (unquote cs))"

section \<open>JSON.stringify of a number\<close>

definition zeros :: "nat \<Rightarrow> jstring" where
  "zeros n = replicate n 48"

text \<open>
  ECMAScript's Number::toString for a positive number with digits \<open>ds\<close> (k of them) and decimal
  point position n.
\<close>

definition posToString :: "nat \<Rightarrow> int \<Rightarrow> jstring" where
  "posToString m e =
     (let ds = natStr m; k = int (length ds); n = k + e in
      if k \<le> n \<and> n \<le> 21 then ds @ zeros (nat (n - k))
      else if 0 < n \<and> n \<le> 21 then take (nat n) ds @ [46] @ drop (nat n) ds
      else if -6 < n \<and> n \<le> 0 then [48, 46] @ zeros (nat (- n)) @ ds
      else take 1 ds @ (if k = 1 then [] else 46 # drop 1 ds) @
           [101, if 0 < n then 43 else 45] @ natStr (nat \<bar>n - 1\<bar>))"

definition numToString :: "jsnum \<Rightarrow> jstring" where
  "numToString x = (case x of Dec m e \<Rightarrow>
     if m = 0 then [48] else if m < 0 then 45 # posToString (nat (- m)) e
     else posToString (nat m) e)"

text \<open>Reading such a text back.\<close>

definition isDigit :: "16 word \<Rightarrow> bool" where
  "isDigit c = (48 \<le> c \<and> c \<le> 57)"

definition valDigits :: "jstring \<Rightarrow> nat" where
  "valDigits s = foldl (\<lambda>a c. 10 * a + (unat c - 48)) 0 s"

definition decodePos :: "jstring \<Rightarrow> nat \<times> int" where
  "decodePos s =
     (let ip = takeWhile isDigit s;
          s1 = dropWhile isDigit s;
          fp = (case s1 of [] \<Rightarrow> [] | c # t \<Rightarrow> if c = 46 then takeWhile isDigit t else []);
          s2 = (case s1 of [] \<Rightarrow> [] | c # t \<Rightarrow> if c = 46 then dropWhile isDigit t else s1);
          ex = (case s2 of c # sg # t \<Rightarrow> if sg = 45 then - int (valDigits t) else int (valDigits t)
                | _ \<Rightarrow> 0)
      in (valDigits (ip @ fp), ex - int (length fp)))"

definition decodeNum :: "jstring \<Rightarrow> jsnum" where
  "decodeNum s =
     (case s of
        [] \<Rightarrow> Dec 0 0
      | c # t \<Rightarrow> if c = 45 then (case decodePos t of (m, e) \<Rightarrow> normDec (- int m) e)
                 else (case decodePos s of (m, e) \<Rightarrow> normDec (int m) e))"

definition isNumChar :: "16 word \<Rightarrow> bool" where
  "isNumChar c = (isDigit c \<or> c = 45 \<or> c = 43 \<or> c = 46 \<or> c = 101)"

section \<open>The canonical text\<close>

fun memberKey :: "member \<Rightarrow> jstring option" where
  "memberKey (Member k d e v) = k"

fun canonicalize :: "unknown \<Rightarrow> jstring + jstring"
  and canonicalizeItems :: "unknown list \<Rightarrow> jstring + jstring list"
  and canonicalizeMembers :: "member list \<Rightarrow> (jstring \<times> (jstring + jstring)) list" where
  "canonicalize UNull = Inr (js ''null'')"
| "canonicalize (UBool b) = Inr (if b then js ''true'' else js ''false'')"
| "canonicalize (UStr s) = Inr (quoteString s)"
| "canonicalize UNonFinite = Inl (js ''Canonical JSON does not permit non-finite numbers'')"
| "canonicalize (UNum n) = Inr (numToString n)"
| "canonicalize UCycle = Inl (js ''Canonical JSON does not permit cyclic values'')"
| "canonicalize (UArr xs) =
     bindE (canonicalizeItems xs) (\<lambda>items. Inr (91 # joinWith [44] items @ [93]))"
| "canonicalize (UObj plain ms) =
     (if list_ex (\<lambda>m. memberKey m = None) ms
      then Inl (js ''Canonical JSON does not permit symbol properties'')
      else if \<not> plain then Inl (js ''Canonical JSON requires plain objects'')
      else bindE (mapE snd (sort_key fst (canonicalizeMembers ms))) (\<lambda>members.
             if length members \<noteq> length ms
             then Inl (js ''Canonical JSON does not permit non-enumerable properties'')
             else Inr (123 # joinWith [44] members @ [125])))"
| "canonicalize UUndefined =
     Inl (js ''Value cannot be represented as canonical JSON: undefined'')"
| "canonicalize (UOther ty) = Inl (js ''Value cannot be represented as canonical JSON: '' @ ty)"
| "canonicalizeItems [] = Inr []"
| "canonicalizeItems (x # xs) =
     bindE (canonicalize x) (\<lambda>t. bindE (canonicalizeItems xs) (\<lambda>ts. Inr (t # ts)))"
| "canonicalizeMembers [] = []"
| "canonicalizeMembers (Member k isData enumerable v # ms) =
     (case k of
        Some key \<Rightarrow>
          if enumerable
          then (key, if isData then bindE (canonicalize v) (\<lambda>t. Inr (quoteString key @ [58] @ t))
                     else Inl (js ''Canonical JSON does not permit accessors''))
               # canonicalizeMembers ms
          else canonicalizeMembers ms
      | None \<Rightarrow> canonicalizeMembers ms)"

text \<open>The text of plain JSON data, and the hash the callers take of it (\<open>sha\<close> is SHA-256).\<close>

fun canon :: "json \<Rightarrow> jstring" where
  "canon JNull = js ''null''"
| "canon (JBool b) = (if b then js ''true'' else js ''false'')"
| "canon (JNum n) = numToString n"
| "canon (JStr s) = quoteString s"
| "canon (JArr xs) = 91 # joinWith [44] (map canon xs) @ [93]"
| "canon (JObj kvs) =
     123 # joinWith [44] (map snd (sort_key fst
             (map (\<lambda>(k, v). (k, quoteString k @ [58] @ canon v)) kvs))) @ [125]"

definition canonicalJson :: "unknown \<Rightarrow> jstring + jstring" where
  "canonicalJson v = canonicalize v"

definition canonicalJsonSha256 :: "(jstring \<Rightarrow> jstring) \<Rightarrow> unknown \<Rightarrow> jstring + jstring" where
  "canonicalJsonSha256 sha v = bindE (canonicalJson v) (\<lambda>t. Inr (sha t))"

text \<open>\<open>JSON.parse\<close> of a canonical text (no white space between the tokens).\<close>

fun parseValue :: "nat \<Rightarrow> jstring \<Rightarrow> (json \<times> jstring) option"
  and parseElems :: "nat \<Rightarrow> jstring \<Rightarrow> (json list \<times> jstring) option"
  and parseMembers :: "nat \<Rightarrow> jstring \<Rightarrow> (jobject \<times> jstring) option" where
  "parseValue 0 s = None"
| "parseValue (Suc n) s =
     (case s of
        [] \<Rightarrow> None
      | c # cs \<Rightarrow>
          if c = 34 then map_option (\<lambda>(t, r). (JStr t, r)) (unquote cs)
          else if c = 91 then
            (case cs of
               [] \<Rightarrow> None
             | d # r \<Rightarrow> if d = 93 then Some (JArr [], r)
                        else map_option (\<lambda>(xs, r). (JArr xs, r)) (parseElems n cs))
          else if c = 123 then
            (case cs of
               [] \<Rightarrow> None
             | d # r \<Rightarrow> if d = 125 then Some (JObj [], r)
                        else map_option (\<lambda>(kvs, r). (JObj kvs, r)) (parseMembers n cs))
          else if c = 110 then
            (if startsWith s (js ''null'') then Some (JNull, drop 4 s) else None)
          else if c = 116 then
            (if startsWith s (js ''true'') then Some (JBool True, drop 4 s) else None)
          else if c = 102 then
            (if startsWith s (js ''false'') then Some (JBool False, drop 5 s) else None)
          else if isDigit c \<or> c = 45 then
            Some (JNum (decodeNum (takeWhile isNumChar s)), dropWhile isNumChar s)
          else None)"
| "parseElems 0 s = None"
| "parseElems (Suc n) s =
     (case parseValue n s of
        None \<Rightarrow> None
      | Some (x, r) \<Rightarrow>
          (case r of
             [] \<Rightarrow> None
           | c # r' \<Rightarrow>
               if c = 93 then Some ([x], r')
               else if c = 44 then map_option (\<lambda>(xs, r). (x # xs, r)) (parseElems n r')
               else None))"
| "parseMembers 0 s = None"
| "parseMembers (Suc n) s =
     (case s of
        [] \<Rightarrow> None
      | q # cs \<Rightarrow>
          if q \<noteq> 34 then None
          else
            (case unquote cs of
               None \<Rightarrow> None
             | Some (k, r0) \<Rightarrow>
                 (case r0 of
                    [] \<Rightarrow> None
                  | col # r1 \<Rightarrow>
                      if col \<noteq> 58 then None
                      else
                        (case parseValue n r1 of
                           None \<Rightarrow> None
                         | Some (v, r) \<Rightarrow>
                             (case r of
                                [] \<Rightarrow> None
                              | c # r' \<Rightarrow>
                                  if c = 125 then Some ([(k, v)], r')
                                  else if c = 44 then
                                    map_option (\<lambda>(kvs, r). ((k, v) # kvs, r)) (parseMembers n r')
                                  else None)))))"

definition parseCanonical :: "jstring \<Rightarrow> json option" where
  "parseCanonical s =
     (case parseValue (length s) s of Some (j, r) \<Rightarrow> if r = [] then Some j else None | None \<Rightarrow> None)"

section \<open>Strings read back\<close>

lemma hexUnit_of_nat: "hexUnit d = of_nat (if d < 10 then 48 + d else 87 + d)"
  by (simp add: hexUnit_def)

lemma hexVal_hexUnit: "d < 16 \<Longrightarrow> hexVal (hexUnit d) = Some d"
  by (auto simp: hexVal_def hexUnit_of_nat word_le_nat_alt unat_of_nat simp del: of_nat_add)

lemma nat_split16:
  "n div 4096 * 4096 + n div 256 mod 16 * 256 + n div 16 mod 16 * 16 + n mod 16 = (n::nat)"
proof -
  have "n div 256 div 16 * 16 + n div 256 mod 16 = n div 256"
    "n div 16 div 16 * 16 + n div 16 mod 16 = n div 16" "n div 16 * 16 + n mod 16 = n"
    by (rule div_mult_mod_eq)+
  moreover have "n div 256 div 16 = n div 4096" "n div 16 div 16 = n div 256"
    by (simp_all add: div_mult2_eq [symmetric])
  ultimately show ?thesis by linarith
qed

lemma hexVal4_hexUnit:
  "hexVal4 (hexUnit (unat c div 4096)) (hexUnit (unat c div 256 mod 16))
     (hexUnit (unat c div 16 mod 16)) (hexUnit (unat c mod 16)) = Some c"
proof -
  have "unat c < 65536" using unsigned_less [of c] by simp
  then have "unat c div 4096 < 16" by simp
  then show ?thesis
    by (simp add: hexVal4_def hexVal_hexUnit nat_split16 del: of_nat_add of_nat_mult)
qed

lemma unquote_escape4: "unquote (escape4 c @ r) = consUnit c (unquote r)"
  by (simp add: escape4_def hexVal4_hexUnit)

lemma surrogate_plain:
  assumes "isHigh c \<or> isLow c"
  shows "unquote (c # r) = consUnit c (unquote r)"
proof -
  have "\<not> c < 32" "c \<noteq> 34" "c \<noteq> 92"
    using assms by (auto simp: isHigh_def isLow_def dest: order.strict_trans1)
  then show ?thesis by simp
qed

lemma unquote_quoteUnit: "unquote (quoteUnit c @ r) = consUnit c (unquote r)"
  using unquote_escape4 [of c r] by (simp add: quoteUnit_def simpleEscape_def)

lemma unquote_quoteUnits: "unquote (quoteUnits s @ 34 # r) = Some (s, r)"
proof (induction s rule: quoteUnits.induct)
  case 1
  then show ?case by simp
next
  case (2 c cs)
  then show ?case
    by (auto simp: unquote_escape4 unquote_quoteUnit surrogate_plain consUnit_def unquote.simps(2) [of 34 r] simp del: unquote.simps(2) split: list.splits)
qed

section \<open>Numbers read back\<close>

lemma digits10_lt: "d \<in> set (digits10 n) \<Longrightarrow> d < 10"
proof (induction n rule: digits10.induct)
  case (1 n)
  then show ?case by (subst (asm) (2) digits10.simps) (auto split: if_splits)
qed

lemma unat_digitUnit: "d < 10 \<Longrightarrow> unat (digitUnit d) = 48 + d"
proof -
  have "digitUnit d = of_nat (48 + d)" by (simp add: digitUnit_def)
  then show "d < 10 \<Longrightarrow> ?thesis" by (simp add: unat_of_nat del: of_nat_add)
qed

lemma isDigit_digitUnit: "d < 10 \<Longrightarrow> isDigit (digitUnit d)"
  by (simp add: isDigit_def word_le_nat_alt unat_digitUnit)

lemma isDigit_natStr: "c \<in> set (natStr n) \<Longrightarrow> isDigit c"
  by (auto simp: natStr_def isDigit_digitUnit dest: digits10_lt)

lemma natStr_nonempty [simp]: "natStr n \<noteq> []"
  by (subst natStr_def, subst digits10.simps) simp

lemma valDigits_append: "valDigits (a @ b) = valDigits a * 10 ^ length b + valDigits b"
proof (induction b rule: rev_induct)
  case (snoc x xs)
  then show ?case by (simp add: valDigits_def append.assoc [symmetric] algebra_simps del: append.assoc append_assoc)
qed (simp add: valDigits_def)

lemma valDigits_zeros [simp]: "valDigits (zeros n) = 0"
proof (induction n)
  case (Suc n)
  have "zeros (Suc n) = zeros n @ [48]"
    by (simp add: zeros_def replicate_append_same)
  with Suc show ?case by (simp add: valDigits_def)
qed (simp add: valDigits_def zeros_def)

lemma valDigits_natStr [simp]: "valDigits (natStr n) = n"
proof (induction n rule: digits10.induct)
  case (1 n)
  show ?case
  proof (cases "n < 10")
    case True
    then show ?thesis
      by (simp add: natStr_def digits10.simps [of n] valDigits_def unat_digitUnit)
  next
    case False
    have "natStr n = natStr (n div 10) @ [digitUnit (n mod 10)]"
      using False by (simp add: natStr_def digits10.simps [of n])
    with 1 False show ?thesis
      by (simp add: valDigits_append) (simp add: valDigits_def unat_digitUnit)
  qed
qed

lemma isDigit_zeros: "c \<in> set (zeros n) \<Longrightarrow> isDigit c"
  by (auto simp: zeros_def isDigit_def)

lemma length_zeros [simp]: "length (zeros n) = n"
  by (simp add: zeros_def)

lemma isDigit_consts [simp]: "\<not> isDigit 46" "\<not> isDigit 101" "\<not> isDigit 45" "\<not> isDigit 43" "isDigit 48"
  by (simp_all add: isDigit_def)

lemma takeWhile_digits:
  assumes "\<And>c. c \<in> set ds \<Longrightarrow> isDigit c" "t = [] \<or> \<not> isDigit (hd t)"
  shows "takeWhile isDigit (ds @ t) = ds" "dropWhile isDigit (ds @ t) = t"
  using assms by (cases t; simp add: takeWhile_append dropWhile_append)+

lemma takeWhile_all_digits:
  assumes "\<And>c. c \<in> set ds \<Longrightarrow> isDigit c"
  shows "takeWhile isDigit ds = ds" "dropWhile isDigit ds = []"
  using assms by (simp_all add: takeWhile_eq_all_conv)

text \<open>The four shapes of a printed number, decoded.\<close>

lemma decodePos_plain:
  assumes "\<And>c. c \<in> set ds \<Longrightarrow> isDigit c"
  shows "decodePos ds = (valDigits ds, 0)"
  by (simp add: decodePos_def Let_def takeWhile_all_digits [OF assms])

lemma decodePos_frac:
  assumes "\<And>c. c \<in> set ds \<Longrightarrow> isDigit c" "\<And>c. c \<in> set fs \<Longrightarrow> isDigit c"
  shows "decodePos (ds @ 46 # fs) = (valDigits (ds @ fs), - int (length fs))"
  using takeWhile_digits [of ds "46 # fs"]
  by (simp add: decodePos_def Let_def takeWhile_all_digits assms)

lemma decodePos_exp:
  assumes "\<And>c. c \<in> set ds \<Longrightarrow> isDigit c" "\<And>c. c \<in> set fs \<Longrightarrow> isDigit c"
  shows "decodePos (ds @ (if fs = [] then [] else 46 # fs) @ 101 # sg # natStr x) =
    (valDigits (ds @ fs), (if sg = 45 then - int x else int x) - int (length fs))"
proof (cases "fs = []")
  case True
  then show ?thesis
    using takeWhile_digits [of ds "101 # sg # natStr x"] assms
    by (simp add: decodePos_def Let_def)
next
  case False
  then show ?thesis
    using takeWhile_digits [of ds "46 # fs @ 101 # sg # natStr x"]
      takeWhile_digits [of fs "101 # sg # natStr x"] assms
    by (simp add: decodePos_def Let_def)
qed

lemma decodePos_posToString:
  "\<exists>z. decodePos (posToString m e) = (m * 10 ^ z, e - int z)"
proof -
  define ds where "ds = natStr m"
  define n where "n = int (length ds) + e"
  have dig: "\<And>c. c \<in> set ds \<Longrightarrow> isDigit c" "ds \<noteq> []" and val: "valDigits ds = m"
    by (auto simp: ds_def isDigit_natStr)
  have str: "posToString m e =
     (if int (length ds) \<le> n \<and> n \<le> 21 then ds @ zeros (nat (n - int (length ds)))
      else if 0 < n \<and> n \<le> 21 then take (nat n) ds @ 46 # drop (nat n) ds
      else if -6 < n \<and> n \<le> 0 then 48 # 46 # zeros (nat (- n)) @ ds
      else take 1 ds @ (if drop 1 ds = [] then [] else 46 # drop 1 ds) @
           101 # (if 0 < n then 43 else 45) # natStr (nat \<bar>n - 1\<bar>))"
    using dig(2) by (cases ds) (auto simp: posToString_def Let_def ds_def [symmetric] n_def)
  have sub: "c \<in> set (take k ds) \<Longrightarrow> isDigit c" "c \<in> set (drop k ds) \<Longrightarrow> isDigit c" for c k
    using dig(1) by (auto dest: in_set_takeD in_set_dropD)
  consider (int) "int (length ds) \<le> n" "n \<le> 21"
    | (frac) "\<not> (int (length ds) \<le> n \<and> n \<le> 21)" "0 < n" "n \<le> 21"
    | (small) "\<not> (int (length ds) \<le> n \<and> n \<le> 21)" "-6 < n" "n \<le> 0"
    | (exp) "\<not> (int (length ds) \<le> n \<and> n \<le> 21)" "\<not> (0 < n \<and> n \<le> 21)" "\<not> (-6 < n \<and> n \<le> 0)"
    by linarith
  then show ?thesis
  proof cases
    case int
    let ?z = "nat (n - int (length ds))"
    have "decodePos (posToString m e) = (valDigits (ds @ zeros ?z), 0)"
      using int by (subst str) (auto intro!: decodePos_plain simp: dig isDigit_zeros)
    also have "valDigits (ds @ zeros ?z) = m * 10 ^ ?z"
      by (simp add: valDigits_append val)
    finally show ?thesis using int by (intro exI [of _ ?z]) (simp add: n_def)
  next
    case frac
    have "decodePos (posToString m e) = (valDigits (take (nat n) ds @ drop (nat n) ds), - int (length (drop (nat n) ds)))"
      using frac by (subst str) (simp add: decodePos_frac sub del: append_take_drop_id)
    then show ?thesis using frac by (intro exI [of _ 0]) (auto simp: val n_def)
  next
    case small
    have fs: "c \<in> set (zeros (nat (- n)) @ ds) \<Longrightarrow> isDigit c" for c
      using dig(1) isDigit_zeros by auto
    have "decodePos ([48] @ 46 # zeros (nat (- n)) @ ds) =
       (valDigits ([48] @ zeros (nat (- n)) @ ds), - int (length (zeros (nat (- n)) @ ds)))"
      by (rule decodePos_frac) (use fs in auto)
    then have "decodePos (posToString m e) =
       (valDigits ([48] @ zeros (nat (- n)) @ ds), - int (length (zeros (nat (- n)) @ ds)))"
      using small by (subst str) simp
    then have "decodePos (posToString m e) = (m, e)"
      using small unfolding valDigits_append [of "[48]"] valDigits_append [of "zeros _"]
      by (simp add: val n_def) (simp add: valDigits_def)
    then show ?thesis by (intro exI [of _ 0]) simp
  next
    case exp
    let ?sg = "if 0 < n then 43 else (45 :: 16 word)"
    have "posToString m e = take 1 ds @ (if drop 1 ds = [] then [] else 46 # drop 1 ds) @
        101 # ?sg # natStr (nat \<bar>n - 1\<bar>)"
      unfolding str using exp by (simp only: if_False)
    moreover have "decodePos (take 1 ds @ (if drop 1 ds = [] then [] else 46 # drop 1 ds) @
        101 # ?sg # natStr (nat \<bar>n - 1\<bar>)) = (valDigits (take 1 ds @ drop 1 ds),
        (if ?sg = 45 then - int (nat \<bar>n - 1\<bar>) else int (nat \<bar>n - 1\<bar>)) - int (length (drop 1 ds)))"
      by (rule decodePos_exp) (use sub in auto)
    moreover have "(if ?sg = 45 then - int (nat \<bar>n - 1\<bar>) else int (nat \<bar>n - 1\<bar>)) = n - 1"
      by simp
    moreover have "length ds > 0" using dig(2) by simp
    then have "int (length (drop 1 ds)) = int (length ds) - 1" by (cases ds) simp_all
    ultimately have "decodePos (posToString m e) = (m, e)"
      by (simp only: append_take_drop_id val) (simp add: n_def)
    then show ?thesis by (intro exI [of _ 0]) simp
  qed
qed

lemma hd_posToString: "posToString m e \<noteq> [] \<and> isDigit (hd (posToString m e))"
proof -
  have "isDigit (hd (natStr m))" using natStr_nonempty by (auto intro!: isDigit_natStr hd_in_set)
  then show ?thesis by (cases "natStr m") (auto simp: posToString_def Let_def hd_append take_Cons')
qed

lemma decodeNum_numToString:
  assumes "num_wf x" shows "decodeNum (numToString x) = x"
proof (cases x)
  case (Dec m e)
  obtain z where z: "decodePos (posToString (nat \<bar>m\<bar>) e) = (nat \<bar>m\<bar> * 10 ^ z, e - int z)"
    using decodePos_posToString by blast
  show ?thesis
  proof (cases "m = 0")
    case True
    with Dec assms show ?thesis
      using decodePos_plain [of "[48]"]
      by (auto simp: numToString_def num_wf_def decodeNum_def valDigits_def)
  next
    case False
    with Dec assms have m10: "m mod 10 \<noteq> 0" by (simp add: num_wf_def)
    have "hd (posToString (nat m) e) \<noteq> 45" "posToString (nat m) e \<noteq> []"
      using hd_posToString [of "nat m" e] by (auto simp: isDigit_def)
    then obtain c t where c: "posToString (nat m) e = c # t" "c \<noteq> 45"
      by (cases "posToString (nat m) e") auto
    show ?thesis
    proof (cases "m < 0")
      case True
      with Dec z m10 show ?thesis
        by (simp add: numToString_def decodeNum_def normDec_pow)
    next
      case pos: False
      with False Dec z m10 c show ?thesis
        by (simp add: numToString_def decodeNum_def normDec_pow)
    qed
  qed
qed

lemma isNumChar_posToString: "c \<in> set (posToString m e) \<Longrightarrow> isNumChar c"
  by (auto simp: posToString_def Let_def isNumChar_def isDigit_natStr isDigit_zeros
      dest: in_set_takeD in_set_dropD isDigit_natStr isDigit_zeros split: if_splits)

lemma isNumChar_numToString: "c \<in> set (numToString x) \<Longrightarrow> isNumChar c"
  by (cases x) (auto simp: numToString_def isNumChar_posToString isNumChar_def [of 48]
      isNumChar_def [of 45] split: if_splits)

lemma numToString_first: "numToString x \<noteq> [] \<and> (isDigit (hd (numToString x)) \<or> hd (numToString x) = 45)"
  using hd_posToString by (cases x) (auto simp: numToString_def)

section \<open>Canonical text of JSON data\<close>

lemma joinWith_simps [simp]:
  "joinWith sep [] = []"
  "joinWith sep [x] = x"
  "joinWith sep (x # y # zs) = x @ sep @ joinWith sep (y # zs)"
  by (simp_all add: joinWith_def)

lemma insort_key_fst_map:
  "insort_key fst (k, g k v) (map (\<lambda>(k, v). (k, g k v)) kvs) =
   map (\<lambda>(k, v). (k, g k v)) (insort_key fst (k, v) kvs)"
  by (induction kvs) auto

lemma sort_key_fst_map:
  "sort_key fst (map (\<lambda>(k, v). (k, g k v)) kvs) = map (\<lambda>(k, v). (k, g k v)) (sort_key fst kvs)"
proof (induction kvs)
  case (Cons kv kvs)
  obtain k v where "kv = (k, v)" by (cases kv)
  with Cons show ?case by (simp add: insort_key_fst_map)
qed simp

lemma canon_JObj:
  "canon (JObj kvs) = 123 # joinWith [44]
     (map (\<lambda>(k, v). quoteString k @ 58 # canon v) (sort_key fst kvs)) @ [125]"
  using sort_key_fst_map [of "\<lambda>k v. quoteString k @ 58 # canon v" kvs]
  by (simp add: case_prod_unfold comp_def)

lemma norm_JObj: "norm (JObj kvs) = JObj (map (\<lambda>(k, v). (k, norm v)) (sort_key fst kvs))"
  using sort_key_fst_map [of "\<lambda>k v. norm v" kvs] by simp

lemma canonicalizeItems_mapE: "canonicalizeItems xs = mapE canonicalize xs"
  by (induction xs) simp_all

lemma canonicalizeMembers_json:
  "(\<And>kv. kv \<in> set kvs \<Longrightarrow> canonicalize (of_json (snd kv)) = Inr (canon (snd kv))) \<Longrightarrow>
   canonicalizeMembers (map (\<lambda>(k, v). Member (Some k) True True (of_json v)) kvs) =
   map (\<lambda>(k, v). (k, Inr (quoteString k @ 58 # canon v))) kvs"
  by (induction kvs) (auto simp: case_prod_unfold)

lemma canonicalize_of_json: "canonicalize (of_json j) = Inr (canon j)"
proof (induction j rule: canon.induct)
  case (5 xs)
  then have "mapE (\<lambda>x. canonicalize (of_json x)) xs = Inr (map canon xs)"
    by (intro mapE_total)
  then show ?case by (simp add: canonicalizeItems_mapE mapE_map)
next
  case (6 kvs)
  have m: "canonicalizeMembers (map (\<lambda>(k, v). Member (Some k) True True (of_json v)) kvs) =
      map (\<lambda>(k, v). (k, Inr (quoteString k @ 58 # canon v))) kvs"
    by (rule canonicalizeMembers_json) (use 6 in auto)
  have "mapE snd (sort_key fst (map (\<lambda>(k, v). (k, Inr (quoteString k @ 58 # canon v))) kvs)) =
      (Inr :: _ \<Rightarrow> jstring + _) (map (\<lambda>(k, v). quoteString k @ 58 # canon v) (sort_key fst kvs))"
    unfolding sort_key_fst_map [of "\<lambda>k v. Inr (quoteString k @ 58 # canon v) :: jstring + jstring" kvs]
    by (auto simp: mapE_map case_prod_unfold intro: mapE_total)
  moreover have "\<not> list_ex (\<lambda>m. memberKey m = None)
      (map (\<lambda>(k, v). Member (Some k) True True (of_json v)) kvs)"
    by (auto simp: list_ex_iff)
  ultimately show ?case
    using m by (simp add: canon_JObj del: canon.simps bindE_Inr_iff)
qed simp_all

section \<open>Canonical text read back\<close>

definition parses :: "json \<Rightarrow> bool" where
  "parses j \<longleftrightarrow> (\<forall>n r. length (canon j) \<le> n \<longrightarrow> (r = [] \<or> \<not> isNumChar (hd r)) \<longrightarrow>
     parseValue n (canon j @ r) = Some (norm j, r))"

lemma canon_nonempty [simp]: "canon j \<noteq> []"
  using numToString_first by (cases j) (auto simp: quoteString_def)

lemma parses_elems:
  assumes "\<And>x. x \<in> set xs \<Longrightarrow> parses x" "xs \<noteq> []"
    "length (joinWith [44] (map canon xs)) < n"
  shows "parseElems n (joinWith [44] (map canon xs) @ 93 # r) = Some (map norm xs, r)"
  using assms
proof (induction xs arbitrary: n)
  case (Cons x xs)
  obtain n' where n: "n = Suc n'" using Cons.prems(3) by (cases n) auto
  have x: "parses x" using Cons.prems(1) by simp
  show ?case
  proof (cases xs)
    case Nil
    with x n Cons.prems(3) show ?thesis
      by (simp add: parses_def isNumChar_def isDigit_def)
  next
    case (Cons y ys)
    have "parseElems n' (joinWith [44] (map canon xs) @ 93 # r) = Some (map norm xs, r)"
      by (rule Cons.IH) (use Cons.prems Cons n in auto)
    moreover have "parseValue n' (canon x @ 44 # joinWith [44] (map canon xs) @ 93 # r) =
        Some (norm x, 44 # joinWith [44] (map canon xs) @ 93 # r)"
      using x Cons.prems(3) n Cons by (simp add: parses_def isNumChar_def isDigit_def)
    ultimately show ?thesis using Cons n by simp
  qed
qed simp

definition memberText :: "jstring \<times> json \<Rightarrow> jstring" where
  "memberText kv = (case kv of (k, v) \<Rightarrow> quoteString k @ 58 # canon v)"

lemma parses_members:
  assumes "\<And>k v. (k, v) \<in> set kvs \<Longrightarrow> parses v" "kvs \<noteq> []"
    "length (joinWith [44] (map memberText kvs)) < n"
  shows "parseMembers n (joinWith [44] (map memberText kvs) @ 125 # r) =
    Some (map (\<lambda>(k, v). (k, norm v)) kvs, r)"
  using assms
proof (induction kvs arbitrary: n)
  case (Cons kv kvs)
  obtain n' where n: "n = Suc n'" using Cons.prems(3) by (cases n) auto
  obtain k x where kv: "kv = (k, x)" by (cases kv)
  have x: "parses x" using Cons.prems(1) kv by auto
  show ?case
  proof (cases kvs)
    case Nil
    with x n kv Cons.prems(3) show ?thesis
      by (simp add: parses_def isNumChar_def isDigit_def memberText_def quoteString_def
          unquote_quoteUnits)
  next
    case (Cons y ys)
    have "parseMembers n' (joinWith [44] (map memberText kvs) @ 125 # r) =
        Some (map (\<lambda>(k, v). (k, norm v)) kvs, r)"
      by (rule Cons.IH) (use Cons.prems Cons n in auto)
    moreover have "parseValue n' (canon x @ 44 # joinWith [44] (map memberText kvs) @ 125 # r) =
        Some (norm x, 44 # joinWith [44] (map memberText kvs) @ 125 # r)"
      using x Cons.prems(3) n Cons kv
      by (simp add: parses_def isNumChar_def isDigit_def memberText_def)
    ultimately show ?thesis using Cons n kv
      by (simp add: memberText_def [of "(k, x)"] quoteString_def unquote_quoteUnits)
  qed
qed simp

lemma parsesI:
  assumes "\<And>n r. length (canon j) \<le> Suc n \<Longrightarrow> r = [] \<or> \<not> isNumChar (hd r) \<Longrightarrow>
    parseValue (Suc n) (canon j @ r) = Some (norm j, r)"
  shows "parses j"
  unfolding parses_def
proof (intro allI impI)
  fix n and r :: jstring
  assume "length (canon j) \<le> n" and r: "r = [] \<or> \<not> isNumChar (hd r)"
  then obtain n' where "n = Suc n'" by (cases n) auto
  with assms [of n' r] r \<open>length (canon j) \<le> n\<close>
  show "parseValue n (canon j @ r) = Some (norm j, r)" by simp
qed

lemma parseValue_array:
  "parseValue (Suc n) (91 # c # r) =
     (if c = 93 then Some (JArr [], r)
      else map_option (\<lambda>(xs, r). (JArr xs, r)) (parseElems n (c # r)))"
  by simp

lemma parseValue_object:
  "parseValue (Suc n) (123 # c # r) =
     (if c = 125 then Some (JObj [], r)
      else map_option (\<lambda>(kvs, r). (JObj kvs, r)) (parseMembers n (c # r)))"
  by simp

lemma canon_first: "hd (canon j) \<noteq> 93"
proof (cases j)
  case (JNum x)
  then show ?thesis using numToString_first [of x] by (auto simp: isDigit_def)
qed (auto simp: quoteString_def js_def)

lemma parses_number:
  assumes "num_wf x" shows "parses (JNum x)"
proof (rule parsesI)
  fix n and r :: jstring
  assume r: "r = [] \<or> \<not> isNumChar (hd r)"
  obtain c t where c: "numToString x = c # t" "isDigit c \<or> c = 45"
    using numToString_first [of x] by (cases "numToString x") auto
  have "takeWhile isNumChar (numToString x @ r) = numToString x"
    "dropWhile isNumChar (numToString x @ r) = r"
    using r isNumChar_numToString [of _ x]
    by (cases r; simp add: takeWhile_append dropWhile_append)+
  then show "parseValue (Suc n) (canon (JNum x) @ r) = Some (norm (JNum x), r)"
    using c decodeNum_numToString [OF assms] by (auto simp: isDigit_def)
qed

lemma parses_array:
  assumes "\<And>x. x \<in> set xs \<Longrightarrow> parses x" shows "parses (JArr xs)"
proof (cases xs)
  case Nil
  then show ?thesis by (auto intro: parsesI)
next
  case (Cons y ys)
  have "hd (joinWith [44] (map canon xs)) = hd (canon y)" "joinWith [44] (map canon xs) \<noteq> []"
    using Cons by (simp_all add: joinWith_def hd_append)
  then obtain c t where c: "joinWith [44] (map canon xs) = c # t" "c \<noteq> 93"
    using canon_first [of y] by (cases "joinWith [44] (map canon xs)") auto
  show ?thesis
  proof (rule parsesI)
    fix n and r :: jstring
    assume "length (canon (JArr xs)) \<le> Suc n"
    then have "parseElems n (joinWith [44] (map canon xs) @ 93 # r) = Some (map norm xs, r)"
      using assms Cons by (intro parses_elems) auto
    then show "parseValue (Suc n) (canon (JArr xs) @ r) = Some (norm (JArr xs), r)"
      using c by (simp add: parseValue_array del: parseValue.simps)
  qed
qed

lemma canon_members: "canon (JObj kvs) = 123 # joinWith [44] (map memberText (sort_key fst kvs)) @ [125]"
  by (simp add: canon_JObj memberText_def [abs_def] del: canon.simps)

lemma parses_object:
  assumes "\<And>k v. (k, v) \<in> set kvs \<Longrightarrow> parses v" shows "parses (JObj kvs)"
proof (cases "sort_key fst kvs")
  case Nil
  then have "kvs = []" by (metis length_0_conv length_sort)
  then show ?thesis by (auto intro: parsesI)
next
  case (Cons kv kvs')
  define t where "t = joinWith [44] (map memberText (sort_key fst kvs))"
  have "hd t = 34" "t \<noteq> []"
    using Cons by (auto simp: joinWith_def hd_append t_def memberText_def quoteString_def split: prod.splits)
  then obtain t' where c: "t = 34 # t'" by (cases t) auto
  show ?thesis
  proof (rule parsesI)
    fix n and r :: jstring
    assume "length (canon (JObj kvs)) \<le> Suc n"
    then have "length t < n"
      by (simp add: canon_members t_def del: canon.simps)
    then have "parseMembers n (t @ 125 # r) = Some (map (\<lambda>(k, v). (k, norm v)) (sort_key fst kvs), r)"
      unfolding t_def using assms Cons by (intro parses_members) (simp_all flip: set_sort [of fst kvs])
    then show "parseValue (Suc n) (canon (JObj kvs) @ r) = Some (norm (JObj kvs), r)"
      using c unfolding canon_members t_def [symmetric] norm_JObj
      by (simp add: parseValue_object del: parseValue.simps)
  qed
qed

lemma parses_json: "json_wf j \<Longrightarrow> parses j"
proof (induction j rule: json_wf.induct)
  case (4 s)
  show ?case
    by (rule parsesI) (simp add: quoteString_def unquote_quoteUnits)
next
  case (5 xs)
  then show ?case by (intro parses_array) auto
next
  case (6 kvs)
  then show ?case by (intro parses_object) auto
qed (auto intro!: parsesI parses_number simp: js_def)

lemma parseCanonical_canon: "json_wf j \<Longrightarrow> parseCanonical (canon j) = Some (norm j)"
  using parses_json [of j] unfolding parses_def parseCanonical_def
  by (metis (mono_tags, lifting) append_Nil2 case_prod_conv option.simps(5) order_refl)

section \<open>Key order\<close>

lemma sorted_map_key_id: "sorted (map fst kvs) \<Longrightarrow> sort_key fst kvs = kvs"
  by (rule sort_key_id_if_sorted)

lemma sort_key_idem: "sort_key fst (sort_key fst kvs) = sort_key fst kvs"
  by (rule sort_key_id_if_sorted) simp

lemma canon_norm: "canon (norm j) = canon j"
proof (induction j rule: norm.induct)
  case (2 kvs)
  have "sort_key fst (map (\<lambda>(k, v). (k, norm v)) (sort_key fst kvs)) =
      map (\<lambda>(k, v). (k, norm v)) (sort_key fst kvs)"
    unfolding sort_key_fst_map sort_key_idem ..
  moreover have "canon (norm v) = canon v" if "(k, v) \<in> set (sort_key fst kvs)" for k v
    using 2 that by auto
  ultimately show ?case
    unfolding norm_JObj canon_JObj by (auto simp: comp_def case_prod_unfold intro!: arg_cong [where f = "joinWith [44]"])
qed (simp_all add: comp_def cong: map_cong)

lemma norm_norm: "norm (norm j) = norm j"
proof (induction j rule: norm.induct)
  case (2 kvs)
  then show ?case
    unfolding norm_JObj sort_key_fst_map sort_key_idem by (auto simp: case_prod_unfold)
qed simp_all

lemma canon_eq_iff:
  assumes "json_wf a" "json_wf b"
  shows "canon a = canon b \<longleftrightarrow> norm a = norm b"
  using parseCanonical_canon [OF assms(1)] parseCanonical_canon [OF assms(2)] canon_norm
  by (metis option.inject)

section \<open>What has a canonical text\<close>

text \<open>Only plain JSON data has a canonical text.\<close>

lemma length_canonicalizeMembers: "length (canonicalizeMembers ms) \<le> length ms"
proof (induction ms)
  case (Cons m ms)
  then show ?case by (cases m) (auto split: option.splits)
qed simp

lemma canonicalize_plain:
  "canonicalize v = Inr t \<Longrightarrow> \<exists>j. v = of_json j"
  "canonicalizeItems xs = Inr ts \<Longrightarrow> \<exists>ys. xs = map of_json ys"
  "\<forall>kr \<in> set (canonicalizeMembers ms). isOk (snd kr) \<Longrightarrow> length (canonicalizeMembers ms) = length ms \<Longrightarrow>
     \<exists>kvs. ms = map (\<lambda>(k, v). Member (Some k) True True (of_json v)) kvs"
proof (induction v and xs and ms arbitrary: t and ts rule: canonicalize_canonicalizeItems_canonicalizeMembers.induct)
  case 1 then show ?case by (intro exI [of _ JNull]) simp
next
  case (2 b) then show ?case by (intro exI [of _ "JBool b"]) simp
next
  case (3 s) then show ?case by (intro exI [of _ "JStr s"]) simp
next
  case (5 n) then show ?case by (intro exI [of _ "JNum n"]) simp
next
  case (7 xs)
  then obtain ts where "canonicalizeItems xs = Inr ts" by auto
  then obtain ys where "xs = map of_json ys" using 7 by blast
  then show ?case by (intro exI [of _ "JArr ys"]) simp
next
  case (8 plain ms)
  then have p: "plain" "\<not> list_ex (\<lambda>m. memberKey m = None) ms" by (auto split: if_splits)
  with 8(2) obtain members where m: "mapE snd (sort_key fst (canonicalizeMembers ms)) = Inr members"
    "length members = length ms" by (auto split: if_splits)
  have "length (canonicalizeMembers ms) = length ms" using mapE_length [OF m(1)] m(2) by simp
  moreover have "isOk (snd kr)" if "kr \<in> set (canonicalizeMembers ms)" for kr
    using mapE_all [OF m(1), of kr] that by (auto simp: isOk_iff)
  ultimately obtain kvs where "ms = map (\<lambda>(k, v). Member (Some k) True True (of_json v)) kvs"
    using 8(1) p by blast
  with p show ?case by (intro exI [of _ "JObj kvs"]) simp
next
  case 11 then show ?case by simp
next
  case (12 x xs)
  then obtain a b where "canonicalize x = Inr a" "canonicalizeItems xs = Inr b" by auto
  with 12 obtain j ys where "x = of_json j" "xs = map of_json ys" by blast
  then show ?case by (intro exI [of _ "j # ys"]) simp
next
  case 13 then show ?case by simp
next
  case (14 k d e v ms)
  obtain key where k: "k = Some key" "e"
    using "14.prems"(2) length_canonicalizeMembers [of ms] by (auto split: option.splits if_splits)
  have d: "d" "isOk (canonicalize v)"
    using "14.prems"(1) k by (cases d; cases "canonicalize v"; simp)+
  then obtain t where "canonicalize v = Inr t" by (auto simp: isOk_iff)
  then obtain j where j: "v = of_json j" using "14.IH" k d by blast
  have "\<forall>kr \<in> set (canonicalizeMembers ms). isOk (snd kr)" "length (canonicalizeMembers ms) = length ms"
    using "14.prems" k by simp_all
  then obtain kvs where "ms = map (\<lambda>(k, v). Member (Some k) True True (of_json v)) kvs"
    using "14.IH" k by blast
  with j k d show ?case by (intro exI [of _ "(key, j) # kvs"]) simp
qed simp_all

lemma canonicalJson_Inr: "canonicalJson v = Inr t \<longleftrightarrow> (\<exists>j. v = of_json j \<and> t = canon j)"
proof
  assume t: "canonicalJson v = Inr t"
  then obtain j where "v = of_json j" using canonicalize_plain(1) [of v t] by (auto simp: canonicalJson_def)
  with t show "\<exists>j. v = of_json j \<and> t = canon j"
    by (intro exI [of _ j]) (simp add: canonicalJson_def canonicalize_of_json)
qed (auto simp: canonicalJson_def canonicalize_of_json)

lemma canonicalJson_identifies:
  "json_wf a \<Longrightarrow> json_wf b \<Longrightarrow>
     canonicalJson (of_json a) = canonicalJson (of_json b) \<longleftrightarrow> norm a = norm b"
  by (simp add: canon_eq_iff canonicalJson_def canonicalize_of_json)

section \<open>Property\<close>



end
