(* ===== verification/Regex.thy ===== *)
theory Regex
  imports Prelude
begin

text \<open>
  The regular expressions of the source. A pattern anchored as \<open>/^...$/u\<close> is a term of \<open>rx\<close>; its
  meaning is the language \<open>lang\<close>, and \<open>matches\<close> decides it by derivatives, so that a pattern can be
  evaluated on a concrete string. The patterns themselves stand with the component that uses them;
  the ones used by several components and the two date-time checks are here.
\<close>

section \<open>Regular expressions and their languages\<close>

datatype rx =
    Empty
  | Eps
  | Cls "(16 word \<times> 16 word) list"
  | Alt rx rx
  | Seq rx rx
  | Star rx

definition inCls :: "(16 word \<times> 16 word) list \<Rightarrow> 16 word \<Rightarrow> bool" where
  "inCls rs c = list_ex (\<lambda>(a, b). a \<le> c \<and> c \<le> b) rs"

inductive_set star :: "jstring set \<Rightarrow> jstring set" for L where
  star_Nil: "[] \<in> star L"
| star_app: "u \<in> L \<Longrightarrow> v \<in> star L \<Longrightarrow> u @ v \<in> star L"

fun lang :: "rx \<Rightarrow> jstring set" where
  "lang Empty = {}"
| "lang Eps = {[]}"
| "lang (Cls rs) = {[c] | c. inCls rs c}"
| "lang (Alt r s) = lang r \<union> lang s"
| "lang (Seq r s) = {u @ v | u v. u \<in> lang r \<and> v \<in> lang s}"
| "lang (Star r) = star (lang r)"

section \<open>Matching by derivatives\<close>

fun nullable :: "rx \<Rightarrow> bool" where
  "nullable Empty = False"
| "nullable Eps = True"
| "nullable (Cls rs) = False"
| "nullable (Alt r s) = (nullable r \<or> nullable s)"
| "nullable (Seq r s) = (nullable r \<and> nullable s)"
| "nullable (Star r) = True"

fun mkAlt :: "rx \<Rightarrow> rx \<Rightarrow> rx" where
  "mkAlt Empty s = s"
| "mkAlt r Empty = r"
| "mkAlt r s = (if r = s then r else Alt r s)"

fun mkSeq :: "rx \<Rightarrow> rx \<Rightarrow> rx" where
  "mkSeq Empty s = Empty"
| "mkSeq Eps s = s"
| "mkSeq r Empty = Empty"
| "mkSeq r s = Seq r s"

fun deriv :: "16 word \<Rightarrow> rx \<Rightarrow> rx" where
  "deriv c Empty = Empty"
| "deriv c Eps = Empty"
| "deriv c (Cls rs) = (if inCls rs c then Eps else Empty)"
| "deriv c (Alt r s) = mkAlt (deriv c r) (deriv c s)"
| "deriv c (Seq r s) =
     (if nullable r then mkAlt (mkSeq (deriv c r) s) (deriv c s) else mkSeq (deriv c r) s)"
| "deriv c (Star r) = mkSeq (deriv c r) (Star r)"

fun matches :: "rx \<Rightarrow> jstring \<Rightarrow> bool" where
  "matches r [] = nullable r"
| "matches r (c # cs) = matches (deriv c r) cs"

lemma nullable_iff: "nullable r \<longleftrightarrow> [] \<in> lang r"
  by (induction r) (auto intro: star_Nil)

lemma lang_mkAlt: "lang (mkAlt r s) = lang r \<union> lang s"
  by (induction r s rule: mkAlt.induct) auto

lemma lang_mkSeq: "lang (mkSeq r s) = lang (Seq r s)"
  by (induction r s rule: mkSeq.induct) auto

lemma star_Cons: "w \<in> star L \<Longrightarrow> w = c # cs \<Longrightarrow> \<exists>u v. cs = u @ v \<and> c # u \<in> L \<and> v \<in> star L"
proof (induction arbitrary: cs rule: star.induct)
  case (star_app u v)
  then show ?case by (cases u) auto
qed simp

lemma lang_deriv: "lang (deriv c r) = {w. c # w \<in> lang r}"
proof (induction r)
  case (Seq r s)
  then show ?case
    by (auto simp: lang_mkAlt lang_mkSeq nullable_iff Cons_eq_append_conv)
next
  case (Star r)
  then show ?case
    by (auto simp: lang_mkSeq intro: star_app [of "c # _", simplified] dest: star_Cons)
qed (auto simp: lang_mkAlt)

lemma matches_lang: "matches r s \<longleftrightarrow> s \<in> lang r"
  by (induction r s rule: matches.induct) (auto simp: nullable_iff lang_deriv)

section \<open>Building patterns\<close>

definition rng :: "char \<Rightarrow> char \<Rightarrow> 16 word \<times> 16 word" where
  "rng a b = (of_char a, of_char b)"

fun seqs :: "rx list \<Rightarrow> rx" where
  "seqs [] = Eps"
| "seqs [r] = r"
| "seqs (r # rs) = Seq r (seqs rs)"

fun rep :: "nat \<Rightarrow> rx \<Rightarrow> rx" where
  "rep 0 r = Eps"
| "rep (Suc 0) r = r"
| "rep (Suc n) r = Seq r (rep n r)"

definition lit :: "string \<Rightarrow> rx" where
  "lit s = seqs (map (\<lambda>c. Cls [(of_char c, of_char c)]) s)"

definition many1 :: "rx \<Rightarrow> rx" where
  "many1 r = Seq r (Star r)"

definition opt :: "rx \<Rightarrow> rx" where
  "opt r = Alt r Eps"

fun repUpTo :: "nat \<Rightarrow> rx \<Rightarrow> rx" where
  "repUpTo 0 r = Eps"
| "repUpTo (Suc n) r = opt (Seq r (repUpTo n r))"

lemma lang_seqs_Cons: "lang (seqs (r # rs)) = {u @ v | u v. u \<in> lang r \<and> v \<in> lang (seqs rs)}"
  by (cases rs) auto

lemma lang_Cls_length: "w \<in> lang (Cls rs) \<Longrightarrow> length w = 1"
  by auto

text \<open>A language whose words use only characters that satisfy P.\<close>

fun rxAll :: "(16 word \<times> 16 word \<Rightarrow> bool) \<Rightarrow> rx \<Rightarrow> bool" where
  "rxAll P Empty = True"
| "rxAll P Eps = True"
| "rxAll P (Cls rs) = list_all P rs"
| "rxAll P (Alt r s) = (rxAll P r \<and> rxAll P s)"
| "rxAll P (Seq r s) = (rxAll P r \<and> rxAll P s)"
| "rxAll P (Star r) = rxAll P r"

lemma star_all: "w \<in> star L \<Longrightarrow> (\<And>u c. u \<in> L \<Longrightarrow> c \<in> set u \<Longrightarrow> Q c) \<Longrightarrow> c \<in> set w \<Longrightarrow> Q c"
  by (induction rule: star.induct) auto

lemma rxAll_lang:
  assumes "\<And>a b c. P (a, b) \<Longrightarrow> a \<le> c \<Longrightarrow> c \<le> b \<Longrightarrow> Q c"
  shows "rxAll P r \<Longrightarrow> w \<in> lang r \<Longrightarrow> c \<in> set w \<Longrightarrow> Q c"
proof (induction r arbitrary: w c)
  case (Cls rs)
  then show ?case by (auto simp: inCls_def list_ex_iff list_all_iff intro: assms)
next
  case (Star r)
  then have r: "rxAll P r" "w \<in> star (lang r)" "c \<in> set w" by simp_all
  show ?case by (rule star_all [OF r(2)]) (use Star.IH r in auto)
qed auto

text \<open>A pattern over ASCII classes accepts well-formed Unicode only: no surrogate is in it.\<close>

definition asciiOnly :: "rx \<Rightarrow> bool" where
  "asciiOnly r = rxAll (\<lambda>(a, b). b < 128) r"

lemma asciiOnly_matches: "asciiOnly r \<Longrightarrow> matches r s \<Longrightarrow> c \<in> set s \<Longrightarrow> c < 128"
  unfolding asciiOnly_def matches_lang by (erule rxAll_lang [rotated]) auto

section \<open>Patterns several components use\<close>

definition digitCls :: rx where
  "digitCls = Cls [rng CHR ''0'' CHR ''9'']"

definition hexCls :: rx where
  "hexCls = Cls [rng CHR ''0'' CHR ''9'', rng CHR ''a'' CHR ''f'']"

text \<open>\<open>/^[0-9a-f]{8}-[0-9a-f]{4}-7[0-9a-f]{3}-[89ab][0-9a-f]{3}-[0-9a-f]{12}$/u\<close>\<close>

definition uuidV7 :: rx where
  "uuidV7 = seqs [rep 8 hexCls, lit ''-'', rep 4 hexCls, lit ''-'', lit ''7'', rep 3 hexCls,
     lit ''-'', Cls [rng CHR ''8'' CHR ''9'', rng CHR ''a'' CHR ''b''], rep 3 hexCls,
     lit ''-'', rep 12 hexCls]"

text \<open>\<open>/^[0-9a-f]{64}$/u\<close>\<close>

definition hex64 :: rx where
  "hex64 = rep 64 hexCls"

text \<open>
  \<open>/^(0|[1-9][0-9]*)\.(0|[1-9][0-9]*)\.(0|[1-9][0-9]*)(?:-[0-9A-Za-z.-]+)?(?:\+[0-9A-Za-z.-]+)?$/u\<close>
\<close>

definition semverPart :: rx where
  "semverPart = Alt (lit ''0'') (Seq (Cls [rng CHR ''1'' CHR ''9'']) (Star digitCls))"

definition semverTail :: rx where
  "semverTail = many1 (Cls [rng CHR ''0'' CHR ''9'', rng CHR ''A'' CHR ''Z'',
     rng CHR ''a'' CHR ''z'', rng CHR ''.'' CHR ''.'', rng CHR ''-'' CHR ''-''])"

definition semver :: rx where
  "semver = seqs [semverPart, lit ''.'', semverPart, lit ''.'', semverPart,
     opt (Seq (lit ''-'') semverTail), opt (Seq (lit ''+'') semverTail)]"

end
