(* ===== verification/Policy_Value.thy ===== *)
theory Policy_Value
  imports Canonical_Json Regex
begin

text \<open>
  \<open>packages/policy/src/index.ts\<close>, lines 120-350: the failures of the policy package, the check that a
  value is I-JSON policy data (\<open>assertPolicyJson\<close>), the hash of a policy value, and the checks on
  strings, keys and date-times that the compiler and the evaluator share.
\<close>

section \<open>Failures\<close>

datatype policyCode =
    INVALID_POLICY_VALUE | INVALID_POLICY_SET | INVALID_POLICY_RULE | INVALID_CONDITION
  | INVALID_REFERENCE | INVALID_REQUIREMENTS | INVALID_YAML | YAML_LIMIT_EXCEEDED

text \<open>What may be thrown: a \<open>PolicyFailure\<close>, or another \<open>Error\<close> with its message.\<close>

datatype thrown = PolicyFailure policyCode jstring jstring | OtherError jstring

record diagnostic =
  d_code :: policyCode
  d_path :: jstring
  d_message :: jstring

text \<open>The catch clause of \<open>compilePolicySet\<close> and \<open>compileRestrictedPolicyYaml\<close>.\<close>

fun toDiagnostic :: "policyCode \<Rightarrow> thrown \<Rightarrow> diagnostic" where
  "toDiagnostic c0 (PolicyFailure c p m) = \<lparr>d_code = c, d_path = p, d_message = m\<rparr>"
| "toDiagnostic c0 (OtherError m) = \<lparr>d_code = c0, d_path = js ''$'', d_message = m\<rparr>"

section \<open>Policy data\<close>

definition protectedKeys :: "jstring list" where
  "protectedKeys = [js ''__proto__'', js ''prototype'', js ''constructor'']"

text \<open>\<open>isRecord\<close>: an object that is no array and whose prototype is plain or null.\<close>

fun isRecord :: "unknown \<Rightarrow> bool" where
  "isRecord (UObj plain ms) = plain"
| "isRecord _ = False"

text \<open>The loop of \<open>assertWellFormedUnicodeString\<close>; \<open>previous\<close> is the unit at index - 1.\<close>

fun wellFormedUnicode :: "16 word option \<Rightarrow> jstring \<Rightarrow> bool" where
  "wellFormedUnicode previous [] = True"
| "wellFormedUnicode previous (code # rest) =
     (\<not> (isHigh code \<and> \<not> (case rest of [] \<Rightarrow> False | next # _ \<Rightarrow> isLow next)) \<and>
      \<not> (isLow code \<and> \<not> (case previous of None \<Rightarrow> False | Some p \<Rightarrow> isHigh p)) \<and>
      wellFormedUnicode (Some code) rest)"

definition assertWellFormedUnicodeString :: "jstring \<Rightarrow> jstring \<Rightarrow> thrown + unit" where
  "assertWellFormedUnicodeString value path =
     guardE (wellFormedUnicode None value)
       (PolicyFailure INVALID_POLICY_VALUE path (js ''Lone Unicode surrogate''))"

text \<open>The checked value is returned as the plain data it was found to be.\<close>

definition valueFailure :: "jstring \<Rightarrow> string \<Rightarrow> thrown + 'a" where
  "valueFailure path message = Inl (PolicyFailure INVALID_POLICY_VALUE path (js message))"

fun assertPolicyJson :: "unknown \<Rightarrow> jstring \<Rightarrow> thrown + json"
  and assertPolicyItems :: "unknown list \<Rightarrow> jstring \<Rightarrow> nat \<Rightarrow> thrown + json list"
  and assertPolicyMembers :: "member list \<Rightarrow> jstring \<Rightarrow> thrown + jobject" where
  "assertPolicyJson UNull path = Inr JNull"
| "assertPolicyJson (UBool b) path = Inr (JBool b)"
| "assertPolicyJson (UNum n) path = Inr (JNum n)"
| "assertPolicyJson (UStr s) path =
     bindE (assertWellFormedUnicodeString s path) (\<lambda>_. Inr (JStr s))"
| "assertPolicyJson UNonFinite path = valueFailure path ''Value is not I-JSON compatible''"
| "assertPolicyJson UUndefined path = valueFailure path ''Value is not I-JSON compatible''"
| "assertPolicyJson (UOther ty) path = valueFailure path ''Value is not I-JSON compatible''"
| "assertPolicyJson UCycle path = valueFailure path ''Cyclic value''"
| "assertPolicyJson (UArr xs) path =
     bindE (assertPolicyItems xs path 0) (\<lambda>items. Inr (JArr items))"
| "assertPolicyJson (UObj plain ms) path =
     (if \<not> plain then valueFailure path ''Object must have a plain prototype''
      else bindE (assertPolicyMembers ms path) (\<lambda>kvs. Inr (JObj kvs)))"
| "assertPolicyItems [] path index = Inr []"
| "assertPolicyItems (x # xs) path index =
     bindE (assertPolicyJson x (path @ js ''/'' @ natStr index)) (\<lambda>y.
       bindE (assertPolicyItems xs path (Suc index)) (\<lambda>ys. Inr (y # ys)))"
| "assertPolicyMembers [] path = Inr []"
| "assertPolicyMembers (Member k isData enumerable v # ms) path =
     (case k of
        None \<Rightarrow> valueFailure path ''Unsafe object key''
      | Some key \<Rightarrow>
          if key \<in> set protectedKeys then valueFailure path ''Unsafe object key''
          else bindE (assertWellFormedUnicodeString key (path @ js ''/<key>'')) (\<lambda>_.
            if \<not> isData \<or> \<not> enumerable
            then valueFailure (path @ js ''/'' @ key)
                   ''Accessors and non-enumerable properties are forbidden''
            else bindE (assertPolicyJson v (path @ js ''/'' @ key)) (\<lambda>j.
              bindE (assertPolicyMembers ms path) (\<lambda>kvs. Inr ((key, j) # kvs)))))"

text \<open>Errors other than a \<open>PolicyFailure\<close>: the TypeErrors of \<open>canonicalJson\<close>.\<close>

fun liftError :: "jstring + 'a \<Rightarrow> thrown + 'a" where
  "liftError (Inl m) = Inl (OtherError m)"
| "liftError (Inr x) = Inr x"

definition canonicalizePolicyValue :: "unknown \<Rightarrow> thrown + jstring" where
  "canonicalizePolicyValue value =
     bindE (assertPolicyJson value (js ''$'')) (\<lambda>_. liftError (canonicalJson value))"

definition hashPolicyValue :: "(jstring \<Rightarrow> jstring) \<Rightarrow> unknown \<Rightarrow> thrown + jstring" where
  "hashPolicyValue sha value =
     bindE (assertPolicyJson value (js ''$'')) (\<lambda>_. liftError (canonicalJsonSha256 sha value))"

section \<open>Strings, keys and date-times\<close>

definition isBoundedString :: "json option \<Rightarrow> nat \<Rightarrow> nat \<Rightarrow> bool" where
  "isBoundedString value minLength maxLength =
     (case value of Some (JStr s) \<Rightarrow> minLength \<le> length s \<and> length s \<le> maxLength | _ \<Rightarrow> False)"

definition hasExactKeys :: "jobject \<Rightarrow> string list \<Rightarrow> bool" where
  "hasExactKeys obj allowed =
     (length (objKeys obj) = length allowed \<and> list_all (\<lambda>k. k \<in> set (map js allowed)) (objKeys obj))"

definition isUniqueBoundedStringArray :: "json option \<Rightarrow> nat \<Rightarrow> bool" where
  "isUniqueBoundedStringArray value maxLength =
     (case value of
        Some (JArr xs) \<Rightarrow> list_all (\<lambda>x. isBoundedString (Some x) 1 maxLength) xs \<and> distinct xs
      | _ \<Rightarrow> False)"

text \<open>
  The pattern of \<open>isRfc3339DateTime\<close>; its groups are the digits at fixed positions and, when the
  text does not end in Z or z, the offset in the last five characters.
\<close>

definition dateTimeRx :: rx where
  "dateTimeRx = seqs [rep 4 digitCls, lit ''-'', rep 2 digitCls, lit ''-'', rep 2 digitCls,
     Alt (lit ''T'') (lit ''t''), rep 2 digitCls, lit '':'', rep 2 digitCls, lit '':'', rep 2 digitCls,
     opt (Seq (lit ''.'') (many1 digitCls)),
     Alt (Alt (lit ''Z'') (lit ''z''))
       (seqs [Alt (lit ''+'') (lit ''-''), rep 2 digitCls, lit '':'', rep 2 digitCls])]"

definition digitsAt :: "nat \<Rightarrow> nat \<Rightarrow> jstring \<Rightarrow> nat" where
  "digitsAt i n s = valDigits (take n (drop i s))"

definition daysInMonth :: "nat \<Rightarrow> nat \<Rightarrow> nat" where
  "daysInMonth year month =
     (let leapYear = (year mod 4 = 0 \<and> (year mod 100 \<noteq> 0 \<or> year mod 400 = 0)) in
      if month \<in> {1, 3, 5, 7, 8, 10, 12} then 31
      else if month \<in> {4, 6, 9, 11} then 30
      else if month = 2 then (if leapYear then 29 else 28) else 0)"

definition isRfc3339DateTime :: "json option \<Rightarrow> bool" where
  "isRfc3339DateTime value =
     (case value of
        Some (JStr s) \<Rightarrow>
          matches dateTimeRx s \<and>
          (let year = digitsAt 0 4 s; month = digitsAt 5 2 s; day = digitsAt 8 2 s;
               hour = digitsAt 11 2 s; minute = digitsAt 14 2 s; second = digitsAt 17 2 s;
               zulu = (last s = of_char CHR ''Z'' \<or> last s = of_char CHR ''z'');
               offsetHour = (if zulu then 0 else digitsAt (length s - 5) 2 s);
               offsetMinute = (if zulu then 0 else digitsAt (length s - 2) 2 s)
           in 1 \<le> month \<and> month \<le> 12 \<and> 1 \<le> day \<and> day \<le> daysInMonth year month \<and> hour \<le> 23 \<and>
              minute \<le> 59 \<and> second \<le> 60 \<and> offsetHour \<le> 23 \<and> offsetMinute \<le> 59)
      | _ \<Rightarrow> False)"

text \<open>The values that stand for an unusable identifier or time in a decision.\<close>

definition fallbackId :: jstring where
  "fallbackId = js ''00000000-0000-7000-8000-000000000000''"

definition fallbackTime :: jstring where
  "fallbackTime = js ''1970-01-01T00:00:00.000Z''"

section \<open>What policy data is\<close>

text \<open>
  A JSON value passes \<open>assertPolicyJson\<close> exactly when its strings and keys are well-formed Unicode
  and no key is protected.
\<close>

fun policyOk :: "json \<Rightarrow> bool" where
  "policyOk JNull = True"
| "policyOk (JBool b) = True"
| "policyOk (JNum n) = True"
| "policyOk (JStr s) = wellFormedUnicode None s"
| "policyOk (JArr xs) = (\<forall>x \<in> set xs. policyOk x)"
| "policyOk (JObj kvs) =
     (\<forall>(k, v) \<in> set kvs. k \<notin> set protectedKeys \<and> wellFormedUnicode None k \<and> policyOk v)"

lemma valueFailure_Inr [simp]: "valueFailure p m \<noteq> Inr x"
  by (simp add: valueFailure_def)

lemma assertWellFormed_Inr [simp]:
  "assertWellFormedUnicodeString s p = Inr u \<longleftrightarrow> wellFormedUnicode None s"
  by (simp add: assertWellFormedUnicodeString_def)

lemma policyOk_members:
  "policyOk (JObj [])"
  "policyOk (JObj ((k, v) # kvs)) \<longleftrightarrow> k \<notin> set protectedKeys \<and> wellFormedUnicode None k \<and>
     policyOk v \<and> policyOk (JObj kvs)"
  by simp_all

lemma assertPolicyJson_sound:
  "assertPolicyJson v p = Inr j \<Longrightarrow> v = of_json j \<and> policyOk j"
  "assertPolicyItems xs p i = Inr js' \<Longrightarrow> xs = map of_json js' \<and> (\<forall>x \<in> set js'. policyOk x)"
  "assertPolicyMembers ms p = Inr kvs \<Longrightarrow>
     ms = map (\<lambda>(k, v). Member (Some k) True True (of_json v)) kvs \<and>
     policyOk (JObj kvs)"
  by (induction v p and xs p i and ms p arbitrary: j and js' and kvs
      rule: assertPolicyJson_assertPolicyItems_assertPolicyMembers.induct)
    (auto split: option.splits if_splits simp del: policyOk.simps(6) simp: policyOk_members)

lemma assertPolicyItems_complete:
  "(\<And>x p. x \<in> set xs \<Longrightarrow> assertPolicyJson (of_json x) p = Inr x) \<Longrightarrow>
   assertPolicyItems (map of_json xs) p i = Inr xs"
  by (induction xs arbitrary: i) auto

lemma assertPolicyMembers_complete:
  "\<forall>kv \<in> set kvs. (\<forall>p. assertPolicyJson (of_json (snd kv)) p = Inr (snd kv)) \<and>
      fst kv \<notin> set protectedKeys \<and> wellFormedUnicode None (fst kv) \<Longrightarrow>
   assertPolicyMembers (map (\<lambda>(k, v). Member (Some k) True True (of_json v)) kvs) p = Inr kvs"
  by (induction kvs) (auto simp: assertWellFormedUnicodeString_def)

lemma assertPolicyJson_complete: "policyOk j \<Longrightarrow> assertPolicyJson (of_json j) p = Inr j"
proof (induction j arbitrary: p rule: policyOk.induct)
  case (5 xs)
  then have "assertPolicyItems (map of_json xs) p 0 = Inr xs"
    by (intro assertPolicyItems_complete) auto
  then show ?case by simp
next
  case (6 kvs)
  then have "assertPolicyMembers (map (\<lambda>(k, v). Member (Some k) True True (of_json v)) kvs) p
      = Inr kvs"
    by (intro assertPolicyMembers_complete) auto
  then show ?case by simp
qed (simp_all add: assertWellFormedUnicodeString_def)

lemma assertPolicyJson_iff: "assertPolicyJson v p = Inr j \<longleftrightarrow> v = of_json j \<and> policyOk j"
  using assertPolicyJson_sound(1) assertPolicyJson_complete by auto

lemma canonicalizePolicyValue_of_json:
  "policyOk j \<Longrightarrow> canonicalizePolicyValue (of_json j) = Inr (canon j)"
  by (simp add: canonicalizePolicyValue_def assertPolicyJson_complete canonicalJson_def
      canonicalize_of_json del: bindE_Inr_iff)

lemma hashPolicyValue_of_json:
  "policyOk j \<Longrightarrow> hashPolicyValue sha (of_json j) = Inr (sha (canon j))"
  by (simp add: hashPolicyValue_def canonicalJsonSha256_def assertPolicyJson_complete
      canonicalJson_def canonicalize_of_json del: bindE_Inr_iff)

lemma asciiOnly_wellFormed:
  assumes "asciiOnly r" "matches r s" shows "wellFormedUnicode p s"
proof -
  have "\<forall>c \<in> set s. c < 128" using assms asciiOnly_matches by auto
  then show ?thesis
  proof (induction s arbitrary: p)
    case (Cons c s)
    then have "\<not> isHigh c" "\<not> isLow c" by (auto simp: isHigh_def isLow_def dest: order.strict_trans1)
    with Cons show ?case by simp
  qed simp
qed

lemma fallback_ok:
  "matches uuidV7 fallbackId" "isRfc3339DateTime (Some (JStr fallbackTime))"
  "matches hex64 (replicate 64 48)"
  by code_simp+

section \<open>Properties\<close>

text \<open>\<open>assertPolicyJson\<close> accepts exactly plain JSON data whose strings and keys are well-formed Unicode
  and whose keys are not among the protected names, and returns it unchanged.\<close>

theorem assertPolicyJson_exact: "assertPolicyJson v p = Inr j \<longleftrightarrow> v = of_json j \<and> policyOk j"
  by (rule assertPolicyJson_iff)

end
