(* ===== verification/Policy_Compile.thy ===== *)
theory Policy_Compile
  imports Policy_Value
begin

text \<open>
  \<open>packages/policy/src/index.ts\<close>, the policy compiler: \<open>compilePolicySet\<close> and what it calls. Its
  input is a value of any kind; the first step checks that it is policy data, so the other
  functions take JSON. The compiled set is a record, and \<open>policySetJson\<close> is the object the source
  builds for it. The theorems: what a compiled set satisfies, that compiling the compiled set
  again returns it unchanged, and that the order of the rules in the source does not matter.
\<close>

section \<open>The compiled forms\<close>

datatype isolationLevel = PROCESS_RESTRICTED | OS_SANDBOXED | CONTAINER_ISOLATED | REMOTE_ISOLATED

record policyRequirements =
  permissionScopes :: "jstring list option"
  minimumIsolationLevel :: "isolationLevel option"
  timeoutMs :: "int option"
  maxConcurrency :: "int option"
  postVerificationRequired :: "bool option"

definition noRequirements :: policyRequirements where
  "noRequirements = \<lparr>permissionScopes = None, minimumIsolationLevel = None, timeoutMs = None,
     maxConcurrency = None, postVerificationRequired = None\<rparr>"

datatype leafOperator =
    OpEq | OpNotEq | OpIn | OpContains | OpLt | OpLte | OpGt | OpGte | OpExists | OpStartsWith
  | OpSetSubset | OpSetIntersects

datatype policyCondition =
    CAll "policyCondition list"
  | CAny "policyCondition list"
  | CNot policyCondition
  | CLeaf leafOperator jstring "json option"   \<comment> \<open>operator, reference, operand\<close>

datatype ruleEffect = ALLOW | DENY

record compiledPolicyRule =
  ruleId :: jstring
  ruleDomain :: jstring
  subjectTypes :: "jstring list"
  ruleAction :: jstring
  resourceTypes :: "jstring list"
  ruleWhen :: policyCondition
  effect :: ruleEffect
  requirements :: policyRequirements
  reasonCode :: jstring
  metadata :: jobject

datatype sourceKind = RELEASE | MACHINE | USER | WORKSPACE | NODE | WORKFLOW

record compiledPolicySet =
  policySetId :: jstring
  policyVersion :: jstring
  description :: jstring
  policySourceKind :: sourceKind
  policySourceRef :: jstring
  constants :: jobject
  policyRules :: "compiledPolicyRule list"

section \<open>The strings of the enumerations\<close>

fun isolationName :: "isolationLevel \<Rightarrow> jstring" where
  "isolationName PROCESS_RESTRICTED = js ''PROCESS_RESTRICTED''"
| "isolationName OS_SANDBOXED = js ''OS_SANDBOXED''"
| "isolationName CONTAINER_ISOLATED = js ''CONTAINER_ISOLATED''"
| "isolationName REMOTE_ISOLATED = js ''REMOTE_ISOLATED''"

fun leafOperatorName :: "leafOperator \<Rightarrow> jstring" where
  "leafOperatorName OpEq = js ''eq''"
| "leafOperatorName OpNotEq = js ''notEq''"
| "leafOperatorName OpIn = js ''in''"
| "leafOperatorName OpContains = js ''contains''"
| "leafOperatorName OpLt = js ''lt''"
| "leafOperatorName OpLte = js ''lte''"
| "leafOperatorName OpGt = js ''gt''"
| "leafOperatorName OpGte = js ''gte''"
| "leafOperatorName OpExists = js ''exists''"
| "leafOperatorName OpStartsWith = js ''startsWith''"
| "leafOperatorName OpSetSubset = js ''setSubset''"
| "leafOperatorName OpSetIntersects = js ''setIntersects''"

definition leafOperators :: "leafOperator list" where
  "leafOperators = [OpEq, OpNotEq, OpIn, OpContains, OpLt, OpLte, OpGt, OpGte, OpExists,
     OpStartsWith, OpSetSubset, OpSetIntersects]"

fun effectName :: "ruleEffect \<Rightarrow> jstring" where
  "effectName ALLOW = js ''ALLOW''"
| "effectName DENY = js ''DENY''"

fun sourceKindName :: "sourceKind \<Rightarrow> jstring" where
  "sourceKindName RELEASE = js ''RELEASE''"
| "sourceKindName MACHINE = js ''MACHINE''"
| "sourceKindName USER = js ''USER''"
| "sourceKindName WORKSPACE = js ''WORKSPACE''"
| "sourceKindName NODE = js ''NODE''"
| "sourceKindName WORKFLOW = js ''WORKFLOW''"

text \<open>The member of an enumeration whose string a value is.\<close>

definition enumOf :: "('a \<Rightarrow> jstring) \<Rightarrow> 'a list \<Rightarrow> json option \<Rightarrow> 'a option" where
  "enumOf name xs v = (case v of Some (JStr s) \<Rightarrow> find (\<lambda>x. name x = s) xs | _ \<Rightarrow> None)"

definition isolationOf :: "json option \<Rightarrow> isolationLevel option" where
  "isolationOf =
     enumOf isolationName [PROCESS_RESTRICTED, OS_SANDBOXED, CONTAINER_ISOLATED, REMOTE_ISOLATED]"

definition leafOperatorOf :: "json option \<Rightarrow> leafOperator option" where
  "leafOperatorOf = enumOf leafOperatorName leafOperators"

definition effectOf :: "json option \<Rightarrow> ruleEffect option" where
  "effectOf = enumOf effectName [ALLOW, DENY]"

definition sourceKindOf :: "json option \<Rightarrow> sourceKind option" where
  "sourceKindOf = enumOf sourceKindName [RELEASE, MACHINE, USER, WORKSPACE, NODE, WORKFLOW]"

section \<open>Field checks\<close>

text \<open>\<open>/^[A-Z][A-Z0-9]*(?:_[A-Z0-9]+)*$/u\<close>, \<open>/^[a-z][a-z0-9]*(?:-[a-z0-9]+)*$/u\<close> and the two patterns
  of constant names.\<close>

definition stableCode :: rx where
  "stableCode = seqs [Cls [rng CHR ''A'' CHR ''Z''],
     Star (Cls [rng CHR ''A'' CHR ''Z'', rng CHR ''0'' CHR ''9'']),
     Star (Seq (lit ''_'') (many1 (Cls [rng CHR ''A'' CHR ''Z'', rng CHR ''0'' CHR ''9''])))]"

definition ruleIdPattern :: rx where
  "ruleIdPattern = seqs [Cls [rng CHR ''a'' CHR ''z''],
     Star (Cls [rng CHR ''a'' CHR ''z'', rng CHR ''0'' CHR ''9'']),
     Star (Seq (lit ''-'') (many1 (Cls [rng CHR ''a'' CHR ''z'', rng CHR ''0'' CHR ''9''])))]"

definition constantName :: rx where
  "constantName = Seq (Cls [rng CHR ''A'' CHR ''Z''])
     (Star (Cls [rng CHR ''A'' CHR ''Z'', rng CHR ''0'' CHR ''9'', rng CHR ''_'' CHR ''_'']))"

definition constantReference :: rx where
  "constantReference = Seq (lit ''constant.'') constantName"

definition allowedInputReferences :: "jstring list" where
  "allowedInputReferences = map js [''input.action'', ''input.domain'', ''input.subjectType'',
     ''input.resourceType'', ''input.riskClass'', ''input.dataClassification'',
     ''input.direction'', ''input.authorityMutation'', ''input.controlVerified'',
     ''input.permissionScopes'', ''input.capabilityIds'']"

definition requiredString ::
    "jobject \<Rightarrow> string \<Rightarrow> jstring \<Rightarrow> rx option \<Rightarrow> nat option \<Rightarrow> nat \<Rightarrow> thrown + jstring" where
  "requiredString obj key path pattern maxLength minLength =
     (case getKey obj key of
        Some (JStr value) \<Rightarrow>
          if length value < minLength \<or>
             (case maxLength of None \<Rightarrow> False | Some m \<Rightarrow> m < length value) \<or>
             (case pattern of None \<Rightarrow> False | Some p \<Rightarrow> \<not> matches p value)
          then Inl (PolicyFailure INVALID_POLICY_SET (path @ js (''/'' @ key))
                      (js ''Expected canonical string''))
          else Inr value
      | _ \<Rightarrow> Inl (PolicyFailure INVALID_POLICY_SET (path @ js (''/'' @ key))
                   (js ''Expected canonical string'')))"

definition exactKeys :: "jobject \<Rightarrow> string list \<Rightarrow> jstring \<Rightarrow> thrown + unit" where
  "exactKeys obj allowed path =
     (case find (\<lambda>k. k \<notin> set (map js allowed)) (objKeys obj) of
        Some key \<Rightarrow> Inl (PolicyFailure INVALID_POLICY_SET (path @ js ''/'' @ key) (js ''Unknown field''))
      | None \<Rightarrow> Inr ())"

definition stringsOf :: "json list \<Rightarrow> jstring list" where
  "stringsOf xs = map (\<lambda>x. case x of JStr s \<Rightarrow> s | _ \<Rightarrow> []) xs"

definition sortedUniqueStrings :: "json option \<Rightarrow> jstring \<Rightarrow> thrown + jstring list" where
  "sortedUniqueStrings value path =
     (if \<not> isUniqueBoundedStringArray value 256
      then Inl (PolicyFailure INVALID_POLICY_SET path (js ''Expected unique bounded string array''))
      else case value of Some (JArr xs) \<Rightarrow> Inr (sort (stringsOf xs)) | _ \<Rightarrow> Inr [])"

text \<open>\<open>Number.isSafeInteger(x) && x >= 1\<close>, for a property that may be absent.\<close>

definition positiveInteger ::
    "json option \<Rightarrow> jstring \<Rightarrow> thrown + int option" where
  "positiveInteger value path =
     (case value of
        None \<Rightarrow> Inr None
      | Some (JNum x) \<Rightarrow>
          if isSafeInteger x \<and> 1 \<le> num_to_int x then Inr (Some (num_to_int x))
          else Inl (PolicyFailure INVALID_REQUIREMENTS path (js ''Expected positive integer''))
      | Some _ \<Rightarrow> Inl (PolicyFailure INVALID_REQUIREMENTS path (js ''Expected positive integer'')))"

section \<open>Requirements\<close>

definition compileIsolation :: "json option \<Rightarrow> jstring \<Rightarrow> thrown + isolationLevel option" where
  "compileIsolation value path =
     (if value = None then Inr None
      else case isolationOf value of
             Some level \<Rightarrow> Inr (Some level)
           | None \<Rightarrow> Inl (PolicyFailure INVALID_REQUIREMENTS (path @ js ''/minimumIsolationLevel'')
                           (js ''Unknown isolation level'')))"

definition compilePostVerification :: "json option \<Rightarrow> jstring \<Rightarrow> thrown + bool option" where
  "compilePostVerification value path =
     (case value of
        None \<Rightarrow> Inr None
      | Some (JBool b) \<Rightarrow> Inr (Some b)
      | Some _ \<Rightarrow> Inl (PolicyFailure INVALID_REQUIREMENTS (path @ js ''/postVerificationRequired'')
                        (js ''Expected boolean'')))"

definition compileRequirements :: "json option \<Rightarrow> jstring \<Rightarrow> thrown + policyRequirements" where
  "compileRequirements value path =
     (case value of
        Some (JObj obj) \<Rightarrow>
          bindE (exactKeys obj [''permissionScopes'', ''minimumIsolationLevel'', ''timeoutMs'',
                   ''maxConcurrency'', ''postVerificationRequired''] path) (\<lambda>_.
          bindE (if getKey obj ''permissionScopes'' = None then Inr None
                 else bindE (sortedUniqueStrings (getKey obj ''permissionScopes'')
                               (path @ js ''/permissionScopes'')) (\<lambda>s. Inr (Some s))) (\<lambda>scopes.
          bindE (compileIsolation (getKey obj ''minimumIsolationLevel'') path) (\<lambda>isolation.
          bindE (positiveInteger (getKey obj ''timeoutMs'') (path @ js ''/timeoutMs'')) (\<lambda>timeout.
          bindE (positiveInteger (getKey obj ''maxConcurrency'')
                   (path @ js ''/maxConcurrency'')) (\<lambda>concurrency.
          bindE (compilePostVerification (getKey obj ''postVerificationRequired'') path) (\<lambda>post.
            Inr \<lparr>permissionScopes = scopes, minimumIsolationLevel = isolation,
                 timeoutMs = timeout, maxConcurrency = concurrency,
                 postVerificationRequired = post\<rparr>))))))
      | _ \<Rightarrow> Inl (PolicyFailure INVALID_REQUIREMENTS path (js ''Requirements must be an object'')))"

section \<open>Conditions\<close>

definition conditionFailure :: "jstring \<Rightarrow> string \<Rightarrow> thrown + 'a" where
  "conditionFailure path message = Inl (PolicyFailure INVALID_CONDITION path (js message))"

definition compileLeaf ::
    "leafOperator \<Rightarrow> jobject \<Rightarrow> jstring \<Rightarrow> jobject \<Rightarrow> thrown + policyCondition" where
  "compileLeaf operator obj path consts =
     bindE (exactKeys obj [''operator'', ''reference'', ''operand''] path) (\<lambda>_.
     bindE (requiredString obj ''reference'' path None None 1) (\<lambda>reference.
     let operand = getKey obj ''operand'' in
     if reference \<notin> set allowedInputReferences \<and> \<not> matches constantReference reference
     then Inl (PolicyFailure INVALID_REFERENCE (path @ js ''/reference'')
                 (js ''Reference is outside the typed namespace''))
     else if startsWith reference (js ''constant.'') \<and> drop 9 reference \<notin> set (objKeys consts)
     then Inl (PolicyFailure INVALID_REFERENCE (path @ js ''/reference'')
                 (js ''Referenced constant is not declared''))
     else if operator \<noteq> OpExists \<and> operand = None
     then conditionFailure (path @ js ''/operand'') ''Operator requires an operand''
     else if operator = OpExists \<and> operand \<noteq> None
     then conditionFailure (path @ js ''/operand'') ''exists does not accept an operand''
     else Inr (CLeaf operator reference operand)))"

function (sequential) compileCondition ::
    "json option \<Rightarrow> jstring \<Rightarrow> int \<Rightarrow> jobject \<Rightarrow> thrown + policyCondition" where
  "compileCondition (Some (JObj obj)) path remainingDepth consts =
     (if remainingDepth < 0 then conditionFailure path ''Condition depth exceeds four''
      else
        let operator = getKey obj ''operator'' in
        if operator = Some (JStr (js ''all'')) \<or> operator = Some (JStr (js ''any'')) then
          bindE (exactKeys obj [''operator'', ''conditions''] path) (\<lambda>_.
            case getKey obj ''conditions'' of
              Some (JArr cs) \<Rightarrow>
                if cs = [] \<or> 32 < length cs
                then conditionFailure (path @ js ''/conditions'') ''Expected bounded condition array''
                else
                  bindE (mapE (\<lambda>(index, child).
                           compileCondition (Some child) (path @ js ''/conditions/'' @ natStr index)
                             (remainingDepth - 1) consts) (enumerate 0 cs)) (\<lambda>conditions.
                    Inr (if operator = Some (JStr (js ''all'')) then CAll conditions
                         else CAny conditions))
            | _ \<Rightarrow> conditionFailure (path @ js ''/conditions'') ''Expected bounded condition array'')
        else if operator = Some (JStr (js ''not'')) then
          bindE (exactKeys obj [''operator'', ''condition''] path) (\<lambda>_.
          bindE (compileCondition (getKey obj ''condition'') (path @ js ''/condition'')
                   (remainingDepth - 1) consts) (\<lambda>condition. Inr (CNot condition)))
        else
          case leafOperatorOf operator of
            None \<Rightarrow> conditionFailure (path @ js ''/operator'') ''Unknown condition operator''
          | Some leaf \<Rightarrow> compileLeaf leaf obj path consts)"
| "compileCondition _ path remainingDepth consts =
     conditionFailure path ''Condition depth exceeds four''"
  by pat_completeness auto
termination
  by (relation "measure (\<lambda>(v, p, d, c). nat (d + 1))") auto

declare compileCondition.simps(1) [simp del]

section \<open>Rules\<close>

definition ruleFailure :: "jstring \<Rightarrow> string \<Rightarrow> thrown + 'a" where
  "ruleFailure path message = Inl (PolicyFailure INVALID_POLICY_RULE path (js message))"

text \<open>The object literal that \<open>compileRule\<close> returns, its fields evaluated in order.\<close>

definition compileRuleFields ::
    "jobject \<Rightarrow> jobject \<Rightarrow> jobject \<Rightarrow> ruleEffect \<Rightarrow> jobject \<Rightarrow> jstring \<Rightarrow> jobject
       \<Rightarrow> thrown + compiledPolicyRule" where
  "compileRuleFields obj subject resource eff meta path consts =
     bindE (requiredString obj ''ruleId'' path (Some ruleIdPattern) (Some 128) 1) (\<lambda>rid.
     bindE (requiredString obj ''domain'' path None (Some 64) 1) (\<lambda>dom.
     bindE (sortedUniqueStrings (getKey subject ''subjectTypes'')
              (path @ js ''/subjectSelector/subjectTypes'')) (\<lambda>subjects.
     bindE (requiredString obj ''action'' path None (Some 128) 1) (\<lambda>act.
     bindE (sortedUniqueStrings (getKey resource ''resourceTypes'')
              (path @ js ''/resourceSelector/resourceTypes'')) (\<lambda>resources.
     bindE (compileCondition (getKey obj ''when'') (path @ js ''/when'') 4 consts) (\<lambda>cond.
     bindE (compileRequirements (getKey obj ''requirements'') (path @ js ''/requirements'')) (\<lambda>reqs.
     bindE (requiredString obj ''reasonCode'' path (Some stableCode) (Some 128) 3) (\<lambda>reason.
       Inr \<lparr>ruleId = rid, ruleDomain = dom, subjectTypes = subjects, ruleAction = act,
            resourceTypes = resources, ruleWhen = cond, effect = eff, requirements = reqs,
            reasonCode = reason, metadata = meta\<rparr>))))))))"

definition compileRule :: "json \<Rightarrow> nat \<Rightarrow> jobject \<Rightarrow> thrown + compiledPolicyRule" where
  "compileRule value index consts =
     (let path = js ''$/rules/'' @ natStr index in
      case value of
        JObj obj \<Rightarrow>
          bindE (exactKeys obj [''schemaVersion'', ''ruleId'', ''domain'', ''subjectSelector'',
                   ''action'', ''resourceSelector'', ''when'', ''ruleEffect'', ''requirements'',
                   ''reasonCode'', ''metadata''] path) (\<lambda>_.
          if getKey obj ''schemaVersion'' \<noteq> Some (JStr (js ''1.0.0''))
          then ruleFailure (path @ js ''/schemaVersion'') ''Unsupported version''
          else
            case (getKey obj ''subjectSelector'', getKey obj ''resourceSelector'') of
              (Some (JObj subject), Some (JObj resource)) \<Rightarrow>
                bindE (exactKeys subject [''subjectTypes''] (path @ js ''/subjectSelector'')) (\<lambda>_.
                bindE (exactKeys resource [''resourceTypes''] (path @ js ''/resourceSelector'')) (\<lambda>_.
                case effectOf (getKey obj ''ruleEffect'') of
                  None \<Rightarrow> ruleFailure (path @ js ''/ruleEffect'') ''Unknown rule effect''
                | Some eff \<Rightarrow>
                    (case getKey obj ''metadata'' of
                       Some (JObj meta) \<Rightarrow>
                         compileRuleFields obj subject resource eff meta path consts
                     | _ \<Rightarrow> ruleFailure (path @ js ''/metadata'') ''Metadata must be an object'')))
            | _ \<Rightarrow> ruleFailure path ''Selectors must be objects'')
      | _ \<Rightarrow> ruleFailure path ''Rule must be an object'')"

section \<open>Policy sets\<close>

text \<open>
  \<open>Object.fromEntries\<close> builds an object, whose keys the language enumerates with the array
  indices first, in numeric order, then the others in the order of insertion.
\<close>

definition isArrayIndex :: "jstring \<Rightarrow> bool" where
  "isArrayIndex k = (k = natStr (valDigits k) \<and> valDigits k < 4294967295)"

definition fromEntries :: "(jstring \<times> 'a) list \<Rightarrow> (jstring \<times> 'a) list" where
  "fromEntries kvs =
     sort_key (\<lambda>kv. valDigits (fst kv)) (filter (\<lambda>kv. isArrayIndex (fst kv)) kvs) @
     filter (\<lambda>kv. \<not> isArrayIndex (fst kv)) kvs"

definition setFailure :: "jstring \<Rightarrow> string \<Rightarrow> thrown + 'a" where
  "setFailure path message = Inl (PolicyFailure INVALID_POLICY_SET path (js message))"

definition compileConstants :: "jobject \<Rightarrow> thrown + jobject" where
  "compileConstants consts =
     (let sortedConstants = fromEntries (sort_key fst consts) in
      case find (\<lambda>k. \<not> matches constantName k) (objKeys sortedConstants) of
        Some key \<Rightarrow> Inl (PolicyFailure INVALID_POLICY_SET (js ''$/constants/'' @ key)
                           (js ''Invalid constant name''))
      | None \<Rightarrow> Inr sortedConstants)"

definition compileSetFields ::
    "jobject \<Rightarrow> jobject \<Rightarrow> sourceKind \<Rightarrow> jobject \<Rightarrow> json list \<Rightarrow> thrown + compiledPolicySet" where
  "compileSetFields obj source kind consts rules =
     bindE (mapE (\<lambda>(index, rule). compileRule rule index consts) (enumerate 0 rules)) (\<lambda>compiledRules.
     if \<not> distinct (map ruleId compiledRules) then setFailure (js ''$/rules'') ''Duplicate ruleId''
     else
       bindE (compileConstants consts) (\<lambda>sortedConstants.
       bindE (requiredString obj ''policySetId'' (js ''$'') (Some uuidV7) None 1) (\<lambda>setId.
       bindE (requiredString obj ''version'' (js ''$'') (Some semver) None 1) (\<lambda>version.
       bindE (requiredString obj ''description'' (js ''$'') None (Some 2048) 1) (\<lambda>descr.
       bindE (requiredString source ''ref'' (js ''$/source'') None (Some 512) 1) (\<lambda>ref.
         Inr \<lparr>policySetId = setId, policyVersion = version, description = descr,
              policySourceKind = kind, policySourceRef = ref, constants = sortedConstants,
              policyRules = sort_key ruleId compiledRules\<rparr>))))))"

definition compileSetJson :: "json \<Rightarrow> thrown + compiledPolicySet" where
  "compileSetJson value =
     (case value of
        JObj obj \<Rightarrow>
          bindE (exactKeys obj [''schemaVersion'', ''policySetId'', ''version'', ''description'',
                   ''source'', ''defaultOutcome'', ''constants'', ''rules''] (js ''$'')) (\<lambda>_.
          if getKey obj ''schemaVersion'' \<noteq> Some (JStr (js ''1.0.0'')) \<or>
             getKey obj ''defaultOutcome'' \<noteq> Some (JStr (js ''DENY''))
          then setFailure (js ''$'') ''Unsupported version or non-deny default''
          else
            case (getKey obj ''source'', getKey obj ''constants'', getKey obj ''rules'') of
              (Some (JObj source), Some (JObj consts), Some (JArr rules)) \<Rightarrow>
                if 4096 < length rules
                then setFailure (js ''$'') ''Invalid source, constants, or rules''
                else bindE (exactKeys source [''kind'', ''ref''] (js ''$/source'')) (\<lambda>_.
                  case sourceKindOf (getKey source ''kind'') of
                    None \<Rightarrow> setFailure (js ''$/source/kind'') ''Unknown source kind''
                  | Some kind \<Rightarrow> compileSetFields obj source kind consts rules)
            | _ \<Rightarrow> setFailure (js ''$'') ''Invalid source, constants, or rules'')
      | _ \<Rightarrow> setFailure (js ''$'') ''PolicySet must be an object'')"

section \<open>The objects of the compiled forms\<close>

definition jstrs :: "jstring list \<Rightarrow> json" where
  "jstrs xs = JArr (map JStr xs)"

definition optMember :: "string \<Rightarrow> ('a \<Rightarrow> json) \<Rightarrow> 'a option \<Rightarrow> jobject" where
  "optMember key f v = (case v of None \<Rightarrow> [] | Some x \<Rightarrow> [(js key, f x)])"

definition requirementsJson :: "policyRequirements \<Rightarrow> json" where
  "requirementsJson r = JObj (
     optMember ''permissionScopes'' jstrs (permissionScopes r) @
     optMember ''minimumIsolationLevel'' (\<lambda>l. JStr (isolationName l)) (minimumIsolationLevel r) @
     optMember ''timeoutMs'' (\<lambda>n. JNum (numInt n)) (timeoutMs r) @
     optMember ''maxConcurrency'' (\<lambda>n. JNum (numInt n)) (maxConcurrency r) @
     optMember ''postVerificationRequired'' JBool (postVerificationRequired r))"

fun conditionJson :: "policyCondition \<Rightarrow> json" where
  "conditionJson (CAll cs) =
     JObj [(js ''operator'', JStr (js ''all'')), (js ''conditions'', JArr (map conditionJson cs))]"
| "conditionJson (CAny cs) =
     JObj [(js ''operator'', JStr (js ''any'')), (js ''conditions'', JArr (map conditionJson cs))]"
| "conditionJson (CNot c) =
     JObj [(js ''operator'', JStr (js ''not'')), (js ''condition'', conditionJson c)]"
| "conditionJson (CLeaf operator reference operand) =
     JObj ([(js ''operator'', JStr (leafOperatorName operator)), (js ''reference'', JStr reference)] @
           optMember ''operand'' (\<lambda>v. v) operand)"

definition ruleJson :: "compiledPolicyRule \<Rightarrow> json" where
  "ruleJson r = JObj [
     (js ''schemaVersion'', JStr (js ''1.0.0'')),
     (js ''ruleId'', JStr (ruleId r)),
     (js ''domain'', JStr (ruleDomain r)),
     (js ''subjectSelector'', JObj [(js ''subjectTypes'', jstrs (subjectTypes r))]),
     (js ''action'', JStr (ruleAction r)),
     (js ''resourceSelector'', JObj [(js ''resourceTypes'', jstrs (resourceTypes r))]),
     (js ''when'', conditionJson (ruleWhen r)),
     (js ''ruleEffect'', JStr (effectName (effect r))),
     (js ''requirements'', requirementsJson (requirements r)),
     (js ''reasonCode'', JStr (reasonCode r)),
     (js ''metadata'', JObj (metadata r))]"

definition policySetJson :: "compiledPolicySet \<Rightarrow> json" where
  "policySetJson p = JObj [
     (js ''schemaVersion'', JStr (js ''1.0.0'')),
     (js ''policySetId'', JStr (policySetId p)),
     (js ''version'', JStr (policyVersion p)),
     (js ''description'', JStr (description p)),
     (js ''source'', JObj [(js ''kind'', JStr (sourceKindName (policySourceKind p))),
                           (js ''ref'', JStr (policySourceRef p))]),
     (js ''defaultOutcome'', JStr (js ''DENY'')),
     (js ''constants'', JObj (constants p)),
     (js ''rules'', JArr (map ruleJson (policyRules p)))]"

section \<open>compilePolicySet\<close>

type_synonym compilePolicyResult = "diagnostic list + (compiledPolicySet \<times> jstring \<times> jstring)"

definition compilePolicySet :: "(jstring \<Rightarrow> jstring) \<Rightarrow> unknown \<Rightarrow> compilePolicyResult" where
  "compilePolicySet sha value =
     (case bindE (assertPolicyJson value (js ''$'')) (\<lambda>j.
           bindE (compileSetJson j) (\<lambda>compiled.
           bindE (canonicalizePolicyValue (of_json (policySetJson compiled))) (\<lambda>text.
           bindE (hashPolicyValue sha (of_json (policySetJson compiled))) (\<lambda>hash.
             Inr (compiled, text, hash))))) of
        Inl failure \<Rightarrow> Inl [toDiagnostic INVALID_POLICY_SET failure]
      | Inr result \<Rightarrow> Inr result)"

section \<open>Enumerations\<close>

lemma enumOf_Some: "enumOf name xs v = Some x \<Longrightarrow> v = Some (JStr (name x))"
  by (auto simp: enumOf_def find_Some_iff split: option.splits json.splits)

lemma isolationOf_name [simp]: "isolationOf (Some (JStr (isolationName l))) = Some l"
  by (cases l) (simp_all add: isolationOf_def enumOf_def)

lemma effectOf_name [simp]: "effectOf (Some (JStr (effectName e))) = Some e"
  by (cases e) (simp_all add: effectOf_def enumOf_def)

lemma sourceKindOf_name [simp]: "sourceKindOf (Some (JStr (sourceKindName k))) = Some k"
  by (cases k) (simp_all add: sourceKindOf_def enumOf_def)

lemma leafOperatorOf_name [simp]: "leafOperatorOf (Some (JStr (leafOperatorName k))) = Some k"
  by (cases k) (simp_all add: leafOperatorOf_def enumOf_def leafOperators_def)

lemma leafOperatorName_leaf [simp]:
  "leafOperatorName k \<noteq> js ''all''" "leafOperatorName k \<noteq> js ''any''" "leafOperatorName k \<noteq> js ''not''"
  by (cases k; simp)+

lemma ascii_of_char: "\<not> digit7 c \<Longrightarrow> (of_char c :: 16 word) < 128"
proof (cases c)
  case (Char b0 b1 b2 b3 b4 b5 b6 b7)
  assume "\<not> digit7 c"
  then have "(of_char c :: int) < 128"
    using Char by (simp add: of_char_def horner_sum_simps of_bool_def)
  then show ?thesis by (simp add: word_less_def uint_of_char16)
qed

lemma wellFormed_js:
  "list_all (\<lambda>c. \<not> digit7 c) s \<Longrightarrow> wellFormedUnicode p (js s)"
proof (induction s arbitrary: p)
  case (Cons c s)
  then have "(of_char c :: 16 word) < 128" by (simp add: ascii_of_char)
  then have "\<not> isHigh (of_char c)" "\<not> isLow (of_char c)"
    by (auto simp: isHigh_def isLow_def dest: order.strict_trans1)
  then show ?case using Cons by (simp add: js_def)
qed (simp add: js_def)


section \<open>What the parts of a compiled set satisfy\<close>

abbreviation dataOk :: "json \<Rightarrow> bool" where
  "dataOk j \<equiv> policyOk j \<and> json_wf j"

definition textOk :: "nat \<Rightarrow> nat option \<Rightarrow> jstring \<Rightarrow> bool" where
  "textOk minLength maxLength s \<longleftrightarrow> minLength \<le> length s \<and> wellFormedUnicode None s \<and>
     (case maxLength of None \<Rightarrow> True | Some m \<Rightarrow> length s \<le> m)"

definition stringsOk :: "jstring list \<Rightarrow> bool" where
  "stringsOk ss \<longleftrightarrow> sorted ss \<and> distinct ss \<and> (\<forall>s \<in> set ss. textOk 1 (Some 256) s)"

fun conditionOk :: "jobject \<Rightarrow> int \<Rightarrow> policyCondition \<Rightarrow> bool" where
  "conditionOk consts d (CAll cs) \<longleftrightarrow>
     0 \<le> d \<and> cs \<noteq> [] \<and> length cs \<le> 32 \<and> (\<forall>c \<in> set cs. conditionOk consts (d - 1) c)"
| "conditionOk consts d (CAny cs) \<longleftrightarrow>
     0 \<le> d \<and> cs \<noteq> [] \<and> length cs \<le> 32 \<and> (\<forall>c \<in> set cs. conditionOk consts (d - 1) c)"
| "conditionOk consts d (CNot c) \<longleftrightarrow> 0 \<le> d \<and> conditionOk consts (d - 1) c"
| "conditionOk consts d (CLeaf operator reference operand) \<longleftrightarrow>
     0 \<le> d \<and> textOk 1 None reference \<and>
     (reference \<in> set allowedInputReferences \<or> matches constantReference reference) \<and>
     (startsWith reference (js ''constant.'') \<longrightarrow> drop 9 reference \<in> set (objKeys consts)) \<and>
     (operator = OpExists \<longleftrightarrow> operand = None) \<and>
     (case operand of None \<Rightarrow> True | Some v \<Rightarrow> dataOk v)"

definition requirementsOk :: "policyRequirements \<Rightarrow> bool" where
  "requirementsOk r \<longleftrightarrow>
     (case permissionScopes r of None \<Rightarrow> True | Some ss \<Rightarrow> stringsOk ss) \<and>
     (case timeoutMs r of None \<Rightarrow> True | Some n \<Rightarrow> 1 \<le> n \<and> n \<le> maxSafeInteger) \<and>
     (case maxConcurrency r of None \<Rightarrow> True | Some n \<Rightarrow> 1 \<le> n \<and> n \<le> maxSafeInteger)"

definition ruleOk :: "jobject \<Rightarrow> compiledPolicyRule \<Rightarrow> bool" where
  "ruleOk consts r \<longleftrightarrow>
     textOk 1 (Some 128) (ruleId r) \<and> matches ruleIdPattern (ruleId r) \<and>
     textOk 1 (Some 64) (ruleDomain r) \<and> stringsOk (subjectTypes r) \<and>
     textOk 1 (Some 128) (ruleAction r) \<and> stringsOk (resourceTypes r) \<and>
     conditionOk consts 4 (ruleWhen r) \<and> requirementsOk (requirements r) \<and>
     textOk 3 (Some 128) (reasonCode r) \<and> matches stableCode (reasonCode r) \<and>
     dataOk (JObj (metadata r))"

definition policySetOk :: "compiledPolicySet \<Rightarrow> bool" where
  "policySetOk p \<longleftrightarrow>
     textOk 1 None (policySetId p) \<and> matches uuidV7 (policySetId p) \<and>
     textOk 1 None (policyVersion p) \<and> matches semver (policyVersion p) \<and>
     textOk 1 (Some 2048) (description p) \<and> textOk 1 (Some 512) (policySourceRef p) \<and>
     dataOk (JObj (constants p)) \<and> sorted (objKeys (constants p)) \<and>
     (\<forall>k \<in> set (objKeys (constants p)). matches constantName k) \<and>
     length (policyRules p) \<le> 4096 \<and> sorted (map ruleId (policyRules p)) \<and>
     distinct (map ruleId (policyRules p)) \<and>
     (\<forall>r \<in> set (policyRules p). ruleOk (constants p) r)"

section \<open>Compilation is sound\<close>

lemma dataOk_key: "dataOk (JObj obj) \<Longrightarrow> map_of obj k = Some v \<Longrightarrow> dataOk v"
  by (auto dest!: map_of_SomeD)

lemma dataOk_arr: "dataOk (JArr xs) \<Longrightarrow> x \<in> set xs \<Longrightarrow> dataOk x"
  by auto

lemma requiredString_Inr:
  "requiredString obj key path pattern maxLength minLength = Inr s \<longleftrightarrow>
     getKey obj key = Some (JStr s) \<and> minLength \<le> length s \<and>
     (case maxLength of None \<Rightarrow> True | Some m \<Rightarrow> length s \<le> m) \<and>
     (case pattern of None \<Rightarrow> True | Some p \<Rightarrow> matches p s)"
  by (auto simp: requiredString_def not_less split: option.splits json.splits)

lemma requiredString_sound:
  assumes "requiredString obj key path pattern maxLength minLength = Inr s" "dataOk (JObj obj)"
  shows "textOk minLength maxLength s" "case pattern of None \<Rightarrow> True | Some p \<Rightarrow> matches p s"
proof -
  have "dataOk (JStr s)" using assms by (auto simp: requiredString_Inr intro: dataOk_key)
  then show "textOk minLength maxLength s" using assms(1) by (simp add: requiredString_Inr textOk_def)
  show "case pattern of None \<Rightarrow> True | Some p \<Rightarrow> matches p s"
    using assms(1) by (simp add: requiredString_Inr)
qed

lemma find_set: "find P xs = Some x \<Longrightarrow> x \<in> set xs \<and> P x"
  by (auto simp: find_Some_iff)

lemma exactKeys_Inr: "exactKeys obj allowed path = Inr u \<longleftrightarrow> set (objKeys obj) \<subseteq> js ` set allowed"
proof (cases "find (\<lambda>k. k \<notin> set (map js allowed)) (objKeys obj)")
  case None
  then have "set (objKeys obj) \<subseteq> js ` set allowed" by (auto simp: find_None_iff)
  moreover have "exactKeys obj allowed path = Inr ()" unfolding exactKeys_def None by simp
  ultimately show ?thesis by simp
next
  case (Some k)
  then have "\<not> set (objKeys obj) \<subseteq> js ` set allowed" using find_set [OF Some] by auto
  moreover have "exactKeys obj allowed path \<noteq> Inr u" unfolding exactKeys_def Some by simp
  ultimately show ?thesis by simp
qed

lemma bounded_strings:
  "list_all (\<lambda>x. isBoundedString (Some x) l m) xs \<longleftrightarrow>
     (\<exists>us. xs = map JStr us \<and> (\<forall>s \<in> set us. l \<le> length s \<and> length s \<le> m))"
proof
  assume "list_all (\<lambda>x. isBoundedString (Some x) l m) xs"
  then show "\<exists>us. xs = map JStr us \<and> (\<forall>s \<in> set us. l \<le> length s \<and> length s \<le> m)"
  proof (induction xs)
    case (Cons x xs)
    then obtain us s where "xs = map JStr us" "\<forall>s \<in> set us. l \<le> length s \<and> length s \<le> m"
      "x = JStr s" "l \<le> length s" "length s \<le> m"
      by (auto simp: isBoundedString_def split: json.splits)
    then show ?case by (intro exI [of _ "s # us"]) simp
  qed simp
qed (auto simp: isBoundedString_def list_all_iff)

lemma stringsOf_map [simp]: "stringsOf (map JStr us) = us"
  by (simp add: stringsOf_def comp_def)

lemma isUniqueBoundedStringArray_iff:
  "isUniqueBoundedStringArray value m \<longleftrightarrow>
     (\<exists>us. value = Some (jstrs us) \<and> distinct us \<and> (\<forall>s \<in> set us. 1 \<le> length s \<and> length s \<le> m))"
proof (cases "\<exists>xs. value = Some (JArr xs)")
  case True
  then obtain xs where "value = Some (JArr xs)" by blast
  then show ?thesis
    by (auto simp: isUniqueBoundedStringArray_def bounded_strings jstrs_def distinct_map inj_on_def)
next
  case False
  then show ?thesis
    by (auto simp: isUniqueBoundedStringArray_def jstrs_def split: option.splits json.splits)
qed

lemma sortedUniqueStrings_Inr:
  "sortedUniqueStrings value path = Inr ss \<longleftrightarrow>
     (\<exists>us. value = Some (jstrs us) \<and> ss = sort us \<and> distinct us \<and>
        (\<forall>s \<in> set us. 1 \<le> length s \<and> length s \<le> 256))"
proof (cases "isUniqueBoundedStringArray value 256")
  case True
  then obtain us where "value = Some (jstrs us)" "distinct us"
    "\<forall>s \<in> set us. 1 \<le> length s \<and> length s \<le> 256"
    unfolding isUniqueBoundedStringArray_iff by blast
  then show ?thesis using True by (auto simp: sortedUniqueStrings_def jstrs_def inj_map_eq_map inj_def)
next
  case False
  then show ?thesis by (auto simp: sortedUniqueStrings_def isUniqueBoundedStringArray_iff)
qed

lemma sortedUniqueStrings_sound:
  assumes "sortedUniqueStrings value path = Inr ss" "\<And>v. value = Some v \<Longrightarrow> dataOk v"
  shows "stringsOk ss"
  using assms by (auto simp: sortedUniqueStrings_Inr stringsOk_def textOk_def jstrs_def)

lemma positiveInteger_sound:
  assumes "positiveInteger value path = Inr r"
  shows "case r of None \<Rightarrow> value = None
    | Some n \<Rightarrow> 1 \<le> n \<and> n \<le> maxSafeInteger \<and> (\<exists>x. value = Some (JNum x) \<and> n = num_to_int x \<and> isSafeInteger x)"
  using assms
  by (auto simp: positiveInteger_def isSafeInteger_def num_to_int_def
      split: option.splits json.splits if_splits jsnum.splits)

lemma compileRequirements_sound:
  assumes "compileRequirements value path = Inr r" "\<And>v. value = Some v \<Longrightarrow> dataOk v"
  shows "requirementsOk r"
proof -
  obtain obj where obj: "value = Some (JObj obj)"
    using assms(1) by (auto simp: compileRequirements_def split: option.splits json.splits)
  then have ok: "\<And>k v. getKey obj k = Some v \<Longrightarrow> dataOk v" using assms(2) dataOk_key by metis
  obtain scopes isolation timeout concurrency post where
    s: "(if getKey obj ''permissionScopes'' = None then Inr None
         else bindE (sortedUniqueStrings (getKey obj ''permissionScopes'')
                 (path @ js ''/permissionScopes'')) (\<lambda>s. Inr (Some s))) = Inr scopes" and
    t: "positiveInteger (getKey obj ''timeoutMs'') (path @ js ''/timeoutMs'') = Inr timeout" and
    c: "positiveInteger (getKey obj ''maxConcurrency'') (path @ js ''/maxConcurrency'') = Inr concurrency" and
    r: "r = \<lparr>permissionScopes = scopes, minimumIsolationLevel = isolation,
      timeoutMs = timeout, maxConcurrency = concurrency, postVerificationRequired = post\<rparr>"
    using assms(1) obj by (auto simp: compileRequirements_def)
  have "case scopes of None \<Rightarrow> True | Some ss \<Rightarrow> stringsOk ss"
    using s ok sortedUniqueStrings_sound by (fastforce split: option.splits if_splits)
  then show ?thesis
    using r positiveInteger_sound [OF t] positiveInteger_sound [OF c]
    by (simp add: requirementsOk_def split: option.splits)
qed

lemma conditionFailure_Inr [simp]: "conditionFailure p m \<noteq> Inr x"
  by (simp add: conditionFailure_def)

lemma compileLeaf_sound:
  assumes "compileLeaf leaf obj path consts = Inr c" "dataOk (JObj obj)" "0 \<le> d"
  shows "conditionOk consts d c"
proof -
  obtain reference where r: "requiredString obj ''reference'' path None None 1 = Inr reference"
    using assms(1) by (auto simp: compileLeaf_def)
  have "textOk 1 None reference" using requiredString_sound(1) [OF r assms(2)] .
  moreover have "case getKey obj ''operand'' of None \<Rightarrow> True | Some v \<Rightarrow> dataOk v"
    using dataOk_key [OF assms(2)] by (auto split: option.splits)
  ultimately show ?thesis
    using assms(1,3) r by (auto simp: compileLeaf_def Let_def split: if_splits)
qed

lemma mapE_enumerate:
  assumes "mapE (\<lambda>(i, x). f i x) (enumerate n xs) = Inr ys" "y \<in> set ys"
  shows "\<exists>i x. n \<le> i \<and> x \<in> set xs \<and> f i x = Inr y"
proof -
  obtain ix where ix: "ix \<in> set (enumerate n xs)" and "(case ix of (i, x) \<Rightarrow> f i x) = Inr y"
    using mapE_set [OF assms] by blast
  then have "f (fst ix) (snd ix) = Inr y" by (simp add: case_prod_unfold)
  moreover have "snd ix \<in> set (map snd (enumerate n xs))" using ix by (simp del: map_snd_enumerate)
  moreover have "n \<le> fst ix" using ix by (simp add: in_set_enumerate_eq)
  ultimately show ?thesis by auto
qed

lemma compileCondition_cases:
  assumes "compileCondition v0 path d consts = Inr c"
  obtains
    (many) obj cs ks where "v0 = Some (JObj obj)" "0 \<le> d"
      "getKey obj ''conditions'' = Some (JArr cs)" "cs \<noteq> []" "length cs \<le> 32"
      "mapE (\<lambda>(index, child). compileCondition (Some child)
         (path @ js ''/conditions/'' @ natStr index) (d - 1) consts) (enumerate 0 cs) = Inr ks"
      "c = CAll ks \<or> c = CAny ks"
  | (negation) obj k where "v0 = Some (JObj obj)" "0 \<le> d"
      "compileCondition (getKey obj ''condition'') (path @ js ''/condition'') (d - 1) consts = Inr k"
      "c = CNot k"
  | (leaf) obj leaf where "v0 = Some (JObj obj)" "0 \<le> d" "compileLeaf leaf obj path consts = Inr c"
proof -
  obtain obj where obj: "v0 = Some (JObj obj)"
    using assms by (cases "(v0, path, d, consts)" rule: compileCondition.cases) auto
  have d: "0 \<le> d"
    using assms obj by (auto simp: compileCondition.simps(1) split: if_splits)
  show thesis
    using assms unfolding obj compileCondition.simps(1) Let_def
    by (auto split: if_splits option.splits json.splits
        intro: many [OF obj d] negation [OF obj d] leaf [OF obj d] simp del: mapE.simps)
qed

lemma compileCondition_sound:
  "compileCondition v0 path d consts = Inr c \<Longrightarrow> (\<And>v. v0 = Some v \<Longrightarrow> dataOk v) \<Longrightarrow>
   conditionOk consts d c"
proof (induction "nat (d + 1)" arbitrary: v0 path d c rule: less_induct)
  case less
  from less.prems(1) show ?case
  proof (cases rule: compileCondition_cases)
    case (many obj cs ks)
    have data: "dataOk x" if "x \<in> set cs" for x
      using less.prems(2) many(1,3) dataOk_key dataOk_arr that by metis
    have "conditionOk consts (d - 1) k" if "k \<in> set ks" for k
    proof -
      obtain i x where "x \<in> set cs" "compileCondition (Some x)
         (path @ js ''/conditions/'' @ natStr i) (d - 1) consts = Inr k"
        using mapE_enumerate [OF many(6) \<open>k \<in> set ks\<close>] by blast
      then show ?thesis using less.hyps [of "d - 1"] data many(2) by auto
    qed
    moreover have "length ks = length cs" using mapE_length [OF many(6)] by simp
    ultimately show ?thesis using many by auto
  next
    case (negation obj k)
    have "dataOk v" if "getKey obj ''condition'' = Some v" for v
      using less.prems(2) negation(1) dataOk_key that by metis
    then show ?thesis using less.hyps [of "d - 1"] negation by auto
  next
    case (leaf obj leaf)
    then show ?thesis using compileLeaf_sound less.prems(2) by metis
  qed
qed

lemma compileRuleFields_Inr:
  assumes "compileRuleFields obj subject resource eff meta path consts = Inr r"
  shows "requiredString obj ''ruleId'' path (Some ruleIdPattern) (Some 128) 1 = Inr (ruleId r)"
    "requiredString obj ''domain'' path None (Some 64) 1 = Inr (ruleDomain r)"
    "sortedUniqueStrings (getKey subject ''subjectTypes'')
       (path @ js ''/subjectSelector/subjectTypes'') = Inr (subjectTypes r)"
    "requiredString obj ''action'' path None (Some 128) 1 = Inr (ruleAction r)"
    "sortedUniqueStrings (getKey resource ''resourceTypes'')
       (path @ js ''/resourceSelector/resourceTypes'') = Inr (resourceTypes r)"
    "compileCondition (getKey obj ''when'') (path @ js ''/when'') 4 consts = Inr (ruleWhen r)"
    "compileRequirements (getKey obj ''requirements'') (path @ js ''/requirements'') =
       Inr (requirements r)"
    "requiredString obj ''reasonCode'' path (Some stableCode) (Some 128) 3 = Inr (reasonCode r)"
    "effect r = eff" "metadata r = meta"
  using assms by (auto simp: compileRuleFields_def)

lemma ruleFailure_Inr [simp]: "ruleFailure p m \<noteq> Inr x"
  by (simp add: ruleFailure_def)

lemma setFailure_Inr [simp]: "setFailure p m \<noteq> Inr x"
  by (simp add: setFailure_def)

lemma compileRule_Inr:
  assumes "compileRule v index consts = Inr r"
  obtains obj subject resource eff meta where "v = JObj obj"
    "set (objKeys obj) \<subseteq> js ` {''schemaVersion'', ''ruleId'', ''domain'', ''subjectSelector'',
       ''action'', ''resourceSelector'', ''when'', ''ruleEffect'', ''requirements'',
       ''reasonCode'', ''metadata''}"
    "getKey obj ''schemaVersion'' = Some (JStr (js ''1.0.0''))"
    "getKey obj ''subjectSelector'' = Some (JObj subject)"
    "getKey obj ''resourceSelector'' = Some (JObj resource)"
    "set (objKeys subject) \<subseteq> {js ''subjectTypes''}"
    "set (objKeys resource) \<subseteq> {js ''resourceTypes''}"
    "effectOf (getKey obj ''ruleEffect'') = Some eff"
    "getKey obj ''metadata'' = Some (JObj meta)"
    "compileRuleFields obj subject resource eff meta (js ''$/rules/'' @ natStr index) consts = Inr r"
  using assms
  by (auto simp: compileRule_def Let_def exactKeys_Inr split: json.splits if_splits option.splits)

lemma compileRule_sound:
  assumes "compileRule v index consts = Inr r" "dataOk v"
  shows "ruleOk consts r"
  using assms(1)
proof (rule compileRule_Inr)
  fix obj subject resource eff meta
  assume v: "v = JObj obj" and
    sub: "getKey obj ''subjectSelector'' = Some (JObj subject)"
      "getKey obj ''resourceSelector'' = Some (JObj resource)"
      "getKey obj ''metadata'' = Some (JObj meta)" and
    f: "compileRuleFields obj subject resource eff meta (js ''$/rules/'' @ natStr index) consts = Inr r"
  note fields = compileRuleFields_Inr [OF f]
  have obj: "dataOk (JObj obj)" using assms(2) v by simp
  have sub_ok: "dataOk (JObj subject)" "dataOk (JObj resource)" "dataOk (JObj meta)"
    using sub dataOk_key [OF obj] by blast+
  show ?thesis
    unfolding ruleOk_def
    using requiredString_sound [OF fields(1) obj] requiredString_sound [OF fields(2) obj]
      requiredString_sound [OF fields(4) obj] requiredString_sound [OF fields(8) obj]
      sortedUniqueStrings_sound [OF fields(3) dataOk_key [OF sub_ok(1)]]
      sortedUniqueStrings_sound [OF fields(5) dataOk_key [OF sub_ok(2)]]
      compileCondition_sound [OF fields(6) dataOk_key [OF obj]]
      compileRequirements_sound [OF fields(7) dataOk_key [OF obj]] fields(10) sub_ok(3)
    by simp
qed

lemma matches_Empty [simp]: "\<not> matches Empty s"
  by (simp add: matches_lang)

lemma constantName_first: "matches constantName k \<Longrightarrow> \<exists>c r. k = c # r \<and> 65 \<le> c \<and> c \<le> 90"
  by (cases k) (auto simp: constantName_def inCls_def rng_def split: if_splits)

lemma constantName_not_index: "matches constantName k \<Longrightarrow> \<not> isArrayIndex k"
proof
  assume m: "matches constantName k" and "isArrayIndex k"
  then have "k = natStr (valDigits k)" by (simp add: isArrayIndex_def)
  then have "\<forall>c \<in> set k. isDigit c" using isDigit_natStr by metis
  then obtain c :: "16 word" where "65 \<le> c" "c \<le> 57"
    using constantName_first [OF m] by (auto simp: isDigit_def)
  then have "(65 :: 16 word) \<le> 57" by (rule order.trans)
  then show False by simp
qed

lemma compileConstants_Inr:
  "compileConstants consts = Inr sorted_consts \<longleftrightarrow>
     sorted_consts = sort_key fst consts \<and> (\<forall>k \<in> set (objKeys consts). matches constantName k)"
proof -
  have "set (objKeys (fromEntries (sort_key fst consts))) = set (objKeys consts)"
    by (auto simp: fromEntries_def objKeys_def)
  moreover have "fromEntries (sort_key fst consts) = sort_key fst consts"
    if "\<forall>k \<in> set (objKeys consts). matches constantName k"
  proof -
    have *: "\<forall>kv \<in> set (sort_key fst consts). \<not> isArrayIndex (fst kv)"
      using that constantName_not_index by (auto simp: objKeys_def)
    then have "filter (\<lambda>kv. isArrayIndex (fst kv)) (sort_key fst consts) = []"
      "filter (\<lambda>kv. \<not> isArrayIndex (fst kv)) (sort_key fst consts) = sort_key fst consts"
      by (simp_all add: filter_empty_conv)
    then show ?thesis by (simp add: fromEntries_def)
  qed
  moreover have "compileConstants consts = Inr sorted_consts \<longleftrightarrow>
      sorted_consts = fromEntries (sort_key fst consts) \<and>
      (\<forall>k \<in> set (objKeys (fromEntries (sort_key fst consts))). matches constantName k)"
  proof (cases "find (\<lambda>k. \<not> matches constantName k) (objKeys (fromEntries (sort_key fst consts)))")
    case None
    then have "\<forall>k \<in> set (objKeys (fromEntries (sort_key fst consts))). matches constantName k"
      by (auto simp: find_None_iff)
    then show ?thesis unfolding compileConstants_def Let_def None by auto
  next
    case (Some k)
    then show ?thesis
      using find_set [OF Some] unfolding compileConstants_def Let_def Some by auto
  qed
  ultimately show ?thesis by auto
qed

lemma compileSetFields_Inr:
  "compileSetFields obj source kind consts rules = Inr p \<longleftrightarrow>
     (\<exists>rs. mapE (\<lambda>(index, rule). compileRule rule index consts) (enumerate 0 rules) = Inr rs \<and>
        distinct (map ruleId rs) \<and> policyRules p = sort_key ruleId rs) \<and>
     constants p = sort_key fst consts \<and> (\<forall>k \<in> set (objKeys consts). matches constantName k) \<and>
     requiredString obj ''policySetId'' (js ''$'') (Some uuidV7) None 1 = Inr (policySetId p) \<and>
     requiredString obj ''version'' (js ''$'') (Some semver) None 1 = Inr (policyVersion p) \<and>
     requiredString obj ''description'' (js ''$'') None (Some 2048) 1 = Inr (description p) \<and>
     requiredString source ''ref'' (js ''$/source'') None (Some 512) 1 = Inr (policySourceRef p) \<and>
     policySourceKind p = kind"
  by (cases p) (auto simp: compileSetFields_def compileConstants_Inr split: if_splits)

lemma compileSetJson_Inr:
  "compileSetJson v = Inr p \<longleftrightarrow> (\<exists>obj source consts rules kind. v = JObj obj \<and>
    set (objKeys obj) \<subseteq> js ` {''schemaVersion'', ''policySetId'', ''version'', ''description'',
       ''source'', ''defaultOutcome'', ''constants'', ''rules''} \<and>
    getKey obj ''schemaVersion'' = Some (JStr (js ''1.0.0'')) \<and>
    getKey obj ''defaultOutcome'' = Some (JStr (js ''DENY'')) \<and>
    getKey obj ''source'' = Some (JObj source) \<and> getKey obj ''constants'' = Some (JObj consts) \<and>
    getKey obj ''rules'' = Some (JArr rules) \<and> length rules \<le> 4096 \<and>
    set (objKeys source) \<subseteq> js ` {''kind'', ''ref''} \<and>
    sourceKindOf (getKey source ''kind'') = Some kind \<and>
    compileSetFields obj source kind consts rules = Inr p)"
  by (auto simp: compileSetJson_def exactKeys_Inr split: json.splits if_splits option.splits)


lemma mset_map_sort_key: "mset (map f (sort_key g xs)) = mset (map f xs)"
  by (simp add: mset_map)

lemma distinct_map_sort_key [simp]: "distinct (map f (sort_key g xs)) = distinct (map f xs)"
  by (rule mset_eq_imp_distinct_iff) (simp add: mset_map_sort_key)

lemma dataOk_sort_key: "dataOk (JObj (sort_key fst kvs)) = dataOk (JObj kvs)"
  by auto

lemma objKeys_sort_key: "sorted (objKeys (sort_key fst kvs))" "set (objKeys (sort_key fst kvs)) = set (objKeys kvs)"
  by (simp_all add: objKeys_def)

lemma conditionOk_consts:
  "set (objKeys c1) = set (objKeys c2) \<Longrightarrow> conditionOk c1 d c = conditionOk c2 d c"
  by (induction c1 d c rule: conditionOk.induct) auto

lemma ruleOk_consts: "set (objKeys c1) = set (objKeys c2) \<Longrightarrow> ruleOk c1 r = ruleOk c2 r"
  using conditionOk_consts [of c1 c2] by (simp add: ruleOk_def)

lemma compileSetJson_sound:
  assumes "compileSetJson v = Inr p" "dataOk v"
  shows "policySetOk p"
proof -
  obtain obj source cns rules kind where v: "v = JObj obj" and
    keys: "getKey obj ''source'' = Some (JObj source)" "getKey obj ''constants'' = Some (JObj cns)"
      "getKey obj ''rules'' = Some (JArr rules)" and len: "length rules \<le> 4096" and
    f: "compileSetFields obj source kind cns rules = Inr p"
    using assms(1) by (auto simp: compileSetJson_Inr)
  have obj: "dataOk (JObj obj)" using assms(2) v by simp
  have sub: "dataOk (JObj source)" "dataOk (JObj cns)" "dataOk (JArr rules)"
    using keys dataOk_key [OF obj] by blast+
  obtain rs where rs: "mapE (\<lambda>(index, rule). compileRule rule index cns) (enumerate 0 rules) = Inr rs"
    "distinct (map ruleId rs)" "policyRules p = sort_key ruleId rs" and
    c: "constants p = sort_key fst cns" "\<forall>k \<in> set (objKeys cns). matches constantName k" and
    strs: "requiredString obj ''policySetId'' (js ''$'') (Some uuidV7) None 1 = Inr (policySetId p)"
      "requiredString obj ''version'' (js ''$'') (Some semver) None 1 = Inr (policyVersion p)"
      "requiredString obj ''description'' (js ''$'') None (Some 2048) 1 = Inr (description p)"
      "requiredString source ''ref'' (js ''$/source'') None (Some 512) 1 = Inr (policySourceRef p)"
    using f unfolding compileSetFields_Inr by blast
  have rules: "ruleOk (constants p) r" if r: "r \<in> set rs" for r
  proof -
    obtain i x where "x \<in> set rules" "compileRule x i cns = Inr r"
      using mapE_enumerate [of "\<lambda>i x. compileRule x i cns", OF rs(1) r] by blast
    then have "ruleOk cns r" using compileRule_sound dataOk_arr [OF sub(3)] by blast
    then show ?thesis using c(1) ruleOk_consts objKeys_sort_key(2) by metis
  qed
  have "length rs = length rules" using mapE_length [OF rs(1)] by simp
  then show ?thesis
    unfolding policySetOk_def
    using requiredString_sound [OF strs(1) obj] requiredString_sound [OF strs(2) obj]
      requiredString_sound [OF strs(3) obj] requiredString_sound [OF strs(4) sub(1)]
      sub(2) rules rs(2,3) c len
    by (simp add: dataOk_sort_key objKeys_sort_key del: policyOk.simps json_wf.simps)
qed

section \<open>Compiling a compiled set\<close>

lemma getKey_simps [simp]: "map_of ((k, v) # kvs) k' = (if k' = k then Some v else map_of kvs k')"
  by simp

lemma map_of_optMember [simp]:
  "map_of (optMember k f v) k' = (if k' = js k then map_option f v else None)"
  by (cases v) (auto simp: optMember_def)

lemma objKeys_optMember: "set (objKeys (optMember k f v)) \<subseteq> {js k}"
  by (cases v) (simp_all add: optMember_def objKeys_def)

lemma objKeys_append [simp]: "objKeys (a @ b) = objKeys a @ objKeys b"
  by (simp add: objKeys_def)

lemma objKeys_Cons [simp]: "objKeys ((k, v) # kvs) = k # objKeys kvs" "objKeys [] = []"
  by (simp_all add: objKeys_def)

lemma stringsOk_complete: "stringsOk ss \<Longrightarrow> sortedUniqueStrings (Some (jstrs ss)) path = Inr ss"
  by (auto simp: sortedUniqueStrings_Inr stringsOk_def textOk_def sorted_sort_id)

lemma requirements_complete:
  assumes "requirementsOk r"
  shows "compileRequirements (Some (requirementsJson r)) path = Inr r"
proof -
  obtain scopes iso timeout conc post where r: "r = \<lparr>permissionScopes = scopes,
      minimumIsolationLevel = iso, timeoutMs = timeout, maxConcurrency = conc,
      postVerificationRequired = post\<rparr>"
    by (cases r)
  define obj where "obj = optMember ''permissionScopes'' jstrs scopes @
     optMember ''minimumIsolationLevel'' (\<lambda>l. JStr (isolationName l)) iso @
     optMember ''timeoutMs'' (\<lambda>n. JNum (numInt n)) timeout @
     optMember ''maxConcurrency'' (\<lambda>n. JNum (numInt n)) conc @
     optMember ''postVerificationRequired'' JBool post"
  have keys: "exactKeys obj [''permissionScopes'', ''minimumIsolationLevel'', ''timeoutMs'',
      ''maxConcurrency'', ''postVerificationRequired''] path = Inr ()"
    unfolding exactKeys_Inr obj_def by (auto dest: subsetD [OF objKeys_optMember])
  have get: "getKey obj ''permissionScopes'' = map_option jstrs scopes"
    "getKey obj ''minimumIsolationLevel'' = map_option (\<lambda>l. JStr (isolationName l)) iso"
    "getKey obj ''timeoutMs'' = map_option (\<lambda>n. JNum (numInt n)) timeout"
    "getKey obj ''maxConcurrency'' = map_option (\<lambda>n. JNum (numInt n)) conc"
    "getKey obj ''postVerificationRequired'' = map_option JBool post"
    by (simp_all add: obj_def map_add_def option.case_eq_if)
  have json: "requirementsJson r = JObj obj" by (simp add: requirementsJson_def r obj_def)
  have "compileIsolation (map_option (\<lambda>l. JStr (isolationName l)) iso) path = Inr iso"
    by (cases iso) (simp_all add: compileIsolation_def)
  moreover have "positiveInteger (map_option (\<lambda>n. JNum (numInt n)) timeout) q = Inr timeout"
    "positiveInteger (map_option (\<lambda>n. JNum (numInt n)) conc) q = Inr conc" for q
    using assms by (auto simp: positiveInteger_def requirementsOk_def r split: option.splits)
  moreover have "compilePostVerification (map_option JBool post) path = Inr post"
    by (cases post) (simp_all add: compilePostVerification_def)
  moreover have "(if map_option jstrs scopes = None then Inr None
     else bindE (sortedUniqueStrings (map_option jstrs scopes) q) (\<lambda>s. Inr (Some s))) = Inr scopes" for q
    using assms stringsOk_complete by (cases scopes) (simp_all add: requirementsOk_def r)
  ultimately show ?thesis
    unfolding json
    by (cases scopes) (simp_all add: compileRequirements_def keys get r del: bindE_Inr_iff)
qed

lemma mapE_enumerate_total:
  assumes "\<And>i x. x \<in> set xs \<Longrightarrow> f i (g x) = Inr x"
  shows "mapE (\<lambda>(i, x). f i x) (enumerate n (map g xs)) = Inr xs"
  using assms by (induction xs arbitrary: n) auto

lemma condition_complete:
  "conditionOk cns d c \<Longrightarrow> compileCondition (Some (conditionJson c)) path d cns = Inr c"
proof (induction cns d c arbitrary: path rule: conditionOk.induct)
  case (1 cns d cs)
  then have "mapE (\<lambda>(index, child). compileCondition (Some child)
       (path @ js ''/conditions/'' @ natStr index) (d - 1) cns)
     (enumerate 0 (map conditionJson cs)) = Inr cs"
    by (intro mapE_enumerate_total) auto
  then show ?case using "1.prems"
    by (simp add: compileCondition.simps(1) Let_def exactKeys_def del: bindE_Inr_iff)
next
  case (2 cns d cs)
  then have "mapE (\<lambda>(index, child). compileCondition (Some child)
       (path @ js ''/conditions/'' @ natStr index) (d - 1) cns)
     (enumerate 0 (map conditionJson cs)) = Inr cs"
    by (intro mapE_enumerate_total) auto
  then show ?case using "2.prems"
    by (simp add: compileCondition.simps(1) Let_def exactKeys_def del: bindE_Inr_iff)
next
  case (3 cns d c)
  then show ?case
    by (simp add: compileCondition.simps(1) Let_def exactKeys_def del: bindE_Inr_iff)
next
  case (4 cns d operator reference operand)
  have k: "exactKeys ((js ''operator'', JStr (leafOperatorName operator)) #
      (js ''reference'', JStr reference) # optMember ''operand'' (\<lambda>v. v) operand)
      [''operator'', ''reference'', ''operand''] path = Inr ()"
    unfolding exactKeys_Inr using objKeys_optMember [of "''operand''" "\<lambda>v. v" operand] by auto
  have r: "requiredString ((js ''operator'', JStr (leafOperatorName operator)) #
      (js ''reference'', JStr reference) # optMember ''operand'' (\<lambda>v. v) operand)
      ''reference'' path None None 1 = Inr reference"
    using 4 by (simp add: requiredString_Inr textOk_def)
  have "compileLeaf operator ((js ''operator'', JStr (leafOperatorName operator)) #
      (js ''reference'', JStr reference) # optMember ''operand'' (\<lambda>v. v) operand) path cns =
      Inr (CLeaf operator reference operand)"
    unfolding compileLeaf_def k r bindE_simps Let_def using 4 by auto
  then show ?case
    using 4 by (simp add: compileCondition.simps(1) Let_def)
qed

lemma rule_complete:
  assumes "ruleOk cns r" shows "compileRule (ruleJson r) index cns = Inr r"
proof -
  show ?thesis
    using assms
    by (auto simp: compileRule_def ruleJson_def Let_def exactKeys_def compileRuleFields_def
        requiredString_def ruleOk_def textOk_def stringsOk_complete condition_complete
        requirements_complete simp del: bindE_Inr_iff)
qed

lemma mapE_enumerate_rules:
  "(\<And>r. r \<in> set rs \<Longrightarrow> ruleOk cns r) \<Longrightarrow>
   mapE (\<lambda>(index, rule). compileRule rule index cns) (enumerate n (map ruleJson rs)) = Inr rs"
  by (rule mapE_enumerate_total [of rs "\<lambda>i x. compileRule x i cns"]) (simp add: rule_complete)

lemma sorted_sort_key_id: "sorted (map f xs) \<Longrightarrow> sort_key f xs = xs"
  by (rule sort_key_id_if_sorted)

lemma compileSetJson_complete:
  assumes "policySetOk p" shows "compileSetJson (policySetJson p) = Inr p"
proof -
  let ?obj = "[
     (js ''schemaVersion'', JStr (js ''1.0.0'')),
     (js ''policySetId'', JStr (policySetId p)),
     (js ''version'', JStr (policyVersion p)),
     (js ''description'', JStr (description p)),
     (js ''source'', JObj [(js ''kind'', JStr (sourceKindName (policySourceKind p))),
                           (js ''ref'', JStr (policySourceRef p))]),
     (js ''defaultOutcome'', JStr (js ''DENY'')),
     (js ''constants'', JObj (constants p)),
     (js ''rules'', JArr (map ruleJson (policyRules p)))]"
  let ?source = "[(js ''kind'', JStr (sourceKindName (policySourceKind p))),
                           (js ''ref'', JStr (policySourceRef p))]"
  have rules: "mapE (\<lambda>(index, rule). compileRule rule index (constants p))
      (enumerate 0 (map ruleJson (policyRules p))) = Inr (policyRules p)"
    by (rule mapE_enumerate_rules) (use assms in \<open>simp add: policySetOk_def\<close>)
  have "compileSetFields ?obj ?source (policySourceKind p) (constants p)
      (map ruleJson (policyRules p)) = Inr p"
    using assms rules unfolding compileSetFields_Inr requiredString_Inr
    by (simp add: policySetOk_def textOk_def sorted_sort_key_id objKeys_def)
  then show ?thesis
    using assms unfolding policySetJson_def compileSetJson_Inr
    by (intro exI [of _ ?obj] exI [of _ ?source] exI [of _ "constants p"]
        exI [of _ "map ruleJson (policyRules p)"] exI [of _ "policySourceKind p"])
      (simp add: policySetOk_def)
qed

section \<open>A compiled set is policy data\<close>

lemma dataOk_JObj_Cons:
  "dataOk (JObj ((js k, v) # kvs)) \<longleftrightarrow> js k \<notin> set protectedKeys \<and> wellFormedUnicode None (js k) \<and>
     dataOk v \<and> js k \<notin> set (objKeys kvs) \<and> dataOk (JObj kvs)"
  by (auto simp: objKeys_def)

lemma dataOk_JObj_Nil [simp]: "policyOk (JObj [])" "json_wf (JObj [])"
  by simp_all

lemma dataOk_optMember:
  "dataOk (JObj (optMember k f v @ kvs)) \<longleftrightarrow>
     (case v of None \<Rightarrow> True
      | Some x \<Rightarrow> js k \<notin> set protectedKeys \<and> wellFormedUnicode None (js k) \<and> dataOk (f x) \<and>
          js k \<notin> set (objKeys kvs)) \<and> dataOk (JObj kvs)"
  by (cases v) (auto simp: optMember_def objKeys_def)

lemma dataOk_optMember_last:
  "dataOk (JObj (optMember k f v)) \<longleftrightarrow>
     (case v of None \<Rightarrow> True
      | Some x \<Rightarrow> js k \<notin> set protectedKeys \<and> wellFormedUnicode None (js k) \<and> dataOk (f x))"
  using dataOk_optMember [of k f v "[]"] by (cases v) simp_all

lemma dataOk_JArr: "dataOk (JArr xs) \<longleftrightarrow> (\<forall>x \<in> set xs. dataOk x)"
  by auto

lemma dataOk_JStr: "dataOk (JStr s) \<longleftrightarrow> wellFormedUnicode None s"
  by simp

lemma dataOk_numInt: "dataOk (JNum (numInt n))" "dataOk (JBool b)"
  by simp_all

lemma dataOk_jstrs: "dataOk (jstrs ss) \<longleftrightarrow> (\<forall>s \<in> set ss. wellFormedUnicode None s)"
  by (auto simp: jstrs_def)

lemmas dataOk_simps = dataOk_JObj_Cons dataOk_JObj_Nil dataOk_optMember dataOk_optMember_last
  dataOk_JArr dataOk_JStr dataOk_numInt dataOk_jstrs

lemma objKeys_opt [simp]: "js k \<in> set (objKeys (optMember k' f v)) \<longleftrightarrow> k = k' \<and> v \<noteq> None"
  by (cases v) (simp_all add: optMember_def)

lemma names_wellFormed [simp]:
  "wellFormedUnicode None (isolationName l)" "wellFormedUnicode None (leafOperatorName k)"
  "wellFormedUnicode None (effectName e)" "wellFormedUnicode None (sourceKindName s)"
     apply (cases l; simp add: wellFormed_js)
    apply (cases k; simp add: wellFormed_js)
   apply (cases e; simp add: wellFormed_js)
  apply (cases s; simp add: wellFormed_js)
  done

lemma dataOk_requirements: "requirementsOk r \<Longrightarrow> dataOk (requirementsJson r)"
  unfolding requirementsJson_def dataOk_simps
  by (auto simp: requirementsOk_def stringsOk_def textOk_def protectedKeys_def wellFormed_js
      split: option.splits)

lemma dataOk_condition: "conditionOk cns d c \<Longrightarrow> dataOk (conditionJson c)"
proof (induction cns d c rule: conditionOk.induct)
  case (4 cns d operator reference operand)
  have eq: "conditionJson (CLeaf operator reference operand) =
      JObj ((js ''operator'', JStr (leafOperatorName operator)) # (js ''reference'', JStr reference) #
           optMember ''operand'' (\<lambda>v. v) operand)" by simp
  show ?case
    using 4 unfolding eq dataOk_simps
    by (auto simp: textOk_def protectedKeys_def wellFormed_js split: option.splits)
qed (auto simp del: policyOk.simps json_wf.simps simp: dataOk_simps protectedKeys_def wellFormed_js)

lemma dataOk_rule: "ruleOk cns r \<Longrightarrow> dataOk (ruleJson r)"
  unfolding ruleJson_def dataOk_simps
  using dataOk_condition dataOk_requirements
  by (simp add: ruleOk_def textOk_def stringsOk_def protectedKeys_def wellFormed_js
      del: policyOk.simps json_wf.simps) blast

lemma dataOk_policySet: "policySetOk p \<Longrightarrow> dataOk (policySetJson p)"
  unfolding policySetJson_def dataOk_simps
  using dataOk_rule
  by (simp add: policySetOk_def textOk_def protectedKeys_def wellFormed_js
      del: policyOk.simps json_wf.simps) blast

section \<open>compilePolicySet\<close>

lemma catch_Inr [simp]:
  "(case m of Inl f \<Rightarrow> Inl (g f) | Inr r \<Rightarrow> Inr r) = Inr x \<longleftrightarrow> m = Inr x"
  by (cases m) simp_all

lemma compilePolicySet_Inr:
  "compilePolicySet sha v = Inr (p, text, hash) \<longleftrightarrow>
     (\<exists>j. v = of_json j \<and> policyOk j \<and> compileSetJson j = Inr p \<and>
        canonicalizePolicyValue (of_json (policySetJson p)) = Inr text \<and>
        hashPolicyValue sha (of_json (policySetJson p)) = Inr hash)"
  unfolding compilePolicySet_def by (auto simp: assertPolicyJson_iff)

lemma compilePolicySet_sound:
  assumes "compilePolicySet sha v = Inr (p, text, hash)" "unknown_wf v"
  shows "policySetOk p" "text = canon (policySetJson p)" "hash = sha text"
proof -
  obtain j where j: "v = of_json j" "policyOk j" "compileSetJson j = Inr p"
    "canonicalizePolicyValue (of_json (policySetJson p)) = Inr text"
    "hashPolicyValue sha (of_json (policySetJson p)) = Inr hash"
    using assms(1) by (auto simp: compilePolicySet_Inr)
  then have "json_wf j" using assms(2) by (simp add: unknown_wf_of_json)
  then show ok: "policySetOk p" using compileSetJson_sound j(2,3) by blast
  then have "policyOk (policySetJson p)" using dataOk_policySet by blast
  then show "text = canon (policySetJson p)" "hash = sha text"
    using j(4,5) by (simp_all add: canonicalizePolicyValue_of_json hashPolicyValue_of_json)
qed

lemma compilePolicySet_complete:
  assumes "policySetOk p"
  shows "compilePolicySet sha (of_json (policySetJson p)) =
    Inr (p, canon (policySetJson p), sha (canon (policySetJson p)))"
  using assms dataOk_policySet [OF assms] compileSetJson_complete [OF assms]
  by (auto simp: compilePolicySet_Inr canonicalizePolicyValue_of_json hashPolicyValue_of_json)

section \<open>Paths matter to the diagnostics only\<close>

lemma requiredString_path:
  "requiredString obj key p pat mx mn = Inr s \<Longrightarrow> requiredString obj key q pat mx mn = Inr s"
  by (simp add: requiredString_Inr)

lemma exactKeys_path: "exactKeys obj ks p = Inr u \<Longrightarrow> exactKeys obj ks q = Inr u"
  by (simp add: exactKeys_Inr)

lemma sortedUniqueStrings_path: "sortedUniqueStrings v p = Inr s \<Longrightarrow> sortedUniqueStrings v q = Inr s"
  by (simp add: sortedUniqueStrings_Inr)

lemma positiveInteger_path: "positiveInteger v p = Inr s \<Longrightarrow> positiveInteger v q = Inr s"
  by (auto simp: positiveInteger_def split: option.splits json.splits if_splits)

lemma compileIsolation_path: "compileIsolation v p = Inr s \<Longrightarrow> compileIsolation v q = Inr s"
  by (auto simp: compileIsolation_def split: option.splits if_splits)

lemma compilePostVerification_path:
  "compilePostVerification v p = Inr s \<Longrightarrow> compilePostVerification v q = Inr s"
  by (auto simp: compilePostVerification_def split: option.splits json.splits)

lemmas field_paths = requiredString_path exactKeys_path sortedUniqueStrings_path
  positiveInteger_path compileIsolation_path compilePostVerification_path

lemma compileRequirements_path:
  assumes "compileRequirements v p = Inr r" shows "compileRequirements v q = Inr r"
proof -
  obtain obj where v: "v = Some (JObj obj)"
    using assms by (auto simp: compileRequirements_def split: option.splits json.splits)
  have scopes: "(if c then Inr None else bindE (sortedUniqueStrings x p') (\<lambda>s. Inr (Some s))) = Inr y \<Longrightarrow>
    (if c then Inr None else bindE (sortedUniqueStrings x q') (\<lambda>s. Inr (Some s))) = Inr y" for c x y p' q'
    by (auto simp: sortedUniqueStrings_Inr)
  show ?thesis
    using assms unfolding v compileRequirements_def option.case json.case bindE_Inr_iff
    by - (elim exE conjE, intro exI conjI, (erule scopes field_paths | assumption)+)
qed

lemma leaf_branches:
  "(if A then Inl a else if B then Inl b else if C then conditionFailure x m
    else if D then conditionFailure y n else Inr z) = Inr c \<longleftrightarrow> \<not> A \<and> \<not> B \<and> \<not> C \<and> \<not> D \<and> z = c"
  by simp

lemma compileLeaf_path: "compileLeaf l obj p cns = Inr c \<Longrightarrow> compileLeaf l obj q cns = Inr c"
  unfolding compileLeaf_def bindE_Inr_iff Let_def
  by (elim exE conjE, intro exI conjI, erule exactKeys_path, erule requiredString_path)
    (simp only: leaf_branches, simp)

lemma mapE_enumerate_path:
  assumes "mapE (\<lambda>(i, x). f i x) (enumerate n xs) = Inr ys"
    "\<And>i j x y. x \<in> set xs \<Longrightarrow> f i x = Inr y \<Longrightarrow> g j x = Inr y"
  shows "mapE (\<lambda>(i, x). g i x) (enumerate m xs) = Inr ys"
  using assms by (induction xs arbitrary: n m ys) auto

lemma compileCondition_path:
  "compileCondition v p d cns = Inr c \<Longrightarrow> compileCondition v q d cns = Inr c"
proof (induction "nat (d + 1)" arbitrary: v p q d c rule: less_induct)
  case less
  obtain obj where v: "v = Some (JObj obj)"
    using less.prems by (cases "(v, p, d, cns)" rule: compileCondition.cases) auto
  have d: "0 \<le> d"
    using less.prems v by (auto simp: compileCondition.simps(1) split: if_splits)
  have IH: "compileCondition v' p' (d - 1) cns = Inr c' \<Longrightarrow> compileCondition v' q' (d - 1) cns = Inr c'"
    for v' p' q' c'
    by (erule less.hyps [rotated]) (use d in simp)
  have many: "mapE (\<lambda>(i, x). compileCondition (Some x) (p @ js ''/conditions/'' @ natStr i) (d - 1) cns)
       (enumerate 0 cs) = Inr ks \<Longrightarrow>
     mapE (\<lambda>(i, x). compileCondition (Some x) (q @ js ''/conditions/'' @ natStr i) (d - 1) cns)
       (enumerate 0 cs) = Inr ks" for cs ks
    by (erule mapE_enumerate_path) (rule IH)
  show ?case
    using less.prems unfolding v compileCondition.simps(1) Let_def
    by (auto split: if_splits option.splits json.splits simp: exactKeys_Inr
        intro: many IH [where p' = "p @ js ''/condition''" and q' = "q @ js ''/condition''"]
          compileLeaf_path [where p = p and q = q] simp del: mapE.simps)
qed

lemma compileRuleFields_path:
  "compileRuleFields obj s r e m p cns = Inr x \<Longrightarrow> compileRuleFields obj s r e m q cns = Inr x"
  unfolding compileRuleFields_def bindE_Inr_iff
  by (elim exE conjE, intro exI conjI,
      (erule field_paths compileCondition_path compileRequirements_path | assumption)+)

lemma compileRule_path:
  assumes "compileRule v i cns = Inr x" shows "compileRule v k cns = Inr x"
  using assms
proof (rule compileRule_Inr)
  fix obj subject resource eff meta
  assume h: "v = JObj obj"
    "set (objKeys obj) \<subseteq> js ` {''schemaVersion'', ''ruleId'', ''domain'', ''subjectSelector'',
       ''action'', ''resourceSelector'', ''when'', ''ruleEffect'', ''requirements'',
       ''reasonCode'', ''metadata''}"
    "getKey obj ''schemaVersion'' = Some (JStr (js ''1.0.0''))"
    "getKey obj ''subjectSelector'' = Some (JObj subject)"
    "getKey obj ''resourceSelector'' = Some (JObj resource)"
    "set (objKeys subject) \<subseteq> {js ''subjectTypes''}"
    "set (objKeys resource) \<subseteq> {js ''resourceTypes''}"
    "effectOf (getKey obj ''ruleEffect'') = Some eff"
    "getKey obj ''metadata'' = Some (JObj meta)"
    and f: "compileRuleFields obj subject resource eff meta (js ''$/rules/'' @ natStr i) cns = Inr x"
  show ?thesis
    unfolding compileRule_def Let_def
    using h compileRuleFields_path [OF f] by (simp add: exactKeys_Inr)
qed

section \<open>The order of the rules\<close>

lemma mapE_enumerate_rule:
  "mapE (\<lambda>(index, rule). compileRule rule index cns) (enumerate n rules) =
     Inr rs \<longleftrightarrow> mapE (\<lambda>rule. compileRule rule 0 cns) rules = Inr rs"
proof (induction rules arbitrary: n rs)
  case (Cons r rules)
  have "compileRule r n cns = Inr x \<longleftrightarrow> compileRule r 0 cns = Inr x" for x
    using compileRule_path by blast
  with Cons show ?case by simp
qed simp

lemma mapE_permute:
  fixes f :: "'a \<Rightarrow> 'e + 'b"
  assumes "mset xs = mset ys" "mapE f xs = Inr us"
  shows "\<exists>vs. mapE f ys = Inr vs \<and> mset vs = mset us"
proof -
  have *: "mapE f zs = Inr ws \<longleftrightarrow> map f zs = map Inr ws" for zs ws
    by (auto simp: mapE_Inr_iff list_all2_conv_all_nth list_eq_iff_nth_eq)
  define vs where "vs = map (\<lambda>y. projr (f y)) ys"
  have "map f xs = map Inr us" using assms(2) * by blast
  then have m: "mset (map f ys) = mset (map Inr us)" using assms(1) by (metis mset_map)
  have "f y = Inr (projr (f y))" if "y \<in> set ys" for y
    using mapE_all [OF assms(2), of y] mset_eq_setD [OF assms(1)] that by auto
  then have vs: "map f ys = map Inr vs" by (simp add: vs_def)
  then have "image_mset (Inr :: 'b \<Rightarrow> 'e + 'b) (mset vs) = image_mset Inr (mset us)" using m by (simp only: mset_map)
  then have "mset vs = mset us" by (metis multiset.inj_map inj_Inr injD)
  with vs * show ?thesis by blast
qed

lemma sort_key_permute:
  assumes "mset xs = mset ys" "distinct (map f xs)"
  shows "sort_key f xs = sort_key f ys"
proof (rule properties_for_sort_key)
  show "mset (sort_key f ys) = mset xs" using assms(1) by simp
  show "sorted (map f (sort_key f ys))" by simp
next
  have d: "distinct (map f (sort_key f ys))"
    using assms by (metis distinct_map_sort_key mset_map mset_eq_imp_distinct_iff)
  have one: "distinct (map f zs) \<Longrightarrow> x \<in> set zs \<Longrightarrow> filter (\<lambda>y. f x = f y) zs = [x]" for zs x
  proof (induction zs)
    case (Cons z zs)
    then show ?case
    proof (cases "x = z")
      case True
      with Cons.prems have "filter (\<lambda>y. f x = f y) zs = []" by (auto simp: filter_empty_conv)
      with True show ?thesis by simp
    next
      case False
      with Cons.prems have "x \<in> set zs" "f x \<noteq> f z" by (auto simp: image_iff)
      with Cons False show ?thesis by simp
    qed
  qed simp
  fix k assume k: "k \<in> set (sort_key f ys)"
  then have "k \<in> set xs" using assms(1) mset_eq_setD by fastforce
  then show "filter (\<lambda>x. f k = f x) (sort_key f ys) = filter (\<lambda>x. f k = f x) xs"
    using one [OF d k] one [OF assms(2)] by simp
qed

text \<open>A policy set with its rules in another order.\<close>

definition withRules :: "json list \<Rightarrow> jobject \<Rightarrow> jobject" where
  "withRules rules obj = map (\<lambda>(k, v). (k, if k = js ''rules'' then JArr rules else v)) obj"

lemma objKeys_withRules [simp]: "objKeys (withRules rules obj) = objKeys obj"
  by (simp add: objKeys_def withRules_def case_prod_unfold comp_def)

lemma getKey_withRules:
  "map_of (withRules rules obj) k =
     (if k = js ''rules'' \<and> k \<in> set (objKeys obj) then Some (JArr rules) else map_of obj k)"
  by (induction obj) (auto simp: withRules_def)

lemma compileSetJson_permute:
  assumes "compileSetJson (JObj obj) = Inr p" "getKey obj ''rules'' = Some (JArr rules)"
    "mset rules' = mset rules"
  shows "compileSetJson (JObj (withRules rules' obj)) = Inr p"
proof -
  have keys: "js ''rules'' \<in> set (objKeys obj)"
    using assms(2) by (auto simp: objKeys_def dest!: map_of_SomeD intro!: rev_image_eqI)
  have len: "length rules' = length rules" using assms(3) by (metis size_mset)
  have str: "k \<noteq> ''rules'' \<Longrightarrow> requiredString (withRules rules' obj) k q pat mx mn = Inr s \<longleftrightarrow>
    requiredString obj k q pat mx mn = Inr s" for k q pat mx mn s
    by (simp add: requiredString_Inr getKey_withRules)
  have "compileSetFields (withRules rules' obj) source kind cns rules' = Inr p"
    if f: "compileSetFields obj source kind cns rules = Inr p" for source kind cns
  proof -
    obtain rs where rs: "mapE (\<lambda>rule. compileRule rule 0 cns) rules = Inr rs"
      "distinct (map ruleId rs)" "policyRules p = sort_key ruleId rs"
      using f unfolding compileSetFields_Inr mapE_enumerate_rule by blast
    obtain rs' where rs': "mapE (\<lambda>rule. compileRule rule 0 cns) rules' = Inr rs'" "mset rs' = mset rs"
      using mapE_permute [OF assms(3) [symmetric] rs(1)] by blast
    have "distinct (map ruleId rs')"
      using rs(2) rs'(2) by (metis mset_map mset_eq_imp_distinct_iff)
    moreover have "sort_key ruleId rs' = sort_key ruleId rs"
      using sort_key_permute [OF rs'(2)] calculation by blast
    ultimately show ?thesis
      using f rs rs' unfolding compileSetFields_Inr mapE_enumerate_rule by (auto simp: str)
  qed
  then show ?thesis
    using assms(1,2) keys len unfolding compileSetJson_Inr
    by (auto simp: getKey_withRules)
qed

section \<open>A concrete policy\<close>

text \<open>They show that the hypotheses of the properties below can hold.\<close>

definition exampleRule :: "ruleEffect \<Rightarrow> compiledPolicyRule" where
  "exampleRule e = \<lparr>ruleId = js ''run-tool'', ruleDomain = js ''tool'', subjectTypes = [js ''agent''],
     ruleAction = js ''run'', resourceTypes = [js ''tool''],
     ruleWhen = CAll [CLeaf OpEq (js ''input.direction'') (Some (JStr (js ''LOCAL''))),
                      CLeaf OpExists (js ''constant.MAX'') None],
     effect = e,
     requirements = noRequirements\<lparr>timeoutMs := Some 1000, permissionScopes := Some [js ''fs'']\<rparr>,
     reasonCode = js ''RUN_TOOL'', metadata = []\<rparr>"

definition examplePolicy :: "ruleEffect \<Rightarrow> compiledPolicySet" where
  "examplePolicy e = \<lparr>policySetId = fallbackId, policyVersion = js ''1.0.0'', description = js ''d'',
     policySourceKind = RELEASE, policySourceRef = js ''r'',
     constants = [(js ''MAX'', JNum (numInt 3))], policyRules = [exampleRule e]\<rparr>"

definition zeroHash :: "jstring \<Rightarrow> jstring" where
  "zeroHash s = replicate 64 48"

lemma example_patterns:
  "matches semver (js ''1.0.0'')" "matches ruleIdPattern (js ''run-tool'')"
  "matches stableCode (js ''RUN_TOOL'')" "matches constantName (js ''MAX'')"
  "matches constantReference (js ''constant.MAX'')"
  by code_simp+

lemma wellFormed_fallbackId: "wellFormedUnicode p fallbackId"
  by (simp add: fallbackId_def wellFormed_js)

lemma exampleRule_ok: "ruleOk [(js ''MAX'', JNum (numInt 3))] (exampleRule e)"
  by (cases e; simp add: ruleOk_def exampleRule_def textOk_def stringsOk_def requirementsOk_def
      noRequirements_def example_patterns wellFormed_js allowedInputReferences_def
      maxSafeInteger_def)

lemma examplePolicy_ok: "policySetOk (examplePolicy e)"
  unfolding policySetOk_def
  by (simp add: examplePolicy_def textOk_def exampleRule_ok fallback_ok wellFormed_fallbackId
      example_patterns wellFormed_js protectedKeys_def) (simp add: fallbackId_def)

section \<open>Properties\<close>

text \<open>C4. A compiled policy set satisfies every rule of the format: identifiers, versions and codes match
  their patterns, strings are within their bounds, rules and constants are sorted with distinct
  ids and names, conditions are at most five levels deep with at most 32 children and refer to
  declared constants only, requirements are positive safe integers; and the text and hash
  returned are those of the compiled set.\<close>

theorem compilePolicySet_output:
  assumes "compilePolicySet sha v = Inr (p, compiled_text, hash)" "unknown_wf v"
  shows "policySetOk p \<and> compiled_text = canon (policySetJson p) \<and> hash = sha compiled_text"
  using compilePolicySet_sound [OF assms] by blast

theorem compilePolicySet_output_witness:
  "policySetOk (examplePolicy DENY) \<and>
   canon (policySetJson (examplePolicy DENY)) = canon (policySetJson (examplePolicy DENY))"
proof -
  have "unknown_wf (of_json (policySetJson (examplePolicy DENY)))"
    using dataOk_policySet [OF examplePolicy_ok] by (simp add: unknown_wf_of_json)
  from compilePolicySet_output [OF compilePolicySet_complete [OF examplePolicy_ok, of zeroHash] this]
  show ?thesis by blast
qed

text \<open>C5. Compilation is idempotent: the object of a compiled set compiles to the same set, text and
  hash. The evaluator relies on it when it compiles the set of a snapshot again.\<close>

theorem compilePolicySet_idempotent:
  assumes "compilePolicySet sha v = Inr (p, compiled_text, hash)" "unknown_wf v"
  shows "compilePolicySet sha (of_json (policySetJson p)) = Inr (p, compiled_text, hash)"
  using compilePolicySet_sound [OF assms] compilePolicySet_complete by simp

theorem compilePolicySet_idempotent_witness:
  "compilePolicySet zeroHash (of_json (policySetJson (examplePolicy DENY))) =
     Inr (examplePolicy DENY, canon (policySetJson (examplePolicy DENY)), replicate 64 48)"
proof -
  have "unknown_wf (of_json (policySetJson (examplePolicy DENY)))"
    using dataOk_policySet [OF examplePolicy_ok] by (simp add: unknown_wf_of_json)
  from compilePolicySet_idempotent [OF compilePolicySet_complete [OF examplePolicy_ok, of zeroHash] this]
  show ?thesis by (simp add: zeroHash_def)
qed

text \<open>C7. The order in which the rules are written does not matter: a policy set whose rules are
  permuted compiles to the same compiled set, text and hash.\<close>

theorem compilePolicySet_rule_order:
  assumes "compilePolicySet sha (of_json (JObj obj)) = Inr result"
    "getKey obj ''rules'' = Some (JArr rules)" "mset rules' = mset rules"
  shows "compilePolicySet sha (of_json (JObj (withRules rules' obj))) = Inr result"
proof -
  obtain p tx hash where r: "result = (p, tx, hash)" by (cases result)
  obtain j where j: "of_json (JObj obj) = of_json j" "policyOk j" "compileSetJson j = Inr p"
    "canonicalizePolicyValue (of_json (policySetJson p)) = Inr tx"
    "hashPolicyValue sha (of_json (policySetJson p)) = Inr hash"
    using assms(1) unfolding r compilePolicySet_Inr by blast
  then have obj: "j = JObj obj" using of_json_inject by metis
  have "policyOk (JArr rules)" using j(2) map_of_SomeD [OF assms(2)] obj by auto
  then have "policyOk (JArr rules')" using mset_eq_setD [OF assms(3)] by simp
  then have "policyOk (JObj (withRules rules' obj))"
    using j(2) obj by (auto simp: withRules_def)
  then show ?thesis
    using compileSetJson_permute [OF _ assms(2,3)] j obj unfolding r compilePolicySet_Inr by blast
qed

theorem compilePolicySet_rule_order_witness:
  "isOk (compilePolicySet zeroHash (of_json (JObj (withRules [ruleJson (exampleRule ALLOW)]
     (the (asObject (policySetJson (examplePolicy ALLOW))))))))"
proof -
  obtain obj where o: "policySetJson (examplePolicy ALLOW) = JObj obj"
    by (simp add: policySetJson_def)
  have "getKey obj ''rules'' = Some (JArr [ruleJson (exampleRule ALLOW)])"
    using o by (auto simp: policySetJson_def examplePolicy_def)
  from compilePolicySet_rule_order [OF compilePolicySet_complete [OF examplePolicy_ok [of ALLOW],
        of zeroHash, unfolded o] this refl]
  show ?thesis using o by simp
qed

text \<open>Two policy sets with the same policy hash are the same up to the order of object keys, unless
  the hash function collides on their canonical texts.\<close>

theorem compilePolicySet_hash_identifies:
  assumes "compilePolicySet sha v = Inr (p, t, hash)" "unknown_wf v"
    "compilePolicySet sha w = Inr (q, u, hash)" "unknown_wf w"
  shows "norm (policySetJson p) = norm (policySetJson q) \<or> (t \<noteq> u \<and> sha t = sha u)"
proof -
  note p = compilePolicySet_sound [OF assms(1,2)] and q = compilePolicySet_sound [OF assms(3,4)]
  show ?thesis
  proof (cases "t = u")
    case True
    then have "canon (policySetJson p) = canon (policySetJson q)" using p q by simp
    then show ?thesis
      using canon_eq_iff dataOk_policySet [OF p(1)] dataOk_policySet [OF q(1)] by blast
  next
    case False
    then show ?thesis using p(3) q(3) by simp
  qed
qed

theorem compilePolicySet_hash_identifies_witness:
  "norm (policySetJson (examplePolicy ALLOW)) = norm (policySetJson (examplePolicy ALLOW))"
proof -
  have "unknown_wf (of_json (policySetJson (examplePolicy ALLOW)))"
    using dataOk_policySet [OF examplePolicy_ok] by (simp add: unknown_wf_of_json)
  from compilePolicySet_hash_identifies [OF compilePolicySet_complete [OF examplePolicy_ok, of zeroHash] this
      compilePolicySet_complete [OF examplePolicy_ok, of zeroHash] this]
  show ?thesis by blast
qed

end
