(* ===== verification/Policy_Evaluate.thy ===== *)
theory Policy_Evaluate
  imports Policy_Compile
begin

text \<open>
  \<open>packages/policy/src/index.ts\<close>, policy snapshots and the evaluator: \<open>createPolicySnapshot\<close>,
  \<open>evaluatePolicy\<close> and what it calls. \<open>evaluatePolicy\<close> takes two values of any kind and always
  returns a decision. The theorems: an ALLOW outcome has every justification (a snapshot whose hash
  is that of its policy, no hard invariant violated, an allowing rule and no denying rule among the
  matching ones), hard invariants and matching DENY rules deny, no matching rule denies, the
  requirements of the allowing rules are merged to the strictest, and each returned decision is
  well formed whatever the arguments were.
\<close>

section \<open>Evaluation input\<close>

datatype riskClass = R0 | R1 | R2 | R3 | R4

datatype dataClassification = PUBLIC | INTERNAL | CONFIDENTIAL | SECRET

datatype direction = LOCAL | INBOUND | OUTBOUND

record policyEvaluationInput =
  i_evaluationId :: jstring
  i_capturedAt :: jstring
  i_policySnapshotId :: jstring
  i_domain :: jstring
  i_subjectType :: jstring
  i_action :: jstring
  i_resourceType :: jstring
  i_riskClass :: riskClass
  i_dataClassification :: dataClassification
  i_direction :: direction
  i_authorityMutation :: bool
  i_controlVerified :: bool
  i_permissionScopes :: "jstring list"
  i_capabilityIds :: "jstring list"

fun riskClassName :: "riskClass \<Rightarrow> jstring" where
  "riskClassName R0 = js ''R0''"
| "riskClassName R1 = js ''R1''"
| "riskClassName R2 = js ''R2''"
| "riskClassName R3 = js ''R3''"
| "riskClassName R4 = js ''R4''"

fun classificationName :: "dataClassification \<Rightarrow> jstring" where
  "classificationName PUBLIC = js ''PUBLIC''"
| "classificationName INTERNAL = js ''INTERNAL''"
| "classificationName CONFIDENTIAL = js ''CONFIDENTIAL''"
| "classificationName SECRET = js ''SECRET''"

fun directionName :: "direction \<Rightarrow> jstring" where
  "directionName LOCAL = js ''LOCAL''"
| "directionName INBOUND = js ''INBOUND''"
| "directionName OUTBOUND = js ''OUTBOUND''"

definition riskClassOf :: "json option \<Rightarrow> riskClass option" where
  "riskClassOf = enumOf riskClassName [R0, R1, R2, R3, R4]"

definition classificationOf :: "json option \<Rightarrow> dataClassification option" where
  "classificationOf = enumOf classificationName [PUBLIC, INTERNAL, CONFIDENTIAL, SECRET]"

definition directionOf :: "json option \<Rightarrow> direction option" where
  "directionOf = enumOf directionName [LOCAL, INBOUND, OUTBOUND]"

definition isString :: "json option \<Rightarrow> bool" where
  "isString v = (case v of Some (JStr s) \<Rightarrow> True | _ \<Rightarrow> False)"

definition isBoolean :: "json option \<Rightarrow> bool" where
  "isBoolean v = (case v of Some (JBool b) \<Rightarrow> True | _ \<Rightarrow> False)"

text \<open>\<open>typeof v === "string" && pattern.test(v)\<close>\<close>

definition matchesField :: "rx \<Rightarrow> json option \<Rightarrow> bool" where
  "matchesField p v = (case v of Some (JStr s) \<Rightarrow> matches p s | _ \<Rightarrow> False)"

definition validateInput :: "json \<Rightarrow> bool" where
  "validateInput value =
     (case value of
        JObj obj \<Rightarrow>
          hasExactKeys obj [''schemaVersion'', ''evaluationId'', ''capturedAt'', ''policySnapshotId'',
            ''domain'', ''subjectType'', ''action'', ''resourceType'', ''riskClass'',
            ''dataClassification'', ''direction'', ''authorityMutation'', ''controlVerified'',
            ''permissionScopes'', ''capabilityIds''] \<and>
          getKey obj ''schemaVersion'' = Some (JStr (js ''1.0.0'')) \<and>
          matchesField uuidV7 (getKey obj ''evaluationId'') \<and>
          isRfc3339DateTime (getKey obj ''capturedAt'') \<and>
          matchesField uuidV7 (getKey obj ''policySnapshotId'') \<and>
          isBoundedString (getKey obj ''domain'') 1 64 \<and>
          isBoundedString (getKey obj ''subjectType'') 1 128 \<and>
          isBoundedString (getKey obj ''action'') 1 128 \<and>
          isBoundedString (getKey obj ''resourceType'') 1 128 \<and>
          riskClassOf (getKey obj ''riskClass'') \<noteq> None \<and>
          classificationOf (getKey obj ''dataClassification'') \<noteq> None \<and>
          directionOf (getKey obj ''direction'') \<noteq> None \<and>
          isBoolean (getKey obj ''authorityMutation'') \<and>
          isBoolean (getKey obj ''controlVerified'') \<and>
          isUniqueBoundedStringArray (getKey obj ''permissionScopes'') 256 \<and>
          isUniqueBoundedStringArray (getKey obj ''capabilityIds'') 256
      | _ \<Rightarrow> False)"

text \<open>The fields of a validated input at their types.\<close>

definition strField :: "jobject \<Rightarrow> string \<Rightarrow> jstring" where
  "strField obj k = (case getKey obj k of Some (JStr s) \<Rightarrow> s | _ \<Rightarrow> [])"

definition boolField :: "jobject \<Rightarrow> string \<Rightarrow> bool" where
  "boolField obj k = (case getKey obj k of Some (JBool b) \<Rightarrow> b | _ \<Rightarrow> False)"

definition strsField :: "jobject \<Rightarrow> string \<Rightarrow> jstring list" where
  "strsField obj k = (case getKey obj k of Some (JArr xs) \<Rightarrow> stringsOf xs | _ \<Rightarrow> [])"

definition typedInput :: "jobject \<Rightarrow> policyEvaluationInput" where
  "typedInput obj = \<lparr>
     i_evaluationId = strField obj ''evaluationId'',
     i_capturedAt = strField obj ''capturedAt'',
     i_policySnapshotId = strField obj ''policySnapshotId'',
     i_domain = strField obj ''domain'',
     i_subjectType = strField obj ''subjectType'',
     i_action = strField obj ''action'',
     i_resourceType = strField obj ''resourceType'',
     i_riskClass = the (riskClassOf (getKey obj ''riskClass'')),
     i_dataClassification = the (classificationOf (getKey obj ''dataClassification'')),
     i_direction = the (directionOf (getKey obj ''direction'')),
     i_authorityMutation = boolField obj ''authorityMutation'',
     i_controlVerified = boolField obj ''controlVerified'',
     i_permissionScopes = strsField obj ''permissionScopes'',
     i_capabilityIds = strsField obj ''capabilityIds''\<rparr>"

section \<open>Snapshots\<close>

record policySnapshotMetadata =
  m_snapshotId :: jstring
  m_compilerVersion :: jstring
  m_createdAt :: jstring

definition createPolicySnapshot ::
    "(jstring \<Rightarrow> jstring) \<Rightarrow> compiledPolicySet \<Rightarrow> policySnapshotMetadata \<Rightarrow> thrown + json" where
  "createPolicySnapshot sha policy meta =
     (if \<not> matches uuidV7 (m_snapshotId meta) \<or> \<not> matches semver (m_compilerVersion meta) \<or>
         \<not> isRfc3339DateTime (Some (JStr (m_createdAt meta)))
      then Inl (PolicyFailure INVALID_POLICY_SET (js ''$/snapshot'') (js ''Invalid snapshot metadata''))
      else bindE (hashPolicyValue sha (of_json (policySetJson policy))) (\<lambda>hash. Inr (JObj [
        (js ''schemaVersion'', JStr (js ''1.0.0'')),
        (js ''snapshotId'', JStr (m_snapshotId meta)),
        (js ''policySetId'', JStr (policySetId policy)),
        (js ''policyVersion'', JStr (policyVersion policy)),
        (js ''policyHash'', JStr hash),
        (js ''compiledPolicySet'', policySetJson policy),
        (js ''compilerVersion'', JStr (m_compilerVersion meta)),
        (js ''createdAt'', JStr (m_createdAt meta))])))"

definition validateSnapshot ::
    "json \<Rightarrow> policyEvaluationInput \<Rightarrow> compiledPolicySet \<Rightarrow> jstring \<Rightarrow> bool" where
  "validateSnapshot value input compiled compiledHash =
     (case value of
        JObj obj \<Rightarrow>
          hasExactKeys obj [''schemaVersion'', ''snapshotId'', ''policySetId'', ''policyVersion'',
            ''policyHash'', ''compiledPolicySet'', ''compilerVersion'', ''createdAt''] \<and>
          getKey obj ''schemaVersion'' = Some (JStr (js ''1.0.0'')) \<and>
          matchesField uuidV7 (getKey obj ''snapshotId'') \<and>
          getKey obj ''snapshotId'' = Some (JStr (i_policySnapshotId input)) \<and>
          matchesField uuidV7 (getKey obj ''policySetId'') \<and>
          getKey obj ''policySetId'' = Some (JStr (policySetId compiled)) \<and>
          matchesField semver (getKey obj ''policyVersion'') \<and>
          getKey obj ''policyVersion'' = Some (JStr (policyVersion compiled)) \<and>
          matchesField hex64 (getKey obj ''policyHash'') \<and>
          getKey obj ''policyHash'' = Some (JStr compiledHash) \<and>
          matchesField semver (getKey obj ''compilerVersion'') \<and>
          isRfc3339DateTime (getKey obj ''createdAt'')
      | _ \<Rightarrow> False)"

section \<open>Conditions\<close>

definition referencedValue :: "policyEvaluationInput \<Rightarrow> jstring \<Rightarrow> json option" where
  "referencedValue input reference =
     (if reference = js ''input.action'' then Some (JStr (i_action input))
      else if reference = js ''input.domain'' then Some (JStr (i_domain input))
      else if reference = js ''input.subjectType'' then Some (JStr (i_subjectType input))
      else if reference = js ''input.resourceType'' then Some (JStr (i_resourceType input))
      else if reference = js ''input.riskClass'' then Some (JStr (riskClassName (i_riskClass input)))
      else if reference = js ''input.dataClassification''
      then Some (JStr (classificationName (i_dataClassification input)))
      else if reference = js ''input.direction'' then Some (JStr (directionName (i_direction input)))
      else if reference = js ''input.authorityMutation'' then Some (JBool (i_authorityMutation input))
      else if reference = js ''input.controlVerified'' then Some (JBool (i_controlVerified input))
      else if reference = js ''input.permissionScopes'' then Some (jstrs (i_permissionScopes input))
      else if reference = js ''input.capabilityIds'' then Some (jstrs (i_capabilityIds input))
      else None)"

text \<open>\<open>equalJson\<close>: both defined, with the same canonical text (of plain data).\<close>

definition equalJson :: "json option \<Rightarrow> json option \<Rightarrow> bool" where
  "equalJson left right =
     (case (left, right) of (Some a, Some b) \<Rightarrow> canon a = canon b | _ \<Rightarrow> False)"

text \<open>\<open>typeof\<close>, with arrays told apart as the source does.\<close>

fun jsonType :: "json \<Rightarrow> nat" where
  "jsonType JNull = 0"
| "jsonType (JBool _) = 1"
| "jsonType (JNum _) = 2"
| "jsonType (JStr _) = 3"
| "jsonType (JArr _) = 4"
| "jsonType (JObj _) = 5"

definition sameJsonType :: "json option \<Rightarrow> json option \<Rightarrow> bool" where
  "sameJsonType left right =
     (case (left, right) of (Some a, Some b) \<Rightarrow> jsonType a = jsonType b | _ \<Rightarrow> False)"

record conditionResult =
  c_ok :: bool
  c_matched :: bool

abbreviation mismatch :: conditionResult where
  "mismatch \<equiv> \<lparr>c_ok = False, c_matched = False\<rparr>"

abbreviation result :: "bool \<Rightarrow> conditionResult" where
  "result m \<equiv> \<lparr>c_ok = True, c_matched = m\<rparr>"

definition compareNumbers ::
    "(jsnum \<Rightarrow> jsnum \<Rightarrow> bool) \<Rightarrow> json \<Rightarrow> json option \<Rightarrow> conditionResult" where
  "compareNumbers cmp actual expected =
     (case (actual, expected) of (JNum a, Some (JNum b)) \<Rightarrow> result (cmp a b) | _ \<Rightarrow> mismatch)"

definition compareArrays ::
    "(json list \<Rightarrow> json list \<Rightarrow> bool) \<Rightarrow> json \<Rightarrow> json option \<Rightarrow> conditionResult" where
  "compareArrays cmp actual expected =
     (case (actual, expected) of (JArr a, Some (JArr b)) \<Rightarrow> result (cmp a b) | _ \<Rightarrow> mismatch)"

definition someEqual :: "json \<Rightarrow> json list \<Rightarrow> bool" where
  "someEqual item candidates = list_ex (\<lambda>candidate. equalJson (Some item) (Some candidate)) candidates"

fun evaluateLeaf :: "leafOperator \<Rightarrow> json \<Rightarrow> json option \<Rightarrow> conditionResult" where
  "evaluateLeaf OpExists actual expected = result True"
| "evaluateLeaf OpEq actual expected =
     (if sameJsonType (Some actual) expected then result (equalJson (Some actual) expected)
      else mismatch)"
| "evaluateLeaf OpNotEq actual expected =
     (if sameJsonType (Some actual) expected then result (\<not> equalJson (Some actual) expected)
      else mismatch)"
| "evaluateLeaf OpIn actual expected =
     (case expected of Some (JArr items) \<Rightarrow> result (someEqual actual items) | _ \<Rightarrow> mismatch)"
| "evaluateLeaf OpContains actual expected =
     (case (actual, expected) of
        (JStr s, Some (JStr t)) \<Rightarrow> result (includesStr s t)
      | (JArr items, _) \<Rightarrow> result (list_ex (\<lambda>item. equalJson (Some item) expected) items)
      | _ \<Rightarrow> mismatch)"
| "evaluateLeaf OpLt actual expected = compareNumbers num_less actual expected"
| "evaluateLeaf OpLte actual expected = compareNumbers num_le actual expected"
| "evaluateLeaf OpGt actual expected = compareNumbers (\<lambda>a b. num_less b a) actual expected"
| "evaluateLeaf OpGte actual expected = compareNumbers (\<lambda>a b. num_le b a) actual expected"
| "evaluateLeaf OpStartsWith actual expected =
     (case (actual, expected) of
        (JStr s, Some (JStr t)) \<Rightarrow> result (startsWith s t) | _ \<Rightarrow> mismatch)"
| "evaluateLeaf OpSetSubset actual expected =
     compareArrays (\<lambda>a b. list_all (\<lambda>item. someEqual item b) a) actual expected"
| "evaluateLeaf OpSetIntersects actual expected =
     compareArrays (\<lambda>a b. list_ex (\<lambda>item. someEqual item b) a) actual expected"

fun evaluateCondition ::
    "policyCondition \<Rightarrow> policyEvaluationInput \<Rightarrow> jobject \<Rightarrow> conditionResult" where
  "evaluateCondition (CAll cs) input consts =
     (let results = map (\<lambda>child. evaluateCondition child input consts) cs in
      if list_ex (\<lambda>r. \<not> c_ok r) results then mismatch else result (list_all c_matched results))"
| "evaluateCondition (CAny cs) input consts =
     (let results = map (\<lambda>child. evaluateCondition child input consts) cs in
      if list_ex (\<lambda>r. \<not> c_ok r) results then mismatch else result (list_ex c_matched results))"
| "evaluateCondition (CNot c) input consts =
     (let r = evaluateCondition c input consts in
      \<lparr>c_ok = c_ok r, c_matched = (c_ok r \<and> \<not> c_matched r)\<rparr>)"
| "evaluateCondition (CLeaf operator reference operand) input consts =
     (case (if startsWith reference (js ''constant.'') then map_of consts (drop 9 reference)
            else referencedValue input reference) of
        None \<Rightarrow> mismatch
      | Some actual \<Rightarrow> evaluateLeaf operator actual operand)"

section \<open>Hard invariants and requirements\<close>

definition hardInvariantViolations :: "policyEvaluationInput \<Rightarrow> jstring list" where
  "hardInvariantViolations input = sort (
     (if i_authorityMutation input then [js ''NO_DIRECT_AUTHORITY_WRITE''] else []) @
     (if i_riskClass input = R4 \<and> \<not> i_controlVerified input
      then [js ''R4_REQUIRES_VERIFIED_CONTROL''] else []) @
     (if i_dataClassification input = SECRET \<and> i_direction input = OUTBOUND
      then [js ''NO_SECRET_OUTBOUND''] else []))"

record mergeState =
  ms_scopes :: "jstring list"      \<comment> \<open>the Set, in insertion order\<close>
  ms_isolation :: "isolationLevel option"
  ms_timeout :: "int option"
  ms_concurrency :: "int option"
  ms_post :: bool

definition minOption :: "int option \<Rightarrow> int option \<Rightarrow> int option" where
  "minOption acc new =
     (case new of None \<Rightarrow> acc
      | Some n \<Rightarrow> Some (case acc of None \<Rightarrow> n | Some m \<Rightarrow> min m n))"

definition addScopes :: "jstring list \<Rightarrow> jstring list \<Rightarrow> jstring list" where
  "addScopes new acc = foldl (\<lambda>s x. if x \<in> set s then s else s @ [x]) acc new"

text \<open>The isolation step of the loop: \<open>None\<close> is the early return of a conflict.\<close>

definition mergeIsolation ::
    "isolationLevel option \<Rightarrow> isolationLevel option \<Rightarrow> isolationLevel option option" where
  "mergeIsolation isolation candidate =
     (case candidate of
        None \<Rightarrow> Some isolation
      | Some c \<Rightarrow>
          if isolation = None \<or> isolation = Some PROCESS_RESTRICTED then Some (Some c)
          else if c \<noteq> PROCESS_RESTRICTED \<and> Some c \<noteq> isolation then None
          else Some isolation)"

definition mergeStep :: "policyRequirements \<Rightarrow> mergeState \<Rightarrow> mergeState option" where
  "mergeStep r s =
     (case mergeIsolation (ms_isolation s) (minimumIsolationLevel r) of
        None \<Rightarrow> None
      | Some isolation \<Rightarrow> Some \<lparr>
          ms_scopes = addScopes (case permissionScopes r of None \<Rightarrow> [] | Some ss \<Rightarrow> ss) (ms_scopes s),
          ms_isolation = isolation,
          ms_timeout = minOption (ms_timeout s) (timeoutMs r),
          ms_concurrency = minOption (ms_concurrency s) (maxConcurrency r),
          ms_post = (ms_post s \<or> postVerificationRequired r = Some True)\<rparr>)"

fun mergeLoop :: "policyRequirements list \<Rightarrow> mergeState \<Rightarrow> mergeState option" where
  "mergeLoop [] s = Some s"
| "mergeLoop (r # rs) s =
     (case mergeStep r s of None \<Rightarrow> None | Some s' \<Rightarrow> mergeLoop rs s')"

definition mergeRequirements :: "policyRequirements list \<Rightarrow> policyRequirements option" where
  "mergeRequirements rs =
     (case mergeLoop rs \<lparr>ms_scopes = [], ms_isolation = None, ms_timeout = None,
             ms_concurrency = None, ms_post = False\<rparr> of
        None \<Rightarrow> None
      | Some s \<Rightarrow> Some \<lparr>
          permissionScopes = (if ms_scopes s = [] then None else Some (sort (ms_scopes s))),
          minimumIsolationLevel = ms_isolation s,
          timeoutMs = ms_timeout s,
          maxConcurrency = ms_concurrency s,
          postVerificationRequired = (if ms_post s then Some True else None)\<rparr>)"

section \<open>Decisions\<close>

datatype policyOutcome = Allow | AllowWithRequirements | Deny | Indeterminate

record policyDecision =
  decisionId :: jstring
  outcome :: policyOutcome
  policySnapshotId :: jstring
  policySnapshotHash :: jstring
  inputHash :: jstring
  matchedRuleIds :: "jstring list"
  hardInvariantIds :: "jstring list"
  decisionRequirements :: policyRequirements
  reasonCodes :: "jstring list"
  evaluatedAt :: jstring

definition createDecision ::
    "jobject \<Rightarrow> jobject \<Rightarrow> policyOutcome \<Rightarrow> jstring list \<Rightarrow> jstring list \<Rightarrow> policyRequirements
       \<Rightarrow> jstring list \<Rightarrow> jstring \<Rightarrow> policyDecision" where
  "createDecision snapshot input out matchedIds invariantIds reqs reasons hash = \<lparr>
     decisionId = (if matchesField uuidV7 (getKey input ''evaluationId'')
                   then strField input ''evaluationId'' else fallbackId),
     outcome = out,
     policySnapshotId = (if matchesField uuidV7 (getKey snapshot ''snapshotId'')
                         then strField snapshot ''snapshotId'' else fallbackId),
     policySnapshotHash = (if matchesField hex64 (getKey snapshot ''policyHash'')
                           then strField snapshot ''policyHash'' else replicate 64 48),
     inputHash = hash,
     matchedRuleIds = sort matchedIds,
     hardInvariantIds = sort invariantIds,
     decisionRequirements = reqs,
     reasonCodes = uniqueSorted reasons,
     evaluatedAt = (if isRfc3339DateTime (getKey input ''capturedAt'')
                    then strField input ''capturedAt'' else fallbackTime)\<rparr>"

section \<open>Evaluation\<close>

definition applicable :: "policyEvaluationInput \<Rightarrow> compiledPolicyRule \<Rightarrow> bool" where
  "applicable input rule =
     (ruleDomain rule = i_domain input \<and> ruleAction rule = i_action input \<and>
      i_subjectType input \<in> set (subjectTypes rule) \<and>
      i_resourceType input \<in> set (resourceTypes rule))"

text \<open>
  The loop over the rules: \<open>Inl matched\<close> is the early return for a condition that does not type
  check, with what had matched before it.
\<close>

fun matchRules ::
    "compiledPolicyRule list \<Rightarrow> policyEvaluationInput \<Rightarrow> jobject \<Rightarrow> compiledPolicyRule list
       \<Rightarrow> compiledPolicyRule list + compiledPolicyRule list" where
  "matchRules [] input consts matched = Inr matched"
| "matchRules (rule # rules) input consts matched =
     (if \<not> applicable input rule then matchRules rules input consts matched
      else
        let r = evaluateCondition (ruleWhen rule) input consts in
        if \<not> c_ok r then Inl matched
        else matchRules rules input consts (if c_matched r then matched @ [rule] else matched))"

text \<open>From the hard invariants on: input and snapshot are valid.\<close>

definition decideValid ::
    "jobject \<Rightarrow> jobject \<Rightarrow> policyEvaluationInput \<Rightarrow> compiledPolicySet \<Rightarrow> jstring \<Rightarrow> policyDecision" where
  "decideValid snap inp input compiled hash =
     (let invariantIds = hardInvariantViolations input in
      if invariantIds \<noteq> []
      then createDecision snap inp Deny [] invariantIds noRequirements
             [js ''HARD_INVARIANT_VIOLATION''] hash
      else
        case matchRules (policyRules compiled) input (constants compiled) [] of
          Inl matched \<Rightarrow>
            createDecision snap inp Indeterminate (map ruleId matched) [] noRequirements
              [js ''CONDITION_TYPE_MISMATCH''] hash
        | Inr matched \<Rightarrow>
            let denied = filter (\<lambda>rule. effect rule = DENY) matched;
                allowed = filter (\<lambda>rule. effect rule = ALLOW) matched in
            if denied \<noteq> []
            then createDecision snap inp Deny (map ruleId matched) [] noRequirements
                   (map reasonCode denied) hash
            else if allowed = []
            then createDecision snap inp Deny [] [] noRequirements [js ''DEFAULT_DENY''] hash
            else
              case mergeRequirements (map requirements allowed) of
                None \<Rightarrow>
                  createDecision snap inp Indeterminate (map ruleId allowed) [] noRequirements
                    [js ''REQUIREMENTS_CONFLICT''] hash
              | Some merged \<Rightarrow>
                  createDecision snap inp
                    (if merged = noRequirements then Allow else AllowWithRequirements)
                    (map ruleId allowed) [] merged [] hash)"

definition invalidInputHash :: "(jstring \<Rightarrow> jstring) \<Rightarrow> jstring" where
  "invalidInputHash sha = sha (canon (JObj [(js ''invalidInput'', JBool True)]))"

definition objectOf :: "json \<Rightarrow> jobject" where
  "objectOf v = (case v of JObj obj \<Rightarrow> obj | _ \<Rightarrow> [])"

definition evaluatePolicy :: "(jstring \<Rightarrow> jstring) \<Rightarrow> unknown \<Rightarrow> unknown \<Rightarrow> policyDecision" where
  "evaluatePolicy sha snapshotValue inputValue =
     (case bindE (assertPolicyJson snapshotValue (js ''$/snapshot'')) (\<lambda>s.
           bindE (assertPolicyJson inputValue (js ''$/input'')) (\<lambda>i.
           bindE (hashPolicyValue sha inputValue) (\<lambda>h. Inr (s, i, h)))) of
        Inl _ \<Rightarrow>
          createDecision [] [] Indeterminate [] [] noRequirements
            [js ''INVALID_EVALUATION_VALUE''] (invalidInputHash sha)
      | Inr (s, i, hash) \<Rightarrow>
          let snap = objectOf s; inp = objectOf i in
          if \<not> validateInput i \<or> asObject s = None
          then createDecision snap inp Indeterminate [] [] noRequirements
                 [js ''INVALID_EVALUATION_INPUT''] hash
          else
            case compilePolicySet sha
                   (case getKey snap ''compiledPolicySet'' of None \<Rightarrow> UUndefined | Some j \<Rightarrow> of_json j) of
              Inl _ \<Rightarrow>
                createDecision snap inp Indeterminate [] [] noRequirements
                  [js ''INVALID_POLICY_SNAPSHOT''] hash
            | Inr (compiled, text, compiledHash) \<Rightarrow>
                if \<not> validateSnapshot s (typedInput inp) compiled compiledHash
                then createDecision snap inp Indeterminate [] [] noRequirements
                       [js ''INVALID_POLICY_SNAPSHOT''] hash
                else decideValid snap inp (typedInput inp) compiled hash)"

section \<open>Every decision is well formed\<close>

definition decisionOk :: "policyDecision \<Rightarrow> bool" where
  "decisionOk d \<longleftrightarrow>
     matches uuidV7 (decisionId d) \<and> matches uuidV7 (policySnapshotId d) \<and>
     matches hex64 (policySnapshotHash d) \<and> isRfc3339DateTime (Some (JStr (evaluatedAt d))) \<and>
     sorted (matchedRuleIds d) \<and> sorted (hardInvariantIds d) \<and>
     sorted (reasonCodes d) \<and> distinct (reasonCodes d)"

lemma matchesField_strField:
  "matchesField p (getKey obj k) \<Longrightarrow> matches p (strField obj k)"
  by (auto simp: matchesField_def strField_def split: option.splits json.splits)

lemma isRfc3339DateTime_string: "isRfc3339DateTime v \<Longrightarrow> \<exists>s. v = Some (JStr s)"
  by (auto simp: isRfc3339DateTime_def split: option.splits json.splits)

lemma dateField_strField:
  "isRfc3339DateTime (getKey obj k) \<Longrightarrow> isRfc3339DateTime (Some (JStr (strField obj k)))"
  by (frule isRfc3339DateTime_string) (auto simp: strField_def)

lemma createDecision_ok: "decisionOk (createDecision snap inp out rids iids reqs reasons hash)"
  by (simp add: decisionOk_def createDecision_def fallback_ok matchesField_strField
      dateField_strField)

lemma createDecision_simps [simp]:
  "outcome (createDecision snap inp out rids iids reqs reasons hash) = out"
  "inputHash (createDecision snap inp out rids iids reqs reasons hash) = hash"
  "matchedRuleIds (createDecision snap inp out rids iids reqs reasons hash) = sort rids"
  "hardInvariantIds (createDecision snap inp out rids iids reqs reasons hash) = sort iids"
  "decisionRequirements (createDecision snap inp out rids iids reqs reasons hash) = reqs"
  "reasonCodes (createDecision snap inp out rids iids reqs reasons hash) = uniqueSorted reasons"
  by (simp_all add: createDecision_def)

lemma decideValid_ok: "decisionOk (decideValid snap inp input p hash)"
  by (auto simp: decideValid_def Let_def createDecision_ok split: sum.splits option.splits)

lemma evaluatePolicy_ok: "decisionOk (evaluatePolicy sha sv iv)"
  by (auto simp: evaluatePolicy_def Let_def createDecision_ok decideValid_ok
      split: sum.splits prod.splits)

section \<open>The rules that match\<close>

definition ruleMatches :: "policyEvaluationInput \<Rightarrow> jobject \<Rightarrow> compiledPolicyRule \<Rightarrow> bool" where
  "ruleMatches input cns rule \<longleftrightarrow>
     applicable input rule \<and> c_matched (evaluateCondition (ruleWhen rule) input cns)"

definition rulesTyped :: "policyEvaluationInput \<Rightarrow> compiledPolicySet \<Rightarrow> bool" where
  "rulesTyped input p \<longleftrightarrow> (\<forall>rule \<in> set (policyRules p). applicable input rule \<longrightarrow>
     c_ok (evaluateCondition (ruleWhen rule) input (constants p)))"

definition matchingRules :: "policyEvaluationInput \<Rightarrow> compiledPolicySet \<Rightarrow> compiledPolicyRule list" where
  "matchingRules input p = filter (ruleMatches input (constants p)) (policyRules p)"

lemma matchRules_Inr:
  "matchRules rules input cns acc = Inr m \<longleftrightarrow>
     (\<forall>rule \<in> set rules. applicable input rule \<longrightarrow> c_ok (evaluateCondition (ruleWhen rule) input cns)) \<and>
     m = acc @ filter (ruleMatches input cns) rules"
  by (induction rules input cns acc rule: matchRules.induct) (auto simp: Let_def ruleMatches_def)

lemma matchRules_matching:
  "matchRules (policyRules p) input (constants p) [] = Inr m \<longleftrightarrow>
     rulesTyped input p \<and> m = matchingRules input p"
  by (simp add: matchRules_Inr rulesTyped_def matchingRules_def)

text \<open>What the decision says of a valid input, branch by branch.\<close>

lemma decideValid_invariant:
  "hardInvariantViolations input \<noteq> [] \<Longrightarrow>
   decideValid snap inp input p hash = createDecision snap inp Deny []
     (hardInvariantViolations input) noRequirements [js ''HARD_INVARIANT_VIOLATION''] hash"
  by (simp add: decideValid_def)

lemma decideValid_mismatch:
  assumes "hardInvariantViolations input = []" "\<not> rulesTyped input p"
  shows "outcome (decideValid snap inp input p hash) = Indeterminate"
    "reasonCodes (decideValid snap inp input p hash) = uniqueSorted [js ''CONDITION_TYPE_MISMATCH'']"
proof -
  have "\<nexists>m. matchRules (policyRules p) input (constants p) [] = Inr m"
    using assms(2) by (simp add: matchRules_matching)
  then obtain m where "matchRules (policyRules p) input (constants p) [] = Inl m"
    by (cases "matchRules (policyRules p) input (constants p) []") auto
  then show "outcome (decideValid snap inp input p hash) = Indeterminate"
    "reasonCodes (decideValid snap inp input p hash) = uniqueSorted [js ''CONDITION_TYPE_MISMATCH'']"
    using assms(1) by (simp_all add: decideValid_def)
qed

lemma decideValid_typed:
  assumes "hardInvariantViolations input = []" "rulesTyped input p"
  shows "decideValid snap inp input p hash =
    (let matched = matchingRules input p;
         denied = filter (\<lambda>rule. effect rule = DENY) matched;
         allowed = filter (\<lambda>rule. effect rule = ALLOW) matched in
     if denied \<noteq> []
     then createDecision snap inp Deny (map ruleId matched) [] noRequirements (map reasonCode denied) hash
     else if allowed = []
     then createDecision snap inp Deny [] [] noRequirements [js ''DEFAULT_DENY''] hash
     else case mergeRequirements (map requirements allowed) of
            None \<Rightarrow> createDecision snap inp Indeterminate (map ruleId allowed) [] noRequirements
                      [js ''REQUIREMENTS_CONFLICT''] hash
          | Some merged \<Rightarrow> createDecision snap inp
              (if merged = noRequirements then Allow else AllowWithRequirements)
              (map ruleId allowed) [] merged [] hash)"
proof -
  have "matchRules (policyRules p) input (constants p) [] = Inr (matchingRules input p)"
    using assms(2) by (simp add: matchRules_matching)
  then show ?thesis using assms(1) by (simp add: decideValid_def Let_def)
qed

definition allows :: "policyDecision \<Rightarrow> bool" where
  "allows d \<longleftrightarrow> outcome d = Allow \<or> outcome d = AllowWithRequirements"

lemma decideValid_allows:
  "allows (decideValid snap inp input p hash) \<longleftrightarrow>
     hardInvariantViolations input = [] \<and> rulesTyped input p \<and>
     (\<exists>rule \<in> set (matchingRules input p). effect rule = ALLOW) \<and>
     (\<forall>rule \<in> set (matchingRules input p). effect rule \<noteq> DENY) \<and>
     mergeRequirements (map requirements (matchingRules input p)) \<noteq> None"
proof (cases "hardInvariantViolations input = [] \<and> rulesTyped input p")
  case True
  then have hr: "hardInvariantViolations input = []" "rulesTyped input p" by auto
  show ?thesis
  proof (cases "\<forall>rule \<in> set (matchingRules input p). effect rule \<noteq> DENY")
    case nodeny: True
    then have "effect rule = ALLOW" if "rule \<in> set (matchingRules input p)" for rule
      using that by (cases "effect rule") auto
    then have "filter (\<lambda>rule. effect rule = ALLOW) (matchingRules input p) = matchingRules input p"
      "filter (\<lambda>rule. effect rule = DENY) (matchingRules input p) = []"
      using nodeny by (auto simp: filter_id_conv filter_empty_conv)
    with True nodeny \<open>\<And>rule. rule \<in> set (matchingRules input p) \<Longrightarrow> effect rule = ALLOW\<close>
    show ?thesis
      unfolding decideValid_typed [OF hr]
      by (cases "matchingRules input p") (auto simp: allows_def Let_def split: option.splits)
  next
    case False
    then have "filter (\<lambda>rule. effect rule = DENY) (matchingRules input p) \<noteq> []"
      by (auto simp: filter_empty_conv)
    with False show ?thesis
      unfolding decideValid_typed [OF hr] by (auto simp: allows_def Let_def)
  qed
next
  case False
  then show ?thesis
    using decideValid_invariant decideValid_mismatch(1) by (fastforce simp: allows_def)
qed

section \<open>evaluatePolicy on valid arguments\<close>

definition validRequest ::
    "(jstring \<Rightarrow> jstring) \<Rightarrow> unknown \<Rightarrow> unknown \<Rightarrow> jobject \<Rightarrow> jobject \<Rightarrow> compiledPolicySet \<Rightarrow> bool" where
  "validRequest sha sv iv snap inp p \<longleftrightarrow>
     sv = of_json (JObj snap) \<and> policyOk (JObj snap) \<and> iv = of_json (JObj inp) \<and>
     policyOk (JObj inp) \<and> validateInput (JObj inp) \<and>
     (\<exists>j text hash. getKey snap ''compiledPolicySet'' = Some j \<and>
        compilePolicySet sha (of_json j) = Inr (p, text, hash) \<and>
        validateSnapshot (JObj snap) (typedInput inp) p hash)"

lemma validateInput_object: "validateInput v \<Longrightarrow> \<exists>obj. v = JObj obj"
  by (cases v) (auto simp: validateInput_def)

lemma evaluatePolicy_valid:
  assumes "validRequest sha sv iv snap inp p"
  shows "evaluatePolicy sha sv iv = decideValid snap inp (typedInput inp) p (sha (canon (JObj inp)))"
proof -
  have "assertPolicyJson sv q = Inr (JObj snap)" "assertPolicyJson iv q = Inr (JObj inp)"
    "hashPolicyValue sha iv = Inr (sha (canon (JObj inp)))" for q
    using assms assertPolicyJson_complete hashPolicyValue_of_json
    by (auto simp: validRequest_def simp del: of_json.simps policyOk.simps)
  then show ?thesis
    using assms unfolding evaluatePolicy_def
    by (auto simp: validRequest_def objectOf_def Let_def simp del: canon.simps)
qed

lemma evaluatePolicy_cases:
  obtains (invalid) "outcome (evaluatePolicy sha sv iv) = Indeterminate"
      "decisionRequirements (evaluatePolicy sha sv iv) = noRequirements"
      "matchedRuleIds (evaluatePolicy sha sv iv) = []"
      "reasonCodes (evaluatePolicy sha sv iv) \<in> {[js ''INVALID_EVALUATION_VALUE''],
         [js ''INVALID_EVALUATION_INPUT''], [js ''INVALID_POLICY_SNAPSHOT'']}"
      "\<nexists>snap inp p. validRequest sha sv iv snap inp p"
  | (valid) snap inp p where "validRequest sha sv iv snap inp p"
proof (cases "\<exists>snap inp p. validRequest sha sv iv snap inp p")
  case False
  let ?m = "bindE (assertPolicyJson sv (js ''$/snapshot'')) (\<lambda>s.
           bindE (assertPolicyJson iv (js ''$/input'')) (\<lambda>i.
           bindE (hashPolicyValue sha iv) (\<lambda>h. Inr (s, i, h))))"
  have "outcome (evaluatePolicy sha sv iv) = Indeterminate \<and>
      decisionRequirements (evaluatePolicy sha sv iv) = noRequirements \<and>
      matchedRuleIds (evaluatePolicy sha sv iv) = [] \<and>
      reasonCodes (evaluatePolicy sha sv iv) \<in> {[js ''INVALID_EVALUATION_VALUE''],
         [js ''INVALID_EVALUATION_INPUT''], [js ''INVALID_POLICY_SNAPSHOT'']}"
  proof (cases ?m)
    case (Inl e)
    then show ?thesis by (simp add: evaluatePolicy_def uniqueSorted_def)
  next
    case (Inr sih)
    then obtain s i h where sih: "sih = (s, i, h)" "sv = of_json s" "policyOk s"
      "iv = of_json i" "policyOk i"
      by (auto simp: assertPolicyJson_iff)
    show ?thesis
    proof (cases "validateInput i \<and> asObject s \<noteq> None")
      case v: False
      then show ?thesis
        using Inr sih(1) by (auto simp: evaluatePolicy_def Let_def uniqueSorted_def simp del: bindE_Inr_iff)
    next
      case v: True
      then obtain snap inp where o: "s = JObj snap" "i = JObj inp"
        using validateInput_object [of i] by (cases s) auto
      let ?c = "compilePolicySet sha
        (case getKey snap ''compiledPolicySet'' of None \<Rightarrow> UUndefined | Some j \<Rightarrow> of_json j)"
      show ?thesis
      proof (cases ?c)
        case (Inl e)
        then show ?thesis
          using \<open>?m = Inr sih\<close> sih(1) o v
          by (simp add: evaluatePolicy_def Let_def uniqueSorted_def objectOf_def del: bindE_Inr_iff)
      next
        case (Inr pth)
        obtain p tx hash where p: "pth = (p, tx, hash)" by (cases pth)
        have "getKey snap ''compiledPolicySet'' \<noteq> None"
          using Inr p by (auto simp: compilePolicySet_def split: option.splits)
        then obtain j where j: "getKey snap ''compiledPolicySet'' = Some j" by auto
        have "validRequest sha sv iv snap inp p" if "validateSnapshot s (typedInput inp) p hash"
          unfolding validRequest_def
          using that Inr p j sih v unfolding o option.case j by blast
        then have "\<not> validateSnapshot s (typedInput inp) p hash"
          using False by blast
        then show ?thesis
          using \<open>?m = Inr sih\<close> sih(1) o v Inr p
          by (simp add: evaluatePolicy_def Let_def uniqueSorted_def objectOf_def del: bindE_Inr_iff)
      qed
    qed
  qed
  with False show thesis using invalid by blast
qed (use valid in blast)

section \<open>Merged requirements\<close>

definition levels :: "policyRequirements list \<Rightarrow> isolationLevel set" where
  "levels rs = {l. \<exists>r \<in> set rs. minimumIsolationLevel r = Some l}"

text \<open>No two different levels above \<open>PROCESS_RESTRICTED\<close>, which any other level satisfies.\<close>

definition compatibleLevels :: "isolationLevel set \<Rightarrow> bool" where
  "compatibleLevels L \<longleftrightarrow>
     (\<forall>a \<in> L. \<forall>b \<in> L. a \<noteq> PROCESS_RESTRICTED \<longrightarrow> b \<noteq> PROCESS_RESTRICTED \<longrightarrow> a = b)"

definition strictestLevel :: "isolationLevel set \<Rightarrow> isolationLevel option \<Rightarrow> bool" where
  "strictestLevel L m \<longleftrightarrow>
     (case m of None \<Rightarrow> L = {}
      | Some l \<Rightarrow> l \<in> L \<and> (\<forall>a \<in> L. a \<noteq> PROCESS_RESTRICTED \<longrightarrow> a = l))"

definition leastBound :: "int option set \<Rightarrow> int option \<Rightarrow> bool" where
  "leastBound B m \<longleftrightarrow>
     (case m of None \<Rightarrow> B \<subseteq> {None} | Some n \<Rightarrow> Some n \<in> B \<and> (\<forall>k. Some k \<in> B \<longrightarrow> n \<le> k))"

lemma strictestLevel_simps:
  "strictestLevel L None \<longleftrightarrow> L = {}"
  "strictestLevel L (Some l) \<longleftrightarrow> l \<in> L \<and> (\<forall>a \<in> L. a \<noteq> PROCESS_RESTRICTED \<longrightarrow> a = l)"
  by (simp_all add: strictestLevel_def)

lemma strictestLevel_unique:
  assumes "strictestLevel L a" "strictestLevel L b" shows "a = b"
proof (cases a)
  case None
  then show ?thesis using assms by (cases b) (auto simp: strictestLevel_simps)
next
  case (Some l)
  then obtain k where "b = Some k" using assms by (cases b) (auto simp: strictestLevel_simps)
  with Some assms show ?thesis by (metis strictestLevel_simps(2))
qed

lemma leastBound_unique: "leastBound B a \<Longrightarrow> leastBound B b \<Longrightarrow> a = b"
  by (cases a; cases b) (force simp: leastBound_def)+

lemma compatible_strictest:
  assumes "k \<in> L" "\<forall>a \<in> L. a \<noteq> PROCESS_RESTRICTED \<longrightarrow> a = k"
  shows "compatibleLevels (insert l L) \<longleftrightarrow> k = PROCESS_RESTRICTED \<or> l = PROCESS_RESTRICTED \<or> l = k"
  unfolding compatibleLevels_def using assms by blast

lemma mergeIsolation_None:
  assumes "strictestLevel L i"
  shows "mergeIsolation i c = None \<longleftrightarrow> \<not> compatibleLevels (L \<union> set_option c)"
proof (cases c)
  case None
  have "compatibleLevels L"
    using assms unfolding compatibleLevels_def strictestLevel_def
    by (cases i; simp only: option.case) blast+
  then show ?thesis by (simp add: None mergeIsolation_def)
next
  case (Some l)
  show ?thesis
  proof (cases i)
    case None
    then have "L = {}" using assms by (simp add: strictestLevel_def)
    then show ?thesis by (simp add: Some None mergeIsolation_def compatibleLevels_def)
  next
    case i: (Some k)
    then have "k \<in> L" "\<forall>a \<in> L. a \<noteq> PROCESS_RESTRICTED \<longrightarrow> a = k"
      using assms by (auto simp: strictestLevel_def)
    from compatible_strictest [OF this, of l] show ?thesis
      by (simp add: Some i mergeIsolation_def)
  qed
qed

lemma mergeIsolation_Some:
  assumes "strictestLevel L i" "mergeIsolation i c = Some i'"
  shows "strictestLevel (L \<union> set_option c) i'"
proof (cases c)
  case None
  then show ?thesis using assms by (simp add: mergeIsolation_def)
next
  case (Some l)
  show ?thesis
  proof (cases i)
    case None
    then show ?thesis using assms Some by (auto simp: mergeIsolation_def strictestLevel_def)
  next
    case i: (Some k)
    then have L: "k \<in> L" "\<forall>a \<in> L. a \<noteq> PROCESS_RESTRICTED \<longrightarrow> a = k"
      using assms(1) by (simp_all add: strictestLevel_simps)
    have "i' = Some l \<and> k = PROCESS_RESTRICTED \<or> i' = Some k \<and> (l = PROCESS_RESTRICTED \<or> l = k)"
      using assms(2) Some i by (simp add: mergeIsolation_def split: if_splits)
    then show ?thesis
      using L unfolding Some by (elim disjE conjE) (simp only: strictestLevel_simps option.set, blast)+
  qed
qed

lemma minOption_least:
  assumes "leastBound B m" shows "leastBound (insert new B) (minOption m new)"
proof (cases new)
  case None
  then show ?thesis using assms by (auto simp: minOption_def leastBound_def split: option.splits)
next
  case (Some a)
  show ?thesis
  proof (cases m)
    case None
    then show ?thesis using assms Some by (auto simp: minOption_def leastBound_def)
  next
    case m: (Some b)
    then have "Some b \<in> B" "\<And>k. Some k \<in> B \<Longrightarrow> b \<le> k" using assms by (auto simp: leastBound_def)
    then show ?thesis using Some m
      by (cases "b \<le> a") (force simp: minOption_def leastBound_def min_def)+
  qed
qed

lemma addScopes_set: "set (addScopes new acc) = set acc \<union> set new"
  unfolding addScopes_def by (induction new arbitrary: acc) auto

lemma addScopes_distinct: "distinct acc \<Longrightarrow> distinct (addScopes new acc)"
  unfolding addScopes_def by (induction new arbitrary: acc) auto

definition scopesOf :: "policyRequirements list \<Rightarrow> jstring set" where
  "scopesOf rs = (\<Union>r \<in> set rs. case permissionScopes r of None \<Rightarrow> {} | Some ss \<Rightarrow> set ss)"

text \<open>The state of the loop after the requirements \<open>rs\<close>.\<close>

definition mergeInv :: "policyRequirements list \<Rightarrow> mergeState \<Rightarrow> bool" where
  "mergeInv rs s \<longleftrightarrow>
     compatibleLevels (levels rs) \<and> strictestLevel (levels rs) (ms_isolation s) \<and>
     set (ms_scopes s) = scopesOf rs \<and> distinct (ms_scopes s) \<and>
     leastBound (timeoutMs ` set rs) (ms_timeout s) \<and>
     leastBound (maxConcurrency ` set rs) (ms_concurrency s) \<and>
     (ms_post s \<longleftrightarrow> (\<exists>r \<in> set rs. postVerificationRequired r = Some True))"

lemma levels_snoc: "levels (rs @ [r]) = levels rs \<union> set_option (minimumIsolationLevel r)"
  by (auto simp: levels_def)

lemma mergeStep_inv:
  assumes "mergeInv rs s"
  shows "mergeStep r s = None \<longleftrightarrow> \<not> compatibleLevels (levels (rs @ [r]))"
    "mergeStep r s = Some s' \<Longrightarrow> mergeInv (rs @ [r]) s'"
proof -
  have i: "strictestLevel (levels rs) (ms_isolation s)" using assms by (simp add: mergeInv_def)
  show 1: "mergeStep r s = None \<longleftrightarrow> \<not> compatibleLevels (levels (rs @ [r]))"
    using mergeIsolation_None [OF i, of "minimumIsolationLevel r"]
    by (cases "mergeIsolation (ms_isolation s) (minimumIsolationLevel r)")
      (simp_all add: mergeStep_def levels_snoc)
  assume s': "mergeStep r s = Some s'"
  then obtain j where j: "mergeIsolation (ms_isolation s) (minimumIsolationLevel r) = Some j"
    by (auto simp: mergeStep_def split: option.splits)
  have c: "compatibleLevels (levels (rs @ [r]))" using 1 s' by simp
  show "mergeInv (rs @ [r]) s'"
    using assms s' c mergeIsolation_Some [OF i j] minOption_least
    by (auto simp: mergeInv_def mergeStep_def j levels_snoc addScopes_set addScopes_distinct
        scopesOf_def split: option.splits)
qed

lemma compatibleLevels_mono: "compatibleLevels (A \<union> B) \<Longrightarrow> compatibleLevels A"
  by (auto simp: compatibleLevels_def)

lemma mergeLoop_inv:
  assumes "mergeInv done s"
  shows "mergeLoop rs s = None \<longleftrightarrow> \<not> compatibleLevels (levels (done @ rs))"
    "mergeLoop rs s = Some s' \<Longrightarrow> mergeInv (done @ rs) s'"
  using assms
proof (induction rs arbitrary: "done" s)
  case Nil
  { case 1 then show ?case by (simp add: mergeInv_def)
  next case 2 then show ?case by simp }
next
  case (Cons r rs)
  have sub: "levels (done @ r # rs) = levels (done @ [r]) \<union> levels rs" for "done"
    by (auto simp: levels_def)
  { case 1
    show ?case
    proof (cases "mergeStep r s")
      case None
      then show ?thesis
        using mergeStep_inv(1) [OF 1, of r] compatibleLevels_mono [of "levels (done @ [r])"]
        by (auto simp: sub)
    next
      case (Some s1)
      then show ?thesis using Cons.IH(1) [OF mergeStep_inv(2) [OF 1 Some]] by simp
    qed
  next
    case 2
    then show ?case
      using Cons.IH(2) [OF _ mergeStep_inv(2) [OF 2(2)]] by (auto split: option.splits)
  }
qed

lemma mergeInv_init:
  "mergeInv [] \<lparr>ms_scopes = [], ms_isolation = None, ms_timeout = None, ms_concurrency = None,
     ms_post = False\<rparr>"
  by (simp add: mergeInv_def levels_def compatibleLevels_def strictestLevel_def scopesOf_def leastBound_def)

lemma mergeRequirements_None:
  "mergeRequirements rs = None \<longleftrightarrow> \<not> compatibleLevels (levels rs)"
  using mergeLoop_inv(1) [OF mergeInv_init, of rs]
  by (auto simp: mergeRequirements_def split: option.splits)

lemma mergeRequirements_Some:
  assumes "mergeRequirements rs = Some m"
  shows "permissionScopes m =
      (if scopesOf rs = {} then None else Some (sorted_list_of_set (scopesOf rs)))"
    "strictestLevel (levels rs) (minimumIsolationLevel m)"
    "leastBound (timeoutMs ` set rs) (timeoutMs m)"
    "leastBound (maxConcurrency ` set rs) (maxConcurrency m)"
    "postVerificationRequired m =
      (if \<exists>r \<in> set rs. postVerificationRequired r = Some True then Some True else None)"
proof -
  obtain s where s: "mergeLoop rs \<lparr>ms_scopes = [], ms_isolation = None, ms_timeout = None,
      ms_concurrency = None, ms_post = False\<rparr> = Some s"
    using assms by (auto simp: mergeRequirements_def split: option.splits)
  then have inv: "mergeInv rs s" using mergeLoop_inv(2) [OF mergeInv_init s] by simp
  have m: "m = \<lparr>permissionScopes = (if ms_scopes s = [] then None else Some (sort (ms_scopes s))),
      minimumIsolationLevel = ms_isolation s, timeoutMs = ms_timeout s,
      maxConcurrency = ms_concurrency s,
      postVerificationRequired = (if ms_post s then Some True else None)\<rparr>"
    using assms s by (simp add: mergeRequirements_def)
  have "sort (ms_scopes s) = sorted_list_of_set (scopesOf rs)"
    using inv by (metis mergeInv_def sorted_list_of_set_sort_remdups distinct_remdups_id)
  moreover have "ms_scopes s = [] \<longleftrightarrow> scopesOf rs = {}"
    using inv by (auto simp: mergeInv_def)
  ultimately show "permissionScopes m =
      (if scopesOf rs = {} then None else Some (sorted_list_of_set (scopesOf rs)))"
    by (simp add: m)
  show "strictestLevel (levels rs) (minimumIsolationLevel m)"
    "leastBound (timeoutMs ` set rs) (timeoutMs m)"
    "leastBound (maxConcurrency ` set rs) (maxConcurrency m)"
    "postVerificationRequired m =
      (if \<exists>r \<in> set rs. postVerificationRequired r = Some True then Some True else None)"
    using inv by (auto simp: m mergeInv_def)
qed

lemma mergeRequirements_set:
  assumes "set rs = set rs'" shows "mergeRequirements rs = mergeRequirements rs'"
proof -
  have eq: "levels rs = levels rs'" "scopesOf rs = scopesOf rs'"
    using assms by (auto simp: levels_def scopesOf_def)
  show ?thesis
  proof (cases "compatibleLevels (levels rs)")
    case True
    then obtain m m' where m: "mergeRequirements rs = Some m" "mergeRequirements rs' = Some m'"
      using mergeRequirements_None [of rs] mergeRequirements_None [of rs'] eq by auto
    note a = mergeRequirements_Some [OF m(1)] and b = mergeRequirements_Some [OF m(2)]
    have "minimumIsolationLevel m = minimumIsolationLevel m'"
      using strictestLevel_unique a(2) b(2) eq by metis
    moreover have "timeoutMs m = timeoutMs m'" "maxConcurrency m = maxConcurrency m'"
      using leastBound_unique a(3,4) b(3,4) assms by metis+
    ultimately have "m = m'"
      using a(1,5) b(1,5) eq assms by (intro policyRequirements.equality) simp_all
    with m show ?thesis by simp
  next
    case False
    then show ?thesis using mergeRequirements_None eq by metis
  qed
qed

section \<open>Snapshots of compiled sets\<close>

lemma asciiOnly_patterns: "asciiOnly uuidV7" "asciiOnly semver" "asciiOnly hex64"
  by code_simp+

lemma hasExactKeys_simp: "hasExactKeys obj ks \<longleftrightarrow> length obj = length ks \<and> set (objKeys obj) \<subseteq> set (map js ks)"
  by (auto simp: hasExactKeys_def list_all_iff objKeys_def)

lemma createPolicySnapshot_valid:
  assumes p: "policySetOk p" and c: "createPolicySnapshot sha p meta = Inr snap"
    and hex: "matches hex64 (sha (canon (policySetJson p)))"
    and created: "wellFormedUnicode None (m_createdAt meta)"
    and i: "i_policySnapshotId input = m_snapshotId meta"
  shows "\<exists>obj. snap = JObj obj \<and> policyOk snap \<and>
    getKey obj ''compiledPolicySet'' = Some (policySetJson p) \<and>
    validateSnapshot snap input p (sha (canon (policySetJson p)))"
proof -
  let ?h = "sha (canon (policySetJson p))"
  have h: "hashPolicyValue sha (of_json (policySetJson p)) = Inr ?h"
    using hashPolicyValue_of_json dataOk_policySet [OF p] by blast
  have m: "matches uuidV7 (m_snapshotId meta)" "matches semver (m_compilerVersion meta)"
    "isRfc3339DateTime (Some (JStr (m_createdAt meta)))"
    using c by (auto simp: createPolicySnapshot_def split: if_splits)
  then have snap: "snap = JObj [
        (js ''schemaVersion'', JStr (js ''1.0.0'')),
        (js ''snapshotId'', JStr (m_snapshotId meta)),
        (js ''policySetId'', JStr (policySetId p)),
        (js ''policyVersion'', JStr (policyVersion p)),
        (js ''policyHash'', JStr ?h),
        (js ''compiledPolicySet'', policySetJson p),
        (js ''compilerVersion'', JStr (m_compilerVersion meta)),
        (js ''createdAt'', JStr (m_createdAt meta))]"
    using c h by (simp add: createPolicySnapshot_def)
  have ids: "matches uuidV7 (policySetId p)" "matches semver (policyVersion p)"
    "wellFormedUnicode None (policySetId p)" "wellFormedUnicode None (policyVersion p)"
    using p by (auto simp: policySetOk_def textOk_def)
  have ascii: "wellFormedUnicode None (m_snapshotId meta)"
    "wellFormedUnicode None (m_compilerVersion meta)" "wellFormedUnicode None ?h"
    using asciiOnly_wellFormed m hex by (metis asciiOnly_patterns)+
  have "policyOk snap"
    unfolding snap policyOk_members
    using ids ascii created dataOk_policySet [OF p]
    by (simp add: protectedKeys_def wellFormed_js del: policyOk.simps(6))
  moreover have "validateSnapshot snap input p ?h"
    unfolding snap validateSnapshot_def
    using m ids hex i by (simp add: hasExactKeys_simp matchesField_def)
  ultimately show ?thesis unfolding snap by (intro exI conjI) (rule refl, simp_all)
qed

lemma createPolicySnapshot_request:
  assumes "policySetOk p" "createPolicySnapshot sha p meta = Inr snapshot"
    "matches hex64 (sha (canon (policySetJson p)))" "wellFormedUnicode None (m_createdAt meta)"
    "policyOk (JObj inp)" "validateInput (JObj inp)"
    "getKey inp ''policySnapshotId'' = Some (JStr (m_snapshotId meta))"
  shows "\<exists>snap. snapshot = JObj snap \<and> validRequest sha (of_json snapshot) (of_json (JObj inp)) snap inp p"
proof -
  have i: "i_policySnapshotId (typedInput inp) = m_snapshotId meta"
    using assms(7) by (simp add: typedInput_def strField_def)
  obtain obj where o: "snapshot = JObj obj" "policyOk snapshot"
    "getKey obj ''compiledPolicySet'' = Some (policySetJson p)"
    "validateSnapshot snapshot (typedInput inp) p (sha (canon (policySetJson p)))"
    using createPolicySnapshot_valid [OF assms(1,2,3,4) i] by auto
  then have "validRequest sha (of_json snapshot) (of_json (JObj inp)) obj inp p"
    using assms(5,6) compilePolicySet_complete [OF assms(1)] unfolding validRequest_def by blast
  with o(1) show ?thesis by blast
qed

lemma createPolicySnapshot_wf:
  "createPolicySnapshot sha p meta = Inr snap \<Longrightarrow> policySetOk p \<Longrightarrow> json_wf snap"
  using dataOk_policySet [of p] by (auto simp: createPolicySnapshot_def split: if_splits)

section \<open>A concrete request\<close>

definition exampleMeta :: policySnapshotMetadata where
  "exampleMeta = \<lparr>m_snapshotId = fallbackId, m_compilerVersion = js ''0.1.0'', m_createdAt = fallbackTime\<rparr>"

definition exampleInput :: "bool \<Rightarrow> jobject" where
  "exampleInput mutation = [(js ''schemaVersion'', JStr (js ''1.0.0'')),
     (js ''evaluationId'', JStr fallbackId), (js ''capturedAt'', JStr fallbackTime),
     (js ''policySnapshotId'', JStr fallbackId), (js ''domain'', JStr (js ''tool'')),
     (js ''subjectType'', JStr (js ''agent'')), (js ''action'', JStr (js ''run'')),
     (js ''resourceType'', JStr (js ''tool'')), (js ''riskClass'', JStr (js ''R1'')),
     (js ''dataClassification'', JStr (js ''INTERNAL'')), (js ''direction'', JStr (js ''LOCAL'')),
     (js ''authorityMutation'', JBool mutation), (js ''controlVerified'', JBool False),
     (js ''permissionScopes'', JArr []), (js ''capabilityIds'', JArr [])]"

lemma exampleInput_data: "policyOk (JObj (exampleInput b))" "json_wf (JObj (exampleInput b))"
  by (simp_all add: exampleInput_def protectedKeys_def wellFormed_js fallbackId_def fallbackTime_def)

lemma exampleInput_valid: "validateInput (JObj (exampleInput b))"
  unfolding validateInput_def json.case
proof (intro conjI)
  show "matchesField uuidV7 (getKey (exampleInput b) ''evaluationId'')"
    "isRfc3339DateTime (getKey (exampleInput b) ''capturedAt'')"
    "matchesField uuidV7 (getKey (exampleInput b) ''policySnapshotId'')"
    by (simp_all add: exampleInput_def matchesField_def fallback_ok)
qed (simp_all add: exampleInput_def hasExactKeys_simp isBoundedString_def riskClassOf_def
    classificationOf_def directionOf_def enumOf_def isBoolean_def isUniqueBoundedStringArray_def)

lemmas exampleInput_ok = exampleInput_data(1) exampleInput_valid

lemma exampleMeta_ok: "wellFormedUnicode None (m_createdAt exampleMeta)"
  by code_simp

lemma exampleInput_id:
  "getKey (exampleInput b) ''policySnapshotId'' = Some (JStr (m_snapshotId exampleMeta))"
  by (simp add: exampleInput_def exampleMeta_def)

lemma exampleSnapshot:
  "\<exists>snap. createPolicySnapshot zeroHash (examplePolicy e) exampleMeta = Inr (JObj snap)"
proof -
  have "hashPolicyValue zeroHash (of_json (policySetJson (examplePolicy e))) =
      Inr (zeroHash (canon (policySetJson (examplePolicy e))))"
    using hashPolicyValue_of_json dataOk_policySet [OF examplePolicy_ok] by blast
  moreover have "matches uuidV7 (m_snapshotId exampleMeta) \<and> matches semver (m_compilerVersion exampleMeta) \<and>
      isRfc3339DateTime (Some (JStr (m_createdAt exampleMeta)))"
    by code_simp
  ultimately show ?thesis by (simp add: createPolicySnapshot_def)
qed

definition exampleSnap :: "ruleEffect \<Rightarrow> jobject" where
  "exampleSnap e = (case createPolicySnapshot zeroHash (examplePolicy e) exampleMeta of
     Inr (JObj snap) \<Rightarrow> snap | _ \<Rightarrow> [])"

lemma exampleSnap_eq:
  "createPolicySnapshot zeroHash (examplePolicy e) exampleMeta = Inr (JObj (exampleSnap e))"
  using exampleSnapshot [of e] by (auto simp: exampleSnap_def)

lemma example_request:
  "validRequest zeroHash (of_json (JObj (exampleSnap e))) (of_json (JObj (exampleInput b)))
     (exampleSnap e) (exampleInput b) (examplePolicy e)"
proof -
  have "matches hex64 (zeroHash (canon (policySetJson (examplePolicy e))))"
    unfolding zeroHash_def by (rule fallback_ok)
  from createPolicySnapshot_request [OF examplePolicy_ok exampleSnap_eq this exampleMeta_ok
      exampleInput_ok exampleInput_id]
  show ?thesis by (auto simp del: of_json.simps)
qed

lemma example_invariants:
  "hardInvariantViolations (typedInput (exampleInput False)) = []"
  "hardInvariantViolations (typedInput (exampleInput True)) \<noteq> []"
  by code_simp+

lemma example_matching:
  "rulesTyped (typedInput (exampleInput False)) (examplePolicy e)"
  "matchingRules (typedInput (exampleInput False)) (examplePolicy e) = [exampleRule e]"
proof -
  have "applicable (typedInput (exampleInput False)) (exampleRule e)"
    "evaluateCondition (ruleWhen (exampleRule e)) (typedInput (exampleInput False))
       (constants (examplePolicy e)) = result True"
    by (cases e; simp only:; code_simp)+
  then show "rulesTyped (typedInput (exampleInput False)) (examplePolicy e)"
    "matchingRules (typedInput (exampleInput False)) (examplePolicy e) = [exampleRule e]"
    by (simp_all add: rulesTyped_def matchingRules_def ruleMatches_def examplePolicy_def)
qed

section \<open>Properties\<close>

text \<open>Whatever two values \<open>evaluatePolicy\<close> is given, the decision it returns is well formed: its
  identifiers are UUIDs of version 7, its snapshot hash is 64 hexadecimal digits, its time is an
  RFC 3339 date-time, and its lists are sorted, the reason codes without repetition.\<close>

theorem evaluatePolicy_well_formed: "decisionOk (evaluatePolicy sha snapshotValue inputValue)"
  by (rule evaluatePolicy_ok)

text \<open>C1. Fail closed: an ALLOW outcome, with or without requirements, is returned only for a plain
  snapshot and input that pass validation, when no hard invariant is violated, every applicable
  rule's condition type checks, an ALLOW rule matches, no DENY rule matches, and the
  requirements of the matching rules do not conflict; the ids reported are those of the matching
  rules and the requirements are their merge.\<close>

theorem evaluatePolicy_allow_justified:
  assumes "allows (evaluatePolicy sha snapshotValue inputValue)"
  shows "\<exists>snap inp p. validRequest sha snapshotValue inputValue snap inp p \<and>
    hardInvariantViolations (typedInput inp) = [] \<and> rulesTyped (typedInput inp) p \<and>
    (\<exists>rule \<in> set (matchingRules (typedInput inp) p). effect rule = ALLOW) \<and>
    \<not> (\<exists>rule \<in> set (matchingRules (typedInput inp) p). effect rule = DENY) \<and>
    matchedRuleIds (evaluatePolicy sha snapshotValue inputValue) =
      sort (map ruleId (matchingRules (typedInput inp) p)) \<and>
    mergeRequirements (map requirements (matchingRules (typedInput inp) p)) =
      Some (decisionRequirements (evaluatePolicy sha snapshotValue inputValue))"
proof (cases rule: evaluatePolicy_cases [of sha snapshotValue inputValue])
  case invalid
  then show ?thesis using assms by (simp add: allows_def)
next
  case (valid snap inp p)
  let ?d = "decideValid snap inp (typedInput inp) p (sha (canon (JObj inp)))"
  have d: "evaluatePolicy sha snapshotValue inputValue = ?d"
    by (rule evaluatePolicy_valid [OF valid])
  then have a: "allows ?d" using assms by simp
  note c = a [unfolded decideValid_allows]
  have "filter (\<lambda>rule. effect rule = DENY) (matchingRules (typedInput inp) p) = []"
    "filter (\<lambda>rule. effect rule = ALLOW) (matchingRules (typedInput inp) p) =
      matchingRules (typedInput inp) p"
    using c by (auto simp: filter_empty_conv filter_id_conv) (metis ruleEffect.exhaust)
  moreover have "matchingRules (typedInput inp) p \<noteq> []" using c by auto
  ultimately have "matchedRuleIds ?d = sort (map ruleId (matchingRules (typedInput inp) p)) \<and>
    mergeRequirements (map requirements (matchingRules (typedInput inp) p)) =
      Some (decisionRequirements ?d)"
    using c by (auto simp: decideValid_typed Let_def split: option.splits)
  then show ?thesis using valid c d by auto
qed

theorem evaluatePolicy_allow_justified_witness:
  "\<exists>snap inp p. validRequest zeroHash (of_json (JObj (exampleSnap ALLOW)))
     (of_json (JObj (exampleInput False))) snap inp p \<and>
     hardInvariantViolations (typedInput inp) = []"
proof -
  have "allows (evaluatePolicy zeroHash (of_json (JObj (exampleSnap ALLOW)))
      (of_json (JObj (exampleInput False))))"
    unfolding evaluatePolicy_valid [OF example_request] decideValid_allows example_matching
      mergeRequirements_None
    by (simp add: example_invariants example_matching levels_def compatibleLevels_def)
      (simp add: exampleRule_def noRequirements_def)
  from evaluatePolicy_allow_justified [OF this] show ?thesis by blast
qed

text \<open>C6. The converse: a valid request is allowed when no hard invariant is violated, the conditions
  type check, some ALLOW rule and no DENY rule matches, and the matching rules require no two
  different isolation levels above \<open>PROCESS_RESTRICTED\<close>.\<close>

theorem evaluatePolicy_allows:
  assumes "validRequest sha snapshotValue inputValue snap inp p"
    "hardInvariantViolations (typedInput inp) = []" "rulesTyped (typedInput inp) p"
    "\<exists>rule \<in> set (matchingRules (typedInput inp) p). effect rule = ALLOW"
    "\<forall>rule \<in> set (matchingRules (typedInput inp) p). effect rule \<noteq> DENY"
    "compatibleLevels (levels (map requirements (matchingRules (typedInput inp) p)))"
  shows "allows (evaluatePolicy sha snapshotValue inputValue)"
  using assms mergeRequirements_None evaluatePolicy_valid [OF assms(1)]
  by (auto simp: decideValid_allows)

theorem evaluatePolicy_allows_witness:
  "allows (evaluatePolicy zeroHash (of_json (JObj (exampleSnap ALLOW)))
     (of_json (JObj (exampleInput False))))"
proof (rule evaluatePolicy_allows [OF example_request])
  show "compatibleLevels (levels (map requirements
      (matchingRules (typedInput (exampleInput False)) (examplePolicy ALLOW))))"
    unfolding example_matching
    by (simp add: levels_def compatibleLevels_def exampleRule_def noRequirements_def)
qed (simp_all add: example_invariants example_matching, simp_all add: exampleRule_def)

text \<open>C2. Hard invariants are absolute: a valid request that violates one is denied whatever the rules
  say, the decision names exactly the violated invariants, and it names no rule.\<close>

theorem evaluatePolicy_hard_invariants:
  assumes "validRequest sha snapshotValue inputValue snap inp p"
    "hardInvariantViolations (typedInput inp) \<noteq> []"
  shows "outcome (evaluatePolicy sha snapshotValue inputValue) = Deny \<and>
    set (hardInvariantIds (evaluatePolicy sha snapshotValue inputValue)) =
      (if i_authorityMutation (typedInput inp) then {js ''NO_DIRECT_AUTHORITY_WRITE''} else {}) \<union>
      (if i_riskClass (typedInput inp) = R4 \<and> \<not> i_controlVerified (typedInput inp)
       then {js ''R4_REQUIRES_VERIFIED_CONTROL''} else {}) \<union>
      (if i_dataClassification (typedInput inp) = SECRET \<and> i_direction (typedInput inp) = OUTBOUND
       then {js ''NO_SECRET_OUTBOUND''} else {}) \<and>
    matchedRuleIds (evaluatePolicy sha snapshotValue inputValue) = []"
  unfolding evaluatePolicy_valid [OF assms(1)] decideValid_invariant [OF assms(2)]
    createDecision_simps set_sort hardInvariantViolations_def set_append
  by (simp only: if_distrib [of set] list.set sort_key_simps) simp

theorem evaluatePolicy_hard_invariants_witness:
  "outcome (evaluatePolicy zeroHash (of_json (JObj (exampleSnap ALLOW)))
     (of_json (JObj (exampleInput True)))) = Deny"
  using evaluatePolicy_hard_invariants [OF example_request example_invariants(2)] by blast

text \<open>C3. A matching DENY rule overrides every ALLOW rule, and without any matching rule the outcome is
  DENY by default, with the reason codes of the denying rules or \<open>DEFAULT_DENY\<close>.\<close>

theorem evaluatePolicy_denies:
  assumes "validRequest sha snapshotValue inputValue snap inp p"
    "hardInvariantViolations (typedInput inp) = []" "rulesTyped (typedInput inp) p"
    "(\<exists>rule \<in> set (matchingRules (typedInput inp) p). effect rule = DENY) \<or>
      matchingRules (typedInput inp) p = []"
  shows "outcome (evaluatePolicy sha snapshotValue inputValue) = Deny \<and>
    set (reasonCodes (evaluatePolicy sha snapshotValue inputValue)) =
      (if matchingRules (typedInput inp) p = [] then {js ''DEFAULT_DENY''}
       else reasonCode ` {rule \<in> set (matchingRules (typedInput inp) p). effect rule = DENY})"
proof (cases "matchingRules (typedInput inp) p = []")
  case True
  then show ?thesis
    unfolding evaluatePolicy_valid [OF assms(1)] decideValid_typed [OF assms(2,3)]
    by (simp add: Let_def uniqueSorted_def)
next
  case False
  then have "filter (\<lambda>rule. effect rule = DENY) (matchingRules (typedInput inp) p) \<noteq> []"
    using assms(4) by (auto simp: filter_empty_conv)
  with False show ?thesis
    unfolding evaluatePolicy_valid [OF assms(1)] decideValid_typed [OF assms(2,3)]
    by (auto simp: Let_def)
qed

theorem evaluatePolicy_denies_witness:
  "outcome (evaluatePolicy zeroHash (of_json (JObj (exampleSnap DENY)))
     (of_json (JObj (exampleInput False)))) = Deny"
  using evaluatePolicy_denies [OF example_request [of DENY False] example_invariants(1)
      example_matching(1)]
  by (simp add: example_matching exampleRule_def)

text \<open>Requirements are merged to the strictest: the scopes are the union, timeout and concurrency
  are the least bound given, the isolation level satisfies every level asked for, and the merge
  depends on the set of requirements only, not on their order or repetition.\<close>

theorem mergeRequirements_strictest:
  assumes "mergeRequirements rs = Some m"
  shows "(case permissionScopes m of None \<Rightarrow> {} | Some ss \<Rightarrow> set ss) = scopesOf rs \<and>
    strictestLevel (levels rs) (minimumIsolationLevel m) \<and>
    leastBound (timeoutMs ` set rs) (timeoutMs m) \<and>
    leastBound (maxConcurrency ` set rs) (maxConcurrency m) \<and>
    (postVerificationRequired m = Some True \<longleftrightarrow>
       (\<exists>r \<in> set rs. postVerificationRequired r = Some True)) \<and>
    (\<forall>rs'. set rs' = set rs \<longrightarrow> mergeRequirements rs' = Some m)"
proof -
  have "finite (scopesOf rs)" by (auto simp: scopesOf_def split: option.splits)
  then have "(case permissionScopes m of None \<Rightarrow> {} | Some ss \<Rightarrow> set ss) = scopesOf rs"
    unfolding mergeRequirements_Some(1) [OF assms] by simp
  moreover have "postVerificationRequired m = Some True \<longleftrightarrow>
      (\<exists>r \<in> set rs. postVerificationRequired r = Some True)"
    unfolding mergeRequirements_Some(5) [OF assms] by simp
  moreover have "\<forall>rs'. set rs' = set rs \<longrightarrow> mergeRequirements rs' = Some m"
    using mergeRequirements_set assms by metis
  ultimately show ?thesis
    using mergeRequirements_Some(2-4) [OF assms] by blast
qed

theorem mergeRequirements_strictest_witness:
  "timeoutMs (the (mergeRequirements [noRequirements\<lparr>timeoutMs := Some 5\<rparr>, noRequirements\<lparr>timeoutMs := Some 3\<rparr>]))
     = Some 3"
proof -
  let ?rs = "[noRequirements\<lparr>timeoutMs := Some 5\<rparr>, noRequirements\<lparr>timeoutMs := Some 3\<rparr>]"
  have m: "mergeRequirements ?rs = Some (noRequirements\<lparr>timeoutMs := Some 3\<rparr>)"
    by code_simp
  show ?thesis
    using mergeRequirements_strictest [OF m] m by (simp add: noRequirements_def)
qed

text \<open>The merge fails exactly when two different isolation levels above \<open>PROCESS_RESTRICTED\<close> are
  required.\<close>

theorem mergeRequirements_conflict:
  "mergeRequirements rs = None \<longleftrightarrow>
     (\<exists>a \<in> levels rs. \<exists>b \<in> levels rs. a \<noteq> b \<and> a \<noteq> PROCESS_RESTRICTED \<and> b \<noteq> PROCESS_RESTRICTED)"
  unfolding mergeRequirements_None compatibleLevels_def by blast

text \<open>A snapshot created from a compiled set is accepted by the evaluator for every valid input that
  refers to it: the decision is the one the rules of that set give.\<close>

theorem evaluatePolicy_created_snapshot:
  assumes "compilePolicySet sha v = Inr (p, source_text, hash)" "unknown_wf v"
    "createPolicySnapshot sha p meta = Inr snapshot"
    "matches hex64 hash" "wellFormedUnicode None (m_createdAt meta)"
    "policyOk (JObj inp)" "validateInput (JObj inp)"
    "getKey inp ''policySnapshotId'' = Some (JStr (m_snapshotId meta))"
  shows "\<exists>snap. snapshot = JObj snap \<and>
    evaluatePolicy sha (of_json snapshot) (of_json (JObj inp)) =
      decideValid snap inp (typedInput inp) p (sha (canon (JObj inp)))"
proof -
  note s = compilePolicySet_sound [OF assms(1,2)]
  then have "matches hex64 (sha (canon (policySetJson p)))" using assms(4) by simp
  from createPolicySnapshot_request [OF s(1) assms(3) this assms(5-8)]
  show ?thesis using evaluatePolicy_valid by blast
qed

theorem evaluatePolicy_created_snapshot_witness:
  "\<exists>snap. JObj (exampleSnap ALLOW) = JObj snap \<and>
    evaluatePolicy zeroHash (of_json (JObj (exampleSnap ALLOW))) (of_json (JObj (exampleInput False))) =
      decideValid snap (exampleInput False) (typedInput (exampleInput False)) (examplePolicy ALLOW)
        (zeroHash (canon (JObj (exampleInput False))))"
  by (rule evaluatePolicy_created_snapshot [OF compilePolicySet_complete [OF examplePolicy_ok] _
        exampleSnap_eq _ exampleMeta_ok exampleInput_ok exampleInput_id])
    (use dataOk_policySet [OF examplePolicy_ok] in
      \<open>simp_all add: unknown_wf_of_json zeroHash_def fallback_ok\<close>)

text \<open>Tampering is detected: an accepted snapshot carries a policy set whose compiled form hashes to
  the snapshot's \<open>policyHash\<close>, and its id, version and the snapshot's id are those the
  input and the compiled set state.\<close>

theorem evaluatePolicy_accepts_matching_hash:
  assumes "validRequest sha snapshotValue inputValue snap inp p" "unknown_wf snapshotValue"
  shows "getKey snap ''policyHash'' = Some (JStr (sha (canon (policySetJson p)))) \<and>
    getKey snap ''policySetId'' = Some (JStr (policySetId p)) \<and>
    getKey snap ''policyVersion'' = Some (JStr (policyVersion p)) \<and>
    getKey snap ''snapshotId'' = getKey inp ''policySnapshotId'' \<and> policySetOk p"
proof -
  obtain j tx h where j: "getKey snap ''compiledPolicySet'' = Some j"
    "compilePolicySet sha (of_json j) = Inr (p, tx, h)"
    "validateSnapshot (JObj snap) (typedInput inp) p h" and snap: "snapshotValue = of_json (JObj snap)"
    using assms(1) unfolding validRequest_def by blast
  have "json_wf (JObj snap)"
    using assms(2) unfolding snap unknown_wf_of_json .
  then have "unknown_wf (of_json j)"
    using map_of_SomeD [OF j(1)] by (auto simp: unknown_wf_of_json)
  note s = compilePolicySet_sound [OF j(2) this]
  have "matchesField uuidV7 (getKey inp ''policySnapshotId'')"
    using assms(1) by (simp add: validRequest_def validateInput_def)
  then show ?thesis
    using j(3) s by (auto simp: validateSnapshot_def typedInput_def strField_def matchesField_def
        split: option.splits json.splits)
qed

theorem evaluatePolicy_accepts_matching_hash_witness:
  "getKey (exampleSnap ALLOW) ''policyHash'' = Some (JStr (replicate 64 48))"
proof -
  have "json_wf (JObj (exampleSnap ALLOW))"
    using createPolicySnapshot_wf [OF exampleSnap_eq examplePolicy_ok] .
  then have "unknown_wf (of_json (JObj (exampleSnap ALLOW)))"
    by (simp only: unknown_wf_of_json)
  from evaluatePolicy_accepts_matching_hash [OF example_request [of ALLOW True] this]
  show ?thesis by (simp add: zeroHash_def)
qed

end
