(* ===== verification/Js_Number.thy ===== *)
theory Js_Number
  imports Regex Canonical_Json
begin

text \<open>
  \<open>Number(text)\<close> of a decimal literal: the value is rounded to a double (IEEE 754, ties to even), and a double is
  kept as the shortest decimal that rounds to it, as the language prints it.
\<close>

section \<open>Rounding to doubles\<close>

fun bitLength :: "nat \<Rightarrow> nat" where
  "bitLength n = (if n = 0 then 0 else Suc (bitLength (n div 2)))"

declare bitLength.simps [simp del]

definition roundHalfEven :: "nat \<Rightarrow> nat \<Rightarrow> nat" where
  "roundHalfEven a b =
     (let q = a div b; r = a mod b in if 2 * r > b \<or> 2 * r = b \<and> odd q then q + 1 else q)"

text \<open>A ratio divided by a power of two, and the ratio that a decimal is.\<close>

definition scaleDown :: "nat \<times> nat \<Rightarrow> int \<Rightarrow> nat \<times> nat" where
  "scaleDown ab q = (case ab of (a, b) \<Rightarrow> if 0 \<le> q then (a, b * 2 ^ nat q) else (a * 2 ^ nat (- q), b))"

definition ratioOf :: "nat \<Rightarrow> int \<Rightarrow> nat \<times> nat" where
  "ratioOf m e = (m * 10 ^ nat e, 10 ^ nat (- e))"

text \<open>
  A positive double \<open>r * 2 ^ q\<close>, with 53 bits of \<open>r\<close> unless \<open>q\<close> is the least exponent; \<open>None\<close> is infinity.
\<close>

definition toDouble :: "nat \<times> nat \<Rightarrow> (nat \<times> int) option" where
  "toDouble ab =
     (case ab of (a, b) \<Rightarrow>
        let l = int (bitLength a) - int (bitLength b);
            k = (case scaleDown (a, b) l of (x, y) \<Rightarrow> if y \<le> x then l + 1 else l);
            q = max (- 1074) (k - 53);
            r = (case scaleDown (a, b) q of (x, y) \<Rightarrow> roundHalfEven x y);
            d = (if r = 2 ^ 53 then (2 ^ 52, q + 1) else (r, q))
        in if 971 < snd d then None else Some d)"

section \<open>The shortest decimal\<close>

definition doubleRatio :: "nat \<times> int \<Rightarrow> nat \<times> nat" where
  "doubleRatio d = (case d of (r, q) \<Rightarrow> (r * 2 ^ nat q, 2 ^ nat (- q)))"

text \<open>The decimals with the exponent \<open>t\<close> next to a double that round to it, the closest first.\<close>

definition candidates :: "nat \<times> int \<Rightarrow> int \<Rightarrow> nat list" where
  "candidates d t =
     (case doubleRatio d of (a, b) \<Rightarrow>
        (case (if 0 \<le> t then (a, b * 10 ^ nat t) else (a * 10 ^ nat (- t), b)) of (x, y) \<Rightarrow>
          let c = x div y in
          filter (\<lambda>m. toDouble (ratioOf m t) = Some d)
            (if 2 * (x mod y) < y \<or> 2 * (x mod y) = y \<and> even c then [c, c + 1] else [c + 1, c])))"

text \<open>The exponents are tried downwards from one that is too large; 17 digits always do.\<close>

fun shortestFrom :: "nat \<Rightarrow> nat \<times> int \<Rightarrow> int \<Rightarrow> nat \<times> int" where
  "shortestFrom 0 d t = (0, 0)"
| "shortestFrom (Suc n) d t = (case candidates d t of [] \<Rightarrow> shortestFrom n d (t - 1) | m # _ \<Rightarrow> (m, t))"

definition decimalLength :: "nat \<Rightarrow> int" where
  "decimalLength n = int (length (digits10 n))"

definition shortest :: "nat \<times> int \<Rightarrow> nat \<times> int" where
  "shortest d = (case doubleRatio d of (a, b) \<Rightarrow> shortestFrom 20 d (decimalLength a - decimalLength b + 1))"

text \<open>The double nearest to a decimal, as the decimal the language prints.\<close>

definition toNumber :: "jsnum \<Rightarrow> jsnum option" where
  "toNumber x =
     (case x of Dec m e \<Rightarrow>
        (case toDouble (ratioOf (nat \<bar>m\<bar>) e) of
           None \<Rightarrow> None
         | Some d \<Rightarrow> if fst d = 0 then Some (Dec 0 0)
             else (case shortest d of (n, t) \<Rightarrow> Some (normDec (sgn m * int n) t))))"

section \<open>Decimal literals\<close>

text \<open>\<open>/^-?(?:0|[1-9][0-9]*)(?:\.[0-9]+)?(?:[eE][+-]?[0-9]+)?$/u\<close>\<close>

definition numberRx :: rx where
  "numberRx = seqs [opt (lit ''-''), Alt (lit ''0'') (Seq (Cls [rng CHR ''1'' CHR ''9'']) (Star digitCls)),
     opt (Seq (lit ''.'') (many1 digitCls)),
     opt (seqs [Alt (lit ''e'') (lit ''E''), opt (Alt (lit ''+'') (lit ''-'')), many1 digitCls])]"

text \<open>The exponent with a small e and a sign, as \<open>decodeNum\<close> reads it.\<close>

fun signedExponent :: "jstring \<Rightarrow> jstring" where
  "signedExponent [] = []"
| "signedExponent (c # s) =
     (if c = 101 \<or> c = 69
      then 101 # (case s of d # _ \<Rightarrow> if d = 43 \<or> d = 45 then s else 43 # s | [] \<Rightarrow> s)
      else c # signedExponent s)"

definition numberOfLiteral :: "jstring \<Rightarrow> jsnum option" where
  "numberOfLiteral s = toNumber (decodeNum (signedExponent s))"

end
