(* ===== verification/Json_Text.thy ===== *)
theory Json_Text
  imports Canonical_Json
begin

text \<open>
  \<open>JSON.stringify\<close> of plain data, with the keys of an object in their own order, and the length of a text in
  UTF-8, as \<open>Buffer.byteLength\<close> counts it.
\<close>

section \<open>The text of a value\<close>

fun stringify :: "json \<Rightarrow> jstring" where
  "stringify JNull = js ''null''"
| "stringify (JBool b) = (if b then js ''true'' else js ''false'')"
| "stringify (JNum n) = numToString n"
| "stringify (JStr s) = quoteString s"
| "stringify (JArr xs) = 91 # joinWith [44] (map stringify xs) @ [93]"
| "stringify (JObj kvs) = 123 # joinWith [44] (map (\<lambda>(k, v). quoteString k @ [58] @ stringify v) kvs) @ [125]"

fun byteLength :: "jstring \<Rightarrow> nat" where
  "byteLength [] = 0"
| "byteLength [c] = (if c < 0x80 then 1 else if c < 0x800 then 2 else 3)"
| "byteLength (c # d # s) =
     (if isHigh c \<and> isLow d then 4 + byteLength s
      else (if c < 0x80 then 1 else if c < 0x800 then 2 else 3) + byteLength (d # s))"

section \<open>The text read back\<close>

definition readsBack :: "json \<Rightarrow> bool" where
  "readsBack j \<longleftrightarrow> (\<forall>n r. length (stringify j) \<le> n \<longrightarrow> (r = [] \<or> \<not> isNumChar (hd r)) \<longrightarrow>
     parseValue n (stringify j @ r) = Some (j, r))"

lemma stringify_nonempty [simp]: "stringify j \<noteq> []"
  using numToString_first by (cases j) (auto simp: quoteString_def)

lemma readsBack_elems:
  assumes "\<And>x. x \<in> set xs \<Longrightarrow> readsBack x" "xs \<noteq> []" "length (joinWith [44] (map stringify xs)) < n"
  shows "parseElems n (joinWith [44] (map stringify xs) @ 93 # r) = Some (xs, r)"
  using assms
proof (induction xs arbitrary: n)
  case (Cons x xs)
  obtain n' where n: "n = Suc n'" using Cons.prems(3) by (cases n) auto
  have x: "readsBack x" using Cons.prems(1) by simp
  show ?case
  proof (cases xs)
    case Nil
    with x n Cons.prems(3) show ?thesis by (simp add: readsBack_def isNumChar_def isDigit_def)
  next
    case (Cons y ys)
    have "parseElems n' (joinWith [44] (map stringify xs) @ 93 # r) = Some (xs, r)"
      by (rule Cons.IH) (use Cons.prems Cons n in auto)
    moreover have "parseValue n' (stringify x @ 44 # joinWith [44] (map stringify xs) @ 93 # r) =
        Some (x, 44 # joinWith [44] (map stringify xs) @ 93 # r)"
      using x Cons.prems(3) n Cons by (simp add: readsBack_def isNumChar_def isDigit_def)
    ultimately show ?thesis using Cons n by simp
  qed
qed simp

definition entryText :: "jstring \<times> json \<Rightarrow> jstring" where
  "entryText kv = (case kv of (k, v) \<Rightarrow> quoteString k @ 58 # stringify v)"

lemma stringify_entries: "stringify (JObj kvs) = 123 # joinWith [44] (map entryText kvs) @ [125]"
  by (simp add: entryText_def [abs_def])

lemma readsBack_members:
  assumes "\<And>k v. (k, v) \<in> set kvs \<Longrightarrow> readsBack v" "kvs \<noteq> []" "length (joinWith [44] (map entryText kvs)) < n"
  shows "parseMembers n (joinWith [44] (map entryText kvs) @ 125 # r) = Some (kvs, r)"
  using assms
proof (induction kvs arbitrary: n)
  case (Cons kv kvs)
  obtain n' where n: "n = Suc n'" using Cons.prems(3) by (cases n) auto
  obtain k x where kv: "kv = (k, x)" by (cases kv)
  have x: "readsBack x" using Cons.prems(1) kv by auto
  show ?case
  proof (cases kvs)
    case Nil
    with x n kv Cons.prems(3) show ?thesis
      by (simp add: readsBack_def isNumChar_def isDigit_def entryText_def quoteString_def unquote_quoteUnits)
  next
    case (Cons y ys)
    have "parseMembers n' (joinWith [44] (map entryText kvs) @ 125 # r) = Some (kvs, r)"
      by (rule Cons.IH) (use Cons.prems Cons n in auto)
    moreover have "parseValue n' (stringify x @ 44 # joinWith [44] (map entryText kvs) @ 125 # r) =
        Some (x, 44 # joinWith [44] (map entryText kvs) @ 125 # r)"
      using x Cons.prems(3) n Cons kv by (simp add: readsBack_def isNumChar_def isDigit_def entryText_def)
    ultimately show ?thesis using Cons n kv
      by (simp add: entryText_def [of "(k, x)"] quoteString_def unquote_quoteUnits)
  qed
qed simp

lemma readsBackI:
  assumes "\<And>n r. length (stringify j) \<le> Suc n \<Longrightarrow> r = [] \<or> \<not> isNumChar (hd r) \<Longrightarrow>
    parseValue (Suc n) (stringify j @ r) = Some (j, r)"
  shows "readsBack j"
  unfolding readsBack_def
proof (intro allI impI)
  fix n and r :: jstring
  assume "length (stringify j) \<le> n" and r: "r = [] \<or> \<not> isNumChar (hd r)"
  then obtain n' where "n = Suc n'" by (cases n) auto
  with assms [of n' r] r \<open>length (stringify j) \<le> n\<close> show "parseValue n (stringify j @ r) = Some (j, r)" by simp
qed

lemma stringify_first: "hd (stringify j) \<noteq> 93"
proof (cases j)
  case (JNum x)
  then show ?thesis using numToString_first [of x] by (auto simp: isDigit_def)
qed (auto simp: quoteString_def js_def)

lemma readsBack_json: "json_wf j \<Longrightarrow> readsBack j"
proof (induction j rule: json_wf.induct)
  case (3 x)
  then show ?case using parses_number [of x] by (simp add: parses_def readsBack_def)
next
  case (4 s)
  show ?case by (rule readsBackI) (simp add: quoteString_def unquote_quoteUnits)
next
  case (5 xs)
  show ?case
  proof (cases xs)
    case Nil
    then show ?thesis by (auto intro: readsBackI)
  next
    case (Cons y ys)
    have "hd (joinWith [44] (map stringify xs)) = hd (stringify y)" "joinWith [44] (map stringify xs) \<noteq> []"
      using Cons by (simp_all add: joinWith_def hd_append)
    then obtain c t where c: "joinWith [44] (map stringify xs) = c # t" "c \<noteq> 93"
      using stringify_first [of y] by (cases "joinWith [44] (map stringify xs)") auto
    show ?thesis
    proof (rule readsBackI)
      fix n and r :: jstring
      assume "length (stringify (JArr xs)) \<le> Suc n"
      then have "parseElems n (joinWith [44] (map stringify xs) @ 93 # r) = Some (xs, r)"
        using 5 Cons by (intro readsBack_elems) auto
      then show "parseValue (Suc n) (stringify (JArr xs) @ r) = Some (JArr xs, r)"
        using c by (simp add: parseValue_array del: parseValue.simps)
    qed
  qed
next
  case (6 kvs)
  have vals: "readsBack v" if "(k, v) \<in> set kvs" for k v using 6 that by fastforce
  show ?case
  proof (cases kvs)
    case Nil
    then show ?thesis by (auto intro: readsBackI)
  next
    case (Cons kv kvs')
    define t where "t = joinWith [44] (map entryText kvs)"
    have "hd t = 34" "t \<noteq> []"
      using Cons by (auto simp: joinWith_def hd_append t_def entryText_def quoteString_def split: prod.splits)
    then obtain t' where c: "t = 34 # t'" by (cases t) auto
    show ?thesis
    proof (rule readsBackI)
      fix n and r :: jstring
      assume "length (stringify (JObj kvs)) \<le> Suc n"
      then have "length t < n" by (simp add: stringify_entries t_def del: stringify.simps)
      then have "parseMembers n (t @ 125 # r) = Some (kvs, r)"
        unfolding t_def using vals Cons by (intro readsBack_members) auto
      then show "parseValue (Suc n) (stringify (JObj kvs) @ r) = Some (JObj kvs, r)"
        using c unfolding stringify_entries t_def [symmetric]
        by (simp add: parseValue_object del: parseValue.simps)
    qed
  qed
qed (auto intro!: readsBackI simp: js_def)

lemma parse_stringify: "json_wf j \<Longrightarrow> parseCanonical (stringify j) = Some j"
  using readsBack_json [of j] unfolding readsBack_def parseCanonical_def
  by (metis (mono_tags, lifting) append_Nil2 case_prod_conv option.simps(5) order_refl)

end
