(* ===== verification/Policy_Yaml.thy ===== *)
theory Policy_Yaml
  imports Js_Number Policy_Compile Json_Text
begin

text \<open>
  \<open>packages/policy/src/index.ts\<close>, lines 124-130 and 710-937: the restricted YAML in which policy sets are written,
  a subset of block style with JSON scalars. The lines that remain stand for the array of lines and an index into
  it, and the count of nodes is passed along.
\<close>

section \<open>Lines and limits\<close>

record yamlLine =
  yl_indent :: nat
  yl_content :: jstring
  yl_line :: nat

record restrictedYamlLimits =
  ym_maxBytes :: int
  ym_maxLines :: int
  ym_maxDepth :: int
  ym_maxNodes :: int
  ym_maxScalarLength :: int

text \<open>The limits as they are given; what is not given has its default.\<close>

record configuredYamlLimits =
  yc_maxBytes :: "int option"
  yc_maxLines :: "int option"
  yc_maxDepth :: "int option"
  yc_maxNodes :: "int option"
  yc_maxScalarLength :: "int option"

definition orDefault :: "int option \<Rightarrow> int \<Rightarrow> int" where
  "orDefault given d = (case given of None \<Rightarrow> d | Some n \<Rightarrow> n)"

definition yamlLimits :: "configuredYamlLimits \<Rightarrow> restrictedYamlLimits" where
  "yamlLimits c = \<lparr>ym_maxBytes = orDefault (yc_maxBytes c) 1048576, ym_maxLines = orDefault (yc_maxLines c) 20000,
     ym_maxDepth = orDefault (yc_maxDepth c) 32, ym_maxNodes = orDefault (yc_maxNodes c) 100000,
     ym_maxScalarLength = orDefault (yc_maxScalarLength c) 65536\<rparr>"

definition yamlFailure :: "policyCode \<Rightarrow> nat \<Rightarrow> string \<Rightarrow> thrown + 'a" where
  "yamlFailure code line message = Inl (PolicyFailure code (js ''$/line/'' @ natStr line) (js message))"

text \<open>\<open>lines[index]?.line ?? 1\<close>\<close>

definition lineNumber :: "yamlLine list \<Rightarrow> nat" where
  "lineNumber lines = (case lines of [] \<Rightarrow> 1 | l # _ \<Rightarrow> yl_line l)"

section \<open>Scalars and keys\<close>

definition parseScalar :: "jstring \<Rightarrow> nat \<Rightarrow> int \<Rightarrow> thrown + json" where
  "parseScalar source line maxScalarLength =
     (if int (length source) > maxScalarLength then yamlFailure YAML_LIMIT_EXCEEDED line ''Scalar too long''
      else if source = js ''true'' then Inr (JBool True)
      else if source = js ''false'' then Inr (JBool False)
      else if source = js ''null'' then Inr JNull
      else if matches numberRx source
      then (case numberOfLiteral source of
              None \<Rightarrow> yamlFailure INVALID_YAML line ''Non-finite number''
            | Some n \<Rightarrow> Inr (JNum n))
      else if startsWith source [34] \<and> endsWith source [34]
      then (case unquote (tl source) of
              Some (s, []) \<Rightarrow> Inr (JStr s)
            | _ \<Rightarrow> yamlFailure INVALID_YAML line ''Invalid JSON string scalar'')
      else yamlFailure INVALID_YAML line ''Only JSON double-quoted strings and JSON scalars are allowed'')"

text \<open>\<open>/^[A-Za-z][A-Za-z0-9_-]*$/u\<close>\<close>

definition isKeyStart :: "16 word \<Rightarrow> bool" where
  "isKeyStart c = inCls [rng CHR ''A'' CHR ''Z'', rng CHR ''a'' CHR ''z''] c"

definition isKeyUnit :: "16 word \<Rightarrow> bool" where
  "isKeyUnit c = (isKeyStart c \<or> isDigit c \<or> c = 95 \<or> c = 45)"

definition yamlKey :: "jstring \<Rightarrow> bool" where
  "yamlKey s = (case s of [] \<Rightarrow> False | c # r \<Rightarrow> isKeyStart c \<and> list_all isKeyUnit r)"

text \<open>\<open>/^[A-Za-z][A-Za-z0-9_-]*:/u\<close>\<close>

definition startsWithKey :: "jstring \<Rightarrow> bool" where
  "startsWithKey s = (yamlKey (takeWhile isKeyUnit s) \<and> startsWith (dropWhile isKeyUnit s) [58])"

definition splitMapping :: "jstring \<Rightarrow> nat \<Rightarrow> thrown + jstring \<times> jstring" where
  "splitMapping content line =
     (let key = takeWhile (\<lambda>c. c \<noteq> 58) content; rest = drop (length key + 1) content in
      if 58 \<notin> set content \<or> key = [] then yamlFailure INVALID_YAML line ''Expected mapping entry''
      else if \<not> yamlKey key \<or> key \<in> set protectedKeys then yamlFailure INVALID_YAML line ''Unsafe mapping key''
      else if rest \<noteq> [] \<and> \<not> startsWith rest [32]
      then yamlFailure INVALID_YAML line ''Mapping values require one separating space''
      else Inr (key, dropWhile isWhite rest))"

section \<open>Nodes\<close>

text \<open>A value, the lines after it, and the count of nodes; \<open>None\<close> is fuel that ran out.\<close>

type_synonym 'a yamlResult = "(thrown + 'a \<times> yamlLine list \<times> nat) option"

definition bindY :: "'a yamlResult \<Rightarrow> ('a \<Rightarrow> yamlLine list \<Rightarrow> nat \<Rightarrow> 'b yamlResult) \<Rightarrow> 'b yamlResult" where
  "bindY m f = (case m of None \<Rightarrow> None | Some (Inl e) \<Rightarrow> Some (Inl e) | Some (Inr (x, ls, n)) \<Rightarrow> f x ls n)"

definition liftY :: "yamlLine list \<Rightarrow> nat \<Rightarrow> (thrown + 'a) \<Rightarrow> 'a yamlResult" where
  "liftY ls n m = Some (case m of Inl e \<Rightarrow> Inl e | Inr x \<Rightarrow> Inr (x, ls, n))"

text \<open>Whether the next line is the first of a child with this indentation, or the next key of a mapping in a sequence.\<close>

definition childAt :: "nat \<Rightarrow> yamlLine list \<Rightarrow> bool" where
  "childAt indent ls = (case ls of [] \<Rightarrow> False | l # _ \<Rightarrow> yl_indent l = indent)"

definition keyAt :: "nat \<Rightarrow> yamlLine list \<Rightarrow> bool" where
  "keyAt indent ls = (case ls of [] \<Rightarrow> False | l # _ \<Rightarrow> yl_indent l = indent \<and> \<not> startsWith (yl_content l) (js ''-''))"

definition itemAt :: "nat \<Rightarrow> yamlLine list \<Rightarrow> bool" where
  "itemAt indent ls = (case ls of [] \<Rightarrow> False | l # _ \<Rightarrow> yl_indent l = indent \<and> startsWith (yl_content l) (js ''-''))"

text \<open>The members of \<open>tail\<close>, added to an object one by one.\<close>

definition mergeTail :: "jobject \<Rightarrow> nat \<Rightarrow> json \<Rightarrow> thrown + json" where
  "mergeTail obj line tail =
     (case tail of
        JObj kvs \<Rightarrow>
          if list_ex (\<lambda>(k, v). map_of obj k \<noteq> None) kvs then yamlFailure INVALID_YAML line ''Duplicate mapping key''
          else Inr (JObj (obj @ kvs))
      | _ \<Rightarrow> yamlFailure INVALID_YAML line ''Invalid sequence mapping'')"

text \<open>
  The function, and its two loops with what they have built so far. The steps take the function itself as the
  argument \<open>self\<close>; \<open>parseYaml\<close> ties the knot, with fuel.
\<close>

datatype yamlMode = NodeMode | SequenceMode "json list" | MappingMode jobject

type_synonym yamlParser = "yamlMode \<Rightarrow> yamlLine list \<Rightarrow> nat \<Rightarrow> nat \<Rightarrow> nat \<Rightarrow> json yamlResult"

definition parseYamlNode :: "yamlParser \<Rightarrow> restrictedYamlLimits \<Rightarrow> yamlLine list \<Rightarrow> nat \<Rightarrow> nat \<Rightarrow> nat \<Rightarrow> json yamlResult" where
  "parseYamlNode self limits ls indent depth nodes =
     (if int depth > ym_maxDepth limits then Some (yamlFailure YAML_LIMIT_EXCEEDED (lineNumber ls) ''Depth limit'')
      else if \<not> childAt indent ls then Some (yamlFailure INVALID_YAML (lineNumber ls) ''Invalid indentation'')
      else self (if itemAt indent ls then SequenceMode [] else MappingMode []) ls indent depth nodes)"

text \<open>The value of a key: a scalar on its line, or a child that is indented further.\<close>

definition mappingValue ::
    "yamlParser \<Rightarrow> restrictedYamlLimits \<Rightarrow> yamlLine \<Rightarrow> jstring \<Rightarrow> yamlLine list \<Rightarrow> nat \<Rightarrow> nat \<Rightarrow> nat \<Rightarrow> json yamlResult" where
  "mappingValue self limits l scalarText rest indent depth nodes =
     (if scalarText \<noteq> [] then liftY rest nodes (parseScalar scalarText (yl_line l) (ym_maxScalarLength limits))
      else if \<not> childAt indent rest then Some (yamlFailure INVALID_YAML (yl_line l) ''Missing mapping child'')
      else self NodeMode rest indent depth nodes)"

text \<open>An item of a sequence that starts with a key: the keys that follow belong to the same object.\<close>

definition sequenceMapping ::
    "yamlParser \<Rightarrow> restrictedYamlLimits \<Rightarrow> yamlLine \<Rightarrow> jstring \<Rightarrow> yamlLine list \<Rightarrow> nat \<Rightarrow> nat \<Rightarrow> nat \<Rightarrow> json yamlResult" where
  "sequenceMapping self limits l source rest indent depth nodes =
     bindY (liftY rest nodes (splitMapping source (yl_line l))) (\<lambda>(key, scalarText) _ _.
       bindY (mappingValue self limits l scalarText rest (indent + 4) (depth + 2) nodes) (\<lambda>v ls' nodes'.
         if keyAt (indent + 2) ls'
         then bindY (self NodeMode ls' (indent + 2) (depth + 1) nodes') (\<lambda>tail ls'' nodes''.
           liftY ls'' nodes'' (mergeTail [(key, v)] (yl_line l) tail))
         else Some (Inr (JObj [(key, v)], ls', nodes'))))"

definition sequenceItem ::
    "yamlParser \<Rightarrow> restrictedYamlLimits \<Rightarrow> yamlLine \<Rightarrow> yamlLine list \<Rightarrow> nat \<Rightarrow> nat \<Rightarrow> nat \<Rightarrow> json yamlResult" where
  "sequenceItem self limits l rest indent depth nodes =
     (let source = (if yl_content l = js ''-'' then [] else drop 2 (yl_content l)) in
      if source = [] then
        (if \<not> childAt (indent + 2) rest then Some (yamlFailure INVALID_YAML (yl_line l) ''Missing sequence child'')
         else self NodeMode rest (indent + 2) (depth + 1) nodes)
      else if startsWithKey source then sequenceMapping self limits l source rest indent depth nodes
      else liftY rest nodes (parseScalar source (yl_line l) (ym_maxScalarLength limits)))"

definition parseSequence ::
    "yamlParser \<Rightarrow> restrictedYamlLimits \<Rightarrow> json list \<Rightarrow> yamlLine list \<Rightarrow> nat \<Rightarrow> nat \<Rightarrow> nat \<Rightarrow> json yamlResult" where
  "parseSequence self limits values ls indent depth nodes =
     (if \<not> itemAt indent ls then Some (Inr (JArr values, ls, nodes))
      else
        let l = hd ls in
        if yl_content l \<noteq> js ''-'' \<and> \<not> startsWith (yl_content l) (js ''- '')
        then Some (yamlFailure INVALID_YAML (yl_line l) ''Sequence marker requires a space'')
        else if int (nodes + 1) > ym_maxNodes limits then Some (yamlFailure YAML_LIMIT_EXCEEDED (yl_line l) ''Node limit'')
        else bindY (sequenceItem self limits l (tl ls) indent depth (nodes + 1)) (\<lambda>v ls' nodes'.
          self (SequenceMode (values @ [v])) ls' indent depth nodes'))"

definition parseMapping ::
    "yamlParser \<Rightarrow> restrictedYamlLimits \<Rightarrow> jobject \<Rightarrow> yamlLine list \<Rightarrow> nat \<Rightarrow> nat \<Rightarrow> nat \<Rightarrow> json yamlResult" where
  "parseMapping self limits obj ls indent depth nodes =
     (if \<not> keyAt indent ls then Some (Inr (JObj obj, ls, nodes))
      else
        let l = hd ls in
        if int (nodes + 1) > ym_maxNodes limits then Some (yamlFailure YAML_LIMIT_EXCEEDED (yl_line l) ''Node limit'')
        else bindY (liftY (tl ls) nodes (splitMapping (yl_content l) (yl_line l))) (\<lambda>(key, scalarText) _ _.
          if map_of obj key \<noteq> None then Some (yamlFailure INVALID_YAML (yl_line l) ''Duplicate mapping key'')
          else bindY (mappingValue self limits l scalarText (tl ls) (indent + 2) (depth + 1) (nodes + 1)) (\<lambda>v ls' nodes'.
            self (MappingMode (obj @ [(key, v)])) ls' indent depth nodes')))"

primrec parseYaml :: "nat \<Rightarrow> restrictedYamlLimits \<Rightarrow> yamlParser" where
  "parseYaml 0 limits = (\<lambda>mode ls indent depth nodes. None)"
| "parseYaml (Suc n) limits = (\<lambda>mode ls indent depth nodes.
     case mode of
       NodeMode \<Rightarrow> parseYamlNode (parseYaml n limits) limits ls indent depth nodes
     | SequenceMode values \<Rightarrow> parseSequence (parseYaml n limits) limits values ls indent depth nodes
     | MappingMode obj \<Rightarrow> parseMapping (parseYaml n limits) limits obj ls indent depth nodes)"

section \<open>Documents\<close>

text \<open>\<open>/:\s*[|>]/u\<close>, anywhere in a text.\<close>

fun blockScalar :: "jstring \<Rightarrow> bool" where
  "blockScalar [] = False"
| "blockScalar (c # s) =
     (c = 58 \<and> (case dropWhile isWhite s of [] \<Rightarrow> False | d # _ \<Rightarrow> d = 124 \<or> d = 62) \<or> blockScalar s)"

definition unsupportedYaml :: "jstring \<Rightarrow> bool" where
  "unsupportedYaml content =
     (list_ex (\<lambda>p. startsWith content (js p)) [''---'', ''...'', ''%'', ''!'', ''&'', ''*'', ''<<:''] \<or>
      list_ex (\<lambda>p. includesStr content (js p)) [''${'', ''{{''] \<or>
      list_ex (\<lambda>c. c \<in> set content) [39, 91, 123] \<or> blockScalar content)"

text \<open>A line of the document; \<open>None\<close> is a line that is blank or a comment.\<close>

definition readYamlLine :: "nat \<Rightarrow> jstring \<Rightarrow> thrown + yamlLine option" where
  "readYamlLine line raw =
     (let content = dropWhile isWhite raw; indent = length raw - length content in
      if content = [] \<or> startsWith content [35] then Inr None
      else if 9 \<in> set raw then yamlFailure INVALID_YAML line ''Tabs are forbidden''
      else if indent mod 2 \<noteq> 0 then yamlFailure INVALID_YAML line ''Indentation must use two spaces''
      else if unsupportedYaml content then yamlFailure INVALID_YAML line ''Unsupported YAML feature''
      else Inr (Some \<lparr>yl_indent = indent, yl_content = content, yl_line = line\<rparr>))"

fun readYamlLines :: "nat \<Rightarrow> jstring list \<Rightarrow> thrown + yamlLine list" where
  "readYamlLines line [] = Inr []"
| "readYamlLines line (raw # raws) =
     bindE (readYamlLine line raw) (\<lambda>l. bindE (readYamlLines (line + 1) raws) (\<lambda>ls.
       Inr (case l of None \<Rightarrow> ls | Some x \<Rightarrow> x # ls)))"

text \<open>The parse of the lines, with enough fuel.\<close>

definition yamlFuel :: "yamlLine list \<Rightarrow> nat" where
  "yamlFuel ls = 2 * length ls + 2"

definition parseRestrictedPolicyYaml :: "jstring \<Rightarrow> configuredYamlLimits \<Rightarrow> (thrown + json) option" where
  "parseRestrictedPolicyYaml source configured =
     (let limits = yamlLimits configured; withoutCrLf = replaceCrLf [] source;
          rawLines = splitOn 10 (replaceCrLf [10] source) in
      if int (byteLength source) > ym_maxBytes limits then Some (yamlFailure YAML_LIMIT_EXCEEDED 1 ''Byte limit'')
      else if 13 \<in> set withoutCrLf \<or> includesStr source [13, 10] \<and> 10 \<in> set withoutCrLf
      then Some (yamlFailure INVALID_YAML 1 ''Mixed or lone carriage return'')
      else if int (length rawLines) > ym_maxLines limits then Some (yamlFailure YAML_LIMIT_EXCEEDED 1 ''Line limit'')
      else
        (case readYamlLines 1 rawLines of
           Inl e \<Rightarrow> Some (Inl e)
         | Inr ls \<Rightarrow>
             if \<not> childAt 0 ls then Some (yamlFailure INVALID_YAML 1 ''Empty or indented root'')
             else
               (case parseYaml (yamlFuel ls) limits NodeMode ls 0 0 0 of
                  None \<Rightarrow> None
                | Some (Inl e) \<Rightarrow> Some (Inl e)
                | Some (Inr (value, rest, _)) \<Rightarrow>
                    if rest \<noteq> [] then Some (yamlFailure INVALID_YAML (lineNumber rest) ''Trailing or inconsistent content'')
                    else Some (assertPolicyJson (of_json value) (js ''$'')))))"

definition compileRestrictedPolicyYaml :: "(jstring \<Rightarrow> jstring) \<Rightarrow> jstring \<Rightarrow> configuredYamlLimits \<Rightarrow> compilePolicyResult option" where
  "compileRestrictedPolicyYaml sha source configured =
     (case parseRestrictedPolicyYaml source configured of
        None \<Rightarrow> None
      | Some (Inl failure) \<Rightarrow> Some (Inl [toDiagnostic INVALID_YAML failure])
      | Some (Inr value) \<Rightarrow> Some (compilePolicySet sha (of_json value)))"

section \<open>The parser ends\<close>

lemma childAt_iff: "childAt i ls \<longleftrightarrow> itemAt i ls \<or> keyAt i ls"
  by (auto simp: childAt_def itemAt_def keyAt_def split: list.splits)

lemma not_itemAt_keyAt: "itemAt i ls \<Longrightarrow> \<not> keyAt i ls"
  by (auto simp: itemAt_def keyAt_def split: list.splits)

lemma at_Cons: "itemAt i ls \<Longrightarrow> ls = hd ls # tl ls" "keyAt i ls \<Longrightarrow> ls = hd ls # tl ls"
  by (cases ls; simp add: itemAt_def keyAt_def)+

lemma bindY_Some_Inr:
  "bindY m f = Some (Inr r) \<longleftrightarrow> (\<exists>x ls n. m = Some (Inr (x, ls, n)) \<and> f x ls n = Some (Inr r))"
  by (auto simp: bindY_def split: option.splits sum.splits)

lemma bindY_simps [simp]:
  "bindY None f = None" "bindY (Some (Inl e)) f = Some (Inl e)" "bindY (Some (Inr (x, ls, n))) f = f x ls n"
  by (simp_all add: bindY_def)

lemma bindY_None: "bindY m f = None \<longleftrightarrow> m = None \<or> (\<exists>x ls n. m = Some (Inr (x, ls, n)) \<and> f x ls n = None)"
  by (auto simp: bindY_def split: option.splits sum.splits)

lemma liftY_Some_Inr [simp]: "liftY ls n m = Some (Inr (x, ls', n')) \<longleftrightarrow> m = Inr x \<and> ls' = ls \<and> n' = n"
  by (auto simp: liftY_def split: sum.splits)

lemma liftY_not_None [simp]: "liftY ls n m \<noteq> None" "None \<noteq> liftY ls n m"
  by (simp_all add: liftY_def)

lemma yamlFailure_not_Inr [simp]: "yamlFailure c l m \<noteq> Inr x" "Inr x \<noteq> yamlFailure c l m"
  by (simp_all add: yamlFailure_def)

text \<open>How a loop returns: at a line that is not its own, or after one more step.\<close>

lemma parseSequence_Inr:
  "parseSequence self limits vs ls i d k = Some (Inr r) \<longleftrightarrow>
     (if itemAt i ls
      then (yl_content (hd ls) = js ''-'' \<or> startsWith (yl_content (hd ls)) (js ''- '')) \<and> int (k + 1) \<le> ym_maxNodes limits \<and>
        (\<exists>x ls1 k1. sequenceItem self limits (hd ls) (tl ls) i d (k + 1) = Some (Inr (x, ls1, k1)) \<and>
           self (SequenceMode (vs @ [x])) ls1 i d k1 = Some (Inr r))
      else r = (JArr vs, ls, k))"
  by (auto simp: parseSequence_def Let_def bindY_Some_Inr)

lemma parseMapping_Inr:
  "parseMapping self limits obj ls i d k = Some (Inr r) \<longleftrightarrow>
     (if keyAt i ls
      then int (k + 1) \<le> ym_maxNodes limits \<and>
        (\<exists>key s x ls1 k1. splitMapping (yl_content (hd ls)) (yl_line (hd ls)) = Inr (key, s) \<and> map_of obj key = None \<and>
           mappingValue self limits (hd ls) s (tl ls) (i + 2) (d + 1) (k + 1) = Some (Inr (x, ls1, k1)) \<and>
           self (MappingMode (obj @ [(key, x)])) ls1 i d k1 = Some (Inr r))
      else r = (JObj obj, ls, k))"
  by (auto simp: parseMapping_def Let_def bindY_Some_Inr)

text \<open>The modes that consume a line before they return.\<close>

definition progress :: "yamlMode \<Rightarrow> yamlLine list \<Rightarrow> nat \<Rightarrow> bool" where
  "progress mode ls indent =
     (case mode of NodeMode \<Rightarrow> True | SequenceMode _ \<Rightarrow> itemAt indent ls | MappingMode _ \<Rightarrow> keyAt indent ls)"

definition consumes :: "yamlParser \<Rightarrow> bool" where
  "consumes self \<longleftrightarrow> (\<forall>mode ls indent depth nodes v ls' nodes'.
     self mode ls indent depth nodes = Some (Inr (v, ls', nodes')) \<longrightarrow>
     length ls' \<le> length ls \<and> (progress mode ls indent \<longrightarrow> length ls' < length ls))"

lemma consumesD:
  assumes "consumes self" "self mode ls indent depth nodes = Some (Inr (v, ls', nodes'))"
  shows "length ls' \<le> length ls" "progress mode ls indent \<Longrightarrow> length ls' < length ls"
  using assms unfolding consumes_def by blast+

lemma mappingValue_consumes:
  assumes "consumes self" "mappingValue self limits l s rest indent depth nodes = Some (Inr (v, ls', nodes'))"
  shows "length ls' \<le> length rest"
  using assms by (auto simp: mappingValue_def split: if_splits dest: consumesD)

lemma sequenceItem_consumes:
  assumes "consumes self" "sequenceItem self limits l rest indent depth nodes = Some (Inr (v, ls', nodes'))"
  shows "length ls' \<le> length rest"
  using assms(2)
  by (auto simp: sequenceItem_def sequenceMapping_def Let_def bindY_Some_Inr
      split: if_splits dest!: mappingValue_consumes [OF assms(1)] consumesD(1) [OF assms(1)])

lemma parseYaml_consumes: "consumes (parseYaml n limits)"
proof (induction n)
  case 0
  then show ?case by (simp add: consumes_def)
next
  case (Suc n)
  let ?self = "parseYaml n limits"
  have seq: "length ls' \<le> length ls \<and> (itemAt i ls \<longrightarrow> length ls' < length ls)"
    if s: "parseSequence ?self limits vs ls i d k = Some (Inr (v, ls', k'))" for vs ls i d k v ls' k'
  proof (cases "itemAt i ls")
    case True
    then obtain x ls1 k1 where "sequenceItem ?self limits (hd ls) (tl ls) i d (k + 1) = Some (Inr (x, ls1, k1))"
      "?self (SequenceMode (vs @ [x])) ls1 i d k1 = Some (Inr (v, ls', k'))"
      using s True unfolding parseSequence_Inr by auto
    then have "length ls1 \<le> length (tl ls)" "length ls' \<le> length ls1"
      using sequenceItem_consumes [OF Suc] consumesD(1) [OF Suc] by blast+
    then show ?thesis using at_Cons(1) [OF True] by (cases ls) auto
  next
    case False
    then show ?thesis using s by (simp add: parseSequence_def)
  qed
  have map: "length ls' \<le> length ls \<and> (keyAt i ls \<longrightarrow> length ls' < length ls)"
    if s: "parseMapping ?self limits obj ls i d k = Some (Inr (v, ls', k'))" for obj ls i d k v ls' k'
  proof (cases "keyAt i ls")
    case True
    then obtain key s x ls1 k1 where
      "mappingValue ?self limits (hd ls) s (tl ls) (i + 2) (d + 1) (k + 1) = Some (Inr (x, ls1, k1))"
      "?self (MappingMode (obj @ [(key, x)])) ls1 i d k1 = Some (Inr (v, ls', k'))"
      using s True unfolding parseMapping_Inr by auto
    then have "length ls1 \<le> length (tl ls)" "length ls' \<le> length ls1"
      using mappingValue_consumes [OF Suc] consumesD(1) [OF Suc] by blast+
    then show ?thesis using at_Cons(2) [OF True] by (cases ls) auto
  next
    case False
    then show ?thesis using s by (simp add: parseMapping_def)
  qed
  have node: "length ls' \<le> length ls \<and> length ls' < length ls"
    if "parseYamlNode ?self limits ls i d k = Some (Inr (v, ls', k'))" for ls i d k v ls' k'
    using that childAt_iff [of i ls] consumesD(2) [OF Suc]
    by (fastforce simp: parseYamlNode_def progress_def split: if_splits)
  show ?case
    unfolding consumes_def using seq map node
    by (auto simp: progress_def split: yamlMode.splits)
qed

text \<open>The fuel that a mode needs for the lines that are left.\<close>

definition fuelFor :: "yamlMode \<Rightarrow> yamlLine list \<Rightarrow> nat" where
  "fuelFor mode ls = (if mode = NodeMode then 2 * length ls + 2 else 2 * length ls + 1)"

definition enough :: "nat \<Rightarrow> yamlParser \<Rightarrow> bool" where
  "enough n self \<longleftrightarrow> (\<forall>mode ls indent depth nodes. fuelFor mode ls \<le> n \<longrightarrow> self mode ls indent depth nodes \<noteq> None)"

lemma enoughD: "enough n self \<Longrightarrow> fuelFor mode ls \<le> n \<Longrightarrow> self mode ls indent depth nodes \<noteq> None"
  unfolding enough_def by blast

lemma fuelFor_simps [simp]:
  "fuelFor NodeMode ls = 2 * length ls + 2" "fuelFor (SequenceMode vs) ls = 2 * length ls + 1"
  "fuelFor (MappingMode obj) ls = 2 * length ls + 1"
  by (simp_all add: fuelFor_def)

lemma mappingValue_enough:
  assumes "enough n self" "2 * length rest + 2 \<le> n"
  shows "mappingValue self limits l s rest indent depth nodes \<noteq> None"
  using enoughD [OF assms(1), of NodeMode rest] assms(2) by (simp add: mappingValue_def del: not_None_eq)

lemma sequenceItem_enough:
  assumes "enough n self" "consumes self" "2 * length rest + 2 \<le> n"
  shows "sequenceItem self limits l rest indent depth nodes \<noteq> None"
proof -
  have node: "self NodeMode ls i d k \<noteq> None" if "length ls \<le> length rest" for ls i d k
    using enoughD [OF assms(1), of NodeMode ls] that assms(3) by simp
  have "mappingValue self limits l s rest i d k \<noteq> None" for s i d k
    by (rule mappingValue_enough [OF assms(1,3)])
  moreover have "self NodeMode ls' i' d' k' \<noteq> None"
    if "mappingValue self limits l s rest i d k = Some (Inr (v, ls', k'))" for s i d k v ls' k' i' d'
    using node mappingValue_consumes [OF assms(2) that] by blast
  ultimately have "sequenceMapping self limits l s rest indent depth nodes \<noteq> None" for s
    by (auto simp: sequenceMapping_def bindY_None simp del: not_None_eq)
  then show ?thesis using node by (auto simp: sequenceItem_def Let_def simp del: not_None_eq)
qed

lemma parseYaml_enough: "enough n (parseYaml n limits)"
proof (induction n)
  case 0
  then show ?case by (simp add: enough_def fuelFor_def)
next
  case (Suc n)
  let ?self = "parseYaml n limits"
  note c = parseYaml_consumes [of n limits]
  have "parseYaml (Suc n) limits mode ls i d k \<noteq> None" if f: "fuelFor mode ls \<le> Suc n" for mode ls i d k
  proof (cases mode)
    case NodeMode
    then show ?thesis
      using f enoughD [OF Suc, of "SequenceMode []" ls] enoughD [OF Suc, of "MappingMode []" ls] by (simp add: parseYamlNode_def)
  next
    case (SequenceMode vs)
    show ?thesis
    proof (cases "itemAt i ls")
      case True
      obtain y ys where l: "ls = y # ys" using at_Cons(1) [OF True] by blast
      have "sequenceItem ?self limits (hd ls) (tl ls) i d (k + 1) \<noteq> None"
        by (rule sequenceItem_enough [OF Suc c]) (use f l SequenceMode in simp)
      moreover have "?self (SequenceMode vs) ls1 i d k1 \<noteq> None"
        if "sequenceItem ?self limits (hd ls) (tl ls) i d (k + 1) = Some (Inr (x, ls1, k1))" for vs x ls1 k1
        by (rule enoughD [OF Suc]) (use sequenceItem_consumes [OF c that] f l SequenceMode in simp)
      ultimately have "bindY (sequenceItem ?self limits (hd ls) (tl ls) i d (k + 1))
          (\<lambda>v ls' k'. ?self (SequenceMode (vs @ [v])) ls' i d k') \<noteq> None"
        unfolding bindY_None by blast
      then have "parseSequence ?self limits vs ls i d k \<noteq> None"
        using True by (simp add: parseSequence_def Let_def del: not_None_eq)
      then show ?thesis using SequenceMode by simp
    next
      case False
      then show ?thesis using SequenceMode by (simp add: parseSequence_def)
    qed
  next
    case (MappingMode obj)
    show ?thesis
    proof (cases "keyAt i ls")
      case True
      obtain y ys where l: "ls = y # ys" using at_Cons(2) [OF True] by blast
      have "mappingValue ?self limits (hd ls) s (tl ls) (i + 2) (d + 1) (k + 1) \<noteq> None" for s
        by (rule mappingValue_enough [OF Suc]) (use f l MappingMode in simp)
      moreover have "?self (MappingMode o') ls1 i d k1 \<noteq> None"
        if "mappingValue ?self limits (hd ls) s (tl ls) (i + 2) (d + 1) (k + 1) = Some (Inr (x, ls1, k1))" for s o' x ls1 k1
        by (rule enoughD [OF Suc]) (use mappingValue_consumes [OF c that] f l MappingMode in simp)
      ultimately have "bindY (mappingValue ?self limits (hd ls) s (tl ls) (i + 2) (d + 1) (k + 1))
          (\<lambda>v ls' k'. ?self (MappingMode (obj @ [(key, v)])) ls' i d k') \<noteq> None" for s key
        unfolding bindY_None by blast
      then have "parseMapping ?self limits obj ls i d k \<noteq> None"
        using True by (simp add: parseMapping_def Let_def bindY_None [of "liftY _ _ _"] split_beta del: not_None_eq)
      then show ?thesis using MappingMode by simp
    next
      case False
      then show ?thesis using MappingMode by (simp add: parseMapping_def)
    qed
  qed
  then show ?case unfolding enough_def by blast
qed

text \<open>C33. The parser of policy documents always ends: whatever the text and the limits, the fuel it is given, which is
  linear in the number of lines, is enough for its nested loops.\<close>

theorem yaml_terminates:
  "\<exists>r. parseRestrictedPolicyYaml source limits = Some r"
proof -
  have n: "parseYaml (yamlFuel ls) l NodeMode ls 0 0 0 \<noteq> None" for ls l
    by (rule enoughD [OF parseYaml_enough]) (simp add: yamlFuel_def)
  then have "parseRestrictedPolicyYaml source limits \<noteq> None"
    by (simp add: parseRestrictedPolicyYaml_def Let_def del: not_None_eq split: option.splits sum.splits prod.splits)
  then show ?thesis by simp
qed

section \<open>What is accepted\<close>

text \<open>
  The values that a document can have: containers that are not empty, nested at most \<open>n\<close> deep, keys that are
  safe and occur once, and strings of at most \<open>m\<close> units. The entries are the items and members at every depth.
\<close>

fun yamlValue :: "int \<Rightarrow> nat \<Rightarrow> json \<Rightarrow> bool" where
  "yamlValue m n (JNum x) = num_wf x"
| "yamlValue m n (JStr s) = (int (length s) \<le> m)"
| "yamlValue m n (JArr xs) = (xs \<noteq> [] \<and> 0 < n \<and> list_all (yamlValue m (n - 1)) xs)"
| "yamlValue m n (JObj kvs) = (kvs \<noteq> [] \<and> 0 < n \<and> distinct (map fst kvs) \<and>
     list_all (\<lambda>(k, v). yamlKey k \<and> k \<notin> set protectedKeys \<and> yamlValue m (n - 1) v) kvs)"
| "yamlValue m n v = True"

fun entries :: "json \<Rightarrow> nat" where
  "entries (JArr xs) = length xs + sum_list (map entries xs)"
| "entries (JObj kvs) = length kvs + sum_list (map (\<lambda>(k, v). entries v) kvs)"
| "entries v = 0"

lemma length_unquote: "unquote s = Some (t, r) \<Longrightarrow> length t + length r < length s"
proof (induction s arbitrary: t r rule: unquote.induct)
  case (2 c cs)
  then show ?case
    by (fastforce simp: consUnit_def split: if_splits option.splits list.splits)
qed simp

lemma num_wf_toNumber: "toNumber x = Some y \<Longrightarrow> num_wf y"
  by (auto simp: toNumber_def num_wf_def [of "Dec 0 0"] split: jsnum.splits option.splits if_splits prod.splits)

lemma parseScalar_value: "parseScalar s line m = Inr v \<Longrightarrow> yamlValue m n v \<and> entries v = 0"
proof -
  assume p: "parseScalar s line m = Inr v"
  then have l: "int (length s) \<le> m" by (auto simp: parseScalar_def split: if_splits)
  have u: "length t \<le> length s" if "unquote (tl s) = Some (t, [])" for t
    using length_unquote [OF that] by (cases s) auto
  show ?thesis
    using p l u num_wf_toNumber
    by (fastforce simp: parseScalar_def numberOfLiteral_def split: if_splits option.splits list.splits)
qed

lemma splitMapping_safe: "splitMapping s line = Inr (key, r) \<Longrightarrow> yamlKey key \<and> key \<notin> set protectedKeys"
  by (auto simp: splitMapping_def Let_def split: if_splits)

text \<open>What a mode returns, from the count \<open>k\<close> on and with the count \<open>k'\<close>.\<close>

definition depthLeft :: "restrictedYamlLimits \<Rightarrow> nat \<Rightarrow> nat" where
  "depthLeft limits d = nat (ym_maxDepth limits - int d)"

definition counted :: "restrictedYamlLimits \<Rightarrow> nat \<Rightarrow> nat \<Rightarrow> nat \<Rightarrow> bool" where
  "counted limits k k' n \<longleftrightarrow> k \<le> k' \<and> (k' = k \<or> int k' \<le> ym_maxNodes limits) \<and> n \<le> 2 * (k' - k)"

definition nodeOk :: "restrictedYamlLimits \<Rightarrow> nat \<Rightarrow> nat \<Rightarrow> json \<Rightarrow> nat \<Rightarrow> bool" where
  "nodeOk limits d k v k' \<longleftrightarrow> int d \<le> ym_maxDepth limits \<and>
     yamlValue (ym_maxScalarLength limits) (depthLeft limits d + 2) v \<and> counted limits k k' (entries v)"

definition sequenceOk :: "restrictedYamlLimits \<Rightarrow> json list \<Rightarrow> bool \<Rightarrow> nat \<Rightarrow> nat \<Rightarrow> json \<Rightarrow> nat \<Rightarrow> bool" where
  "sequenceOk limits vs some d k v k' \<longleftrightarrow> (\<exists>ws. v = JArr (vs @ ws) \<and> (some \<longrightarrow> ws \<noteq> []) \<and>
     list_all (yamlValue (ym_maxScalarLength limits) (depthLeft limits d + 1)) ws \<and> counted limits k k' (entries (JArr ws)))"

definition mappingOk :: "restrictedYamlLimits \<Rightarrow> jobject \<Rightarrow> bool \<Rightarrow> nat \<Rightarrow> nat \<Rightarrow> json \<Rightarrow> nat \<Rightarrow> bool" where
  "mappingOk limits obj some d k v k' \<longleftrightarrow> (\<exists>kvs. v = JObj (obj @ kvs) \<and> (some \<longrightarrow> kvs \<noteq> []) \<and>
     distinct (map fst kvs) \<and> fst ` set kvs \<inter> fst ` set obj = {} \<and>
     list_all (\<lambda>(k, v). yamlKey k \<and> k \<notin> set protectedKeys \<and>
       yamlValue (ym_maxScalarLength limits) (depthLeft limits d + 1) v) kvs \<and> counted limits k k' (entries (JObj kvs)))"

definition modeOk :: "restrictedYamlLimits \<Rightarrow> yamlMode \<Rightarrow> yamlLine list \<Rightarrow> nat \<Rightarrow> nat \<Rightarrow> nat \<Rightarrow> json \<Rightarrow> nat \<Rightarrow> bool" where
  "modeOk limits mode ls i d k v k' =
     (case mode of
        NodeMode \<Rightarrow> nodeOk limits d k v k'
      | SequenceMode vs \<Rightarrow> int d \<le> ym_maxDepth limits \<longrightarrow> sequenceOk limits vs (itemAt i ls) d k v k'
      | MappingMode obj \<Rightarrow> int d \<le> ym_maxDepth limits \<longrightarrow> mappingOk limits obj (keyAt i ls) d k v k')"

definition returnsOk :: "restrictedYamlLimits \<Rightarrow> yamlParser \<Rightarrow> bool" where
  "returnsOk limits self \<longleftrightarrow> (\<forall>mode ls i d k v ls' k'.
     self mode ls i d k = Some (Inr (v, ls', k')) \<longrightarrow> modeOk limits mode ls i d k v k')"

lemma returnsOkD:
  assumes "returnsOk limits self"
  shows "self NodeMode ls i d k = Some (Inr (v, ls', k')) \<Longrightarrow> nodeOk limits d k v k'"
    "self (SequenceMode vs) ls i d k = Some (Inr (v, ls', k')) \<Longrightarrow> int d \<le> ym_maxDepth limits \<Longrightarrow>
       sequenceOk limits vs (itemAt i ls) d k v k'"
    "self (MappingMode obj) ls i d k = Some (Inr (v, ls', k')) \<Longrightarrow> int d \<le> ym_maxDepth limits \<Longrightarrow>
       mappingOk limits obj (keyAt i ls) d k v k'"
  using assms unfolding returnsOk_def modeOk_def by fastforce+

lemma counted_trans: "counted limits k k1 a \<Longrightarrow> counted limits k1 k2 b \<Longrightarrow> counted limits k k2 (a + b)"
  unfolding counted_def by auto

lemma yamlValue_mono: "yamlValue m n v \<Longrightarrow> n \<le> n' \<Longrightarrow> yamlValue m n' v"
proof (induction v arbitrary: n n')
  case (JArr xs)
  have "yamlValue m (n' - 1) x" if "x \<in> set xs" for x
    by (rule JArr.IH [OF that, of "n - 1"]) (use JArr.prems that in \<open>auto simp: list_all_iff\<close>)
  then show ?case using JArr.prems by (simp add: list_all_iff)
next
  case (JObj kvs)
  have "yamlValue m (n' - 1) v" if "(k, v) \<in> set kvs" for k v
    by (rule JObj.IH [OF that, of v "n - 1"]) (use JObj.prems that in \<open>auto simp: list_all_iff\<close>)
  then show ?case using JObj.prems by (auto simp: list_all_iff)
qed simp_all

text \<open>A scalar, or a node of the depth; either way a value that a container one level up can hold.\<close>

definition valueOk :: "restrictedYamlLimits \<Rightarrow> nat \<Rightarrow> nat \<Rightarrow> json \<Rightarrow> nat \<Rightarrow> bool" where
  "valueOk limits n k v k' \<longleftrightarrow> yamlValue (ym_maxScalarLength limits) n v \<and> counted limits k k' (entries v)"

lemma valueOk_scalar: "parseScalar s line (ym_maxScalarLength limits) = Inr v \<Longrightarrow> valueOk limits n k v k"
  using parseScalar_value [of s line "ym_maxScalarLength limits" v n] by (simp add: valueOk_def counted_def)

lemma valueOk_node:
  assumes "nodeOk limits (d + a) k v k'" "0 < a" shows "valueOk limits (depthLeft limits d + 2 - a) k v k'"
proof -
  have "depthLeft limits (d + a) + 2 = depthLeft limits d + 2 - a"
    using assms(1) by (auto simp: nodeOk_def depthLeft_def)
  then show ?thesis using assms(1) by (simp add: nodeOk_def valueOk_def)
qed

lemma mappingValue_ok:
  assumes "returnsOk limits self" "mappingValue self limits l s rest i (d + a) k = Some (Inr (v, ls', k'))" "0 < a"
  shows "valueOk limits (depthLeft limits d + 2 - a) k v k'"
proof (cases "s = []")
  case True
  with assms(2) have "self NodeMode rest i (d + a) k = Some (Inr (v, ls', k'))"
    by (simp add: mappingValue_def split: if_splits)
  from valueOk_node [OF returnsOkD(1) [OF assms(1) this] assms(3)] show ?thesis .
next
  case False
  with assms(2) have "parseScalar s (yl_line l) (ym_maxScalarLength limits) = Inr v" "k' = k"
    by (simp_all add: mappingValue_def)
  then show ?thesis by (auto intro: valueOk_scalar)
qed

lemma mergeTail_ok:
  assumes "mergeTail [(key, x)] line tail = Inr v" "valueOk limits (Suc n) k tail k'" "yamlKey key" "key \<notin> set protectedKeys"
    "yamlValue (ym_maxScalarLength limits) n x"
  shows "yamlValue (ym_maxScalarLength limits) (Suc n) v \<and> entries v = 1 + entries x + entries tail"
proof -
  obtain kvs where t: "tail = JObj kvs" "v = JObj ((key, x) # kvs)" "\<forall>(k, v) \<in> set kvs. k \<noteq> key"
    using assms(1) by (fastforce simp: mergeTail_def list_ex_iff split: json.splits if_splits)
  then show ?thesis using assms(2-5) by (auto simp: valueOk_def)
qed

definition itemOk :: "restrictedYamlLimits \<Rightarrow> nat \<Rightarrow> nat \<Rightarrow> json \<Rightarrow> nat \<Rightarrow> bool" where
  "itemOk limits d k v k' \<longleftrightarrow> yamlValue (ym_maxScalarLength limits) (depthLeft limits d + 1) v \<and>
     k + 1 \<le> k' \<and> (k' = k + 1 \<or> int k' \<le> ym_maxNodes limits) \<and> entries v + 1 \<le> 2 * (k' - k)"

lemma valueOk_item: "valueOk limits (depthLeft limits d + 1) (k + 1) v k' \<Longrightarrow> itemOk limits d k v k'"
  by (auto simp: valueOk_def itemOk_def counted_def)

lemma sequenceMapping_ok:
  assumes r: "returnsOk limits self"
    and m: "sequenceMapping self limits l source rest i d (k + 1) = Some (Inr (v, ls', k'))"
  shows "itemOk limits d k v k'"
proof -
  obtain key s x ls1 k1 where sp: "splitMapping source (yl_line l) = Inr (key, s)"
    and val: "mappingValue self limits l s rest (i + 4) (d + 2) (k + 1) = Some (Inr (x, ls1, k1))"
    and tail: "(if keyAt (i + 2) ls1
       then bindY (self NodeMode ls1 (i + 2) (d + 1) k1) (\<lambda>tail ls'' k''. liftY ls'' k'' (mergeTail [(key, x)] (yl_line l) tail))
       else Some (Inr (JObj [(key, x)], ls1, k1))) = Some (Inr (v, ls', k'))"
    using m by (auto simp: sequenceMapping_def bindY_Some_Inr)
  note safe = splitMapping_safe [OF sp]
  have x: "valueOk limits (depthLeft limits d) (k + 1) x k1"
    using mappingValue_ok [OF r val] by simp
  show ?thesis
  proof (cases "keyAt (i + 2) ls1")
    case True
    then obtain t where t: "self NodeMode ls1 (i + 2) (d + 1) k1 = Some (Inr (t, ls', k'))"
        "mergeTail [(key, x)] (yl_line l) t = Inr v"
      using tail by (auto simp: bindY_Some_Inr)
    have n: "valueOk limits (Suc (depthLeft limits d)) k1 t k'"
      using valueOk_node [OF returnsOkD(1) [OF r t(1)]] by simp
    from mergeTail_ok [OF t(2) n] safe x n show ?thesis
      by (auto simp: itemOk_def valueOk_def counted_def)
  next
    case False
    then show ?thesis using tail safe x by (auto simp: itemOk_def valueOk_def counted_def)
  qed
qed

lemma sequenceItem_ok:
  assumes r: "returnsOk limits self" and m: "sequenceItem self limits l rest i d (k + 1) = Some (Inr (v, ls', k'))"
  shows "itemOk limits d k v k'"
proof -
  define source where "source = (if yl_content l = js ''-'' then [] else drop 2 (yl_content l))"
  consider (child) "source = []" "self NodeMode rest (i + 2) (d + 1) (k + 1) = Some (Inr (v, ls', k'))"
    | (mapping) "sequenceMapping self limits l source rest i d (k + 1) = Some (Inr (v, ls', k'))"
    | (plain) "parseScalar source (yl_line l) (ym_maxScalarLength limits) = Inr v" "k' = k + 1"
    using m unfolding sequenceItem_def source_def [symmetric] Let_def by (auto split: if_splits)
  then show ?thesis
  proof cases
    case child
    from valueOk_node [OF returnsOkD(1) [OF r child(2)]] show ?thesis by (intro valueOk_item) simp
  next
    case mapping
    then show ?thesis by (rule sequenceMapping_ok [OF r])
  next
    case plain
    show ?thesis unfolding plain(2) by (rule valueOk_item [OF valueOk_scalar [OF plain(1)]])
  qed
qed

lemma sequence_step:
  assumes "itemOk limits d k x k1" "sequenceOk limits (vs @ [x]) b d k1 v k'" "int (k + 1) \<le> ym_maxNodes limits"
  shows "sequenceOk limits vs True d k v k'"
proof -
  obtain ws where "v = JArr ((vs @ [x]) @ ws)"
    "list_all (yamlValue (ym_maxScalarLength limits) (depthLeft limits d + 1)) ws" "counted limits k1 k' (entries (JArr ws))"
    using assms(2) unfolding sequenceOk_def by blast
  then show ?thesis
    unfolding sequenceOk_def using assms(1,3) by (intro exI [of _ "x # ws"]) (auto simp: itemOk_def counted_def)
qed

lemma mapping_step:
  assumes "valueOk limits (depthLeft limits d + 1) (k + 1) x k1" "mappingOk limits (obj @ [(key, x)]) b d k1 v k'"
    "int (k + 1) \<le> ym_maxNodes limits" "yamlKey key" "key \<notin> set protectedKeys" "map_of obj key = None"
  shows "mappingOk limits obj True d k v k'"
proof -
  obtain kvs where "v = JObj ((obj @ [(key, x)]) @ kvs)" "distinct (map fst kvs)"
    "fst ` set kvs \<inter> fst ` set (obj @ [(key, x)]) = {}"
    "list_all (\<lambda>(k, v). yamlKey k \<and> k \<notin> set protectedKeys \<and>
       yamlValue (ym_maxScalarLength limits) (depthLeft limits d + 1) v) kvs" "counted limits k1 k' (entries (JObj kvs))"
    using assms(2) unfolding mappingOk_def by blast
  then show ?thesis
    unfolding mappingOk_def using assms(1,3-6)
    by (intro exI [of _ "(key, x) # kvs"]) (auto simp: valueOk_def counted_def map_of_eq_None_iff)
qed

lemma counted_zero [simp]: "counted limits k k 0"
  by (simp add: counted_def)

lemma parseYaml_ok: "returnsOk limits (parseYaml n limits)"
proof (induction n)
  case 0
  then show ?case by (simp add: returnsOk_def)
next
  case (Suc n)
  let ?self = "parseYaml n limits"
  have "modeOk limits mode ls i d k v k'"
    if p: "parseYaml (Suc n) limits mode ls i d k = Some (Inr (v, ls', k'))" for mode ls i d k v ls' k'
  proof (cases mode)
    case NodeMode
    then have d: "int d \<le> ym_maxDepth limits" and
      s: "?self (if itemAt i ls then SequenceMode [] else MappingMode []) ls i d k = Some (Inr (v, ls', k'))" and c: "childAt i ls"
      using p by (auto simp: parseYamlNode_def split: if_splits)
    have "nodeOk limits d k v k'"
    proof (cases "itemAt i ls")
      case True
      then have "sequenceOk limits [] True d k v k'" using s returnsOkD(2) [OF Suc _ d] by fastforce
      then show ?thesis using d by (auto simp: nodeOk_def sequenceOk_def)
    next
      case False
      then have "mappingOk limits [] True d k v k'" using s c returnsOkD(3) [OF Suc _ d] by (fastforce simp: childAt_iff)
      then show ?thesis using d by (auto simp: nodeOk_def mappingOk_def)
    qed
    then show ?thesis using NodeMode by (simp add: modeOk_def)
  next
    case (SequenceMode vs)
    then have s: "parseSequence ?self limits vs ls i d k = Some (Inr (v, ls', k'))" using p by simp
    have "sequenceOk limits vs (itemAt i ls) d k v k'" if d: "int d \<le> ym_maxDepth limits"
    proof (cases "itemAt i ls")
      case True
      then obtain x ls1 k1 where x: "int (k + 1) \<le> ym_maxNodes limits"
          "sequenceItem ?self limits (hd ls) (tl ls) i d (k + 1) = Some (Inr (x, ls1, k1))"
          "?self (SequenceMode (vs @ [x])) ls1 i d k1 = Some (Inr (v, ls', k'))"
        using s unfolding parseSequence_Inr by auto
      from sequence_step [OF sequenceItem_ok [OF Suc x(2)] returnsOkD(2) [OF Suc x(3) d] x(1)] True show ?thesis by simp
    next
      case False
      then show ?thesis using s by (auto simp: parseSequence_Inr sequenceOk_def)
    qed
    then show ?thesis using SequenceMode by (simp add: modeOk_def)
  next
    case (MappingMode obj)
    then have s: "parseMapping ?self limits obj ls i d k = Some (Inr (v, ls', k'))" using p by simp
    have "mappingOk limits obj (keyAt i ls) d k v k'" if d: "int d \<le> ym_maxDepth limits"
    proof (cases "keyAt i ls")
      case True
      then obtain key t x ls1 k1 where x: "int (k + 1) \<le> ym_maxNodes limits"
          "splitMapping (yl_content (hd ls)) (yl_line (hd ls)) = Inr (key, t)" "map_of obj key = None"
          "mappingValue ?self limits (hd ls) t (tl ls) (i + 2) (d + 1) (k + 1) = Some (Inr (x, ls1, k1))"
          "?self (MappingMode (obj @ [(key, x)])) ls1 i d k1 = Some (Inr (v, ls', k'))"
        using s unfolding parseMapping_Inr by auto
      have "valueOk limits (depthLeft limits d + 1) (k + 1) x k1" using mappingValue_ok [OF Suc x(4)] by simp
      from mapping_step [OF this returnsOkD(3) [OF Suc x(5) d] x(1) _ _ x(3)] splitMapping_safe [OF x(2)] True
      show ?thesis by simp
    next
      case False
      then show ?thesis using s by (auto simp: parseMapping_Inr mappingOk_def)
    qed
    then show ?thesis using MappingMode by (simp add: modeOk_def)
  qed
  then show ?case unfolding returnsOk_def by blast
qed

lemma parseRestrictedPolicyYaml_Inr:
  assumes "parseRestrictedPolicyYaml source configured = Some (Inr j)"
  obtains ls k v where "readYamlLines 1 (splitOn 10 (replaceCrLf [10] source)) = Inr ls"
    "parseYaml (yamlFuel ls) (yamlLimits configured) NodeMode ls 0 0 0 = Some (Inr (v, [], k))"
    "assertPolicyJson (of_json v) (js ''$'') = Inr j"
  using assms
  by (auto simp: parseRestrictedPolicyYaml_def Let_def split: if_splits sum.splits option.splits prod.splits)

end
