(* ===== verification/Policy_Yaml_Text.thy ===== *)
theory Policy_Yaml_Text
  imports Policy_Yaml
begin

text \<open>
  A printer of policy documents, and the proof that the parser of \<open>Policy_Yaml\<close> reads back what it writes.
\<close>

section \<open>Writing a document\<close>

text \<open>A printer in block style: every scalar on the line of its key or item, and nothing that the parser rejects.\<close>

definition plainYaml :: "16 word \<Rightarrow> bool" where
  "plainYaml c = (32 \<le> c \<and> c < 127 \<and> c \<notin> set [34, 39, 62, 91, 92, 123, 124])"

definition yamlUnit :: "16 word \<Rightarrow> jstring" where
  "yamlUnit c = (if plainYaml c then [c] else escape4 c)"

fun yamlScalar :: "json \<Rightarrow> jstring" where
  "yamlScalar JNull = js ''null''"
| "yamlScalar (JBool b) = (if b then js ''true'' else js ''false'')"
| "yamlScalar (JNum n) = numToString n"
| "yamlScalar (JStr s) = 34 # concat (map yamlUnit s) @ [34]"
| "yamlScalar _ = []"

fun isContainer :: "json \<Rightarrow> bool" where
  "isContainer (JArr xs) = True"
| "isContainer (JObj kvs) = True"
| "isContainer _ = False"

text \<open>The lines of a container, and (with \<open>True\<close>) of an item of a sequence: indentation and content.\<close>

fun yamlNode :: "bool \<Rightarrow> nat \<Rightarrow> json \<Rightarrow> (nat \<times> jstring) list" where
  "yamlNode False i (JArr xs) = concat (map (yamlNode True i) xs)"
| "yamlNode False i (JObj kvs) = concat (map (\<lambda>(k, v).
     if isContainer v then (i, k @ [58]) # yamlNode False (i + 2) v else [(i, k @ 58 # 32 # yamlScalar v)]) kvs)"
| "yamlNode False i v = []"
| "yamlNode True i (JArr xs) = (i, [45]) # concat (map (yamlNode True (i + 2)) xs)"
| "yamlNode True i (JObj []) = []"
| "yamlNode True i (JObj ((k, v) # kvs)) =
     (if isContainer v then (i, 45 # 32 # k @ [58]) # yamlNode False (i + 4) v else [(i, 45 # 32 # k @ 58 # 32 # yamlScalar v)]) @
     concat (map (\<lambda>(k, v).
       if isContainer v then (i + 2, k @ [58]) # yamlNode False (i + 4) v else [(i + 2, k @ 58 # 32 # yamlScalar v)]) kvs)"
| "yamlNode True i v = [(i, 45 # 32 # yamlScalar v)]"

definition yamlText :: "json \<Rightarrow> jstring" where
  "yamlText j = concat (map (\<lambda>(i, content). replicate i 32 @ content @ [10]) (yamlNode False 0 j))"

text \<open>A value that can be written: its containers are not empty, and its scalars and depth are within the limits.\<close>

definition scalarFits :: "restrictedYamlLimits \<Rightarrow> json \<Rightarrow> bool" where
  "scalarFits limits v \<longleftrightarrow> int (length (yamlScalar v)) \<le> ym_maxScalarLength limits \<and>
     (case v of JNum n \<Rightarrow> matches numberRx (numToString n) \<and> numberOfLiteral (numToString n) = Some n | _ \<Rightarrow> True)"

fun yamlable :: "restrictedYamlLimits \<Rightarrow> nat \<Rightarrow> json \<Rightarrow> bool" where
  "yamlable limits d (JArr xs) = (xs \<noteq> [] \<and> int d \<le> ym_maxDepth limits \<and> list_all (yamlable limits (d + 1)) xs)"
| "yamlable limits d (JObj kvs) = (kvs \<noteq> [] \<and> int d \<le> ym_maxDepth limits \<and> distinct (map fst kvs) \<and>
     list_all (\<lambda>(k, v). yamlKey k \<and> k \<notin> set protectedKeys \<and> yamlable limits (d + 1) v) kvs)"
| "yamlable limits d v = scalarFits limits v"

section \<open>Scalars read back\<close>

lemma unquote_yamlUnit: "unquote (yamlUnit c @ r) = consUnit c (unquote r)"
  using unquote_escape4 [of c r] by (auto simp: yamlUnit_def plainYaml_def)

lemma unquote_yamlUnits: "unquote (concat (map yamlUnit s) @ 34 # r) = Some (s, r)"
  by (induction s) (simp_all add: unquote_yamlUnit consUnit_def)

lemma number_not_quoted: "\<not> matches numberRx (34 # s)"
proof -
  have "deriv 34 numberRx = Empty" by code_simp
  then show ?thesis by (simp add: matches_Empty)
qed

lemma numToString_not_word: "numToString n \<noteq> js ''true'' \<and> numToString n \<noteq> js ''false'' \<and> numToString n \<noteq> js ''null''"
  using numToString_first [of n] by (auto simp: js_def isDigit_def)

lemma parseScalar_yamlScalar:
  assumes "scalarFits limits v" "\<not> isContainer v"
  shows "parseScalar (yamlScalar v) line (ym_maxScalarLength limits) = Inr v"
proof (cases v)
  case (JNum n)
  then show ?thesis using assms numToString_not_word [of n] by (simp add: scalarFits_def parseScalar_def)
next
  case (JStr s)
  have "34 # concat (map yamlUnit s) @ [34] \<noteq> js w" if "w \<in> {''true'', ''false'', ''null''}" for w
    using that by (auto simp: js_def)
  moreover have "endsWith (34 # concat (map yamlUnit s) @ [34]) [34]" by (simp add: endsWith_def)
  ultimately show ?thesis
    using JStr assms number_not_quoted unquote_yamlUnits [of s "[]"] by (simp add: scalarFits_def parseScalar_def)
qed (use assms in \<open>auto simp: scalarFits_def parseScalar_def\<close>)

lemma yamlScalar_first:
  assumes "\<not> isContainer v"
  obtains c s where "yamlScalar v = c # s" "\<not> isWhite c" "\<not> startsWithKey (yamlScalar v)" "c \<noteq> 10"
proof -
  have digit: "\<not> isWhite c \<and> \<not> isKeyStart c \<and> c \<noteq> 10" if "isDigit c \<or> c = 45 \<or> c = 34" for c :: "16 word"
    using that by (auto simp: isDigit_def isWhite_def isKeyStart_def inCls_def rng_def; unat_arith)
  have start: "\<not> startsWithKey (c # s)" if "\<not> isKeyStart c" for c s
    using that by (auto simp: startsWithKey_def yamlKey_def)
  show thesis
  proof (cases v)
    case (JNum n)
    then show ?thesis using numToString_first [of n] digit start that
      by (cases "numToString n") auto
  next
    case (JStr s)
    then show ?thesis using digit [of 34] start [of 34] that by simp
  next
    case JNull
    then show ?thesis using that by (simp add: js_def) (auto simp: startsWithKey_def isKeyUnit_def isWhite_def isKeyStart_def inCls_def rng_def)
  next
    case (JBool b)
    then show ?thesis using that by (cases b; simp add: js_def) (auto simp: startsWithKey_def isKeyUnit_def isWhite_def isKeyStart_def inCls_def rng_def)
  qed (use assms in simp_all)
qed

lemma splitMapping_member:
  assumes "yamlKey k" "k \<notin> set protectedKeys"
  shows "splitMapping (k @ [58]) line = Inr (k, [])"
    "s = c # r \<Longrightarrow> \<not> isWhite c \<Longrightarrow> splitMapping (k @ 58 # 32 # s) line = Inr (k, s)"
    "startsWithKey (k @ 58 # t)"
proof -
  have unit: "\<forall>c \<in> set k. isKeyUnit c" using assms(1) by (auto simp: yamlKey_def isKeyUnit_def list_all_iff split: list.splits)
  have colon: "\<not> isKeyUnit 58" by (simp add: isKeyUnit_def isKeyStart_def isDigit_def inCls_def rng_def)
  have no: "58 \<notin> set k" and ne: "k \<noteq> []" using unit colon assms(1) by (auto simp: yamlKey_def)
  have tw: "takeWhile (\<lambda>c. c \<noteq> 58) (k @ 58 # t) = k" for t using no by (subst takeWhile_append2) auto
  have tk: "takeWhile isKeyUnit (k @ 58 # t) = k" "dropWhile isKeyUnit (k @ 58 # t) = 58 # t" for t
    using unit colon by (simp_all add: takeWhile_append dropWhile_append)
  show "splitMapping (k @ [58]) line = Inr (k, [])"
    using assms ne tw [of "[]"] by (simp add: splitMapping_def Let_def)
  show "s = c # r \<Longrightarrow> \<not> isWhite c \<Longrightarrow> splitMapping (k @ 58 # 32 # s) line = Inr (k, s)"
    using assms ne tw [of "32 # s"] by (simp add: splitMapping_def Let_def isWhite_def [of 32])
  show "startsWithKey (k @ 58 # t)" using assms tk by (simp add: startsWithKey_def)
qed

section \<open>More fuel does not matter\<close>

definition below :: "'a option \<Rightarrow> 'a option \<Rightarrow> bool" where
  "below m m' \<longleftrightarrow> m = None \<or> m = m'"

lemma below_refl [simp, intro]: "below m m" and below_None [simp, intro]: "below None m"
  by (simp_all add: below_def)

lemma below_bindY:
  assumes "below m m'" "\<And>x ls n. below (f x ls n) (f' x ls n)" shows "below (bindY m f) (bindY m' f')"
  using assms by (auto simp: below_def bindY_def split: option.splits sum.splits prod.splits)

definition selfBelow :: "yamlParser \<Rightarrow> yamlParser \<Rightarrow> bool" where
  "selfBelow self self' \<longleftrightarrow> (\<forall>mode ls i d k. below (self mode ls i d k) (self' mode ls i d k))"

lemma selfBelowD [intro]: "selfBelow self self' \<Longrightarrow> below (self mode ls i d k) (self' mode ls i d k)"
  by (simp add: selfBelow_def)

lemma mappingValue_below:
  "selfBelow self self' \<Longrightarrow> below (mappingValue self limits l s rest i d k) (mappingValue self' limits l s rest i d k)"
  by (auto simp: mappingValue_def)

lemma sequenceItem_below:
  assumes "selfBelow self self'"
  shows "below (sequenceItem self limits l rest i d k) (sequenceItem self' limits l rest i d k)"
proof -
  have "below (sequenceMapping self limits l s rest i d k) (sequenceMapping self' limits l s rest i d k)" for s
    unfolding sequenceMapping_def
    by (rule below_bindY [OF below_refl])
      (auto intro!: below_bindY mappingValue_below [OF assms] selfBelowD [OF assms] split: prod.splits)
  then show ?thesis using assms by (auto simp: sequenceItem_def Let_def)
qed

lemma parseYaml_below: "selfBelow (parseYaml n limits) (parseYaml (Suc n) limits)"
proof (induction n)
  case 0
  then show ?case by (simp add: selfBelow_def)
next
  case (Suc n)
  let ?a = "parseYaml n limits" and ?b = "parseYaml (Suc n) limits"
  have "below (parseYamlNode ?a limits ls i d k) (parseYamlNode ?b limits ls i d k)" for ls i d k
    unfolding parseYamlNode_def by (simp del: parseYaml.simps add: selfBelowD [OF Suc])
  moreover have "below (parseSequence ?a limits vs ls i d k) (parseSequence ?b limits vs ls i d k)" for vs ls i d k
    unfolding parseSequence_def Let_def
    by (auto simp del: parseYaml.simps intro!: below_bindY sequenceItem_below [OF Suc] selfBelowD [OF Suc])
  moreover have "below (parseMapping ?a limits obj ls i d k) (parseMapping ?b limits obj ls i d k)" for obj ls i d k
    unfolding parseMapping_def Let_def
    by (auto simp del: parseYaml.simps intro!: below_bindY mappingValue_below [OF Suc] selfBelowD [OF Suc] split: prod.splits)
  ultimately show ?case
    unfolding selfBelow_def parseYaml.simps(2) [of "Suc n"] parseYaml.simps(2) [of n "limits"]
    by (simp del: parseYaml.simps add: parseYaml.simps(2) [symmetric] split: yamlMode.splits)
qed

lemma parseYaml_mono: "n \<le> n' \<Longrightarrow> selfBelow (parseYaml n limits) (parseYaml n' limits)"
proof (induction n' rule: dec_induct)
  case base
  then show ?case by (simp add: selfBelow_def)
next
  case (step m)
  then show ?case using parseYaml_below [of m limits] unfolding selfBelow_def below_def by metis
qed

section \<open>Evaluation without fuel\<close>

definition evaluates ::
    "restrictedYamlLimits \<Rightarrow> yamlMode \<Rightarrow> yamlLine list \<Rightarrow> nat \<Rightarrow> nat \<Rightarrow> nat \<Rightarrow> json \<times> yamlLine list \<times> nat \<Rightarrow> bool" where
  "evaluates limits mode ls i d k r \<longleftrightarrow> (\<exists>n. parseYaml n limits mode ls i d k = Some (Inr r))"

definition valueEvaluates ::
    "restrictedYamlLimits \<Rightarrow> yamlLine \<Rightarrow> jstring \<Rightarrow> yamlLine list \<Rightarrow> nat \<Rightarrow> nat \<Rightarrow> nat \<Rightarrow> json \<times> yamlLine list \<times> nat \<Rightarrow> bool" where
  "valueEvaluates limits l s rest i d k r \<longleftrightarrow> (\<exists>n. mappingValue (parseYaml n limits) limits l s rest i d k = Some (Inr r))"

definition itemEvaluates ::
    "restrictedYamlLimits \<Rightarrow> yamlLine \<Rightarrow> yamlLine list \<Rightarrow> nat \<Rightarrow> nat \<Rightarrow> nat \<Rightarrow> json \<times> yamlLine list \<times> nat \<Rightarrow> bool" where
  "itemEvaluates limits l rest i d k r \<longleftrightarrow> (\<exists>n. sequenceItem (parseYaml n limits) limits l rest i d k = Some (Inr r))"

lemma belowD: "below m m' \<Longrightarrow> m = Some r \<Longrightarrow> m' = Some r"
  by (simp add: below_def)

lemma parseYaml_more:
  assumes "parseYaml n limits mode ls i d k = Some r" "n \<le> n'" shows "parseYaml n' limits mode ls i d k = Some r"
  using belowD [OF selfBelowD [OF parseYaml_mono [OF assms(2)]] assms(1)] .

lemma mappingValue_more:
  assumes "mappingValue (parseYaml n limits) limits l s rest i d k = Some r" "n \<le> n'"
  shows "mappingValue (parseYaml n' limits) limits l s rest i d k = Some r"
  using belowD [OF mappingValue_below [OF parseYaml_mono [OF assms(2)]] assms(1)] .

lemma sequenceItem_more:
  assumes "sequenceItem (parseYaml n limits) limits l rest i d k = Some r" "n \<le> n'"
  shows "sequenceItem (parseYaml n' limits) limits l rest i d k = Some r"
  using belowD [OF sequenceItem_below [OF parseYaml_mono [OF assms(2)]] assms(1)] .

lemma evaluates_node:
  assumes "int d \<le> ym_maxDepth limits"
  shows "itemAt i ls \<Longrightarrow> evaluates limits (SequenceMode []) ls i d k r \<Longrightarrow> evaluates limits NodeMode ls i d k r"
    "keyAt i ls \<Longrightarrow> evaluates limits (MappingMode []) ls i d k r \<Longrightarrow> evaluates limits NodeMode ls i d k r"
proof -
  have "evaluates limits NodeMode ls i d k r"
    if c: "childAt i ls" and e: "evaluates limits (if itemAt i ls then SequenceMode [] else MappingMode []) ls i d k r"
  proof -
    obtain n where "parseYaml n limits (if itemAt i ls then SequenceMode [] else MappingMode []) ls i d k = Some (Inr r)"
      using e unfolding evaluates_def by blast
    then have "parseYaml (Suc n) limits NodeMode ls i d k = Some (Inr r)" using c assms by (simp add: parseYamlNode_def)
    then show ?thesis unfolding evaluates_def by blast
  qed
  then show "itemAt i ls \<Longrightarrow> evaluates limits (SequenceMode []) ls i d k r \<Longrightarrow> evaluates limits NodeMode ls i d k r"
    "keyAt i ls \<Longrightarrow> evaluates limits (MappingMode []) ls i d k r \<Longrightarrow> evaluates limits NodeMode ls i d k r"
    using childAt_iff [of i ls] not_itemAt_keyAt [of i ls] by (cases "itemAt i ls"; simp)+
qed

lemma evaluates_end:
  "\<not> itemAt i ls \<Longrightarrow> evaluates limits (SequenceMode vs) ls i d k (JArr vs, ls, k)"
  "\<not> keyAt i ls \<Longrightarrow> evaluates limits (MappingMode obj) ls i d k (JObj obj, ls, k)"
  unfolding evaluates_def by (rule exI [of _ 1]; simp add: parseSequence_def parseMapping_def)+

lemma evaluates_item:
  assumes "itemAt i (l # rest)" "yl_content l = js ''-'' \<or> startsWith (yl_content l) (js ''- '')"
    "int (k + 1) \<le> ym_maxNodes limits" "itemEvaluates limits l rest i d (k + 1) (x, ls1, k1)"
    "evaluates limits (SequenceMode (vs @ [x])) ls1 i d k1 r"
  shows "evaluates limits (SequenceMode vs) (l # rest) i d k r"
proof -
  obtain n m where n: "sequenceItem (parseYaml n limits) limits l rest i d (k + 1) = Some (Inr (x, ls1, k1))"
    and m: "parseYaml m limits (SequenceMode (vs @ [x])) ls1 i d k1 = Some (Inr r)"
    using assms(4,5) unfolding itemEvaluates_def evaluates_def by blast
  have "parseSequence (parseYaml (max n m) limits) limits vs (l # rest) i d k = Some (Inr r)"
    unfolding parseSequence_Inr
    using assms(1-3) sequenceItem_more [OF n, of "max n m"] parseYaml_more [OF m, of "max n m"] by auto
  then show ?thesis unfolding evaluates_def by (intro exI [of _ "Suc (max n m)"]) simp
qed

lemma evaluates_member:
  assumes "keyAt i (l # rest)" "int (k + 1) \<le> ym_maxNodes limits" "splitMapping (yl_content l) (yl_line l) = Inr (key, s)"
    "map_of obj key = None" "valueEvaluates limits l s rest (i + 2) (d + 1) (k + 1) (x, ls1, k1)"
    "evaluates limits (MappingMode (obj @ [(key, x)])) ls1 i d k1 r"
  shows "evaluates limits (MappingMode obj) (l # rest) i d k r"
proof -
  obtain n m where n: "mappingValue (parseYaml n limits) limits l s rest (i + 2) (d + 1) (k + 1) = Some (Inr (x, ls1, k1))"
    and m: "parseYaml m limits (MappingMode (obj @ [(key, x)])) ls1 i d k1 = Some (Inr r)"
    using assms(5,6) unfolding valueEvaluates_def evaluates_def by blast
  have "parseMapping (parseYaml (max n m) limits) limits obj (l # rest) i d k = Some (Inr r)"
    unfolding parseMapping_Inr
    using assms(1-4) mappingValue_more [OF n, of "max n m"] parseYaml_more [OF m, of "max n m"] by auto
  then show ?thesis unfolding evaluates_def by (intro exI [of _ "Suc (max n m)"]) simp
qed

lemma valueEvaluates_scalar:
  "s \<noteq> [] \<Longrightarrow> parseScalar s (yl_line l) (ym_maxScalarLength limits) = Inr v \<Longrightarrow>
   valueEvaluates limits l s rest i d k (v, rest, k)"
  by (simp add: valueEvaluates_def mappingValue_def)

lemma valueEvaluates_child:
  "childAt i rest \<Longrightarrow> evaluates limits NodeMode rest i d k r \<Longrightarrow> valueEvaluates limits l [] rest i d k r"
  by (simp add: valueEvaluates_def mappingValue_def evaluates_def)

lemma itemEvaluates_child:
  "yl_content l = js ''-'' \<Longrightarrow> childAt (i + 2) rest \<Longrightarrow> evaluates limits NodeMode rest (i + 2) (d + 1) k r \<Longrightarrow>
   itemEvaluates limits l rest i d k r"
  by (simp add: itemEvaluates_def sequenceItem_def evaluates_def)

lemma itemEvaluates_scalar:
  "yl_content l = 45 # 32 # s \<Longrightarrow> s \<noteq> [] \<Longrightarrow> \<not> startsWithKey s \<Longrightarrow>
   parseScalar s (yl_line l) (ym_maxScalarLength limits) = Inr v \<Longrightarrow> itemEvaluates limits l rest i d k (v, rest, k)"
  by (simp add: itemEvaluates_def sequenceItem_def js_def)

lemma itemEvaluates_mapping:
  assumes "yl_content l = 45 # 32 # s" "s \<noteq> []" "startsWithKey s" "splitMapping s (yl_line l) = Inr (key, t)"
    "valueEvaluates limits l t rest (i + 4) (d + 2) k (x, ls1, k1)"
  shows "\<not> keyAt (i + 2) ls1 \<Longrightarrow> itemEvaluates limits l rest i d k (JObj [(key, x)], ls1, k1)"
    "keyAt (i + 2) ls1 \<Longrightarrow> evaluates limits NodeMode ls1 (i + 2) (d + 1) k1 (JObj kvs, ls2, k2) \<Longrightarrow>
     \<forall>(k, v) \<in> set kvs. k \<noteq> key \<Longrightarrow> itemEvaluates limits l rest i d k (JObj ((key, x) # kvs), ls2, k2)"
proof -
  obtain n where n: "mappingValue (parseYaml n limits) limits l t rest (i + 4) (d + 2) k = Some (Inr (x, ls1, k1))"
    using assms(5) unfolding valueEvaluates_def by blast
  have c: "yl_content l \<noteq> js ''-''" "drop 2 (yl_content l) = s" using assms(1) by (simp_all add: js_def)
  show "itemEvaluates limits l rest i d k (JObj [(key, x)], ls1, k1)" if "\<not> keyAt (i + 2) ls1"
    unfolding itemEvaluates_def sequenceItem_def sequenceMapping_def
    using that n c assms(2-4) by (intro exI [of _ n]) (simp add: liftY_def)
  show "itemEvaluates limits l rest i d k (JObj ((key, x) # kvs), ls2, k2)"
    if key: "keyAt (i + 2) ls1" and e: "evaluates limits NodeMode ls1 (i + 2) (d + 1) k1 (JObj kvs, ls2, k2)"
      and f: "\<forall>(k, v) \<in> set kvs. k \<noteq> key"
  proof -
    obtain m where m: "parseYaml m limits NodeMode ls1 (i + 2) (d + 1) k1 = Some (Inr (JObj kvs, ls2, k2))"
      using e unfolding evaluates_def by blast
    have "mergeTail [(key, x)] (yl_line l) (JObj kvs) = Inr (JObj ((key, x) # kvs))"
      using f by (auto simp: mergeTail_def list_ex_iff)
    then show ?thesis
      unfolding itemEvaluates_def sequenceItem_def sequenceMapping_def
      using key c assms(2-4) mappingValue_more [OF n, of "max n m"] parseYaml_more [OF m, of "max n m"]
      by (intro exI [of _ "max n m"]) (simp add: liftY_def)
  qed
qed

section \<open>A written document is read back\<close>

definition shape :: "yamlLine list \<Rightarrow> (nat \<times> jstring) list" where
  "shape ls = map (\<lambda>l. (yl_indent l, yl_content l)) ls"

text \<open>Nothing of a container at this indentation follows.\<close>

definition ended :: "nat \<Rightarrow> yamlLine list \<Rightarrow> bool" where
  "ended i rest = (case rest of [] \<Rightarrow> True | l # _ \<Rightarrow> yl_indent l < i)"

lemma ended_mono: "ended i rest \<Longrightarrow> i \<le> j \<Longrightarrow> ended j rest"
  by (auto simp: ended_def split: list.splits)

lemma ended_not: "ended i rest \<Longrightarrow> \<not> itemAt i rest \<and> \<not> keyAt i rest"
  by (auto simp: ended_def itemAt_def keyAt_def split: list.splits)

lemma shape_Nil [simp]: "shape ls = [] \<longleftrightarrow> ls = []"
  by (simp add: shape_def)

lemma shape_ConsE:
  assumes "shape ls = (i, c) # ps"
  obtains l ls' where "ls = l # ls'" "yl_indent l = i" "yl_content l = c" "shape ls' = ps"
  using assms by (cases ls) (auto simp: shape_def)

lemma shape_appendE:
  assumes "shape ls = ps @ qs" obtains ls1 ls2 where "ls = ls1 @ ls2" "shape ls1 = ps" "shape ls2 = qs"
  using assms unfolding shape_def by (auto simp: map_eq_append_conv)

definition nodeWritten :: "restrictedYamlLimits \<Rightarrow> json \<Rightarrow> bool" where
  "nodeWritten limits j \<longleftrightarrow> (\<forall>ls rest i d k. shape ls = yamlNode False i j \<longrightarrow> ended i rest \<longrightarrow> yamlable limits d j \<longrightarrow>
     int (k + entries j) \<le> ym_maxNodes limits \<longrightarrow>
     childAt i (ls @ rest) \<and> (\<exists>k'. k' \<le> k + entries j \<and> evaluates limits NodeMode (ls @ rest) i d k (j, rest, k')))"

definition itemWritten :: "restrictedYamlLimits \<Rightarrow> json \<Rightarrow> bool" where
  "itemWritten limits j \<longleftrightarrow> (\<forall>ls rest i d k. shape ls = yamlNode True i j \<longrightarrow> ended (i + 1) rest \<longrightarrow> yamlable limits (d + 1) j \<longrightarrow>
     int (k + 1 + entries j) \<le> ym_maxNodes limits \<longrightarrow>
     (\<exists>l ls' k'. ls = l # ls' \<and> itemAt i (l # ls' @ rest) \<and> (yl_content l = js ''-'' \<or> startsWith (yl_content l) (js ''- '')) \<and>
        k' \<le> k + 1 + entries j \<and> itemEvaluates limits l (ls' @ rest) i d (k + 1) (j, rest, k')))"

lemma nodeWrittenD:
  assumes "nodeWritten limits j" "shape ls = yamlNode False i j" "ended i rest" "yamlable limits d j"
    "int (k + entries j) \<le> ym_maxNodes limits"
  obtains k' where "childAt i (ls @ rest)" "k' \<le> k + entries j" "evaluates limits NodeMode (ls @ rest) i d k (j, rest, k')"
  using assms unfolding nodeWritten_def by blast

lemma value_written:
  assumes "isContainer v \<Longrightarrow> nodeWritten limits v" "yamlable limits d v" "int (k + entries v) \<le> ym_maxNodes limits" "ended i rest"
    "isContainer v \<Longrightarrow> s = [] \<and> shape ls = yamlNode False i v" "\<not> isContainer v \<Longrightarrow> s = yamlScalar v \<and> ls = []"
  obtains k' where "k' \<le> k + entries v" "valueEvaluates limits l s (ls @ rest) i d k (v, rest, k')"
proof (cases "isContainer v")
  case True
  then have s: "s = []" and sh: "shape ls = yamlNode False i v" using assms(5) by auto
  obtain k' where k: "childAt i (ls @ rest)" "k' \<le> k + entries v" "evaluates limits NodeMode (ls @ rest) i d k (v, rest, k')"
    by (rule nodeWrittenD [OF assms(1) [OF True] sh assms(4,2,3)])
  show ?thesis using that [OF k(2)] valueEvaluates_child [OF k(1,3)] s by blast
next
  case False
  then have "scalarFits limits v" using assms(2) by (cases v) auto
  then have "parseScalar (yamlScalar v) (yl_line l) (ym_maxScalarLength limits) = Inr v"
    using False by (rule parseScalar_yamlScalar)
  moreover have "yamlScalar v \<noteq> []" by (rule yamlScalar_first [OF False]) simp
  ultimately have "valueEvaluates limits l s (ls @ rest) i d k (v, rest, k)"
    using assms(6) [OF False] by (auto intro: valueEvaluates_scalar)
  then show ?thesis by (rule that [rotated]) simp
qed

text \<open>The lines of a member, after a prefix.\<close>

definition memberLines :: "nat \<Rightarrow> jstring \<Rightarrow> nat \<Rightarrow> jstring \<times> json \<Rightarrow> (nat \<times> jstring) list" where
  "memberLines i prefix i' kv = (case kv of (k, v) \<Rightarrow>
     if isContainer v then (i, prefix @ k @ [58]) # yamlNode False i' v else [(i, prefix @ k @ 58 # 32 # yamlScalar v)])"

lemma yamlNode_object: "yamlNode False i (JObj kvs) = concat (map (memberLines i [] (i + 2)) kvs)"
proof -
  have "memberLines i [] (i + 2) = (\<lambda>(k, v).
     if isContainer v then (i, k @ [58]) # yamlNode False (i + 2) v else [(i, k @ 58 # 32 # yamlScalar v)])"
    by (auto simp: memberLines_def)
  then show ?thesis by simp
qed

lemma yamlNode_item_object:
  "yamlNode True i (JObj (kv # kvs)) = memberLines i [45, 32] (i + 4) kv @ yamlNode False (i + 2) (JObj kvs)"
  by (cases kv) (simp add: memberLines_def split_def eval_nat_numeral cong: if_cong)

lemma memberLinesE:
  assumes "shape ls = memberLines i prefix i' (k, v)" "yamlKey k" "k \<notin> set protectedKeys"
  obtains l ls' s c where "ls = l # ls'" "yl_indent l = i" "yl_content l = prefix @ c" "splitMapping c (yl_line l) = Inr (k, s)"
    "startsWithKey c" "isContainer v \<Longrightarrow> s = [] \<and> shape ls' = yamlNode False i' v"
    "\<not> isContainer v \<Longrightarrow> s = yamlScalar v \<and> ls' = []"
proof (cases "isContainer v")
  case True
  then have "shape ls = (i, prefix @ k @ [58]) # yamlNode False i' v" using assms(1) by (simp add: memberLines_def)
  then obtain l ls' where "ls = l # ls'" "yl_indent l = i" "yl_content l = prefix @ k @ [58]" "shape ls' = yamlNode False i' v"
    by (rule shape_ConsE)
  then show ?thesis using that [of l ls' "k @ [58]" "[]"] True splitMapping_member [OF assms(2,3)] by simp
next
  case False
  then have "shape ls = (i, prefix @ k @ 58 # 32 # yamlScalar v) # []" using assms(1) by (simp add: memberLines_def)
  then obtain l ls' where l: "ls = l # ls'" "yl_indent l = i" "yl_content l = prefix @ k @ 58 # 32 # yamlScalar v" "ls' = []"
    by (rule shape_ConsE) simp
  obtain c s where "yamlScalar v = c # s" "\<not> isWhite c" by (rule yamlScalar_first [OF False])
  then show ?thesis
    using that [of l ls' "k @ 58 # 32 # yamlScalar v" "yamlScalar v"] l False splitMapping_member [OF assms(2,3)] by blast
qed

lemma key_not_dash: "startsWithKey c \<Longrightarrow> c \<noteq> [] \<and> \<not> startsWith c (js ''-'')"
  by (cases c) (auto simp: startsWithKey_def yamlKey_def js_def isKeyUnit_def isKeyStart_def inCls_def rng_def split: if_splits)

lemma ended_shape:
  "shape ls = concat (map (memberLines i [] i') kvs) \<Longrightarrow> ended j rest \<Longrightarrow> i < j \<Longrightarrow> ended j (ls @ rest)"
  by (cases kvs; cases ls) (auto simp: ended_def memberLines_def shape_def split: if_splits prod.splits)

lemma mapping_written:
  assumes "\<And>k v. (k, v) \<in> set kvs \<Longrightarrow> isContainer v \<Longrightarrow> nodeWritten limits v"
    "shape ls = concat (map (memberLines i [] (i + 2)) kvs)" "ended i rest"
    "list_all (\<lambda>(k, v). yamlKey k \<and> k \<notin> set protectedKeys \<and> yamlable limits (d + 1) v) kvs"
    "distinct (map fst kvs)" "fst ` set kvs \<inter> fst ` set obj = {}" "int (n + entries (JObj kvs)) \<le> ym_maxNodes limits"
  shows "\<exists>n'. n' \<le> n + entries (JObj kvs) \<and> evaluates limits (MappingMode obj) (ls @ rest) i d n (JObj (obj @ kvs), rest, n')"
  using assms
proof (induction kvs arbitrary: obj ls n)
  case Nil
  then show ?case using evaluates_end(2) [of i rest limits obj d n] ended_not [of i rest] by auto
next
  case (Cons kv kvs)
  obtain k v where kv: "kv = (k, v)" by (cases kv)
  have sh: "shape ls = memberLines i [] (i + 2) (k, v) @ concat (map (memberLines i [] (i + 2)) kvs)"
    using Cons.prems(2) kv by simp
  then obtain ls1 ls2 where ls: "ls = ls1 @ ls2" and s1: "shape ls1 = memberLines i [] (i + 2) (k, v)"
    and s2: "shape ls2 = concat (map (memberLines i [] (i + 2)) kvs)" by (rule shape_appendE)
  have safe: "yamlKey k" "k \<notin> set protectedKeys" "yamlable limits (d + 1) v" using Cons.prems(4) kv by auto
  from memberLinesE [OF s1 safe(1,2)] obtain l ls' s c where l: "ls1 = l # ls'" "yl_indent l = i" "yl_content l = c"
    "splitMapping c (yl_line l) = Inr (k, s)" "startsWithKey c" "isContainer v \<Longrightarrow> s = [] \<and> shape ls' = yamlNode False (i + 2) v"
    "\<not> isContainer v \<Longrightarrow> s = yamlScalar v \<and> ls' = []" by (metis append_Nil)
  have count: "int ((n + 1) + entries v) \<le> ym_maxNodes limits" using Cons.prems(7) kv by simp
  have e: "ended (i + 2) (ls2 @ rest)" using ended_shape [OF s2 ended_mono [OF Cons.prems(3)]] by simp
  from value_written [OF Cons.prems(1) safe(3) count e l(6,7)] kv obtain n1 where
    n1: "n1 \<le> (n + 1) + entries v" "valueEvaluates limits l s (ls' @ ls2 @ rest) (i + 2) (d + 1) (n + 1) (v, ls2 @ rest, n1)"
    by (metis list.set_intros(1))
  have "\<exists>n'. n' \<le> n1 + entries (JObj kvs) \<and>
      evaluates limits (MappingMode (obj @ [(k, v)])) (ls2 @ rest) i d n1 (JObj ((obj @ [(k, v)]) @ kvs), rest, n')"
  proof (rule Cons.IH [OF _ s2 Cons.prems(3)])
    show "int (n1 + entries (JObj kvs)) \<le> ym_maxNodes limits" using Cons.prems(7) n1(1) kv by simp
  qed (use Cons.prems kv in auto)
  then obtain n' where n': "n' \<le> n1 + entries (JObj kvs)"
    "evaluates limits (MappingMode (obj @ [(k, v)])) (ls2 @ rest) i d n1 (JObj (obj @ (k, v) # kvs), rest, n')" by auto
  have "evaluates limits (MappingMode obj) (l # ls' @ ls2 @ rest) i d n (JObj (obj @ (k, v) # kvs), rest, n')"
  proof (rule evaluates_member [OF _ _ _ _ n1(2) n'(2)])
    show "keyAt i (l # ls' @ ls2 @ rest)" using l(2,3) key_not_dash [OF l(5)] by (simp add: keyAt_def)
    show "splitMapping (yl_content l) (yl_line l) = Inr (k, s)" using l by simp
    show "map_of obj k = None" using Cons.prems(6) kv by (auto simp: map_of_eq_None_iff)
    show "int (n + 1) \<le> ym_maxNodes limits" using count by simp
  qed
  then show ?case using ls l(1) kv n' n1(1) by (intro exI [of _ n']) simp
qed

lemma ended_items:
  assumes "shape ls = concat (map (yamlNode True i) xs)" "ended i rest"
  shows "ended (i + 1) (ls @ rest)"
proof (cases ls)
  case Nil
  then show ?thesis using ended_mono [OF assms(2), of "i + 1"] by simp
next
  case (Cons l ls')
  have first: "fst p = i" if "yamlNode True i x = p # q" for x p q
  proof (cases x)
    case (JObj kvs)
    then show ?thesis using that by (cases kvs) (auto split: prod.splits if_splits)
  qed (use that in auto)
  have "fst p = i" if "concat (map (yamlNode True i) xs) = p # q" for p q
    using that
  proof (induction xs)
    case (Cons x xs)
    then show ?case using first [of x] by (cases "yamlNode True i x") auto
  qed simp
  from this [of "(yl_indent l, yl_content l)" "shape ls'"] show ?thesis using assms(1) Cons by (simp add: shape_def ended_def)
qed

lemma entries_member: "(k, v) \<in> set kvs \<Longrightarrow> entries v \<le> entries (JObj kvs)"
  by (induction kvs) auto

lemma node_written_object:
  assumes "\<And>k v. (k, v) \<in> set kvs \<Longrightarrow> isContainer v \<Longrightarrow> nodeWritten limits v"
  shows "nodeWritten limits (JObj kvs)"
  unfolding nodeWritten_def
proof (intro allI impI)
  fix ls rest i d n
  assume sh: "shape ls = yamlNode False i (JObj kvs)" and e: "ended i rest" and y: "yamlable limits d (JObj kvs)"
    and c: "int (n + entries (JObj kvs)) \<le> ym_maxNodes limits"
  have sh: "shape ls = concat (map (memberLines i [] (i + 2)) kvs)" using sh by (simp only: yamlNode_object)
  have "\<exists>n'. n' \<le> n + entries (JObj kvs) \<and> evaluates limits (MappingMode []) (ls @ rest) i d n (JObj ([] @ kvs), rest, n')"
  proof (rule mapping_written [OF _ sh e])
    show "nodeWritten limits v" if "(k, v) \<in> set kvs" "isContainer v" for k v by (rule assms [OF that])
  qed (use y c in auto)
  then obtain n' where n': "n' \<le> n + entries (JObj kvs)"
    "evaluates limits (MappingMode []) (ls @ rest) i d n (JObj kvs, rest, n')" by auto
  obtain kv kvs' where kvs: "kvs = kv # kvs'" using y by (cases kvs) auto
  obtain k v where kv: "kv = (k, v)" by (cases kv)
  obtain l ls' where l: "ls = l # ls'" "yl_indent l = i" "\<not> startsWith (yl_content l) (js ''-'')"
  proof -
    have safe: "yamlKey k" "k \<notin> set protectedKeys" using y kvs kv by auto
    from sh obtain ls1 ls2 where s: "ls = ls1 @ ls2" "shape ls1 = memberLines i [] (i + 2) (k, v)"
      unfolding kvs kv list.map concat.simps by (rule shape_appendE)
    from memberLinesE [OF s(2) safe] obtain l ls' c where "ls1 = l # ls'" "yl_indent l = i" "yl_content l = c" "startsWithKey c"
      by (metis append_Nil)
    then show thesis using that s(1) key_not_dash by auto
  qed
  have key: "keyAt i (ls @ rest)" using l by (simp add: keyAt_def)
  have "evaluates limits NodeMode (ls @ rest) i d n (JObj kvs, rest, n')"
    by (rule evaluates_node(2) [OF _ key n'(2)]) (use y in simp)
  then show "childAt i (ls @ rest) \<and> (\<exists>k'\<le>n + entries (JObj kvs). evaluates limits NodeMode (ls @ rest) i d n (JObj kvs, rest, k'))"
    using n'(1) key by (auto simp: childAt_iff)
qed

lemma sequence_written:
  assumes "\<And>x. x \<in> set xs \<Longrightarrow> itemWritten limits x" "shape ls = concat (map (yamlNode True i) xs)" "ended i rest"
    "list_all (yamlable limits (d + 1)) xs" "int (n + entries (JArr xs)) \<le> ym_maxNodes limits"
  shows "\<exists>n'. n' \<le> n + entries (JArr xs) \<and> evaluates limits (SequenceMode vs) (ls @ rest) i d n (JArr (vs @ xs), rest, n') \<and>
    (xs \<noteq> [] \<longrightarrow> itemAt i (ls @ rest))"
  using assms
proof (induction xs arbitrary: vs ls n)
  case Nil
  then show ?case using evaluates_end(1) [of i rest limits vs d n] ended_not [of i rest] by auto
next
  case (Cons x xs)
  from Cons.prems(2) obtain ls1 ls2 where ls: "ls = ls1 @ ls2" and s1: "shape ls1 = yamlNode True i x"
    and s2: "shape ls2 = concat (map (yamlNode True i) xs)" by (auto elim: shape_appendE)
  have y: "yamlable limits (d + 1) x" using Cons.prems(4) by simp
  have c: "int (n + 1 + entries x) \<le> ym_maxNodes limits" using Cons.prems(5) by simp
  have "itemWritten limits x" using Cons.prems(1) by simp
  then obtain l ls' n1 where l: "ls1 = l # ls'" "itemAt i (l # ls' @ ls2 @ rest)"
      "yl_content l = js ''-'' \<or> startsWith (yl_content l) (js ''- '')" "n1 \<le> n + 1 + entries x"
      "itemEvaluates limits l (ls' @ ls2 @ rest) i d (n + 1) (x, ls2 @ rest, n1)"
    using s1 ended_items [OF s2 Cons.prems(3)] y c unfolding itemWritten_def by blast
  have "\<exists>n'. n' \<le> n1 + entries (JArr xs) \<and>
      evaluates limits (SequenceMode (vs @ [x])) (ls2 @ rest) i d n1 (JArr ((vs @ [x]) @ xs), rest, n') \<and>
      (xs \<noteq> [] \<longrightarrow> itemAt i (ls2 @ rest))"
    by (rule Cons.IH [OF _ s2 Cons.prems(3)]) (use Cons.prems l(4) in auto)
  then obtain n' where n': "n' \<le> n1 + entries (JArr xs)"
    "evaluates limits (SequenceMode (vs @ [x])) (ls2 @ rest) i d n1 (JArr (vs @ x # xs), rest, n')" by auto
  have "evaluates limits (SequenceMode vs) (l # ls' @ ls2 @ rest) i d n (JArr (vs @ x # xs), rest, n')"
    by (rule evaluates_item [OF l(2,3) _ l(5) n'(2)]) (use c in simp)
  then show ?case using ls l n' by (intro exI [of _ n']) simp
qed

lemma node_written_array:
  assumes "\<And>x. x \<in> set xs \<Longrightarrow> itemWritten limits x" shows "nodeWritten limits (JArr xs)"
  unfolding nodeWritten_def
proof (intro allI impI)
  fix ls rest i d n
  assume sh: "shape ls = yamlNode False i (JArr xs)" and e: "ended i rest" and y: "yamlable limits d (JArr xs)"
    and c: "int (n + entries (JArr xs)) \<le> ym_maxNodes limits"
  obtain n' where n': "n' \<le> n + entries (JArr xs)" "evaluates limits (SequenceMode []) (ls @ rest) i d n (JArr xs, rest, n')"
    "itemAt i (ls @ rest)"
    using sequence_written [OF assms _ e, where ls = ls and d = d and n = n and vs = "[]"] sh y c by auto
  have "evaluates limits NodeMode (ls @ rest) i d n (JArr xs, rest, n')"
    by (rule evaluates_node(1) [OF _ n'(3,2)]) (use y in simp)
  then show "childAt i (ls @ rest) \<and> (\<exists>k'\<le>n + entries (JArr xs). evaluates limits NodeMode (ls @ rest) i d n (JArr xs, rest, k'))"
    using n' by (auto simp: childAt_iff)
qed

lemma item_written_scalar:
  assumes "\<not> isContainer v" shows "itemWritten limits v"
  unfolding itemWritten_def
proof (intro allI impI)
  fix ls rest i d k
  assume "shape ls = yamlNode True i v" and y: "yamlable limits (d + 1) v"
  then have "shape ls = (i, 45 # 32 # yamlScalar v) # []" using assms by (cases v) simp_all
  then obtain l where l: "ls = [l]" "yl_indent l = i" "yl_content l = 45 # 32 # yamlScalar v" by (rule shape_ConsE) simp
  have f: "scalarFits limits v" using y assms by (cases v) auto
  obtain c s where s: "yamlScalar v = c # s" "\<not> startsWithKey (yamlScalar v)" by (rule yamlScalar_first [OF assms])
  have "itemEvaluates limits l rest i d (k + 1) (v, rest, k + 1)"
    by (rule itemEvaluates_scalar [OF l(3) _ s(2) parseScalar_yamlScalar [OF f assms]]) (simp add: s)
  then show "\<exists>l ls' k'. ls = l # ls' \<and> itemAt i (l # ls' @ rest) \<and> (yl_content l = js ''-'' \<or> startsWith (yl_content l) (js ''- '')) \<and>
      k' \<le> k + 1 + entries v \<and> itemEvaluates limits l (ls' @ rest) i d (k + 1) (v, rest, k')"
    using l by (intro exI [of _ l] exI [of _ "[]"] exI [of _ "k + 1"]) (simp add: itemAt_def js_def)
qed

lemma item_written_array:
  assumes "nodeWritten limits (JArr xs)" shows "itemWritten limits (JArr xs)"
  unfolding itemWritten_def
proof (intro allI impI)
  fix ls rest i d k
  assume sh: "shape ls = yamlNode True i (JArr xs)" and e: "ended (i + 1) rest" and y: "yamlable limits (d + 1) (JArr xs)"
    and c: "int (k + 1 + entries (JArr xs)) \<le> ym_maxNodes limits"
  from sh have "shape ls = (i, [45]) # yamlNode False (i + 2) (JArr xs)" by simp
  then obtain l ls' where l: "ls = l # ls'" "yl_indent l = i" "yl_content l = [45]" "shape ls' = yamlNode False (i + 2) (JArr xs)"
    by (rule shape_ConsE)
  have e2: "ended (i + 2) rest" using ended_mono [OF e, of "i + 2"] by simp
  obtain k' where k': "childAt (i + 2) (ls' @ rest)" "k' \<le> k + 1 + entries (JArr xs)"
      "evaluates limits NodeMode (ls' @ rest) (i + 2) (d + 1) (k + 1) (JArr xs, rest, k')"
    by (rule nodeWrittenD [OF assms l(4) e2 y c])
  have dash: "yl_content l = js ''-''" using l(3) by (simp add: js_def)
  from itemEvaluates_child [OF dash k'(1,3)]
  show "\<exists>l ls' k'. ls = l # ls' \<and> itemAt i (l # ls' @ rest) \<and> (yl_content l = js ''-'' \<or> startsWith (yl_content l) (js ''- '')) \<and>
      k' \<le> k + 1 + entries (JArr xs) \<and> itemEvaluates limits l (ls' @ rest) i d (k + 1) (JArr xs, rest, k')"
    using l(1,2) dash k'(2) by (intro exI [of _ l] exI [of _ ls'] exI [of _ k']) (simp add: itemAt_def)
qed

lemma item_written_object:
  assumes w: "\<And>k v. (k, v) \<in> set kvs \<Longrightarrow> isContainer v \<Longrightarrow> nodeWritten limits v"
  shows "itemWritten limits (JObj kvs)"
  unfolding itemWritten_def
proof (intro allI impI)
  fix ls rest i d n
  assume sh: "shape ls = yamlNode True i (JObj kvs)" and e: "ended (i + 1) rest" and y: "yamlable limits (d + 1) (JObj kvs)"
    and c: "int (n + 1 + entries (JObj kvs)) \<le> ym_maxNodes limits"
  obtain k v kvs' where kvs: "kvs = (k, v) # kvs'" using y by (cases kvs) auto
  have safe: "yamlKey k" "k \<notin> set protectedKeys" "yamlable limits (d + 2) v" using y kvs by auto
  from sh obtain ls1 ls2 where ls: "ls = ls1 @ ls2" and s1: "shape ls1 = memberLines i [45, 32] (i + 4) (k, v)"
    and s2: "shape ls2 = yamlNode False (i + 2) (JObj kvs')" unfolding kvs yamlNode_item_object by (rule shape_appendE)
  obtain l ls' s t where l: "ls1 = l # ls'" "yl_indent l = i" "yl_content l = [45, 32] @ t"
    "splitMapping t (yl_line l) = Inr (k, s)" "startsWithKey t" "isContainer v \<Longrightarrow> s = [] \<and> shape ls' = yamlNode False (i + 4) v"
    "\<not> isContainer v \<Longrightarrow> s = yamlScalar v \<and> ls' = []" using memberLinesE [OF s1 safe(1,2)] by metis
  have e2: "ended (i + 4) (ls2 @ rest)"
    by (rule ended_shape [OF s2 [unfolded yamlNode_object] ended_mono [OF e]]) simp_all
  have c1: "int (n + 1 + entries v) \<le> ym_maxNodes limits" using c kvs by simp
  obtain n1 where n1: "n1 \<le> n + 1 + entries v"
      "valueEvaluates limits l s (ls' @ ls2 @ rest) (i + 4) (d + 2) (n + 1) (v, ls2 @ rest, n1)"
  proof (rule value_written [OF _ safe(3) c1 e2 l(6,7)])
    show "isContainer v \<Longrightarrow> nodeWritten limits v" using w [of k v] kvs by simp
  qed
  have t: "yl_content l = 45 # 32 # t" "t \<noteq> []" using l(3) key_not_dash [OF l(5)] by auto
  note item = itemEvaluates_mapping [OF t l(5,4) n1(2)]
  have "\<exists>n'. n' \<le> n + 1 + entries (JObj kvs) \<and> itemEvaluates limits l (ls' @ ls2 @ rest) i d (n + 1) (JObj kvs, rest, n')"
  proof (cases "kvs' = []")
    case True
    then have "ls2 = []" using s2 by simp
    then show ?thesis using item(1) n1(1) ended_not [OF ended_mono [OF e, of "i + 2"]] True kvs by (intro exI [of _ n1]) simp
  next
    case False
    have y2: "yamlable limits (d + 1) (JObj kvs')" using y kvs False by simp
    have c2: "int (n1 + entries (JObj kvs')) \<le> ym_maxNodes limits" using c n1(1) kvs by simp
    have nw: "nodeWritten limits (JObj kvs')" by (rule node_written_object) (use w kvs in auto)
    obtain n' where n': "childAt (i + 2) (ls2 @ rest)" "n' \<le> n1 + entries (JObj kvs')"
        "evaluates limits NodeMode (ls2 @ rest) (i + 2) (d + 1) n1 (JObj kvs', rest, n')"
      by (rule nodeWrittenD [OF nw s2 ended_mono [OF e] y2 c2]) simp_all
    have "keyAt (i + 2) (ls2 @ rest)"
    proof -
      obtain kv kvs2 where k2: "kvs' = kv # kvs2" using False by (cases kvs') auto
      obtain k' v' where kv: "kv = (k', v')" by (cases kv)
      have safe': "yamlKey k'" "k' \<notin> set protectedKeys" using y2 k2 kv by auto
      from s2 obtain ls3 ls4 where s: "ls2 = ls3 @ ls4" "shape ls3 = memberLines (i + 2) [] (i + 2 + 2) (k', v')"
        unfolding yamlNode_object k2 kv list.map concat.simps by (rule shape_appendE)
      from memberLinesE [OF s(2) safe'] obtain l2 ls5 c where "ls3 = l2 # ls5" "yl_indent l2 = i + 2" "yl_content l2 = c" "startsWithKey c"
        by (metis append_Nil)
      then show ?thesis using s(1) key_not_dash by (simp add: keyAt_def)
    qed
    moreover have "\<forall>(k', v') \<in> set kvs'. k' \<noteq> k" using y kvs by force
    ultimately show ?thesis using item(2) n'(2,3) n1(1) kvs by (intro exI [of _ n']) simp
  qed
  then obtain n' where n': "n' \<le> n + 1 + entries (JObj kvs)"
    "itemEvaluates limits l (ls' @ ls2 @ rest) i d (n + 1) (JObj kvs, rest, n')" by blast
  show "\<exists>l ls' k'. ls = l # ls' \<and> itemAt i (l # ls' @ rest) \<and> (yl_content l = js ''-'' \<or> startsWith (yl_content l) (js ''- '')) \<and>
      k' \<le> n + 1 + entries (JObj kvs) \<and> itemEvaluates limits l (ls' @ rest) i d (n + 1) (JObj kvs, rest, k')"
    using ls l(1,2) t n' by (intro exI [of _ l] exI [of _ "ls' @ ls2"] exI [of _ n']) (simp add: itemAt_def js_def)
qed

lemma all_written: "(isContainer j \<longrightarrow> nodeWritten limits j) \<and> itemWritten limits j"
proof (induction j)
  case (JArr xs)
  then have "nodeWritten limits (JArr xs)" by (intro node_written_array) auto
  then show ?case by (auto intro: item_written_array)
next
  case (JObj kvs)
  have w: "nodeWritten limits v" if "(k, v) \<in> set kvs" "isContainer v" for k v
    using JObj.IH [OF that(1), of v] that(2) by simp
  then show ?case using node_written_object [of kvs limits] item_written_object [of kvs limits] by blast
qed (simp_all add: item_written_scalar)

lemma evaluates_fuel:
  assumes "evaluates limits NodeMode ls i d k r"
  shows "parseYaml (yamlFuel ls) limits NodeMode ls i d k = Some (Inr r)"
proof -
  obtain n where n: "parseYaml n limits NodeMode ls i d k = Some (Inr r)" using assms unfolding evaluates_def by blast
  have "parseYaml (yamlFuel ls) limits NodeMode ls i d k \<noteq> None"
    by (rule enoughD [OF parseYaml_enough]) (simp add: yamlFuel_def)
  then obtain q where q: "parseYaml (yamlFuel ls) limits NodeMode ls i d k = Some q" by (rule not_None_eq [THEN iffD1, THEN exE])
  have "q = Inr r"
    using parseYaml_more [OF n, of "max n (yamlFuel ls)"] parseYaml_more [OF q, of "max n (yamlFuel ls)"] by simp
  then show ?thesis using q by simp
qed

section \<open>The text of the lines\<close>

text \<open>The characters a printed line is made of.\<close>

definition goodUnit :: "16 word \<Rightarrow> bool" where
  "goodUnit c = (c \<notin> set [9, 10, 13, 39, 62, 91, 123, 124])"

definition cleanContent :: "jstring \<Rightarrow> bool" where
  "cleanContent c \<longleftrightarrow> list_all goodUnit c \<and> (yamlKey (takeWhile isKeyUnit c) \<or> c = [45] \<or> startsWith c [45, 32])"

definition cleanLine :: "nat \<times> jstring \<Rightarrow> bool" where
  "cleanLine p \<longleftrightarrow> even (fst p) \<and> cleanContent (snd p)"

lemma goodUnit_key: "isKeyUnit c \<Longrightarrow> goodUnit c"
  by (auto simp: isKeyUnit_def isKeyStart_def isDigit_def inCls_def rng_def goodUnit_def)

lemma goodUnit_number: "isNumChar c \<Longrightarrow> goodUnit c"
  by (auto simp: isNumChar_def isDigit_def goodUnit_def)

lemma goodUnit_hex: "d < 16 \<Longrightarrow> goodUnit (hexUnit d)"
proof -
  assume "d < 16"
  then have "d \<in> set [0..<16]" by simp
  then show ?thesis by (auto simp: goodUnit_def hexUnit_def upt_rec simp del: set_upt)
qed

lemma goodUnit_yamlUnit: "c \<in> set (yamlUnit u) \<Longrightarrow> goodUnit c"
proof (cases "plainYaml u")
  case True
  assume "c \<in> set (yamlUnit u)"
  then show ?thesis using True by (auto simp: yamlUnit_def plainYaml_def goodUnit_def)
next
  case False
  assume c: "c \<in> set (yamlUnit u)"
  have "unat u < 65536" using unsigned_less [of u] by simp
  then have "unat u div 4096 < 16" by simp
  then have "goodUnit (hexUnit (unat u div 4096))" "goodUnit (hexUnit (unat u div 256 mod 16))"
    "goodUnit (hexUnit (unat u div 16 mod 16))" "goodUnit (hexUnit (unat u mod 16))" by (simp_all add: goodUnit_hex)
  then show ?thesis using c False by (auto simp: yamlUnit_def escape4_def) (auto simp: goodUnit_def)
qed

lemma goodUnit_scalar: "list_all goodUnit (yamlScalar v)"
proof (cases v)
  case (JNum n)
  then show ?thesis using isNumChar_numToString goodUnit_number by (auto simp: list_all_iff)
next
  case (JStr s)
  then show ?thesis using goodUnit_yamlUnit by (auto simp: list_all_iff) (simp_all add: goodUnit_def)
qed (auto simp: js_def goodUnit_def)

lemma keyUnits: "yamlKey k \<Longrightarrow> list_all isKeyUnit k"
  by (auto simp: yamlKey_def isKeyUnit_def split: list.splits)

lemma takeWhile_key: "yamlKey k \<Longrightarrow> takeWhile isKeyUnit (k @ 58 # t) = k"
  using keyUnits [of k] by (simp add: takeWhile_append list_all_iff isKeyUnit_def isKeyStart_def isDigit_def inCls_def rng_def)

lemma cleanContent_member:
  assumes "yamlKey k" "prefix = [] \<or> prefix = [45, 32]" "list_all goodUnit t"
  shows "cleanContent (prefix @ k @ 58 # t)"
proof -
  have "list_all goodUnit k" using keyUnits [OF assms(1)] goodUnit_key by (auto simp: list_all_iff)
  then show ?thesis
    using assms takeWhile_key [of k t] by (auto simp: cleanContent_def goodUnit_def [of 58] goodUnit_def [of 45] goodUnit_def [of 32])
qed

lemma memberLines_clean:
  assumes "yamlKey k" "prefix = [] \<or> prefix = [45, 32]" "even i"
    "isContainer v \<Longrightarrow> \<forall>p \<in> set (yamlNode False i' v). cleanLine p"
  shows "\<forall>p \<in> set (memberLines i prefix i' (k, v)). cleanLine p"
  using assms cleanContent_member [OF assms(1,2), of "[]"] cleanContent_member [OF assms(1,2), of "32 # yamlScalar v"]
    goodUnit_scalar [of v]
  by (auto simp: memberLines_def cleanLine_def goodUnit_def [of 32])

lemma scalar_clean:
  assumes "\<not> isContainer v" "even i" shows "\<forall>p \<in> set (yamlNode item i v). cleanLine p"
proof -
  have "yamlNode item i v = (if item then [(i, 45 # 32 # yamlScalar v)] else [])" using assms(1) by (cases item; cases v) auto
  moreover have "cleanContent (45 # 32 # yamlScalar v)" using goodUnit_scalar [of v] by (simp add: cleanContent_def goodUnit_def)
  ultimately show ?thesis using assms(2) by (simp add: cleanLine_def)
qed

lemma yamlNode_clean:
  "yamlable limits d j \<Longrightarrow> even i \<Longrightarrow> \<forall>p \<in> set (yamlNode item i j). cleanLine p"
proof (induction j arbitrary: d i item)
  case (JArr xs)
  have "\<forall>p \<in> set (yamlNode True i x). cleanLine p" if "x \<in> set xs" "even i" for x i
    by (rule JArr.IH [OF that(1) _ that(2), of "d + 1"]) (use JArr.prems that in \<open>auto simp: list_all_iff\<close>)
  then have items: "\<forall>p \<in> set (concat (map (yamlNode True i) xs)). cleanLine p" if "even i" for i using that by auto
  have "cleanLine (i, [45])" using JArr.prems by (simp add: cleanLine_def cleanContent_def goodUnit_def)
  then show ?case using JArr.prems items [of i] items [of "i + 2"] by (cases item) simp_all
next
  case (JObj kvs)
  have member: "\<forall>p \<in> set (memberLines i prefix i2 (k, v)). cleanLine p"
    if "(k, v) \<in> set kvs" "even i" "even i2" "prefix = [] \<or> prefix = [45, 32]" for k v i i2 prefix
  proof (rule memberLines_clean [OF _ that(4,2)])
    show "yamlKey k" using JObj.prems that by (auto simp: list_all_iff)
    show "\<forall>p \<in> set (yamlNode False i2 v). cleanLine p"
      by (rule JObj.IH [OF that(1) _ _ that(3), of v "d + 1"]) (use JObj.prems that in \<open>auto simp: list_all_iff\<close>)
  qed
  have node: "\<forall>p \<in> set (yamlNode False i (JObj kvs')). cleanLine p" if "set kvs' \<subseteq> set kvs" "even i" for kvs' i
    unfolding yamlNode_object using member [of _ _ i "i + 2" "[]"] that by fastforce
  show ?case
  proof (cases item)
    case True
    obtain kv kvs' where k: "kvs = kv # kvs'" using JObj.prems by (cases kvs) auto
    have "\<forall>p \<in> set (memberLines i [45, 32] (i + 4) kv). cleanLine p"
      using member [of "fst kv" "snd kv" i "i + 4" "[45, 32]"] k JObj.prems(2) by simp
    moreover have "\<forall>p \<in> set (yamlNode False (i + 2) (JObj kvs')). cleanLine p"
      by (rule node) (use k JObj.prems in auto)
    ultimately show ?thesis using True unfolding k by (simp only: yamlNode_item_object set_append) blast
  next
    case False
    then show ?thesis using node [of kvs i] JObj.prems by simp
  qed
qed (rule scalar_clean; simp)+

lemma cleanContent_read:
  assumes "cleanContent c" "even i"
  shows "readYamlLine line (replicate i 32 @ c) = Inr (Some \<lparr>yl_indent = i, yl_content = c, yl_line = line\<rparr>)"
proof -
  have good: "goodUnit x" if "x \<in> set c" for x using assms(1) that by (auto simp: cleanContent_def list_all_iff)
  obtain x r where c: "c = x # r" and x: "isKeyStart x \<or> x = 45"
    using assms(1) by (cases c) (auto simp: cleanContent_def yamlKey_def split: if_splits)
  have nw: "\<not> isWhite x \<and> x \<noteq> 35 \<and> x \<notin> set [46, 37, 33, 38, 42, 60]"
    using x by (auto simp: isWhite_def isKeyStart_def inCls_def rng_def; unat_arith)
  have strip: "dropWhile isWhite (replicate i 32 @ c) = c"
    using c nw by (induction i) (simp_all add: isWhite_def [of 32])
  have dash: "\<not> startsWith c (js ''---'')"
    using assms(1) c by (auto simp: cleanContent_def js_def yamlKey_def isKeyStart_def inCls_def rng_def split: if_splits) (cases r; simp)+
  have block: "\<not> blockScalar s" if "\<forall>x \<in> set s. goodUnit x" for s
    using that
  proof (induction s)
    case (Cons a s)
    have "d \<in> set s" if "dropWhile isWhite s = d # q" for d q
      using that by (metis list.set_intros(1) set_dropWhileD)
    then show ?case using Cons by (auto simp: goodUnit_def split: list.splits)
  qed simp
  have brace: "\<not> includesStr c (js p)" if "CHR ''{'' \<in> set p" for p
  proof
    assume "includesStr c (js p)"
    then have "set (js p) \<subseteq> set c" by (auto simp: includesStr_iff)
    moreover have "123 \<in> set (js p)" using that by (force simp: js_def)
    ultimately show False using good [of 123] by (auto simp: goodUnit_def)
  qed
  have "\<not> unsupportedYaml c"
    using good [of 39] good [of 91] good [of 123] dash block [of c] good c nw brace [of "''${''"] brace [of "''{{''"]
    by (auto simp: unsupportedYaml_def js_def goodUnit_def [of 39] goodUnit_def [of 91] goodUnit_def [of 123])
  moreover have "9 \<notin> set (replicate i 32 @ c)" using good [of 9] by (auto simp: goodUnit_def)
  ultimately show ?thesis using assms(2) strip c nw by (simp add: readYamlLine_def Let_def)
qed

definition rawLine :: "nat \<times> jstring \<Rightarrow> jstring" where
  "rawLine p = replicate (fst p) 32 @ snd p"

lemma readYamlLines_clean:
  assumes "\<forall>p \<in> set ps. cleanLine p"
  shows "\<exists>ls. readYamlLines n (map rawLine ps @ [[]]) = Inr ls \<and> shape ls = ps"
  using assms
proof (induction ps arbitrary: n)
  case Nil
  then show ?case by (simp add: readYamlLine_def shape_def)
next
  case (Cons p ps)
  then obtain ls where "readYamlLines (n + 1) (map rawLine ps @ [[]]) = Inr ls" "shape ls = ps" by force
  moreover have "readYamlLine n (rawLine p) = Inr (Some \<lparr>yl_indent = fst p, yl_content = snd p, yl_line = n\<rparr>)"
    using Cons.prems cleanContent_read [of "snd p" "fst p" n] by (simp add: rawLine_def cleanLine_def)
  ultimately show ?case by (simp add: shape_def)
qed

lemma splitOn_newline: "d \<notin> set l \<Longrightarrow> splitOn d (l @ d # s) = l # splitOn d s"
  by (induction l) auto

lemma splitOn_newlines: "\<forall>l \<in> set ls. d \<notin> set l \<Longrightarrow> splitOn d (concat (map (\<lambda>l. l @ [d]) ls)) = ls @ [[]]"
  by (induction ls) (simp_all add: splitOn_newline)

lemma yamlText_lines: "yamlText j = concat (map (\<lambda>l. l @ [10]) (map rawLine (yamlNode False 0 j)))"
  by (simp add: yamlText_def rawLine_def split_def comp_def)

text \<open>C35. What is written is what is read: policy data with safe keys, no empty containers and numbers that are
  doubles, written in block style within the limits, is parsed back to itself, and compiling the text is compiling
  the data.\<close>

theorem yaml_roundtrip:
  assumes "limits = yamlLimits configured" "isContainer j" "policyOk j" "yamlable limits 0 j"
    "int (entries j) \<le> ym_maxNodes limits" "int (byteLength (yamlText j)) \<le> ym_maxBytes limits"
    "int (length (yamlNode False 0 j)) < ym_maxLines limits"
  shows "parseRestrictedPolicyYaml (yamlText j) configured = Some (Inr j) \<and>
    compileRestrictedPolicyYaml sha (yamlText j) configured = Some (compilePolicySet sha (of_json j))"
proof -
  let ?ps = "yamlNode False 0 j"
  have clean: "\<forall>p \<in> set ?ps. cleanLine p" using yamlNode_clean [OF assms(4), of 0 False] by simp
  have units: "c \<noteq> 10 \<and> c \<noteq> 13" if "p \<in> set ?ps" "c \<in> set (rawLine p)" for p c
    using clean that by (auto simp: rawLine_def cleanLine_def cleanContent_def list_all_iff goodUnit_def)
  have cr: "13 \<notin> set (yamlText j)" unfolding yamlText_lines using units by auto
  have split: "splitOn 10 (yamlText j) = map rawLine ?ps @ [[]]"
    unfolding yamlText_lines by (rule splitOn_newlines) (use units in auto)
  have crlf: "\<not> includesStr (yamlText j) [13, 10]" using cr by (auto simp: includesStr_iff)
  obtain ls where ls: "readYamlLines 1 (map rawLine ?ps @ [[]]) = Inr ls" "shape ls = ?ps"
    using readYamlLines_clean [OF clean] by blast
  have nw: "nodeWritten limits j" using all_written [of j limits] assms(2) by blast
  obtain k where k: "childAt 0 (ls @ [])" "evaluates limits NodeMode (ls @ []) 0 0 0 (j, [], k)"
    by (rule nodeWrittenD [OF nw ls(2) _ assms(4), of "[]" 0]) (use assms(5) in \<open>simp_all add: ended_def\<close>)
  have p: "parseYaml (yamlFuel ls) limits NodeMode ls 0 0 0 = Some (Inr (j, [], k))"
    using evaluates_fuel [OF k(2)] by simp
  have "parseRestrictedPolicyYaml (yamlText j) configured = Some (Inr j)"
    using assms(1,3,6,7) cr crlf ls(1) k(1) p
    by (simp add: parseRestrictedPolicyYaml_def Let_def replaceCrLf_no_cr split assertPolicyJson_complete)
  then show ?thesis by (simp add: compileRestrictedPolicyYaml_def)
qed

section \<open>An example\<close>

definition exampleYamlLimits :: configuredYamlLimits where
  "exampleYamlLimits = \<lparr>yc_maxBytes = None, yc_maxLines = None, yc_maxDepth = Some 4, yc_maxNodes = None, yc_maxScalarLength = Some 64\<rparr>"

definition exampleDocument :: json where
  "exampleDocument = JObj [(js ''version'', JNum (Dec 1 0)), (js ''rules'', JArr [JStr (js ''a [b]''),
     JObj [(js ''id'', JBool True), (js ''when'', JArr [JNull])], JArr [JBool False]])]"

lemma example_yaml_limits: "yamlLimits exampleYamlLimits = \<lparr>ym_maxBytes = 1048576, ym_maxLines = 20000, ym_maxDepth = 4,
     ym_maxNodes = 100000, ym_maxScalarLength = 64\<rparr>"
  by (simp add: yamlLimits_def exampleYamlLimits_def orDefault_def)

lemma bitLength_small: "bitLength 0 = 0" "bitLength 1 = 1" "bitLength 2 = 2" "bitLength 10 = 4"
  by code_simp+

lemma rounded: "roundHalfEven (2 ^ 52) 1 = 2 ^ 52" "roundHalfEven 0 1 = 0" "roundHalfEven 5629499534213120 1 = 5629499534213120"
  by (simp_all add: roundHalfEven_def)

lemma double_one: "toDouble (1, 1) = Some (2 ^ 52, - 52)"
  by (simp add: toDouble_def scaleDown_def bitLength_small [simplified] rounded [simplified] Let_def)

lemma double_zero: "toDouble (0, 1) = Some (0, - 54)"
  by (simp add: toDouble_def scaleDown_def bitLength_small [simplified] rounded [simplified] Let_def)

lemma double_ten: "toDouble (10, 1) = Some (5629499534213120, - 49)" 
  by (simp add: toDouble_def scaleDown_def bitLength_small [simplified] rounded [simplified] Let_def)

lemma double_two: "toDouble (2, 1) = Some (2 ^ 52, - 51)"
  by (simp add: toDouble_def scaleDown_def bitLength_small [simplified] rounded [simplified] Let_def)

lemma example_number: "numberOfLiteral (numToString (Dec 1 0)) = Some (Dec 1 0)" "matches numberRx (numToString (Dec 1 0))"
proof -
  have s: "signedExponent (numToString (Dec 1 0)) = [49]" "decodeNum [49] = Dec 1 0" by code_simp+
  have c: "candidates (2 ^ 52, - 52) 1 = []" "candidates (2 ^ 52, - 52) 0 = [1]"
    using double_one double_zero double_ten double_two by (simp_all add: candidates_def doubleRatio_def ratioOf_def Let_def numeral_2_eq_2 [symmetric])
  have "shortest (2 ^ 52, - 52) = (1, 0)"
    using c shortestFrom.simps(2) [of 19 "(2 ^ 52, - 52)" 1] shortestFrom.simps(2) [of 18 "(2 ^ 52, - 52)" 0]
    by (simp add: shortest_def doubleRatio_def)
  then show "numberOfLiteral (numToString (Dec 1 0)) = Some (Dec 1 0)"
    using s double_one by (simp add: numberOfLiteral_def toNumber_def ratioOf_def normDec_id)
  show "matches numberRx (numToString (Dec 1 0))" by code_simp
qed

lemma example_document: "byteLength (yamlText exampleDocument) = 87" "policyOk exampleDocument"
    "entries exampleDocument = 9" "length (yamlNode False 0 exampleDocument) = 8"
  by code_simp+

text \<open>C34. A document that is accepted is safe: its value is well-formed policy data of containers that are not empty,
  keys that match the pattern of keys, are not protected and occur once, strings within the scalar limit, nested
  at most two levels deeper than the depth limit, with at most twice as many items and members as the node limit.\<close>

theorem yaml_accepts_only:
  assumes "parseRestrictedPolicyYaml source configured = Some (Inr j)" "limits = yamlLimits configured"
  shows "policyOk j \<and>
    yamlValue (ym_maxScalarLength limits) (nat (ym_maxDepth limits) + 2) j \<and>
    int (entries j) \<le> 2 * max 0 (ym_maxNodes limits)"
proof -
  from parseRestrictedPolicyYaml_Inr [OF assms(1)] obtain ls k v where
    v: "parseYaml (yamlFuel ls) limits NodeMode ls 0 0 0 = Some (Inr (v, [], k))" "assertPolicyJson (of_json v) (js ''$'') = Inr j"
    using assms(2) by metis
  have "v = j" "policyOk j" using v(2) of_json_inject [of v j] by (auto simp: assertPolicyJson_iff)
  moreover have "nodeOk limits 0 0 v k" by (rule returnsOkD(1) [OF parseYaml_ok v(1)])
  ultimately show ?thesis by (auto simp: nodeOk_def counted_def depthLeft_def)
qed

theorem yaml_accepts_only_witness:
  "yamlValue 64 6 (JObj [(js ''a'', JArr [JBool True, JStr (js ''x'')])])"
proof -
  have "parseRestrictedPolicyYaml (js ''a:'' @ [10] @ js ''  - true'' @ [10] @ js ''  - \"x\"'') exampleYamlLimits =
      Some (Inr (JObj [(js ''a'', JArr [JBool True, JStr (js ''x'')])]))"
    by code_simp
  from yaml_accepts_only [OF this refl] show ?thesis by (simp add: example_yaml_limits)
qed

theorem yaml_roundtrip_witness:
  "parseRestrictedPolicyYaml (yamlText exampleDocument) exampleYamlLimits = Some (Inr exampleDocument)"
proof -
  have "yamlable (yamlLimits exampleYamlLimits) 0 exampleDocument"
    unfolding example_yaml_limits exampleDocument_def
    by (simp add: scalarFits_def example_number) code_simp
  from yaml_roundtrip [OF refl _ example_document(2) this] show ?thesis
    by (simp add: example_document example_yaml_limits) (simp add: exampleDocument_def)
qed

text \<open>Two no-break spaces are accepted as an indentation.\<close>

lemma white_space_indents:
  "parseRestrictedPolicyYaml (js ''a:'' @ [10, 0xA0, 0xA0] @ js ''b: true'') exampleYamlLimits =
     Some (Inr (JObj [(js ''a'', JObj [(js ''b'', JBool True)])]))"
  by code_simp

end
