(* ===== verification/Utf8.thy ===== *)
theory Utf8
  imports Json_Text
begin

text \<open>
  UTF-8, as \<open>Buffer\<close> and \<open>TextDecoder\<close> of the platform's standard library treat it: writing a string, reading
  bytes with replacement characters (\<open>toString\<close>), and reading them as a stream that rejects malformed bytes
  (\<open>fatal\<close>) and keeps an unfinished character for the next chunk.
\<close>

section \<open>Writing\<close>

type_synonym bytes = "8 word list"

definition byte :: "nat \<Rightarrow> 8 word" where
  "byte n = of_nat n"

definition pointBytes :: "nat \<Rightarrow> bytes" where
  "pointBytes n =
     (if n < 0x80 then [byte n]
      else if n < 0x800 then [byte (0xC0 + n div 64), byte (0x80 + n mod 64)]
      else if n < 0x10000 then [byte (0xE0 + n div 4096), byte (0x80 + n div 64 mod 64), byte (0x80 + n mod 64)]
      else [byte (0xF0 + n div 262144), byte (0x80 + n div 4096 mod 64), byte (0x80 + n div 64 mod 64), byte (0x80 + n mod 64)])"

definition pairPoint :: "16 word \<Rightarrow> 16 word \<Rightarrow> nat" where
  "pairPoint c d = 0x10000 + (unat c - 0xD800) * 1024 + (unat d - 0xDC00)"

text \<open>A lone surrogate is written as the replacement character.\<close>

definition unitBytes :: "16 word \<Rightarrow> bytes" where
  "unitBytes c = pointBytes (if isHigh c \<or> isLow c then 0xFFFD else unat c)"

fun utf8 :: "jstring \<Rightarrow> bytes" where
  "utf8 [] = []"
| "utf8 [c] = unitBytes c"
| "utf8 (c # d # s) =
     (if isHigh c \<and> isLow d then pointBytes (pairPoint c d) @ utf8 s else unitBytes c @ utf8 (d # s))"

section \<open>Reading\<close>

text \<open>The first byte of a character: how many follow, its bits, and the bounds of the next byte.\<close>

definition leadByte :: "8 word \<Rightarrow> (nat \<times> nat \<times> nat \<times> nat) option" where
  "leadByte b =
     (let n = unat b in
      if n < 0x80 then Some (0, n, 0x80, 0xBF)
      else if 0xC2 \<le> n \<and> n \<le> 0xDF then Some (1, n - 0xC0, 0x80, 0xBF)
      else if 0xE0 \<le> n \<and> n \<le> 0xEF then
        Some (2, n - 0xE0, if n = 0xE0 then 0xA0 else 0x80, if n = 0xED then 0x9F else 0xBF)
      else if 0xF0 \<le> n \<and> n \<le> 0xF4 then
        Some (3, n - 0xF0, if n = 0xF0 then 0x90 else 0x80, if n = 0xF4 then 0x8F else 0xBF)
      else None)"

datatype firstCharacter =
  Complete nat nat \<comment> \<open>the code point and its length in bytes\<close>
| Unfinished
| Malformed nat \<comment> \<open>the length of the malformed part\<close>

fun continuation :: "nat \<Rightarrow> nat \<Rightarrow> nat \<Rightarrow> nat \<Rightarrow> nat \<Rightarrow> bytes \<Rightarrow> firstCharacter" where
  "continuation 0 acc lo hi k bs = Complete acc k"
| "continuation (Suc m) acc lo hi k [] = Unfinished"
| "continuation (Suc m) acc lo hi k (b # bs) =
     (if lo \<le> unat b \<and> unat b \<le> hi then continuation m (acc * 64 + (unat b - 0x80)) 0x80 0xBF (Suc k) bs else Malformed k)"

definition firstCharacter :: "8 word \<Rightarrow> bytes \<Rightarrow> firstCharacter" where
  "firstCharacter b bs =
     (case leadByte b of None \<Rightarrow> Malformed 1 | Some (m, acc, lo, hi) \<Rightarrow> continuation m acc lo hi 1 bs)"

definition pointUnits :: "nat \<Rightarrow> jstring" where
  "pointUnits n = (if n < 0x10000 then [of_nat n]
     else [of_nat (0xD800 + (n - 0x10000) div 1024), of_nat (0xDC00 + (n - 0x10000) mod 1024)])"

text \<open>\<open>None\<close> is malformed input; otherwise the text, and the bytes of an unfinished character.\<close>

function decodeUtf8 :: "bytes \<Rightarrow> (jstring \<times> bytes) option" where
  "decodeUtf8 [] = Some ([], [])"
| "decodeUtf8 (b # bs) =
     (case firstCharacter b bs of
        Malformed _ \<Rightarrow> None
      | Unfinished \<Rightarrow> Some ([], b # bs)
      | Complete n k \<Rightarrow> map_option (\<lambda>(s, r). (pointUnits n @ s, r)) (decodeUtf8 (drop (k - 1) bs)))"
  by pat_completeness auto
termination by (relation "measure length") auto

function bufferToString :: "bytes \<Rightarrow> jstring" where
  "bufferToString [] = []"
| "bufferToString (b # bs) =
     (case firstCharacter b bs of
        Malformed k \<Rightarrow> 0xFFFD # bufferToString (drop (k - 1) bs)
      | Unfinished \<Rightarrow> [0xFFFD]
      | Complete n k \<Rightarrow> pointUnits n @ bufferToString (drop (k - 1) bs))"
  by pat_completeness auto
termination by (relation "measure length") auto

declare decodeUtf8.simps(2) [simp del] bufferToString.simps(2) [simp del]

section \<open>Reading what was written\<close>

lemma unat_byte [simp]: "n < 256 \<Longrightarrow> unat (byte n) = n"
  by (simp add: byte_def unat_of_nat)

definition scalar :: "nat \<Rightarrow> bool" where
  "scalar n \<longleftrightarrow> n < 0xD800 \<or> 0xE000 \<le> n \<and> n < 0x110000"

lemma firstCharacter_2:
  assumes "2 \<le> x" "x < 32" "y < 64"
  shows "firstCharacter (byte (0xC0 + x)) (byte (0x80 + y) # r) = Complete (x * 64 + y) 2"
  using assms by (simp add: firstCharacter_def leadByte_def)

lemma firstCharacter_3:
  assumes "x < 16" "y < 64" "z < 64" "x = 0 \<Longrightarrow> 32 \<le> y" "x = 13 \<Longrightarrow> y \<le> 31"
  shows "firstCharacter (byte (0xE0 + x)) (byte (0x80 + y) # byte (0x80 + z) # r) = Complete ((x * 64 + y) * 64 + z) 3"
proof -
  have "leadByte (byte (0xE0 + x)) = Some (2, x, if x = 0 then 0xA0 else 0x80, if x = 13 then 0x9F else 0xBF)"
    using assms(1) by (simp add: leadByte_def)
  then show ?thesis using assms by (auto simp: firstCharacter_def numeral_2_eq_2)
qed

lemma firstCharacter_4:
  assumes "x < 5" "y < 64" "z < 64" "u < 64" "x = 0 \<Longrightarrow> 16 \<le> y" "x = 4 \<Longrightarrow> y \<le> 15"
  shows "firstCharacter (byte (0xF0 + x)) (byte (0x80 + y) # byte (0x80 + z) # byte (0x80 + u) # r) =
    Complete (((x * 64 + y) * 64 + z) * 64 + u) 4"
proof -
  have "leadByte (byte (0xF0 + x)) = Some (3, x, if x = 0 then 0x90 else 0x80, if x = 4 then 0x8F else 0xBF)"
    using assms(1) by (simp add: leadByte_def)
  then show ?thesis using assms by (auto simp: firstCharacter_def numeral_3_eq_3)
qed

lemma firstCharacter_point:
  assumes "scalar n" "pointBytes n = b # bs"
  shows "firstCharacter b (bs @ r) = Complete n (Suc (length bs))"
proof -
  define m k where "m = n div 64" and "k = n div 4096"
  have m: "n = m * 64 + n mod 64" "m = k * 64 + m mod 64" "k = n div 262144 * 64 + k mod 64"
    using div_mult_mod_eq [of m 64] div_mult_mod_eq [of k 64] by (simp_all add: m_def k_def div_mult2_eq [symmetric])
  have less: "n mod 64 < 64" "m mod 64 < 64" "k mod 64 < 64" by simp_all
  consider "n < 0x80" | "0x80 \<le> n" "n < 0x800" | "0x800 \<le> n" "n < 0x10000" | "0x10000 \<le> n" by linarith
  then show ?thesis
  proof cases
    case 1
    then have "b = byte n" "bs = []" using assms(2) by (simp_all add: pointBytes_def)
    then show ?thesis using 1 by (simp add: firstCharacter_def leadByte_def)
  next
    case 2
    have b: "b = byte (0xC0 + m)" "bs = [byte (0x80 + n mod 64)]" using assms(2) 2 by (simp_all add: pointBytes_def m_def)
    show ?thesis using firstCharacter_2 [of m "n mod 64" r] m(1) less(1) 2 unfolding b by simp
  next
    case 3
    have b: "b = byte (0xE0 + k)" "bs = [byte (0x80 + m mod 64), byte (0x80 + n mod 64)]"
      using assms(2) 3 by (simp_all add: pointBytes_def m_def k_def)
    have "k < 16" "k = 0 \<Longrightarrow> 32 \<le> m mod 64" using m less 3 by linarith+
    moreover have "k = 13 \<Longrightarrow> m mod 64 \<le> 31" using m less assms(1) unfolding scalar_def by linarith
    ultimately show ?thesis using firstCharacter_3 [of k "m mod 64" "n mod 64" r] m less unfolding b by simp
  next
    case 4
    have n: "n < 0x110000" using assms(1) 4 by (auto simp: scalar_def)
    define x where "x = n div 262144"
    have b: "b = byte (0xF0 + x)" "bs = [byte (0x80 + k mod 64), byte (0x80 + m mod 64), byte (0x80 + n mod 64)]"
      using assms(2) 4 by (simp_all add: pointBytes_def m_def k_def x_def)
    have "x < 5" "x = 0 \<Longrightarrow> 16 \<le> k mod 64" "x = 4 \<Longrightarrow> k mod 64 \<le> 15" using m less 4 n unfolding x_def by linarith+
    then show ?thesis
      using firstCharacter_4 [of x "k mod 64" "m mod 64" "n mod 64" r] m less unfolding b x_def [symmetric] by simp
  qed
qed

lemma pointBytes_Cons: "\<exists>b bs. pointBytes n = b # bs"
  by (simp add: pointBytes_def)

lemma decodeUtf8_point:
  "scalar n \<Longrightarrow> decodeUtf8 (pointBytes n @ r) = map_option (\<lambda>(s, q). (pointUnits n @ s, q)) (decodeUtf8 r)"
proof -
  assume n: "scalar n"
  obtain b bs where p: "pointBytes n = b # bs" using pointBytes_Cons by blast
  show ?thesis by (simp add: p decodeUtf8.simps(2) firstCharacter_point [OF n p])
qed

lemma bufferToString_point: "scalar n \<Longrightarrow> bufferToString (pointBytes n @ r) = pointUnits n @ bufferToString r"
proof -
  assume n: "scalar n"
  obtain b bs where p: "pointBytes n = b # bs" using pointBytes_Cons by blast
  show ?thesis by (simp add: p bufferToString.simps(2) firstCharacter_point [OF n p])
qed

fun wellFormed :: "jstring \<Rightarrow> bool" where
  "wellFormed [] = True"
| "wellFormed [c] = (\<not> isHigh c \<and> \<not> isLow c)"
| "wellFormed (c # d # s) = (if isHigh c \<and> isLow d then wellFormed s else \<not> isHigh c \<and> \<not> isLow c \<and> wellFormed (d # s))"

lemma unit_point: "\<not> isHigh c \<Longrightarrow> \<not> isLow c \<Longrightarrow> scalar (unat c) \<and> pointUnits (unat c) = [c]"
proof -
  assume "\<not> isHigh c" "\<not> isLow c"
  moreover have "unat c < 0x10000" using unsigned_less [of c] by simp
  ultimately show ?thesis by (auto simp: isHigh_def isLow_def scalar_def pointUnits_def word_le_nat_alt)
qed

lemma pair_point: "isHigh c \<Longrightarrow> isLow d \<Longrightarrow> scalar (pairPoint c d) \<and> pointUnits (pairPoint c d) = [c, d]"
proof -
  assume "isHigh c" "isLow d"
  then have b: "0xD800 \<le> unat c" "unat c \<le> 0xDBFF" "0xDC00 \<le> unat d" "unat d \<le> 0xDFFF"
    by (auto simp: isHigh_def isLow_def word_le_nat_alt)
  define x y where "x = unat c - 0xD800" and "y = unat d - 0xDC00"
  have xy: "unat c = 0xD800 + x" "x < 1024" "unat d = 0xDC00 + y" "y < 1024" using b by (simp_all add: x_def y_def)
  then have "pairPoint c d = 0x10000 + (x * 1024 + y)" by (simp add: pairPoint_def)
  moreover have "(x * 1024 + y) div 1024 = x" "(x * 1024 + y) mod 1024 = y" using xy by simp_all
  moreover have "of_nat (0xD800 + x) = c" "of_nat (0xDC00 + y) = d" using xy(1,3) arg_cong [of _ _ "of_nat :: nat \<Rightarrow> 16 word"] by (metis of_nat_unat ucast_id)+
  ultimately show ?thesis using xy by (simp add: scalar_def pointUnits_def)
qed

lemma decodeUtf8_utf8: "wellFormed s \<Longrightarrow> decodeUtf8 (utf8 s @ r) = map_option (\<lambda>(t, q). (s @ t, q)) (decodeUtf8 r)"
proof (induction s rule: utf8.induct)
  case (2 c)
  then show ?case using unit_point [of c] by (simp add: unitBytes_def decodeUtf8_point)
next
  case (3 c d s)
  then show ?case
    using unit_point [of c] pair_point [of c d]
    by (cases "decodeUtf8 r") (auto simp: unitBytes_def decodeUtf8_point)
qed (cases "decodeUtf8 r"; simp)

lemma bufferToString_utf8: "wellFormed s \<Longrightarrow> bufferToString (utf8 s) = s"
proof (induction s rule: utf8.induct)
  case (2 c)
  then show ?case using unit_point [of c] bufferToString_point [of "unat c" "[]"] by (simp add: unitBytes_def)
next
  case (3 c d s)
  then show ?case
    using unit_point [of c] pair_point [of c d] by (auto simp: unitBytes_def bufferToString_point)
qed simp

text \<open>The length of the bytes is what \<open>Buffer.byteLength\<close> counts.\<close>

lemma length_unitBytes: "length (unitBytes c) = (if c < 0x80 then 1 else if c < 0x800 then 2 else 3)"
proof -
  have "unat c < 0x10000" using unsigned_less [of c] by simp
  moreover have "isHigh c \<or> isLow c \<Longrightarrow> 0x800 \<le> unat c" by (auto simp: isHigh_def isLow_def word_le_nat_alt)
  ultimately show ?thesis by (auto simp: unitBytes_def pointBytes_def word_less_nat_alt)
qed

lemma length_utf8: "length (utf8 s) = byteLength s"
proof (induction s rule: utf8.induct)
  case (3 c d s)
  have "isHigh c \<Longrightarrow> isLow d \<Longrightarrow> length (pointBytes (pairPoint c d)) = 4"
    by (simp add: pointBytes_def pairPoint_def)
  then show ?case using 3 by (simp add: length_unitBytes)
qed (simp_all add: length_unitBytes)

section \<open>Reading in pieces\<close>

lemma continuation_append:
  "continuation m acc lo hi k bs = Complete n j \<Longrightarrow> continuation m acc lo hi k (bs @ r) = Complete n j \<and> k \<le> j \<and> j - k \<le> length bs"
  "continuation m acc lo hi k bs = Malformed j \<Longrightarrow> continuation m acc lo hi k (bs @ r) = Malformed j"
  by (induction m acc lo hi k bs rule: continuation.induct) (auto split: if_splits)

lemma firstCharacter_append:
  "firstCharacter b bs = Complete n j \<Longrightarrow> firstCharacter b (bs @ r) = Complete n j \<and> j - 1 \<le> length bs"
  "firstCharacter b bs = Malformed j \<Longrightarrow> firstCharacter b (bs @ r) = Malformed j"
  using continuation_append by (auto simp: firstCharacter_def split: option.splits prod.splits)

text \<open>Where the bytes are cut does not matter: the rest of a piece is read with the next one.\<close>

lemma decodeUtf8_append:
  "decodeUtf8 (a @ r) =
    (case decodeUtf8 a of None \<Rightarrow> None | Some (s, p) \<Rightarrow> map_option (\<lambda>(t, q). (s @ t, q)) (decodeUtf8 (p @ r)))"
proof (induction a rule: decodeUtf8.induct)
  case 1
  show ?case by (cases "decodeUtf8 r") auto
next
  case (2 b bs)
  show ?case
  proof (cases "firstCharacter b bs")
    case (Complete n k)
    then have f: "firstCharacter b (bs @ r) = Complete n k" "k - 1 \<le> length bs" using firstCharacter_append by blast+
    then have "drop (k - 1) (bs @ r) = drop (k - 1) bs @ r" by simp
    then show ?thesis
      using 2 [OF Complete] f
      by (auto simp: decodeUtf8.simps(2) Complete option.map_comp split: option.splits intro!: option.map_cong)
  next
    case Unfinished
    then show ?thesis by (cases "decodeUtf8 ((b # bs) @ r)") (auto simp: decodeUtf8.simps(2) [of b bs])
  next
    case (Malformed k)
    then show ?thesis using firstCharacter_append(2) [of b bs k r] by (simp add: decodeUtf8.simps(2))
  qed
qed

lemma decodeUtf8_bytes:
  "decodeUtf8 a = Some (s, p) \<Longrightarrow> decodeUtf8 p = Some ([], p)"
proof (induction a arbitrary: s rule: decodeUtf8.induct)
  case (2 b bs)
  then show ?case by (cases "firstCharacter b bs") (auto simp: decodeUtf8.simps(2) split: option.splits)
qed simp

section \<open>The text of a value is one line of well-formed UTF-16\<close>

lemma wellFormed_append: "wellFormed s \<Longrightarrow> wellFormed t \<Longrightarrow> wellFormed (s @ t)"
proof (induction s rule: wellFormed.induct)
  case (2 c)
  then show ?case by (cases t) auto
qed (auto split: if_splits)

definition plainUnit :: "16 word \<Rightarrow> bool" where
  "plainUnit c \<longleftrightarrow> 32 \<le> c \<and> \<not> isHigh c \<and> \<not> isLow c"

lemma plain_wellFormed: "list_all plainUnit s \<Longrightarrow> wellFormed s"
  by (induction s rule: wellFormed.induct) (auto simp: plainUnit_def)

definition lineText :: "jstring \<Rightarrow> bool" where
  "lineText s \<longleftrightarrow> wellFormed s \<and> list_all (\<lambda>c. 32 \<le> c) s"

lemma lineText_append [intro]: "lineText s \<Longrightarrow> lineText t \<Longrightarrow> lineText (s @ t)"
  by (simp add: lineText_def wellFormed_append)

lemma lineText_plain: "list_all plainUnit s \<Longrightarrow> lineText s"
  by (auto simp: lineText_def plain_wellFormed list_all_iff plainUnit_def)

lemma lineText_Cons: "plainUnit c \<Longrightarrow> lineText s \<Longrightarrow> lineText (c # s)"
  using lineText_append [of "[c]" s] lineText_plain [of "[c]"] by simp

lemma lineText_newline: "lineText s \<Longrightarrow> 10 \<notin> set s"
  by (auto simp: lineText_def list_all_iff)

lemma small_plain: "32 \<le> c \<Longrightarrow> c < 0xD800 \<Longrightarrow> plainUnit c"
  by (auto simp: plainUnit_def isHigh_def isLow_def dest: order.strict_trans1)

lemma plain_number: "isNumChar c \<Longrightarrow> plainUnit c"
  by (rule small_plain) (auto simp: isNumChar_def isDigit_def word_le_nat_alt word_less_nat_alt)

lemma plain_hex: "d < 16 \<Longrightarrow> plainUnit (hexUnit d)"
  by (rule small_plain) (auto simp: hexUnit_of_nat word_le_nat_alt word_less_nat_alt unat_of_nat simp del: of_nat_add)

lemma plain_ascii: "plainUnit 92" "plainUnit 117" "plainUnit 34" "plainUnit 98" "plainUnit 102" "plainUnit 110" "plainUnit 114"
    "plainUnit 116" "plainUnit 44" "plainUnit 58" "plainUnit 91" "plainUnit 93" "plainUnit 123" "plainUnit 125" "plainUnit 32"
  by (simp_all add: plainUnit_def isHigh_def isLow_def)

lemma plain_escape4: "list_all plainUnit (escape4 c)"
proof -
  have "unat c < 0x10000" using unsigned_less [of c] by simp
  then show ?thesis by (simp add: escape4_def plain_hex plain_ascii less_mult_imp_div_less)
qed

lemma lineText_quoteUnits: "lineText (quoteUnits s)"
proof (induction s rule: quoteUnits.induct)
  case (2 c cs)
  note esc = lineText_plain [OF plain_escape4]
  show ?case
  proof (cases "isHigh c")
    case True
    have pair: "lineText [c, d]" if "isLow d" for d
    proof -
      have "32 \<le> c" "32 \<le> d" using True that by (auto simp: isHigh_def isLow_def intro: order_trans [of _ "0xD800" c] order_trans [of _ "0xDC00" d])
      then show ?thesis using True that by (simp add: lineText_def)
    qed
    show ?thesis
    proof (cases cs)
      case (Cons d r)
      then show ?thesis
        using True 2 esc lineText_append [OF pair [of d], of "quoteUnits r"] by auto
    qed (use True esc in simp)
  next
    case False
    have "lineText (quoteUnit c)" if "\<not> isLow c"
      using that False plain_ascii plain_escape4
      by (intro lineText_plain) (auto simp: quoteUnit_def plainUnit_def not_less)
    then show ?thesis using False 2 esc by auto
  qed
qed (simp add: lineText_def)

lemma lineText_quote: "lineText (quoteString s)"
  by (simp add: quoteString_def lineText_Cons lineText_append lineText_quoteUnits lineText_plain plain_ascii)

lemma lineText_join: "(\<And>s. s \<in> set ss \<Longrightarrow> lineText s) \<Longrightarrow> lineText (joinWith [44] ss)"
proof (induction ss)
  case (Cons s ss)
  then show ?case by (cases ss) (auto simp: joinWith_def intro!: lineText_append lineText_Cons plain_ascii)
qed (simp add: joinWith_def lineText_def)

lemma lineText_ascii: "list_all plainUnit s \<Longrightarrow> lineText t \<Longrightarrow> lineText (s @ t)"
  by (simp add: lineText_append lineText_plain)

lemma lineText_stringify: "lineText (stringify j)"
proof (induction j rule: stringify.induct)
  case (3 n)
  show ?case
    using isNumChar_numToString [of _ n] plain_number by (auto intro!: lineText_plain simp: list_all_iff)
next
  case (5 xs)
  then have "lineText (joinWith [44] (map stringify xs))" by (intro lineText_join) auto
  then show ?case by (simp add: lineText_Cons lineText_append lineText_plain plain_ascii)
next
  case (6 kvs)
  then have "lineText (joinWith [44] (map (\<lambda>(k, v). quoteString k @ [58] @ stringify v) kvs))"
    by (intro lineText_join) (force intro!: lineText_append lineText_quote lineText_Cons plain_ascii)
  then show ?case by (simp add: lineText_Cons lineText_append lineText_plain plain_ascii)
qed (simp_all add: lineText_quote js_def lineText_plain plainUnit_def isHigh_def isLow_def)

end
