(* ===== verification/Control_Contract.thy ===== *)
theory Control_Contract
  imports Policy_Value Utf8
begin

text \<open>
  \<open>packages/platform/src/client.ts\<close>: the checks a client of the control API makes of every answer before it
  uses it. A value read by \<open>JSON.parse\<close> is a \<open>json\<close>; \<open>undefined\<close> is \<open>None\<close>.
\<close>

section \<open>Strings\<close>

text \<open>\<open>String(value)\<close>; \<open>None\<close> is the \<open>TypeError\<close> of an object whose own \<open>toString\<close> hides the inherited one.\<close>

fun toStringOf :: "json \<Rightarrow> jstring option" where
  "toStringOf JNull = Some (js ''null'')"
| "toStringOf (JBool b) = Some (if b then js ''true'' else js ''false'')"
| "toStringOf (JNum n) = Some (numToString n)"
| "toStringOf (JStr s) = Some s"
| "toStringOf (JArr xs) =
     map_option (joinWith [44]) (those (map (\<lambda>x. if x = JNull then Some [] else toStringOf x) xs))"
| "toStringOf (JObj kvs) = (if map_of kvs (js ''toString'') = None then Some (js ''[object Object]'') else None)"

definition stringOf :: "json option \<Rightarrow> jstring option" where
  "stringOf v = (case v of None \<Rightarrow> Some (js ''undefined'') | Some j \<Rightarrow> toStringOf j)"

text \<open>\<open>toLowerCase\<close> of the characters a header can have (Latin-1).\<close>

definition lowerUnit :: "16 word \<Rightarrow> 16 word" where
  "lowerUnit c = (if 65 \<le> c \<and> c \<le> 90 \<or> 0xC0 \<le> c \<and> c \<le> 0xDE \<and> c \<noteq> 0xD7 then c + 32 else c)"

definition toLowerCase :: "jstring \<Rightarrow> jstring" where
  "toLowerCase s = map lowerUnit s"

section \<open>Parts of an answer\<close>

definition hasExactly :: "jobject \<Rightarrow> jstring list \<Rightarrow> bool" where
  "hasExactly obj expected = (joinWith [44] (sort (objKeys obj)) = joinWith [44] (sort expected))"

definition objectValue :: "json option \<Rightarrow> jobject option" where
  "objectValue v = (case v of Some j \<Rightarrow> asObject j | None \<Rightarrow> None)"

text \<open>A string member that satisfies \<open>P\<close>.\<close>

definition strWith :: "jobject \<Rightarrow> string \<Rightarrow> (jstring \<Rightarrow> bool) \<Rightarrow> bool" where
  "strWith obj k P = (case getKey obj k of Some (JStr s) \<Rightarrow> P s | _ \<Rightarrow> False)"

definition lengthIn :: "nat \<Rightarrow> nat \<Rightarrow> jstring \<Rightarrow> bool" where
  "lengthIn a b s = (a \<le> length s \<and> length s \<le> b)"

definition memberOf :: "jobject \<Rightarrow> string \<Rightarrow> string list \<Rightarrow> bool" where
  "memberOf obj k names = (case stringOf (getKey obj k) of None \<Rightarrow> False | Some s \<Rightarrow> s \<in> set (map js names))"

definition validRequestIdentity :: "jobject \<Rightarrow> bool" where
  "validRequestIdentity obj = (strWith obj ''requestId'' (matches uuidV7) \<and> strWith obj ''correlationId'' (matches uuidV7))"

text \<open>The client's own \<open>canonicalJson\<close> of JSON data is the canonical text.\<close>

definition uniqueValues :: "json list \<Rightarrow> bool" where
  "uniqueValues values = distinct (map canon values)"

definition monthDays :: "nat \<Rightarrow> nat list" where
  "monthDays year =
     (let leapYear = (year mod 4 = 0 \<and> (year mod 100 \<noteq> 0 \<or> year mod 400 = 0)) in
      [31, if leapYear then 29 else 28, 31, 30, 31, 30, 31, 31, 30, 31, 30, 31])"

definition clientDateTime :: "json option \<Rightarrow> bool" where
  "clientDateTime value =
     (case value of
        Some (JStr s) \<Rightarrow>
          matches dateTimeRx s \<and>
          (let year = digitsAt 0 4 s; month = digitsAt 5 2 s; day = digitsAt 8 2 s;
               hour = digitsAt 11 2 s; minute = digitsAt 14 2 s; second = digitsAt 17 2 s;
               zulu = (last s = of_char CHR ''Z'' \<or> last s = of_char CHR ''z'');
               offsetHour = (if zulu then 0 else digitsAt (length s - 5) 2 s);
               offsetMinute = (if zulu then 0 else digitsAt (length s - 2) 2 s);
               daysInMonth = (if 1 \<le> month \<and> month \<le> 12 then Some (monthDays year ! (month - 1)) else None)
           in month \<ge> 1 \<and> month \<le> 12 \<and> day \<ge> 1 \<and> (case daysInMonth of None \<Rightarrow> False | Some n \<Rightarrow> day \<le> n) \<and>
              hour \<le> 23 \<and> minute \<le> 59 \<and> second \<le> 60 \<and> offsetHour \<le> 23 \<and> offsetMinute \<le> 59)
      | _ \<Rightarrow> False)"

definition isNonNegativeInteger :: "json option \<Rightarrow> bool" where
  "isNonNegativeInteger v = (case v of Some (JNum n) \<Rightarrow> isSafeInteger n \<and> 0 \<le> num_to_int n | _ \<Rightarrow> False)"

definition isPositiveInteger :: "json option \<Rightarrow> bool" where
  "isPositiveInteger v = (case v of Some (JNum n) \<Rightarrow> isSafeInteger n \<and> 1 \<le> num_to_int n | _ \<Rightarrow> False)"

text \<open>\<open>/^[A-Z][A-Za-z0-9]{1,127}$/u\<close> and \<open>/^[A-Z][A-Z0-9]*(?:_[A-Z0-9]+)*$/u\<close>.\<close>

definition typeName :: rx where
  "typeName = (let c = Cls [rng CHR ''A'' CHR ''Z'', rng CHR ''a'' CHR ''z'', rng CHR ''0'' CHR ''9''] in
     seqs [Cls [rng CHR ''A'' CHR ''Z''], c, repUpTo 126 c])"

definition codeName :: rx where
  "codeName = (let c = Cls [rng CHR ''A'' CHR ''Z'', rng CHR ''0'' CHR ''9''] in
     seqs [Cls [rng CHR ''A'' CHR ''Z''], Star c, Star (Seq (lit ''_'') (many1 c))])"

definition isSubjectRef :: "json option \<Rightarrow> bool" where
  "isSubjectRef v =
     (case objectValue v of
        None \<Rightarrow> False
      | Some item \<Rightarrow>
          hasExactly item (if getKey item ''subjectVersion'' = None then map js [''subjectType'', ''subjectId'']
            else map js [''subjectType'', ''subjectId'', ''subjectVersion'']) \<and>
          strWith item ''subjectType'' (matches typeName) \<and>
          strWith item ''subjectId'' (lengthIn 1 256) \<and>
          (getKey item ''subjectVersion'' = None \<or> strWith item ''subjectVersion'' (lengthIn 1 128)))"

text \<open>An array member all of whose elements satisfy \<open>P\<close>, each value once.\<close>

definition uniqueArray :: "jobject \<Rightarrow> string \<Rightarrow> (json option \<Rightarrow> bool) \<Rightarrow> bool" where
  "uniqueArray obj k P =
     (case getKey obj k of Some (JArr xs) \<Rightarrow> list_all (\<lambda>x. P (Some x)) xs \<and> uniqueValues xs | _ \<Rightarrow> False)"

definition isDiagnosticFinding :: "json option \<Rightarrow> bool" where
  "isDiagnosticFinding v =
     (case objectValue v of
        None \<Rightarrow> False
      | Some item \<Rightarrow>
          hasExactly item (map js [''schemaVersion'', ''findingId'', ''code'', ''severity'', ''subjectRef'', ''evidenceRefs'',
            ''remediation'', ''detectedAt'']) \<and>
          getKey item ''schemaVersion'' = Some (JStr (js ''1.0.0'')) \<and>
          strWith item ''findingId'' (matches uuidV7) \<and>
          strWith item ''code'' (\<lambda>s. matches codeName s \<and> lengthIn 3 128 s) \<and>
          memberOf item ''severity'' [''INFO'', ''WARNING'', ''ERROR'', ''CRITICAL''] \<and>
          isSubjectRef (getKey item ''subjectRef'') \<and>
          uniqueArray item ''evidenceRefs'' isSubjectRef \<and>
          strWith item ''remediation'' (lengthIn 1 2048) \<and>
          clientDateTime (getKey item ''detectedAt''))"

section \<open>The answers of the control API\<close>

definition isVersionResponse :: "json option \<Rightarrow> bool" where
  "isVersionResponse v =
     (case objectValue v of
        None \<Rightarrow> False
      | Some item \<Rightarrow>
          hasExactly item (map js [''schemaVersion'', ''apiVersion'', ''frameworkVersion'', ''releaseId'', ''instanceId'',
            ''requestId'', ''correlationId'']) \<and>
          getKey item ''schemaVersion'' = Some (JStr (js ''1.0.0'')) \<and>
          getKey item ''apiVersion'' = Some (JStr (js ''v1'')) \<and>
          strWith item ''frameworkVersion'' (matches semver) \<and>
          strWith item ''releaseId'' (lengthIn 1 256) \<and>
          strWith item ''instanceId'' (matches uuidV7) \<and>
          validRequestIdentity item)"

definition isHealthResponse :: "json option \<Rightarrow> bool" where
  "isHealthResponse v =
     (case objectValue v of
        None \<Rightarrow> False
      | Some item \<Rightarrow>
          if \<not> hasExactly item (map js [''schemaVersion'', ''instanceId'', ''readiness'', ''runtimeVersion'', ''releaseId'',
               ''stateVersion'', ''checkedAt'', ''findings'']) \<or>
             getKey item ''schemaVersion'' \<noteq> Some (JStr (js ''1.0.0'')) \<or>
             \<not> strWith item ''instanceId'' (matches uuidV7) \<or>
             \<not> memberOf item ''readiness'' [''READY'', ''DEGRADED'', ''NOT_READY''] \<or>
             \<not> strWith item ''runtimeVersion'' (matches semver) \<or>
             \<not> strWith item ''releaseId'' (lengthIn 1 256) \<or>
             \<not> isNonNegativeInteger (getKey item ''stateVersion'') \<or>
             \<not> clientDateTime (getKey item ''checkedAt'') \<or>
             \<not> uniqueArray item ''findings'' isDiagnosticFinding
          then False
          else if getKey item ''readiness'' = Some (JStr (js ''READY''))
          then getKey item ''findings'' = Some (JArr []) else getKey item ''findings'' \<noteq> Some (JArr []))"

text \<open>\<open>canParse\<close> is \<open>URL.canParse\<close>.\<close>

definition isProblemDetails :: "(jstring \<Rightarrow> bool) \<Rightarrow> json option \<Rightarrow> bool" where
  "isProblemDetails canParse v =
     (case objectValue v of
        None \<Rightarrow> False
      | Some item \<Rightarrow>
          hasExactly item (map js [''schemaVersion'', ''type'', ''title'', ''status'', ''detail'', ''code'', ''category'',
            ''retryability'', ''requestId'', ''correlationId'', ''subjectRef'', ''remediation'']) \<and>
          getKey item ''schemaVersion'' = Some (JStr (js ''1.0.0'')) \<and>
          strWith item ''type'' canParse \<and>
          strWith item ''title'' (lengthIn 1 256) \<and>
          (case getKey item ''status'' of
             Some (JNum (Dec m e)) \<Rightarrow> 0 \<le> e \<and> 400 \<le> m * 10 ^ nat e \<and> m * 10 ^ nat e \<le> 599
           | _ \<Rightarrow> False) \<and>
          strWith item ''detail'' (lengthIn 1 2048) \<and>
          strWith item ''code'' (\<lambda>s. matches codeName s \<and> lengthIn 3 128 s) \<and>
          memberOf item ''category'' [''VALIDATION'', ''CONFLICT'', ''POLICY'', ''AUTHENTICATION'', ''AUTHORIZATION'',
            ''UNAVAILABLE'', ''TIMEOUT'', ''CANCELLED'', ''INFRASTRUCTURE'', ''INVARIANT'', ''SECURITY'', ''RECONCILIATION''] \<and>
          memberOf item ''retryability'' [''RETRYABLE'', ''NON_RETRYABLE'', ''CONDITIONAL'', ''UNKNOWN''] \<and>
          validRequestIdentity item \<and>
          isSubjectRef (getKey item ''subjectRef'') \<and>
          strWith item ''remediation'' (lengthIn 1 2048) \<and>
          strWith item ''type'' (\<lambda>s. length s \<le> 512))"

definition isOperationRef :: "json option \<Rightarrow> bool" where
  "isOperationRef v =
     (case objectValue v of
        None \<Rightarrow> False
      | Some item \<Rightarrow>
          hasExactly item (map js [''schemaVersion'', ''operationId'', ''type'', ''status'', ''resourceUri'', ''evidenceRefs''] @
            (if getKey item ''resultUri'' = None then [] else [js ''resultUri''])) \<and>
          getKey item ''schemaVersion'' = Some (JStr (js ''1.0.0'')) \<and>
          strWith item ''operationId'' (matches uuidV7) \<and>
          strWith item ''type'' (matches typeName) \<and>
          strWith item ''status'' (\<lambda>s. lengthIn 3 128 s \<and> matches codeName s) \<and>
          strWith item ''resourceUri'' (\<lambda>s. startsWith s (js ''/v1/operations/'') \<and> length s \<le> 1024) \<and>
          (getKey item ''resultUri'' = None \<or>
            strWith item ''resultUri'' (\<lambda>s. startsWith s (js ''/v1/'') \<and> length s \<le> 1024)) \<and>
          uniqueArray item ''evidenceRefs'' isSubjectRef)"

text \<open>A member that is an object with exactly these keys and satisfies \<open>P\<close>.\<close>

definition objectWith :: "jobject \<Rightarrow> string \<Rightarrow> string list \<Rightarrow> (jobject \<Rightarrow> bool) \<Rightarrow> bool" where
  "objectWith obj k keys P =
     (case objectValue (getKey obj k) of None \<Rightarrow> False | Some item \<Rightarrow> hasExactly item (map js keys) \<and> P item)"

definition isStatusResponse :: "json option \<Rightarrow> bool" where
  "isStatusResponse v =
     (case objectValue v of
        None \<Rightarrow> False
      | Some item \<Rightarrow>
          hasExactly item (map js [''schemaVersion'', ''status'', ''instanceId'', ''uptimeMs'', ''limits'', ''requestId'',
            ''correlationId'']) \<and>
          getKey item ''schemaVersion'' = Some (JStr (js ''1.0.0'')) \<and>
          getKey item ''status'' = Some (JStr (js ''READY'')) \<and>
          strWith item ''instanceId'' (matches uuidV7) \<and>
          isNonNegativeInteger (getKey item ''uptimeMs'') \<and>
          validRequestIdentity item \<and>
          objectWith item ''limits'' [''authenticationRateLimit'', ''idempotency'', ''sse''] (\<lambda>limits.
            objectWith limits ''authenticationRateLimit'' [''capacity'', ''windowMs''] (\<lambda>authentication.
              isPositiveInteger (getKey authentication ''capacity'') \<and> isPositiveInteger (getKey authentication ''windowMs'')) \<and>
            objectWith limits ''idempotency'' [''capacity'', ''ttlMs'', ''entries''] (\<lambda>idempotency.
              isPositiveInteger (getKey idempotency ''capacity'') \<and> isPositiveInteger (getKey idempotency ''ttlMs'') \<and>
              isNonNegativeInteger (getKey idempotency ''entries'')) \<and>
            objectWith limits ''sse'' [''connectionCapacity'', ''activeConnections'', ''retentionCapacity'',
                ''retainedNotifications'', ''heartbeatMs''] (\<lambda>sse.
              isPositiveInteger (getKey sse ''connectionCapacity'') \<and> isNonNegativeInteger (getKey sse ''activeConnections'') \<and>
              isPositiveInteger (getKey sse ''retentionCapacity'') \<and> isNonNegativeInteger (getKey sse ''retainedNotifications'') \<and>
              isPositiveInteger (getKey sse ''heartbeatMs''))))"

definition isDoctorResponse :: "json option \<Rightarrow> bool" where
  "isDoctorResponse v =
     (case objectValue v of
        None \<Rightarrow> False
      | Some item \<Rightarrow>
          hasExactly item (map js [''schemaVersion'', ''status'', ''findings'', ''requestId'', ''correlationId'']) \<and>
          getKey item ''schemaVersion'' = Some (JStr (js ''1.0.0'')) \<and>
          (getKey item ''status'' = Some (JStr (js ''PASS'')) \<or> getKey item ''status'' = Some (JStr (js ''FINDINGS''))) \<and>
          validRequestIdentity item \<and>
          uniqueArray item ''findings'' isDiagnosticFinding \<and>
          (getKey item ''status'' = Some (JStr (js ''PASS'')) \<and> getKey item ''findings'' = Some (JArr []) \<or>
           getKey item ''status'' = Some (JStr (js ''FINDINGS'')) \<and> getKey item ''findings'' \<noteq> Some (JArr [])))"

definition isNotification :: "json option \<Rightarrow> bool" where
  "isNotification v =
     (case objectValue v of
        None \<Rightarrow> False
      | Some item \<Rightarrow>
          hasExactly item (map js [''schemaVersion'', ''notificationId'', ''subjectRef'', ''projectionVersion'', ''kind'',
            ''occurredAt'', ''resourceUri'']) \<and>
          getKey item ''schemaVersion'' = Some (JStr (js ''1.0.0'')) \<and>
          strWith item ''notificationId'' (matches uuidV7) \<and>
          isSubjectRef (getKey item ''subjectRef'') \<and>
          isNonNegativeInteger (getKey item ''projectionVersion'') \<and>
          memberOf item ''kind'' [''RUNTIME_STATUS'', ''OPERATION_METADATA'', ''EVIDENCE_METADATA''] \<and>
          clientDateTime (getKey item ''occurredAt'') \<and>
          strWith item ''resourceUri'' (\<lambda>s. startsWith s (js ''/v1/'') \<and> length s \<le> 1024))"

section \<open>Receiving an answer\<close>

datatype controlError =
  ControlApiError jstring \<comment> \<open>with its code\<close>
| OtherError

abbreviation responseInvalid :: controlError where
  "responseInvalid \<equiv> ControlApiError (js ''CONTROL_CLIENT_RESPONSE_INVALID'')"

datatype contractCheck = ProblemContract | HealthContract | OperationContract | LocalCheck "json option \<Rightarrow> bool"

definition meets :: "(jstring \<Rightarrow> bool) \<Rightarrow> contractCheck \<Rightarrow> json option \<Rightarrow> bool" where
  "meets canParse c v =
     (case c of
        ProblemContract \<Rightarrow> isProblemDetails canParse v
      | HealthContract \<Rightarrow> isHealthResponse v
      | OperationContract \<Rightarrow> isOperationRef v
      | LocalCheck P \<Rightarrow> P v)"

definition responseMediaType :: "jstring option \<Rightarrow> jstring option" where
  "responseMediaType header = map_option (\<lambda>s. toLowerCase (trim (takeWhile (\<lambda>c. c \<noteq> 59) s))) header"

text \<open>An answer as it arrives: its status, its content type and the chunks of its body. \<open>parse\<close> is \<open>JSON.parse\<close>.\<close>

record httpAnswer =
  ha_status :: int
  ha_contentType :: "jstring option"
  ha_chunks :: "bytes list"

fun collectResponse :: "(jstring \<Rightarrow> json option) \<Rightarrow> nat \<Rightarrow> bytes \<Rightarrow> bytes list \<Rightarrow> controlError + json" where
  "collectResponse parse maxBytes collected [] =
     (case parse (bufferToString collected) of None \<Rightarrow> Inl responseInvalid | Some j \<Rightarrow> Inr j)"
| "collectResponse parse maxBytes collected (chunk # chunks) =
     (if length collected + length chunk > maxBytes then Inl (ControlApiError (js ''CONTROL_CLIENT_RESPONSE_TOO_LARGE''))
      else collectResponse parse maxBytes (collected @ chunk) chunks)"

text \<open>What an answer that reports a problem is thrown as.\<close>

definition problemError :: "(jstring \<Rightarrow> bool) \<Rightarrow> httpAnswer \<Rightarrow> json \<Rightarrow> controlError" where
  "problemError canParse response j =
     (case j of
        JObj item \<Rightarrow>
          if \<not> meets canParse ProblemContract (Some j) then responseInvalid
          else if responseMediaType (ha_contentType response) \<noteq> Some (js ''application/problem+json'') \<or>
            getKey item ''status'' \<noteq> Some (JNum (numInt (ha_status response)))
          then responseInvalid
          else (case getKey item ''code'' of Some (JStr code) \<Rightarrow> ControlApiError code
                | _ \<Rightarrow> ControlApiError (js ''CONTROL_CLIENT_HTTP_ERROR''))
      | _ \<Rightarrow> responseInvalid)"

text \<open>\<open>invoke\<close>; \<open>None\<close> for the answer is a request that fails or times out.\<close>

definition invoke ::
    "(jstring \<Rightarrow> bool) \<Rightarrow> (jstring \<Rightarrow> json option) \<Rightarrow> nat \<Rightarrow> contractCheck \<Rightarrow> int \<Rightarrow> httpAnswer option \<Rightarrow> controlError + json" where
  "invoke canParse parse maxBytes check expectedStatus answer =
     (case answer of
        None \<Rightarrow> Inl (ControlApiError (js ''CONTROL_CLIENT_UNAVAILABLE''))
      | Some response \<Rightarrow>
          bindE (collectResponse parse maxBytes [] (ha_chunks response)) (\<lambda>j.
            let status = ha_status response in
            if status < 200 \<or> status \<ge> 300 then Inl (problemError canParse response j)
            else if status \<noteq> expectedStatus \<or> responseMediaType (ha_contentType response) \<noteq> Some (js ''application/json'')
            then Inl responseInvalid
            else if \<not> meets canParse check (Some j) then Inl responseInvalid
            else Inr j))"

end
