(* ===== verification/Isolation.thy ===== *)
theory Isolation
  imports Policy_Compile Control_Contract
begin

text \<open>
  \<open>apps/worker/src/index.ts\<close> and the report of \<open>packages/adapters/tool/windows-process-restricted\<close>: how the isolation
  that a task requires is matched with what the host was probed to provide. A request is JSON data, as the worker reads
  it from its input; \<open>undefined\<close> is \<open>None\<close>.
\<close>

section \<open>Levels\<close>

text \<open>The levels are ordered by their strength.\<close>

fun levelRank :: "isolationLevel \<Rightarrow> nat" where
  "levelRank PROCESS_RESTRICTED = 0"
| "levelRank OS_SANDBOXED = 1"
| "levelRank CONTAINER_ISOLATED = 2"
| "levelRank REMOTE_ISOLATED = 3"

instantiation isolationLevel :: linorder
begin

definition less_eq_isolationLevel :: "isolationLevel \<Rightarrow> isolationLevel \<Rightarrow> bool" where
  "less_eq_isolationLevel a b \<longleftrightarrow> levelRank a \<le> levelRank b"

definition less_isolationLevel :: "isolationLevel \<Rightarrow> isolationLevel \<Rightarrow> bool" where
  "less_isolationLevel a b \<longleftrightarrow> levelRank a < levelRank b"

instance
proof
  fix a b :: isolationLevel
  show "a \<le> b \<Longrightarrow> b \<le> a \<Longrightarrow> a = b" by (cases a; cases b) (simp_all add: less_eq_isolationLevel_def)
qed (auto simp: less_eq_isolationLevel_def less_isolationLevel_def)

end

lemma weakest_level [simp]: "PROCESS_RESTRICTED \<le> a"
  by (simp add: less_eq_isolationLevel_def)

section \<open>The report of the host\<close>

datatype capabilityResult = AVAILABLE | UNAVAILABLE | PROBE_FAILED

record capabilityReport =
  ca_reportId :: jstring
  ca_platform :: jstring
  ca_probeId :: jstring
  ca_performedAt :: jstring
  ca_windowsBuild :: "jstring option"
  ca_jobObjectAvailable :: bool
  ca_nestedProcessAssignmentSupported :: bool
  ca_budgetSupport :: bool             \<comment> \<open>all six budgets\<close>
  ca_resourceBudgetsEnforced :: bool   \<comment> \<open>and \<open>processTreeLifecycleContained\<close>\<close>
  ca_result :: capabilityResult
  ca_reasonCodes :: "jstring list"
  ca_reportedAt :: jstring

text \<open>What the probe finds: the platform, the two files, and the answer of the helper if it gives one.\<close>

record probeResponse =
  pb_available :: bool
  pb_nested :: bool
  pb_windowsBuild :: jstring
  pb_reasonCode :: "jstring option"

record probeWorld =
  pw_platform :: jstring
  pw_release :: jstring
  pw_powershell :: bool
  pw_bridge :: bool
  pw_probe :: "probeResponse option"
  pw_now :: jstring
  pw_reportId :: jstring
  pw_probeId :: jstring

definition createReport :: "probeWorld \<Rightarrow> capabilityResult \<Rightarrow> jstring list \<Rightarrow> bool \<Rightarrow> bool \<Rightarrow> jstring option \<Rightarrow> capabilityReport" where
  "createReport w r reasonCodes available nested windowsBuild =
     \<lparr>ca_reportId = pw_reportId w,
      ca_platform = (if pw_platform w = js ''win32'' then js ''win32''
        else if pw_platform w = js ''darwin'' then js ''darwin'' else js ''linux''),
      ca_probeId = pw_probeId w, ca_performedAt = pw_now w,
      ca_windowsBuild = (if pw_platform w = js ''win32'' then Some (case windowsBuild of None \<Rightarrow> pw_release w | Some b \<Rightarrow> b) else None),
      ca_jobObjectAvailable = available, ca_nestedProcessAssignmentSupported = nested,
      ca_budgetSupport = (r = AVAILABLE), ca_resourceBudgetsEnforced = (r = AVAILABLE),
      ca_result = r, ca_reasonCodes = reasonCodes, ca_reportedAt = pw_now w\<rparr>"

definition probeWindowsProcessRestrictedCapability :: "probeWorld \<Rightarrow> capabilityReport" where
  "probeWindowsProcessRestrictedCapability w =
     (if pw_platform w \<noteq> js ''win32'' then createReport w UNAVAILABLE [js ''UNSUPPORTED_PLATFORM''] False False None
      else if \<not> pw_powershell w then createReport w UNAVAILABLE [js ''POWERSHELL_UNAVAILABLE''] False False None
      else if \<not> pw_bridge w then createReport w UNAVAILABLE [js ''BRIDGE_UNAVAILABLE''] False False None
      else
        (case pw_probe w of
           None \<Rightarrow> createReport w PROBE_FAILED [js ''WIN32_JOB_OBJECT_PROBE_FAILED''] False False None
         | Some p \<Rightarrow>
             createReport w (if pb_available p \<and> pb_nested p then AVAILABLE else PROBE_FAILED)
               (if pb_available p \<and> pb_nested p then []
                else [case pb_reasonCode p of None \<Rightarrow> js ''WIN32_JOB_OBJECT_PROBE_FAILED'' | Some c \<Rightarrow> c])
               (pb_available p) (pb_nested p) (Some (pb_windowsBuild p))))"

lemma available_report:
  "ca_result (probeWindowsProcessRestrictedCapability w) = AVAILABLE \<Longrightarrow>
   pw_platform w = js ''win32'' \<and> pw_powershell w \<and> pw_bridge w \<and> (\<exists>p. pw_probe w = Some p \<and> pb_available p \<and> pb_nested p) \<and>
   ca_resourceBudgetsEnforced (probeWindowsProcessRestrictedCapability w)"
  by (auto simp: probeWindowsProcessRestrictedCapability_def createReport_def split: if_splits option.splits)

section \<open>The requirement of a task\<close>

definition supportedFeatures :: "string list" where
  "supportedFeatures = [''JOB_OBJECT_KILL_ON_CLOSE'', ''PROCESS_TREE_CONTAINMENT'', ''CPU_LIMIT'', ''MEMORY_LIMIT'',
     ''PROCESS_COUNT_LIMIT'', ''WALL_CLOCK_LIMIT'', ''OUTPUT_LIMIT'', ''ENVIRONMENT_ALLOWLIST'',
     ''EXPLICIT_EXECUTABLE_AND_ARGV'', ''STAGED_WORKING_DIRECTORY'', ''CLOSED_STDIN'', ''CONTROLLED_STANDARD_HANDLES'',
     ''NO_SECRET_INHERITANCE'']"

definition supportedValues :: "json list" where
  "supportedValues = map (\<lambda>f. JStr (js f)) supportedFeatures"

definition requirementKeys :: "string list" where
  "requirementKeys = [''budgets'', ''capabilityId'', ''downgradeAllowed'', ''minimumIsolationLevel'',
     ''requiredProviderFeatures'', ''requirementId'', ''schemaVersion'']"

definition budgetKeys :: "string list" where
  "budgetKeys = [''maxCpuTimeMs'', ''maxMemoryBytes'', ''maxProcessCount'', ''maxStderrBytes'', ''maxStdoutBytes'', ''maxWallClockMs'']"

definition sameKeys :: "jobject \<Rightarrow> string list \<Rightarrow> bool" where
  "sameKeys d expected \<longleftrightarrow> sort (map fst d) = sort (map js expected)"

definition isSafeIntegerBetween :: "json option \<Rightarrow> int \<Rightarrow> int \<Rightarrow> bool" where
  "isSafeIntegerBetween v minimum maximum =
     (case v of Some (JNum n) \<Rightarrow> isSafeInteger n \<and> minimum \<le> num_to_int n \<and> num_to_int n \<le> maximum | _ \<Rightarrow> False)"

definition objectAt :: "jobject \<Rightarrow> string \<Rightarrow> jobject option" where
  "objectAt d k = (case getKey d k of Some (JObj e) \<Rightarrow> Some e | _ \<Rightarrow> None)"

definition featuresOk :: "json option \<Rightarrow> bool" where
  "featuresOk v = (case v of
       Some (JArr fs) \<Rightarrow> fs \<noteq> [] \<and> list_all (\<lambda>f. case f of JStr s \<Rightarrow> True | _ \<Rightarrow> False) fs \<and> distinct fs \<and>
         list_all (\<lambda>f. f \<in> set (supportedValues)) fs
     | _ \<Rightarrow> False)"

definition budgetsOk :: "jobject \<Rightarrow> bool" where
  "budgetsOk b \<longleftrightarrow> isSafeIntegerBetween (getKey b ''maxCpuTimeMs'') 1 maxSafeInteger \<and>
     isSafeIntegerBetween (getKey b ''maxMemoryBytes'') 1048576 maxSafeInteger \<and>
     isSafeIntegerBetween (getKey b ''maxProcessCount'') 1 256 \<and>
     isSafeIntegerBetween (getKey b ''maxWallClockMs'') 1 86400000 \<and>
     isSafeIntegerBetween (getKey b ''maxStdoutBytes'') 0 maxSafeInteger \<and>
     isSafeIntegerBetween (getKey b ''maxStderrBytes'') 0 maxSafeInteger"

definition requirementOk :: "jobject \<Rightarrow> jobject \<Rightarrow> jobject \<Rightarrow> bool" where
  "requirementOk context requirement budgets \<longleftrightarrow>
     sameKeys requirement requirementKeys \<and> sameKeys budgets budgetKeys \<and>
     getKey requirement ''schemaVersion'' = Some (JStr (js ''1.0.0'')) \<and>
     strWith requirement ''requirementId'' (matches uuidV7) \<and>
     getKey requirement ''requirementId'' = getKey context ''requirementId'' \<and>
     getKey requirement ''capabilityId'' = Some (JStr (js ''windows-process-restricted'')) \<and>
     isolationOf (getKey requirement ''minimumIsolationLevel'') \<noteq> None \<and>
     featuresOk (getKey requirement ''requiredProviderFeatures'') \<and>
     getKey requirement ''downgradeAllowed'' = Some (JBool False) \<and> budgetsOk budgets"

definition isCanonicalRequirement :: "json \<Rightarrow> bool" where
  "isCanonicalRequirement request =
     (case request of
        JObj r \<Rightarrow>
          (case objectAt r ''evidenceContext'' of
             None \<Rightarrow> False
           | Some context \<Rightarrow>
               (case objectAt r ''isolationRequirement'' of
                  None \<Rightarrow> False
                | Some requirement \<Rightarrow>
                    (case objectAt requirement ''budgets'' of
                       None \<Rightarrow> False
                     | Some budgets \<Rightarrow> requirementOk context requirement budgets)))
      | _ \<Rightarrow> False)"

text \<open>\<open>None\<close> is \<open>INVALID\<close>.\<close>

definition requestedLevel :: "json \<Rightarrow> isolationLevel option" where
  "requestedLevel request =
     (case request of
        JObj r \<Rightarrow> (case objectAt r ''isolationRequirement'' of
            None \<Rightarrow> None | Some requirement \<Rightarrow> isolationOf (getKey requirement ''minimumIsolationLevel''))
      | _ \<Rightarrow> None)"

section \<open>The resolution\<close>

datatype isolationReason =
    INVALID_ISOLATION_REQUIREMENT | MINIMUM_ISOLATION_LEVEL_UNAVAILABLE
  | PROCESS_RESTRICTED_PROVIDER_UNAVAILABLE | REQUIRED_PROVIDER_FEATURE_UNAVAILABLE

text \<open>The requested level, the selected level or why there is none, and the report.\<close>

record isolationResolution =
  is_requested :: "isolationLevel option"
  is_selected :: "isolationReason + isolationLevel"
  is_probe :: capabilityReport

definition requiredFeatures :: "json \<Rightarrow> json list" where
  "requiredFeatures request =
     (case request of
        JObj r \<Rightarrow> (case objectAt r ''isolationRequirement'' of
            None \<Rightarrow> []
          | Some requirement \<Rightarrow> (case getKey requirement ''requiredProviderFeatures'' of Some (JArr fs) \<Rightarrow> fs | _ \<Rightarrow> []))
      | _ \<Rightarrow> [])"

definition resolveIsolationProvider :: "json \<Rightarrow> capabilityReport \<Rightarrow> isolationResolution" where
  "resolveIsolationProvider request probe =
     (let resolution = (\<lambda>s. \<lparr>is_requested = requestedLevel request, is_selected = s, is_probe = probe\<rparr>) in
      if \<not> isCanonicalRequirement request then resolution (Inl INVALID_ISOLATION_REQUIREMENT)
      else if requestedLevel request \<noteq> Some PROCESS_RESTRICTED then resolution (Inl MINIMUM_ISOLATION_LEVEL_UNAVAILABLE)
      else if ca_result probe \<noteq> AVAILABLE then resolution (Inl PROCESS_RESTRICTED_PROVIDER_UNAVAILABLE)
      else if list_ex (\<lambda>f. f \<notin> set (supportedValues)) (requiredFeatures request)
      then resolution (Inl REQUIRED_PROVIDER_FEATURE_UNAVAILABLE)
      else (resolution (Inr PROCESS_RESTRICTED))\<lparr>is_requested := Some PROCESS_RESTRICTED\<rparr>)"

section \<open>What a resolution promises\<close>

lemma canonical_requirement:
  assumes "isCanonicalRequirement request"
  obtains r ctx requirement budgets where "request = JObj r" "objectAt r ''evidenceContext'' = Some ctx"
    "objectAt r ''isolationRequirement'' = Some requirement" "objectAt requirement ''budgets'' = Some budgets"
    "requirementOk ctx requirement budgets"
  using assms by (auto simp: isCanonicalRequirement_def split: json.splits option.splits)

lemma canonical_features:
  assumes "isCanonicalRequirement request"
  shows "list_all (\<lambda>f. f \<in> set (supportedValues)) (requiredFeatures request)"
  using assms
  by (auto elim!: canonical_requirement simp: requirementOk_def featuresOk_def requiredFeatures_def split: option.splits json.splits)

lemma selected_iff:
  "is_selected (resolveIsolationProvider request probe) = Inr level \<longleftrightarrow>
   level = PROCESS_RESTRICTED \<and> isCanonicalRequirement request \<and> requestedLevel request = Some PROCESS_RESTRICTED \<and>
   ca_result probe = AVAILABLE"
  using canonical_features [of request]
  by (auto simp: resolveIsolationProvider_def Let_def list_ex_iff list_all_iff)

text \<open>A feature that is not supported makes the requirement invalid, so that no request is refused for it.\<close>

lemma feature_reason_unused: "is_selected (resolveIsolationProvider request probe) \<noteq> Inl REQUIRED_PROVIDER_FEATURE_UNAVAILABLE"
  using canonical_features [of request]
  by (auto simp: resolveIsolationProvider_def Let_def list_ex_iff list_all_iff)

end
