(* ===== verification/Process_Adapter.thy ===== *)
theory Process_Adapter
  imports Isolation
begin

text \<open>
  \<open>packages/adapters/tool/windows-process-restricted/src/windows-process-restricted.ts\<close> and
  \<open>executeRestrictedWorkerTask\<close>: the checks of a task before a process is started for it, what the native helper is
  asked, and the evidence of what it did. Requests are JSON data, apart from their signal. The check that a path has no
  links, the staging of inputs and the helper are arguments; all errors in between have one code.
\<close>

section \<open>The catalog\<close>

record trustedTool =
  tt_toolRef :: jstring
  tt_toolVersion :: jstring
  tt_executablePath :: jstring
  tt_executableSha256 :: jstring

text \<open>\<open>createTrustedToolCatalog\<close>; \<open>None\<close> is the error of a duplicate entry.\<close>

fun catalogFrom :: "trustedTool list \<Rightarrow> (jstring \<times> trustedTool) list \<Rightarrow> (jstring \<times> trustedTool) list option" where
  "catalogFrom [] byReference = Some byReference"
| "catalogFrom (entry # entries) byReference =
     (if map_of byReference (tt_toolRef entry) \<noteq> None then None
      else catalogFrom entries (byReference @ [(tt_toolRef entry, entry)]))"

definition createTrustedToolCatalog :: "trustedTool list \<Rightarrow> (jstring \<Rightarrow> trustedTool option) option" where
  "createTrustedToolCatalog entries = map_option map_of (catalogFrom entries [])"

section \<open>Windows paths\<close>

definition isSeparator :: "16 word \<Rightarrow> bool" where
  "isSeparator c \<longleftrightarrow> c = 47 \<or> c = 92"

definition isLetter :: "16 word \<Rightarrow> bool" where
  "isLetter c \<longleftrightarrow> 65 \<le> c \<and> c \<le> 90 \<or> 97 \<le> c \<and> c \<le> 122"

definition withoutDrive :: "jstring \<Rightarrow> jstring" where
  "withoutDrive p = (case p of c # d # r \<Rightarrow> if isLetter c \<and> d = 58 then r else p | _ \<Rightarrow> p)"

definition isAbsoluteWindows :: "jstring \<Rightarrow> bool" where
  "isAbsoluteWindows p = (case p of
       [] \<Rightarrow> False
     | c # r \<Rightarrow> isSeparator c \<or> (case p of a # b # d # _ \<Rightarrow> isLetter a \<and> b = 58 \<and> isSeparator d | _ \<Rightarrow> False))"

definition basenameWindows :: "jstring \<Rightarrow> jstring" where
  "basenameWindows p = rev (takeWhile (\<lambda>c. \<not> isSeparator c) (dropWhile isSeparator (rev (withoutDrive p))))"

text \<open>The extension of a name without separators.\<close>

definition extnameWindows :: "jstring \<Rightarrow> jstring" where
  "extnameWindows name =
     (let s = withoutDrive name; stem = rev (drop 1 (dropWhile (\<lambda>c. c \<noteq> 46) (rev s))); extension = drop (length stem) s in
      if 46 \<notin> set s \<or> stem = [] \<or> s = js ''..'' then [] else extension)"

definition deniedExecutableNames :: "string list" where
  "deniedExecutableNames = [''bash.exe'', ''cmd.exe'', ''cscript.exe'', ''mshta.exe'', ''node.exe'', ''powershell.exe'',
     ''pwsh.exe'', ''python.exe'', ''python3.exe'', ''sh.exe'', ''wscript.exe'', ''wsl.exe'']"

definition deniedExecutableExtensions :: "string list" where
  "deniedExecutableExtensions = [''.bat'', ''.cmd'', ''.js'', ''.ps1'', ''.vbs'', ''.wsf'']"

definition deniedExecutable :: "jstring \<Rightarrow> bool" where
  "deniedExecutable path \<longleftrightarrow>
     (let executableName = toLowerCase (basenameWindows path) in
      executableName \<in> set (map js deniedExecutableNames) \<or> extnameWindows executableName \<in> set (map js deniedExecutableExtensions))"

section \<open>The shape of a request\<close>

definition stringList :: "json \<Rightarrow> bool" where
  "stringList v \<longleftrightarrow> (case v of JArr xs \<Rightarrow> list_all (\<lambda>x. case x of JStr s \<Rightarrow> True | _ \<Rightarrow> False) xs | _ \<Rightarrow> False)"

definition allowedKeys :: "string list" where
  "allowedKeys = [''argv'', ''environment'', ''environmentAllowlist'', ''evidenceContext'', ''inputs'', ''limits'', ''signal'',
     ''stagingRoot'', ''toolRef'']"

definition inputOk :: "json \<Rightarrow> bool" where
  "inputOk v = (case v of
       JObj i \<Rightarrow> sameKeys i [''content'', ''relativePath''] \<and> strWith i ''relativePath'' (\<lambda>_. True) \<and> strWith i ''content'' (\<lambda>_. True)
     | _ \<Rightarrow> False)"

definition validateRequestShape :: "jobject \<Rightarrow> bool" where
  "validateRequestShape rq \<longleftrightarrow>
     set (map fst rq) \<subseteq> set (map js allowedKeys) \<and> strWith rq ''toolRef'' (\<lambda>_. True) \<and> strWith rq ''stagingRoot'' (\<lambda>_. True) \<and>
     (case getKey rq ''argv'' of Some v \<Rightarrow> stringList v | None \<Rightarrow> False) \<and>
     (case objectAt rq ''limits'' of Some l \<Rightarrow> sameKeys l budgetKeys | None \<Rightarrow> False) \<and>
     objectAt rq ''evidenceContext'' \<noteq> None \<and>
     (getKey rq ''environment'' \<noteq> None \<longrightarrow> objectAt rq ''environment'' \<noteq> None) \<and>
     (case getKey rq ''environmentAllowlist'' of Some v \<Rightarrow> stringList v | None \<Rightarrow> True) \<and>
     (case getKey rq ''inputs'' of Some (JArr is) \<Rightarrow> list_all inputOk is | Some _ \<Rightarrow> False | None \<Rightarrow> True)"

section \<open>The values of a request\<close>

text \<open>\<open>/^[a-z][a-z0-9]*(?:[._-][a-z0-9]+)*$/\<close>\<close>

definition toolRefRx :: rx where
  "toolRefRx = seqs [Cls [rng CHR ''a'' CHR ''z''], Star (Cls [rng CHR ''a'' CHR ''z'', rng CHR ''0'' CHR ''9'']),
     Star (Seq (Cls [rng CHR ''.'' CHR ''.'', rng CHR ''_'' CHR ''_'', rng CHR ''-'' CHR ''-''])
       (many1 (Cls [rng CHR ''a'' CHR ''z'', rng CHR ''0'' CHR ''9''])))]"

text \<open>\<open>/^[0-9]+\.[0-9]+\.[0-9]+(?:-[0-9A-Za-z.-]+)?(?:\+[0-9A-Za-z.-]+)?$/\<close>\<close>

definition toolVersionRx :: rx where
  "toolVersionRx = seqs [many1 digitCls, lit ''.'', many1 digitCls, lit ''.'', many1 digitCls,
     opt (Seq (lit ''-'') semverTail), opt (Seq (lit ''+'') semverTail)]"

text \<open>\<open>/^[A-Za-z_][A-Za-z0-9_()]*$/\<close> and \<open>/^[A-Z][A-Za-z0-9]{1,127}$/\<close>\<close>

definition environmentName :: rx where
  "environmentName = Seq (Cls [rng CHR ''A'' CHR ''Z'', rng CHR ''a'' CHR ''z'', rng CHR ''_'' CHR ''_''])
     (Star (Cls [rng CHR ''A'' CHR ''Z'', rng CHR ''a'' CHR ''z'', rng CHR ''0'' CHR ''9'', rng CHR ''_'' CHR ''_'',
       rng CHR ''('' CHR ''('', rng CHR '')'' CHR '')'']))"

definition canonicalTypeName :: rx where
  "canonicalTypeName = (let alnum = Cls [rng CHR ''A'' CHR ''Z'', rng CHR ''a'' CHR ''z'', rng CHR ''0'' CHR ''9''] in
     seqs [Cls [rng CHR ''A'' CHR ''Z''], alnum, repUpTo 126 alnum])"

text \<open>\<open>value.includes(NUL)\<close>; \<open>None\<close> is the \<open>TypeError\<close> of a value without that method.\<close>

fun includesNul :: "json \<Rightarrow> bool option" where
  "includesNul (JStr s) = Some (0 \<in> set s)"
| "includesNul (JArr xs) = Some (JStr [0] \<in> set xs)"
| "includesNul _ = None"

text \<open>\<open>pattern.test(value)\<close>\<close>

definition tests :: "rx \<Rightarrow> json option \<Rightarrow> bool" where
  "tests r v \<longleftrightarrow> (case stringOf v of None \<Rightarrow> False | Some s \<Rightarrow> matches r s)"

text \<open>
  \<open>value.length < 1 || value.length > n\<close>: the length of a value that is no string or array is undefined, which is in no
  relation, or an own member, whose comparison is the argument \<open>ownLength\<close>; \<open>None\<close> is a \<open>TypeError\<close>.
\<close>

fun lengthOutside :: "(json \<Rightarrow> nat \<Rightarrow> bool) \<Rightarrow> nat \<Rightarrow> json \<Rightarrow> bool option" where
  "lengthOutside ownLength n (JStr s) = Some (length s < 1 \<or> length s > n)"
| "lengthOutside ownLength n (JArr xs) = Some (length xs < 1 \<or> length xs > n)"
| "lengthOutside ownLength n (JObj kvs) =
     Some (case getKey kvs ''length'' of None \<Rightarrow> False | Some v \<Rightarrow> ownLength v n)"
| "lengthOutside ownLength n JNull = None"
| "lengthOutside ownLength n _ = Some False"

definition refText :: "jobject \<Rightarrow> jstring option" where
  "refText r =
     (case (stringOf (getKey r ''subjectType''), stringOf (getKey r ''subjectId''),
          case getKey r ''subjectVersion'' of None \<Rightarrow> Some [] | Some JNull \<Rightarrow> Some [] | Some v \<Rightarrow> toStringOf v) of
        (Some t, Some i, Some v) \<Rightarrow> Some (t @ [0] @ i @ [0] @ v)
      | _ \<Rightarrow> None)"

definition evidenceRefOk :: "(json \<Rightarrow> nat \<Rightarrow> bool) \<Rightarrow> jobject \<Rightarrow> bool" where
  "evidenceRefOk ownLength r \<longleftrightarrow>
     sameKeys r (if getKey r ''subjectVersion'' = None then [''subjectId'', ''subjectType'']
       else [''subjectId'', ''subjectType'', ''subjectVersion'']) \<and>
     tests canonicalTypeName (getKey r ''subjectType'') \<and>
     (case getKey r ''subjectId'' of None \<Rightarrow> False | Some v \<Rightarrow> lengthOutside ownLength 256 v = Some False) \<and>
     (case getKey r ''subjectVersion'' of None \<Rightarrow> True | Some v \<Rightarrow> lengthOutside ownLength 128 v = Some False)"

definition evidenceRefsOk :: "(json \<Rightarrow> nat \<Rightarrow> bool) \<Rightarrow> json option \<Rightarrow> bool" where
  "evidenceRefsOk ownLength v = (case v of
       Some (JArr refs) \<Rightarrow> refs \<noteq> [] \<and>
         list_all (\<lambda>r. case r of JObj o' \<Rightarrow> refText o' \<noteq> None \<and> evidenceRefOk ownLength o' | _ \<Rightarrow> False) refs \<and>
         distinct (map (\<lambda>r. case r of JObj o' \<Rightarrow> refText o' | _ \<Rightarrow> None) refs)
     | _ \<Rightarrow> False)"

definition evidenceContextOk :: "(json \<Rightarrow> nat \<Rightarrow> bool) \<Rightarrow> jobject \<Rightarrow> bool" where
  "evidenceContextOk ownLength c \<longleftrightarrow>
     sameKeys c [''evidenceRefs'', ''executionId'', ''requirementId'', ''taskId''] \<and> tests uuidV7 (getKey c ''requirementId'') \<and>
     tests uuidV7 (getKey c ''taskId'') \<and> tests uuidV7 (getKey c ''executionId'') \<and>
     evidenceRefsOk ownLength (getKey c ''evidenceRefs'')"

definition toolOk :: "jstring \<Rightarrow> trustedTool \<Rightarrow> bool" where
  "toolOk toolRef tool \<longleftrightarrow>
     isAbsoluteWindows (tt_executablePath tool) \<and> 0 \<notin> set (tt_executablePath tool) \<and> matches toolRefRx toolRef \<and>
     tt_toolRef tool = toolRef \<and> matches toolVersionRx (tt_toolVersion tool) \<and> matches hex64 (tt_executableSha256 tool) \<and>
     \<not> deniedExecutable (tt_executablePath tool)"

definition valuesOk :: "(json \<Rightarrow> nat \<Rightarrow> bool) \<Rightarrow> jobject \<Rightarrow> bool" where
  "valuesOk ownLength rq \<longleftrightarrow>
     (case getKey rq ''argv'' of Some (JArr xs) \<Rightarrow> list_all (\<lambda>x. includesNul x = Some False) xs | _ \<Rightarrow> False) \<and>
     (case objectAt rq ''environment'' of None \<Rightarrow> True
      | Some e \<Rightarrow> list_all (\<lambda>(name, v). matches environmentName name \<and> includesNul v = Some False) e) \<and>
     (case objectAt rq ''limits'' of None \<Rightarrow> False | Some l \<Rightarrow> budgetsOk l) \<and>
     (case objectAt rq ''evidenceContext'' of None \<Rightarrow> False | Some c \<Rightarrow> evidenceContextOk ownLength c)"

text \<open>What the host answers: \<open>assertCanonicalNoReparse\<close> for the two kinds, the hash of a file, a new directory.\<close>

record adapterHost =
  ah_ownLength :: "json \<Rightarrow> nat \<Rightarrow> bool"
  ah_file :: "jstring \<Rightarrow> jstring option"
  ah_directory :: "jstring \<Rightarrow> jstring option"
  ah_sha256 :: "jstring \<Rightarrow> jstring option"
  ah_mkdir :: "jstring \<Rightarrow> bool"

text \<open>The canonical executable and staging root of a valid request.\<close>

definition validateRequest :: "adapterHost \<Rightarrow> jobject \<Rightarrow> trustedTool \<Rightarrow> (jstring \<times> jstring) option" where
  "validateRequest w rq tool =
     (case (getKey rq ''toolRef'', getKey rq ''stagingRoot'') of
        (Some (JStr toolRef), Some (JStr stagingRoot)) \<Rightarrow>
          if \<not> validateRequestShape rq \<or> \<not> toolOk toolRef tool \<or> \<not> isAbsoluteWindows stagingRoot \<or> \<not> valuesOk (ah_ownLength w) rq
          then None
          else
            (case ah_file w (tt_executablePath tool) of
               None \<Rightarrow> None
             | Some executable \<Rightarrow>
                 if ah_sha256 w executable \<noteq> Some (tt_executableSha256 tool) \<or> \<not> ah_mkdir w stagingRoot then None
                 else map_option (\<lambda>root. (executable, root)) (ah_directory w stagingRoot))
      | _ \<Rightarrow> None)"

text \<open>\<open>selectEnvironment\<close>; the members that every object inherits are not data, and assigning to \<open>__proto__\<close> adds none.\<close>

definition selectEnvironment :: "jobject \<Rightarrow> jobject option" where
  "selectEnvironment rq =
     (let source = (case objectAt rq ''environment'' of None \<Rightarrow> [] | Some e \<Rightarrow> e);
          allowlist = (case getKey rq ''environmentAllowlist'' of Some (JArr xs) \<Rightarrow> [s. JStr s \<leftarrow> xs] | _ \<Rightarrow> []) in
      if list_ex (\<lambda>name. \<not> matches environmentName name) allowlist then None
      else Some (concat (map (\<lambda>name. case map_of source name of
             None \<Rightarrow> [] | Some v \<Rightarrow> if name = js ''__proto__'' then [] else [(name, v)]) (rev (remdups (rev allowlist))))))"

section \<open>What the helper is asked, and what it answers\<close>

record bridgeRequest =
  bq_executable :: jstring
  bq_executableSha256 :: jstring
  bq_arguments :: json
  bq_workingDirectory :: jstring
  bq_environment :: jobject
  bq_limits :: jobject

datatype bridgeReason =
    WallClockLimit | CpuLimit | MemoryLimit | ProcessCountLimit | OutputLimit | Cancelled

datatype bridgeStatus = BridgeCompleted | BridgeTerminated | BridgeFailedToStart

record bridgeResponse =
  br_status :: bridgeStatus
  br_exitCode :: "int option"
  br_reason :: "bridgeReason option"
  br_stdout :: "nat list"
  br_stderr :: "nat list"
  br_durationMs :: int
  br_code :: "jstring option"
  br_rootProcessId :: "int option"
  br_cpuTimeMs :: "int option"
  br_memoryPeakBytes :: "int option"
  br_processPeakCount :: "int option"
  br_activeProcessCountAfterCompletion :: "int option"
  br_descendantTerminationVerified :: "bool option"

text \<open>How the helper ends: whether the call was cancelled, whether its output is empty, and the output if it is JSON.\<close>

record bridgeCall =
  bc_cancelled :: bool
  bc_empty :: bool
  bc_response :: "bridgeResponse option"

section \<open>Evidence\<close>

datatype terminationReason = ByExit | ByReason bridgeReason

datatype outcome = SUCCEEDED | FAILED | CANCELLED | TIMED_OUT

record isolationEvidence =
  ev_requirementId :: "json option"
  ev_taskId :: "json option"
  ev_executionId :: "json option"
  ev_evidenceRefs :: "json option"
  ev_capabilityReportId :: jstring
  ev_probeId :: jstring
  ev_selectedIsolationLevel :: isolationLevel
  ev_downgradeOccurred :: bool
  ev_budgets :: jobject
  ev_cpuTimeMs :: int
  ev_memoryPeakBytes :: int
  ev_processPeakCount :: int
  ev_wallClockMs :: int
  ev_stdoutBytes :: nat
  ev_stderrBytes :: nat
  ev_rootProcessId :: int
  ev_descendantTerminationVerified :: bool
  ev_outcome :: outcome
  ev_exitCode :: "int option"
  ev_terminationReason :: terminationReason
  ev_reasonCodes :: "terminationReason list"

definition withDefault :: "'a option \<Rightarrow> 'a \<Rightarrow> 'a" where
  "withDefault v d = (case v of None \<Rightarrow> d | Some x \<Rightarrow> x)"

definition terminationOf :: "bridgeResponse \<Rightarrow> terminationReason" where
  "terminationOf response =
     (if br_status response = BridgeCompleted then ByExit else ByReason (withDefault (br_reason response) OutputLimit))"

definition createEvidence :: "jobject \<Rightarrow> capabilityReport \<Rightarrow> bridgeResponse \<Rightarrow> isolationEvidence option" where
  "createEvidence rq capability response =
     (let context = (case objectAt rq ''evidenceContext'' of None \<Rightarrow> [] | Some c \<Rightarrow> c);
          reason = terminationOf response;
          succeeded = (br_status response = BridgeCompleted \<and> br_exitCode response = Some 0) in
      case br_rootProcessId response of
        None \<Rightarrow> None
      | Some root \<Rightarrow>
          if root < 1 \<or> br_activeProcessCountAfterCompletion response \<noteq> Some 0 then None
          else Some \<lparr>ev_requirementId = getKey context ''requirementId'', ev_taskId = getKey context ''taskId'',
            ev_executionId = getKey context ''executionId'', ev_evidenceRefs = getKey context ''evidenceRefs'',
            ev_capabilityReportId = ca_reportId capability, ev_probeId = ca_probeId capability,
            ev_selectedIsolationLevel = PROCESS_RESTRICTED, ev_downgradeOccurred = False,
            ev_budgets = (case objectAt rq ''limits'' of None \<Rightarrow> [] | Some l \<Rightarrow> l),
            ev_cpuTimeMs = withDefault (br_cpuTimeMs response) 0, ev_memoryPeakBytes = withDefault (br_memoryPeakBytes response) 0,
            ev_processPeakCount = withDefault (br_processPeakCount response) 1, ev_wallClockMs = br_durationMs response,
            ev_stdoutBytes = length (br_stdout response), ev_stderrBytes = length (br_stderr response),
            ev_rootProcessId = root,
            ev_descendantTerminationVerified = withDefault (br_descendantTerminationVerified response) False,
            ev_outcome = (if succeeded then SUCCEEDED else if reason = ByReason Cancelled then CANCELLED
              else if reason = ByReason WallClockLimit then TIMED_OUT else FAILED),
            ev_exitCode = br_exitCode response, ev_terminationReason = reason,
            ev_reasonCodes = (if succeeded then [] else [reason])\<rparr>)"

section \<open>Running a task\<close>

datatype adapterResult =
    RunUnavailable capabilityReport
  | RunFailedToStart jstring
  | RunTerminated bridgeReason bridgeRequest isolationEvidence
  | RunCompleted int bridgeRequest isolationEvidence

text \<open>The staging directory with the inputs in it, the request file, and the helper; \<open>None\<close> is an exception.\<close>

record adapterWorld =
  aw_host :: adapterHost
  aw_stage :: "jobject \<Rightarrow> jstring \<Rightarrow> jstring option"
  aw_requestWritten :: bool
  aw_bridge :: "bridgeRequest \<Rightarrow> bridgeCall option"

definition failedToStart :: "string \<Rightarrow> adapterResult" where
  "failedToStart code = RunFailedToStart (js code)"

definition bridgeRequestFor :: "adapterWorld \<Rightarrow> jobject \<Rightarrow> trustedTool \<Rightarrow> bridgeRequest option" where
  "bridgeRequestFor w rq tool =
     (case validateRequest (aw_host w) rq tool of
        None \<Rightarrow> None
      | Some (executable, root) \<Rightarrow>
          (case (aw_stage w rq root, selectEnvironment rq) of
             (Some directory, Some environment) \<Rightarrow>
               if \<not> aw_requestWritten w then None
               else Some \<lparr>bq_executable = executable, bq_executableSha256 = tt_executableSha256 tool,
                 bq_arguments = (case getKey rq ''argv'' of None \<Rightarrow> JNull | Some v \<Rightarrow> v), bq_workingDirectory = directory,
                 bq_environment = environment, bq_limits = (case objectAt rq ''limits'' of None \<Rightarrow> [] | Some l \<Rightarrow> l)\<rparr>
           | _ \<Rightarrow> None))"

definition runStarted :: "adapterWorld \<Rightarrow> jobject \<Rightarrow> trustedTool \<Rightarrow> capabilityReport \<Rightarrow> adapterResult" where
  "runStarted w rq tool capability =
     (let crashed = failedToStart ''WINDOWS_PROCESS_RESTRICTED_FAILED'' in
      case bridgeRequestFor w rq tool of
        None \<Rightarrow> crashed
      | Some bq \<Rightarrow>
          (case aw_bridge w bq of
             None \<Rightarrow> crashed
           | Some call \<Rightarrow>
               if bc_cancelled call \<and> bc_empty call then failedToStart ''CANCELLATION_BRIDGE_LOST''
               else (case bc_response call of
                  None \<Rightarrow> crashed
                | Some response \<Rightarrow>
                    if br_status response = BridgeFailedToStart
                    then RunFailedToStart (withDefault (br_code response) (js ''WIN32_BRIDGE_FAILURE''))
                    else
                      (case createEvidence rq capability response of
                         None \<Rightarrow> crashed
                       | Some evidence \<Rightarrow>
                           if br_status response = BridgeTerminated
                           then RunTerminated (withDefault (br_reason response) WallClockLimit) bq evidence
                           else RunCompleted (withDefault (br_exitCode response) (-1)) bq evidence))))"

definition runWindowsProcessRestricted ::
    "adapterWorld \<Rightarrow> json \<Rightarrow> bool \<Rightarrow> (jstring \<Rightarrow> trustedTool option) \<Rightarrow> capabilityReport \<Rightarrow> adapterResult" where
  "runWindowsProcessRestricted w request aborted catalog capability =
     (case request of
        JObj rq \<Rightarrow>
          if aborted then failedToStart ''REQUEST_CANCELLED_BEFORE_START''
          else if ca_result capability \<noteq> AVAILABLE then RunUnavailable capability
          else
            (case getKey rq ''toolRef'' of
               Some (JStr toolRef) \<Rightarrow>
                 (case catalog toolRef of
                    None \<Rightarrow> failedToStart ''TRUSTED_TOOL_NOT_FOUND''
                  | Some tool \<Rightarrow> runStarted w rq tool capability)
             | _ \<Rightarrow> failedToStart ''INVALID_REQUEST'')
      | _ \<Rightarrow> failedToStart ''INVALID_REQUEST'')"

section \<open>The worker\<close>

text \<open>The members that \<open>executeRestrictedWorkerTask\<close> passes on; one that is undefined is absent.\<close>

definition definedMembers :: "(string \<times> json option) list \<Rightarrow> jobject" where
  "definedMembers kvs = [(js k, v). (k, Some v) \<leftarrow> kvs]"

definition adapterRequest :: "jobject \<Rightarrow> jobject" where
  "adapterRequest r =
     (let budgets = (case objectAt r ''isolationRequirement'' of None \<Rightarrow> None | Some q \<Rightarrow> getKey q ''budgets'') in
      definedMembers [(''toolRef'', getKey r ''toolRef''), (''argv'', getKey r ''argv''),
         (''stagingRoot'', getKey r ''stagingRoot''), (''limits'', budgets), (''evidenceContext'', getKey r ''evidenceContext''),
         (''inputs'', getKey r ''inputs''), (''environment'', getKey r ''environment''),
         (''environmentAllowlist'', getKey r ''environmentAllowlist'')])"

text \<open>The resolution, and the result of the adapter when it was not blocked.\<close>

definition executeRestrictedWorkerTask ::
    "probeWorld \<Rightarrow> adapterWorld \<Rightarrow> json \<Rightarrow> bool \<Rightarrow> (jstring \<Rightarrow> trustedTool option) \<Rightarrow> isolationResolution \<times> adapterResult option" where
  "executeRestrictedWorkerTask pw w request aborted catalog =
     (let probe = probeWindowsProcessRestrictedCapability pw; isolation = resolveIsolationProvider request probe in
      case (is_selected isolation, request) of
        (Inr _, JObj r) \<Rightarrow> (isolation, Some (runWindowsProcessRestricted w (JObj (adapterRequest r)) aborted catalog probe))
      | _ \<Rightarrow> (isolation, None))"

section \<open>What is run, and how it is attested\<close>

definition started :: "adapterResult \<Rightarrow> (bridgeRequest \<times> isolationEvidence) option" where
  "started result = (case result of
       RunTerminated _ bq ev \<Rightarrow> Some (bq, ev) | RunCompleted _ bq ev \<Rightarrow> Some (bq, ev) | _ \<Rightarrow> None)"

lemma started_failed [simp]: "started (failedToStart c) = None" "started (RunFailedToStart d) = None"
  by (simp_all add: failedToStart_def started_def)

lemma runStarted_started:
  assumes "started (runStarted w rq tool capability) = Some (bq, ev)"
  shows "bridgeRequestFor w rq tool = Some bq \<and> (\<exists>call response. aw_bridge w bq = Some call \<and> bc_response call = Some response \<and>
    br_status response \<noteq> BridgeFailedToStart \<and> createEvidence rq capability response = Some ev)"
  using assms by (auto simp: runStarted_def Let_def started_def failedToStart_def split: option.splits if_splits)

lemma bridgeRequestFor_fields:
  assumes "bridgeRequestFor w rq tool = Some bq"
  obtains executable root where "validateRequest (aw_host w) rq tool = Some (executable, root)" "bq_executable bq = executable"
    "bq_executableSha256 bq = tt_executableSha256 tool" "selectEnvironment rq = Some (bq_environment bq)"
    "bq_limits bq = (case objectAt rq ''limits'' of None \<Rightarrow> [] | Some l \<Rightarrow> l)"
    "aw_stage w rq root = Some (bq_workingDirectory bq)" "Some (bq_arguments bq) = Some (case getKey rq ''argv'' of None \<Rightarrow> JNull | Some v \<Rightarrow> v)"
  using assms by (auto simp: bridgeRequestFor_def split: option.splits prod.splits if_splits)

lemma validateRequest_fields:
  assumes "validateRequest h rq tool = Some (executable, root)"
  obtains toolRef stagingRoot where "getKey rq ''toolRef'' = Some (JStr toolRef)" "getKey rq ''stagingRoot'' = Some (JStr stagingRoot)"
    "validateRequestShape rq" "toolOk toolRef tool" "valuesOk (ah_ownLength h) rq"
    "ah_file h (tt_executablePath tool) = Some executable" "ah_sha256 h executable = Some (tt_executableSha256 tool)"
    "ah_directory h stagingRoot = Some root"
  using assms by (auto simp: validateRequest_def split: option.splits json.splits if_splits)

lemma selectEnvironment_fields:
  assumes "selectEnvironment rq = Some env" "(name, v) \<in> set env"
  shows "matches environmentName name \<and> (\<exists>e. objectAt rq ''environment'' = Some e \<and> map_of e name = Some v) \<and>
    (\<exists>xs. getKey rq ''environmentAllowlist'' = Some (JArr xs) \<and> JStr name \<in> set xs)"
  using assms by (fastforce simp: selectEnvironment_def Let_def list_ex_iff split: if_splits option.splits json.splits)

lemma catalogFrom_sound:
  assumes "catalogFrom entries acc = Some m" "map_of m k = Some t"
    "\<And>k t. map_of acc k = Some t \<Longrightarrow> tt_toolRef t = k \<and> t \<in> S" "set entries \<subseteq> S"
  shows "tt_toolRef t = k \<and> t \<in> S"
  using assms
proof (induction entries arbitrary: acc)
  case (Cons e es)
  show ?case
    by (rule Cons.IH) (use Cons.prems in \<open>auto simp: map_add_def split: if_splits option.splits\<close>)
qed simp

lemma catalog_sound:
  "createTrustedToolCatalog entries = Some catalog \<Longrightarrow> catalog k = Some t \<Longrightarrow> tt_toolRef t = k \<and> t \<in> set entries"
  using catalogFrom_sound [where acc = "[]" and S = "set entries"] by (fastforce simp: createTrustedToolCatalog_def)

lemma createEvidence_fields:
  assumes "createEvidence rq capability response = Some ev"
  shows "ev_budgets ev = (case objectAt rq ''limits'' of None \<Rightarrow> [] | Some l \<Rightarrow> l) \<and> ev_selectedIsolationLevel ev = PROCESS_RESTRICTED \<and>
    \<not> ev_downgradeOccurred ev \<and> br_rootProcessId response = Some (ev_rootProcessId ev) \<and> 1 \<le> ev_rootProcessId ev \<and>
    br_activeProcessCountAfterCompletion response = Some 0 \<and>
    (ev_outcome ev = SUCCEEDED \<longleftrightarrow> br_status response = BridgeCompleted \<and> br_exitCode response = Some 0)"
  using assms by (auto simp: createEvidence_def Let_def split: option.splits if_splits)

lemma definedMembers_get:
  "distinct (map fst kvs) \<Longrightarrow> getKey (definedMembers kvs) k = (case map_of kvs k of None \<Rightarrow> None | Some v \<Rightarrow> v)"
proof (induction kvs)
  case (Cons kv kvs)
  then show ?case
    by (cases kv; cases "snd kv"; simp add: definedMembers_def split: option.split) (force dest: map_of_SomeD)+
qed (simp add: definedMembers_def)

lemma adapterRequest_keys:
  "getKey (adapterRequest r) ''toolRef'' = getKey r ''toolRef''"
  "getKey (adapterRequest r) ''environment'' = getKey r ''environment''"
  "getKey (adapterRequest r) ''environmentAllowlist'' = getKey r ''environmentAllowlist''"
  "getKey (adapterRequest r) ''limits'' =
     (case objectAt r ''isolationRequirement'' of None \<Rightarrow> None | Some q \<Rightarrow> getKey q ''budgets'')"
  unfolding adapterRequest_def Let_def by (simp_all add: definedMembers_get)

lemma adapterRequest_limits:
  assumes "objectAt r ''isolationRequirement'' = Some requirement" "objectAt requirement ''budgets'' = Some budgets"
  shows "objectAt (adapterRequest r) ''limits'' = Some budgets"
  using assms by (simp add: objectAt_def adapterRequest_keys split: option.splits json.splits)

section \<open>Properties\<close>

text \<open>C39. Isolation is never downgraded: a level is selected only for a request with a canonical requirement that forbids
  downgrades, it is at least the level the request asks for, every feature the request needs is supported, its budgets are
  bounded, and the host was probed to enforce them.\<close>

theorem isolation_never_downgraded:
  assumes "is_selected (resolveIsolationProvider request (probeWindowsProcessRestrictedCapability pw)) = Inr level"
  shows "(\<exists>requested. requestedLevel request = Some requested \<and> requested \<le> level) \<and>
    (\<exists>r requirement budgets. request = JObj r \<and> objectAt r ''isolationRequirement'' = Some requirement \<and>
      getKey requirement ''downgradeAllowed'' = Some (JBool False) \<and> objectAt requirement ''budgets'' = Some budgets \<and> budgetsOk budgets) \<and>
    set (requiredFeatures request) \<subseteq> set supportedValues \<and> pw_platform pw = js ''win32'' \<and>
    (\<exists>p. pw_probe pw = Some p \<and> pb_available p \<and> pb_nested p)"
proof -
  have s: "level = PROCESS_RESTRICTED" "isCanonicalRequirement request" "requestedLevel request = Some PROCESS_RESTRICTED"
    "ca_result (probeWindowsProcessRestrictedCapability pw) = AVAILABLE"
    using assms by (simp_all add: selected_iff)
  obtain r ctx requirement budgets where r: "request = JObj r" "objectAt r ''isolationRequirement'' = Some requirement"
    "objectAt requirement ''budgets'' = Some budgets" "requirementOk ctx requirement budgets"
    using s(2) by (rule canonical_requirement)
  then show ?thesis
    using s(1,3) canonical_features [OF s(2)] available_report [OF s(4)] by (auto simp: requirementOk_def list_all_iff)
qed


section \<open>An example\<close>

definition exampleBudgets :: jobject where
  "exampleBudgets = [(js ''maxCpuTimeMs'', JNum (Dec 1 3)), (js ''maxMemoryBytes'', JNum (Dec 2 6)), (js ''maxProcessCount'', JNum (Dec 4 0)),
     (js ''maxStderrBytes'', JNum (Dec 1 2)), (js ''maxStdoutBytes'', JNum (Dec 1 2)), (js ''maxWallClockMs'', JNum (Dec 5 3))]"

definition taskId :: "string \<Rightarrow> jstring" where
  "taskId s = js (''0190aaaa-0000-7000-8000-00000000000'' @ s)"

definition exampleRequirement :: jobject where
  "exampleRequirement = [(js ''budgets'', JObj exampleBudgets), (js ''capabilityId'', JStr (js ''windows-process-restricted'')),
     (js ''downgradeAllowed'', JBool False), (js ''minimumIsolationLevel'', JStr (js ''PROCESS_RESTRICTED'')),
     (js ''requiredProviderFeatures'', JArr [JStr (js ''MEMORY_LIMIT'')]), (js ''requirementId'', JStr (taskId ''1'')),
     (js ''schemaVersion'', JStr (js ''1.0.0''))]"

definition exampleMembers :: jobject where
  "exampleMembers = [(js ''toolRef'', JStr (js ''git'')), (js ''argv'', JArr [JStr (js ''status'')]), (js ''stagingRoot'', JStr (js ''C:/tasks'')),
     (js ''isolationRequirement'', JObj exampleRequirement),
     (js ''evidenceContext'', JObj [(js ''evidenceRefs'', JArr [JObj [(js ''subjectId'', JStr (js ''t1'')), (js ''subjectType'', JStr (js ''Task''))]]),
        (js ''executionId'', JStr (taskId ''2'')), (js ''requirementId'', JStr (taskId ''1'')), (js ''taskId'', JStr (taskId ''3''))]),
     (js ''environment'', JObj [(js ''LANG'', JStr (js ''C'')), (js ''SECRET'', JStr (js ''x''))]),
     (js ''environmentAllowlist'', JArr [JStr (js ''LANG'')])]"

definition exampleTask :: json where
  "exampleTask = JObj exampleMembers"

definition exampleTool :: trustedTool where
  "exampleTool = \<lparr>tt_toolRef = js ''git'', tt_toolVersion = js ''2.40.0'', tt_executablePath = js ''C:/tools/git.exe'',
     tt_executableSha256 = replicate 64 97\<rparr>"

definition exampleProbe :: probeWorld where
  "exampleProbe = \<lparr>pw_platform = js ''win32'', pw_release = js ''10'', pw_powershell = True, pw_bridge = True,
     pw_probe = Some \<lparr>pb_available = True, pb_nested = True, pb_windowsBuild = js ''10'', pb_reasonCode = None\<rparr>,
     pw_now = [], pw_reportId = [], pw_probeId = []\<rparr>"

definition exampleHost :: adapterHost where
  "exampleHost = \<lparr>ah_ownLength = (\<lambda>_ _. False), ah_file = Some, ah_directory = Some, ah_sha256 = (\<lambda>_. Some (replicate 64 97)),
     ah_mkdir = (\<lambda>_. True)\<rparr>"

definition exampleAdapter :: adapterWorld where
  "exampleAdapter = \<lparr>aw_host = exampleHost, aw_stage = (\<lambda>_ root. Some (root @ js ''/aseos-process-1'')), aw_requestWritten = True,
     aw_bridge = (\<lambda>_. Some \<lparr>bc_cancelled = False, bc_empty = False, bc_response = Some \<lparr>br_status = BridgeCompleted, br_exitCode = Some 0, br_reason = None,
       br_stdout = [111, 107], br_stderr = [], br_durationMs = 12, br_code = None, br_rootProcessId = Some 4711, br_cpuTimeMs = Some 3,
       br_memoryPeakBytes = None, br_processPeakCount = None, br_activeProcessCountAfterCompletion = Some 0,
       br_descendantTerminationVerified = Some True\<rparr>\<rparr>)\<rparr>"

definition exampleCatalog :: "jstring \<Rightarrow> trustedTool option" where
  "exampleCatalog = (\<lambda>r. if r = js ''git'' then Some exampleTool else None)"

lemma example_catalog: "createTrustedToolCatalog [exampleTool] = Some exampleCatalog"
  by (auto simp: createTrustedToolCatalog_def exampleCatalog_def exampleTool_def)

lemma example_selected:
  "is_selected (resolveIsolationProvider exampleTask (probeWindowsProcessRestrictedCapability exampleProbe)) = Inr PROCESS_RESTRICTED"
  by code_simp

theorem isolation_never_downgraded_witness:
  "\<exists>requested. requestedLevel exampleTask = Some requested \<and> requested \<le> PROCESS_RESTRICTED"
  using isolation_never_downgraded [OF example_selected] by blast

definition exampleRun :: "isolationResolution \<times> adapterResult option" where
  "exampleRun = executeRestrictedWorkerTask exampleProbe exampleAdapter exampleTask False exampleCatalog"

lemma example_bridge:
  "map_option bq_environment (bridgeRequestFor exampleAdapter (adapterRequest exampleMembers) exampleTool) = Some [(js ''LANG'', JStr (js ''C''))]"
  by code_simp

lemma example_task_run:
  obtains isolation result bq ev where "exampleRun = (isolation, Some result)" "started result = Some (bq, ev)"
proof -
  let ?probe = "probeWindowsProcessRestrictedCapability exampleProbe"
  obtain bq where bq: "bridgeRequestFor exampleAdapter (adapterRequest exampleMembers) exampleTool = Some bq" using example_bridge by auto
  have p: "ca_result ?probe = AVAILABLE" using example_selected by (simp add: selected_iff)
  have t: "getKey (adapterRequest exampleMembers) ''toolRef'' = Some (JStr (js ''git''))"
    by (simp add: adapterRequest_keys exampleMembers_def)
  have "started (runStarted exampleAdapter (adapterRequest exampleMembers) exampleTool ?probe) \<noteq> None"
    using bq by (simp add: runStarted_def exampleAdapter_def createEvidence_def started_def Let_def)
  then have "started (runWindowsProcessRestricted exampleAdapter (JObj (adapterRequest exampleMembers)) False exampleCatalog ?probe) \<noteq> None"
    using p t by (simp add: runWindowsProcessRestricted_def exampleCatalog_def)
  then show ?thesis
    using that by (auto simp: exampleRun_def executeRestrictedWorkerTask_def example_selected exampleTask_def example_selected [unfolded exampleTask_def] Let_def)
qed


section \<open>Where the checks are weaker than they look\<close>

text \<open>
  The denied interpreters are looked up under the name the catalog spells, not the canonical one: under its short name an
  interpreter passes.
\<close>

lemma short_name_not_denied:
  "toolOk (js ''git'') (exampleTool\<lparr>tt_executablePath := js ''C:/tools/POWERS~1.EXE''\<rparr>) \<and> deniedExecutable (js ''C:/tools/powershell.exe'')"
  by code_simp

text \<open>Identifiers of evidence are tested as text, and lengths of numbers are not defined: neither has to be a string.\<close>

lemma evidence_not_strings:
  "evidenceContextOk ownLength [(js ''evidenceRefs'', JArr [JObj [(js ''subjectId'', JNum (Dec 5 0)), (js ''subjectType'', JStr (js ''Task''))]]),
     (js ''executionId'', JArr [JStr (taskId ''2'')]), (js ''requirementId'', JStr (taskId ''1'')), (js ''taskId'', JStr (taskId ''3''))]"
  by code_simp

end
