(* ===== verification/Repository_Files.thy ===== *)
theory Repository_Files
  imports Canonical_Json Regex "HOL-Library.Sublist"
begin

text \<open>
  \<open>packages/contracts/src/repository.ts\<close>: authority files of the repository. A path must be a plain
  repository-relative one, and neither its lexical resolution nor the file it leads to may lie
  outside the repository; the hash of a text file does not depend on its line endings. Paths are
  POSIX paths; the file system's answers are the record \<open>repositoryView\<close>.
\<close>

section \<open>Errors\<close>

datatype foundationErrorCode =
    DUPLICATE_SCHEMA_IDENTITY | DUPLICATE_SCHEMA_PATH | INVALID_AUTHORITY_PATH | INVALID_JSON
  | MISSING_AUTHORITY_FILE | REPOSITORY_ESCAPE | SCHEMA_COMPILE_FAILED | SCHEMA_HASH_MISMATCH
  | SCHEMA_META_VALIDATION_FAILED | SCHEMA_METADATA_MISMATCH | UNRESOLVED_SCHEMA_REFERENCE
  | VALIDATION_INPUT_INVALID

text \<open>A \<open>ContractFoundationError\<close> by its code, or an exception of the platform that is not caught.\<close>

datatype foundationError = Foundation foundationErrorCode | Uncaught

section \<open>Paths\<close>

text \<open>An absolute path is the list of its segments; text is split at \<open>/\<close>.\<close>

definition isAbsolutePath :: "jstring \<Rightarrow> bool" where
  "isAbsolutePath p = startsWith p (js ''/'')"

definition globCharacters :: jstring where
  "globCharacters = js ''?*[]''"

definition isSafeRepositoryPath :: "jstring \<Rightarrow> bool" where
  "isSafeRepositoryPath p \<longleftrightarrow>
     p \<noteq> [] \<and> \<not> isAbsolutePath p \<and> \<not> includesStr p [92] \<and>
     js ''..'' \<notin> set (splitOn 47 p) \<and> \<not> list_ex (\<lambda>c. c \<in> set globCharacters) p"

text \<open>\<open>path.resolve(root, p)\<close> and \<open>path.relative(root, q)\<close> on POSIX, for an absolute root.\<close>

fun walkSegments :: "jstring list \<Rightarrow> jstring list \<Rightarrow> jstring list" where
  "walkSegments here [] = here"
| "walkSegments here (s # ss) =
     walkSegments (if s = [] \<or> s = js ''.'' then here else if s = js ''..'' then butlast here else here @ [s]) ss"

definition resolvePath :: "jstring list \<Rightarrow> jstring \<Rightarrow> jstring list" where
  "resolvePath root p = walkSegments (if isAbsolutePath p then [] else root) (splitOn 47 p)"

fun relativeSegments :: "jstring list \<Rightarrow> jstring list \<Rightarrow> jstring list" where
  "relativeSegments [] goal = goal"
| "relativeSegments (f # base) [] = replicate (Suc (length base)) (js ''..'')"
| "relativeSegments (f # base) (t # goal) =
     (if f = t then relativeSegments base goal
      else replicate (Suc (length base)) (js ''..'') @ (t # goal))"

definition relativePath :: "jstring list \<Rightarrow> jstring list \<Rightarrow> jstring" where
  "relativePath base goal = joinWith (js ''/'') (relativeSegments base goal)"

section \<open>The repository\<close>

text \<open>
  What the file system answers: the canonical path of an existing file, and a file's contents.
  \<open>fc_text\<close> is the strict UTF-8 decoding, \<open>fc_json\<close> what \<open>JSON.parse\<close> makes of the text, and
  \<open>fc_sha256\<close> the digest of the bytes.
\<close>

record fileContents =
  fc_text :: "jstring option"
  fc_json :: "json option"
  fc_sha256 :: jstring
  fc_size :: int

record repositoryView =
  rv_root :: "jstring list"        \<comment> \<open>\<open>realpath(repositoryRoot)\<close>\<close>
  rv_realpath :: "jstring list \<Rightarrow> jstring list option"
  rv_read :: "jstring list \<Rightarrow> fileContents option"

definition escapes :: "jstring list \<Rightarrow> jstring list \<Rightarrow> bool" where
  "escapes root q = (let r = relativePath root q in startsWith r (js ''..'') \<or> isAbsolutePath r)"

definition resolveAuthorityPath :: "repositoryView \<Rightarrow> jstring \<Rightarrow> foundationError + jstring list" where
  "resolveAuthorityPath v authorityPath =
     (if \<not> isSafeRepositoryPath authorityPath then Inl (Foundation INVALID_AUTHORITY_PATH)
      else
        let candidate = resolvePath (rv_root v) authorityPath in
        if escapes (rv_root v) candidate then Inl (Foundation REPOSITORY_ESCAPE)
        else
          case rv_realpath v candidate of
            None \<Rightarrow> Inl (Foundation MISSING_AUTHORITY_FILE)
          | Some actual \<Rightarrow>
              if escapes (rv_root v) actual then Inl (Foundation REPOSITORY_ESCAPE) else Inr actual)"

definition readJsonAuthority :: "repositoryView \<Rightarrow> jstring \<Rightarrow> foundationError + jobject" where
  "readJsonAuthority v authorityPath =
     bindE (resolveAuthorityPath v authorityPath) (\<lambda>path.
       case rv_read v path of
         None \<Rightarrow> Inl (Foundation INVALID_JSON)
       | Some contents \<Rightarrow>
           (case fc_json contents of
              Some (JObj obj) \<Rightarrow> Inr obj
            | _ \<Rightarrow> Inl (Foundation INVALID_JSON)))"

definition sha256Lines :: "(jstring \<Rightarrow> jstring) \<Rightarrow> jstring \<Rightarrow> foundationError + jstring" where
  "sha256Lines sha contents =
     (let withoutCrLf = replaceCrLf [] contents in
      if includesStr withoutCrLf [13] then Inl (Foundation SCHEMA_HASH_MISMATCH)
      else if includesStr contents [13, 10] \<and> includesStr withoutCrLf [10]
      then Inl (Foundation SCHEMA_HASH_MISMATCH)
      else Inr (sha (replaceCrLf [10] contents)))"

definition sha256AuthorityFile :: "(jstring \<Rightarrow> jstring) \<Rightarrow> repositoryView \<Rightarrow> jstring \<Rightarrow> foundationError + jstring" where
  "sha256AuthorityFile sha v authorityPath =
     bindE (resolveAuthorityPath v authorityPath) (\<lambda>path.
       case rv_read v path of
         None \<Rightarrow> Inl Uncaught
       | Some contents \<Rightarrow>
           (case fc_text contents of
              None \<Rightarrow> Inl (Foundation SCHEMA_HASH_MISMATCH)
            | Some text \<Rightarrow> sha256Lines sha text))"

definition sha256Artifact :: "repositoryView \<Rightarrow> jstring \<Rightarrow> foundationError + (jstring \<times> int)" where
  "sha256Artifact v authorityPath =
     bindE (resolveAuthorityPath v authorityPath) (\<lambda>path.
       case rv_read v path of
         None \<Rightarrow> Inl Uncaught
       | Some contents \<Rightarrow> Inr (fc_sha256 contents, fc_size contents))"

section \<open>Containment\<close>

lemma relativeSegments_prefix:
  "(\<exists>rest. goal = base @ rest \<and> relativeSegments base goal = rest) \<or>
   (\<exists>rest. relativeSegments base goal = js ''..'' # rest)"
  by (induction base goal rule: relativeSegments.induct) auto

lemma escapes_outside: "\<not> escapes root q \<Longrightarrow> prefix root q"
proof -
  assume a: "\<not> escapes root q"
  have "startsWith (relativePath root q) (js ''..'')" if "relativeSegments root q = js ''..'' # rest" for rest
    unfolding relativePath_def that joinWith_def by simp
  with a relativeSegments_prefix [of q root] show ?thesis
    by (auto simp: escapes_def Let_def prefix_def)
qed

lemma resolveAuthorityPath_contained:
  assumes "resolveAuthorityPath v p = Inr q"
  shows "prefix (rv_root v) q" "isSafeRepositoryPath p"
    "prefix (rv_root v) (resolvePath (rv_root v) p)" "rv_realpath v (resolvePath (rv_root v) p) = Some q"
  using assms escapes_outside
  by (auto simp: resolveAuthorityPath_def Let_def split: if_splits option.splits)

section \<open>Line endings\<close>

fun toCrLf :: "jstring \<Rightarrow> jstring" where
  "toCrLf [] = []"
| "toCrLf (c # cs) = (if c = 10 then 13 # 10 # toCrLf cs else c # toCrLf cs)"

lemma replaceCrLf_Cons: "c \<noteq> 13 \<Longrightarrow> replaceCrLf w (c # s) = c # replaceCrLf w s"
  by (cases s) auto

lemma includes_single: "includesStr s [c] \<longleftrightarrow> c \<in> set s"
  by (auto simp: includesStr_iff in_set_conv_decomp)

lemma replaceCrLf_toCrLf: "13 \<notin> set u \<Longrightarrow> replaceCrLf w (toCrLf u) = concat (map (\<lambda>c. if c = 10 then w else [c]) u)"
  by (induction u) (auto simp: replaceCrLf_Cons)

lemma lf_concat: "concat (map (\<lambda>c. if c = 10 then [10] else [c]) u) = (u :: jstring)"
  by (induction u) auto

lemma toCrLf_crlf: "includesStr (toCrLf u) [13, 10] \<longleftrightarrow> 10 \<in> set u" if "13 \<notin> set u"
  using that by (induction u) (auto split: list.splits)

text \<open>Text with no lone CR and no lone LF is the CRLF form of a text.\<close>

lemma crlf_form:
  "13 \<notin> set (replaceCrLf [] s) \<Longrightarrow> 10 \<notin> set (replaceCrLf [] s) \<Longrightarrow>
     \<exists>u. 13 \<notin> set u \<and> s = toCrLf u \<and> replaceCrLf [10] s = u"
proof (induction "[] :: jstring" s rule: replaceCrLf.induct)
  case (1 c d cs)
  show ?case
  proof (cases "c = 13 \<and> d = 10")
    case True
    with 1 obtain u where "13 \<notin> set u" "cs = toCrLf u" "replaceCrLf [10] cs = u" by auto
    with True show ?thesis by (intro exI [of _ "10 # u"]) simp
  next
    case False
    then have step: "replaceCrLf w (c # d # cs) = c # replaceCrLf w (d # cs)" for w by auto
    with 1(3,4) have "c \<noteq> 13" "c \<noteq> 10" "13 \<notin> set (replaceCrLf [] (d # cs))" "10 \<notin> set (replaceCrLf [] (d # cs))"
      by simp_all
    moreover from this 1(2) False obtain u where
      "13 \<notin> set u" "d # cs = toCrLf u" "replaceCrLf [10] (d # cs) = u" by blast
    ultimately show ?thesis by (intro exI [of _ "c # u"]) (simp add: step replaceCrLf_Cons)
  qed
qed (auto intro!: exI)

lemma replaceCrLf_none: "\<not> includesStr s [13, 10] \<Longrightarrow> replaceCrLf w s = s"
  by (induction w s rule: replaceCrLf.induct) auto

lemma sha256Lines_iff:
  "sha256Lines sha t = Inr h \<longleftrightarrow> (\<exists>u. 13 \<notin> set u \<and> (t = u \<or> t = toCrLf u) \<and> h = sha u)"
proof
  assume a: "sha256Lines sha t = Inr h"
  then have cr: "13 \<notin> set (replaceCrLf [] t)" and h: "h = sha (replaceCrLf [10] t)" and
    mixed: "includesStr t [13, 10] \<Longrightarrow> 10 \<notin> set (replaceCrLf [] t)"
    by (auto simp: sha256Lines_def Let_def includes_single split: if_splits)
  show "\<exists>u. 13 \<notin> set u \<and> (t = u \<or> t = toCrLf u) \<and> h = sha u"
  proof (cases "includesStr t [13, 10]")
    case True
    obtain u where "13 \<notin> set u" "t = toCrLf u" "replaceCrLf [10] t = u"
      using crlf_form [OF cr mixed [OF True]] by (elim exE conjE)
    with h show ?thesis by (intro exI [of _ u]) simp
  next
    case False
    then have "replaceCrLf [] t = t" "replaceCrLf [10] t = t" by (simp_all add: replaceCrLf_none)
    with cr h show ?thesis by (intro exI [of _ t]) simp
  qed
next
  assume "\<exists>u. 13 \<notin> set u \<and> (t = u \<or> t = toCrLf u) \<and> h = sha u"
  then obtain u where u: "13 \<notin> set u" "t = u \<or> t = toCrLf u" "h = sha u" by blast
  show "sha256Lines sha t = Inr h"
  proof (cases "t = u")
    case True
    have "includesStr u [13, 10] \<Longrightarrow> 13 \<in> set u" by (auto simp: includesStr_iff)
    with True u show ?thesis
      by (auto simp: sha256Lines_def Let_def includes_single replaceCrLf_no_cr)
  next
    case False
    with u have t: "t = toCrLf u" by simp
    have "set (replaceCrLf [] t) \<subseteq> set u - {10}"
      unfolding t replaceCrLf_toCrLf [OF u(1)] by auto
    with u show ?thesis
      by (auto simp: sha256Lines_def Let_def includes_single t replaceCrLf_toCrLf lf_concat)
  qed
qed

end
