(* ===== verification/Contracts_Registry.thy ===== *)
theory Contracts_Registry
  imports Repository_Files
begin

text \<open>
  \<open>packages/contracts/src/registry.ts\<close> and \<open>compatibility.ts\<close>: the registry of canonical schemas, loaded
  from \<open>schema-registry.json\<close> with every check, resolution and validation by identity and version, and the
  compatibility decisions. Ajv is a parameter: its validators, and what it answers while schemas are added.
  A \<open>ContractFoundationError\<close> is kept by its code; the cache of validators is not observable.
\<close>

section \<open>Schemas\<close>

text \<open>\<open>/:([0-9]+\.[0-9]+\.[0-9]+)$/\<close>: the leftmost colon after which only a version follows.\<close>

definition numericVersion :: rx where
  "numericVersion = seqs [many1 digitCls, lit ''.'', many1 digitCls, lit ''.'', many1 digitCls]"

fun splitVersion :: "jstring \<Rightarrow> (jstring \<times> jstring) option" where
  "splitVersion [] = None"
| "splitVersion (c # cs) =
     (if c = 58 \<and> matches numericVersion cs then Some ([], cs)
      else map_option (\<lambda>(before, version). (c # before, version)) (splitVersion cs))"

definition versionFromSchemaId :: "jstring \<Rightarrow> foundationError + jstring" where
  "versionFromSchemaId schemaId =
     (case splitVersion schemaId of
        None \<Rightarrow> Inl (Foundation SCHEMA_METADATA_MISMATCH)
      | Some (before, version) \<Rightarrow> Inr version)"

definition schemaFamily :: "jstring \<Rightarrow> jstring" where
  "schemaFamily schemaId =
     (case splitVersion schemaId of None \<Rightarrow> schemaId | Some (before, version) \<Rightarrow> before @ js '':'')"

record schemaRegistryEntry =
  se_schemaId :: jstring
  se_schemaVersion :: jstring
  se_authorityPath :: jstring
  se_sha256 :: jstring
  se_category :: jstring
  se_examplesRequired :: bool
  se_schema :: jobject

record contractIdentity =
  ci_schemaId :: jstring
  ci_schemaVersion :: jstring

record contractValidationError =
  ve_keyword :: jstring
  ve_instancePath :: jstring

datatype contractValidationFailureCode =
    INVALID_CONTRACT_IDENTITY | SCHEMA_VALIDATION_FAILED | UNKNOWN_SCHEMA | UNSUPPORTED_SCHEMA_VERSION

record contractValidationFailure =
  vf_code :: contractValidationFailureCode
  vf_errors :: "contractValidationError list"

text \<open>
  A compiled validator of Ajv: \<open>None\<close> when it accepts the value, else its errors. The registry keeps
  what \<open>ajv.getSchema\<close> gives for an identity.
\<close>

type_synonym validateFunction = "json \<Rightarrow> contractValidationError list option"

record contractRegistry =
  cr_entries :: "schemaRegistryEntry list"
  cr_validators :: "jstring \<Rightarrow> validateFunction option"

section \<open>The registry\<close>

definition validationFailure :: "contractValidationFailureCode \<Rightarrow> contractValidationFailure" where
  "validationFailure code = \<lparr>vf_code = code, vf_errors =
     [\<lparr>ve_keyword = (case code of
          INVALID_CONTRACT_IDENTITY \<Rightarrow> js ''INVALID_CONTRACT_IDENTITY''
        | SCHEMA_VALIDATION_FAILED \<Rightarrow> js ''SCHEMA_VALIDATION_FAILED''
        | UNKNOWN_SCHEMA \<Rightarrow> js ''UNKNOWN_SCHEMA''
        | UNSUPPORTED_SCHEMA_VERSION \<Rightarrow> js ''UNSUPPORTED_SCHEMA_VERSION''), ve_instancePath = []\<rparr>]\<rparr>"

text \<open>The map by identity, built in the order of the entries: a later one replaces an earlier one.\<close>

definition entryById :: "schemaRegistryEntry list \<Rightarrow> jstring \<Rightarrow> schemaRegistryEntry option" where
  "entryById entries schemaId = find (\<lambda>e. se_schemaId e = schemaId) (rev entries)"

definition resolveIdentity ::
    "contractRegistry \<Rightarrow> contractIdentity \<Rightarrow> contractValidationFailure + schemaRegistryEntry" where
  "resolveIdentity reg identity =
     (if ci_schemaId identity = [] \<or> ci_schemaVersion identity = []
      then Inl (validationFailure INVALID_CONTRACT_IDENTITY)
      else
        case entryById (cr_entries reg) (ci_schemaId identity) of
          None \<Rightarrow>
            let family = schemaFamily (ci_schemaId identity);
                knownFamily = list_ex (\<lambda>c. schemaFamily (se_schemaId c) = family) (cr_entries reg)
            in Inl (validationFailure (if knownFamily then UNSUPPORTED_SCHEMA_VERSION else UNKNOWN_SCHEMA))
        | Some entry \<Rightarrow>
            if se_schemaVersion entry \<noteq> ci_schemaVersion identity
            then Inl (validationFailure UNSUPPORTED_SCHEMA_VERSION) else Inr entry)"

text \<open>A validation may throw (a schema without a validator), fail, or return the value it was given.\<close>

definition validateIdentity ::
    "contractRegistry \<Rightarrow> contractIdentity \<Rightarrow> json \<Rightarrow> foundationError + (contractValidationFailure + json)" where
  "validateIdentity reg identity j =
     (case resolveIdentity reg identity of
        Inl failure \<Rightarrow> Inr (Inl failure)
      | Inr resolved \<Rightarrow>
          (case cr_validators reg (se_schemaId resolved) of
             None \<Rightarrow> Inl (Foundation SCHEMA_COMPILE_FAILED)
           | Some validator \<Rightarrow>
               (case validator j of
                  Some errors \<Rightarrow> Inr (Inl \<lparr>vf_code = SCHEMA_VALIDATION_FAILED, vf_errors = errors\<rparr>)
                | None \<Rightarrow> Inr (Inr j))))"

section \<open>Loading the registry\<close>

text \<open>
  What the loader asks Ajv, in the order of the calls: whether a schema satisfies its meta-schema,
  whether adding it after the given ones throws, and what \<open>getSchema\<close> gives once all are added (it
  throws when a reference cannot be resolved).
\<close>

record ajvAuthority =
  aj_validateSchema :: "jobject \<Rightarrow> bool"
  aj_addSchema :: "schemaRegistryEntry list \<Rightarrow> schemaRegistryEntry \<Rightarrow> bool"
  aj_getSchema :: "schemaRegistryEntry list \<Rightarrow> jstring \<Rightarrow> unit + validateFunction option"

definition registryPath :: jstring where
  "registryPath = js ''packages/contracts/schema-registry.json''"

definition registrySchemaId :: jstring where
  "registrySchemaId = js ''urn:aseos:schema:schema-registry:1.0.0''"

definition draft202012 :: jstring where
  "draft202012 = js ''https://json-schema.org/draft/2020-12/schema''"

definition requiredStringOf :: "jobject \<Rightarrow> string \<Rightarrow> foundationError + jstring" where
  "requiredStringOf obj k =
     (case getKey obj k of
        Some (JStr s) \<Rightarrow> if s = [] then Inl (Foundation VALIDATION_INPUT_INVALID) else Inr s
      | _ \<Rightarrow> Inl (Foundation VALIDATION_INPUT_INVALID))"

definition loadEntry ::
    "(jstring \<Rightarrow> jstring) \<Rightarrow> repositoryView \<Rightarrow> jstring list \<Rightarrow> jstring list \<Rightarrow> json
       \<Rightarrow> foundationError + schemaRegistryEntry" where
  "loadEntry sha v schemaIds paths j =
     (case j of
        JObj obj \<Rightarrow>
          bindE (requiredStringOf obj ''schemaId'') (\<lambda>schemaId.
          bindE (requiredStringOf obj ''authorityPath'') (\<lambda>authorityPath.
          bindE (requiredStringOf obj ''sha256'') (\<lambda>expectedHash.
          bindE (guardE (schemaId \<notin> set schemaIds) (Foundation DUPLICATE_SCHEMA_IDENTITY)) (\<lambda>_.
          bindE (guardE (authorityPath \<notin> set paths) (Foundation DUPLICATE_SCHEMA_PATH)) (\<lambda>_.
          bindE (sha256AuthorityFile sha v authorityPath) (\<lambda>actualHash.
          bindE (guardE (actualHash = expectedHash) (Foundation SCHEMA_HASH_MISMATCH)) (\<lambda>_.
          bindE (readJsonAuthority v authorityPath) (\<lambda>schema.
          bindE (requiredStringOf schema ''$id'') (\<lambda>actualId.
          bindE (guardE (actualId = schemaId \<and> getKey schema ''$schema'' = Some (JStr draft202012))
                   (Foundation SCHEMA_METADATA_MISMATCH)) (\<lambda>_.
          bindE (versionFromSchemaId schemaId) (\<lambda>schemaVersion.
          bindE (guardE (case getKey schema ''x-schemaVersion'' of
                           None \<Rightarrow> True | Some x \<Rightarrow> x = JStr schemaVersion)
                   (Foundation SCHEMA_METADATA_MISMATCH)) (\<lambda>_.
          bindE (requiredStringOf obj ''category'') (\<lambda>category.
            Inr \<lparr>se_schemaId = schemaId, se_schemaVersion = schemaVersion,
              se_authorityPath = authorityPath, se_sha256 = expectedHash, se_category = category,
              se_examplesRequired = (getKey obj ''examplesRequired'' = Some (JBool True)),
              se_schema = schema\<rparr>)))))))))))))
      | _ \<Rightarrow> Inl (Foundation VALIDATION_INPUT_INVALID))"

fun loadEntries ::
    "(jstring \<Rightarrow> jstring) \<Rightarrow> repositoryView \<Rightarrow> jstring list \<Rightarrow> jstring list \<Rightarrow> json list
       \<Rightarrow> foundationError + schemaRegistryEntry list" where
  "loadEntries sha v schemaIds paths [] = Inr []"
| "loadEntries sha v schemaIds paths (j # rest) =
     bindE (loadEntry sha v schemaIds paths j) (\<lambda>entry.
     bindE (loadEntries sha v (se_schemaId entry # schemaIds) (se_authorityPath entry # paths) rest)
       (\<lambda>entries. Inr (entry # entries)))"

fun registerSchemas ::
    "ajvAuthority \<Rightarrow> schemaRegistryEntry list \<Rightarrow> schemaRegistryEntry list \<Rightarrow> foundationError + unit" where
  "registerSchemas ajv added [] = Inr ()"
| "registerSchemas ajv added (entry # entries) =
     (if \<not> aj_validateSchema ajv (se_schema entry) then Inl (Foundation SCHEMA_META_VALIDATION_FAILED)
      else if \<not> aj_addSchema ajv added entry then Inl (Foundation SCHEMA_COMPILE_FAILED)
      else registerSchemas ajv (added @ [entry]) entries)"

definition requireValidator ::
    "ajvAuthority \<Rightarrow> schemaRegistryEntry list \<Rightarrow> jstring \<Rightarrow> foundationError + validateFunction option" where
  "requireValidator ajv entries schemaId =
     (case aj_getSchema ajv entries schemaId of Inl _ \<Rightarrow> Inl Uncaught | Inr f \<Rightarrow> Inr f)"

fun compileSchemas ::
    "ajvAuthority \<Rightarrow> schemaRegistryEntry list \<Rightarrow> schemaRegistryEntry list \<Rightarrow> foundationError + unit" where
  "compileSchemas ajv entries [] = Inr ()"
| "compileSchemas ajv entries (entry # rest) =
     (case requireValidator ajv entries (se_schemaId entry) of
        Inr (Some f) \<Rightarrow> compileSchemas ajv entries rest
      | _ \<Rightarrow> Inl (Foundation UNRESOLVED_SCHEMA_REFERENCE))"

definition registryOf :: "ajvAuthority \<Rightarrow> schemaRegistryEntry list \<Rightarrow> contractRegistry" where
  "registryOf ajv entries = \<lparr>cr_entries = entries,
     cr_validators = (\<lambda>schemaId. case aj_getSchema ajv entries schemaId of Inl _ \<Rightarrow> None | Inr f \<Rightarrow> f)\<rparr>"

definition loadSchemas ::
    "(jstring \<Rightarrow> jstring) \<Rightarrow> repositoryView \<Rightarrow> ajvAuthority \<Rightarrow> jobject \<Rightarrow> json list
       \<Rightarrow> foundationError + contractRegistry" where
  "loadSchemas sha v ajv registry schemas =
     bindE (loadEntries sha v [] [] schemas) (\<lambda>entries.
     bindE (registerSchemas ajv [] entries) (\<lambda>_.
     bindE (compileSchemas ajv entries entries) (\<lambda>_.
     bindE (requireValidator ajv entries registrySchemaId) (\<lambda>validator.
     bindE (guardE (case validator of None \<Rightarrow> False | Some f \<Rightarrow> f (JObj registry) = None)
       (Foundation SCHEMA_META_VALIDATION_FAILED)) (\<lambda>_. Inr (registryOf ajv entries))))))"

definition loadContractRegistry ::
    "(jstring \<Rightarrow> jstring) \<Rightarrow> repositoryView \<Rightarrow> ajvAuthority \<Rightarrow> foundationError + contractRegistry" where
  "loadContractRegistry sha v ajv =
     bindE (readJsonAuthority v registryPath) (\<lambda>registry.
     case getKey registry ''schemas'' of
       Some (JArr schemas) \<Rightarrow> loadSchemas sha v ajv registry schemas
     | _ \<Rightarrow> Inl (Foundation VALIDATION_INPUT_INVALID))"

section \<open>Compatibility\<close>

datatype compatibilityCode =
    SAME_SUPPORTED_VERSION | COMPAT_UNKNOWN_SCHEMA | COMPAT_UNSUPPORTED_SCHEMA_VERSION
  | SCHEMA_IDENTITY_VERSION_MISMATCH

record compatibilityDecision =
  cd_compatible :: bool
  cd_code :: compatibilityCode
  cd_requested :: contractIdentity
  cd_resolved :: "schemaRegistryEntry option"

definition evaluateCompatibility :: "contractRegistry \<Rightarrow> contractIdentity \<Rightarrow> compatibilityDecision" where
  "evaluateCompatibility reg identity =
     (case resolveIdentity reg identity of
        Inr resolved \<Rightarrow> \<lparr>cd_compatible = True, cd_code = SAME_SUPPORTED_VERSION,
          cd_requested = identity, cd_resolved = Some resolved\<rparr>
      | Inl failure \<Rightarrow>
          let mismatch = list_ex (\<lambda>e. se_schemaId e = ci_schemaId identity \<and>
                se_schemaVersion e \<noteq> ci_schemaVersion identity) (cr_entries reg)
          in \<lparr>cd_compatible = False,
               cd_code = (if vf_code failure = UNKNOWN_SCHEMA then COMPAT_UNKNOWN_SCHEMA
                 else if mismatch then SCHEMA_IDENTITY_VERSION_MISMATCH
                 else COMPAT_UNSUPPORTED_SCHEMA_VERSION),
               cd_requested = identity, cd_resolved = None\<rparr>)"

definition futureSchemaId :: "jstring \<Rightarrow> jstring" where
  "futureSchemaId schemaId =
     (case splitVersion schemaId of
        None \<Rightarrow> schemaId | Some (before, version) \<Rightarrow> before @ js '':99.0.0'')"

text \<open>The result counts the probes: (probes, compatible, fail-closed).\<close>

definition qualifyCompatibility :: "contractRegistry \<Rightarrow> foundationError + (nat \<times> nat \<times> nat)" where
  "qualifyCompatibility reg =
     (case find se_examplesRequired (cr_entries reg) of
        None \<Rightarrow> Inl (Foundation SCHEMA_METADATA_MISMATCH)
      | Some entry \<Rightarrow>
          let same = evaluateCompatibility reg
                \<lparr>ci_schemaId = se_schemaId entry, ci_schemaVersion = se_schemaVersion entry\<rparr>;
              unknown = evaluateCompatibility reg
                \<lparr>ci_schemaId = js ''urn:aseos:schema:not-registered:1.0.0'', ci_schemaVersion = js ''1.0.0''\<rparr>;
              future = evaluateCompatibility reg
                \<lparr>ci_schemaId = futureSchemaId (se_schemaId entry), ci_schemaVersion = js ''99.0.0''\<rparr>;
              mismatch = evaluateCompatibility reg
                \<lparr>ci_schemaId = se_schemaId entry, ci_schemaVersion = js ''99.0.0''\<rparr>
          in if \<not> cd_compatible same \<or> cd_compatible unknown \<or> cd_compatible future \<or>
                cd_compatible mismatch \<or> cd_code mismatch \<noteq> SCHEMA_IDENTITY_VERSION_MISMATCH
             then Inl (Foundation SCHEMA_METADATA_MISMATCH)
             else Inr (4, 1, 3))"

section \<open>What a loaded registry guarantees\<close>

text \<open>An entry as the loader accepts it: its identity carries its version, and its file has the declared
  hash, identity and dialect.\<close>

definition entryOk :: "(jstring \<Rightarrow> jstring) \<Rightarrow> repositoryView \<Rightarrow> schemaRegistryEntry \<Rightarrow> bool" where
  "entryOk sha v e \<longleftrightarrow>
     se_schemaId e \<noteq> [] \<and> se_schemaVersion e \<noteq> [] \<and>
     versionFromSchemaId (se_schemaId e) = Inr (se_schemaVersion e) \<and>
     sha256AuthorityFile sha v (se_authorityPath e) = Inr (se_sha256 e) \<and>
     readJsonAuthority v (se_authorityPath e) = Inr (se_schema e) \<and>
     getKey (se_schema e) ''$id'' = Some (JStr (se_schemaId e)) \<and>
     getKey (se_schema e) ''$schema'' = Some (JStr draft202012)"

lemma requiredStringOf_Inr:
  "requiredStringOf obj k = Inr s \<longleftrightarrow> getKey obj k = Some (JStr s) \<and> s \<noteq> []"
  by (auto simp: requiredStringOf_def split: option.splits json.splits if_splits)

lemma splitVersion_Some: "splitVersion s = Some (b, version) \<Longrightarrow> s = b @ 58 # version \<and> matches numericVersion version"
  by (induction s arbitrary: b) (auto split: if_splits)

lemma numericVersion_nonempty: "matches numericVersion s \<Longrightarrow> s \<noteq> []"
proof -
  have "\<not> matches numericVersion []" by code_simp
  then show "matches numericVersion s \<Longrightarrow> s \<noteq> []" by (cases s) simp_all
qed

lemma versionFromSchemaId_Inr:
  "versionFromSchemaId s = Inr version \<Longrightarrow> \<exists>b. s = b @ 58 # version \<and> matches numericVersion version"
  unfolding versionFromSchemaId_def by (auto dest: splitVersion_Some split: option.splits)

lemma loadEntry_ok:
  assumes "loadEntry sha v ids paths j = Inr e"
  shows "entryOk sha v e" "se_schemaId e \<notin> set ids" "se_authorityPath e \<notin> set paths"
  using assms versionFromSchemaId_Inr numericVersion_nonempty
  by (auto simp: loadEntry_def entryOk_def requiredStringOf_Inr split: json.splits)

lemma loadEntries_ok:
  "loadEntries sha v ids paths items = Inr entries \<Longrightarrow>
     (\<forall>e \<in> set entries. entryOk sha v e) \<and>
     distinct (map se_schemaId entries) \<and> set (map se_schemaId entries) \<inter> set ids = {} \<and>
     distinct (map se_authorityPath entries) \<and> set (map se_authorityPath entries) \<inter> set paths = {}"
proof (induction items arbitrary: ids paths entries)
  case (Cons j rest)
  then obtain e es where e: "loadEntry sha v ids paths j = Inr e" and
    es: "loadEntries sha v (se_schemaId e # ids) (se_authorityPath e # paths) rest = Inr es" and
    "entries = e # es" by auto
  with Cons.IH [OF es] loadEntry_ok [OF e] show ?case by auto
qed simp

lemma registerSchemas_ok:
  "registerSchemas ajv added entries = Inr u \<Longrightarrow> e \<in> set entries \<Longrightarrow> aj_validateSchema ajv (se_schema e)"
  by (induction ajv added entries rule: registerSchemas.induct) (auto split: if_splits)

lemma compileSchemas_ok:
  "compileSchemas ajv all entries = Inr u \<Longrightarrow> e \<in> set entries \<Longrightarrow>
     \<exists>f. aj_getSchema ajv all (se_schemaId e) = Inr (Some f)"
  by (induction ajv all entries rule: compileSchemas.induct)
    (auto simp: requireValidator_def split: sum.splits option.splits)

lemma loadContractRegistry_entries:
  assumes "loadContractRegistry sha v ajv = Inr reg"
  shows "\<forall>e \<in> set (cr_entries reg). entryOk sha v e \<and> aj_validateSchema ajv (se_schema e) \<and>
      cr_validators reg (se_schemaId e) \<noteq> None"
    "distinct (map se_schemaId (cr_entries reg))" "distinct (map se_authorityPath (cr_entries reg))"
proof -
  obtain registry where "(case getKey registry ''schemas'' of
       Some (JArr schemas) \<Rightarrow> loadSchemas sha v ajv registry schemas
     | _ \<Rightarrow> Inl (Foundation VALIDATION_INPUT_INVALID)) = Inr reg"
    using assms unfolding loadContractRegistry_def bindE_Inr_iff by blast
  then obtain items where "loadSchemas sha v ajv registry items = Inr reg"
    by (simp split: option.splits json.splits)
  then have "\<exists>entries. loadEntries sha v [] [] items = Inr entries \<and> registerSchemas ajv [] entries = Inr () \<and>
      compileSchemas ajv entries entries = Inr () \<and> reg = registryOf ajv entries"
    unfolding loadSchemas_def bindE_Inr_iff by (elim exE conjE, intro exI conjI) (assumption | simp)+
  then obtain entries where l: "loadEntries sha v [] [] items = Inr entries" and
    r: "registerSchemas ajv [] entries = Inr ()" and c: "compileSchemas ajv entries entries = Inr ()" and
    reg: "reg = registryOf ajv entries" by blast
  note ok = loadEntries_ok [OF l]
  show "distinct (map se_schemaId (cr_entries reg))" "distinct (map se_authorityPath (cr_entries reg))"
    using ok by (simp_all add: reg registryOf_def)
  show "\<forall>e \<in> set (cr_entries reg). entryOk sha v e \<and> aj_validateSchema ajv (se_schema e) \<and>
      cr_validators reg (se_schemaId e) \<noteq> None"
    using ok registerSchemas_ok [OF r] compileSchemas_ok [OF c]
    by (fastforce simp: reg registryOf_def)
qed

text \<open>In a registry without duplicates the map by identity is the entry with that identity.\<close>

lemma entryById_Some: "entryById es i = Some e \<Longrightarrow> e \<in> set es \<and> se_schemaId e = i"
proof -
  have "find P xs = Some x \<Longrightarrow> x \<in> set xs \<and> P x" for P xs and x :: schemaRegistryEntry
    by (induction xs) (auto split: if_splits)
  from this [of "\<lambda>e. se_schemaId e = i" "rev es" e] show "entryById es i = Some e \<Longrightarrow> e \<in> set es \<and> se_schemaId e = i"
    by (simp add: entryById_def)
qed

lemma entryById_None: "entryById es i = None \<longleftrightarrow> i \<notin> se_schemaId ` set es"
  by (auto simp: entryById_def find_None_iff)

lemma entryById_unique:
  assumes "distinct (map se_schemaId es)" "e \<in> set es"
  shows "entryById es (se_schemaId e) = Some e"
proof (cases "entryById es (se_schemaId e)")
  case None
  with assms(2) show ?thesis by (auto simp: entryById_None)
next
  case (Some d)
  with entryById_Some [OF Some] assms show ?thesis by (auto simp: distinct_map dest: inj_onD)
qed

lemma resolveIdentity_Inr:
  assumes "distinct (map se_schemaId (cr_entries reg))"
    "\<forall>e \<in> set (cr_entries reg). se_schemaId e \<noteq> [] \<and> se_schemaVersion e \<noteq> []"
  shows "resolveIdentity reg i = Inr e \<longleftrightarrow>
    e \<in> set (cr_entries reg) \<and> se_schemaId e = ci_schemaId i \<and> se_schemaVersion e = ci_schemaVersion i"
proof
  assume "resolveIdentity reg i = Inr e"
  then show "e \<in> set (cr_entries reg) \<and> se_schemaId e = ci_schemaId i \<and> se_schemaVersion e = ci_schemaVersion i"
    using entryById_Some [of "cr_entries reg" "ci_schemaId i" e]
    by (auto simp: resolveIdentity_def Let_def split: if_splits option.splits)
next
  assume "e \<in> set (cr_entries reg) \<and> se_schemaId e = ci_schemaId i \<and> se_schemaVersion e = ci_schemaVersion i"
  then show "resolveIdentity reg i = Inr e"
    using entryById_unique [OF assms(1), of e] assms(2) by (auto simp: resolveIdentity_def)
qed

text \<open>C17. A registry that loads is one whose every entry was checked: identities and paths are unique, each
  schema file lies inside the repository, has the declared hash, identity and dialect, satisfies the
  meta-schema and has a validator; and then resolving an identity returns exactly the entry registered
  with that identity and version, and a validation never throws but answers what the schema's own
  validator says of the value.\<close>

theorem loaded_registry_sound:
  assumes "loadContractRegistry sha v ajv = Inr reg"
  shows "distinct (map se_schemaId (cr_entries reg)) \<and> distinct (map se_authorityPath (cr_entries reg)) \<and>
    (\<forall>e \<in> set (cr_entries reg). sha256AuthorityFile sha v (se_authorityPath e) = Inr (se_sha256 e) \<and>
      (\<exists>q. resolveAuthorityPath v (se_authorityPath e) = Inr q \<and> prefix (rv_root v) q) \<and>
      getKey (se_schema e) ''$id'' = Some (JStr (se_schemaId e)) \<and>
      getKey (se_schema e) ''$schema'' = Some (JStr draft202012) \<and> aj_validateSchema ajv (se_schema e)) \<and>
    (\<forall>i e. resolveIdentity reg i = Inr e \<longleftrightarrow> e \<in> set (cr_entries reg) \<and>
      se_schemaId e = ci_schemaId i \<and> se_schemaVersion e = ci_schemaVersion i) \<and>
    (\<forall>i j. \<exists>r. validateIdentity reg i j = Inr r) \<and>
    (\<forall>i j j'. validateIdentity reg i j = Inr (Inr j') \<longleftrightarrow> j' = j \<and>
      (\<exists>e f. resolveIdentity reg i = Inr e \<and> cr_validators reg (se_schemaId e) = Some f \<and> f j = None))"
proof -
  note l = loadContractRegistry_entries [OF assms]
  have path: "\<exists>q. resolveAuthorityPath v (se_authorityPath e) = Inr q \<and> prefix (rv_root v) q"
    if "e \<in> set (cr_entries reg)" for e
  proof -
    have "readJsonAuthority v (se_authorityPath e) = Inr (se_schema e)"
      using l(1) that by (simp add: entryOk_def)
    then show ?thesis using resolveAuthorityPath_contained(1) by (auto simp: readJsonAuthority_def)
  qed
  have res: "resolveIdentity reg i = Inr e \<longleftrightarrow> e \<in> set (cr_entries reg) \<and>
      se_schemaId e = ci_schemaId i \<and> se_schemaVersion e = ci_schemaVersion i" for i e
    by (rule resolveIdentity_Inr [OF l(2)]) (use l(1) in \<open>simp add: entryOk_def\<close>)
  have val: "\<exists>f. cr_validators reg (se_schemaId e) = Some f" if "resolveIdentity reg i = Inr e" for i e
    using that l(1) unfolding res by auto
  have "\<exists>r. validateIdentity reg i j = Inr r" for i j
    using val by (fastforce simp: validateIdentity_def split: sum.splits option.splits)
  moreover have "validateIdentity reg i j = Inr (Inr j') \<longleftrightarrow> j' = j \<and>
      (\<exists>e f. resolveIdentity reg i = Inr e \<and> cr_validators reg (se_schemaId e) = Some f \<and> f j = None)" for i j j'
    by (auto simp: validateIdentity_def split: sum.splits option.splits)
  ultimately show ?thesis using l path res by (auto simp: entryOk_def)
qed

lemma evaluateCompatibility_iff:
  assumes "distinct (map se_schemaId (cr_entries reg))"
    "\<forall>e \<in> set (cr_entries reg). se_schemaId e \<noteq> [] \<and> se_schemaVersion e \<noteq> []"
  shows "cd_compatible (evaluateCompatibility reg i) \<longleftrightarrow> (\<exists>e \<in> set (cr_entries reg).
    se_schemaId e = ci_schemaId i \<and> se_schemaVersion e = ci_schemaVersion i)"
proof -
  have "cd_compatible (evaluateCompatibility reg i) \<longleftrightarrow> (\<exists>e. resolveIdentity reg i = Inr e)"
    by (auto simp: evaluateCompatibility_def Let_def split: sum.splits)
  then show ?thesis unfolding resolveIdentity_Inr [OF assms] by blast
qed

section \<open>An example\<close>

definition exSchemaPath :: jstring where
  "exSchemaPath = js ''s.json''"

definition exSchema :: jobject where
  "exSchema = [(js ''$id'', JStr registrySchemaId), (js ''$schema'', JStr draft202012)]"

definition exRegistryFile :: jobject where
  "exRegistryFile = [(js ''schemas'', JArr [JObj [(js ''schemaId'', JStr registrySchemaId),
     (js ''authorityPath'', JStr exSchemaPath), (js ''sha256'', JStr (js ''h'')),
     (js ''category'', JStr (js ''c''))]])]"

definition exRepository :: repositoryView where
  "exRepository = \<lparr>rv_root = [js ''repo''], rv_realpath = Some,
     rv_read = (\<lambda>p. if p = [js ''repo'', exSchemaPath]
       then Some \<lparr>fc_text = Some (js ''text''), fc_json = Some (JObj exSchema), fc_sha256 = [], fc_size = 4\<rparr>
       else Some \<lparr>fc_text = Some (js ''text''), fc_json = Some (JObj exRegistryFile), fc_sha256 = [], fc_size = 4\<rparr>)\<rparr>"

definition exAjv :: ajvAuthority where
  "exAjv = \<lparr>aj_validateSchema = (\<lambda>_. True), aj_addSchema = (\<lambda>_ _. True),
     aj_getSchema = (\<lambda>_ _. Inr (Some (\<lambda>_. None)))\<rparr>"

lemma ex_loads: "isOk (loadContractRegistry (\<lambda>_. js ''h'') exRepository exAjv)"
  by code_simp

theorem loaded_registry_sound_witness:
  "\<exists>reg. loadContractRegistry (\<lambda>_. js ''h'') exRepository exAjv = Inr reg \<and> distinct (map se_schemaId (cr_entries reg))"
  using ex_loads loaded_registry_sound unfolding isOk_iff by blast

end
