(* ===== verification/Envelopes.thy ===== *)
theory Envelopes
  imports Canonical_Json
begin

text \<open>
  The envelopes that the kernel, the journal and the workflow service exchange
  (\<open>packages/contracts/src/types.generated.ts\<close>): records of their fields, the object each one is,
  and the reading of such an object at its type (TypeScript's \<open>as\<close>, which checks nothing; a field
  of another type reads as an empty value here). An object read back from canonical text is the
  same envelope.
\<close>

section \<open>Fields of an object\<close>

definition strAt :: "json \<Rightarrow> string \<Rightarrow> jstring" where
  "strAt j k = (case j of JObj obj \<Rightarrow> (case getKey obj k of Some (JStr s) \<Rightarrow> s | _ \<Rightarrow> []) | _ \<Rightarrow> [])"

definition intAt :: "json \<Rightarrow> string \<Rightarrow> int" where
  "intAt j k =
     (case j of JObj obj \<Rightarrow> (case getKey obj k of Some (JNum n) \<Rightarrow> num_to_int n | _ \<Rightarrow> 0) | _ \<Rightarrow> 0)"

definition at :: "json \<Rightarrow> string \<Rightarrow> json" where
  "at j k = (case j of JObj obj \<Rightarrow> (case getKey obj k of Some v \<Rightarrow> v | None \<Rightarrow> JNull) | _ \<Rightarrow> JNull)"

definition optStrAt :: "json \<Rightarrow> string \<Rightarrow> jstring option" where
  "optStrAt j k =
     (case j of JObj obj \<Rightarrow> (case getKey obj k of Some (JStr s) \<Rightarrow> Some s | _ \<Rightarrow> None) | _ \<Rightarrow> None)"

definition strsAt :: "json \<Rightarrow> string \<Rightarrow> jstring list" where
  "strsAt j k =
     (case at j k of JArr xs \<Rightarrow> map (\<lambda>x. case x of JStr s \<Rightarrow> s | _ \<Rightarrow> []) xs | _ \<Rightarrow> [])"

definition strArray :: "jstring list \<Rightarrow> json" where
  "strArray xs = JArr (map JStr xs)"

section \<open>Envelopes\<close>

record schemaRef =
  sr_schemaId :: jstring
  sr_schemaVersion :: jstring
  sr_schemaHash :: jstring

record domainEventEnvelope =
  ev_eventId :: jstring
  ev_eventType :: jstring
  ev_aggregateType :: jstring
  ev_aggregateId :: jstring
  ev_aggregateVersion :: int
  ev_occurredAt :: jstring
  ev_actor :: json
  ev_causationId :: jstring
  ev_correlationId :: jstring
  ev_payloadSchema :: schemaRef
  ev_payloadHash :: jstring
  ev_payload :: json

record commandEnvelope =
  cm_commandId :: jstring
  cm_commandType :: jstring
  cm_aggregateType :: jstring
  cm_aggregateId :: jstring
  cm_expectedVersion :: jsnum
  cm_idempotencyKey :: jstring
  cm_actor :: json
  cm_correlationId :: jstring
  cm_payloadSchema :: json
  cm_payloadHash :: jstring
  cm_payload :: json
  cm_object :: json          \<comment> \<open>the whole admitted command\<close>

record sideEffectTask =
  tk_taskId :: jstring
  tk_idempotencyKey :: jstring
  tk_effectScope :: jstring
  tk_payload :: json
  tk_payloadHash :: jstring
  tk_attempt :: int
  tk_object :: json          \<comment> \<open>the whole task envelope\<close>

record auditFact =
  au_auditId :: jstring
  au_action :: jstring
  au_occurredAt :: jstring
  au_payloadHash :: jstring

record commandIdentity =
  id_commandId :: jstring
  id_idempotencyKey :: jstring
  id_effectScope :: jstring
  id_payloadHash :: jstring

record journalAppendBatch =
  ba_identity :: commandIdentity
  ba_transactionId :: jstring
  ba_capturedAt :: jstring
  ba_aggregateType :: jstring
  ba_aggregateId :: jstring
  ba_expectedVersion :: int
  ba_events :: "domainEventEnvelope list"
  ba_outbox :: "sideEffectTask list"
  ba_audit :: "auditFact list"

record commitReceipt =
  rc_transactionId :: jstring
  rc_commandId :: jstring
  rc_aggregateType :: jstring
  rc_aggregateId :: jstring
  rc_committedVersion :: int
  rc_eventIds :: "jstring list"
  rc_outboxTaskIds :: "jstring list"
  rc_auditIds :: "jstring list"
  rc_committedAt :: jstring
  rc_receiptHash :: jstring

section \<open>Their objects\<close>

definition schemaRefJson :: "schemaRef \<Rightarrow> json" where
  "schemaRefJson r = JObj [(js ''schemaId'', JStr (sr_schemaId r)),
     (js ''schemaVersion'', JStr (sr_schemaVersion r)), (js ''schemaHash'', JStr (sr_schemaHash r))]"

definition eventJson :: "domainEventEnvelope \<Rightarrow> json" where
  "eventJson e = JObj [
     (js ''schemaVersion'', JStr (js ''1.0.0'')),
     (js ''eventId'', JStr (ev_eventId e)),
     (js ''eventType'', JStr (ev_eventType e)),
     (js ''aggregateType'', JStr (ev_aggregateType e)),
     (js ''aggregateId'', JStr (ev_aggregateId e)),
     (js ''aggregateVersion'', JNum (numInt (ev_aggregateVersion e))),
     (js ''occurredAt'', JStr (ev_occurredAt e)),
     (js ''actor'', ev_actor e),
     (js ''causationId'', JStr (ev_causationId e)),
     (js ''correlationId'', JStr (ev_correlationId e)),
     (js ''payloadSchema'', schemaRefJson (ev_payloadSchema e)),
     (js ''payloadHash'', JStr (ev_payloadHash e)),
     (js ''payload'', ev_payload e)]"

definition schemaRefOf :: "json \<Rightarrow> schemaRef" where
  "schemaRefOf j = \<lparr>sr_schemaId = strAt j ''schemaId'', sr_schemaVersion = strAt j ''schemaVersion'',
     sr_schemaHash = strAt j ''schemaHash''\<rparr>"

definition eventOf :: "json \<Rightarrow> domainEventEnvelope" where
  "eventOf j = \<lparr>ev_eventId = strAt j ''eventId'', ev_eventType = strAt j ''eventType'',
     ev_aggregateType = strAt j ''aggregateType'', ev_aggregateId = strAt j ''aggregateId'',
     ev_aggregateVersion = intAt j ''aggregateVersion'', ev_occurredAt = strAt j ''occurredAt'',
     ev_actor = at j ''actor'', ev_causationId = strAt j ''causationId'',
     ev_correlationId = strAt j ''correlationId'',
     ev_payloadSchema = schemaRefOf (at j ''payloadSchema''),
     ev_payloadHash = strAt j ''payloadHash'', ev_payload = at j ''payload''\<rparr>"

definition commandOf :: "json \<Rightarrow> commandEnvelope" where
  "commandOf j = \<lparr>cm_commandId = strAt j ''commandId'', cm_commandType = strAt j ''commandType'',
     cm_aggregateType = strAt j ''aggregateType'', cm_aggregateId = strAt j ''aggregateId'',
     cm_expectedVersion = (case at j ''expectedVersion'' of JNum n \<Rightarrow> n | _ \<Rightarrow> numInt 0),
     cm_idempotencyKey = strAt j ''idempotencyKey'', cm_actor = at j ''actor'',
     cm_correlationId = strAt j ''correlationId'', cm_payloadSchema = at j ''payloadSchema'',
     cm_payloadHash = strAt j ''payloadHash'', cm_payload = at j ''payload'', cm_object = j\<rparr>"

text \<open>The receipt without and with its hash.\<close>

definition receiptBaseObj :: "commitReceipt \<Rightarrow> jobject" where
  "receiptBaseObj r = [
     (js ''schemaVersion'', JStr (js ''1.0.0'')),
     (js ''transactionId'', JStr (rc_transactionId r)),
     (js ''commandId'', JStr (rc_commandId r)),
     (js ''aggregateType'', JStr (rc_aggregateType r)),
     (js ''aggregateId'', JStr (rc_aggregateId r)),
     (js ''committedVersion'', JNum (numInt (rc_committedVersion r))),
     (js ''eventIds'', strArray (rc_eventIds r)),
     (js ''outboxTaskIds'', strArray (rc_outboxTaskIds r)),
     (js ''auditIds'', strArray (rc_auditIds r)),
     (js ''committedAt'', JStr (rc_committedAt r))]"

definition receiptJson :: "commitReceipt \<Rightarrow> json" where
  "receiptJson r = JObj (receiptBaseObj r @ [(js ''receiptHash'', JStr (rc_receiptHash r))])"

definition receiptOf :: "json \<Rightarrow> commitReceipt" where
  "receiptOf j = \<lparr>rc_transactionId = strAt j ''transactionId'', rc_commandId = strAt j ''commandId'',
     rc_aggregateType = strAt j ''aggregateType'', rc_aggregateId = strAt j ''aggregateId'',
     rc_committedVersion = intAt j ''committedVersion'', rc_eventIds = strsAt j ''eventIds'',
     rc_outboxTaskIds = strsAt j ''outboxTaskIds'', rc_auditIds = strsAt j ''auditIds'',
     rc_committedAt = strAt j ''committedAt'', rc_receiptHash = strAt j ''receiptHash''\<rparr>"

definition receiptHashOf :: "(jstring \<Rightarrow> jstring) \<Rightarrow> commitReceipt \<Rightarrow> jstring" where
  "receiptHashOf sha r = sha (canon (JObj (receiptBaseObj r)))"

section \<open>Reading back\<close>

lemma norm_object:
  assumes "distinct (map fst kvs)"
  shows "\<exists>kvs'. norm (JObj kvs) = JObj kvs' \<and> (\<forall>k. map_of kvs' k = map_option norm (map_of kvs k))"
proof -
  let ?kvs' = "map (\<lambda>(k, v). (k, norm v)) (sort_key fst kvs)"
  have "map_of ?kvs' k = map_option norm (map_of kvs k)" for k
    using assms by (simp add: map_of_map map_of_sort_key)
  then show ?thesis using norm_JObj [of kvs] by blast
qed

lemma norm_object_fields:
  assumes "distinct (map fst kvs)"
  shows "strAt (norm (JObj kvs)) k = strAt (JObj kvs) k"
    "intAt (norm (JObj kvs)) k = intAt (JObj kvs) k"
    "at (norm (JObj kvs)) k = norm (at (JObj kvs) k)"
    "strsAt (norm (JObj kvs)) k = strsAt (JObj kvs) k"
proof -
  obtain kvs' where k: "norm (JObj kvs) = JObj kvs'" "\<And>k. map_of kvs' k = map_option norm (map_of kvs k)"
    using norm_object [OF assms] by blast
  show "strAt (norm (JObj kvs)) k = strAt (JObj kvs) k" "intAt (norm (JObj kvs)) k = intAt (JObj kvs) k"
    unfolding k(1) by (auto simp: strAt_def intAt_def k(2) split: option.splits json.splits)
  show a: "at (norm (JObj kvs)) k = norm (at (JObj kvs) k)"
    unfolding k(1) by (auto simp: at_def k(2) split: option.splits)
  have "strs = strs'" if "norm (JArr xs) = JArr ys" "strs = map (\<lambda>x. case x of JStr s \<Rightarrow> s | _ \<Rightarrow> []) xs"
      "strs' = map (\<lambda>x. case x of JStr s \<Rightarrow> s | _ \<Rightarrow> []) ys" for strs strs' xs ys
    using that by (auto split: json.splits)
  then show "strsAt (norm (JObj kvs)) k = strsAt (JObj kvs) k"
    unfolding strsAt_def a by (auto split: json.splits)
qed

lemma schemaRefOf_json: "schemaRefOf (schemaRefJson r) = r" "schemaRefOf (norm (schemaRefJson r)) = r"
proof -
  have d: "distinct (map fst [(js ''schemaId'', JStr (sr_schemaId r)),
     (js ''schemaVersion'', JStr (sr_schemaVersion r)), (js ''schemaHash'', JStr (sr_schemaHash r))])"
    by simp
  show "schemaRefOf (schemaRefJson r) = r" by (simp add: schemaRefOf_def schemaRefJson_def strAt_def)
  then show "schemaRefOf (norm (schemaRefJson r)) = r"
    unfolding schemaRefJson_def schemaRefOf_def norm_object_fields [OF d] .
qed

lemma eventOf_eventJson: "eventOf (eventJson e) = e"
  by (simp add: eventOf_def eventJson_def strAt_def intAt_def at_def schemaRefOf_json)

lemma eventOf_norm:
  "eventOf (norm (eventJson e)) = e\<lparr>ev_actor := norm (ev_actor e), ev_payload := norm (ev_payload e)\<rparr>"
proof -
  obtain kvs where k: "eventJson e = JObj kvs" "distinct (map fst kvs)"
    by (simp add: eventJson_def)
  have "eventOf (norm (JObj kvs)) = eventOf (JObj kvs)\<lparr>
      ev_actor := norm (ev_actor (eventOf (JObj kvs))),
      ev_payloadSchema := schemaRefOf (norm (at (JObj kvs) ''payloadSchema'')),
      ev_payload := norm (ev_payload (eventOf (JObj kvs)))\<rparr>"
    by (simp add: eventOf_def norm_object_fields [OF k(2)] del: norm.simps)
  moreover have "at (JObj kvs) ''payloadSchema'' = schemaRefJson (ev_payloadSchema e)"
    using k by (auto simp: eventJson_def at_def)
  ultimately show ?thesis
    using eventOf_eventJson [of e] by (simp add: k(1) schemaRefOf_json del: norm.simps)
qed

lemma strArray_strs: "map (\<lambda>x. case x of JStr s \<Rightarrow> s | _ \<Rightarrow> []) (map JStr xs) = xs"
  by (simp add: comp_def)

lemma receiptOf_receiptJson: "receiptOf (receiptJson r) = r" "receiptOf (norm (receiptJson r)) = r"
proof -
  show r: "receiptOf (receiptJson r) = r"
    by (simp add: receiptOf_def receiptJson_def receiptBaseObj_def strAt_def intAt_def strsAt_def
        at_def strArray_def comp_def)
  obtain kvs where k: "receiptJson r = JObj kvs" "distinct (map fst kvs)"
    by (simp add: receiptJson_def receiptBaseObj_def)
  show "receiptOf (norm (receiptJson r)) = r"
    using r unfolding k(1) receiptOf_def norm_object_fields [OF k(2)] .
qed

lemma receiptJson_wf: "json_wf (receiptJson r)"
  by (auto simp: receiptJson_def receiptBaseObj_def strArray_def)

lemma eventJson_wf: "json_wf (ev_actor e) \<Longrightarrow> json_wf (ev_payload e) \<Longrightarrow> json_wf (eventJson e)"
  by (simp add: eventJson_def schemaRefJson_def)

lemma receipt_text_read_back: "map_option receiptOf (parseCanonical (canon (receiptJson r))) = Some r"
  by (simp add: parseCanonical_canon receiptJson_wf receiptOf_receiptJson)

text \<open>\<open>JSON.parse(canonicalJson(value))\<close>, on data: the value with the keys of each object sorted.\<close>

definition reparse :: "unknown \<Rightarrow> jstring + json" where
  "reparse v = bindE (canonicalJson v) (\<lambda>t. case parseCanonical t of Some j \<Rightarrow> Inr j | None \<Rightarrow> Inl [])"

lemma reparse_json: "json_wf j \<Longrightarrow> reparse (of_json j) = Inr (norm j)"
  by (simp add: reparse_def canonicalJson_def canonicalize_of_json parseCanonical_canon
      del: bindE_Inr_iff)

lemma reparse_Inr:
  assumes "unknown_wf v"
  shows "reparse v = Inr j \<longleftrightarrow> (\<exists>i. v = of_json i \<and> json_wf i \<and> j = norm i)"
proof
  assume r: "reparse v = Inr j"
  then obtain t where "canonicalJson v = Inr t" by (auto simp: reparse_def)
  then obtain i where i: "v = of_json i" by (auto simp: canonicalJson_Inr)
  then have "json_wf i" using assms by (simp add: unknown_wf_of_json)
  with r i show "\<exists>i. v = of_json i \<and> json_wf i \<and> j = norm i" by (auto simp: reparse_json)
qed (auto simp: reparse_json)

end
