(* ===== verification/Journal_Store.thy ===== *)
theory Journal_Store
  imports Envelopes
begin

text \<open>
  \<open>packages/persistence/src/persistence-worker.ts\<close>: the journal that the persistence worker keeps in
  SQLite. A table of \<open>migrations/001-initial.sql\<close> is the list of its rows in the order of insertion, and
  INSERT checks the table's UNIQUE and CHECK constraints; a transaction keeps the tables as they
  were at its BEGIN and puts them back on ROLLBACK. Strings bound to SQLite are well-formed
  Unicode without NUL, COMMIT and reads do not fail, and no other process holds the database;
  the SHA-256 function is the parameter \<open>sha\<close>.
\<close>

section \<open>Errors\<close>

datatype persistenceErrorCode =
    PERSISTENCE_BUSY | PERSISTENCE_CLOSED | PERSISTENCE_CONTRACT_INVALID | PERSISTENCE_CORRUPTION
  | PERSISTENCE_IDEMPOTENCY_CONFLICT | PERSISTENCE_MIGRATION_MISMATCH
  | PERSISTENCE_OPTIMISTIC_CONCURRENCY | PERSISTENCE_QUEUE_FULL
  | PERSISTENCE_SECURITY_CONTROL_FAILED | PERSISTENCE_STORAGE_FAILURE | PERSISTENCE_WORKER_EXITED

text \<open>An \<open>InternalPersistenceError\<close>, or an error of \<open>node:sqlite\<close> with its result code.\<close>

datatype workerError = InternalError persistenceErrorCode jstring | SqliteError nat jstring

definition internal :: "persistenceErrorCode \<Rightarrow> string \<Rightarrow> workerError + 'a" where
  "internal c m = Inl (InternalError c (js m))"

definition lowerUnit :: "16 word \<Rightarrow> 16 word" where
  "lowerUnit c = (if 65 \<le> c \<and> c \<le> 90 then c + 32 else c)"

fun serializeError :: "workerError \<Rightarrow> persistenceErrorCode \<times> jstring" where
  "serializeError (InternalError c m) = (c, m)"
| "serializeError (SqliteError errcode m) =
     (if errcode mod 256 \<in> {11, 26} then (PERSISTENCE_CORRUPTION, m)
      else let lower = map lowerUnit m in
        if includesStr lower (js ''locked'') \<or> includesStr lower (js ''busy'')
        then (PERSISTENCE_BUSY, m) else (PERSISTENCE_STORAGE_FAILURE, m))"

definition translateSqliteError :: "workerError \<Rightarrow> workerError" where
  "translateSqliteError e = (case serializeError e of (c, m) \<Rightarrow> InternalError c m)"

section \<open>Tables\<close>

record eventRow =
  er_sequence :: nat
  er_eventId :: jstring
  er_aggregateType :: jstring
  er_aggregateId :: jstring
  er_aggregateVersion :: int
  er_occurredAt :: jstring
  er_payloadSchema :: schemaRef
  er_payloadHash :: jstring
  er_payloadJson :: jstring
  er_eventJson :: jstring

record receiptRow =
  rr_commandId :: jstring
  rr_idempotencyKey :: jstring
  rr_effectScope :: jstring
  rr_payloadHash :: jstring
  rr_outcomeHash :: jstring
  rr_status :: jstring
  rr_receiptJson :: jstring
  rr_completedAt :: jstring

record outboxRow =
  ox_taskId :: jstring
  ox_idempotencyKey :: jstring
  ox_effectScope :: jstring
  ox_payloadHash :: jstring
  ox_envelopeJson :: jstring
  ox_status :: jstring
  ox_attempt :: int
  ox_createdAt :: jstring
  ox_leasedUntil :: "jstring option"

record inboxRecord =
  ib_resultId :: jstring
  ib_taskId :: jstring
  ib_payloadHash :: jstring
  ib_status :: jstring
  ib_receivedAt :: jstring

record projectionCheckpoint =
  pc_projectionName :: jstring
  pc_projectionVersion :: jstring
  pc_sourceSequence :: int
  pc_rebuiltFromSequence :: "int option"
  pc_updatedAt :: jstring

record tables =
  t_events :: "eventRow list"
  t_nextSequence :: nat              \<comment> \<open>AUTOINCREMENT\<close>
  t_receipts :: "receiptRow list"
  t_outbox :: "outboxRow list"
  t_inbox :: "inboxRecord list"
  t_audit :: "auditFact list"
  t_checkpoints :: "projectionCheckpoint list"

definition emptyTables :: tables where
  "emptyTables = \<lparr>t_events = [], t_nextSequence = 1, t_receipts = [], t_outbox = [], t_inbox = [],
     t_audit = [], t_checkpoints = []\<rparr>"

text \<open>SQLite's \<open>length\<close> of a text counts code points.\<close>

fun sqlLength :: "jstring \<Rightarrow> nat" where
  "sqlLength [] = 0"
| "sqlLength (c # cs) =
     (if isHigh c then (case cs of d # r \<Rightarrow> if isLow d then Suc (sqlLength r) else Suc (sqlLength cs)
                        | [] \<Rightarrow> 1)
      else Suc (sqlLength cs))"

definition constraintFailed :: "string \<Rightarrow> workerError + 'a" where
  "constraintFailed m = Inl (SqliteError 19 (js m))"

definition insertEventRow :: "eventRow \<Rightarrow> tables \<Rightarrow> workerError + tables" where
  "insertEventRow r t =
     (if er_aggregateVersion r < 1 then constraintFailed ''CHECK constraint failed: aggregate_version >= 1''
      else if sqlLength (sr_schemaHash (er_payloadSchema r)) \<noteq> 64
      then constraintFailed ''CHECK constraint failed: length(payload_schema_hash) = 64''
      else if sqlLength (er_payloadHash r) \<noteq> 64
      then constraintFailed ''CHECK constraint failed: length(payload_hash) = 64''
      else if list_ex (\<lambda>x. er_eventId x = er_eventId r) (t_events t)
      then constraintFailed ''UNIQUE constraint failed: event_journal.event_id''
      else if list_ex (\<lambda>x. er_aggregateType x = er_aggregateType r \<and> er_aggregateId x = er_aggregateId r \<and>
                er_aggregateVersion x = er_aggregateVersion r) (t_events t)
      then constraintFailed ''UNIQUE constraint failed: event_journal.aggregate_version''
      else Inr (t\<lparr>t_events := t_events t @ [r\<lparr>er_sequence := t_nextSequence t\<rparr>],
                  t_nextSequence := Suc (t_nextSequence t)\<rparr>))"

definition insertOutboxRow :: "outboxRow \<Rightarrow> tables \<Rightarrow> workerError + tables" where
  "insertOutboxRow r t =
     (if sqlLength (ox_payloadHash r) \<noteq> 64
      then constraintFailed ''CHECK constraint failed: length(payload_hash) = 64''
      else if ox_attempt r < 0 then constraintFailed ''CHECK constraint failed: attempt >= 0''
      else if list_ex (\<lambda>x. ox_taskId x = ox_taskId r) (t_outbox t)
      then constraintFailed ''UNIQUE constraint failed: outbox.task_id''
      else if list_ex (\<lambda>x. ox_idempotencyKey x = ox_idempotencyKey r \<and>
                ox_effectScope x = ox_effectScope r) (t_outbox t)
      then constraintFailed ''UNIQUE constraint failed: outbox.idempotency_key''
      else Inr (t\<lparr>t_outbox := t_outbox t @ [r]\<rparr>))"

definition insertAuditRow :: "auditFact \<Rightarrow> tables \<Rightarrow> workerError + tables" where
  "insertAuditRow r t =
     (if sqlLength (au_payloadHash r) \<noteq> 64
      then constraintFailed ''CHECK constraint failed: length(payload_hash) = 64''
      else if list_ex (\<lambda>x. au_auditId x = au_auditId r) (t_audit t)
      then constraintFailed ''UNIQUE constraint failed: audit_facts.audit_id''
      else Inr (t\<lparr>t_audit := t_audit t @ [r]\<rparr>))"

definition insertReceiptRow :: "receiptRow \<Rightarrow> tables \<Rightarrow> workerError + tables" where
  "insertReceiptRow r t =
     (if sqlLength (rr_payloadHash r) \<noteq> 64 \<or> sqlLength (rr_outcomeHash r) \<noteq> 64
      then constraintFailed ''CHECK constraint failed: length(payload_hash) = 64''
      else if list_ex (\<lambda>x. rr_commandId x = rr_commandId r) (t_receipts t)
      then constraintFailed ''UNIQUE constraint failed: command_receipts.command_id''
      else if list_ex (\<lambda>x. rr_idempotencyKey x = rr_idempotencyKey r \<and>
                rr_effectScope x = rr_effectScope r) (t_receipts t)
      then constraintFailed ''UNIQUE constraint failed: command_receipts.idempotency_key''
      else Inr (t\<lparr>t_receipts := t_receipts t @ [r]\<rparr>))"

definition insertInboxRow :: "inboxRecord \<Rightarrow> tables \<Rightarrow> workerError + tables" where
  "insertInboxRow r t =
     (if sqlLength (ib_payloadHash r) \<noteq> 64
      then constraintFailed ''CHECK constraint failed: length(payload_hash) = 64''
      else if ib_status r \<notin> set (map js [''ACCEPTED'', ''DUPLICATE'', ''REJECTED''])
      then constraintFailed ''CHECK constraint failed: status''
      else if list_ex (\<lambda>x. ib_resultId x = ib_resultId r) (t_inbox t)
      then constraintFailed ''UNIQUE constraint failed: inbox.result_id''
      else if list_ex (\<lambda>x. ib_taskId x = ib_taskId r) (t_inbox t)
      then constraintFailed ''UNIQUE constraint failed: inbox.task_id''
      else Inr (t\<lparr>t_inbox := t_inbox t @ [r]\<rparr>))"

section \<open>Command identity\<close>

definition findCommandDuplicate :: "commandIdentity \<Rightarrow> tables \<Rightarrow> workerError + receiptRow option" where
  "findCommandDuplicate i t =
     (let matches = filter (\<lambda>r. rr_commandId r = id_commandId i \<or>
            (rr_idempotencyKey r = id_idempotencyKey i \<and> rr_effectScope r = id_effectScope i))
          (t_receipts t) in
      case matches of
        [] \<Rightarrow> Inr None
      | row # rest \<Rightarrow>
          if rest \<noteq> [] \<or> rr_commandId row \<noteq> id_commandId i \<or>
             rr_idempotencyKey row \<noteq> id_idempotencyKey i \<or>
             rr_effectScope row \<noteq> id_effectScope i \<or> rr_payloadHash row \<noteq> id_payloadHash i
          then internal PERSISTENCE_IDEMPOTENCY_CONFLICT
                 ''Command identity was reused by a different command or payload''
          else Inr (Some row))"

text \<open>\<open>parseJson\<close> of a stored receipt; the texts stored are canonical ones.\<close>

definition parseReceipt :: "jstring \<Rightarrow> workerError + commitReceipt" where
  "parseReceipt s =
     (case parseCanonical s of
        None \<Rightarrow> internal PERSISTENCE_STORAGE_FAILURE ''Invalid canonical JSON in command receipt''
      | Some j \<Rightarrow> Inr (receiptOf j))"

definition currentAggregateVersion :: "jstring \<Rightarrow> jstring \<Rightarrow> tables \<Rightarrow> int" where
  "currentAggregateVersion aggType aggId t =
     foldl max 0 (map er_aggregateVersion
       (filter (\<lambda>r. er_aggregateType r = aggType \<and> er_aggregateId r = aggId) (t_events t)))"

section \<open>Appending a batch\<close>

definition verifyEvent ::
    "(jstring \<Rightarrow> jstring) \<Rightarrow> domainEventEnvelope \<Rightarrow> journalAppendBatch \<Rightarrow> int \<Rightarrow> workerError + unit" where
  "verifyEvent sha event batch expectedVersion =
     (if ev_aggregateType event \<noteq> ba_aggregateType batch \<or>
         ev_aggregateId event \<noteq> ba_aggregateId batch \<or>
         ev_aggregateVersion event \<noteq> expectedVersion
      then internal PERSISTENCE_OPTIMISTIC_CONCURRENCY
             ''Event aggregate identity or version differs from the append stream''
      else if sha (canon (ev_payload event)) \<noteq> ev_payloadHash event
      then internal PERSISTENCE_CONTRACT_INVALID
             ''Event payload hash does not match canonical payload''
      else Inr ())"

definition verifyOutbox :: "(jstring \<Rightarrow> jstring) \<Rightarrow> journalAppendBatch \<Rightarrow> workerError + unit" where
  "verifyOutbox sha batch =
     (if list_ex (\<lambda>task. sha (canon (tk_payload task)) \<noteq> tk_payloadHash task) (ba_outbox batch)
      then internal PERSISTENCE_CONTRACT_INVALID
             ''Outbox payload hash does not match canonical payload''
      else Inr ())"

definition taskPair :: "sideEffectTask \<Rightarrow> jstring" where
  "taskPair task = canon (JArr [JStr (tk_idempotencyKey task), JStr (tk_effectScope task)])"

fun verifyOutboxIdentities ::
    "sideEffectTask list \<Rightarrow> jstring list \<Rightarrow> jstring list \<Rightarrow> tables \<Rightarrow> workerError + unit" where
  "verifyOutboxIdentities [] taskIds pairs t = Inr ()"
| "verifyOutboxIdentities (task # tasks) taskIds pairs t =
     (if tk_taskId task \<in> set taskIds \<or> taskPair task \<in> set pairs
      then internal PERSISTENCE_IDEMPOTENCY_CONFLICT
             ''Outbox identity is duplicated inside the append batch''
      else if list_ex (\<lambda>r. ox_taskId r = tk_taskId task \<or>
                (ox_idempotencyKey r = tk_idempotencyKey task \<and>
                 ox_effectScope r = tk_effectScope task)) (t_outbox t)
      then internal PERSISTENCE_IDEMPOTENCY_CONFLICT
             ''Outbox task or idempotency identity was reused by another command''
      else verifyOutboxIdentities tasks (tk_taskId task # taskIds) (taskPair task # pairs) t)"

definition eventRowOf :: "domainEventEnvelope \<Rightarrow> eventRow" where
  "eventRowOf event = \<lparr>er_sequence = 0, er_eventId = ev_eventId event,
     er_aggregateType = ev_aggregateType event, er_aggregateId = ev_aggregateId event,
     er_aggregateVersion = ev_aggregateVersion event, er_occurredAt = ev_occurredAt event,
     er_payloadSchema = ev_payloadSchema event, er_payloadHash = ev_payloadHash event,
     er_payloadJson = canon (ev_payload event), er_eventJson = canon (eventJson event)\<rparr>"

text \<open>\<open>batch.events.forEach\<close>: verify, then insert, the event at each index.\<close>

fun insertEvents ::
    "(jstring \<Rightarrow> jstring) \<Rightarrow> journalAppendBatch \<Rightarrow> int \<Rightarrow> domainEventEnvelope list \<Rightarrow> tables
       \<Rightarrow> workerError + tables" where
  "insertEvents sha batch version [] t = Inr t"
| "insertEvents sha batch version (event # events) t =
     bindE (verifyEvent sha event batch (version + 1)) (\<lambda>_.
     bindE (insertEventRow (eventRowOf event) t) (\<lambda>t'.
       insertEvents sha batch (version + 1) events t'))"

fun insertOutbox :: "jstring \<Rightarrow> sideEffectTask list \<Rightarrow> tables \<Rightarrow> workerError + tables" where
  "insertOutbox capturedAt [] t = Inr t"
| "insertOutbox capturedAt (task # tasks) t =
     bindE (insertOutboxRow \<lparr>ox_taskId = tk_taskId task, ox_idempotencyKey = tk_idempotencyKey task,
              ox_effectScope = tk_effectScope task, ox_payloadHash = tk_payloadHash task,
              ox_envelopeJson = canon (tk_object task), ox_status = js ''PENDING'',
              ox_attempt = tk_attempt task, ox_createdAt = capturedAt, ox_leasedUntil = None\<rparr> t)
       (\<lambda>t'. insertOutbox capturedAt tasks t')"

fun insertAudit :: "auditFact list \<Rightarrow> tables \<Rightarrow> workerError + tables" where
  "insertAudit [] t = Inr t"
| "insertAudit (audit # audits) t = bindE (insertAuditRow audit t) (\<lambda>t'. insertAudit audits t')"

definition makeReceipt :: "(jstring \<Rightarrow> jstring) \<Rightarrow> journalAppendBatch \<Rightarrow> int \<Rightarrow> commitReceipt" where
  "makeReceipt sha batch currentVersion =
     (let base = \<lparr>rc_transactionId = ba_transactionId batch,
            rc_commandId = id_commandId (ba_identity batch),
            rc_aggregateType = ba_aggregateType batch, rc_aggregateId = ba_aggregateId batch,
            rc_committedVersion = currentVersion + int (length (ba_events batch)),
            rc_eventIds = map ev_eventId (ba_events batch),
            rc_outboxTaskIds = map tk_taskId (ba_outbox batch),
            rc_auditIds = map au_auditId (ba_audit batch),
            rc_committedAt = ba_capturedAt batch, rc_receiptHash = []\<rparr>
      in base\<lparr>rc_receiptHash := receiptHashOf sha base\<rparr>)"

definition receiptRowOf :: "journalAppendBatch \<Rightarrow> commitReceipt \<Rightarrow> receiptRow" where
  "receiptRowOf batch receipt = \<lparr>rr_commandId = id_commandId (ba_identity batch),
     rr_idempotencyKey = id_idempotencyKey (ba_identity batch),
     rr_effectScope = id_effectScope (ba_identity batch),
     rr_payloadHash = id_payloadHash (ba_identity batch),
     rr_outcomeHash = rc_receiptHash receipt, rr_status = js ''COMMITTED'',
     rr_receiptJson = canon (receiptJson receipt), rr_completedAt = ba_capturedAt batch\<rparr>"

text \<open>The action of the transaction, for a batch that is no duplicate.\<close>

definition appendBatch ::
    "(jstring \<Rightarrow> jstring) \<Rightarrow> journalAppendBatch \<Rightarrow> tables \<Rightarrow> workerError + (commitReceipt \<times> tables)" where
  "appendBatch sha batch t =
     bindE (verifyOutboxIdentities (ba_outbox batch) [] [] t) (\<lambda>_.
     let currentVersion = currentAggregateVersion (ba_aggregateType batch) (ba_aggregateId batch) t in
     if currentVersion \<noteq> ba_expectedVersion batch
     then internal PERSISTENCE_OPTIMISTIC_CONCURRENCY
            ''Aggregate expected version does not match authority storage''
     else
       bindE (insertEvents sha batch currentVersion (ba_events batch) t) (\<lambda>t1.
       bindE (insertOutbox (ba_capturedAt batch) (ba_outbox batch) t1) (\<lambda>t2.
       bindE (insertAudit (ba_audit batch) t2) (\<lambda>t3.
       let receipt = makeReceipt sha batch currentVersion in
       bindE (insertReceiptRow (receiptRowOf batch receipt) t3) (\<lambda>t4.
         Inr (receipt, t4))))))"

definition commitAction ::
    "(jstring \<Rightarrow> jstring) \<Rightarrow> journalAppendBatch \<Rightarrow> tables \<Rightarrow> workerError + (commitReceipt \<times> tables)" where
  "commitAction sha batch t =
     bindE (findCommandDuplicate (ba_identity batch) t) (\<lambda>duplicate.
       case duplicate of
         Some row \<Rightarrow> bindE (parseReceipt (rr_receiptJson row)) (\<lambda>receipt. Inr (receipt, t))
       | None \<Rightarrow> appendBatch sha batch t)"

section \<open>Inbox and checkpoints\<close>

definition inboxAction :: "inboxRecord \<Rightarrow> tables \<Rightarrow> workerError + (inboxRecord \<times> tables)" where
  "inboxAction record t =
     (case filter (\<lambda>r. ib_resultId r = ib_resultId record \<or> ib_taskId r = ib_taskId record) (t_inbox t) of
        [] \<Rightarrow> bindE (insertInboxRow record t) (\<lambda>t'. Inr (record, t'))
      | row # rest \<Rightarrow>
          if rest \<noteq> [] \<or> ib_resultId row \<noteq> ib_resultId record \<or> ib_taskId row \<noteq> ib_taskId record \<or>
             ib_payloadHash row \<noteq> ib_payloadHash record
          then internal PERSISTENCE_IDEMPOTENCY_CONFLICT
                 ''Inbox result or task identity was reused by a different record''
          else Inr (row\<lparr>ib_status := js ''DUPLICATE''\<rparr>, t))"

text \<open>\<open>INSERT ... ON CONFLICT(projection_name) DO UPDATE\<close>\<close>

definition upsertCheckpoint :: "projectionCheckpoint \<Rightarrow> tables \<Rightarrow> workerError + tables" where
  "upsertCheckpoint c t =
     (if pc_sourceSequence c < 0 \<or> (case pc_rebuiltFromSequence c of None \<Rightarrow> False | Some n \<Rightarrow> n < 0)
      then constraintFailed ''CHECK constraint failed: source_sequence >= 0''
      else if list_ex (\<lambda>x. pc_projectionName x = pc_projectionName c) (t_checkpoints t)
      then Inr (t\<lparr>t_checkpoints := map (\<lambda>x. if pc_projectionName x = pc_projectionName c then c else x)
                 (t_checkpoints t)\<rparr>)
      else Inr (t\<lparr>t_checkpoints := t_checkpoints t @ [c]\<rparr>))"

definition findCheckpoint :: "jstring \<Rightarrow> tables \<Rightarrow> projectionCheckpoint option" where
  "findCheckpoint name t = find (\<lambda>x. pc_projectionName x = name) (t_checkpoints t)"

definition checkpointAction ::
    "projectionCheckpoint \<Rightarrow> tables \<Rightarrow> workerError + (projectionCheckpoint \<times> tables)" where
  "checkpointAction c t =
     (if (case findCheckpoint (pc_projectionName c) t of
            None \<Rightarrow> False | Some x \<Rightarrow> pc_sourceSequence c < pc_sourceSequence x)
      then internal PERSISTENCE_OPTIMISTIC_CONCURRENCY ''Projection checkpoint cannot move backwards''
      else bindE (upsertCheckpoint c t) (\<lambda>t'. Inr (c, t')))"

section \<open>Reads\<close>

record commandDedupRecord =
  cd_commandId :: jstring
  cd_idempotencyKey :: jstring
  cd_effectScope :: jstring
  cd_payloadHash :: jstring
  cd_outcomeHash :: jstring
  cd_status :: jstring
  cd_completedAt :: jstring

definition getCommand :: "jstring \<Rightarrow> tables \<Rightarrow> commandDedupRecord option" where
  "getCommand commandId t =
     map_option (\<lambda>row. \<lparr>cd_commandId = rr_commandId row, cd_idempotencyKey = rr_idempotencyKey row,
         cd_effectScope = rr_effectScope row, cd_payloadHash = rr_payloadHash row,
         cd_outcomeHash = rr_outcomeHash row, cd_status = js ''COMMITTED'',
         cd_completedAt = rr_completedAt row\<rparr>)
       (find (\<lambda>r. rr_commandId r = commandId) (t_receipts t))"

definition listOutbox :: "tables \<Rightarrow> outboxRow list" where
  "listOutbox t = map (\<lambda>row. row\<lparr>ox_status := js ''PENDING''\<rparr>) (sort_key ox_taskId (t_outbox t))"

text \<open>LIMIT with a negative bound has no limit.\<close>

definition sqlLimit :: "int \<Rightarrow> 'a list \<Rightarrow> 'a list" where
  "sqlLimit limit xs = (if limit < 0 then xs else take (nat limit) xs)"

definition readEvents :: "jstring \<Rightarrow> jstring \<Rightarrow> int \<Rightarrow> tables \<Rightarrow> workerError + json list" where
  "readEvents aggType aggId limit t =
     mapE (\<lambda>r. case parseCanonical (er_eventJson r) of
                 None \<Rightarrow> internal PERSISTENCE_STORAGE_FAILURE ''Invalid canonical JSON in event journal''
               | Some j \<Rightarrow> Inr j)
       (sqlLimit limit (sort_key er_aggregateVersion
         (filter (\<lambda>r. er_aggregateType r = aggType \<and> er_aggregateId r = aggId) (t_events t))))"

record recoverySummary =
  rs_eventCount :: nat
  rs_commandCount :: nat
  rs_pendingOutboxCount :: nat
  rs_inboxCount :: nat
  rs_auditCount :: nat
  rs_checkpointCount :: nat

definition recover :: "tables \<Rightarrow> recoverySummary" where
  "recover t = \<lparr>rs_eventCount = length (t_events t), rs_commandCount = length (t_receipts t),
     rs_pendingOutboxCount = length (filter (\<lambda>r. ox_status r = js ''PENDING'') (t_outbox t)),
     rs_inboxCount = length (t_inbox t), rs_auditCount = length (t_audit t),
     rs_checkpointCount = length (t_checkpoints t)\<rparr>"

section \<open>The worker\<close>

text \<open>
  \<open>w_file\<close> is what the database file holds, the committed rows; \<open>w_transaction\<close> is what the connection
  sees while a transaction is open. Losing the process loses \<open>w_transaction\<close>.
\<close>

record worker =
  w_open :: bool                        \<comment> \<open>the connection exists\<close>
  w_file :: tables
  w_transaction :: "tables option"
  w_writeLockHeld :: bool
  w_crashTransactionArmed :: bool

definition openWorker :: "tables \<Rightarrow> worker" where
  "openWorker t = \<lparr>w_open = True, w_file = t, w_transaction = None, w_writeLockHeld = False,
     w_crashTransactionArmed = False\<rparr>"

definition visible :: "worker \<Rightarrow> tables" where
  "visible w = (case w_transaction w of None \<Rightarrow> w_file w | Some t \<Rightarrow> t)"

definition closedError :: workerError where
  "closedError = InternalError PERSISTENCE_CLOSED (js ''SQLite connection is not available'')"

definition nestedBegin :: workerError where
  "nestedBegin = SqliteError 1 (js ''cannot start a transaction within a transaction'')"

definition runTransaction ::
    "(tables \<Rightarrow> workerError + ('a \<times> tables)) \<Rightarrow> worker \<Rightarrow> (workerError + 'a) \<times> worker" where
  "runTransaction action w =
     (if \<not> w_open w then (Inl closedError, w)
      else if w_transaction w \<noteq> None then (Inl (translateSqliteError nestedBegin), w)
      else
        (case action (w_file w) of
           Inr (x, t) \<Rightarrow> (Inr x, w\<lparr>w_file := t\<rparr>)
         | Inl e \<Rightarrow> (Inl (translateSqliteError e), w)))"

text \<open>A read, or a check outside any transaction, on the connection.\<close>

definition onDatabase :: "(tables \<Rightarrow> workerError + 'a) \<Rightarrow> worker \<Rightarrow> workerError + 'a" where
  "onDatabase f w = (if w_open w then f (visible w) else Inl closedError)"

definition commitBatch ::
    "(jstring \<Rightarrow> jstring) \<Rightarrow> journalAppendBatch \<Rightarrow> worker \<Rightarrow> (workerError + commitReceipt) \<times> worker" where
  "commitBatch sha batch w =
     (case onDatabase (findCommandDuplicate (ba_identity batch)) w of
        Inl e \<Rightarrow> (Inl e, w)
      | Inr (Some row) \<Rightarrow> (parseReceipt (rr_receiptJson row), w)
      | Inr None \<Rightarrow>
          (case verifyOutbox sha batch of
             Inl e \<Rightarrow> (Inl e, w)
           | Inr _ \<Rightarrow> runTransaction (commitAction sha batch) w))"

definition qualificationBusy :: "workerError + 'a" where
  "qualificationBusy = internal PERSISTENCE_BUSY ''A qualification transaction is already active''"

definition armCrashChecks ::
    "(jstring \<Rightarrow> jstring) \<Rightarrow> journalAppendBatch \<Rightarrow> tables \<Rightarrow> workerError + domainEventEnvelope" where
  "armCrashChecks sha batch t =
     (let currentVersion = currentAggregateVersion (ba_aggregateType batch) (ba_aggregateId batch) t in
      if currentVersion \<noteq> ba_expectedVersion batch
      then internal PERSISTENCE_OPTIMISTIC_CONCURRENCY ''Crash probe expected version mismatch''
      else
        case ba_events batch of
          [] \<Rightarrow> internal PERSISTENCE_CONTRACT_INVALID ''Crash probe requires an event''
        | event # _ \<Rightarrow>
            bindE (verifyEvent sha event batch (currentVersion + 1)) (\<lambda>_. Inr event))"

definition armCrash ::
    "(jstring \<Rightarrow> jstring) \<Rightarrow> journalAppendBatch \<Rightarrow> worker \<Rightarrow> (workerError + unit) \<times> worker" where
  "armCrash sha batch w =
     (if w_writeLockHeld w \<or> w_crashTransactionArmed w then (qualificationBusy, w)
      else
        case bindE (verifyOutbox sha batch) (\<lambda>_. onDatabase (armCrashChecks sha batch) w) of
          Inl e \<Rightarrow> (Inl e, w)
        | Inr event \<Rightarrow>
            if w_transaction w \<noteq> None
            then (Inl (translateSqliteError nestedBegin), w\<lparr>w_transaction := None\<rparr>)
            else
              case insertEventRow (eventRowOf event) (w_file w) of
                Inl e \<Rightarrow> (Inl (translateSqliteError e), w)
              | Inr t \<Rightarrow> (Inr (), w\<lparr>w_transaction := Some t, w_crashTransactionArmed := True\<rparr>))"

definition holdLock :: "worker \<Rightarrow> (workerError + unit) \<times> worker" where
  "holdLock w =
     (if w_writeLockHeld w \<or> w_crashTransactionArmed w then (qualificationBusy, w)
      else if \<not> w_open w then (Inl closedError, w)
      else if w_transaction w \<noteq> None then (Inl (translateSqliteError nestedBegin), w)
      else (Inr (), w\<lparr>w_transaction := Some (w_file w), w_writeLockHeld := True\<rparr>))"

text \<open>ROLLBACK is an error when no transaction is open.\<close>

definition rollback :: "worker \<Rightarrow> workerError + worker" where
  "rollback w =
     (if \<not> w_open w then Inl closedError
      else if w_transaction w = None
      then Inl (SqliteError 1 (js ''cannot rollback - no transaction is active''))
      else Inr (w\<lparr>w_transaction := None\<rparr>))"

definition releaseLock :: "worker \<Rightarrow> (workerError + unit) \<times> worker" where
  "releaseLock w =
     (if \<not> w_writeLockHeld w
      then (internal PERSISTENCE_CONTRACT_INVALID ''No qualification write lock is active'', w)
      else case rollback w of
             Inl e \<Rightarrow> (Inl e, w)
           | Inr w' \<Rightarrow> (Inr (), w'\<lparr>w_writeLockHeld := False\<rparr>))"

definition closeDatabase :: "worker \<Rightarrow> (workerError + unit) \<times> worker" where
  "closeDatabase w =
     (let w1 = (if w_writeLockHeld w \<or> w_crashTransactionArmed w
                then (case rollback w of Inl _ \<Rightarrow> w | Inr w' \<Rightarrow> w') else w) in
      if \<not> w_open w1 then (Inl closedError, w1)
      else (Inr (), w1\<lparr>w_open := False, w_transaction := None\<rparr>))"

section \<open>Requests\<close>

datatype request =
    ReqArmCrash journalAppendBatch
  | ReqClose
  | ReqCommit journalAppendBatch
  | ReqGetCommand jstring
  | ReqLookupCommandReceipt commandIdentity
  | ReqHoldLock
  | ReqListOutbox
  | ReqReadEvents jstring jstring int
  | ReqRecordInbox inboxRecord
  | ReqRecover
  | ReqReleaseLock
  | ReqSaveCheckpoint projectionCheckpoint
  | ReqUnknown jstring

datatype reply =
    ReplyDone
  | ReplyReceipt commitReceipt
  | ReplyCommand "commandDedupRecord option"
  | ReplyLookup "commitReceipt option"
  | ReplyOutbox "outboxRow list"
  | ReplyEvents "json list"
  | ReplyInbox inboxRecord
  | ReplyRecovery recoverySummary
  | ReplyCheckpoint projectionCheckpoint

definition mapReply :: "('a \<Rightarrow> reply) \<Rightarrow> (workerError + 'a) \<times> worker \<Rightarrow> (workerError + reply) \<times> worker" where
  "mapReply f rw = (case rw of (r, w) \<Rightarrow> (bindE r (\<lambda>x. Inr (f x)), w))"

definition lookupCommandReceipt :: "commandIdentity \<Rightarrow> tables \<Rightarrow> workerError + commitReceipt option" where
  "lookupCommandReceipt i t =
     bindE (findCommandDuplicate i t) (\<lambda>duplicate.
       case duplicate of
         None \<Rightarrow> Inr None
       | Some row \<Rightarrow> bindE (parseReceipt (rr_receiptJson row)) (\<lambda>r. Inr (Some r)))"

fun handle :: "(jstring \<Rightarrow> jstring) \<Rightarrow> request \<Rightarrow> worker \<Rightarrow> (workerError + reply) \<times> worker" where
  "handle sha (ReqArmCrash batch) w = mapReply (\<lambda>_. ReplyDone) (armCrash sha batch w)"
| "handle sha ReqClose w = mapReply (\<lambda>_. ReplyDone) (closeDatabase w)"
| "handle sha (ReqCommit batch) w = mapReply ReplyReceipt (commitBatch sha batch w)"
| "handle sha (ReqGetCommand c) w =
     mapReply ReplyCommand (onDatabase (\<lambda>t. Inr (getCommand c t)) w, w)"
| "handle sha (ReqLookupCommandReceipt i) w =
     mapReply ReplyLookup (onDatabase (lookupCommandReceipt i) w, w)"
| "handle sha ReqHoldLock w = mapReply (\<lambda>_. ReplyDone) (holdLock w)"
| "handle sha ReqListOutbox w = mapReply ReplyOutbox (onDatabase (\<lambda>t. Inr (listOutbox t)) w, w)"
| "handle sha (ReqReadEvents ty i limit) w = mapReply ReplyEvents (onDatabase (readEvents ty i limit) w, w)"
| "handle sha (ReqRecordInbox record) w = mapReply ReplyInbox (runTransaction (inboxAction record) w)"
| "handle sha ReqRecover w = mapReply ReplyRecovery (onDatabase (\<lambda>t. Inr (recover t)) w, w)"
| "handle sha ReqReleaseLock w = mapReply (\<lambda>_. ReplyDone) (releaseLock w)"
| "handle sha (ReqSaveCheckpoint c) w = mapReply ReplyCheckpoint (runTransaction (checkpointAction c) w)"
| "handle sha (ReqUnknown kind) w =
     (Inl (InternalError PERSISTENCE_CONTRACT_INVALID
             (js ''Unknown persistence worker request: '' @ kind)), w)"

section \<open>What an insertion does\<close>

named_theorems row_inserts \<open>the effect of a successful INSERT\<close>

lemma constraintFailed_Inr [simp]: "constraintFailed m \<noteq> Inr x"
  by (simp add: constraintFailed_def)

lemma internal_Inr [simp]: "internal c m \<noteq> Inr x"
  by (simp add: internal_def)

lemma list_ex_field: "list_ex (\<lambda>x. f x = a) xs \<longleftrightarrow> a \<in> f ` set xs"
  by (auto simp: list_ex_iff)

lemma insertEventRow_Inr [row_inserts]:
  "insertEventRow r t = Inr t' \<longleftrightarrow>
     1 \<le> er_aggregateVersion r \<and> sqlLength (sr_schemaHash (er_payloadSchema r)) = 64 \<and>
     sqlLength (er_payloadHash r) = 64 \<and> er_eventId r \<notin> er_eventId ` set (t_events t) \<and>
     (\<forall>x \<in> set (t_events t). \<not> (er_aggregateType x = er_aggregateType r \<and>
        er_aggregateId x = er_aggregateId r \<and> er_aggregateVersion x = er_aggregateVersion r)) \<and>
     t' = t\<lparr>t_events := t_events t @ [r\<lparr>er_sequence := t_nextSequence t\<rparr>],
           t_nextSequence := Suc (t_nextSequence t)\<rparr>"
  unfolding insertEventRow_def list_ex_field by (auto simp: list_ex_iff)

lemma insertOutboxRow_Inr [row_inserts]:
  "insertOutboxRow r t = Inr t' \<longleftrightarrow>
     sqlLength (ox_payloadHash r) = 64 \<and> 0 \<le> ox_attempt r \<and>
     ox_taskId r \<notin> ox_taskId ` set (t_outbox t) \<and>
     (\<forall>x \<in> set (t_outbox t). \<not> (ox_idempotencyKey x = ox_idempotencyKey r \<and>
        ox_effectScope x = ox_effectScope r)) \<and>
     t' = t\<lparr>t_outbox := t_outbox t @ [r]\<rparr>"
  unfolding insertOutboxRow_def list_ex_field by (auto simp: list_ex_iff)

lemma insertAuditRow_Inr [row_inserts]:
  "insertAuditRow r t = Inr t' \<longleftrightarrow>
     sqlLength (au_payloadHash r) = 64 \<and> au_auditId r \<notin> au_auditId ` set (t_audit t) \<and>
     t' = t\<lparr>t_audit := t_audit t @ [r]\<rparr>"
  unfolding insertAuditRow_def list_ex_field by (auto simp: list_ex_iff)

lemma insertReceiptRow_Inr [row_inserts]:
  "insertReceiptRow r t = Inr t' \<longleftrightarrow>
     sqlLength (rr_payloadHash r) = 64 \<and> sqlLength (rr_outcomeHash r) = 64 \<and>
     rr_commandId r \<notin> rr_commandId ` set (t_receipts t) \<and>
     (\<forall>x \<in> set (t_receipts t). \<not> (rr_idempotencyKey x = rr_idempotencyKey r \<and>
        rr_effectScope x = rr_effectScope r)) \<and>
     t' = t\<lparr>t_receipts := t_receipts t @ [r]\<rparr>"
  unfolding insertReceiptRow_def list_ex_field by (auto simp: list_ex_iff)

lemma insertInboxRow_Inr [row_inserts]:
  "insertInboxRow r t = Inr t' \<longleftrightarrow>
     sqlLength (ib_payloadHash r) = 64 \<and>
     ib_status r \<in> set (map js [''ACCEPTED'', ''DUPLICATE'', ''REJECTED'']) \<and>
     ib_resultId r \<notin> ib_resultId ` set (t_inbox t) \<and> ib_taskId r \<notin> ib_taskId ` set (t_inbox t) \<and>
     t' = t\<lparr>t_inbox := t_inbox t @ [r]\<rparr>"
  unfolding insertInboxRow_def list_ex_field by (auto simp: list_ex_iff)

text \<open>The rows of a batch's events, numbered from \<open>n\<close>, and what \<open>verifyEvent\<close> checked of them.\<close>

fun numberRows :: "nat \<Rightarrow> domainEventEnvelope list \<Rightarrow> eventRow list" where
  "numberRows n [] = []"
| "numberRows n (e # es) = (eventRowOf e)\<lparr>er_sequence := n\<rparr> # numberRows (Suc n) es"

fun eventsFit :: "(jstring \<Rightarrow> jstring) \<Rightarrow> journalAppendBatch \<Rightarrow> int \<Rightarrow> domainEventEnvelope list \<Rightarrow> bool" where
  "eventsFit sha b v [] \<longleftrightarrow> True"
| "eventsFit sha b v (e # es) \<longleftrightarrow>
     ev_aggregateType e = ba_aggregateType b \<and> ev_aggregateId e = ba_aggregateId b \<and>
     ev_aggregateVersion e = v + 1 \<and> sha (canon (ev_payload e)) = ev_payloadHash e \<and>
     eventsFit sha b (v + 1) es"

lemma verifyEvent_Inr:
  "verifyEvent sha e b v = Inr u \<longleftrightarrow>
     ev_aggregateType e = ba_aggregateType b \<and> ev_aggregateId e = ba_aggregateId b \<and>
     ev_aggregateVersion e = v \<and> sha (canon (ev_payload e)) = ev_payloadHash e"
  by (auto simp: verifyEvent_def)

lemma eventRowOf_simps [simp]:
  "er_eventId (eventRowOf e) = ev_eventId e" "er_aggregateType (eventRowOf e) = ev_aggregateType e"
  "er_aggregateId (eventRowOf e) = ev_aggregateId e"
  "er_aggregateVersion (eventRowOf e) = ev_aggregateVersion e"
  "er_payloadHash (eventRowOf e) = ev_payloadHash e"
  "er_eventJson (eventRowOf e) = canon (eventJson e)"
  "er_payloadSchema (eventRowOf e) = ev_payloadSchema e"
  by (simp_all add: eventRowOf_def)

lemma numberRows_fields [simp]:
  "map er_eventId (numberRows n es) = map ev_eventId es"
  "map er_sequence (numberRows n es) = [n..<n + length es]"
  "map er_aggregateVersion (numberRows n es) = map ev_aggregateVersion es"
  "map er_eventJson (numberRows n es) = map (\<lambda>e. canon (eventJson e)) es"
  "length (numberRows n es) = length es"
  by (induction es arbitrary: n) (simp_all add: upt_rec)

lemma numberRows_set: "r \<in> set (numberRows n es) \<Longrightarrow> \<exists>e \<in> set es. \<exists>i. r = (eventRowOf e)\<lparr>er_sequence := i\<rparr>"
  by (induction es arbitrary: n) auto

lemma insertEvents_Inr:
  "insertEvents sha b v es t = Inr t' \<Longrightarrow>
     t' = t\<lparr>t_events := t_events t @ numberRows (t_nextSequence t) es,
           t_nextSequence := t_nextSequence t + length es\<rparr> \<and>
     eventsFit sha b v es \<and> distinct (map ev_eventId es) \<and>
     (\<forall>e \<in> set es. ev_eventId e \<notin> er_eventId ` set (t_events t))"
proof (induction es arbitrary: v t)
  case (Cons e es)
  then obtain t1 where v: "verifyEvent sha e b (v + 1) = Inr ()" and
    t1: "insertEventRow (eventRowOf e) t = Inr t1" and
    rest: "insertEvents sha b (v + 1) es t1 = Inr t'" by auto
  have e: "ev_eventId e \<notin> er_eventId ` set (t_events t)" and
    t1': "t1 = t\<lparr>t_events := t_events t @ [(eventRowOf e)\<lparr>er_sequence := t_nextSequence t\<rparr>],
           t_nextSequence := Suc (t_nextSequence t)\<rparr>"
    using t1 by (simp_all add: insertEventRow_Inr)
  from Cons.IH [OF rest] v e show ?case
    by (auto simp: t1' verifyEvent_Inr)
qed simp

lemma insertOutbox_Inr:
  "insertOutbox c tasks t = Inr t' \<Longrightarrow> \<exists>rows. t' = t\<lparr>t_outbox := t_outbox t @ rows\<rparr> \<and>
     map ox_taskId rows = map tk_taskId tasks \<and>
     (distinct (map ox_taskId (t_outbox t)) \<longrightarrow> distinct (map ox_taskId (t_outbox t @ rows))) \<and>
     (distinct (map (\<lambda>r. (ox_idempotencyKey r, ox_effectScope r)) (t_outbox t)) \<longrightarrow>
      distinct (map (\<lambda>r. (ox_idempotencyKey r, ox_effectScope r)) (t_outbox t @ rows))) \<and>
     (\<forall>r \<in> set rows. ox_status r = js ''PENDING'' \<and> ox_createdAt r = c)"
proof (induction tasks arbitrary: t)
  case (Cons task tasks)
  define row where "row = \<lparr>ox_taskId = tk_taskId task, ox_idempotencyKey = tk_idempotencyKey task,
              ox_effectScope = tk_effectScope task, ox_payloadHash = tk_payloadHash task,
              ox_envelopeJson = canon (tk_object task), ox_status = js ''PENDING'',
              ox_attempt = tk_attempt task, ox_createdAt = c, ox_leasedUntil = None\<rparr>"
  from Cons.prems obtain t1 where t1: "insertOutboxRow row t = Inr t1" and
    rest: "insertOutbox c tasks t1 = Inr t'" by (auto simp: row_def)
  have new: "tk_taskId task \<notin> ox_taskId ` set (t_outbox t)"
    "\<forall>x \<in> set (t_outbox t). (ox_idempotencyKey x, ox_effectScope x) \<noteq> (tk_idempotencyKey task, tk_effectScope task)"
    and t1': "t1 = t\<lparr>t_outbox := t_outbox t @ [row]\<rparr>"
    using t1 by (auto simp: insertOutboxRow_Inr row_def)
  from Cons.IH [OF rest] obtain rows where rows: "t' = t1\<lparr>t_outbox := t_outbox t1 @ rows\<rparr>"
    "map ox_taskId rows = map tk_taskId tasks"
    "distinct (map ox_taskId (t_outbox t1)) \<longrightarrow> distinct (map ox_taskId (t_outbox t1 @ rows))"
    "distinct (map (\<lambda>r. (ox_idempotencyKey r, ox_effectScope r)) (t_outbox t1)) \<longrightarrow>
      distinct (map (\<lambda>r. (ox_idempotencyKey r, ox_effectScope r)) (t_outbox t1 @ rows))"
    "\<forall>r \<in> set rows. ox_status r = js ''PENDING'' \<and> ox_createdAt r = c" by blast
  have "distinct (map ox_taskId (t_outbox t)) \<Longrightarrow> distinct (map ox_taskId (t_outbox t1))"
    "distinct (map (\<lambda>r. (ox_idempotencyKey r, ox_effectScope r)) (t_outbox t)) \<Longrightarrow>
     distinct (map (\<lambda>r. (ox_idempotencyKey r, ox_effectScope r)) (t_outbox t1))"
    using new by (auto simp: t1' row_def)
  then show ?case
    using rows by (intro exI [of _ "row # rows"]) (simp add: t1' row_def)
qed simp

lemma insertAudit_Inr:
  "insertAudit as t = Inr t' \<Longrightarrow> t' = t\<lparr>t_audit := t_audit t @ as\<rparr> \<and>
     (distinct (map au_auditId (t_audit t)) \<longrightarrow> distinct (map au_auditId (t_audit t @ as)))"
proof (induction as arbitrary: t)
  case (Cons a as)
  then obtain t1 where "insertAuditRow a t = Inr t1" and rest: "insertAudit as t1 = Inr t'" by auto
  then show ?case using Cons.IH [OF rest] by (auto simp: insertAuditRow_Inr)
qed simp

text \<open>The effect of \<open>appendBatch\<close>.\<close>

lemma appendBatch_Inr:
  assumes "appendBatch sha b t = Inr (r, t')"
  shows "currentAggregateVersion (ba_aggregateType b) (ba_aggregateId b) t = ba_expectedVersion b"
    "r = makeReceipt sha b (ba_expectedVersion b)"
    "eventsFit sha b (ba_expectedVersion b) (ba_events b)" "distinct (map ev_eventId (ba_events b))"
    "\<forall>e \<in> set (ba_events b). ev_eventId e \<notin> er_eventId ` set (t_events t)"
    "rr_commandId (receiptRowOf b r) \<notin> rr_commandId ` set (t_receipts t)"
    "\<forall>x \<in> set (t_receipts t). \<not> (rr_idempotencyKey x = rr_idempotencyKey (receiptRowOf b r) \<and>
        rr_effectScope x = rr_effectScope (receiptRowOf b r))"
    "\<exists>rows. map ox_taskId rows = map tk_taskId (ba_outbox b) \<and>
       (distinct (map ox_taskId (t_outbox t)) \<longrightarrow> distinct (map ox_taskId (t_outbox t @ rows))) \<and>
       (distinct (map (\<lambda>r. (ox_idempotencyKey r, ox_effectScope r)) (t_outbox t)) \<longrightarrow>
        distinct (map (\<lambda>r. (ox_idempotencyKey r, ox_effectScope r)) (t_outbox t @ rows))) \<and>
       (distinct (map au_auditId (t_audit t)) \<longrightarrow> distinct (map au_auditId (t_audit t @ ba_audit b))) \<and>
       t' = t\<lparr>t_events := t_events t @ numberRows (t_nextSequence t) (ba_events b),
         t_nextSequence := t_nextSequence t + length (ba_events b),
         t_outbox := t_outbox t @ rows, t_audit := t_audit t @ ba_audit b,
         t_receipts := t_receipts t @ [receiptRowOf b r]\<rparr>"
proof -
  let ?v = "currentAggregateVersion (ba_aggregateType b) (ba_aggregateId b) t"
  obtain t1 t2 t3 where v: "?v = ba_expectedVersion b" and
    t1: "insertEvents sha b ?v (ba_events b) t = Inr t1" and
    t2: "insertOutbox (ba_capturedAt b) (ba_outbox b) t1 = Inr t2" and
    t3: "insertAudit (ba_audit b) t2 = Inr t3" and
    r: "r = makeReceipt sha b ?v" and t4: "insertReceiptRow (receiptRowOf b r) t3 = Inr t'"
    using assms by (auto simp: appendBatch_def Let_def split: if_splits)
  note e = insertEvents_Inr [OF t1] and a = insertAudit_Inr [OF t3]
  obtain rows where o: "t2 = t1\<lparr>t_outbox := t_outbox t1 @ rows\<rparr>"
     "map ox_taskId rows = map tk_taskId (ba_outbox b)"
     "distinct (map ox_taskId (t_outbox t1)) \<longrightarrow> distinct (map ox_taskId (t_outbox t1 @ rows))"
     "distinct (map (\<lambda>r. (ox_idempotencyKey r, ox_effectScope r)) (t_outbox t1)) \<longrightarrow>
      distinct (map (\<lambda>r. (ox_idempotencyKey r, ox_effectScope r)) (t_outbox t1 @ rows))"
    using insertOutbox_Inr [OF t2] by blast
  show "?v = ba_expectedVersion b" "r = makeReceipt sha b (ba_expectedVersion b)" using v r by simp_all
  show "eventsFit sha b (ba_expectedVersion b) (ba_events b)" "distinct (map ev_eventId (ba_events b))"
    "\<forall>e \<in> set (ba_events b). ev_eventId e \<notin> er_eventId ` set (t_events t)"
    using e v by simp_all
  show "rr_commandId (receiptRowOf b r) \<notin> rr_commandId ` set (t_receipts t)"
    "\<forall>x \<in> set (t_receipts t). \<not> (rr_idempotencyKey x = rr_idempotencyKey (receiptRowOf b r) \<and>
        rr_effectScope x = rr_effectScope (receiptRowOf b r))"
    using t4 e a o(1) by (simp_all add: insertReceiptRow_Inr)
  have "t' = t\<lparr>t_events := t_events t @ numberRows (t_nextSequence t) (ba_events b),
         t_nextSequence := t_nextSequence t + length (ba_events b),
         t_outbox := t_outbox t @ rows, t_audit := t_audit t @ ba_audit b,
         t_receipts := t_receipts t @ [receiptRowOf b r]\<rparr>"
    using t4 e a o(1) by (simp add: insertReceiptRow_Inr)
  then show "\<exists>rows. map ox_taskId rows = map tk_taskId (ba_outbox b) \<and>
       (distinct (map ox_taskId (t_outbox t)) \<longrightarrow> distinct (map ox_taskId (t_outbox t @ rows))) \<and>
       (distinct (map (\<lambda>r. (ox_idempotencyKey r, ox_effectScope r)) (t_outbox t)) \<longrightarrow>
        distinct (map (\<lambda>r. (ox_idempotencyKey r, ox_effectScope r)) (t_outbox t @ rows))) \<and>
       (distinct (map au_auditId (t_audit t)) \<longrightarrow> distinct (map au_auditId (t_audit t @ ba_audit b))) \<and>
       t' = t\<lparr>t_events := t_events t @ numberRows (t_nextSequence t) (ba_events b),
         t_nextSequence := t_nextSequence t + length (ba_events b),
         t_outbox := t_outbox t @ rows, t_audit := t_audit t @ ba_audit b,
         t_receipts := t_receipts t @ [receiptRowOf b r]\<rparr>"
    using o e a by (intro exI [of _ rows]) simp
qed

end
