(* ===== verification/Journal_Invariant.thy ===== *)
theory Journal_Invariant
  imports Journal_Store "HOL-Library.Sublist"
begin

text \<open>
  What the persistence worker keeps of its tables: the invariant \<open>tablesOk\<close>, the step relation
  \<open>journalStep\<close> of handled requests and restarts, and the proof that every step keeps the
  invariant and only lets the file grow.
\<close>

section \<open>The invariant of the tables\<close>

definition streamRows :: "jstring \<Rightarrow> jstring \<Rightarrow> tables \<Rightarrow> eventRow list" where
  "streamRows ty i t = filter (\<lambda>r. er_aggregateType r = ty \<and> er_aggregateId r = i) (t_events t)"

definition eventWf :: "domainEventEnvelope \<Rightarrow> bool" where
  "eventWf e \<longleftrightarrow> json_wf (ev_actor e) \<and> json_wf (ev_payload e)"

definition batchWf :: "journalAppendBatch \<Rightarrow> bool" where
  "batchWf b \<longleftrightarrow> (\<forall>e \<in> set (ba_events b). eventWf e) \<and> 0 \<le> ba_expectedVersion b"

text \<open>A stored row holds an event whose payload hash was checked.\<close>

definition rowOk :: "(jstring \<Rightarrow> jstring) \<Rightarrow> eventRow \<Rightarrow> bool" where
  "rowOk sha row \<longleftrightarrow> (\<exists>e. eventWf e \<and> sha (canon (ev_payload e)) = ev_payloadHash e \<and>
     row = (eventRowOf e)\<lparr>er_sequence := er_sequence row\<rparr>)"

text \<open>A stored receipt is that of a batch whose events are in its stream, from the expected version on.\<close>

definition receiptOk :: "(jstring \<Rightarrow> jstring) \<Rightarrow> tables \<Rightarrow> receiptRow \<Rightarrow> bool" where
  "receiptOk sha t row \<longleftrightarrow> (\<exists>b. batchWf b \<and>
     row = receiptRowOf b (makeReceipt sha b (ba_expectedVersion b)) \<and>
     map er_eventJson (take (length (ba_events b)) (drop (nat (ba_expectedVersion b))
       (streamRows (ba_aggregateType b) (ba_aggregateId b) t))) =
       map (\<lambda>e. canon (eventJson e)) (ba_events b))"

definition tablesOk :: "(jstring \<Rightarrow> jstring) \<Rightarrow> tables \<Rightarrow> bool" where
  "tablesOk sha t \<longleftrightarrow>
     1 \<le> t_nextSequence t \<and> map er_sequence (t_events t) = [1..<t_nextSequence t] \<and>
     distinct (map er_eventId (t_events t)) \<and>
     (\<forall>ty i. map er_aggregateVersion (streamRows ty i t) =
        map int [1..<Suc (length (streamRows ty i t))]) \<and>
     (\<forall>row \<in> set (t_events t). rowOk sha row) \<and>
     distinct (map rr_commandId (t_receipts t)) \<and>
     distinct (map (\<lambda>r. (rr_idempotencyKey r, rr_effectScope r)) (t_receipts t)) \<and>
     (\<forall>row \<in> set (t_receipts t). receiptOk sha t row) \<and>
     distinct (map ox_taskId (t_outbox t)) \<and>
     distinct (map (\<lambda>r. (ox_idempotencyKey r, ox_effectScope r)) (t_outbox t)) \<and>
     distinct (map au_auditId (t_audit t)) \<and>
     distinct (map ib_resultId (t_inbox t)) \<and> distinct (map ib_taskId (t_inbox t)) \<and>
     distinct (map pc_projectionName (t_checkpoints t))"

lemma tablesOk_empty: "tablesOk sha emptyTables"
  by (simp add: tablesOk_def emptyTables_def streamRows_def)

lemma foldl_max_upto: "foldl max 0 (map int [1..<Suc n]) = int n"
  by (induction n) auto

lemma currentAggregateVersion_stream:
  "tablesOk sha t \<Longrightarrow> currentAggregateVersion ty i t = int (length (streamRows ty i t))"
  unfolding currentAggregateVersion_def streamRows_def [symmetric] tablesOk_def
  by (simp only: foldl_max_upto)

lemma eventsFit_rows:
  "eventsFit sha b v es \<Longrightarrow>
     map ev_aggregateVersion es = map (\<lambda>k. v + int k) [1..<Suc (length es)] \<and>
     (\<forall>e \<in> set es. ev_aggregateType e = ba_aggregateType b \<and> ev_aggregateId e = ba_aggregateId b \<and>
        sha (canon (ev_payload e)) = ev_payloadHash e)"
proof (induction sha b v es rule: eventsFit.induct)
  case (2 sha b v e es)
  have "map (\<lambda>k. v + int k) [1..<Suc (length (e # es))] =
      (v + 1) # map (\<lambda>k. v + int k) (map Suc [1..<Suc (length es)])"
    unfolding map_Suc_upt by (simp add: upt_rec)
  with 2 show ?case by (simp add: comp_def algebra_simps del: upt_Suc)
qed simp

lemma streamRows_append:
  assumes "eventsFit sha b v es"
  shows "streamRows ty i (t\<lparr>t_events := t_events t @ numberRows n es, t_nextSequence := m,
      t_outbox := ox, t_audit := au, t_receipts := rr\<rparr>) =
    (if ty = ba_aggregateType b \<and> i = ba_aggregateId b then streamRows ty i t @ numberRows n es
     else streamRows ty i t)"
proof -
  have *: "r \<in> set (numberRows n es) \<Longrightarrow>
      er_aggregateType r = ba_aggregateType b \<and> er_aggregateId r = ba_aggregateId b" for r
    using eventsFit_rows [OF assms] numberRows_set [of r n es] by auto
  then have "filter (\<lambda>r. er_aggregateType r = ty \<and> er_aggregateId r = i) (numberRows n es) =
      (if ty = ba_aggregateType b \<and> i = ba_aggregateId b then numberRows n es else [])"
    by (auto simp: filter_id_conv filter_empty_conv)
  then show ?thesis by (simp add: streamRows_def)
qed

lemma upt_split: "k \<le> n \<Longrightarrow> [k..<n + m] = [k..<n] @ [n..<n + m]"
  by (rule upt_add_eq_append)

lemma map_shift_upt: "map (\<lambda>k. n + k) [1..<Suc m] = [Suc n..<Suc (n + m)]"
  by (induction m) simp_all

lemma take_drop_prefix:
  "n + k \<le> length xs \<Longrightarrow> take k (drop n (xs @ ys)) = take k (drop n xs)"
  by simp

lemma receiptOk_append:
  assumes "receiptOk sha t row" "\<And>ty i. \<exists>zs. streamRows ty i t' = streamRows ty i t @ zs"
  shows "receiptOk sha t' row"
proof -
  obtain b where b: "batchWf b" "row = receiptRowOf b (makeReceipt sha b (ba_expectedVersion b))"
     "map er_eventJson (take (length (ba_events b)) (drop (nat (ba_expectedVersion b))
       (streamRows (ba_aggregateType b) (ba_aggregateId b) t))) =
       map (\<lambda>e. canon (eventJson e)) (ba_events b)"
    using assms(1) unfolding receiptOk_def by blast
  obtain zs where zs: "streamRows (ba_aggregateType b) (ba_aggregateId b) t' =
      streamRows (ba_aggregateType b) (ba_aggregateId b) t @ zs" using assms(2) by blast
  have "length (take (length (ba_events b)) (drop (nat (ba_expectedVersion b))
       (streamRows (ba_aggregateType b) (ba_aggregateId b) t))) = length (ba_events b)"
    using b(3) by (metis length_map)
  then have "length (ba_events b) = 0 \<or> nat (ba_expectedVersion b) + length (ba_events b) \<le>
      length (streamRows (ba_aggregateType b) (ba_aggregateId b) t)"
    by (simp del: length_0_conv) linarith
  then have "map er_eventJson (take (length (ba_events b)) (drop (nat (ba_expectedVersion b))
       (streamRows (ba_aggregateType b) (ba_aggregateId b) t'))) =
       map (\<lambda>e. canon (eventJson e)) (ba_events b)"
    using b(3) unfolding zs by auto
  then show ?thesis using b unfolding receiptOk_def by blast
qed

lemma numberRows_ok:
  assumes "eventsFit sha b v es" "\<And>e. e \<in> set es \<Longrightarrow> eventWf e" "row \<in> set (numberRows n es)"
  shows "rowOk sha row"
proof -
  obtain e k where "e \<in> set es" "row = (eventRowOf e)\<lparr>er_sequence := k\<rparr>"
    using numberRows_set [OF assms(3)] by blast
  then show ?thesis
    using assms(2) eventsFit_rows [OF assms(1)]
    unfolding rowOk_def by (intro exI [of _ e]) simp
qed

lemma appendBatch_ok:
  assumes ok: "tablesOk sha t" and b: "batchWf b" and a: "appendBatch sha b t = Inr (r, t')"
  shows "tablesOk sha t'"
proof -
  note e = appendBatch_Inr [OF a]
  let ?S = "streamRows (ba_aggregateType b) (ba_aggregateId b) t"
  obtain rows where rows:
    "distinct (map ox_taskId (t_outbox t)) \<longrightarrow> distinct (map ox_taskId (t_outbox t @ rows))"
    "distinct (map (\<lambda>r. (ox_idempotencyKey r, ox_effectScope r)) (t_outbox t)) \<longrightarrow>
        distinct (map (\<lambda>r. (ox_idempotencyKey r, ox_effectScope r)) (t_outbox t @ rows))"
    "distinct (map au_auditId (t_audit t)) \<longrightarrow> distinct (map au_auditId (t_audit t @ ba_audit b))"
    "t' = t\<lparr>t_events := t_events t @ numberRows (t_nextSequence t) (ba_events b),
         t_nextSequence := t_nextSequence t + length (ba_events b),
         t_outbox := t_outbox t @ rows, t_audit := t_audit t @ ba_audit b,
         t_receipts := t_receipts t @ [receiptRowOf b r]\<rparr>"
    using e(8) by blast
  have v: "ba_expectedVersion b = int (length ?S)"
    using e(1) currentAggregateVersion_stream [OF ok] by simp
  have S': "streamRows ty i t' = (if ty = ba_aggregateType b \<and> i = ba_aggregateId b
      then streamRows ty i t @ numberRows (t_nextSequence t) (ba_events b) else streamRows ty i t)" for ty i
    unfolding rows(4) by (rule streamRows_append [OF e(3)])
  have versions: "map er_aggregateVersion (streamRows ty i t') =
      map int [1..<Suc (length (streamRows ty i t'))]" for ty i
  proof (cases "ty = ba_aggregateType b \<and> i = ba_aggregateId b")
    case True
    have "map er_aggregateVersion ?S = map int [1..<Suc (length ?S)]"
      using ok by (simp add: tablesOk_def)
    moreover have "map ev_aggregateVersion (ba_events b) =
        map int (map (\<lambda>k. length ?S + k) [1..<Suc (length (ba_events b))])"
      using eventsFit_rows [OF e(3)] v by (simp add: comp_def del: upt_Suc)
    moreover have "map (\<lambda>k. length ?S + k) [1..<Suc (length (ba_events b))] =
        [Suc (length ?S)..<Suc (length ?S + length (ba_events b))]"
      by (rule map_shift_upt)
    moreover have "[1..<Suc (length ?S)] @ [Suc (length ?S)..<Suc (length ?S + length (ba_events b))] =
        [1..<Suc (length ?S + length (ba_events b))]"
      using upt_split [of 1 "Suc (length ?S)"] by (simp del: upt_Suc)
    ultimately have "map er_aggregateVersion ?S @ map ev_aggregateVersion (ba_events b) =
        map int [1..<Suc (length ?S + length (ba_events b))]"
      by (simp only: map_append [symmetric])
    then show ?thesis using True by (simp add: S' del: upt_Suc)
  next
    case False
    then have "streamRows ty i t' = streamRows ty i t" by (auto simp: S')
    then show ?thesis using ok by (simp add: tablesOk_def del: upt_Suc)
  qed
  have "receiptOk sha t' row" if row: "row \<in> set (t_receipts t')" for row
  proof (cases "row \<in> set (t_receipts t)")
    case True
    then have "receiptOk sha t row" using ok by (simp add: tablesOk_def)
    then show ?thesis by (rule receiptOk_append) (simp add: S')
  next
    case False
    then have "row = receiptRowOf b (makeReceipt sha b (ba_expectedVersion b))"
      using row rows(4) e(2) by auto
    moreover have "take (length (ba_events b)) (drop (nat (ba_expectedVersion b))
       (streamRows (ba_aggregateType b) (ba_aggregateId b) t')) = numberRows (t_nextSequence t) (ba_events b)"
      by (simp add: S' v)
    ultimately show ?thesis using b unfolding receiptOk_def by (intro exI [of _ b]) simp
  qed
  moreover have "\<forall>row \<in> set (t_events t'). rowOk sha row"
    using ok numberRows_ok [OF e(3)] b rows(4) by (auto simp: tablesOk_def batchWf_def)
  moreover have "distinct (map er_eventId (t_events t'))"
  proof -
    have "set (map ev_eventId (ba_events b)) \<inter> set (map er_eventId (t_events t)) = {}"
      using e(5) by auto
    moreover have "map er_eventId (t_events t') = map er_eventId (t_events t) @ map ev_eventId (ba_events b)"
      using rows(4) by simp
    ultimately show ?thesis using ok e(4) unfolding tablesOk_def by (simp only: distinct_append) blast
  qed
  moreover have "map er_sequence (t_events t') = [1..<t_nextSequence t']"
    using ok rows(4) by (simp add: tablesOk_def upt_split [symmetric])
  moreover have "distinct (map (\<lambda>r. (rr_idempotencyKey r, rr_effectScope r)) (t_receipts t'))"
    "distinct (map rr_commandId (t_receipts t'))"
    using ok e(6,7) rows(4) by (auto simp: tablesOk_def)
  moreover have "t_inbox t' = t_inbox t" "t_checkpoints t' = t_checkpoints t"
    "1 \<le> t_nextSequence t'" "t_outbox t' = t_outbox t @ rows" "t_audit t' = t_audit t @ ba_audit b"
    using ok rows(4) by (simp_all add: tablesOk_def)
  ultimately show ?thesis
    using ok versions rows(1-3) by (simp add: tablesOk_def)
qed

section \<open>What an action does to the tables\<close>

text \<open>No row of a journal table disappears or changes; checkpoints only move forward.\<close>

definition grows :: "tables \<Rightarrow> tables \<Rightarrow> bool" where
  "grows t t' \<longleftrightarrow> prefix (t_events t) (t_events t') \<and> prefix (t_receipts t) (t_receipts t') \<and>
     prefix (t_outbox t) (t_outbox t') \<and> prefix (t_audit t) (t_audit t') \<and>
     prefix (t_inbox t) (t_inbox t') \<and>
     (\<forall>c \<in> set (t_checkpoints t). \<exists>c' \<in> set (t_checkpoints t').
        pc_projectionName c' = pc_projectionName c \<and> pc_sourceSequence c \<le> pc_sourceSequence c')"

lemma grows_refl [simp]: "grows t t"
  by (auto simp: grows_def)

lemma grows_trans [trans]: "grows t t' \<Longrightarrow> grows t' t'' \<Longrightarrow> grows t t''"
  unfolding grows_def by (intro conjI ballI; elim conjE) (meson prefix_order.trans | metis order_trans)+

lemma appendBatch_grows:
  assumes "appendBatch sha b t = Inr (r, t')" shows "grows t t'"
proof -
  obtain rows where "t' = t\<lparr>t_events := t_events t @ numberRows (t_nextSequence t) (ba_events b),
         t_nextSequence := t_nextSequence t + length (ba_events b),
         t_outbox := t_outbox t @ rows, t_audit := t_audit t @ ba_audit b,
         t_receipts := t_receipts t @ [receiptRowOf b r]\<rparr>"
    using appendBatch_Inr(8) [OF assms] by blast
  then show ?thesis by (auto simp: grows_def)
qed

lemma stored_receipt:
  assumes "receiptOk sha t row"
  shows "\<exists>r. rr_receiptJson row = canon (receiptJson r) \<and> parseReceipt (rr_receiptJson row) = Inr r"
proof -
  obtain b where "row = receiptRowOf b (makeReceipt sha b (ba_expectedVersion b))"
    using assms unfolding receiptOk_def by blast
  then show ?thesis
    using receipt_text_read_back [of "makeReceipt sha b (ba_expectedVersion b)"]
    by (auto simp: receiptRowOf_def parseReceipt_def split: option.splits)
qed

lemma commitAction_ok:
  assumes "tablesOk sha t" "batchWf b" "commitAction sha b t = Inr (r, t')"
  shows "tablesOk sha t'" "grows t t'"
  using assms appendBatch_ok [of sha t b r t'] appendBatch_grows [of sha b t r t']
  by (auto simp: commitAction_def split: option.splits)

lemma inboxAction_ok:
  assumes "tablesOk sha t" "inboxAction i t = Inr (r, t')"
  shows "tablesOk sha t'" "grows t t'"
proof -
  have "t' = t \<or> (\<exists>row. insertInboxRow row t = Inr t')"
    using assms(2) by (auto simp: inboxAction_def split: list.splits if_splits)
  moreover have "tablesOk sha t' \<and> grows t t'" if "insertInboxRow row t = Inr t'" for row
  proof -
    have t': "t' = t\<lparr>t_inbox := t_inbox t @ [row]\<rparr>" "ib_resultId row \<notin> ib_resultId ` set (t_inbox t)"
      "ib_taskId row \<notin> ib_taskId ` set (t_inbox t)"
      using that by (simp_all add: insertInboxRow_Inr)
    then have "streamRows ty i t' = streamRows ty i t" for ty i by (simp add: streamRows_def)
    then show ?thesis using assms(1) t'
      by (auto simp: tablesOk_def grows_def receiptOk_def simp del: upt_Suc)
  qed
  ultimately show "tablesOk sha t'" "grows t t'" using assms(1) by auto
qed

lemma findCheckpoint_None: "findCheckpoint n t = None \<longleftrightarrow> n \<notin> pc_projectionName ` set (t_checkpoints t)"
  by (auto simp: findCheckpoint_def find_None_iff)

lemma findCheckpoint_Some:
  "findCheckpoint n t = Some c \<Longrightarrow> c \<in> set (t_checkpoints t) \<and> pc_projectionName c = n"
  by (auto simp: findCheckpoint_def find_Some_iff)

lemma findCheckpoint_unique:
  assumes "distinct (map pc_projectionName (t_checkpoints t))" "c \<in> set (t_checkpoints t)"
  shows "findCheckpoint (pc_projectionName c) t = Some c"
proof (cases "findCheckpoint (pc_projectionName c) t")
  case None
  with assms(2) show ?thesis by (auto simp: findCheckpoint_None)
next
  case (Some d)
  then show ?thesis
    using assms findCheckpoint_Some [OF Some] by (auto simp: distinct_map dest: inj_onD)
qed

lemma checkpointAction_tables:
  assumes "checkpointAction c t = Inr (r, t')"
  shows "r = c" "findCheckpoint (pc_projectionName c) t = None \<or>
      (\<exists>d. findCheckpoint (pc_projectionName c) t = Some d \<and> pc_sourceSequence d \<le> pc_sourceSequence c)"
    "t' = t\<lparr>t_checkpoints := if pc_projectionName c \<in> pc_projectionName ` set (t_checkpoints t)
        then map (\<lambda>x. if pc_projectionName x = pc_projectionName c then c else x) (t_checkpoints t)
        else t_checkpoints t @ [c]\<rparr>"
  using assms unfolding checkpointAction_def upsertCheckpoint_def list_ex_field
  by (auto split: if_splits option.splits)

lemma checkpointAction_ok:
  assumes ok: "tablesOk sha t" and c: "checkpointAction c t = Inr (r, t')"
  shows "tablesOk sha t'" "grows t t'"
proof -
  note t' = checkpointAction_tables [OF c]
  let ?n = "pc_projectionName c"
  have names: "map pc_projectionName (map (\<lambda>x. if pc_projectionName x = ?n then c else x) (t_checkpoints t)) =
      map pc_projectionName (t_checkpoints t)" by (induction "t_checkpoints t") auto
  have "distinct (map pc_projectionName (t_checkpoints t'))"
    using ok names unfolding t'(3) by (auto simp: tablesOk_def simp del: map_map)
  moreover have "streamRows ty i t' = streamRows ty i t" for ty i
    unfolding t'(3) by (simp add: streamRows_def)
  ultimately show "tablesOk sha t'"
    using ok unfolding t'(3) by (auto simp: tablesOk_def receiptOk_def simp del: upt_Suc)
  have "\<exists>c' \<in> set (t_checkpoints t'). pc_projectionName c' = pc_projectionName d \<and>
      pc_sourceSequence d \<le> pc_sourceSequence c'" if d: "d \<in> set (t_checkpoints t)" for d
  proof (cases "pc_projectionName d = ?n")
    case True
    then have "findCheckpoint ?n t = Some d"
      using ok d findCheckpoint_unique [of t d] by (simp add: tablesOk_def)
    moreover have "c \<in> set (t_checkpoints t')" using d True unfolding t'(3) by auto
    ultimately show ?thesis using t'(2) True by auto
  next
    case False
    then have "d \<in> set (t_checkpoints t')" using d unfolding t'(3) by auto
    then show ?thesis by auto
  qed
  then show "grows t t'" unfolding grows_def by (simp add: t'(3))
qed

section \<open>Steps of the worker\<close>

definition requestWf :: "request \<Rightarrow> bool" where
  "requestWf req = (case req of ReqCommit b \<Rightarrow> batchWf b | ReqArmCrash b \<Rightarrow> batchWf b | _ \<Rightarrow> True)"

text \<open>A request is handled, or the process is lost and a new worker opens the file.\<close>

inductive journalStep :: "(jstring \<Rightarrow> jstring) \<Rightarrow> worker \<Rightarrow> worker \<Rightarrow> bool" for sha where
  Handle: "requestWf req \<Longrightarrow> handle sha req w = (reply, w') \<Longrightarrow> journalStep sha w w'"
| Restart: "journalStep sha w (openWorker (w_file w))"

inductive_cases journalStepE: "journalStep sha w w'"

abbreviation journalSteps :: "(jstring \<Rightarrow> jstring) \<Rightarrow> worker \<Rightarrow> worker \<Rightarrow> bool" where
  "journalSteps sha \<equiv> (journalStep sha)\<^sup>*\<^sup>*"

definition reachableWorker :: "(jstring \<Rightarrow> jstring) \<Rightarrow> worker \<Rightarrow> bool" where
  "reachableWorker sha w = journalSteps sha (openWorker emptyTables) w"

definition workerOk :: "(jstring \<Rightarrow> jstring) \<Rightarrow> worker \<Rightarrow> bool" where
  "workerOk sha w \<longleftrightarrow> tablesOk sha (w_file w) \<and>
     \<not> (w_writeLockHeld w \<and> w_crashTransactionArmed w) \<and>
     (w_open w \<longrightarrow> (w_transaction w \<noteq> None) = (w_writeLockHeld w \<or> w_crashTransactionArmed w)) \<and>
     (\<not> w_open w \<longrightarrow> w_transaction w = None) \<and>
     (\<forall>t. w_transaction w = Some t \<longrightarrow> tablesOk sha t \<and> grows (w_file w) t \<and>
        t_receipts t = t_receipts (w_file w))"

lemma workerOk_open [simp]: "workerOk sha (openWorker t) \<longleftrightarrow> tablesOk sha t"
  by (auto simp: workerOk_def openWorker_def)

lemma runTransaction_cases:
  assumes "runTransaction action w = (reply, w')"
  obtains (failed) e where "reply = Inl e" "w' = w"
  | (committed) x t where "reply = Inr x" "w_open w" "w_transaction w = None"
      "action (w_file w) = Inr (x, t)" "w' = w\<lparr>w_file := t\<rparr>"
  using assms by (auto simp: runTransaction_def split: if_splits sum.splits prod.splits)

lemma mapReply_snd [simp]: "snd (mapReply f rw) = snd rw"
  by (simp add: mapReply_def split: prod.splits)

lemma mapReply_pair: "mapReply f rw = (reply, w') \<longleftrightarrow> w' = snd rw \<and> reply = bindE (fst rw) (\<lambda>x. Inr (f x))"
  by (cases rw) (auto simp: mapReply_def)

lemma commitBatch_cases:
  assumes "commitBatch sha b w = (reply, w')"
  obtains (failed) e where "reply = Inl e" "w' = w"
  | (duplicate) row where "w_open w" "findCommandDuplicate (ba_identity b) (visible w) = Inr (Some row)"
      "reply = parseReceipt (rr_receiptJson row)" "w' = w"
  | (fresh) r t where "w_open w" "w_transaction w = None"
      "findCommandDuplicate (ba_identity b) (w_file w) = Inr None" "verifyOutbox sha b = Inr ()"
      "appendBatch sha b (w_file w) = Inr (r, t)" "reply = Inr r" "w' = w\<lparr>w_file := t\<rparr>"
proof (cases "onDatabase (findCommandDuplicate (ba_identity b)) w")
  case (Inl e)
  then have "reply = Inl e" "w' = w" using assms by (simp_all add: commitBatch_def)
  then show thesis by (rule failed)
next
  case (Inr d)
  then have d: "w_open w" "findCommandDuplicate (ba_identity b) (visible w) = Inr d"
    by (auto simp: onDatabase_def split: if_splits)
  show thesis
  proof (cases d)
    case (Some row)
    with assms Inr have "reply = parseReceipt (rr_receiptJson row)" "w' = w"
      by (simp_all add: commitBatch_def)
    then show thesis using duplicate [of row] d Some by simp
  next
    case None
    show thesis
    proof (cases "verifyOutbox sha b")
      case (Inl e)
      then have "reply = Inl e" "w' = w" using assms Inr None by (simp_all add: commitBatch_def)
      then show thesis by (rule failed)
    next
      case v: (Inr u)
      with assms Inr None have "runTransaction (commitAction sha b) w = (reply, w')"
        by (simp add: commitBatch_def)
      then show thesis
      proof (cases rule: runTransaction_cases)
        case (failed e)
        then show thesis by (rule that(1))
      next
        case (committed r t)
        with d(2) None have "findCommandDuplicate (ba_identity b) (w_file w) = Inr None"
          by (simp add: visible_def)
        then show thesis using committed v fresh by (simp add: commitAction_def)
      qed
    qed
  qed
qed

lemma workerOk_file:
  assumes "workerOk sha w" "w_open w" "w_transaction w = None" "tablesOk sha t"
  shows "workerOk sha (w\<lparr>w_file := t\<rparr>)"
  using assms by (auto simp: workerOk_def)

lemma commitBatch_step:
  assumes "workerOk sha w" "batchWf b" "commitBatch sha b w = (reply, w')"
  shows "workerOk sha w' \<and> grows (w_file w) (w_file w')"
  using assms(3)
proof (cases rule: commitBatch_cases)
  case (fresh r t)
  have "tablesOk sha (w_file w)" using assms(1) by (simp add: workerOk_def)
  then show ?thesis
    using fresh workerOk_file [OF assms(1)] appendBatch_ok assms(2) appendBatch_grows by simp
qed (use assms(1) in simp_all)

lemma runTransaction_step:
  assumes "workerOk sha w" "runTransaction action w = (reply, w')"
    "\<And>x t'. action (w_file w) = Inr (x, t') \<Longrightarrow> tablesOk sha t' \<and> grows (w_file w) t'"
  shows "workerOk sha w' \<and> grows (w_file w) (w_file w')"
  using assms(2)
proof (cases rule: runTransaction_cases)
  case (committed x t)
  then show ?thesis using workerOk_file [OF assms(1)] assms(3) by simp
qed (use assms(1) in simp)

text \<open>The row that the crash probe inserts keeps the tables in order.\<close>

lemma armCrash_cases:
  assumes "armCrash sha b w = (reply, w')"
  obtains (same) e where "reply = Inl e" "w' = w"
  | (nested) e where "reply = Inl e" "w' = w\<lparr>w_transaction := None\<rparr>" "w_transaction w \<noteq> None"
      "\<not> w_writeLockHeld w" "\<not> w_crashTransactionArmed w" "w_open w"
  | (armed) event t where "reply = Inr ()" "w' = w\<lparr>w_transaction := Some t, w_crashTransactionArmed := True\<rparr>"
      "\<not> w_writeLockHeld w" "\<not> w_crashTransactionArmed w" "w_open w" "w_transaction w = None"
      "armCrashChecks sha b (w_file w) = Inr event" "insertEventRow (eventRowOf event) (w_file w) = Inr t"
  using assms
  by (auto simp: armCrash_def qualificationBusy_def internal_def onDatabase_def visible_def split: if_splits sum.splits option.splits)

lemma armCrashChecks_Inr:
  "armCrashChecks sha b t = Inr e \<Longrightarrow>
     currentAggregateVersion (ba_aggregateType b) (ba_aggregateId b) t = ba_expectedVersion b \<and>
     (\<exists>es. ba_events b = e # es) \<and> eventsFit sha b (ba_expectedVersion b) [e]"
  by (auto simp: armCrashChecks_def Let_def verifyEvent_Inr split: if_splits list.splits)

lemma insertEvent_ok:
  assumes ok: "tablesOk sha t" and e: "eventWf e" "eventsFit sha b (int (length (streamRows (ba_aggregateType b) (ba_aggregateId b) t))) [e]"
    and t': "insertEventRow (eventRowOf e) t = Inr t'"
  shows "tablesOk sha t' \<and> grows t t'"
proof -
  let ?S = "streamRows (ba_aggregateType b) (ba_aggregateId b) t"
  have new: "ev_eventId e \<notin> er_eventId ` set (t_events t)"
    and t'': "t' = t\<lparr>t_events := t_events t @ [(eventRowOf e)\<lparr>er_sequence := t_nextSequence t\<rparr>],
      t_nextSequence := Suc (t_nextSequence t)\<rparr>"
    using t' by (simp_all add: insertEventRow_Inr)
  have S': "streamRows ty i t' = (if ty = ba_aggregateType b \<and> i = ba_aggregateId b
      then streamRows ty i t @ [(eventRowOf e)\<lparr>er_sequence := t_nextSequence t\<rparr>] else streamRows ty i t)" for ty i
    using streamRows_append [OF e(2), where ty = ty and i = i and t = t and n = "t_nextSequence t" and m = "Suc (t_nextSequence t)" and
        ox = "t_outbox t" and rr = "t_receipts t" and au = "t_audit t"]
    by (simp add: t'' streamRows_def)
  have "map er_aggregateVersion (streamRows ty i t') = map int [1..<Suc (length (streamRows ty i t'))]" for ty i
  proof -
    have "map er_aggregateVersion (streamRows ty i t) = map int [1..<Suc (length (streamRows ty i t))]"
      using ok by (simp add: tablesOk_def)
    then show ?thesis using e(2) unfolding S' by (cases "ty = ba_aggregateType b \<and> i = ba_aggregateId b") auto
  qed
  moreover have "receiptOk sha t' row" if row: "row \<in> set (t_receipts t')" for row
  proof -
    have "receiptOk sha t row" using ok row by (simp add: tablesOk_def t'')
    then show ?thesis by (rule receiptOk_append) (simp add: S')
  qed
  moreover have "rowOk sha ((eventRowOf e)\<lparr>er_sequence := t_nextSequence t\<rparr>)"
    using e unfolding rowOk_def by (intro exI [of _ e]) simp
  moreover have "map er_sequence (t_events t') = [1..<t_nextSequence t']"
    using ok by (simp add: t'' tablesOk_def)
  ultimately have "tablesOk sha t'" using ok new by (simp add: tablesOk_def t'' del: upt_Suc)
  then show ?thesis by (auto simp: grows_def t'')
qed

lemma armCrash_step:
  assumes w: "workerOk sha w" and b: "batchWf b" and a: "armCrash sha b w = (reply, w')"
  shows "workerOk sha w' \<and> w_file w' = w_file w"
  using a
proof (cases rule: armCrash_cases)
  case (same e)
  then show ?thesis using w by simp
next
  case (nested e)
  then show ?thesis using w by (auto simp: workerOk_def)
next
  case (armed event t)
  have ok: "tablesOk sha (w_file w)" using w by (simp add: workerOk_def)
  note c = armCrashChecks_Inr [OF armed(7)]
  then have "eventWf event" using b by (auto simp: batchWf_def)
  then have "tablesOk sha t \<and> grows (w_file w) t"
    using insertEvent_ok [OF ok _ _ armed(8), of b] c currentAggregateVersion_stream [OF ok] by simp
  moreover have "t_receipts t = t_receipts (w_file w)" using armed(8) by (simp add: insertEventRow_Inr)
  ultimately show ?thesis using w armed by (auto simp: workerOk_def)
qed

lemma holdLock_step:
  "workerOk sha w \<Longrightarrow> workerOk sha (snd (holdLock w)) \<and> w_file (snd (holdLock w)) = w_file w"
  unfolding workerOk_def holdLock_def
  by (cases "w_transaction w"; cases "w_open w"; cases "w_writeLockHeld w"; cases "w_crashTransactionArmed w") simp_all

lemma releaseLock_step:
  "workerOk sha w \<Longrightarrow> workerOk sha (snd (releaseLock w)) \<and> w_file (snd (releaseLock w)) = w_file w"
  unfolding workerOk_def releaseLock_def rollback_def
  by (cases "w_transaction w"; cases "w_open w"; cases "w_writeLockHeld w"; cases "w_crashTransactionArmed w") simp_all

lemma closeDatabase_step:
  "workerOk sha w \<Longrightarrow> workerOk sha (snd (closeDatabase w)) \<and> w_file (snd (closeDatabase w)) = w_file w"
  unfolding workerOk_def closeDatabase_def rollback_def Let_def
  by (cases "w_transaction w"; cases "w_open w"; cases "w_writeLockHeld w"; cases "w_crashTransactionArmed w") simp_all

lemma handle_step:
  assumes w: "workerOk sha w" and r: "requestWf req" and h: "handle sha req w = (reply, w')"
  shows "workerOk sha w' \<and> grows (w_file w) (w_file w')"
proof -
  have ok: "tablesOk sha (w_file w)" using w by (simp add: workerOk_def)
  show ?thesis
  proof (cases req)
    case (ReqArmCrash b)
    then show ?thesis
      using h r armCrash_step [OF w, of b "fst (armCrash sha b w)" w'] by (auto simp: mapReply_pair requestWf_def)
  next
    case ReqClose
    then show ?thesis using h closeDatabase_step [OF w] by (auto simp: mapReply_pair)
  next
    case (ReqCommit b)
    then show ?thesis
      using h r commitBatch_step [OF w, of b "fst (commitBatch sha b w)" w'] by (auto simp: mapReply_pair requestWf_def)
  next
    case ReqHoldLock
    then show ?thesis using h holdLock_step [OF w] by (auto simp: mapReply_pair)
  next
    case ReqReleaseLock
    then show ?thesis using h releaseLock_step [OF w] by (auto simp: mapReply_pair)
  next
    case (ReqRecordInbox i)
    then have "runTransaction (inboxAction i) w = (fst (runTransaction (inboxAction i) w), w')"
      using h by (auto simp: mapReply_pair)
    then show ?thesis by (rule runTransaction_step [OF w]) (use inboxAction_ok [OF ok] in blast)
  next
    case (ReqSaveCheckpoint c)
    then have "runTransaction (checkpointAction c) w = (fst (runTransaction (checkpointAction c) w), w')"
      using h by (auto simp: mapReply_pair)
    then show ?thesis by (rule runTransaction_step [OF w]) (use checkpointAction_ok [OF ok] in blast)
  qed (use h w in \<open>auto simp: mapReply_pair\<close>)
qed

lemma journalStep_ok:
  assumes "workerOk sha w" "journalStep sha w w'"
  shows "workerOk sha w' \<and> grows (w_file w) (w_file w')"
  using assms(2)
proof (rule journalStepE)
  fix req reply
  assume "requestWf req" "handle sha req w = (reply, w')"
  then show ?thesis by (rule handle_step [OF assms(1)])
next
  assume "w' = openWorker (w_file w)"
  then show ?thesis using assms(1) by (simp add: workerOk_def openWorker_def)
qed

lemma journalSteps_ok:
  assumes "journalSteps sha w w'" "workerOk sha w"
  shows "workerOk sha w' \<and> grows (w_file w) (w_file w')"
  using assms by (induction rule: rtranclp_induct) (auto dest: journalStep_ok intro: grows_trans)

lemma reachable_ok: "reachableWorker sha w \<Longrightarrow> workerOk sha w"
  unfolding reachableWorker_def by (drule journalSteps_ok) (simp_all add: tablesOk_empty)

lemma reachable_visible: "reachableWorker sha w \<Longrightarrow> tablesOk sha (w_file w) \<and> tablesOk sha (visible w)"
  by (drule reachable_ok) (auto simp: workerOk_def visible_def split: option.splits)

end
