(* ===== verification/Journal_Properties.thy ===== *)
theory Journal_Properties
  imports Journal_Invariant
begin

text \<open>
  The properties that hold in every reachable persistence worker: a committed command stays
  committed and is answered with its receipt, a fresh command is accepted exactly when it fits the
  end of its stream, versions are consecutive, what was committed is what is read, and a transaction
  that is not committed leaves no trace in the file.
\<close>

section \<open>Properties\<close>

text \<open>Two receipts of a journal never share a command, nor an idempotency key in one scope.\<close>

definition sameIdentity :: "commandIdentity \<Rightarrow> receiptRow \<Rightarrow> bool" where
  "sameIdentity i row \<longleftrightarrow> rr_commandId row = id_commandId i \<and> rr_idempotencyKey row = id_idempotencyKey i \<and>
     rr_effectScope row = id_effectScope i \<and> rr_payloadHash row = id_payloadHash i"

definition sharesIdentity :: "commandIdentity \<Rightarrow> receiptRow \<Rightarrow> bool" where
  "sharesIdentity i row \<longleftrightarrow> rr_commandId row = id_commandId i \<or>
     (rr_idempotencyKey row = id_idempotencyKey i \<and> rr_effectScope row = id_effectScope i)"

lemma filter_single:
  assumes "distinct xs" "x \<in> set xs" "P x" "\<And>y. y \<in> set xs \<Longrightarrow> P y \<Longrightarrow> y = x"
  shows "filter P xs = [x]"
proof -
  have "filter P xs = filter (\<lambda>y. y = x) xs" by (rule filter_cong [OF refl]) (metis assms(3,4))
  also have "\<dots> = [x]" using assms(1,2) by (induction xs) (auto simp: filter_empty_conv)
  finally show ?thesis .
qed

lemma findCommandDuplicate_stored:
  assumes "tablesOk sha t" "row \<in> set (t_receipts t)" "sameIdentity i row"
  shows "findCommandDuplicate i t = Inr (Some row)"
proof -
  have d: "distinct (map rr_commandId (t_receipts t))"
    "distinct (map (\<lambda>r. (rr_idempotencyKey r, rr_effectScope r)) (t_receipts t))"
    using assms(1) by (simp_all add: tablesOk_def)
  have "filter (\<lambda>r. rr_commandId r = id_commandId i \<or>
      (rr_idempotencyKey r = id_idempotencyKey i \<and> rr_effectScope r = id_effectScope i)) (t_receipts t) = [row]"
    by (rule filter_single) (use d assms(2,3) in \<open>auto simp: distinct_map inj_on_def sameIdentity_def\<close>)
  then show ?thesis using assms(3) by (simp add: findCommandDuplicate_def sameIdentity_def Let_def)
qed

lemma findCommandDuplicate_None:
  "findCommandDuplicate i t = Inr None \<longleftrightarrow> (\<forall>row \<in> set (t_receipts t). \<not> sharesIdentity i row)"
proof -
  have "findCommandDuplicate i t = Inr None \<longleftrightarrow> filter (sharesIdentity i) (t_receipts t) = []"
    unfolding findCommandDuplicate_def sharesIdentity_def by (simp add: Let_def split: list.splits)
  then show ?thesis by (simp add: filter_empty_conv)
qed

lemma findCommandDuplicate_Some:
  assumes "findCommandDuplicate i t = Inr (Some row)"
  shows "row \<in> set (t_receipts t)" "sameIdentity i row"
proof -
  obtain rest where "filter (\<lambda>r. rr_commandId r = id_commandId i \<or>
      (rr_idempotencyKey r = id_idempotencyKey i \<and> rr_effectScope r = id_effectScope i)) (t_receipts t) = row # rest"
    using assms by (auto simp: findCommandDuplicate_def Let_def split: list.splits if_splits)
  then have "row \<in> set (filter (\<lambda>r. rr_commandId r = id_commandId i \<or>
      (rr_idempotencyKey r = id_idempotencyKey i \<and> rr_effectScope r = id_effectScope i)) (t_receipts t))"
    by simp
  then show "row \<in> set (t_receipts t)" by simp
  show "sameIdentity i row"
    using assms by (auto simp: findCommandDuplicate_def Let_def sameIdentity_def split: list.splits if_splits)
qed

lemma findCommandDuplicate_conflict:
  assumes "row \<in> set (t_receipts t)" "sharesIdentity i row" "\<not> sameIdentity i row"
  shows "\<exists>m. findCommandDuplicate i t = Inl (InternalError PERSISTENCE_IDEMPOTENCY_CONFLICT m)"
proof (cases "findCommandDuplicate i t")
  case (Inl e)
  then show ?thesis by (auto simp: findCommandDuplicate_def Let_def internal_def split: list.splits if_splits)
next
  case (Inr d)
  let ?P = "\<lambda>r. rr_commandId r = id_commandId i \<or>
      (rr_idempotencyKey r = id_idempotencyKey i \<and> rr_effectScope r = id_effectScope i)"
  have row: "row \<in> set (filter ?P (t_receipts t))" using assms(1,2) by (simp add: sharesIdentity_def)
  show ?thesis
  proof (cases d)
    case None
    then show ?thesis using Inr assms(1,2) by (simp add: findCommandDuplicate_None)
  next
    case (Some r)
    then have "filter ?P (t_receipts t) = [r]"
      using Inr by (auto simp: findCommandDuplicate_def Let_def split: list.splits if_splits)
    with row have "row = r" by simp
    then show ?thesis using findCommandDuplicate_Some(2) [of i t r] Inr Some assms(3) by simp
  qed
qed

lemma reachable_steps: "reachableWorker sha w \<Longrightarrow> journalSteps sha w w' \<Longrightarrow> reachableWorker sha w'"
  unfolding reachableWorker_def by (rule rtranclp_trans)

lemma visible_receipts: "workerOk sha w \<Longrightarrow> t_receipts (visible w) = t_receipts (w_file w)"
  by (auto simp: workerOk_def visible_def split: option.splits)

lemma visible_ok: "workerOk sha w \<Longrightarrow> tablesOk sha (visible w)"
  by (auto simp: workerOk_def visible_def split: option.splits)

text \<open>A committed command has its receipt in the file.\<close>

lemma committed_receipt:
  assumes w: "workerOk sha w" and c: "commitBatch sha b w = (Inr r, w')"
  shows "\<exists>row \<in> set (t_receipts (w_file w')). sameIdentity (ba_identity b) row \<and>
    parseReceipt (rr_receiptJson row) = Inr r"
  using c
proof (cases rule: commitBatch_cases)
  case (duplicate row)
  then show ?thesis
    using findCommandDuplicate_Some [OF duplicate(2)] visible_receipts [OF w] by auto
next
  case (fresh r' t)
  obtain rows where t: "t = (w_file w)\<lparr>t_events := t_events (w_file w) @ numberRows (t_nextSequence (w_file w)) (ba_events b),
         t_nextSequence := t_nextSequence (w_file w) + length (ba_events b),
         t_outbox := t_outbox (w_file w) @ rows, t_audit := t_audit (w_file w) @ ba_audit b,
         t_receipts := t_receipts (w_file w) @ [receiptRowOf b r']\<rparr>"
    using appendBatch_Inr(8) [OF fresh(5)] by blast
  have "parseReceipt (canon (receiptJson r')) = Inr r'"
    using receipt_text_read_back [of r'] by (auto simp: parseReceipt_def split: option.splits)
  then show ?thesis
    using fresh by (simp add: t receiptRowOf_def sameIdentity_def)
qed simp

lemma commit_found:
  assumes "workerOk sha w" "w_open w" "row \<in> set (t_receipts (w_file w))" "sameIdentity i row"
    "parseReceipt (rr_receiptJson row) = Inr r"
  shows "ba_identity b = i \<Longrightarrow> commitBatch sha b w = (Inr r, w)"
    "onDatabase (lookupCommandReceipt i) w = Inr (Some r)"
proof -
  have "findCommandDuplicate i (visible w) = Inr (Some row)"
    using findCommandDuplicate_stored [OF visible_ok [OF assms(1)] _ assms(4)] assms(3)
    by (simp add: visible_receipts [OF assms(1)])
  then show "ba_identity b = i \<Longrightarrow> commitBatch sha b w = (Inr r, w)"
    "onDatabase (lookupCommandReceipt i) w = Inr (Some r)"
    using assms(2,5) by (simp_all add: commitBatch_def onDatabase_def lookupCommandReceipt_def del: bindE_Inr_iff)
qed

lemma handle_commit:
  "handle sha (ReqCommit b) w = (Inr (ReplyReceipt r), w') \<longleftrightarrow> commitBatch sha b w = (Inr r, w')"
  by (cases "commitBatch sha b w") (auto simp: mapReply_def)

text \<open>C9. A command that was committed stays committed: whatever requests are handled and however
  often the process is lost in between, sending the command again returns the same receipt and
  changes nothing, and looking its identity up finds that receipt.\<close>

theorem commit_idempotent:
  assumes "reachableWorker sha w" "batchWf b"
    "handle sha (ReqCommit b) w = (Inr (ReplyReceipt r), w1)" "journalSteps sha w1 w2" "w_open w2"
    "ba_identity b' = ba_identity b"
  shows "handle sha (ReqCommit b') w2 = (Inr (ReplyReceipt r), w2) \<and>
    handle sha (ReqLookupCommandReceipt (ba_identity b)) w2 = (Inr (ReplyLookup (Some r)), w2)"
proof -
  have w: "workerOk sha w" using assms(1) by (rule reachable_ok)
  have c: "commitBatch sha b w = (Inr r, w1)" using assms(3) by (simp only: handle_commit)
  have w1: "workerOk sha w1" using commitBatch_step [OF w assms(2) c] by simp
  obtain row where row: "row \<in> set (t_receipts (w_file w1))" "sameIdentity (ba_identity b) row"
    "parseReceipt (rr_receiptJson row) = Inr r" using committed_receipt [OF w c] by blast
  have w2: "workerOk sha w2" "grows (w_file w1) (w_file w2)" using journalSteps_ok [OF assms(4) w1] by simp_all
  then have "row \<in> set (t_receipts (w_file w2))" using row(1) by (auto simp: grows_def prefix_def)
  from commit_found [OF w2(1) assms(5) this row(2,3)] show ?thesis
    using assms(6) by (simp add: handle_commit mapReply_def del: bindE_Inr_iff handle.simps(3))
qed

text \<open>C15. A request that is answered by an error leaves the database file as it was.\<close>

theorem failed_request_no_effect:
  assumes "handle sha req w = (Inl e, w')"
  shows "w_file w' = w_file w"
proof (cases req)
  case (ReqCommit b)
  then have c: "commitBatch sha b w = (fst (commitBatch sha b w), w')" and
    f: "\<And>r. fst (commitBatch sha b w) \<noteq> Inr r" using assms by (auto simp: mapReply_pair)
  show ?thesis using c by (cases rule: commitBatch_cases) (use f in auto)
next
  case (ReqArmCrash b)
  then have c: "armCrash sha b w = (fst (armCrash sha b w), w')"
    using assms by (auto simp: mapReply_pair)
  show ?thesis using c by (cases rule: armCrash_cases) auto
next
  case (ReqRecordInbox i)
  then have c: "runTransaction (inboxAction i) w = (fst (runTransaction (inboxAction i) w), w')" and
    f: "\<And>r. fst (runTransaction (inboxAction i) w) \<noteq> Inr r" using assms by (auto simp: mapReply_pair)
  show ?thesis using c by (cases rule: runTransaction_cases) (use f in auto)
next
  case (ReqSaveCheckpoint i)
  then have c: "runTransaction (checkpointAction i) w = (fst (runTransaction (checkpointAction i) w), w')" and
    f: "\<And>r. fst (runTransaction (checkpointAction i) w) \<noteq> Inr r" using assms by (auto simp: mapReply_pair)
  show ?thesis using c by (cases rule: runTransaction_cases) (use f in auto)
qed (use assms in \<open>auto simp: mapReply_pair holdLock_def releaseLock_def closeDatabase_def rollback_def
      Let_def split: if_splits sum.splits\<close>)

text \<open>C14. The file only ever grows: from any reachable worker on, every event, receipt, task, audit
  fact and inbox record stays where it is, and no projection checkpoint moves backwards.\<close>

theorem journal_append_only:
  assumes "reachableWorker sha w" "journalSteps sha w w'"
  shows "grows (w_file w) (w_file w')"
  using journalSteps_ok [OF assms(2) reachable_ok [OF assms(1)]] by simp

text \<open>C10. In every reachable worker the committed tables, and those an open transaction sees, are in
  order: sequence numbers and the versions of every stream count up from 1 without a gap, no event,
  receipt, task or record appears twice, the payload of every event has the hash stored for it, and
  every receipt is that of a batch whose events stand in its stream from its expected version on.\<close>

theorem journal_tables_invariant:
  assumes "reachableWorker sha w"
  shows "tablesOk sha (w_file w) \<and> tablesOk sha (visible w)"
  using reachable_ok [OF assms] visible_ok by (auto simp: workerOk_def)

section \<open>When a commit succeeds\<close>

definition eventStorable :: "domainEventEnvelope \<Rightarrow> bool" where
  "eventStorable e \<longleftrightarrow> sqlLength (sr_schemaHash (ev_payloadSchema e)) = 64 \<and> sqlLength (ev_payloadHash e) = 64"

definition taskStorable :: "sideEffectTask \<Rightarrow> bool" where
  "taskStorable k \<longleftrightarrow> sqlLength (tk_payloadHash k) = 64 \<and> 0 \<le> tk_attempt k"

text \<open>What the tables must offer for a batch to be appended.\<close>

definition committable :: "(jstring \<Rightarrow> jstring) \<Rightarrow> journalAppendBatch \<Rightarrow> tables \<Rightarrow> bool" where
  "committable sha b t \<longleftrightarrow>
     ba_expectedVersion b = int (length (streamRows (ba_aggregateType b) (ba_aggregateId b) t)) \<and>
     eventsFit sha b (ba_expectedVersion b) (ba_events b) \<and> list_all eventStorable (ba_events b) \<and>
     distinct (map er_eventId (t_events t) @ map ev_eventId (ba_events b)) \<and>
     (\<forall>k \<in> set (ba_outbox b). sha (canon (tk_payload k)) = tk_payloadHash k \<and> taskStorable k) \<and>
     distinct (map ox_taskId (t_outbox t) @ map tk_taskId (ba_outbox b)) \<and>
     distinct (map (\<lambda>r. (ox_idempotencyKey r, ox_effectScope r)) (t_outbox t) @
       map (\<lambda>k. (tk_idempotencyKey k, tk_effectScope k)) (ba_outbox b)) \<and>
     list_all (\<lambda>a. sqlLength (au_payloadHash a) = 64) (ba_audit b) \<and>
     distinct (map au_auditId (t_audit t) @ map au_auditId (ba_audit b)) \<and>
     sqlLength (id_payloadHash (ba_identity b)) = 64 \<and>
     sqlLength (rc_receiptHash (makeReceipt sha b (ba_expectedVersion b))) = 64"

lemma taskPair_inject [simp]: "taskPair x = taskPair y \<longleftrightarrow>
    tk_idempotencyKey x = tk_idempotencyKey y \<and> tk_effectScope x = tk_effectScope y"
proof -
  have "taskPair x = taskPair y \<longleftrightarrow>
      norm (JArr [JStr (tk_idempotencyKey x), JStr (tk_effectScope x)]) =
      norm (JArr [JStr (tk_idempotencyKey y), JStr (tk_effectScope y)])"
    unfolding taskPair_def by (rule canon_eq_iff) simp_all
  then show ?thesis by simp
qed

lemma taskPair_distinct:
  "distinct (map taskPair ks) \<longleftrightarrow> distinct (map (\<lambda>k. (tk_idempotencyKey k, tk_effectScope k)) ks)"
  by (auto simp: distinct_map inj_on_def)

lemma notin_image: "y \<notin> f ` A \<longleftrightarrow> (\<forall>x \<in> A. f x \<noteq> y)"
  by auto

lemma disjoint_image_iff: "f ` A \<inter> g ` B = {} \<longleftrightarrow> (\<forall>k \<in> B. g k \<notin> f ` A)"
  unfolding notin_image by (auto simp: disjoint_iff)

lemma distinct_append_map:
  "distinct xs \<Longrightarrow> distinct (map f ys) \<Longrightarrow> \<forall>y \<in> set ys. f y \<notin> set xs \<Longrightarrow> distinct (xs @ map f ys)"
  by auto

definition taskNew :: "tables \<Rightarrow> sideEffectTask \<Rightarrow> bool" where
  "taskNew t k \<longleftrightarrow> \<not> list_ex (\<lambda>r. ox_taskId r = tk_taskId k \<or>
      (ox_idempotencyKey r = tk_idempotencyKey k \<and> ox_effectScope r = tk_effectScope k)) (t_outbox t)"

lemma taskNew_images: "taskNew t k \<longleftrightarrow> tk_taskId k \<notin> ox_taskId ` set (t_outbox t) \<and>
    (tk_idempotencyKey k, tk_effectScope k) \<notin> (\<lambda>r. (ox_idempotencyKey r, ox_effectScope r)) ` set (t_outbox t)"
  unfolding notin_image by (auto simp: taskNew_def list_ex_iff)

lemma verifyOutboxIdentities_Inr:
  "verifyOutboxIdentities tasks ids pairs t = Inr () \<longleftrightarrow>
     distinct (map tk_taskId tasks) \<and> distinct (map taskPair tasks) \<and>
     (\<forall>k \<in> set tasks. tk_taskId k \<notin> set ids \<and> taskPair k \<notin> set pairs \<and> taskNew t k)"
proof (induction tasks ids pairs t rule: verifyOutboxIdentities.induct)
  case (2 task tasks ids pairs t)
  have step: "verifyOutboxIdentities (task # tasks) ids pairs t = Inr () \<longleftrightarrow>
      tk_taskId task \<notin> set ids \<and> taskPair task \<notin> set pairs \<and> taskNew t task \<and>
      verifyOutboxIdentities tasks (tk_taskId task # ids) (taskPair task # pairs) t = Inr ()"
    by (simp add: internal_def taskNew_def)
  show ?case
  proof (cases "tk_taskId task \<in> set ids \<or> taskPair task \<in> set pairs \<or> \<not> taskNew t task")
    case True
    then show ?thesis unfolding step by auto
  next
    case False
    then have ih: "verifyOutboxIdentities tasks (tk_taskId task # ids) (taskPair task # pairs) t = Inr () \<longleftrightarrow>
     distinct (map tk_taskId tasks) \<and> distinct (map taskPair tasks) \<and>
     (\<forall>k \<in> set tasks. tk_taskId k \<notin> set (tk_taskId task # ids) \<and>
        taskPair k \<notin> set (taskPair task # pairs) \<and> taskNew t k)"
      by (intro 2) (simp_all add: taskNew_def)
    show ?thesis unfolding step ih using False by (auto simp: notin_image simp del: taskPair_inject)
  qed
qed simp

lemma insertEvents_ok:
  "eventsFit sha b v es \<Longrightarrow> 0 \<le> v \<Longrightarrow> list_all eventStorable es \<Longrightarrow>
   distinct (map er_eventId (t_events t) @ map ev_eventId es) \<Longrightarrow>
   (\<And>x. x \<in> set (t_events t) \<Longrightarrow> er_aggregateType x = ba_aggregateType b \<Longrightarrow>
      er_aggregateId x = ba_aggregateId b \<Longrightarrow> er_aggregateVersion x \<le> v) \<Longrightarrow>
   insertEvents sha b v es t = Inr (t\<lparr>t_events := t_events t @ numberRows (t_nextSequence t) es,
           t_nextSequence := t_nextSequence t + length es\<rparr>)"
proof (induction es arbitrary: v t)
  case (Cons e es)
  let ?t = "t\<lparr>t_events := t_events t @ [(eventRowOf e)\<lparr>er_sequence := t_nextSequence t\<rparr>],
      t_nextSequence := Suc (t_nextSequence t)\<rparr>"
  have v: "verifyEvent sha e b (v + 1) = Inr ()" using Cons.prems(1) by (simp add: verifyEvent_Inr)
  have "ev_aggregateVersion e = v + 1" "ev_eventId e \<notin> er_eventId ` set (t_events t)"
    using Cons.prems(1,4) by auto
  then have i: "insertEventRow (eventRowOf e) t = Inr ?t"
    using Cons.prems unfolding insertEventRow_Inr
    by (fastforce simp: eventStorable_def)
  have "insertEvents sha b (v + 1) es ?t = Inr (?t\<lparr>t_events := t_events ?t @ numberRows (t_nextSequence ?t) es,
           t_nextSequence := t_nextSequence ?t + length es\<rparr>)"
    by (rule Cons.IH) (use Cons.prems in fastforce)+
  then show ?case by (simp add: v i del: bindE_Inr_iff)
qed simp

lemma insertOutbox_ok:
  "\<forall>k \<in> set tasks. taskStorable k \<Longrightarrow> distinct (map ox_taskId (t_outbox t) @ map tk_taskId tasks) \<Longrightarrow>
   distinct (map (\<lambda>r. (ox_idempotencyKey r, ox_effectScope r)) (t_outbox t) @
       map (\<lambda>k. (tk_idempotencyKey k, tk_effectScope k)) tasks) \<Longrightarrow>
   \<exists>t'. insertOutbox c tasks t = Inr t'"
proof (induction tasks arbitrary: t)
  case (Cons k tasks)
  let ?row = "\<lparr>ox_taskId = tk_taskId k, ox_idempotencyKey = tk_idempotencyKey k,
              ox_effectScope = tk_effectScope k, ox_payloadHash = tk_payloadHash k,
              ox_envelopeJson = canon (tk_object k), ox_status = js ''PENDING'',
              ox_attempt = tk_attempt k, ox_createdAt = c, ox_leasedUntil = None\<rparr>"
  have "insertOutboxRow ?row t = Inr (t\<lparr>t_outbox := t_outbox t @ [?row]\<rparr>)"
  proof -
    have "tk_taskId k \<notin> ox_taskId ` set (t_outbox t)"
      "(tk_idempotencyKey k, tk_effectScope k) \<notin> (\<lambda>r. (ox_idempotencyKey r, ox_effectScope r)) ` set (t_outbox t)"
      using Cons.prems(2,3) by simp_all
    then show ?thesis using Cons.prems(1) unfolding insertOutboxRow_Inr
      by (simp add: taskStorable_def image_iff) metis
  qed
  moreover have "\<exists>t'. insertOutbox c tasks (t\<lparr>t_outbox := t_outbox t @ [?row]\<rparr>) = Inr t'"
    by (rule Cons.IH) (use Cons.prems in auto)
  ultimately show ?case by (simp del: bindE_Inr_iff)
qed simp

lemma insertAudit_ok:
  "list_all (\<lambda>a. sqlLength (au_payloadHash a) = 64) as \<Longrightarrow>
   distinct (map au_auditId (t_audit t) @ map au_auditId as) \<Longrightarrow>
   insertAudit as t = Inr (t\<lparr>t_audit := t_audit t @ as\<rparr>)"
proof (induction as arbitrary: t)
  case (Cons a as)
  have "insertAuditRow a t = Inr (t\<lparr>t_audit := t_audit t @ [a]\<rparr>)"
    using Cons.prems unfolding insertAuditRow_Inr by auto
  moreover have "insertAudit as (t\<lparr>t_audit := t_audit t @ [a]\<rparr>) =
      Inr (t\<lparr>t_audit := t_audit t @ [a]\<rparr>\<lparr>t_audit := t_audit (t\<lparr>t_audit := t_audit t @ [a]\<rparr>) @ as\<rparr>)"
    by (rule Cons.IH) (use Cons.prems in auto)
  ultimately show ?case by (simp del: bindE_Inr_iff)
qed simp

lemma receiptRowOf_simps [simp]:
  "rr_commandId (receiptRowOf b r) = id_commandId (ba_identity b)"
  "rr_idempotencyKey (receiptRowOf b r) = id_idempotencyKey (ba_identity b)"
  "rr_effectScope (receiptRowOf b r) = id_effectScope (ba_identity b)"
  "rr_payloadHash (receiptRowOf b r) = id_payloadHash (ba_identity b)"
  "rr_outcomeHash (receiptRowOf b r) = rc_receiptHash r"
  "rr_receiptJson (receiptRowOf b r) = canon (receiptJson r)"
  by (simp_all add: receiptRowOf_def)

lemma appendBatch_iff:
  assumes ok: "tablesOk sha t" and fresh: "\<forall>row \<in> set (t_receipts t). \<not> sharesIdentity (ba_identity b) row"
    and v: "verifyOutbox sha b = Inr ()"
  shows "(\<exists>r t'. appendBatch sha b t = Inr (r, t')) \<longleftrightarrow> committable sha b t"
proof
  assume "\<exists>r t'. appendBatch sha b t = Inr (r, t')"
  then obtain r t' where a: "appendBatch sha b t = Inr (r, t')" by blast
  let ?v = "currentAggregateVersion (ba_aggregateType b) (ba_aggregateId b) t"
  obtain t1 t2 t3 where ids: "verifyOutboxIdentities (ba_outbox b) [] [] t = Inr ()" and
    version: "?v = ba_expectedVersion b" and
    t1: "insertEvents sha b ?v (ba_events b) t = Inr t1" and
    t2: "insertOutbox (ba_capturedAt b) (ba_outbox b) t1 = Inr t2" and
    t3: "insertAudit (ba_audit b) t2 = Inr t3" and
    r: "r = makeReceipt sha b ?v" and t4: "insertReceiptRow (receiptRowOf b r) t3 = Inr t'"
    using a by (auto simp: appendBatch_def Let_def split: if_splits)
  have events: "list_all eventStorable es" if "insertEvents sha b v es t = Inr t'" for v es t t'
    using that by (induction es arbitrary: v t) (auto simp: insertEventRow_Inr eventStorable_def)
  have tasks: "\<forall>k \<in> set ks. taskStorable k" if "insertOutbox c ks t = Inr t'" for c ks t t'
    using that by (induction ks arbitrary: t) (auto simp: insertOutboxRow_Inr taskStorable_def)
  have audits: "list_all (\<lambda>a. sqlLength (au_payloadHash a) = 64) as" if "insertAudit as t = Inr t'" for as t t'
    using that by (induction as arbitrary: t) (auto simp: insertAuditRow_Inr)
  note e = appendBatch_Inr [OF a]
  have "distinct (map er_eventId (t_events t) @ map ev_eventId (ba_events b))"
    using ok e(4,5) by (intro distinct_append_map) (simp_all add: tablesOk_def)
  moreover have "distinct (map au_auditId (t_audit t) @ map au_auditId (ba_audit b))"
    using ok e(8) by (auto simp: tablesOk_def simp del: upt_Suc)
  moreover have "distinct (map ox_taskId (t_outbox t) @ map tk_taskId (ba_outbox b))"
    "distinct (map (\<lambda>r. (ox_idempotencyKey r, ox_effectScope r)) (t_outbox t) @
       map (\<lambda>k. (tk_idempotencyKey k, tk_effectScope k)) (ba_outbox b))"
    using ok ids unfolding verifyOutboxIdentities_Inr
    by (intro distinct_append_map; simp add: tablesOk_def taskPair_distinct taskNew_images)+
  moreover have "\<forall>k \<in> set (ba_outbox b). sha (canon (tk_payload k)) = tk_payloadHash k"
    using v by (auto simp: verifyOutbox_def list_ex_iff split: if_splits)
  ultimately show "committable sha b t"
    using version currentAggregateVersion_stream [OF ok] e(3) events [OF t1] tasks [OF t2] audits [OF t3] r t4
    unfolding committable_def by (auto simp: insertReceiptRow_Inr)
next
  assume c: "committable sha b t"
  let ?S = "streamRows (ba_aggregateType b) (ba_aggregateId b) t"
  let ?v = "currentAggregateVersion (ba_aggregateType b) (ba_aggregateId b) t"
  have version: "?v = ba_expectedVersion b" "0 \<le> ?v"
    using c currentAggregateVersion_stream [OF ok] by (simp_all add: committable_def)
  have bound: "er_aggregateVersion x \<le> ?v" if "x \<in> set (t_events t)" "er_aggregateType x = ba_aggregateType b"
    "er_aggregateId x = ba_aggregateId b" for x
  proof -
    have "x \<in> set ?S" using that by (simp add: streamRows_def)
    then have "er_aggregateVersion x \<in> set (map er_aggregateVersion ?S)" by simp
    also have "map er_aggregateVersion ?S = map int [1..<Suc (length ?S)]" using ok by (simp add: tablesOk_def)
    finally show ?thesis using currentAggregateVersion_stream [OF ok] by auto
  qed
  have t1: "insertEvents sha b ?v (ba_events b) t = Inr (t\<lparr>t_events := t_events t @ numberRows (t_nextSequence t) (ba_events b),
           t_nextSequence := t_nextSequence t + length (ba_events b)\<rparr>)" (is "_ = Inr ?t1")
  proof (intro insertEvents_ok)
    have "eventsFit sha b (ba_expectedVersion b) (ba_events b)"
      using c unfolding committable_def by (elim conjE)
    then show "eventsFit sha b ?v (ba_events b)" by (simp only: version(1))
    show "0 \<le> ?v" by (rule version(2))
    show "list_all eventStorable (ba_events b)" "distinct (map er_eventId (t_events t) @ map ev_eventId (ba_events b))"
      using c unfolding committable_def by simp_all
    fix x
    assume "x \<in> set (t_events t)" "er_aggregateType x = ba_aggregateType b" "er_aggregateId x = ba_aggregateId b"
    then show "er_aggregateVersion x \<le> ?v" by (rule bound)
  qed
  have ids: "verifyOutboxIdentities (ba_outbox b) [] [] t = Inr ()"
    unfolding verifyOutboxIdentities_Inr using c
    by (simp add: committable_def taskPair_distinct taskNew_images disjoint_image_iff)
  have "\<exists>t2. insertOutbox (ba_capturedAt b) (ba_outbox b) ?t1 = Inr t2"
    by (rule insertOutbox_ok) (use c in \<open>simp_all add: committable_def\<close>)
  then obtain t2 where t2: "insertOutbox (ba_capturedAt b) (ba_outbox b) ?t1 = Inr t2" by blast
  then have "t_audit t2 = t_audit t" "t_receipts t2 = t_receipts t"
    using insertOutbox_Inr [OF t2] by auto
  moreover from this have t3: "insertAudit (ba_audit b) t2 = Inr (t2\<lparr>t_audit := t_audit t2 @ ba_audit b\<rparr>)" (is "_ = Inr ?t3")
    using c by (intro insertAudit_ok) (simp_all add: committable_def)
  ultimately have "\<exists>t4. insertReceiptRow (receiptRowOf b (makeReceipt sha b ?v)) ?t3 = Inr t4"
    using c fresh version unfolding insertReceiptRow_Inr by (auto simp: committable_def sharesIdentity_def)
  then show "\<exists>r t'. appendBatch sha b t = Inr (r, t')"
    using ids t1 t2 t3 version by (auto simp: appendBatch_def Let_def simp del: bindE_Inr_iff)
qed


section \<open>The stream of an aggregate\<close>

lemma fresh_commit:
  assumes w: "workerOk sha w" and c: "commitBatch sha b w = (Inr r, w')"
    and f: "id_commandId (ba_identity b) \<notin> rr_commandId ` set (t_receipts (w_file w))"
  obtains t where "w_transaction w = None" "appendBatch sha b (w_file w) = Inr (r, t)" "w' = w\<lparr>w_file := t\<rparr>"
  using c
proof (cases rule: commitBatch_cases)
  case (duplicate row)
  then show thesis
    using findCommandDuplicate_Some [OF duplicate(2)] f visible_receipts [OF w]
    by (auto simp: sameIdentity_def notin_image)
next
  case (fresh r' t)
  then show thesis using that by simp
qed simp

lemma appendBatch_streams:
  assumes ok: "tablesOk sha t" and a: "appendBatch sha b t = Inr (r, t')"
  shows "ba_expectedVersion b = int (length (streamRows (ba_aggregateType b) (ba_aggregateId b) t))"
    "streamRows ty i t' = (if ty = ba_aggregateType b \<and> i = ba_aggregateId b
       then streamRows ty i t @ numberRows (t_nextSequence t) (ba_events b) else streamRows ty i t)"
    "t_receipts t' = t_receipts t @ [receiptRowOf b r]" "t_audit t' = t_audit t @ ba_audit b"
    "map ox_taskId (t_outbox t') = map ox_taskId (t_outbox t) @ map tk_taskId (ba_outbox b)"
proof -
  note e = appendBatch_Inr [OF a]
  obtain rows where tasks: "map ox_taskId rows = map tk_taskId (ba_outbox b)" and
   t': "t' = t\<lparr>t_events := t_events t @ numberRows (t_nextSequence t) (ba_events b),
         t_nextSequence := t_nextSequence t + length (ba_events b),
         t_outbox := t_outbox t @ rows, t_audit := t_audit t @ ba_audit b,
         t_receipts := t_receipts t @ [receiptRowOf b r]\<rparr>"
    using e(8) by blast
  show "ba_expectedVersion b = int (length (streamRows (ba_aggregateType b) (ba_aggregateId b) t))"
    using e(1) currentAggregateVersion_stream [OF ok] by simp
  show "streamRows ty i t' = (if ty = ba_aggregateType b \<and> i = ba_aggregateId b
       then streamRows ty i t @ numberRows (t_nextSequence t) (ba_events b) else streamRows ty i t)"
    unfolding t' by (rule streamRows_append [OF e(3)])
  show "t_receipts t' = t_receipts t @ [receiptRowOf b r]" "t_audit t' = t_audit t @ ba_audit b"
    "map ox_taskId (t_outbox t') = map ox_taskId (t_outbox t) @ map tk_taskId (ba_outbox b)"
    using tasks t' by simp_all
qed

text \<open>A command that the journal did not know is committed only at the end of its stream: its
  expected version is the number of events there, its events carry the next versions and the hashes of
  their payloads and become the end of the stream, no other stream changes, and its receipt, tasks and
  audit facts are stored with them; the receipt names the new length as the committed version.\<close>

theorem commit_appends:
  assumes "reachableWorker sha w" "handle sha (ReqCommit b) w = (Inr (ReplyReceipt r), w')"
    "id_commandId (ba_identity b) \<notin> rr_commandId ` set (t_receipts (w_file w))"
  shows "ba_expectedVersion b = int (length (streamRows (ba_aggregateType b) (ba_aggregateId b) (w_file w))) \<and>
    map ev_aggregateVersion (ba_events b) =
      map (\<lambda>k. ba_expectedVersion b + int k) [1..<Suc (length (ba_events b))] \<and>
    (\<forall>e \<in> set (ba_events b). sha (canon (ev_payload e)) = ev_payloadHash e) \<and>
    map er_eventJson (streamRows (ba_aggregateType b) (ba_aggregateId b) (w_file w')) =
      map er_eventJson (streamRows (ba_aggregateType b) (ba_aggregateId b) (w_file w)) @
      map (\<lambda>e. canon (eventJson e)) (ba_events b) \<and>
    (\<forall>ty i. (ty, i) \<noteq> (ba_aggregateType b, ba_aggregateId b) \<longrightarrow>
      streamRows ty i (w_file w') = streamRows ty i (w_file w)) \<and>
    t_receipts (w_file w') = t_receipts (w_file w) @ [receiptRowOf b r] \<and>
    map ox_taskId (t_outbox (w_file w')) = map ox_taskId (t_outbox (w_file w)) @ map tk_taskId (ba_outbox b) \<and>
    t_audit (w_file w') = t_audit (w_file w) @ ba_audit b \<and>
    rc_committedVersion r = ba_expectedVersion b + int (length (ba_events b))"
proof -
  have w: "workerOk sha w" "tablesOk sha (w_file w)"
    using reachable_ok [OF assms(1)] by (simp_all add: workerOk_def)
  have c: "commitBatch sha b w = (Inr r, w')" using assms(2) by (simp only: handle_commit)
  obtain t where t: "appendBatch sha b (w_file w) = Inr (r, t)" "w' = w\<lparr>w_file := t\<rparr>"
    by (rule fresh_commit [OF w(1) c assms(3)])
  note e = appendBatch_Inr [OF t(1)] and s = appendBatch_streams [OF w(2) t(1)]
  have "rc_committedVersion r = ba_expectedVersion b + int (length (ba_events b))"
    by (simp add: e(2) makeReceipt_def)
  then show ?thesis using eventsFit_rows [OF e(3)] s by (simp add: t(2))
qed

text \<open>An identity names one command: while a stored receipt shares the command id, or the
  idempotency key and scope, of a batch but differs in any part of the identity or in the payload hash,
  the batch is refused as a conflict and nothing changes.\<close>

theorem commit_identity_conflict:
  assumes "w_open w" "row \<in> set (t_receipts (visible w))"
    "sharesIdentity (ba_identity b) row" "\<not> sameIdentity (ba_identity b) row"
  shows "\<exists>m. handle sha (ReqCommit b) w = (Inl (InternalError PERSISTENCE_IDEMPOTENCY_CONFLICT m), w)"
  using findCommandDuplicate_conflict [OF assms(2-4)] assms(1)
  by (auto simp: commitBatch_def onDatabase_def mapReply_def)

lemma streamRows_sorted:
  "tablesOk sha t \<Longrightarrow> sort_key er_aggregateVersion (streamRows ty i t) = streamRows ty i t"
proof (rule sort_key_id_if_sorted)
  assume "tablesOk sha t"
  then have v: "map er_aggregateVersion (streamRows ty i t) =
      map int [1..<Suc (length (streamRows ty i t))]" by (simp add: tablesOk_def)
  show "sorted (map er_aggregateVersion (streamRows ty i t))"
    unfolding v by (simp add: sorted_map sorted_wrt_upt del: upt_Suc)
qed

lemma rowOk_parse:
  assumes "rowOk sha row"
  obtains e where "eventWf e" "row = (eventRowOf e)\<lparr>er_sequence := er_sequence row\<rparr>"
    "sha (canon (ev_payload e)) = ev_payloadHash e"
    "parseCanonical (er_eventJson row) = Some (norm (eventJson e))"
proof -
  obtain e where e: "eventWf e" "sha (canon (ev_payload e)) = ev_payloadHash e"
    "row = (eventRowOf e)\<lparr>er_sequence := er_sequence row\<rparr>" using assms unfolding rowOk_def by blast
  have "er_eventJson row = canon (eventJson e)" by (subst e(3)) simp
  moreover have "json_wf (eventJson e)" using e(1) by (simp add: eventJson_wf eventWf_def)
  ultimately show thesis using that e by (simp add: parseCanonical_canon)
qed

lemma rows_events:
  "\<forall>row \<in> set rows. rowOk sha row \<Longrightarrow> \<exists>es.
     map er_eventJson rows = map (\<lambda>e. canon (eventJson e)) es \<and>
     map er_aggregateVersion rows = map ev_aggregateVersion es \<and>
     map (\<lambda>r. (er_aggregateType r, er_aggregateId r)) rows =
       map (\<lambda>e. (ev_aggregateType e, ev_aggregateId e)) es \<and>
     (\<forall>e \<in> set es. eventWf e \<and> sha (canon (ev_payload e)) = ev_payloadHash e)"
proof (induction rows)
  case (Cons row rows)
  obtain e where e: "eventWf e" "row = (eventRowOf e)\<lparr>er_sequence := er_sequence row\<rparr>"
    "sha (canon (ev_payload e)) = ev_payloadHash e"
    using Cons.prems by (auto elim: rowOk_parse)
  have "er_eventJson row = canon (eventJson e)" "er_aggregateVersion row = ev_aggregateVersion e"
    "er_aggregateType row = ev_aggregateType e" "er_aggregateId row = ev_aggregateId e"
    by (subst e(2), simp)+
  moreover obtain es where "map er_eventJson rows = map (\<lambda>e. canon (eventJson e)) es"
     "map er_aggregateVersion rows = map ev_aggregateVersion es"
     "map (\<lambda>r. (er_aggregateType r, er_aggregateId r)) rows =
       map (\<lambda>e. (ev_aggregateType e, ev_aggregateId e)) es"
     "\<forall>e \<in> set es. eventWf e \<and> sha (canon (ev_payload e)) = ev_payloadHash e"
    using Cons by auto
  ultimately show ?case using e(1,3) by (intro exI [of _ "e # es"]) simp
qed simp

lemma readEvents_stream:
  assumes "tablesOk sha t" "\<forall>e \<in> set es. eventWf e"
    "map er_eventJson (streamRows ty i t) = map (\<lambda>e. canon (eventJson e)) es"
  shows "readEvents ty i limit t = Inr (sqlLimit limit (map (\<lambda>e. norm (eventJson e)) es))"
proof -
  let ?f = "\<lambda>s. case parseCanonical s of
      None \<Rightarrow> internal PERSISTENCE_STORAGE_FAILURE ''Invalid canonical JSON in event journal'' | Some j \<Rightarrow> Inr j"
  have "readEvents ty i limit t = mapE ?f (map er_eventJson (sqlLimit limit (streamRows ty i t)))"
    unfolding readEvents_def streamRows_def [symmetric] streamRows_sorted [OF assms(1)] mapE_map by (rule refl)
  also have "map er_eventJson (sqlLimit limit (streamRows ty i t)) =
      map (\<lambda>e. canon (eventJson e)) (sqlLimit limit es)"
    using assms(3) by (simp add: sqlLimit_def flip: take_map)
  also have "mapE ?f \<dots> = Inr (map (\<lambda>e. norm (eventJson e)) (sqlLimit limit es))"
    unfolding mapE_map
  proof (rule mapE_total)
    fix e assume "e \<in> set (sqlLimit limit es)"
    then have "e \<in> set es" by (auto simp: sqlLimit_def dest: in_set_takeD split: if_splits)
    then have "json_wf (eventJson e)" using assms(2) by (simp add: eventJson_wf eventWf_def)
    then show "?f (canon (eventJson e)) = Inr (norm (eventJson e))" by (simp add: parseCanonical_canon)
  qed
  also have "map (\<lambda>e. norm (eventJson e)) (sqlLimit limit es) = sqlLimit limit (map (\<lambda>e. norm (eventJson e)) es)"
    by (simp add: sqlLimit_def take_map)
  finally show ?thesis .
qed

text \<open>Reading an aggregate never fails on an open worker: it returns, up to the limit, the envelopes
  of its events with the keys of every object in canonical order, in the order of their versions from 1
  on without a gap, each with the hash of its payload.\<close>

theorem readEvents_returns_stream:
  assumes "reachableWorker sha w" "w_open w"
  shows "\<exists>es. handle sha (ReqReadEvents ty i limit) w =
      (Inr (ReplyEvents (sqlLimit limit (map (\<lambda>e. norm (eventJson e)) es))), w) \<and>
    map er_eventJson (streamRows ty i (visible w)) = map (\<lambda>e. canon (eventJson e)) es \<and>
    map ev_aggregateVersion es = map int [1..<Suc (length es)] \<and>
    (\<forall>e \<in> set es. ev_aggregateType e = ty \<and> ev_aggregateId e = i \<and>
      sha (canon (ev_payload e)) = ev_payloadHash e)"
proof -
  let ?t = "visible w"
  have ok: "tablesOk sha ?t" using visible_ok reachable_ok [OF assms(1)] by blast
  then have "\<forall>row \<in> set (streamRows ty i ?t). rowOk sha row"
    by (simp add: tablesOk_def streamRows_def)
  then obtain es where es: "map er_eventJson (streamRows ty i ?t) = map (\<lambda>e. canon (eventJson e)) es"
    "map er_aggregateVersion (streamRows ty i ?t) = map ev_aggregateVersion es"
    "map (\<lambda>r. (er_aggregateType r, er_aggregateId r)) (streamRows ty i ?t) =
       map (\<lambda>e. (ev_aggregateType e, ev_aggregateId e)) es"
    "\<forall>e \<in> set es. eventWf e \<and> sha (canon (ev_payload e)) = ev_payloadHash e"
    using rows_events by blast
  have len: "length es = length (streamRows ty i ?t)" using es(1) by (metis length_map)
  have "set (map (\<lambda>e. (ev_aggregateType e, ev_aggregateId e)) es) \<subseteq> {(ty, i)}"
    unfolding es(3) [symmetric] by (auto simp: streamRows_def)
  moreover have "map ev_aggregateVersion es = map int [1..<Suc (length es)]"
    using ok es(2) by (simp add: tablesOk_def len)
  moreover have "readEvents ty i limit ?t = Inr (sqlLimit limit (map (\<lambda>e. norm (eventJson e)) es))"
    by (rule readEvents_stream [OF ok _ es(1)]) (use es(4) in simp)
  ultimately show ?thesis using es(1,4) assms(2)
    by (intro exI [of _ es]) (auto simp: mapReply_def onDatabase_def simp del: upt_Suc)
qed

text \<open>C13. What was committed is what is read: after a fresh commit, in every later worker, reading the
  whole aggregate returns the events of the batch at their place in the stream.\<close>

theorem commit_read_back:
  assumes "reachableWorker sha w" "batchWf b" "handle sha (ReqCommit b) w = (Inr (ReplyReceipt r), w1)"
    "id_commandId (ba_identity b) \<notin> rr_commandId ` set (t_receipts (w_file w))"
    "journalSteps sha w1 w2" "w_open w2"
  shows "\<exists>js. handle sha (ReqReadEvents (ba_aggregateType b) (ba_aggregateId b) (-1)) w2 =
      (Inr (ReplyEvents js), w2) \<and>
    take (length (ba_events b)) (drop (nat (ba_expectedVersion b)) js) =
      map (\<lambda>e. norm (eventJson e)) (ba_events b)"
proof -
  let ?ty = "ba_aggregateType b" and ?i = "ba_aggregateId b"
  have w: "workerOk sha w" "tablesOk sha (w_file w)" using reachable_ok [OF assms(1)] by (simp_all add: workerOk_def)
  have c: "commitBatch sha b w = (Inr r, w1)" using assms(3) by (simp only: handle_commit)
  obtain t where t: "appendBatch sha b (w_file w) = Inr (r, t)" "w1 = w\<lparr>w_file := t\<rparr>"
    by (rule fresh_commit [OF w(1) c assms(4)])
  note s = appendBatch_streams [OF w(2) t(1)]
  have w1: "workerOk sha w1" using commitBatch_step [OF w(1) assms(2) c] by simp
  have w2: "workerOk sha w2" "grows (w_file w1) (w_file w2)" using journalSteps_ok [OF assms(5) w1] by simp_all
  have "grows (w_file w2) (visible w2)" using w2(1) by (auto simp: workerOk_def visible_def split: option.splits)
  with w2(2) have "prefix (t_events t) (t_events (visible w2))"
    using grows_trans [of "w_file w1" "w_file w2" "visible w2"] t(2) by (simp add: grows_def)
  then obtain zs where zs: "streamRows ?ty ?i (visible w2) = streamRows ?ty ?i t @ zs"
    by (auto simp: prefix_def streamRows_def)
  have ok: "tablesOk sha (visible w2)" by (rule visible_ok [OF w2(1)])
  then have "\<forall>row \<in> set (streamRows ?ty ?i (visible w2)). rowOk sha row"
    by (simp add: tablesOk_def streamRows_def)
  then obtain es where es: "map er_eventJson (streamRows ?ty ?i (visible w2)) = map (\<lambda>e. canon (eventJson e)) es"
    "\<forall>e \<in> set es. eventWf e" using rows_events by blast
  let ?part = "\<lambda>xs. take (length (ba_events b)) (drop (nat (ba_expectedVersion b)) xs)"
  have "?part (streamRows ?ty ?i (visible w2)) = numberRows (t_nextSequence (w_file w)) (ba_events b)"
    unfolding zs s(2) using s(1) by simp
  then have "?part (map (\<lambda>e. canon (eventJson e)) es) = map (\<lambda>e. canon (eventJson e)) (ba_events b)"
    unfolding es(1) [symmetric] by (simp add: take_map drop_map)
  then have "map (\<lambda>e. canon (eventJson e)) (?part es) = map (\<lambda>e. canon (eventJson e)) (ba_events b)"
    by (simp add: take_map drop_map)
  then have p: "map (map_option id \<circ> parseCanonical) (map (\<lambda>e. canon (eventJson e)) (?part es)) =
      map (map_option id \<circ> parseCanonical) (map (\<lambda>e. canon (eventJson e)) (ba_events b))" by simp
  have "\<forall>e \<in> set (?part es). eventWf e" using es(2) by (auto dest!: in_set_takeD in_set_dropD)
  moreover have "\<forall>e \<in> set (ba_events b). eventWf e" using assms(2) by (simp add: batchWf_def)
  ultimately have "map (\<lambda>e. Some (norm (eventJson e))) (?part es) = map (\<lambda>e. Some (norm (eventJson e))) (ba_events b)"
    using p by (simp add: parseCanonical_canon eventJson_wf eventWf_def option.map_id cong: map_cong)
  then have "map the (map (\<lambda>e. Some (norm (eventJson e))) (?part es)) =
      map the (map (\<lambda>e. Some (norm (eventJson e))) (ba_events b))" by (simp only:)
  then have "?part (map (\<lambda>e. norm (eventJson e)) es) = map (\<lambda>e. norm (eventJson e)) (ba_events b)"
    by (simp add: comp_def take_map drop_map)
  moreover have "readEvents ?ty ?i (-1) (visible w2) = Inr (map (\<lambda>e. norm (eventJson e)) es)"
    using readEvents_stream [OF ok es(2,1), of "-1"] by (simp add: sqlLimit_def)
  ultimately show ?thesis using assms(6) by (auto simp: mapReply_def onDatabase_def)
qed

text \<open>C11. Of two commands that expect the same version of one stream, at most one succeeds: once the
  first has appended an event, the second is refused in every later worker, with nothing changed,
  unless its identity is already that of a stored receipt.\<close>

theorem concurrent_commits_exclude:
  assumes "reachableWorker sha w" "batchWf b1" "handle sha (ReqCommit b1) w = (Inr (ReplyReceipt r), w1)"
    "id_commandId (ba_identity b1) \<notin> rr_commandId ` set (t_receipts (w_file w))" "ba_events b1 \<noteq> []"
    "journalSteps sha w1 w2"
    "ba_aggregateType b2 = ba_aggregateType b1" "ba_aggregateId b2 = ba_aggregateId b1"
    "ba_expectedVersion b2 = ba_expectedVersion b1"
    "id_commandId (ba_identity b2) \<notin> rr_commandId ` set (t_receipts (w_file w2))"
  shows "\<exists>e. handle sha (ReqCommit b2) w2 = (Inl e, w2)"
proof -
  let ?S = "streamRows (ba_aggregateType b1) (ba_aggregateId b1)"
  have w: "workerOk sha w" "tablesOk sha (w_file w)" using reachable_ok [OF assms(1)] by (simp_all add: workerOk_def)
  have c: "commitBatch sha b1 w = (Inr r, w1)" using assms(3) by (simp only: handle_commit)
  obtain t where t: "appendBatch sha b1 (w_file w) = Inr (r, t)" "w1 = w\<lparr>w_file := t\<rparr>"
    by (rule fresh_commit [OF w(1) c assms(4)])
  note s = appendBatch_streams [OF w(2) t(1)]
  have w1: "workerOk sha w1" using commitBatch_step [OF w(1) assms(2) c] by simp
  have w2: "workerOk sha w2" "tablesOk sha (w_file w2)" "grows (w_file w1) (w_file w2)"
    using journalSteps_ok [OF assms(6) w1] by (simp_all add: workerOk_def)
  then obtain zs where "?S (w_file w2) = ?S t @ zs" using t(2) by (auto simp: grows_def prefix_def streamRows_def)
  then have longer: "ba_expectedVersion b2 < int (length (?S (w_file w2)))"
    using s(1,2) assms(5,9) by (simp add: Suc_le_eq flip: length_greater_0_conv)
  obtain reply w3 where c2: "commitBatch sha b2 w2 = (reply, w3)" by fastforce
  have "\<exists>e. reply = Inl e \<and> w3 = w2" using c2
  proof (cases rule: commitBatch_cases)
    case (duplicate row)
    then show ?thesis
      using findCommandDuplicate_Some [OF duplicate(2)] assms(10) visible_receipts [OF w2(1)]
      by (auto simp: sameIdentity_def notin_image)
  next
    case (fresh r' t')
    then show ?thesis
      using appendBatch_Inr(1) [OF fresh(5)] currentAggregateVersion_stream [OF w2(2)] longer assms(7,8) by simp
  qed simp
  then show ?thesis using c2 by (auto simp: mapReply_def)
qed

text \<open>C16. A transaction that the qualification probes hold open is invisible in the file: while it is
  open no step changes the file, and a step that ends it leaves the file's tables to be seen.\<close>

theorem open_transaction_isolated:
  assumes "reachableWorker sha w" "w_transaction w = Some t" "journalStep sha w w'"
  shows "w_file w' = w_file w \<and> (w_transaction w' = Some t \<or> visible w' = w_file w)"
  using assms(3)
proof (rule journalStepE)
  fix req reply
  assume h: "handle sha req w = (reply, w')"
  have w: "workerOk sha w" by (rule reachable_ok [OF assms(1)])
  then have f: "w_open w" "w_writeLockHeld w \<or> w_crashTransactionArmed w"
    using assms(2) by (auto simp: workerOk_def)
  show ?thesis
  proof (cases req)
    case (ReqCommit b)
    then have c: "commitBatch sha b w = (fst (commitBatch sha b w), w')" using h by (auto simp: mapReply_pair)
    show ?thesis using c by (cases rule: commitBatch_cases) (use assms(2) in auto)
  qed (use h f assms(2) in \<open>auto simp: mapReply_pair armCrash_def holdLock_def releaseLock_def closeDatabase_def
      rollback_def runTransaction_def visible_def Let_def split: if_splits\<close>)
next
  assume "w' = openWorker (w_file w)"
  then show ?thesis by (simp add: openWorker_def visible_def)
qed

lemma inbox_stored:
  assumes "inboxAction entry t = Inr (answer, t')"
  obtains row where "row \<in> set (t_inbox t')" "ib_resultId row = ib_resultId entry"
    "ib_taskId row = ib_taskId entry" "ib_payloadHash row = ib_payloadHash entry"
proof (cases "filter (\<lambda>r. ib_resultId r = ib_resultId entry \<or> ib_taskId r = ib_taskId entry) (t_inbox t)")
  case Nil
  then have "insertInboxRow entry t = Inr t'" using assms by (auto simp: inboxAction_def)
  then show thesis using that [of entry] by (simp add: insertInboxRow_Inr)
next
  case (Cons row rest)
  have "row \<in> set (row # rest)" by simp
  then have "row \<in> set (t_inbox t)" unfolding Cons [symmetric] by simp
  moreover have "ib_resultId row = ib_resultId entry" "ib_taskId row = ib_taskId entry"
    "ib_payloadHash row = ib_payloadHash entry" "t' = t"
    using assms Cons by (simp_all add: inboxAction_def split: if_splits)
  ultimately show thesis using that [of row] by simp
qed

lemma inbox_again:
  assumes ok: "tablesOk sha t" and row: "row \<in> set (t_inbox t)" "ib_resultId row = ib_resultId entry"
    "ib_taskId row = ib_taskId entry" "ib_payloadHash row = ib_payloadHash entry"
  shows "inboxAction entry t = Inr (row\<lparr>ib_status := js ''DUPLICATE''\<rparr>, t)"
proof -
  have d: "distinct (map ib_resultId (t_inbox t))" "distinct (map ib_taskId (t_inbox t))"
    using ok by (simp_all add: tablesOk_def)
  have "filter (\<lambda>r. ib_resultId r = ib_resultId entry \<or> ib_taskId r = ib_taskId entry) (t_inbox t) = [row]"
    by (rule filter_single) (use d row in \<open>auto simp: distinct_map inj_on_def\<close>)
  then show ?thesis using row by (simp add: inboxAction_def)
qed

text \<open>A result that was recorded in the inbox is recorded once: reporting it again later, outside a
  qualification transaction, answers with the stored record marked as a duplicate, and adds nothing.\<close>

theorem inbox_idempotent:
  assumes "reachableWorker sha w" "handle sha (ReqRecordInbox entry) w = (Inr (ReplyInbox answer), w1)"
    "journalSteps sha w1 w2" "w_open w2" "w_transaction w2 = None"
  shows "\<exists>row \<in> set (t_inbox (w_file w1)). ib_resultId row = ib_resultId entry \<and>
    ib_taskId row = ib_taskId entry \<and> ib_payloadHash row = ib_payloadHash entry \<and>
    handle sha (ReqRecordInbox entry) w2 = (Inr (ReplyInbox (row\<lparr>ib_status := js ''DUPLICATE''\<rparr>)), w2)"
proof -
  have w1: "workerOk sha w1"
    using handle_step [OF reachable_ok [OF assms(1)] _ assms(2)] by (simp add: requestWf_def)
  obtain a where a: "runTransaction (inboxAction entry) w = (a, w1)" "bindE a (\<lambda>x. Inr (ReplyInbox x)) = Inr (ReplyInbox answer)"
    using assms(2) by (auto simp: mapReply_def split: prod.splits)
  then obtain t where t: "inboxAction entry (w_file w) = Inr (answer, t)" "w1 = w\<lparr>w_file := t\<rparr>"
    by (cases rule: runTransaction_cases [OF a(1)]) auto
  obtain row where row: "row \<in> set (t_inbox t)" "ib_resultId row = ib_resultId entry"
    "ib_taskId row = ib_taskId entry" "ib_payloadHash row = ib_payloadHash entry"
    using inbox_stored [OF t(1)] by blast
  have w2: "tablesOk sha (w_file w2)" "grows (w_file w1) (w_file w2)"
    using journalSteps_ok [OF assms(3) w1] by (simp_all add: workerOk_def)
  then have "row \<in> set (t_inbox (w_file w2))" using row(1) t(2) by (auto simp: grows_def prefix_def)
  from inbox_again [OF w2(1) this row(2-4)] show ?thesis
    using row t(2) assms(4,5) by (intro bexI [of _ row]) (simp_all add: runTransaction_def mapReply_def)
qed

text \<open>A checkpoint that was saved is never passed backwards: at any later time the projection has a
  checkpoint at least as far, and saving an earlier one is refused and changes nothing.\<close>

theorem checkpoint_monotone:
  assumes "reachableWorker sha w" "handle sha (ReqSaveCheckpoint c) w = (Inr (ReplyCheckpoint d), w1)"
    "journalSteps sha w1 w2" "w_open w2" "w_transaction w2 = None"
    "pc_projectionName c' = pc_projectionName c" "pc_sourceSequence c' < pc_sourceSequence c"
  shows "d = c \<and> (\<exists>e. findCheckpoint (pc_projectionName c) (w_file w2) = Some e \<and>
      pc_sourceSequence c \<le> pc_sourceSequence e) \<and>
    (\<exists>m. handle sha (ReqSaveCheckpoint c') w2 = (Inl (InternalError PERSISTENCE_OPTIMISTIC_CONCURRENCY m), w2))"
proof -
  have w1: "workerOk sha w1"
    using handle_step [OF reachable_ok [OF assms(1)] _ assms(2)] by (simp add: requestWf_def)
  obtain a where a: "runTransaction (checkpointAction c) w = (a, w1)"
      "bindE a (\<lambda>x. Inr (ReplyCheckpoint x)) = Inr (ReplyCheckpoint d)"
    using assms(2) by (auto simp: mapReply_def split: prod.splits)
  then obtain t where t: "checkpointAction c (w_file w) = Inr (d, t)" "w1 = w\<lparr>w_file := t\<rparr>"
    by (cases rule: runTransaction_cases [OF a(1)]) auto
  note c = checkpointAction_tables [OF t(1)]
  have "c \<in> set (t_checkpoints t)" unfolding c(3) by auto
  moreover have w2: "tablesOk sha (w_file w2)" "grows (w_file w1) (w_file w2)"
    using journalSteps_ok [OF assms(3) w1] by (simp_all add: workerOk_def)
  ultimately obtain e where e: "e \<in> set (t_checkpoints (w_file w2))"
    "pc_projectionName e = pc_projectionName c" "pc_sourceSequence c \<le> pc_sourceSequence e"
    using t(2) by (auto simp: grows_def)
  then have f: "findCheckpoint (pc_projectionName c) (w_file w2) = Some e"
    using findCheckpoint_unique [of "w_file w2" e] w2(1) by (simp add: tablesOk_def)
  have "checkpointAction c' (w_file w2) =
      internal PERSISTENCE_OPTIMISTIC_CONCURRENCY ''Projection checkpoint cannot move backwards''"
    using f e(3) assms(6,7) by (simp add: checkpointAction_def)
  then show ?thesis
    using f e(3) c(1) assms(4,5) by (simp add: runTransaction_def mapReply_def internal_def translateSqliteError_def)
qed

section \<open>An example journal\<close>

text \<open>A batch of one event, for the stream \<open>Workflow\<close>/\<open>w-1\<close>, and the worker that has committed it. The hash
  function stands for SHA-256.\<close>

definition exSha :: "jstring \<Rightarrow> jstring" where
  "exSha s = replicate 64 48"

definition exEvent :: "string \<Rightarrow> int \<Rightarrow> domainEventEnvelope" where
  "exEvent eventId version = \<lparr>ev_eventId = js eventId, ev_eventType = js ''WorkflowCreated'',
     ev_aggregateType = js ''Workflow'', ev_aggregateId = js ''w-1'', ev_aggregateVersion = version,
     ev_occurredAt = js ''2026-01-01T00:00:00Z'', ev_actor = JNull, ev_causationId = js ''c'',
     ev_correlationId = js ''c'',
     ev_payloadSchema = \<lparr>sr_schemaId = js ''s'', sr_schemaVersion = js ''1.0.0'', sr_schemaHash = replicate 64 48\<rparr>,
     ev_payloadHash = replicate 64 48, ev_payload = JObj []\<rparr>"

definition exBatch :: "string \<Rightarrow> string \<Rightarrow> journalAppendBatch" where
  "exBatch commandId eventId = \<lparr>ba_identity = \<lparr>id_commandId = js commandId, id_idempotencyKey = js commandId,
       id_effectScope = js ''Workflow'', id_payloadHash = replicate 64 48\<rparr>,
     ba_transactionId = js ''t'', ba_capturedAt = js ''2026-01-01T00:00:00Z'',
     ba_aggregateType = js ''Workflow'', ba_aggregateId = js ''w-1'', ba_expectedVersion = 0,
     ba_events = [exEvent eventId 1], ba_outbox = [], ba_audit = []\<rparr>"

definition exReceipt :: commitReceipt where
  "exReceipt = makeReceipt exSha (exBatch ''c-1'' ''e-1'') 0"

definition exTables :: tables where
  "exTables = emptyTables\<lparr>t_events := [(eventRowOf (exEvent ''e-1'' 1))\<lparr>er_sequence := 1\<rparr>],
     t_nextSequence := 2, t_receipts := [receiptRowOf (exBatch ''c-1'' ''e-1'') exReceipt]\<rparr>"

lemma sqlLength_zeros: "sqlLength (replicate n 48) = n"
  by (induction n) (simp_all add: isHigh_def)

lemmas ex_defs = exBatch_def exEvent_def exSha_def sqlLength_zeros

lemma ex_wf: "batchWf (exBatch c e)"
  by (simp add: batchWf_def eventWf_def exBatch_def exEvent_def)

lemma ex_commit:
  "handle exSha (ReqCommit (exBatch ''c-1'' ''e-1'')) (openWorker emptyTables) =
     (Inr (ReplyReceipt exReceipt), openWorker exTables)"
proof -
  let ?b = "exBatch ''c-1'' ''e-1''" and ?e = "exEvent ''e-1'' 1"
  have b: "ba_events ?b = [?e]" "ba_outbox ?b = []" "ba_audit ?b = []" "ba_expectedVersion ?b = 0"
    by (simp_all add: exBatch_def)
  have "insertEventRow (eventRowOf ?e) emptyTables =
      Inr (emptyTables\<lparr>t_events := [(eventRowOf ?e)\<lparr>er_sequence := 1\<rparr>], t_nextSequence := 2\<rparr>)"
    by (simp add: insertEventRow_Inr emptyTables_def ex_defs)
  moreover have "verifyEvent exSha ?e ?b 1 = Inr ()" by (simp add: verifyEvent_Inr ex_defs)
  ultimately have e: "insertEvents exSha ?b 0 (ba_events ?b) emptyTables =
      Inr (emptyTables\<lparr>t_events := [(eventRowOf ?e)\<lparr>er_sequence := 1\<rparr>], t_nextSequence := 2\<rparr>)"
    by (simp add: b del: bindE_Inr_iff)
  have r: "insertReceiptRow (receiptRowOf ?b exReceipt)
      (emptyTables\<lparr>t_events := [(eventRowOf ?e)\<lparr>er_sequence := 1\<rparr>], t_nextSequence := 2\<rparr>) = Inr exTables"
    by (simp add: insertReceiptRow_Inr emptyTables_def exTables_def exReceipt_def makeReceipt_def
        receiptHashOf_def Let_def ex_defs)
  have v: "currentAggregateVersion x y emptyTables = 0" for x y
    by (simp add: currentAggregateVersion_def emptyTables_def)
  have d: "findCommandDuplicate (ba_identity ?b) emptyTables = Inr None"
    by (simp add: findCommandDuplicate_None emptyTables_def)
  have "appendBatch exSha ?b emptyTables = Inr (exReceipt, exTables)"
    using e r unfolding appendBatch_def Let_def v b(2-4) exReceipt_def by (simp del: bindE_Inr_iff)
  then show ?thesis
    unfolding handle_commit using d b(2)
    by (simp add: commitBatch_def onDatabase_def visible_def openWorker_def verifyOutbox_def runTransaction_def
        commitAction_def del: bindE_Inr_iff)
qed

lemma ex_start: "reachableWorker sha (openWorker emptyTables)"
  by (simp add: reachableWorker_def)

lemma ex_step: "journalStep exSha (openWorker emptyTables) (openWorker exTables)"
  by (rule Handle [OF _ ex_commit]) (simp add: requestWf_def ex_wf)

lemma ex_reachable: "reachableWorker exSha (openWorker exTables)"
  unfolding reachableWorker_def using ex_step by blast

lemma ex_open: "w_open (openWorker t)" "w_transaction (openWorker t) = None" "w_file (openWorker t) = t"
  "visible (openWorker t) = t"
  by (simp_all add: openWorker_def visible_def)

theorem commit_idempotent_witness:
  "handle exSha (ReqCommit (exBatch ''c-1'' ''e-2'')) (openWorker exTables) =
     (Inr (ReplyReceipt exReceipt), openWorker exTables)"
  using commit_idempotent [OF ex_start ex_wf ex_commit rtranclp.rtrancl_refl ex_open(1),
      of "exBatch ''c-1'' ''e-2''"] by (simp add: exBatch_def)

theorem failed_request_no_effect_witness:
  "w_file (openWorker exTables) = exTables \<and> fst (handle exSha ReqReleaseLock (openWorker exTables)) \<noteq> Inr ReplyDone"
proof -
  have h: "handle exSha ReqReleaseLock (openWorker exTables) =
      (Inl (InternalError PERSISTENCE_CONTRACT_INVALID (js ''No qualification write lock is active'')), openWorker exTables)"
    by (simp add: releaseLock_def openWorker_def mapReply_def internal_def)
  from failed_request_no_effect [OF h] h show ?thesis by (simp add: ex_open)
qed

theorem journal_append_only_witness: "grows emptyTables exTables"
  using journal_append_only [OF ex_start r_into_rtranclp [of "journalStep exSha", OF ex_step]] by (simp add: ex_open)

theorem journal_tables_invariant_witness: "tablesOk exSha exTables"
  using journal_tables_invariant [OF ex_reachable] by (simp add: ex_open)

lemma ex_committable: "committable exSha (exBatch ''c-1'' ''e-1'') emptyTables"
  by (simp add: committable_def ex_defs emptyTables_def streamRows_def eventStorable_def makeReceipt_def
      receiptHashOf_def Let_def)


theorem commit_appends_witness: "rc_committedVersion exReceipt = 1"
  using commit_appends [OF ex_start ex_commit] by (simp add: ex_open emptyTables_def exBatch_def)

theorem commit_identity_conflict_witness:
  "\<exists>m. handle exSha (ReqCommit ((exBatch ''c-1'' ''e-2'')\<lparr>ba_identity := \<lparr>id_commandId = js ''c-1'',
      id_idempotencyKey = js ''k'', id_effectScope = js ''Workflow'', id_payloadHash = replicate 64 49\<rparr>\<rparr>))
      (openWorker exTables) = (Inl (InternalError PERSISTENCE_IDEMPOTENCY_CONFLICT m), openWorker exTables)"
  by (rule commit_identity_conflict [where row = "receiptRowOf (exBatch ''c-1'' ''e-1'') exReceipt"])
    (simp_all add: ex_open exTables_def sharesIdentity_def sameIdentity_def exBatch_def)

theorem readEvents_returns_stream_witness:
  "\<exists>es. map ev_aggregateVersion es = map int [1..<Suc (length es)] \<and>
    map er_eventJson (streamRows (js ''Workflow'') (js ''w-1'') exTables) = map (\<lambda>e. canon (eventJson e)) es"
  using readEvents_returns_stream [OF ex_reachable ex_open(1), of "js ''Workflow''" "js ''w-1''" "-1"]
  unfolding ex_open by blast

theorem commit_read_back_witness:
  "\<exists>js'. handle exSha (ReqReadEvents (js ''Workflow'') (js ''w-1'') (-1)) (openWorker exTables) =
     (Inr (ReplyEvents js'), openWorker exTables) \<and> take 1 js' = [norm (eventJson (exEvent ''e-1'' 1))]"
  using commit_read_back [OF ex_start ex_wf ex_commit _ rtranclp.rtrancl_refl ex_open(1)]
  by (simp add: ex_open emptyTables_def exBatch_def del: handle.simps norm.simps)

theorem concurrent_commits_exclude_witness:
  "\<exists>e. handle exSha (ReqCommit (exBatch ''c-2'' ''e-2'')) (openWorker exTables) = (Inl e, openWorker exTables)"
  by (rule concurrent_commits_exclude [OF ex_start ex_wf ex_commit _ _ rtranclp.rtrancl_refl])
    (simp_all add: ex_open emptyTables_def exBatch_def exTables_def)

lemma ex_lock: "handle exSha ReqHoldLock (openWorker exTables) =
    (Inr ReplyDone, (openWorker exTables)\<lparr>w_transaction := Some exTables, w_writeLockHeld := True\<rparr>)"
  by (simp add: holdLock_def openWorker_def mapReply_def)

lemma ex_locked: "reachableWorker exSha ((openWorker exTables)\<lparr>w_transaction := Some exTables, w_writeLockHeld := True\<rparr>)"
  by (rule reachable_steps [OF ex_reachable r_into_rtranclp, OF Handle [OF _ ex_lock]]) (simp add: requestWf_def)

theorem open_transaction_isolated_witness:
  "w_file (openWorker exTables) = exTables \<and> visible (openWorker exTables) = exTables"
  using open_transaction_isolated [OF ex_locked _ Restart] by (simp add: ex_open)

definition exInbox :: inboxRecord where
  "exInbox = \<lparr>ib_resultId = js ''r'', ib_taskId = js ''t'', ib_payloadHash = replicate 64 48,
     ib_status = js ''ACCEPTED'', ib_receivedAt = js ''2026-01-01T00:00:00Z''\<rparr>"

theorem inbox_idempotent_witness:
  "handle exSha (ReqRecordInbox exInbox) (openWorker (emptyTables\<lparr>t_inbox := [exInbox]\<rparr>)) =
     (Inr (ReplyInbox (exInbox\<lparr>ib_status := js ''DUPLICATE''\<rparr>)), openWorker (emptyTables\<lparr>t_inbox := [exInbox]\<rparr>))"
proof -
  have i: "insertInboxRow exInbox emptyTables = Inr (emptyTables\<lparr>t_inbox := [exInbox]\<rparr>)"
    by (simp add: insertInboxRow_Inr exInbox_def emptyTables_def sqlLength_zeros)
  have "handle exSha (ReqRecordInbox exInbox) (openWorker emptyTables) =
      (Inr (ReplyInbox exInbox), openWorker (emptyTables\<lparr>t_inbox := [exInbox]\<rparr>))"
    using i by (simp add: runTransaction_def inboxAction_def openWorker_def mapReply_def emptyTables_def
        del: bindE_Inr_iff)
  from inbox_idempotent [OF ex_start this rtranclp.rtrancl_refl ex_open(1,2)] show ?thesis
    by (simp add: ex_open emptyTables_def del: handle.simps)
qed

theorem checkpoint_monotone_witness:
  "\<exists>m. handle exSha (ReqSaveCheckpoint \<lparr>pc_projectionName = js ''p'', pc_projectionVersion = js ''1'',
      pc_sourceSequence = 4, pc_rebuiltFromSequence = None, pc_updatedAt = js ''u''\<rparr>)
     (openWorker (emptyTables\<lparr>t_checkpoints := [\<lparr>pc_projectionName = js ''p'', pc_projectionVersion = js ''1'',
      pc_sourceSequence = 5, pc_rebuiltFromSequence = None, pc_updatedAt = js ''u''\<rparr>]\<rparr>)) =
     (Inl (InternalError PERSISTENCE_OPTIMISTIC_CONCURRENCY m), openWorker (emptyTables\<lparr>t_checkpoints :=
       [\<lparr>pc_projectionName = js ''p'', pc_projectionVersion = js ''1'',
        pc_sourceSequence = 5, pc_rebuiltFromSequence = None, pc_updatedAt = js ''u''\<rparr>]\<rparr>))"
proof -
  let ?c = "\<lparr>pc_projectionName = js ''p'', pc_projectionVersion = js ''1'',
        pc_sourceSequence = 5, pc_rebuiltFromSequence = None, pc_updatedAt = js ''u''\<rparr>"
  have "handle exSha (ReqSaveCheckpoint ?c) (openWorker emptyTables) =
      (Inr (ReplyCheckpoint ?c), openWorker (emptyTables\<lparr>t_checkpoints := [?c]\<rparr>))"
    by (simp add: runTransaction_def checkpointAction_def upsertCheckpoint_def findCheckpoint_def
        openWorker_def mapReply_def emptyTables_def)
  from checkpoint_monotone [OF ex_start this rtranclp.rtrancl_refl ex_open(1,2),
      of "?c\<lparr>pc_sourceSequence := 4\<rparr>"]
  show ?thesis by (simp del: handle.simps)
qed

end
