(* ===== verification/Kernel.thy ===== *)
theory Kernel
  imports Contracts_Registry Journal_Properties
begin

text \<open>
  \<open>packages/kernel/src/index.ts\<close>: the deterministic kernel of an aggregate. Admission of a command, replay
  of a history and preparation of a transition, over a registry of schemas and a domain definition, with
  every error as a value. The SHA-256 function is the parameter \<open>sha\<close>. What a prepared transition
  promises is proved once, for every domain that satisfies the locale \<open>aggregate_domain\<close>.
\<close>

section \<open>Definitions of an aggregate\<close>

datatype kernelErrorCode =
    KERNEL_CONTRACT_INVALID | KERNEL_UNSUPPORTED_COMMAND | KERNEL_VERSION_CONFLICT
  | KERNEL_REPLAY_INVALID | KERNEL_DOMAIN_REJECTED

text \<open>A \<open>KernelError\<close> by its code, or an exception that is none.\<close>

datatype kernelError = KernelError kernelErrorCode | KernelException

record 's aggregateDefinition =
  ad_aggregateType :: jstring
  ad_commandSchemas :: "(jstring \<times> jstring) list"
  ad_eventSchemas :: "(jstring \<times> jstring) list"
  ad_decide :: "'s option \<Rightarrow> commandEnvelope \<Rightarrow> kernelError + unknown"
  ad_apply :: "'s option \<Rightarrow> domainEventEnvelope \<Rightarrow> kernelError + 's"

record 's replayResult =
  rp_state :: "'s option"
  rp_version :: int

record transitionContext =
  tc_eventId :: jstring
  tc_auditId :: jstring
  tc_transactionId :: jstring
  tc_occurredAt :: jstring

record 's preparedTransition =
  pt_batch :: journalAppendBatch
  pt_state :: 's
  pt_events :: "domainEventEnvelope list"

section \<open>Snapshots and schemas\<close>

definition commandIdentityOf :: "(jstring \<Rightarrow> jstring) \<Rightarrow> commandEnvelope \<Rightarrow> commandIdentity" where
  "commandIdentityOf sha command = \<lparr>id_commandId = cm_commandId command,
     id_idempotencyKey = cm_idempotencyKey command,
     id_effectScope = cm_aggregateType command @ js '':'' @ cm_aggregateId command,
     id_payloadHash = sha (canon (cm_object command))\<rparr>"

definition snapshot :: "unknown \<Rightarrow> kernelError + json" where
  "snapshot v = (case reparse v of Inl _ \<Rightarrow> Inl (KernelError KERNEL_CONTRACT_INVALID) | Inr j \<Rightarrow> Inr j)"

definition kernelSchema :: "jstring \<Rightarrow> contractIdentity" where
  "kernelSchema schemaId = \<lparr>ci_schemaId = schemaId, ci_schemaVersion = js ''1.0.0''\<rparr>"

definition validateSchema :: "contractRegistry \<Rightarrow> jstring \<Rightarrow> json \<Rightarrow> kernelError + json" where
  "validateSchema reg schemaId j =
     (case validateIdentity reg (kernelSchema schemaId) j of
        Inl _ \<Rightarrow> Inl KernelException
      | Inr (Inl _) \<Rightarrow> Inl (KernelError KERNEL_CONTRACT_INVALID)
      | Inr (Inr j') \<Rightarrow> Inr j')"

definition schemaRefFor :: "contractRegistry \<Rightarrow> jstring \<Rightarrow> kernelError + schemaRef" where
  "schemaRefFor reg schemaId =
     (case resolveIdentity reg (kernelSchema schemaId) of
        Inl _ \<Rightarrow> Inl (KernelError KERNEL_CONTRACT_INVALID)
      | Inr entry \<Rightarrow> Inr \<lparr>sr_schemaId = schemaId, sr_schemaVersion = se_schemaVersion entry,
          sr_schemaHash = se_sha256 entry\<rparr>)"

text \<open>\<open>#validatePayload\<close>, on the envelope's object.\<close>

definition validatePayload ::
    "(jstring \<Rightarrow> jstring) \<Rightarrow> contractRegistry \<Rightarrow> json \<Rightarrow> jstring \<Rightarrow> kernelError + unit" where
  "validatePayload sha reg envelope requiredSchema =
     bindE (schemaRefFor reg requiredSchema) (\<lambda>reference.
       if canon (schemaRefJson reference) \<noteq> canon (at envelope ''payloadSchema'') \<or>
          JStr (sha (canon (at envelope ''payload''))) \<noteq> at envelope ''payloadHash''
       then Inl (KernelError KERNEL_CONTRACT_INVALID)
       else bindE (validateSchema reg requiredSchema (at envelope ''payload'')) (\<lambda>_. Inr ()))"

definition commandSchemaId :: jstring where
  "commandSchemaId = js ''urn:aseos:schema:command-envelope:1.0.0''"

definition eventSchemaId :: jstring where
  "eventSchemaId = js ''urn:aseos:schema:domain-event-envelope:1.0.0''"

definition batchSchemaId :: jstring where
  "batchSchemaId = js ''urn:aseos:schema:journal-append-batch:1.0.0''"

section \<open>Admission\<close>

text \<open>The version after \<open>expectedVersion\<close> is a safe integer.\<close>

definition incrementable :: "json \<Rightarrow> bool" where
  "incrementable j =
     (case j of JNum x \<Rightarrow> isSafeInteger x \<and> num_to_int x < maxSafeInteger | _ \<Rightarrow> False)"

definition admitCommand ::
    "(jstring \<Rightarrow> jstring) \<Rightarrow> contractRegistry \<Rightarrow> 's aggregateDefinition \<Rightarrow> unknown \<Rightarrow> kernelError + commandEnvelope" where
  "admitCommand sha reg domain input =
     bindE (snapshot input) (\<lambda>captured.
     bindE (validateSchema reg commandSchemaId captured) (\<lambda>j.
     let command = commandOf j in
     case map_of (ad_commandSchemas domain) (cm_commandType command) of
       None \<Rightarrow> Inl (KernelError KERNEL_UNSUPPORTED_COMMAND)
     | Some requiredSchema \<Rightarrow>
         if cm_aggregateType command \<noteq> ad_aggregateType domain
         then Inl (KernelError KERNEL_UNSUPPORTED_COMMAND)
         else if \<not> incrementable (at j ''expectedVersion'')
         then Inl (KernelError KERNEL_CONTRACT_INVALID)
         else bindE (validatePayload sha reg j requiredSchema) (\<lambda>_. Inr command)))"

section \<open>Replay\<close>

definition isVersion :: "json \<Rightarrow> int \<Rightarrow> bool" where
  "isVersion j n = (case j of JNum x \<Rightarrow> isSafeInteger x \<and> num_to_int x = n | _ \<Rightarrow> False)"

definition replayEvent ::
    "(jstring \<Rightarrow> jstring) \<Rightarrow> contractRegistry \<Rightarrow> 's aggregateDefinition \<Rightarrow> jstring \<Rightarrow> 's replayResult
       \<Rightarrow> jstring list \<Rightarrow> json \<Rightarrow> kernelError + ('s replayResult \<times> jstring)" where
  "replayEvent sha reg domain aggregateId r eventIds input =
     bindE (validateSchema reg eventSchemaId input) (\<lambda>j.
     let event = eventOf j in
     case map_of (ad_eventSchemas domain) (ev_eventType event) of
       None \<Rightarrow> Inl (KernelError KERNEL_REPLAY_INVALID)
     | Some requiredSchema \<Rightarrow>
         if ev_aggregateType event \<noteq> ad_aggregateType domain \<or> ev_aggregateId event \<noteq> aggregateId \<or>
            \<not> isVersion (at j ''aggregateVersion'') (rp_version r + 1) \<or> ev_eventId event \<in> set eventIds
         then Inl (KernelError KERNEL_REPLAY_INVALID)
         else bindE (validatePayload sha reg j requiredSchema) (\<lambda>_.
              bindE (ad_apply domain (rp_state r) event) (\<lambda>state.
                Inr (\<lparr>rp_state = Some state, rp_version = ev_aggregateVersion event\<rparr>, ev_eventId event))))"

fun replayEvents ::
    "(jstring \<Rightarrow> jstring) \<Rightarrow> contractRegistry \<Rightarrow> 's aggregateDefinition \<Rightarrow> jstring \<Rightarrow> 's replayResult
       \<Rightarrow> jstring list \<Rightarrow> json list \<Rightarrow> kernelError + 's replayResult" where
  "replayEvents sha reg domain aggregateId r eventIds [] = Inr r"
| "replayEvents sha reg domain aggregateId r eventIds (input # inputs) =
     bindE (replayEvent sha reg domain aggregateId r eventIds input) (\<lambda>(r', eventId).
       replayEvents sha reg domain aggregateId r' (eventId # eventIds) inputs)"

definition replay ::
    "(jstring \<Rightarrow> jstring) \<Rightarrow> contractRegistry \<Rightarrow> 's aggregateDefinition \<Rightarrow> jstring \<Rightarrow> unknown
       \<Rightarrow> kernelError + 's replayResult" where
  "replay sha reg domain aggregateId inputs =
     (if length aggregateId < 1 \<or> length aggregateId > 256 then Inl (KernelError KERNEL_REPLAY_INVALID)
      else bindE (snapshot inputs) (\<lambda>history.
        case history of
          JArr items \<Rightarrow>
            replayEvents sha reg domain aggregateId \<lparr>rp_state = None, rp_version = 0\<rparr> [] items
        | _ \<Rightarrow> Inl (KernelError KERNEL_REPLAY_INVALID)))"

section \<open>Preparing a transition\<close>

definition auditJson :: "auditFact \<Rightarrow> json" where
  "auditJson a = JObj [(js ''auditId'', JStr (au_auditId a)), (js ''action'', JStr (au_action a)),
     (js ''occurredAt'', JStr (au_occurredAt a)), (js ''payloadHash'', JStr (au_payloadHash a))]"

definition batchJson :: "journalAppendBatch \<Rightarrow> json" where
  "batchJson b = JObj [
     (js ''schemaVersion'', JStr (js ''1.0.0'')),
     (js ''commandId'', JStr (id_commandId (ba_identity b))),
     (js ''idempotencyKey'', JStr (id_idempotencyKey (ba_identity b))),
     (js ''effectScope'', JStr (id_effectScope (ba_identity b))),
     (js ''payloadHash'', JStr (id_payloadHash (ba_identity b))),
     (js ''transactionId'', JStr (ba_transactionId b)),
     (js ''capturedAt'', JStr (ba_capturedAt b)),
     (js ''stream'', JObj [(js ''aggregateType'', JStr (ba_aggregateType b)),
        (js ''aggregateId'', JStr (ba_aggregateId b)),
        (js ''expectedVersion'', JNum (numInt (ba_expectedVersion b)))]),
     (js ''events'', JArr (map eventJson (ba_events b))),
     (js ''outbox'', JArr (map tk_object (ba_outbox b))),
     (js ''audit'', JArr (map auditJson (ba_audit b)))]"

definition newEvent ::
    "(jstring \<Rightarrow> jstring) \<Rightarrow> commandEnvelope \<Rightarrow> transitionContext \<Rightarrow> int \<Rightarrow> jstring \<Rightarrow> schemaRef \<Rightarrow> json
       \<Rightarrow> domainEventEnvelope" where
  "newEvent sha command context version eventType ref payload = \<lparr>
     ev_eventId = tc_eventId context, ev_eventType = eventType,
     ev_aggregateType = cm_aggregateType command, ev_aggregateId = cm_aggregateId command,
     ev_aggregateVersion = version + 1, ev_occurredAt = tc_occurredAt context,
     ev_actor = cm_actor command, ev_causationId = cm_commandId command,
     ev_correlationId = cm_correlationId command, ev_payloadSchema = ref,
     ev_payloadHash = sha (canon payload), ev_payload = payload\<rparr>"

definition newBatch ::
    "(jstring \<Rightarrow> jstring) \<Rightarrow> commandEnvelope \<Rightarrow> transitionContext \<Rightarrow> domainEventEnvelope \<Rightarrow> journalAppendBatch" where
  "newBatch sha command context event = (let identity = commandIdentityOf sha command in \<lparr>
     ba_identity = identity, ba_transactionId = tc_transactionId context,
     ba_capturedAt = tc_occurredAt context, ba_aggregateType = cm_aggregateType command,
     ba_aggregateId = cm_aggregateId command,
     ba_expectedVersion = num_to_int (cm_expectedVersion command), ba_events = [event], ba_outbox = [],
     ba_audit = [\<lparr>au_auditId = tc_auditId context, au_action = js ''KERNEL_COMMAND_COMMITTED'',
       au_occurredAt = tc_occurredAt context, au_payloadHash = id_payloadHash identity\<rparr>]\<rparr>)"

text \<open>The proposal of the domain: its event type must be known, and its payload present.\<close>

definition proposedEvent ::
    "'s aggregateDefinition \<Rightarrow> json \<Rightarrow> kernelError + (jstring \<times> jstring \<times> json option)" where
  "proposedEvent domain decision =
     (case decision of
        JNull \<Rightarrow> Inl KernelException
      | JObj obj \<Rightarrow>
          (case getKey obj ''eventType'' of
             Some (JStr eventType) \<Rightarrow>
               (case map_of (ad_eventSchemas domain) eventType of
                  None \<Rightarrow> Inl (KernelError KERNEL_DOMAIN_REJECTED)
                | Some schemaId \<Rightarrow> Inr (eventType, schemaId, getKey obj ''payload''))
           | _ \<Rightarrow> Inl (KernelError KERNEL_DOMAIN_REJECTED))
      | _ \<Rightarrow> Inl (KernelError KERNEL_DOMAIN_REJECTED))"

definition prepare ::
    "(jstring \<Rightarrow> jstring) \<Rightarrow> contractRegistry \<Rightarrow> 's aggregateDefinition \<Rightarrow> unknown \<Rightarrow> unknown \<Rightarrow> transitionContext
       \<Rightarrow> kernelError + 's preparedTransition" where
  "prepare sha reg domain input history context =
     bindE (admitCommand sha reg domain input) (\<lambda>command.
     bindE (snapshot history) (\<lambda>capturedHistory.
     bindE (replay sha reg domain (cm_aggregateId command) (of_json capturedHistory)) (\<lambda>replayed.
     if num_to_int (cm_expectedVersion command) \<noteq> rp_version replayed
     then Inl (KernelError KERNEL_VERSION_CONFLICT)
     else
       bindE (bindE (ad_decide domain (rp_state replayed) command) snapshot) (\<lambda>decision.
       bindE (proposedEvent domain decision) (\<lambda>(eventType, schemaId, proposal).
       bindE (schemaRefFor reg schemaId) (\<lambda>ref.
       case proposal of
         None \<Rightarrow> Inl KernelException
       | Some payload \<Rightarrow>
           let event = newEvent sha command context (rp_version replayed) eventType ref payload;
               extended = JArr ((case capturedHistory of JArr items \<Rightarrow> items | _ \<Rightarrow> []) @ [eventJson event])
           in
             bindE (replay sha reg domain (cm_aggregateId command) (of_json extended)) (\<lambda>next.
             case rp_state next of
               None \<Rightarrow> Inl (KernelError KERNEL_DOMAIN_REJECTED)
             | Some state \<Rightarrow>
                 let batch = newBatch sha command context event in
                 bindE (validateSchema reg batchSchemaId (batchJson batch)) (\<lambda>_.
                   Inr \<lparr>pt_batch = batch, pt_state = state, pt_events = ba_events batch\<rparr>))))))))"

section \<open>Snapshots\<close>

lemma json_wf_norm: "json_wf j \<Longrightarrow> json_wf (norm j)"
proof (induction j rule: norm.induct)
  case (2 kvs)
  have "mset (map fst (sort_key fst (map (\<lambda>(k, v). (k, norm v)) kvs))) = mset (map fst kvs)"
    by (simp add: mset_map image_mset.compositionality comp_def case_prod_unfold)
  then have "distinct (map fst (sort_key fst (map (\<lambda>(k, v). (k, norm v)) kvs)))"
    using "2.prems" by (metis json_wf.simps(6) mset_eq_imp_distinct_iff)
  moreover have "\<forall>(k, v) \<in> set (sort_key fst (map (\<lambda>(k, v). (k, norm v)) kvs)). json_wf v"
    using 2 by fastforce
  ultimately show ?case by simp
qed auto

lemma snapshot_json: "json_wf j \<Longrightarrow> snapshot (of_json j) = Inr (norm j)"
  by (simp add: snapshot_def reparse_json)

lemma snapshot_Inr:
  assumes "unknown_wf v" "snapshot v = Inr j"
  obtains i where "v = of_json i" "json_wf i" "j = norm i" "json_wf j" "norm j = j"
proof -
  have "reparse v = Inr j" using assms(2) by (auto simp: snapshot_def split: sum.splits)
  then obtain i where "v = of_json i" "json_wf i" "j = norm i" using reparse_Inr [OF assms(1)] by blast
  then show thesis using that json_wf_norm norm_norm by blast
qed

lemma validateSchema_Inr: "validateSchema reg i j = Inr k \<Longrightarrow> k = j"
  by (auto simp: validateSchema_def validateIdentity_def split: sum.splits option.splits)

section \<open>What replay accepts\<close>

text \<open>An event of a history at its place: of the stream, with the next version, a known type and the
  hash of its payload.\<close>

definition eventFits :: "(jstring \<Rightarrow> jstring) \<Rightarrow> 's aggregateDefinition \<Rightarrow> jstring \<Rightarrow> int \<Rightarrow> json \<Rightarrow> bool" where
  "eventFits sha domain aggregateId version j \<longleftrightarrow>
     ev_aggregateType (eventOf j) = ad_aggregateType domain \<and> ev_aggregateId (eventOf j) = aggregateId \<and>
     isVersion (at j ''aggregateVersion'') version \<and>
     at j ''payloadHash'' = JStr (sha (canon (at j ''payload''))) \<and>
     map_of (ad_eventSchemas domain) (ev_eventType (eventOf j)) \<noteq> None"

lemma isVersion_intAt: "isVersion (at j ''aggregateVersion'') n \<Longrightarrow> intAt j ''aggregateVersion'' = n"
  by (auto simp: isVersion_def at_def intAt_def split: json.splits option.splits)

lemma replayEvent_Inr:
  assumes "replayEvent sha reg domain i r ids j = Inr (r', eventId)"
  shows "eventFits sha domain i (rp_version r + 1) j" "eventId = ev_eventId (eventOf j)" "eventId \<notin> set ids"
    "rp_version r' = rp_version r + 1"
    "\<exists>s. ad_apply domain (rp_state r) (eventOf j) = Inr s \<and> rp_state r' = Some s"
proof -
  obtain k where k: "validateSchema reg eventSchemaId j = Inr k" using assms by (auto simp: replayEvent_def)
  then have kj: "k = j" by (rule validateSchema_Inr)
  from assms k kj obtain schema where
    s: "map_of (ad_eventSchemas domain) (ev_eventType (eventOf j)) = Some schema"
    by (auto simp: replayEvent_def Let_def split: option.splits)
  from assms k kj s have a: "ev_aggregateType (eventOf j) = ad_aggregateType domain"
    "ev_aggregateId (eventOf j) = i" "isVersion (at j ''aggregateVersion'') (rp_version r + 1)"
    "ev_eventId (eventOf j) \<notin> set ids" "validatePayload sha reg j schema = Inr ()"
    "eventId = ev_eventId (eventOf j)" "rp_version r' = ev_aggregateVersion (eventOf j)"
    "\<exists>s. ad_apply domain (rp_state r) (eventOf j) = Inr s \<and> rp_state r' = Some s"
    by (auto simp: replayEvent_def Let_def split: if_splits)
  have "at j ''payloadHash'' = JStr (sha (canon (at j ''payload'')))"
    using a(5) by (auto simp: validatePayload_def split: if_splits)
  with a s show "eventFits sha domain i (rp_version r + 1) j" by (simp add: eventFits_def)
  show "eventId = ev_eventId (eventOf j)" "eventId \<notin> set ids"
    "\<exists>s. ad_apply domain (rp_state r) (eventOf j) = Inr s \<and> rp_state r' = Some s"
    using a by simp_all
  show "rp_version r' = rp_version r + 1"
    using a(7) isVersion_intAt [OF a(3)] by (simp add: eventOf_def)
qed

lemma replayEvents_Inr:
  "replayEvents sha reg domain i r ids js' = Inr r' \<Longrightarrow>
     rp_version r' = rp_version r + int (length js') \<and>
     (\<forall>k < length js'. eventFits sha domain i (rp_version r + 1 + int k) (js' ! k)) \<and>
     distinct (map (\<lambda>j. ev_eventId (eventOf j)) js') \<and>
     set (map (\<lambda>j. ev_eventId (eventOf j)) js') \<inter> set ids = {} \<and>
     (js' \<noteq> [] \<longrightarrow> rp_state r' \<noteq> None)"
proof (induction js' arbitrary: r ids)
  case (Cons j js')
  then obtain r1 e where s: "replayEvent sha reg domain i r ids j = Inr (r1, e)" and
    rest: "replayEvents sha reg domain i r1 (e # ids) js' = Inr r'" by auto
  note a = replayEvent_Inr [OF s] and ih = Cons.IH [OF rest]
  have fits: "\<forall>k < length js'. eventFits sha domain i (rp_version r + 2 + int k) (js' ! k)"
    using ih a(4) by (simp add: add.commute)
  have "eventFits sha domain i (rp_version r + 1 + int k) ((j # js') ! k)" if "k < length (j # js')" for k
  proof (cases k)
    case 0
    then show ?thesis using a(1) by simp
  next
    case (Suc n)
    then have "eventFits sha domain i (rp_version r + 2 + int n) (js' ! n)" using fits that by simp
    moreover have "rp_version r + 2 + int n = rp_version r + 1 + int k" by (simp add: Suc)
    ultimately show ?thesis by (simp only: Suc nth_Cons_Suc)
  qed
  moreover have "rp_state r' \<noteq> None"
    using ih a(5) rest by (cases js') auto
  moreover have "rp_version r' = rp_version r + int (length (j # js'))" using ih a(4) by simp
  moreover have "set (map (\<lambda>j. ev_eventId (eventOf j)) (j # js')) \<inter> set ids = {}"
    "distinct (map (\<lambda>j. ev_eventId (eventOf j)) (j # js'))"
    using ih a(2,3) by auto
  ultimately show ?case by blast
qed simp

lemma replay_Inr:
  assumes "replay sha reg domain i (of_json (JArr items)) = Inr r" "\<forall>j \<in> set items. json_wf j"
  shows "replayEvents sha reg domain i \<lparr>rp_state = None, rp_version = 0\<rparr> [] (map norm items) = Inr r"
  using assms by (auto simp: replay_def snapshot_json split: if_splits simp del: of_json.simps)

text \<open>Replay sees the histories of one normal form alike.\<close>

lemma replay_norm:
  assumes "\<forall>j \<in> set items. json_wf j" "\<forall>j \<in> set items'. json_wf j" "map norm items' = map norm items"
  shows "replay sha reg domain i (of_json (JArr items')) = replay sha reg domain i (of_json (JArr items))"
  using assms by (simp add: replay_def snapshot_json del: of_json.simps)

text \<open>Replaying events one by one from an intermediate result.\<close>

lemma replayEvents_append:
  "replayEvents sha reg domain i r ids (xs @ ys) = Inr r' \<Longrightarrow>
     \<exists>r1. replayEvents sha reg domain i r ids xs = Inr r1"
proof (induction xs arbitrary: r ids)
  case (Cons x xs)
  then obtain r1 e where "replayEvent sha reg domain i r ids x = Inr (r1, e)"
    "replayEvents sha reg domain i r1 (e # ids) (xs @ ys) = Inr r'" by auto
  with Cons.IH show ?case by (fastforce simp del: bindE_Inr_iff)
qed simp

section \<open>A domain that keeps an invariant\<close>

text \<open>
  What the kernel may assume of an aggregate: a state that \<open>apply\<close> makes belongs to the event's stream
  and version, and proposals are values of the language.
\<close>

locale aggregate_domain =
  fixes domain :: "'s aggregateDefinition" and inv :: "jstring \<Rightarrow> int \<Rightarrow> 's \<Rightarrow> bool"
  assumes apply_first: "ad_apply domain None event = Inr s \<Longrightarrow> ev_aggregateVersion event = 1 \<Longrightarrow>
      inv (ev_aggregateId event) 1 s"
    and apply_next: "ad_apply domain (Some s0) event = Inr s \<Longrightarrow>
      inv (ev_aggregateId event) (ev_aggregateVersion event - 1) s0 \<Longrightarrow>
      inv (ev_aggregateId event) (ev_aggregateVersion event) s"
    and decide_wf: "ad_decide domain state command = Inr decision \<Longrightarrow> json_wf (cm_payload command) \<Longrightarrow>
      unknown_wf decision"
begin

lemma replayEvents_inv:
  assumes "replayEvents sha reg domain i r ids items = Inr r'"
    "case rp_state r of None \<Rightarrow> rp_version r = 0 | Some s \<Rightarrow> inv i (rp_version r) s"
  shows "case rp_state r' of None \<Rightarrow> rp_version r' = 0 | Some s \<Rightarrow> inv i (rp_version r') s"
  using assms
proof (induction items arbitrary: r ids)
  case (Cons j items)
  then obtain r1 e where s: "replayEvent sha reg domain i r ids j = Inr (r1, e)" and
    rest: "replayEvents sha reg domain i r1 (e # ids) items = Inr r'" by auto
  note a = replayEvent_Inr [OF s]
  then obtain st where st: "ad_apply domain (rp_state r) (eventOf j) = Inr st" "rp_state r1 = Some st" by blast
  have ev: "ev_aggregateId (eventOf j) = i" "ev_aggregateVersion (eventOf j) = rp_version r + 1"
    using a(1) isVersion_intAt [of j "rp_version r + 1"] by (auto simp: eventFits_def eventOf_def)
  have "inv i (rp_version r1) st"
  proof (cases "rp_state r")
    case None
    then have "ev_aggregateVersion (eventOf j) = 1" using Cons.prems(2) ev by simp
    with None st apply_first [of "eventOf j" st] a(4) ev show ?thesis by simp
  next
    case (Some s0)
    with st apply_next [of s0 "eventOf j" st] Cons.prems(2) a(4) ev show ?thesis by simp
  qed
  with Cons.IH [OF rest] st show ?case by simp
qed simp

lemma replay_state:
  assumes "replay sha reg domain i inputs = Inr r"
  shows "case rp_state r of None \<Rightarrow> rp_version r = 0 | Some s \<Rightarrow> inv i (rp_version r) s"
proof -
  obtain h where h: "(case h of JArr items \<Rightarrow>
      replayEvents sha reg domain i \<lparr>rp_state = None, rp_version = 0\<rparr> [] items
      | _ \<Rightarrow> Inl (KernelError KERNEL_REPLAY_INVALID)) = Inr r"
    using assms by (auto simp: replay_def split: if_splits)
  then obtain items where "replayEvents sha reg domain i \<lparr>rp_state = None, rp_version = 0\<rparr> [] items = Inr r"
    by (cases h) simp_all
  then show ?thesis by (rule replayEvents_inv) simp
qed

end

section \<open>What a prepared transition promises\<close>

lemma json_wf_at: "json_wf j \<Longrightarrow> json_wf (at j k)"
  by (cases j) (auto simp: at_def dest: map_of_SomeD split: option.splits)

lemma json_wf_getKey: "json_wf (JObj obj) \<Longrightarrow> getKey obj k = Some v \<Longrightarrow> json_wf v"
  by (auto dest: map_of_SomeD)

lemma admitCommand_Inr:
  assumes "admitCommand sha reg domain input = Inr command"
  shows "snapshot input = Inr (cm_object command)" "command = commandOf (cm_object command)"
    "cm_aggregateType command = ad_aggregateType domain" "isSafeInteger (cm_expectedVersion command)"
    "num_to_int (cm_expectedVersion command) < maxSafeInteger"
    "map_of (ad_commandSchemas domain) (cm_commandType command) \<noteq> None"
proof -
  obtain j k where j: "snapshot input = Inr j" "validateSchema reg commandSchemaId j = Inr k"
    using assms by (auto simp: admitCommand_def)
  have k: "k = j" using j(2) by (rule validateSchema_Inr)
  obtain schema where s: "map_of (ad_commandSchemas domain) (cm_commandType (commandOf j)) = Some schema"
    using assms j k by (auto simp: admitCommand_def Let_def split: option.splits)
  have c: "command = commandOf j" "cm_aggregateType (commandOf j) = ad_aggregateType domain"
    "isSafeInteger (cm_expectedVersion (commandOf j))" "num_to_int (cm_expectedVersion (commandOf j)) < maxSafeInteger"
    using assms j k s
    by (auto simp: admitCommand_def Let_def incrementable_def commandOf_def split: if_splits json.splits)
  have "cm_object command = j" by (simp add: c(1) commandOf_def)
  then show "snapshot input = Inr (cm_object command)" "command = commandOf (cm_object command)"
    "cm_aggregateType command = ad_aggregateType domain" "isSafeInteger (cm_expectedVersion command)"
    "num_to_int (cm_expectedVersion command) < maxSafeInteger"
    "map_of (ad_commandSchemas domain) (cm_commandType command) \<noteq> None"
    using c j s by simp_all
qed

lemma admitted_wf:
  assumes "admitCommand sha reg domain input = Inr command" "unknown_wf input"
  shows "json_wf (cm_object command)" "json_wf (cm_actor command)" "json_wf (cm_payload command)"
proof -
  note a = admitCommand_Inr [OF assms(1)]
  show w: "json_wf (cm_object command)" by (rule snapshot_Inr [OF assms(2) a(1)])
  show "json_wf (cm_actor command)" "json_wf (cm_payload command)"
    by (subst a(2), simp add: commandOf_def json_wf_at w)+
qed

lemma replay_Inr_array:
  assumes "replay sha reg domain i (of_json h) = Inr r" "json_wf h"
  obtains items where "h = JArr items"
  using assms by (cases h) (auto simp: replay_def snapshot_json split: if_splits simp del: of_json.simps)

text \<open>The steps of \<open>prepare\<close>.\<close>

lemma prepare_steps:
  assumes "prepare sha reg domain input history context = Inr t"
  obtains command h r d decision eventType schemaId payload ref nxt where
    "admitCommand sha reg domain input = Inr command" "snapshot history = Inr h"
    "replay sha reg domain (cm_aggregateId command) (of_json h) = Inr r"
    "num_to_int (cm_expectedVersion command) = rp_version r"
    "ad_decide domain (rp_state r) command = Inr d" "snapshot d = Inr decision"
    "proposedEvent domain decision = Inr (eventType, schemaId, Some payload)"
    "schemaRefFor reg schemaId = Inr ref"
    "replay sha reg domain (cm_aggregateId command)
      (of_json (JArr ((case h of JArr items \<Rightarrow> items | _ \<Rightarrow> []) @
        [eventJson (newEvent sha command context (rp_version r) eventType ref payload)]))) = Inr nxt"
    "rp_state nxt = Some (pt_state t)"
    "pt_batch t = newBatch sha command context (newEvent sha command context (rp_version r) eventType ref payload)"
    "pt_events t = ba_events (pt_batch t)"
    "validateSchema reg batchSchemaId (batchJson (pt_batch t)) = Inr (batchJson (pt_batch t))"
proof -
  from assms obtain command where c: "admitCommand sha reg domain input = Inr command"
    unfolding prepare_def bindE_Inr_iff by blast
  from assms obtain h where h: "snapshot history = Inr h"
    unfolding prepare_def bindE_Inr_iff by blast
  from assms c h obtain r where r: "replay sha reg domain (cm_aggregateId command) (of_json h) = Inr r"
    by (auto simp: prepare_def)
  from assms c h r have v: "num_to_int (cm_expectedVersion command) = rp_version r"
    by (auto simp: prepare_def split: if_splits)
  from assms c h r v obtain d decision where d: "ad_decide domain (rp_state r) command = Inr d" "snapshot d = Inr decision"
    by (auto simp: prepare_def)
  from assms c h r v d obtain eventType schemaId proposal where p: "proposedEvent domain decision = Inr (eventType, schemaId, proposal)"
    by (auto simp: prepare_def)
  from assms c h r v d p obtain ref where ref: "schemaRefFor reg schemaId = Inr ref" by (auto simp: prepare_def)
  from assms c h r v d p ref obtain payload where payload: "proposal = Some payload"
    by (auto simp: prepare_def split: option.splits)
  let ?event = "newEvent sha command context (rp_version r) eventType ref payload"
  let ?extended = "JArr ((case h of JArr items \<Rightarrow> items | _ \<Rightarrow> []) @ [eventJson ?event])"
  have rest: "bindE (replay sha reg domain (cm_aggregateId command) (of_json ?extended)) (\<lambda>nxt.
       case rp_state nxt of
         None \<Rightarrow> Inl (KernelError KERNEL_DOMAIN_REJECTED)
       | Some state \<Rightarrow>
           let batch = newBatch sha command context ?event in
           bindE (validateSchema reg batchSchemaId (batchJson batch)) (\<lambda>_.
             Inr \<lparr>pt_batch = batch, pt_state = state, pt_events = ba_events batch\<rparr>)) = Inr t"
    using assms c h r v d p ref payload by (simp add: prepare_def Let_def del: bindE_Inr_iff of_json.simps)
  then obtain nxt where n: "replay sha reg domain (cm_aggregateId command) (of_json ?extended) = Inr nxt"
    unfolding bindE_Inr_iff by blast
  with rest obtain state where st: "rp_state nxt = Some state" by (auto split: option.splits)
  let ?batch = "newBatch sha command context ?event"
  from rest n st obtain k where k: "validateSchema reg batchSchemaId (batchJson ?batch) = Inr k"
    and t: "t = \<lparr>pt_batch = ?batch, pt_state = state, pt_events = ba_events ?batch\<rparr>"
    by (auto simp: Let_def simp del: of_json.simps)
  have "validateSchema reg batchSchemaId (batchJson ?batch) = Inr (batchJson ?batch)"
    using validateSchema_Inr [OF k] k by simp
  then show thesis
    using c h r v d p ref payload n st t by (intro that [of command h r d decision eventType schemaId payload ref nxt]) simp_all
qed

context aggregate_domain
begin

lemma prepare_recoverable:
  assumes p: "prepare sha reg domain input (of_json (JArr items)) context = Inr t"
    and wf: "\<forall>j \<in> set items. json_wf j" "unknown_wf input"
  shows "\<exists>command event. admitCommand sha reg domain input = Inr command \<and>
    pt_batch t = newBatch sha command context event \<and> eventWf event \<and>
    num_to_int (cm_expectedVersion command) = int (length items) \<and>
    ev_eventId event = tc_eventId context \<and> ev_causationId event = cm_commandId command \<and>
    ev_aggregateType event = cm_aggregateType command \<and> ev_aggregateId event = cm_aggregateId command \<and>
    ev_aggregateVersion event = int (length items) + 1 \<and>
    ev_payloadHash event = sha (canon (ev_payload event)) \<and>
    inv (cm_aggregateId command) (int (length items) + 1) (pt_state t) \<and>
    (\<forall>stored. (\<forall>j \<in> set stored. json_wf j) \<longrightarrow>
      map norm stored = map norm items @ [norm (eventJson event)] \<longrightarrow>
      replay sha reg domain (cm_aggregateId command) (of_json (JArr stored)) =
        Inr \<lparr>rp_state = Some (pt_state t), rp_version = int (length items) + 1\<rparr>)"
proof (rule prepare_steps [OF p])
  fix command h r d decision eventType schemaId payload ref nxt
  assume c: "admitCommand sha reg domain input = Inr command" and
    h: "snapshot (of_json (JArr items)) = Inr h" and
    r: "replay sha reg domain (cm_aggregateId command) (of_json h) = Inr r" and
    v: "num_to_int (cm_expectedVersion command) = rp_version r" and
    d: "ad_decide domain (rp_state r) command = Inr d" "snapshot d = Inr decision" and
    pe: "proposedEvent domain decision = Inr (eventType, schemaId, Some payload)" and
    n: "replay sha reg domain (cm_aggregateId command)
      (of_json (JArr ((case h of JArr items \<Rightarrow> items | _ \<Rightarrow> []) @
        [eventJson (newEvent sha command context (rp_version r) eventType ref payload)]))) = Inr nxt" and
    st: "rp_state nxt = Some (pt_state t)" and
    b: "pt_batch t = newBatch sha command context (newEvent sha command context (rp_version r) eventType ref payload)"
  define event where "event = newEvent sha command context (rp_version r) eventType ref payload"
  have h': "h = JArr (map norm items)" using h wf(1) by (simp add: snapshot_json del: of_json.simps)
  have nwf: "\<forall>j \<in> set (map norm items). json_wf j" using wf(1) json_wf_norm by auto
  have rv: "rp_version r = int (length items)"
    using replayEvents_Inr [OF replay_Inr [OF r [unfolded h'] nwf]] by simp
  note cwf = admitted_wf [OF c wf(2)]
  have dwf: "unknown_wf d" using decide_wf [OF d(1) cwf(3)] .
  have "json_wf payload"
  proof -
    have "json_wf decision" by (rule snapshot_Inr [OF dwf d(2)])
    moreover obtain obj where "decision = JObj obj" "getKey obj ''payload'' = Some payload"
      using pe by (auto simp: proposedEvent_def split: json.splits option.splits)
    ultimately show ?thesis using json_wf_getKey by blast
  qed
  then have ewf: "eventWf event" using cwf(2) by (simp add: eventWf_def event_def newEvent_def)
  then have ejwf: "json_wf (eventJson event)" by (simp add: eventWf_def eventJson_wf)
  have n': "replay sha reg domain (cm_aggregateId command) (of_json (JArr (map norm items @ [eventJson event]))) = Inr nxt"
    using n h' by (simp add: event_def del: of_json.simps)
  have xwf: "\<forall>j \<in> set (map norm items @ [eventJson event]). json_wf j" using nwf ejwf by auto
  have nv: "rp_version nxt = int (length items) + 1"
    using replayEvents_Inr [OF replay_Inr [OF n' xwf]] by simp
  have iv: "inv (cm_aggregateId command) (int (length items) + 1) (pt_state t)"
    using replay_state [OF n'] st nv by simp
  have next_eq: "nxt = \<lparr>rp_state = Some (pt_state t), rp_version = int (length items) + 1\<rparr>"
    using st nv by (cases nxt) simp
  have "replay sha reg domain (cm_aggregateId command) (of_json (JArr stored)) = Inr nxt"
    if "\<forall>j \<in> set stored. json_wf j" "map norm stored = map norm items @ [norm (eventJson event)]" for stored
  proof -
    have "map norm stored = map norm (map norm items @ [eventJson event])"
      using that(2) by (simp add: norm_norm comp_def)
    from replay_norm [OF xwf that(1) this, of sha reg domain "cm_aggregateId command"] n'
    show ?thesis by (rule trans)
  qed
  then show ?thesis
    using c b ewf rv v iv unfolding next_eq event_def [symmetric]
    by (intro exI [of _ command] exI [of _ event]) (simp add: event_def newEvent_def del: of_json.simps)
qed

end

end
