(* ===== verification/Workflow.thy ===== *)
theory Workflow
  imports Kernel
begin

text \<open>
  \<open>packages/workflow/src/index.ts\<close>: the aggregate \<open>WorkflowRun\<close>, created once by its first event.
\<close>

section \<open>The aggregate\<close>

datatype workflowRunStatus = CREATED

record workflowRunState =
  wr_runId :: jstring
  wr_version :: int
  wr_status :: workflowRunStatus
  wr_workflowDefinitionId :: jstring
  wr_workflowDefinitionVersion :: jstring
  wr_createdByCommandId :: jstring
  wr_createdAt :: jstring

text \<open>\<open>payload.key\<close>: reading a property of \<open>null\<close> throws, an absent one is \<open>undefined\<close>.\<close>

definition property :: "json \<Rightarrow> string \<Rightarrow> kernelError + unknown" where
  "property payload k =
     (case payload of
        JNull \<Rightarrow> Inl KernelException
      | JObj obj \<Rightarrow> Inr (case getKey obj k of None \<Rightarrow> UUndefined | Some v \<Rightarrow> of_json v)
      | _ \<Rightarrow> Inr UUndefined)"

definition ownField :: "string \<Rightarrow> unknown \<Rightarrow> member" where
  "ownField k v = Member (Some (js k)) True True v"

definition decide :: "workflowRunState option \<Rightarrow> commandEnvelope \<Rightarrow> kernelError + unknown" where
  "decide state command =
     (if state \<noteq> None \<or> cm_commandType command \<noteq> js ''CreateWorkflowRun'' \<or>
         cm_expectedVersion command \<noteq> numInt 0
      then Inl (KernelError KERNEL_DOMAIN_REJECTED)
      else
        let payload = cm_payload command in
        bindE (property payload ''workflowDefinitionId'') (\<lambda>definitionId.
        bindE (property payload ''workflowDefinitionVersion'') (\<lambda>definitionVersion.
          Inr (UObj True [
            ownField ''eventType'' (UStr (js ''WorkflowRunCreated'')),
            ownField ''payload'' (UObj True [
              ownField ''workflowDefinitionId'' definitionId,
              ownField ''workflowDefinitionVersion'' definitionVersion,
              ownField ''createdByCommandId'' (UStr (cm_commandId command))])]))))"

definition applyRun :: "workflowRunState option \<Rightarrow> domainEventEnvelope \<Rightarrow> kernelError + workflowRunState" where
  "applyRun state event =
     (let payload = ev_payload event in
      if state \<noteq> None \<or> ev_eventType event \<noteq> js ''WorkflowRunCreated'' \<or> ev_aggregateVersion event \<noteq> 1
      then Inl (KernelError KERNEL_REPLAY_INVALID)
      else
        bindE (property payload ''createdByCommandId'') (\<lambda>createdBy.
        if createdBy \<noteq> UStr (ev_causationId event) then Inl (KernelError KERNEL_REPLAY_INVALID)
        else Inr \<lparr>wr_runId = ev_aggregateId event, wr_version = ev_aggregateVersion event,
               wr_status = CREATED,
               wr_workflowDefinitionId = strAt payload ''workflowDefinitionId'',
               wr_workflowDefinitionVersion = strAt payload ''workflowDefinitionVersion'',
               wr_createdByCommandId = strAt payload ''createdByCommandId'',
               wr_createdAt = ev_occurredAt event\<rparr>))"

definition workflowRunDefinition :: "workflowRunState aggregateDefinition" where
  "workflowRunDefinition = \<lparr>ad_aggregateType = js ''WorkflowRun'',
     ad_commandSchemas =
       [(js ''CreateWorkflowRun'', js ''urn:aseos:schema:create-workflow-run-payload:1.0.0'')],
     ad_eventSchemas =
       [(js ''WorkflowRunCreated'', js ''urn:aseos:schema:workflow-run-created-payload:1.0.0'')],
     ad_decide = decide, ad_apply = applyRun\<rparr>"

lemma workflowRunDefinition_simps [simp]:
  "ad_aggregateType workflowRunDefinition = js ''WorkflowRun''"
  "ad_decide workflowRunDefinition = decide" "ad_apply workflowRunDefinition = applyRun"
  "map_of (ad_commandSchemas workflowRunDefinition) ty = (if ty = js ''CreateWorkflowRun''
     then Some (js ''urn:aseos:schema:create-workflow-run-payload:1.0.0'') else None)"
  "map_of (ad_eventSchemas workflowRunDefinition) ty = (if ty = js ''WorkflowRunCreated''
     then Some (js ''urn:aseos:schema:workflow-run-created-payload:1.0.0'') else None)"
  by (simp_all add: workflowRunDefinition_def)

section \<open>What a run remembers\<close>

text \<open>The state after one event, of the run with that identity.\<close>

definition runOk :: "jstring \<Rightarrow> int \<Rightarrow> workflowRunState \<Rightarrow> bool" where
  "runOk aggregateId version state \<longleftrightarrow> version = 1 \<and> wr_runId state = aggregateId \<and> wr_version state = 1 \<and>
     wr_status state = CREATED"

lemma applyRun_Inr:
  "applyRun state event = Inr s \<longleftrightarrow>
     state = None \<and> ev_eventType event = js ''WorkflowRunCreated'' \<and> ev_aggregateVersion event = 1 \<and>
     property (ev_payload event) ''createdByCommandId'' = Inr (UStr (ev_causationId event)) \<and>
     s = \<lparr>wr_runId = ev_aggregateId event, wr_version = 1, wr_status = CREATED,
       wr_workflowDefinitionId = strAt (ev_payload event) ''workflowDefinitionId'',
       wr_workflowDefinitionVersion = strAt (ev_payload event) ''workflowDefinitionVersion'',
       wr_createdByCommandId = strAt (ev_payload event) ''createdByCommandId'',
       wr_createdAt = ev_occurredAt event\<rparr>"
  by (auto simp: applyRun_def Let_def)

lemma property_wf: "property payload k = Inr v \<Longrightarrow> json_wf payload \<Longrightarrow> unknown_wf v"
  by (auto simp: property_def unknown_wf_of_json dest: map_of_SomeD split: json.splits option.splits)

lemma decide_wf_run:
  assumes "decide state command = Inr d" "json_wf (cm_payload command)"
  shows "unknown_wf d"
proof -
  obtain a b where "property (cm_payload command) ''workflowDefinitionId'' = Inr a"
    "property (cm_payload command) ''workflowDefinitionVersion'' = Inr b" and
    d: "d = UObj True [ownField ''eventType'' (UStr (js ''WorkflowRunCreated'')),
            ownField ''payload'' (UObj True [ownField ''workflowDefinitionId'' a,
              ownField ''workflowDefinitionVersion'' b,
              ownField ''createdByCommandId'' (UStr (cm_commandId command))])]"
    using assms(1) by (auto simp: decide_def Let_def split: if_splits)
  then have "unknown_wf a" "unknown_wf b" using property_wf assms(2) by blast+
  then show ?thesis by (simp add: d ownField_def)
qed

interpretation run: aggregate_domain workflowRunDefinition runOk
  by unfold_locales (auto simp: applyRun_Inr runOk_def intro: decide_wf_run)

section \<open>Properties\<close>

text \<open>C18. A replay that succeeds has checked its whole history: the version is the number of events, the
  event at each place has the next version of the requested stream, a known type and the hash of its
  payload, and no event id repeats; the state is absent only before the first event.\<close>

theorem replay_sound:
  assumes "replay sha reg domain i (of_json (JArr items)) = Inr r" "\<forall>j \<in> set items. json_wf j"
  shows "rp_version r = int (length items) \<and>
    (\<forall>k < length items. eventFits sha domain i (int k + 1) (norm (items ! k))) \<and>
    distinct (map (\<lambda>j. ev_eventId (eventOf (norm j))) items) \<and>
    (items \<noteq> [] \<longrightarrow> rp_state r \<noteq> None)"
proof -
  note a = replayEvents_Inr [OF replay_Inr [OF assms]]
  have "eventFits sha domain i (int k + 1) (norm (items ! k))" if "k < length items" for k
    using a that by (simp add: add.commute)
  then show ?thesis using a by (simp add: comp_def)
qed

lemma replay_run:
  assumes "replayEvents sha reg workflowRunDefinition i \<lparr>rp_state = None, rp_version = 0\<rparr> [] items = Inr r"
  shows "items = [] \<and> r = \<lparr>rp_state = None, rp_version = 0\<rparr> \<or>
    (\<exists>j s. items = [j] \<and> r = \<lparr>rp_state = Some s, rp_version = 1\<rparr> \<and>
      eventFits sha workflowRunDefinition i 1 j \<and> applyRun None (eventOf j) = Inr s)"
proof (cases items)
  case Nil
  then show ?thesis using assms by simp
next
  case (Cons j rest)
  then obtain r1 e where s: "replayEvent sha reg workflowRunDefinition i \<lparr>rp_state = None, rp_version = 0\<rparr> [] j = Inr (r1, e)"
    and rest: "replayEvents sha reg workflowRunDefinition i r1 [e] rest = Inr r" using assms by auto
  note a = replayEvent_Inr [OF s]
  then obtain st where st: "applyRun None (eventOf j) = Inr st" "rp_state r1 = Some st" by auto
  have r1: "r1 = \<lparr>rp_state = Some st, rp_version = 1\<rparr>" using st a(4) by (cases r1) simp
  have "rest = []"
  proof (cases rest)
    case (Cons j2 rest2)
    then obtain r2 e2 where "replayEvent sha reg workflowRunDefinition i r1 [e] j2 = Inr (r2, e2)"
      using rest by auto
    from replayEvent_Inr(5) [OF this] show ?thesis using st(2) by (auto simp: applyRun_Inr)
  qed simp
  then show ?thesis using Cons rest r1 a(1) st(1) by simp
qed

text \<open>A workflow run has at most one event: a history that replays is empty, or is the one event that
  created the run, and the state is that event's: its run, version 1, its definition, the command that
  caused it and its time.\<close>

theorem workflow_history:
  assumes "replay sha reg workflowRunDefinition i (of_json (JArr items)) = Inr r" "\<forall>j \<in> set items. json_wf j"
  shows "items = [] \<and> r = \<lparr>rp_state = None, rp_version = 0\<rparr> \<or>
    (\<exists>j e. items = [j] \<and> e = eventOf (norm j) \<and> eventFits sha workflowRunDefinition i 1 (norm j) \<and>
      ev_eventType e = js ''WorkflowRunCreated'' \<and>
      r = \<lparr>rp_state = Some \<lparr>wr_runId = i, wr_version = 1, wr_status = CREATED,
        wr_workflowDefinitionId = strAt (ev_payload e) ''workflowDefinitionId'',
        wr_workflowDefinitionVersion = strAt (ev_payload e) ''workflowDefinitionVersion'',
        wr_createdByCommandId = ev_causationId e, wr_createdAt = ev_occurredAt e\<rparr>, rp_version = 1\<rparr>)"
proof -
  have causation: "strAt p k = s" if "property p k = Inr (UStr s)" for p k s
  proof -
    have "of_json v = UStr s \<Longrightarrow> v = JStr s" for v by (cases v) simp_all
    then show ?thesis using that by (auto simp: property_def strAt_def split: json.splits option.splits)
  qed
  show ?thesis
    using replay_run [OF replay_Inr [OF assms]] causation by (auto simp: applyRun_Inr eventFits_def)
qed

lemma of_json_object:
  "of_json i = UObj True [ownField k u, ownField l v] \<Longrightarrow>
     \<exists>x y. i = JObj [(js k, x), (js l, y)] \<and> u = of_json x \<and> v = of_json y"
  "of_json i = UObj True [ownField k u, ownField l v, ownField m w] \<Longrightarrow>
     \<exists>x y z. i = JObj [(js k, x), (js l, y), (js m, z)] \<and> u = of_json x \<and> v = of_json y \<and> w = of_json z"
    by (cases i; auto simp: ownField_def map_eq_Cons_conv split: prod.splits)+

lemma property_json: "property p k = Inr (of_json v) \<Longrightarrow> at p k = v"
proof -
  have "UUndefined \<noteq> of_json v" by (cases v) simp_all
  then show "property p k = Inr (of_json v) \<Longrightarrow> at p k = v"
    by (auto simp: property_def at_def dest: of_json_inject split: json.splits option.splits)
qed

text \<open>The payload that a run's creation proposes.\<close>

definition createdPayload :: "commandEnvelope \<Rightarrow> json" where
  "createdPayload command = norm (JObj [
     (js ''workflowDefinitionId'', at (cm_payload command) ''workflowDefinitionId''),
     (js ''workflowDefinitionVersion'', at (cm_payload command) ''workflowDefinitionVersion''),
     (js ''createdByCommandId'', JStr (cm_commandId command))])"

lemma decide_run:
  assumes "decide state command = Inr d" "snapshot d = Inr decision" "json_wf (cm_payload command)"
    "proposedEvent workflowRunDefinition decision = Inr (eventType, schemaId, Some payload)"
  shows "state = None" "cm_commandType command = js ''CreateWorkflowRun''" "cm_expectedVersion command = numInt 0"
    "eventType = js ''WorkflowRunCreated''" "payload = createdPayload command"
proof -
  let ?P = "cm_payload command"
  show "state = None" "cm_commandType command = js ''CreateWorkflowRun''" "cm_expectedVersion command = numInt 0"
    using assms(1) by (auto simp: decide_def split: if_splits)
  then obtain a b where a: "property ?P ''workflowDefinitionId'' = Inr a" and
    b: "property ?P ''workflowDefinitionVersion'' = Inr b" and
    d: "d = UObj True [ownField ''eventType'' (UStr (js ''WorkflowRunCreated'')),
            ownField ''payload'' (UObj True [ownField ''workflowDefinitionId'' a,
              ownField ''workflowDefinitionVersion'' b,
              ownField ''createdByCommandId'' (UStr (cm_commandId command))])]"
    using assms(1) by (auto simp: decide_def Let_def split: if_splits)
  obtain i where i: "d = of_json i" "decision = norm i"
    by (rule snapshot_Inr [OF decide_wf_run [OF assms(1,3)] assms(2)])
  obtain x y where xy: "i = JObj [(js ''eventType'', x), (js ''payload'', y)]"
    "UStr (js ''WorkflowRunCreated'') = of_json x"
    "UObj True [ownField ''workflowDefinitionId'' a, ownField ''workflowDefinitionVersion'' b,
       ownField ''createdByCommandId'' (UStr (cm_commandId command))] = of_json y"
    using of_json_object(1) [OF i(1) [unfolded d, symmetric]] by blast
  obtain va vb vc where y: "y = JObj [(js ''workflowDefinitionId'', va), (js ''workflowDefinitionVersion'', vb),
     (js ''createdByCommandId'', vc)]" "a = of_json va" "b = of_json vb" "UStr (cm_commandId command) = of_json vc"
    using of_json_object(2) [OF xy(3) [symmetric]] by blast
  have "JStr s = v" if "UStr s = of_json v" for s v using that by (cases v) simp_all
  then have x: "x = JStr (js ''WorkflowRunCreated'')" and vc: "vc = JStr (cm_commandId command)"
    using xy(2) y(4) by blast+
  have "y = JObj [(js ''workflowDefinitionId'', at ?P ''workflowDefinitionId''),
     (js ''workflowDefinitionVersion'', at ?P ''workflowDefinitionVersion''),
     (js ''createdByCommandId'', JStr (cm_commandId command))]"
    using property_json a b y vc by simp
  then have ny: "norm y = createdPayload command" by (simp only: createdPayload_def)
  obtain kvs where "norm i = JObj kvs" "\<And>k. map_of kvs k =
      map_option norm (map_of [(js ''eventType'', x), (js ''payload'', y)] k)"
    using norm_object [of "[(js ''eventType'', x), (js ''payload'', y)]"] unfolding xy(1) by fastforce
  then show "eventType = js ''WorkflowRunCreated''" "payload = createdPayload command"
    using assms(4) i(2) ny by (simp_all add: proposedEvent_def x split: if_splits)
qed

lemma newBatch_simps [simp]:
  "ba_events (newBatch sha command context event) = [event]" "ba_outbox (newBatch sha command context event) = []"
  "ba_identity (newBatch sha command context event) = commandIdentityOf sha command"
  "ba_aggregateType (newBatch sha command context event) = cm_aggregateType command"
  "ba_aggregateId (newBatch sha command context event) = cm_aggregateId command"
  "ba_expectedVersion (newBatch sha command context event) = num_to_int (cm_expectedVersion command)"
  by (simp_all add: newBatch_def Let_def)

text \<open>A command that prepares a transition creates the run: the history was empty, the batch holds
  the one event \<open>WorkflowRunCreated\<close> with the definition the command named and the command as its cause,
  and the state handed out is exactly what a later replay of the stored event gives, whatever the order
  of its keys.\<close>

theorem workflow_prepare:
  assumes p: "prepare sha reg workflowRunDefinition input (of_json (JArr items)) context = Inr t"
    and wf: "\<forall>j \<in> set items. json_wf j" "unknown_wf input"
  shows "items = [] \<and> (\<exists>command event. admitCommand sha reg workflowRunDefinition input = Inr command \<and>
    cm_commandType command = js ''CreateWorkflowRun'' \<and> cm_expectedVersion command = numInt 0 \<and>
    pt_batch t = newBatch sha command context event \<and> pt_events t = [event] \<and> eventWf event \<and>
    ev_eventType event = js ''WorkflowRunCreated'' \<and> ev_aggregateId event = cm_aggregateId command \<and>
    ev_aggregateVersion event = 1 \<and> ev_causationId event = cm_commandId command \<and>
    ev_payload event = createdPayload command \<and> ev_payloadHash event = sha (canon (createdPayload command)) \<and>
    wr_runId (pt_state t) = cm_aggregateId command \<and> wr_version (pt_state t) = 1 \<and>
    (\<forall>stored. json_wf stored \<longrightarrow> norm stored = norm (eventJson event) \<longrightarrow>
      replay sha reg workflowRunDefinition (cm_aggregateId command) (of_json (JArr [stored])) =
        Inr \<lparr>rp_state = Some (pt_state t), rp_version = 1\<rparr>))"
proof -
  obtain command event where r: "admitCommand sha reg workflowRunDefinition input = Inr command"
    "pt_batch t = newBatch sha command context event" "eventWf event"
    "num_to_int (cm_expectedVersion command) = int (length items)"
    "ev_causationId event = cm_commandId command" "ev_aggregateId event = cm_aggregateId command"
    "ev_aggregateVersion event = int (length items) + 1"
    "ev_payloadHash event = sha (canon (ev_payload event))"
    "runOk (cm_aggregateId command) (int (length items) + 1) (pt_state t)"
    "\<And>stored. \<forall>j \<in> set stored. json_wf j \<Longrightarrow>
      map norm stored = map norm items @ [norm (eventJson event)] \<Longrightarrow>
      replay sha reg workflowRunDefinition (cm_aggregateId command) (of_json (JArr stored)) =
        Inr \<lparr>rp_state = Some (pt_state t), rp_version = int (length items) + 1\<rparr>"
    using run.prepare_recoverable [OF p wf] by blast
  have items: "items = []" using r(9) by (simp add: runOk_def)
  show ?thesis
  proof (rule prepare_steps [OF p])
    fix command' h rep d decision eventType schemaId payload ref nxt
    assume c: "admitCommand sha reg workflowRunDefinition input = Inr command'"
      and d: "ad_decide workflowRunDefinition (rp_state rep) command' = Inr d" "snapshot d = Inr decision"
        "proposedEvent workflowRunDefinition decision = Inr (eventType, schemaId, Some payload)"
      and b: "pt_batch t = newBatch sha command' context (newEvent sha command' context (rp_version rep) eventType ref payload)"
      and e: "pt_events t = ba_events (pt_batch t)"
    have command: "command' = command" using c r(1) by simp
    have "json_wf (cm_payload command)" by (rule admitted_wf(3) [OF r(1) wf(2)])
    note d' = decide_run [OF d(1) [unfolded command workflowRunDefinition_simps] d(2) this d(3)]
    have "ba_events (pt_batch t) = [event]" by (simp add: r(2))
    moreover have "ba_events (pt_batch t) = [newEvent sha command context (rp_version rep) eventType ref payload]"
      by (simp add: b command)
    ultimately have event: "event = newEvent sha command context (rp_version rep) eventType ref payload" by simp
    have f: "ev_eventType event = js ''WorkflowRunCreated''" "ev_payload event = createdPayload command"
      by (simp_all add: event newEvent_def d'(4,5))
    have stored: "replay sha reg workflowRunDefinition (cm_aggregateId command) (of_json (JArr [stored])) =
        Inr \<lparr>rp_state = Some (pt_state t), rp_version = 1\<rparr>"
      if "json_wf stored" "norm stored = norm (eventJson event)" for stored
      using r(10) [of "[stored]"] that items by (simp del: of_json.simps)
    have "pt_events t = [event]" by (simp add: e r(2))
    moreover have "wr_runId (pt_state t) = cm_aggregateId command" "wr_version (pt_state t) = 1"
      using r(9) by (simp_all add: runOk_def)
    ultimately show ?thesis
      using r items d'(2,3) f stored by (intro conjI exI [of _ command] exI [of _ event] allI impI) simp_all
  qed
qed

section \<open>An example run\<close>

text \<open>A registry whose schemas accept every value, and the command that creates the run \<open>r-1\<close>.\<close>

definition exEntry :: "jstring \<Rightarrow> schemaRegistryEntry" where
  "exEntry schemaId = \<lparr>se_schemaId = schemaId, se_schemaVersion = js ''1.0.0'', se_authorityPath = [],
     se_sha256 = replicate 64 48, se_category = [], se_examplesRequired = False, se_schema = []\<rparr>"

definition exRegistry :: contractRegistry where
  "exRegistry = \<lparr>cr_entries = map exEntry [commandSchemaId, eventSchemaId, batchSchemaId,
     js ''urn:aseos:schema:create-workflow-run-payload:1.0.0'',
     js ''urn:aseos:schema:workflow-run-created-payload:1.0.0'',
     js ''urn:aseos:schema:persistence-commit-receipt:1.0.0''],
     cr_validators = \<lambda>_. Some (\<lambda>_. None)\<rparr>"

definition exCommandJson :: json where
  "exCommandJson = JObj [
     (js ''aggregateId'', JStr (js ''r-1'')), (js ''aggregateType'', JStr (js ''WorkflowRun'')),
     (js ''commandId'', JStr (js ''c-1'')), (js ''commandType'', JStr (js ''CreateWorkflowRun'')),
     (js ''correlationId'', JStr (js ''c-1'')), (js ''expectedVersion'', JNum (numInt 0)),
     (js ''idempotencyKey'', JStr (js ''k-1'')),
     (js ''payload'', JObj [(js ''workflowDefinitionId'', JStr (js ''d'')),
        (js ''workflowDefinitionVersion'', JStr (js ''1.0.0''))]),
     (js ''payloadHash'', JStr (replicate 64 48)),
     (js ''payloadSchema'', norm (schemaRefJson \<lparr>sr_schemaId = js ''urn:aseos:schema:create-workflow-run-payload:1.0.0'',
        sr_schemaVersion = js ''1.0.0'', sr_schemaHash = replicate 64 48\<rparr>))]"

definition exContext :: transitionContext where
  "exContext = \<lparr>tc_eventId = js ''e-1'', tc_auditId = js ''a-1'', tc_transactionId = js ''t-1'',
     tc_occurredAt = js ''2026-01-01T00:00:00Z''\<rparr>"

lemma ex_command_norm: "norm exCommandJson = exCommandJson"
  unfolding exCommandJson_def schemaRefJson_def by code_simp

lemma ex_resolve:
  assumes "schemaId \<in> set [commandSchemaId, eventSchemaId, batchSchemaId,
     js ''urn:aseos:schema:create-workflow-run-payload:1.0.0'',
     js ''urn:aseos:schema:workflow-run-created-payload:1.0.0'',
     js ''urn:aseos:schema:persistence-commit-receipt:1.0.0'']"
  shows "resolveIdentity exRegistry (kernelSchema schemaId) = Inr (exEntry schemaId)"
    "validateSchema exRegistry schemaId j = Inr j"
proof -
  show r: "resolveIdentity exRegistry (kernelSchema schemaId) = Inr (exEntry schemaId)"
    using assms by (auto simp: resolveIdentity_def exRegistry_def entryById_def kernelSchema_def exEntry_def
        commandSchemaId_def eventSchemaId_def batchSchemaId_def)
  show "validateSchema exRegistry schemaId j = Inr j"
    unfolding validateSchema_def validateIdentity_def r by (simp add: exRegistry_def)
qed

definition exCommand :: commandEnvelope where
  "exCommand = commandOf exCommandJson"

lemma ex_command_wf: "json_wf exCommandJson"
  by (simp add: exCommandJson_def schemaRefJson_def)

lemma ex_command_fields:
  "cm_commandType exCommand = js ''CreateWorkflowRun''" "cm_aggregateType exCommand = js ''WorkflowRun''"
  "cm_aggregateId exCommand = js ''r-1''" "cm_commandId exCommand = js ''c-1''"
  "cm_expectedVersion exCommand = numInt 0" "cm_idempotencyKey exCommand = js ''k-1''"
  "cm_payload exCommand = JObj [(js ''workflowDefinitionId'', JStr (js ''d'')),
     (js ''workflowDefinitionVersion'', JStr (js ''1.0.0''))]"
  "cm_correlationId exCommand = js ''c-1''" "cm_actor exCommand = JNull" "cm_object exCommand = exCommandJson"
  by (simp_all add: exCommand_def commandOf_def exCommandJson_def strAt_def at_def)

lemma ex_admit: "admitCommand exSha exRegistry workflowRunDefinition (of_json exCommandJson) = Inr exCommand"
proof -
  have s: "snapshot (of_json exCommandJson) = Inr exCommandJson"
    using snapshot_json [OF ex_command_wf] by (simp only: ex_command_norm)
  have a: "at exCommandJson ''expectedVersion'' = JNum (numInt 0)"
    "at exCommandJson ''payloadHash'' = JStr (replicate 64 48)"
    "at exCommandJson ''payloadSchema'' = norm (schemaRefJson \<lparr>sr_schemaId = js ''urn:aseos:schema:create-workflow-run-payload:1.0.0'',
        sr_schemaVersion = js ''1.0.0'', sr_schemaHash = replicate 64 48\<rparr>)"
    by (simp_all add: exCommandJson_def at_def)
  have "validatePayload exSha exRegistry exCommandJson (js ''urn:aseos:schema:create-workflow-run-payload:1.0.0'') = Inr ()"
    unfolding validatePayload_def schemaRefFor_def by (simp add: ex_resolve a exSha_def canon_norm exEntry_def)
  then show ?thesis
    by (simp add: admitCommand_def s ex_resolve(2) ex_command_fields exCommand_def [symmetric] a incrementable_def
        maxSafeInteger_def del: bindE_Inr_iff)
qed

lemma at_norm_eventJson: "at (norm (eventJson e)) k = norm (at (eventJson e) k)"
proof -
  obtain kvs where "eventJson e = JObj kvs" "distinct (map fst kvs)" by (simp add: eventJson_def)
  then show ?thesis using norm_object_fields(3) by metis
qed

definition exCreated :: domainEventEnvelope where
  "exCreated = newEvent exSha exCommand exContext 0 (js ''WorkflowRunCreated'')
     \<lparr>sr_schemaId = js ''urn:aseos:schema:workflow-run-created-payload:1.0.0'', sr_schemaVersion = js ''1.0.0'',
      sr_schemaHash = replicate 64 48\<rparr> (createdPayload exCommand)"

definition exRun :: workflowRunState where
  "exRun = \<lparr>wr_runId = js ''r-1'', wr_version = 1, wr_status = CREATED, wr_workflowDefinitionId = js ''d'',
     wr_workflowDefinitionVersion = js ''1.0.0'', wr_createdByCommandId = js ''c-1'',
     wr_createdAt = js ''2026-01-01T00:00:00Z''\<rparr>"

definition exTransition :: "workflowRunState preparedTransition" where
  "exTransition = \<lparr>pt_batch = newBatch exSha exCommand exContext exCreated, pt_state = exRun,
     pt_events = [exCreated]\<rparr>"

lemma ex_payload_wf: "json_wf (createdPayload exCommand)"
  unfolding createdPayload_def by (rule json_wf_norm) (simp add: ex_command_fields at_def)

lemma ex_created_wf: "eventWf exCreated"
  by (simp add: eventWf_def exCreated_def newEvent_def ex_command_fields ex_payload_wf)

lemma ex_created_fields:
  "ev_eventId exCreated = js ''e-1''" "ev_eventType exCreated = js ''WorkflowRunCreated''"
  "ev_aggregateType exCreated = js ''WorkflowRun''" "ev_aggregateId exCreated = js ''r-1''"
  "ev_aggregateVersion exCreated = 1" "ev_occurredAt exCreated = js ''2026-01-01T00:00:00Z''"
  "ev_actor exCreated = JNull" "ev_causationId exCreated = js ''c-1''"
  "ev_payloadHash exCreated = replicate 64 48" "ev_payload exCreated = createdPayload exCommand"
  "ev_payloadSchema exCreated = \<lparr>sr_schemaId = js ''urn:aseos:schema:workflow-run-created-payload:1.0.0'',
     sr_schemaVersion = js ''1.0.0'', sr_schemaHash = replicate 64 48\<rparr>"
  by (simp_all add: exCreated_def newEvent_def exContext_def ex_command_fields exSha_def)

lemma ex_created_payload:
  "property (createdPayload exCommand) ''createdByCommandId'' = Inr (UStr (js ''c-1''))"
  "strAt (createdPayload exCommand) ''createdByCommandId'' = js ''c-1''"
  "strAt (createdPayload exCommand) ''workflowDefinitionId'' = js ''d''"
  "strAt (createdPayload exCommand) ''workflowDefinitionVersion'' = js ''1.0.0''"
proof -
  let ?kvs = "[(js ''workflowDefinitionId'', JStr (js ''d'')), (js ''workflowDefinitionVersion'', JStr (js ''1.0.0'')),
     (js ''createdByCommandId'', JStr (js ''c-1''))]"
  have c: "createdPayload exCommand = norm (JObj ?kvs)" by (simp add: createdPayload_def ex_command_fields at_def)
  obtain kvs where k: "norm (JObj ?kvs) = JObj kvs" "\<And>k. map_of kvs k = map_option norm (map_of ?kvs k)"
    using norm_object [of ?kvs] by fastforce
  show "property (createdPayload exCommand) ''createdByCommandId'' = Inr (UStr (js ''c-1''))"
    "strAt (createdPayload exCommand) ''createdByCommandId'' = js ''c-1''"
    "strAt (createdPayload exCommand) ''workflowDefinitionId'' = js ''d''"
    "strAt (createdPayload exCommand) ''workflowDefinitionVersion'' = js ''1.0.0''"
    unfolding c k(1) by (simp_all add: property_def strAt_def k(2))
qed

lemma ex_created_json:
  "eventOf (norm (eventJson exCreated)) = exCreated"
  "at (norm (eventJson exCreated)) ''aggregateVersion'' = JNum (numInt 1)"
  "at (norm (eventJson exCreated)) ''payloadHash'' = JStr (replicate 64 48)"
  "at (norm (eventJson exCreated)) ''payloadSchema'' = norm (schemaRefJson (ev_payloadSchema exCreated))"
proof -
  have "norm (createdPayload exCommand) = createdPayload exCommand" by (simp only: createdPayload_def norm_norm)
  then show "eventOf (norm (eventJson exCreated)) = exCreated"
    unfolding eventOf_norm ex_created_fields by (simp add: ex_created_fields)
  show "at (norm (eventJson exCreated)) ''aggregateVersion'' = JNum (numInt 1)"
    "at (norm (eventJson exCreated)) ''payloadHash'' = JStr (replicate 64 48)"
    "at (norm (eventJson exCreated)) ''payloadSchema'' = norm (schemaRefJson (ev_payloadSchema exCreated))"
    unfolding at_norm_eventJson by (simp_all add: eventJson_def at_def ex_created_fields schemaRefJson_def)
qed

lemma ex_apply: "applyRun None exCreated = Inr exRun"
  by (simp add: applyRun_Inr ex_created_fields ex_created_payload exRun_def)

lemma ex_replay:
  "replay exSha exRegistry workflowRunDefinition (js ''r-1'') (of_json (JArr [])) = Inr \<lparr>rp_state = None, rp_version = 0\<rparr>"
  "json_wf stored \<Longrightarrow> norm stored = norm (eventJson exCreated) \<Longrightarrow>
     replay exSha exRegistry workflowRunDefinition (js ''r-1'') (of_json (JArr [stored])) =
       Inr \<lparr>rp_state = Some exRun, rp_version = 1\<rparr>"
proof -
  show "replay exSha exRegistry workflowRunDefinition (js ''r-1'') (of_json (JArr [])) = Inr \<lparr>rp_state = None, rp_version = 0\<rparr>"
    using snapshot_json [of "JArr []"] by (simp add: replay_def del: bindE_Inr_iff)
  assume s: "json_wf stored" "norm stored = norm (eventJson exCreated)"
  have v: "validatePayload exSha exRegistry (norm (eventJson exCreated))
      (js ''urn:aseos:schema:workflow-run-created-payload:1.0.0'') = Inr ()"
    unfolding validatePayload_def schemaRefFor_def
    by (simp add: ex_resolve ex_created_json ex_created_fields exSha_def canon_norm exEntry_def)
  have e: "replayEvent exSha exRegistry workflowRunDefinition (js ''r-1'') \<lparr>rp_state = None, rp_version = 0\<rparr> []
      (norm (eventJson exCreated)) = Inr (\<lparr>rp_state = Some exRun, rp_version = 1\<rparr>, js ''e-1'')"
    by (simp add: replayEvent_def ex_resolve(2) ex_created_json ex_created_fields ex_apply v isVersion_def
        maxSafeInteger_def Let_def del: bindE_Inr_iff)
  show "replay exSha exRegistry workflowRunDefinition (js ''r-1'') (of_json (JArr [stored])) =
       Inr \<lparr>rp_state = Some exRun, rp_version = 1\<rparr>"
    using snapshot_json [of "JArr [stored]"] s e by (simp add: replay_def del: bindE_Inr_iff)
qed

lemma ex_decide:
  "decide None exCommand = Inr (of_json (JObj [(js ''eventType'', JStr (js ''WorkflowRunCreated'')),
     (js ''payload'', JObj [(js ''workflowDefinitionId'', JStr (js ''d'')),
        (js ''workflowDefinitionVersion'', JStr (js ''1.0.0'')), (js ''createdByCommandId'', JStr (js ''c-1''))])]))"
  by (simp add: decide_def ex_command_fields property_def ownField_def del: bindE_Inr_iff)

lemma ex_prepare:
  "prepare exSha exRegistry workflowRunDefinition (of_json exCommandJson) (of_json (JArr [])) exContext = Inr exTransition"
proof -
  let ?d = "JObj [(js ''eventType'', JStr (js ''WorkflowRunCreated'')),
     (js ''payload'', JObj [(js ''workflowDefinitionId'', JStr (js ''d'')),
        (js ''workflowDefinitionVersion'', JStr (js ''1.0.0'')), (js ''createdByCommandId'', JStr (js ''c-1''))])]"
  have s: "snapshot (of_json (JArr [])) = Inr (JArr [])" using snapshot_json [of "JArr []"] by simp
  have d: "snapshot (of_json ?d) = Inr (norm ?d)" by (rule snapshot_json) simp
  obtain kvs where k: "norm ?d = JObj kvs"
    "map_of kvs (js ''eventType'') = Some (JStr (js ''WorkflowRunCreated''))"
    "map_of kvs (js ''payload'') = Some (createdPayload exCommand)"
  proof -
    obtain kvs where "norm ?d = JObj kvs" "\<And>k. map_of kvs k = map_option norm (map_of
       [(js ''eventType'', JStr (js ''WorkflowRunCreated'')),
     (js ''payload'', JObj [(js ''workflowDefinitionId'', JStr (js ''d'')),
        (js ''workflowDefinitionVersion'', JStr (js ''1.0.0'')), (js ''createdByCommandId'', JStr (js ''c-1''))])] k)"
      by (rule exE [OF norm_object [of "[(js ''eventType'', JStr (js ''WorkflowRunCreated'')),
     (js ''payload'', JObj [(js ''workflowDefinitionId'', JStr (js ''d'')),
        (js ''workflowDefinitionVersion'', JStr (js ''1.0.0'')), (js ''createdByCommandId'', JStr (js ''c-1''))])]"]])
        (simp, blast)
    then show thesis
      by (intro that [of kvs]) (simp_all add: createdPayload_def ex_command_fields at_def del: norm.simps(2))
  qed
  have p: "proposedEvent workflowRunDefinition (norm ?d) = Inr (js ''WorkflowRunCreated'',
      js ''urn:aseos:schema:workflow-run-created-payload:1.0.0'', Some (createdPayload exCommand))"
    unfolding k(1) by (simp add: proposedEvent_def k)
  have r: "schemaRefFor exRegistry (js ''urn:aseos:schema:workflow-run-created-payload:1.0.0'') =
      Inr (ev_payloadSchema exCreated)"
    by (simp add: schemaRefFor_def ex_resolve ex_created_fields exEntry_def)
  have "newEvent exSha exCommand exContext 0 (js ''WorkflowRunCreated'') (ev_payloadSchema exCreated)
      (createdPayload exCommand) = exCreated"
    by (simp add: exCreated_def newEvent_def)
  moreover have "replay exSha exRegistry workflowRunDefinition (js ''r-1'') (of_json (JArr [eventJson exCreated])) =
      Inr \<lparr>rp_state = Some exRun, rp_version = 1\<rparr>"
    by (rule ex_replay(2)) (use ex_created_wf eventJson_wf in \<open>simp_all add: eventWf_def\<close>)
  ultimately show ?thesis
    unfolding prepare_def
    by (simp add: ex_admit s ex_replay(1) ex_command_fields(3,5) ex_decide d p r Let_def ex_resolve(2) exTransition_def
      del: bindE_Inr_iff of_json.simps norm.simps)
qed

lemma ex_created_json_wf: "json_wf (eventJson exCreated)"
  using ex_created_wf eventJson_wf by (simp add: eventWf_def)

lemmas ex_replay_created = ex_replay(2) [OF ex_created_json_wf refl]

theorem replay_sound_witness:
  "eventFits exSha workflowRunDefinition (js ''r-1'') 1 (norm (eventJson exCreated))"
  using replay_sound [OF ex_replay_created] ex_created_json_wf by simp

theorem workflow_history_witness:
  "ev_eventType (eventOf (norm (eventJson exCreated))) = js ''WorkflowRunCreated''"
  using workflow_history [OF ex_replay_created] ex_created_json_wf by simp

theorem workflow_prepare_witness:
  "pt_events exTransition = [exCreated] \<and>
   replay exSha exRegistry workflowRunDefinition (js ''r-1'') (of_json (JArr [norm (eventJson exCreated)])) =
     Inr \<lparr>rp_state = Some exRun, rp_version = 1\<rparr>"
proof -
  have e: "pt_events exTransition = [exCreated]" "pt_state exTransition = exRun" by (simp_all add: exTransition_def)
  from workflow_prepare [OF ex_prepare] ex_command_wf obtain command event where
    c: "admitCommand exSha exRegistry workflowRunDefinition (of_json exCommandJson) = Inr command" and
    "pt_events exTransition = [event]" and
    r: "\<And>stored. json_wf stored \<Longrightarrow> norm stored = norm (eventJson event) \<Longrightarrow>
      replay exSha exRegistry workflowRunDefinition (cm_aggregateId command) (of_json (JArr [stored])) =
        Inr \<lparr>rp_state = Some (pt_state exTransition), rp_version = 1\<rparr>"
    by (auto simp: unknown_wf_of_json simp del: of_json.simps)
  then have "event = exCreated" "cm_aggregateId command = js ''r-1''"
    using e(1) ex_admit by (simp_all add: ex_command_fields)
  then show ?thesis
    using r [of "norm (eventJson exCreated)"] e ex_created_json_wf by (simp add: json_wf_norm norm_norm)
qed

end
