(* ===== verification/Persistence_Client.thy ===== *)
theory Persistence_Client
  imports Kernel
begin

text \<open>
  \<open>packages/persistence/src/index.ts\<close>: the client of the persistence worker. What each method checks
  before it posts a request and of the reply, and the bounded table of requests that are not settled.
\<close>

section \<open>Contracts\<close>

text \<open>A \<open>PersistenceError\<close> by its code, or another exception.\<close>

datatype persistenceError = PersistenceError persistenceErrorCode | PersistenceException

definition receiptSchemaId :: jstring where
  "receiptSchemaId = js ''urn:aseos:schema:persistence-commit-receipt:1.0.0''"

definition validateContract :: "contractRegistry \<Rightarrow> jstring \<Rightarrow> json \<Rightarrow> persistenceError + json" where
  "validateContract reg schemaId j =
     (case validateIdentity reg \<lparr>ci_schemaId = schemaId, ci_schemaVersion = js ''1.0.0''\<rparr> j of
        Inl _ \<Rightarrow> Inl PersistenceException
      | Inr (Inl _) \<Rightarrow> Inl (PersistenceError PERSISTENCE_CONTRACT_INVALID)
      | Inr (Inr j') \<Rightarrow> Inr j')"

definition arrayAt :: "json \<Rightarrow> string \<Rightarrow> json list" where
  "arrayAt j k = (case at j k of JArr xs \<Rightarrow> xs | _ \<Rightarrow> [])"

text \<open>The schema an envelope names for its payload: known, with the authority's hash, and satisfied.\<close>

definition validateEnvelope :: "contractRegistry \<Rightarrow> json \<Rightarrow> persistenceError + unit" where
  "validateEnvelope reg envelope =
     (let ref = schemaRefOf (at envelope ''payloadSchema'');
          identity = \<lparr>ci_schemaId = sr_schemaId ref, ci_schemaVersion = sr_schemaVersion ref\<rparr> in
      case resolveIdentity reg identity of
        Inl _ \<Rightarrow> Inl (PersistenceError PERSISTENCE_CONTRACT_INVALID)
      | Inr entry \<Rightarrow>
          if se_sha256 entry \<noteq> sr_schemaHash ref
          then Inl (PersistenceError PERSISTENCE_CONTRACT_INVALID)
          else
            (case validateIdentity reg identity (at envelope ''payload'') of
               Inl _ \<Rightarrow> Inl PersistenceException
             | Inr (Inl _) \<Rightarrow> Inl (PersistenceError PERSISTENCE_CONTRACT_INVALID)
             | Inr (Inr _) \<Rightarrow> Inr ()))"

definition validateBatch :: "contractRegistry \<Rightarrow> unknown \<Rightarrow> persistenceError + json" where
  "validateBatch reg batch =
     (case reparse batch of
        Inl _ \<Rightarrow> Inl (PersistenceError PERSISTENCE_CONTRACT_INVALID)
      | Inr captured \<Rightarrow>
          bindE (validateContract reg batchSchemaId captured) (\<lambda>validated.
          bindE (mapE (validateEnvelope reg) (arrayAt validated ''events'' @ arrayAt validated ''outbox'')) (\<lambda>_.
            Inr validated)))"

text \<open>The batch that the worker receives, read at its type.\<close>

definition taskOf :: "json \<Rightarrow> sideEffectTask" where
  "taskOf j = \<lparr>tk_taskId = strAt j ''taskId'', tk_idempotencyKey = strAt j ''idempotencyKey'',
     tk_effectScope = strAt j ''effectScope'', tk_payload = at j ''payload'',
     tk_payloadHash = strAt j ''payloadHash'', tk_attempt = intAt j ''attempt'', tk_object = j\<rparr>"

definition auditOf :: "json \<Rightarrow> auditFact" where
  "auditOf j = \<lparr>au_auditId = strAt j ''auditId'', au_action = strAt j ''action'',
     au_occurredAt = strAt j ''occurredAt'', au_payloadHash = strAt j ''payloadHash''\<rparr>"

definition batchOf :: "json \<Rightarrow> journalAppendBatch" where
  "batchOf j = \<lparr>
     ba_identity = \<lparr>id_commandId = strAt j ''commandId'', id_idempotencyKey = strAt j ''idempotencyKey'',
       id_effectScope = strAt j ''effectScope'', id_payloadHash = strAt j ''payloadHash''\<rparr>,
     ba_transactionId = strAt j ''transactionId'', ba_capturedAt = strAt j ''capturedAt'',
     ba_aggregateType = strAt (at j ''stream'') ''aggregateType'',
     ba_aggregateId = strAt (at j ''stream'') ''aggregateId'',
     ba_expectedVersion = intAt (at j ''stream'') ''expectedVersion'',
     ba_events = map eventOf (arrayAt j ''events''), ba_outbox = map taskOf (arrayAt j ''outbox''),
     ba_audit = map auditOf (arrayAt j ''audit'')\<rparr>"

section \<open>Requests\<close>

text \<open>
  What becomes of a request: it is handled and its reply arrives, it is refused before it is posted
  (a closed client or a full queue), or the worker exits before or after it is handled, and another
  worker opens the file. Before each request the other users of the journal take their steps.
\<close>

datatype delivery = Delivered | Refused persistenceErrorCode | LostBefore | LostAfter

datatype userAction =
    Commits journalAppendBatch | RecordsInbox inboxRecord | SavesCheckpoint projectionCheckpoint
  | Closes | Reopens

record turn =
  tn_others :: "userAction list"
  tn_delivery :: delivery

record world =
  wd_worker :: worker
  wd_turn :: nat

text \<open>A batch that another client sends has passed its own validation.\<close>

fun act :: "(jstring \<Rightarrow> jstring) \<Rightarrow> userAction \<Rightarrow> worker \<Rightarrow> worker" where
  "act sha (Commits b) w = (if batchWf b then snd (handle sha (ReqCommit b) w) else w)"
| "act sha (RecordsInbox r) w = snd (handle sha (ReqRecordInbox r) w)"
| "act sha (SavesCheckpoint c) w = snd (handle sha (ReqSaveCheckpoint c) w)"
| "act sha Closes w = snd (handle sha ReqClose w)"
| "act sha Reopens w = openWorker (w_file w)"

definition askWorker :: "(jstring \<Rightarrow> jstring) \<Rightarrow> (nat \<Rightarrow> turn) \<Rightarrow> request \<Rightarrow> world \<Rightarrow> (persistenceError + reply) \<times> world" where
  "askWorker sha env req world =
     (let turn = env (wd_turn world);
          w = fold (act sha) (tn_others turn) (wd_worker world);
          after = (\<lambda>w'. \<lparr>wd_worker = w', wd_turn = Suc (wd_turn world)\<rparr>) in
      case tn_delivery turn of
        Refused code \<Rightarrow> (Inl (PersistenceError code), after w)
      | LostBefore \<Rightarrow> (Inl (PersistenceError PERSISTENCE_WORKER_EXITED), after (openWorker (w_file w)))
      | LostAfter \<Rightarrow> (Inl (PersistenceError PERSISTENCE_WORKER_EXITED),
           after (openWorker (w_file (snd (handle sha req w)))))
      | Delivered \<Rightarrow>
          (case handle sha req w of
             (Inl e, w') \<Rightarrow> (Inl (PersistenceError (fst (serializeError e))), after w')
           | (Inr reply, w') \<Rightarrow> (Inr reply, after w')))"

section \<open>Methods\<close>

definition bindS :: "('w \<Rightarrow> ('e + 'a) \<times> 'w) \<Rightarrow> ('a \<Rightarrow> 'w \<Rightarrow> ('e + 'b) \<times> 'w) \<Rightarrow> 'w \<Rightarrow> ('e + 'b) \<times> 'w" where
  "bindS m f w = (case m w of (Inl e, w') \<Rightarrow> (Inl e, w') | (Inr x, w') \<Rightarrow> f x w')"

definition pureS :: "'e + 'a \<Rightarrow> 'w \<Rightarrow> ('e + 'a) \<times> 'w" where
  "pureS r w = (r, w)"

definition asReceipt :: "contractRegistry \<Rightarrow> reply \<Rightarrow> persistenceError + commitReceipt" where
  "asReceipt reg reply =
     (case reply of
        ReplyReceipt r \<Rightarrow> bindE (validateContract reg receiptSchemaId (receiptJson r)) (\<lambda>_. Inr r)
      | _ \<Rightarrow> Inl PersistenceException)"

definition clientCommit ::
    "(jstring \<Rightarrow> jstring) \<Rightarrow> contractRegistry \<Rightarrow> (nat \<Rightarrow> turn) \<Rightarrow> unknown \<Rightarrow> world \<Rightarrow> (persistenceError + commitReceipt) \<times> world" where
  "clientCommit sha reg env batch =
     bindS (pureS (validateBatch reg batch)) (\<lambda>validated.
     bindS (askWorker sha env (ReqCommit (batchOf validated))) (\<lambda>reply.
       pureS (asReceipt reg reply)))"

definition validLookup :: "commandIdentity \<Rightarrow> bool" where
  "validLookup i \<longleftrightarrow> id_commandId i \<noteq> [] \<and> id_idempotencyKey i \<noteq> [] \<and> id_effectScope i \<noteq> [] \<and>
     id_payloadHash i \<noteq> [] \<and> matches hex64 (id_payloadHash i)"

definition clientLookup ::
    "(jstring \<Rightarrow> jstring) \<Rightarrow> contractRegistry \<Rightarrow> (nat \<Rightarrow> turn) \<Rightarrow> commandIdentity \<Rightarrow> world
       \<Rightarrow> (persistenceError + commitReceipt option) \<times> world" where
  "clientLookup sha reg env i =
     (if \<not> validLookup i then pureS (Inl (PersistenceError PERSISTENCE_CONTRACT_INVALID))
      else
        bindS (askWorker sha env (ReqLookupCommandReceipt i)) (\<lambda>reply.
          pureS (case reply of
                   ReplyLookup None \<Rightarrow> Inr None
                 | ReplyLookup (Some r) \<Rightarrow> bindE (asReceipt reg (ReplyReceipt r)) (\<lambda>r. Inr (Some r))
                 | _ \<Rightarrow> Inl PersistenceException)))"

text \<open>\<open>readEvents\<close>, whose default limit is 10000.\<close>

definition clientReadEvents ::
    "(jstring \<Rightarrow> jstring) \<Rightarrow> (nat \<Rightarrow> turn) \<Rightarrow> jstring \<Rightarrow> jstring \<Rightarrow> int \<Rightarrow> world \<Rightarrow> (persistenceError + json list) \<times> world" where
  "clientReadEvents sha env aggregateType aggregateId limit =
     (if \<bar>limit\<bar> > maxSafeInteger \<or> limit < 1 \<or> limit > 100000
      then pureS (Inl (PersistenceError PERSISTENCE_CONTRACT_INVALID))
      else
        bindS (askWorker sha env (ReqReadEvents aggregateType aggregateId limit)) (\<lambda>reply.
          pureS (case reply of ReplyEvents items \<Rightarrow> Inr items | _ \<Rightarrow> Inl PersistenceException)))"

text \<open>The other methods: each validates what it sends and what it receives against its contract.\<close>

definition inboxJson :: "inboxRecord \<Rightarrow> json" where
  "inboxJson r = JObj [(js ''schemaVersion'', JStr (js ''1.0.0'')), (js ''resultId'', JStr (ib_resultId r)),
     (js ''taskId'', JStr (ib_taskId r)), (js ''payloadHash'', JStr (ib_payloadHash r)),
     (js ''status'', JStr (ib_status r)), (js ''receivedAt'', JStr (ib_receivedAt r))]"

definition checkpointJson :: "projectionCheckpoint \<Rightarrow> json" where
  "checkpointJson c = JObj [(js ''schemaVersion'', JStr (js ''1.0.0'')),
     (js ''projectionName'', JStr (pc_projectionName c)), (js ''projectionVersion'', JStr (pc_projectionVersion c)),
     (js ''sourceSequence'', JNum (numInt (pc_sourceSequence c))),
     (js ''rebuiltFromSequence'', case pc_rebuiltFromSequence c of None \<Rightarrow> JNull | Some n \<Rightarrow> JNum (numInt n)),
     (js ''updatedAt'', JStr (pc_updatedAt c))]"

definition dedupJson :: "commandDedupRecord \<Rightarrow> json" where
  "dedupJson d = JObj [(js ''schemaVersion'', JStr (js ''1.0.0'')), (js ''commandId'', JStr (cd_commandId d)),
     (js ''idempotencyKey'', JStr (cd_idempotencyKey d)), (js ''effectScope'', JStr (cd_effectScope d)),
     (js ''payloadHash'', JStr (cd_payloadHash d)), (js ''outcomeHash'', JStr (cd_outcomeHash d)),
     (js ''status'', JStr (cd_status d)), (js ''completedAt'', JStr (cd_completedAt d))]"

definition outboxJson :: "outboxRow \<Rightarrow> json" where
  "outboxJson r = JObj [(js ''schemaVersion'', JStr (js ''1.0.0'')), (js ''taskId'', JStr (ox_taskId r)),
     (js ''idempotencyKey'', JStr (ox_idempotencyKey r)), (js ''effectScope'', JStr (ox_effectScope r)),
     (js ''payloadHash'', JStr (ox_payloadHash r)), (js ''status'', JStr (ox_status r)),
     (js ''attempt'', JNum (numInt (ox_attempt r))), (js ''createdAt'', JStr (ox_createdAt r)),
     (js ''leasedUntil'', case ox_leasedUntil r of None \<Rightarrow> JNull | Some s \<Rightarrow> JStr s)]"

definition clientRecordInbox ::
    "(jstring \<Rightarrow> jstring) \<Rightarrow> contractRegistry \<Rightarrow> (nat \<Rightarrow> turn) \<Rightarrow> inboxRecord \<Rightarrow> world \<Rightarrow> (persistenceError + inboxRecord) \<times> world" where
  "clientRecordInbox sha reg env entry =
     bindS (pureS (validateContract reg (js ''urn:aseos:schema:inbox-record:1.0.0'') (inboxJson entry))) (\<lambda>_.
     bindS (askWorker sha env (ReqRecordInbox entry)) (\<lambda>reply.
       pureS (case reply of
          ReplyInbox r \<Rightarrow>
            bindE (validateContract reg (js ''urn:aseos:schema:inbox-record:1.0.0'') (inboxJson r)) (\<lambda>_. Inr r)
        | _ \<Rightarrow> Inl PersistenceException)))"

definition clientSaveCheckpoint ::
    "(jstring \<Rightarrow> jstring) \<Rightarrow> contractRegistry \<Rightarrow> (nat \<Rightarrow> turn) \<Rightarrow> projectionCheckpoint \<Rightarrow> world
       \<Rightarrow> (persistenceError + projectionCheckpoint) \<times> world" where
  "clientSaveCheckpoint sha reg env checkpoint =
     bindS (pureS (validateContract reg (js ''urn:aseos:schema:projection-checkpoint:1.0.0'') (checkpointJson checkpoint))) (\<lambda>_.
     bindS (askWorker sha env (ReqSaveCheckpoint checkpoint)) (\<lambda>reply.
       pureS (case reply of
          ReplyCheckpoint c \<Rightarrow>
            bindE (validateContract reg (js ''urn:aseos:schema:projection-checkpoint:1.0.0'') (checkpointJson c)) (\<lambda>_. Inr c)
        | _ \<Rightarrow> Inl PersistenceException)))"

definition clientGetCommand ::
    "(jstring \<Rightarrow> jstring) \<Rightarrow> contractRegistry \<Rightarrow> (nat \<Rightarrow> turn) \<Rightarrow> jstring \<Rightarrow> world
       \<Rightarrow> (persistenceError + commandDedupRecord option) \<times> world" where
  "clientGetCommand sha reg env commandId =
     bindS (askWorker sha env (ReqGetCommand commandId)) (\<lambda>reply.
       pureS (case reply of
          ReplyCommand None \<Rightarrow> Inr None
        | ReplyCommand (Some d) \<Rightarrow>
            bindE (validateContract reg (js ''urn:aseos:schema:command-dedup-record:1.0.0'') (dedupJson d)) (\<lambda>_. Inr (Some d))
        | _ \<Rightarrow> Inl PersistenceException))"

definition clientListOutbox ::
    "(jstring \<Rightarrow> jstring) \<Rightarrow> contractRegistry \<Rightarrow> (nat \<Rightarrow> turn) \<Rightarrow> world \<Rightarrow> (persistenceError + outboxRow list) \<times> world" where
  "clientListOutbox sha reg env =
     bindS (askWorker sha env ReqListOutbox) (\<lambda>reply.
       pureS (case reply of
          ReplyOutbox rows \<Rightarrow>
            mapE (\<lambda>r. bindE (validateContract reg (js ''urn:aseos:schema:outbox-record:1.0.0'') (outboxJson r)) (\<lambda>_. Inr r)) rows
        | _ \<Rightarrow> Inl PersistenceException))"

definition clientRecover ::
    "(jstring \<Rightarrow> jstring) \<Rightarrow> (nat \<Rightarrow> turn) \<Rightarrow> world \<Rightarrow> (persistenceError + recoverySummary) \<times> world" where
  "clientRecover sha env =
     bindS (askWorker sha env ReqRecover) (\<lambda>reply.
       pureS (case reply of ReplyRecovery s \<Rightarrow> Inr s | _ \<Rightarrow> Inl PersistenceException))"

definition clientArmCrash ::
    "(jstring \<Rightarrow> jstring) \<Rightarrow> contractRegistry \<Rightarrow> (nat \<Rightarrow> turn) \<Rightarrow> unknown \<Rightarrow> world \<Rightarrow> (persistenceError + unit) \<times> world" where
  "clientArmCrash sha reg env batch =
     bindS (pureS (validateBatch reg batch)) (\<lambda>validated.
     bindS (askWorker sha env (ReqArmCrash (batchOf validated))) (\<lambda>_. pureS (Inr ())))"

definition clientHoldLock :: "(jstring \<Rightarrow> jstring) \<Rightarrow> (nat \<Rightarrow> turn) \<Rightarrow> world \<Rightarrow> (persistenceError + unit) \<times> world" where
  "clientHoldLock sha env = bindS (askWorker sha env ReqHoldLock) (\<lambda>_. pureS (Inr ()))"

definition clientReleaseLock :: "(jstring \<Rightarrow> jstring) \<Rightarrow> (nat \<Rightarrow> turn) \<Rightarrow> world \<Rightarrow> (persistenceError + unit) \<times> world" where
  "clientReleaseLock sha env = bindS (askWorker sha env ReqReleaseLock) (\<lambda>_. pureS (Inr ()))"

section \<open>Opening\<close>

text \<open>\<open>positiveInteger\<close>, and the checks of \<open>open\<close> on its options.\<close>

definition positiveOption :: "jsnum option \<Rightarrow> int \<Rightarrow> persistenceError + int" where
  "positiveOption v fallback =
     (let selected = (case v of None \<Rightarrow> numInt fallback | Some n \<Rightarrow> n) in
      if \<not> isSafeInteger selected \<or> num_to_int selected < 1
      then Inl (PersistenceError PERSISTENCE_CONTRACT_INVALID) else Inr (num_to_int selected))"

record openOptions =
  op_dataRoot :: jstring
  op_maxQueueDepth :: "jsnum option"
  op_busyTimeoutMs :: "jsnum option"

definition openChecks :: "openOptions \<Rightarrow> persistenceError + (int \<times> int)" where
  "openChecks options =
     (if op_dataRoot options = [] then Inl (PersistenceError PERSISTENCE_CONTRACT_INVALID)
      else
        bindE (positiveOption (op_maxQueueDepth options) 128) (\<lambda>maxQueueDepth.
        bindE (positiveOption (op_busyTimeoutMs options) 5000) (\<lambda>busyTimeoutMs.
        if busyTimeoutMs > 60000 then Inl (PersistenceError PERSISTENCE_CONTRACT_INVALID)
        else Inr (maxQueueDepth, busyTimeoutMs))))"

section \<open>The table of pending requests\<close>

text \<open>
  The client of an open worker: the ids it has posted and not settled, in the order of the map, and,
  for what callers observe, the outcome each settled promise got and the requests posted to the worker.
\<close>

datatype readiness = Opening | Ready | Failed persistenceErrorCode

record client =
  cl_maxQueueDepth :: nat
  cl_ready :: readiness
  cl_pending :: "nat list"
  cl_nextRequestId :: nat
  cl_closed :: bool
  cl_posted :: "(nat \<times> request) list"
  cl_settled :: "(nat \<times> (persistenceErrorCode + reply)) list"

definition newClient :: "nat \<Rightarrow> client" where
  "newClient maxQueueDepth = \<lparr>cl_maxQueueDepth = maxQueueDepth, cl_ready = Opening, cl_pending = [],
     cl_nextRequestId = 1, cl_closed = False, cl_posted = [], cl_settled = []\<rparr>"

definition failPending :: "persistenceErrorCode \<Rightarrow> client \<Rightarrow> client" where
  "failPending code c = c\<lparr>cl_settled := cl_settled c @ map (\<lambda>i. (i, Inl code)) (cl_pending c), cl_pending := []\<rparr>"

definition onReady :: "persistenceErrorCode option \<Rightarrow> client \<Rightarrow> client" where
  "onReady error c =
     (if cl_ready c \<noteq> Opening then c
      else c\<lparr>cl_ready := (case error of None \<Rightarrow> Ready | Some code \<Rightarrow> Failed code)\<rparr>)"

definition onReply :: "nat \<Rightarrow> persistenceErrorCode + reply \<Rightarrow> client \<Rightarrow> client" where
  "onReply i outcome c =
     (if i \<notin> set (cl_pending c) then c
      else c\<lparr>cl_pending := removeAll i (cl_pending c), cl_settled := cl_settled c @ [(i, outcome)]\<rparr>)"

definition onFailure :: "client \<Rightarrow> client" where
  "onFailure c =
     failPending PERSISTENCE_WORKER_EXITED
       (if cl_ready c = Opening then c\<lparr>cl_ready := Failed PERSISTENCE_WORKER_EXITED\<rparr> else c)"

definition onExit :: "int \<Rightarrow> client \<Rightarrow> client" where
  "onExit code c = (if cl_closed c \<and> code = 0 then c else onFailure c)"

text \<open>\<open>#request\<close>, once the worker is ready.\<close>

definition postRequest :: "request \<Rightarrow> client \<Rightarrow> (persistenceErrorCode + nat) \<times> client" where
  "postRequest req c =
     (if cl_closed c then (Inl PERSISTENCE_CLOSED, c)
      else if length (cl_pending c) \<ge> cl_maxQueueDepth c then (Inl PERSISTENCE_QUEUE_FULL, c)
      else
        let i = cl_nextRequestId c in
          (Inr i, c\<lparr>cl_nextRequestId := i + 1, cl_pending := cl_pending c @ [i], cl_posted := cl_posted c @ [(i, req)]\<rparr>))"

text \<open>\<open>close\<close> posts its request, and once that is answered marks the client; \<open>terminateForQualification\<close>
  fails what is pending.\<close>

definition closeAnswered :: "nat \<Rightarrow> client \<Rightarrow> client" where
  "closeAnswered i c =
     (if \<exists>r \<in> set (cl_settled c). fst r = i \<and> (case snd r of Inl _ \<Rightarrow> False | Inr _ \<Rightarrow> True)
      then c\<lparr>cl_closed := True\<rparr> else c)"

definition terminateForQualification :: "client \<Rightarrow> client" where
  "terminateForQualification c =
     (if cl_closed c then c else failPending PERSISTENCE_WORKER_EXITED (c\<lparr>cl_closed := True\<rparr>))"

text \<open>
  The steps of a client: what the worker's thread reports (its reply names a request it was sent), the
  calls of the users once the worker is ready, the end of \<open>close\<close>, and the qualification probe.
\<close>

inductive clientStep :: "client \<Rightarrow> client \<Rightarrow> bool" where
  ReadyMessage: "clientStep c (onReady error c)"
| ReplyMessage: "clientStep c (onReply i outcome c)"
| ErrorEvent: "clientStep c (onFailure c)"
| ExitEvent: "clientStep c (onExit code c)"
| Request: "cl_ready c = Ready \<Longrightarrow> clientStep c (snd (postRequest req c))"
| CloseAnswered: "(i, ReqClose) \<in> set (cl_posted c) \<Longrightarrow> clientStep c (closeAnswered i c)"
| Terminate: "clientStep c (terminateForQualification c)"

inductive_cases clientStepE: "clientStep c c'"

abbreviation clientSteps :: "client \<Rightarrow> client \<Rightarrow> bool" where
  "clientSteps \<equiv> clientStep\<^sup>*\<^sup>*"

text \<open>Every id that was handed out is pending or settled, once, and the pending ones are in order.\<close>

definition clientOk :: "client \<Rightarrow> bool" where
  "clientOk c \<longleftrightarrow> 1 \<le> cl_nextRequestId c \<and>
     map fst (cl_posted c) = [1..<cl_nextRequestId c] \<and>
     mset (cl_pending c) + mset (map fst (cl_settled c)) = mset [1..<cl_nextRequestId c] \<and>
     sorted (cl_pending c) \<and> length (cl_pending c) \<le> cl_maxQueueDepth c"

lemma clientOk_distinct:
  assumes "clientOk c"
  shows "distinct (cl_pending c @ map fst (cl_settled c))"
    "set (cl_pending c) \<union> fst ` set (cl_settled c) = {1..<cl_nextRequestId c}"
proof -
  have m: "mset (cl_pending c @ map fst (cl_settled c)) = mset [1..<cl_nextRequestId c]"
    using assms by (simp add: clientOk_def)
  show "distinct (cl_pending c @ map fst (cl_settled c))"
    using mset_eq_imp_distinct_iff [OF m] by simp
  show "set (cl_pending c) \<union> fst ` set (cl_settled c) = {1..<cl_nextRequestId c}"
    using mset_eq_setD [OF m] by simp
qed

lemma failPending_ok: "clientOk c \<Longrightarrow> clientOk (failPending code c)"
  by (simp add: clientOk_def failPending_def comp_def add.commute)

lemma clientOk_fields:
  "clientOk (c\<lparr>cl_ready := r\<rparr>) = clientOk c" "clientOk (c\<lparr>cl_closed := x\<rparr>) = clientOk c"
  by (simp_all add: clientOk_def)

lemma onReply_ok:
  assumes "clientOk c" shows "clientOk (onReply i outcome c)"
proof (cases "i \<in> set (cl_pending c)")
  case True
  have d: "distinct (cl_pending c)" using clientOk_distinct(1) [OF assms] by simp
  then have r: "removeAll i (cl_pending c) = remove1 i (cl_pending c)" by (simp add: distinct_remove1_removeAll)
  have "mset (remove1 i (cl_pending c)) + (mset (map fst (cl_settled c)) + {#i#}) =
      mset (cl_pending c) + mset (map fst (cl_settled c))"
    using True by (simp add: union_assoc [symmetric] del: mset_map)
  moreover have "sorted (remove1 i (cl_pending c))"
    by (rule sorted_remove1) (use assms in \<open>simp add: clientOk_def\<close>)
  moreover have "length (remove1 i (cl_pending c)) \<le> cl_maxQueueDepth c"
    using assms by (auto simp: clientOk_def length_remove1 split: if_splits)
  moreover have "add_mset i (mset_set {1..<cl_nextRequestId c} - {#i#}) = mset_set {1..<cl_nextRequestId c}"
    by (rule insert_DiffM) (use clientOk_distinct(2) [OF assms] True in auto)
  ultimately show ?thesis using True assms by (simp add: onReply_def r clientOk_def)
qed (use assms in \<open>simp add: onReply_def\<close>)

lemma postRequest_ok:
  assumes "clientOk c" shows "clientOk (snd (postRequest req c))"
proof -
  let ?n = "cl_nextRequestId c"
  have le: "\<forall>x \<in> set (cl_pending c). x \<le> ?n"
    using clientOk_distinct(2) [OF assms] by (metis Un_iff atLeastLessThan_iff less_imp_le)
  then have "sorted (cl_pending c @ [?n])" using assms by (simp add: clientOk_def sorted_append)
  then show ?thesis
    using assms by (auto simp: postRequest_def clientOk_def Let_def atLeastLessThanSuc)
qed

lemma clientStep_ok: "clientStep c c' \<Longrightarrow> clientOk c \<Longrightarrow> clientOk c'"
  by (erule clientStepE)
    (auto simp: onReady_def onExit_def onFailure_def closeAnswered_def terminateForQualification_def
      clientOk_fields intro: failPending_ok onReply_ok postRequest_ok)

lemma clientOk_new: "clientOk (newClient n)"
  by (simp add: newClient_def clientOk_def)

lemma clientSteps_ok: "clientSteps (newClient n) c \<Longrightarrow> clientOk c"
  by (induction rule: rtranclp_induct) (auto intro: clientStep_ok clientOk_new)

lemma clientStep_grows:
  assumes "clientStep c c'"
  shows "prefix (cl_settled c) (cl_settled c') \<and> prefix (cl_posted c) (cl_posted c') \<and>
    cl_maxQueueDepth c' = cl_maxQueueDepth c"
  using assms
  by (rule clientStepE)
    (auto simp: onReady_def onReply_def onExit_def onFailure_def failPending_def postRequest_def Let_def
      closeAnswered_def terminateForQualification_def)

lemma clientSteps_grow:
  "clientSteps c c' \<Longrightarrow> prefix (cl_settled c) (cl_settled c') \<and> prefix (cl_posted c) (cl_posted c') \<and>
    cl_maxQueueDepth c' = cl_maxQueueDepth c"
  by (induction rule: rtranclp_induct) (auto dest!: clientStep_grows intro: prefix_order.trans)

lemma requests_settle:
  assumes "clientOk c"
  shows "distinct (cl_pending c @ map fst (cl_settled c))"
    "set (cl_pending c) \<union> fst ` set (cl_settled c) = fst ` set (cl_posted c)"
proof -
  have "set (map fst (cl_posted c)) = set [1..<cl_nextRequestId c]" using assms by (simp only: clientOk_def)
  then show "set (cl_pending c) \<union> fst ` set (cl_settled c) = fst ` set (cl_posted c)"
    using clientOk_distinct(2) [OF assms] by simp
qed (rule clientOk_distinct(1) [OF assms])

text \<open>C19. The table of pending requests is sound: in every client that was ever opened at most
  \<open>maxQueueDepth\<close> requests are pending, the requests posted carry the ids 1, 2, ... in order, each of them
  is pending or has been settled but not both, and once settled it is settled once and keeps its outcome
  whatever happens later.\<close>

theorem requests_settle_once:
  assumes "clientSteps (newClient depth) c" "clientSteps c c'"
  shows "length (cl_pending c) \<le> depth \<and> map fst (cl_posted c) = [1..<cl_nextRequestId c] \<and>
    distinct (cl_pending c @ map fst (cl_settled c)) \<and>
    set (cl_pending c) \<union> fst ` set (cl_settled c) = fst ` set (cl_posted c) \<and>
    (\<forall>i outcome. (i, outcome) \<in> set (cl_settled c) \<longrightarrow> map_of (cl_settled c') i = Some outcome)"
proof -
  have ok: "clientOk c" by (rule clientSteps_ok [OF assms(1)])
  have ok': "clientOk c'" using rtranclp_trans [OF assms] by (rule clientSteps_ok)
  have g: "prefix (cl_settled c) (cl_settled c')" using clientSteps_grow [OF assms(2)] by simp
  have "map_of (cl_settled c') i = Some outcome" if "(i, outcome) \<in> set (cl_settled c)" for i outcome
  proof -
    have "(i, outcome) \<in> set (cl_settled c')" using that g by (auto simp: prefix_def)
    moreover have "distinct (map fst (cl_settled c'))" using clientOk_distinct(1) [OF ok'] by simp
    ultimately show ?thesis by (simp add: map_of_eq_Some_iff)
  qed
  moreover have "cl_maxQueueDepth c = depth" using clientSteps_grow [OF assms(1)] by (simp add: newClient_def)
  ultimately show ?thesis
    using ok requests_settle [OF ok] unfolding clientOk_def by simp
qed

text \<open>No request is forgotten when the worker goes away: when it exits under a client that is open, or
  with another code than 0, each request that was ever posted has exactly one outcome, the one it had or,
  for the pending ones, \<open>PERSISTENCE_WORKER_EXITED\<close>, and nothing is pending.\<close>

theorem worker_loss_settles:
  assumes "clientSteps (newClient depth) c" "\<not> cl_closed c \<or> code \<noteq> 0"
  shows "cl_pending (onExit code c) = [] \<and>
    (\<forall>(i, req) \<in> set (cl_posted c). map_of (cl_settled (onExit code c)) i =
      Some (case map_of (cl_settled c) i of None \<Rightarrow> Inl PERSISTENCE_WORKER_EXITED | Some outcome \<Rightarrow> outcome)) \<and>
    distinct (map fst (cl_settled (onExit code c)))"
proof -
  note r = requests_settle [OF clientSteps_ok [OF assms(1)]]
  have e: "cl_settled (onExit code c) = cl_settled c @ map (\<lambda>i. (i, Inl PERSISTENCE_WORKER_EXITED)) (cl_pending c)"
    "cl_pending (onExit code c) = []"
    using assms(2) by (auto simp: onExit_def onFailure_def failPending_def)
  have m: "map_of (cl_settled (onExit code c)) i =
      Some (case map_of (cl_settled c) i of None \<Rightarrow> Inl PERSISTENCE_WORKER_EXITED | Some outcome \<Rightarrow> outcome)"
    if "i \<in> fst ` set (cl_posted c)" for i
  proof (cases "map_of (cl_settled c) i")
    case None
    then have "i \<in> set (cl_pending c)" using that r(2) by (auto simp: map_of_eq_None_iff)
    moreover have "i \<notin> fst ` set (cl_settled c)" using None by (simp add: map_of_eq_None_iff)
    ultimately show ?thesis
      using r(1) by (simp add: e map_add_def None map_of_eq_Some_iff comp_def image_iff)
  next
    case (Some outcome)
    then have "i \<in> fst ` set (cl_settled c)" by (metis map_of_eq_None_iff option.distinct(1))
    then have "i \<notin> set (cl_pending c)" using r(1) by auto
    then have "map_of (map (\<lambda>i. (i, Inl PERSISTENCE_WORKER_EXITED)) (cl_pending c)) i = None"
      by (auto simp: map_of_eq_None_iff)
    then show ?thesis using Some by (simp add: e map_add_def)
  qed
  have "distinct (map fst (cl_settled (onExit code c)))" using r(1) by (auto simp: e comp_def)
  moreover have "\<forall>(i, req) \<in> set (cl_posted c). map_of (cl_settled (onExit code c)) i =
      Some (case map_of (cl_settled c) i of None \<Rightarrow> Inl PERSISTENCE_WORKER_EXITED | Some outcome \<Rightarrow> outcome)"
  proof (rule ballI, clarify)
    fix i req assume "(i, req) \<in> set (cl_posted c)"
    then have "i \<in> fst ` set (cl_posted c)" by force
    then show "map_of (cl_settled (onExit code c)) i =
      Some (case map_of (cl_settled c) i of None \<Rightarrow> Inl PERSISTENCE_WORKER_EXITED | Some outcome \<Rightarrow> outcome)"
      by (rule m)
  qed
  ultimately show ?thesis using e(2) by simp
qed

text \<open>
  But a clean exit of a closed client settles nothing. A request posted after \<open>close\<close> and before its
  answer is still pending then: the worker answers \<open>close\<close>, closes its port, and ends with code 0.
\<close>

definition strandedClient :: client where
  "strandedClient = onExit 0 (closeAnswered 1 (onReply 1 (Inr ReplyDone)
     (snd (postRequest ReqRecover (snd (postRequest ReqClose (onReady None (newClient 128))))))))"

lemma clean_close_strands_request:
  "clientSteps (newClient 128) strandedClient" "cl_pending strandedClient = [2]" "cl_closed strandedClient"
proof -
  let ?c1 = "onReady None (newClient 128)"
  let ?c2 = "snd (postRequest ReqClose ?c1)"
  let ?c3 = "snd (postRequest ReqRecover ?c2)"
  have "clientSteps (newClient 128) ?c1" by (rule r_into_rtranclp [of clientStep, OF ReadyMessage])
  also have "clientStep ?c1 ?c2" by (rule Request) (simp add: onReady_def newClient_def)
  also have "clientStep ?c2 ?c3" by (rule Request) (simp add: onReady_def newClient_def postRequest_def)
  also have "clientStep ?c3 (onReply 1 (Inr ReplyDone) ?c3)" by (rule ReplyMessage)
  also have "clientStep (onReply 1 (Inr ReplyDone) ?c3) (closeAnswered 1 (onReply 1 (Inr ReplyDone) ?c3))"
    by (rule CloseAnswered) (simp add: onReady_def newClient_def postRequest_def onReply_def)
  also have "clientStep (closeAnswered 1 (onReply 1 (Inr ReplyDone) ?c3)) strandedClient"
    unfolding strandedClient_def by (rule ExitEvent)
  finally show "clientSteps (newClient 128) strandedClient" .
  show "cl_pending strandedClient = [2]" "cl_closed strandedClient"
    by (simp_all add: strandedClient_def onReady_def newClient_def postRequest_def onReply_def closeAnswered_def onExit_def)
qed

theorem requests_settle_once_witness: "distinct (cl_pending strandedClient @ map fst (cl_settled strandedClient))"
  using requests_settle_once [OF clean_close_strands_request(1) rtranclp.rtrancl_refl] by simp

theorem worker_loss_settles_witness:
  "map_of (cl_settled (onExit 1 strandedClient)) 2 = Some (Inl PERSISTENCE_WORKER_EXITED)"
proof -
  have "(2, ReqRecover) \<in> set (cl_posted strandedClient)" "map_of (cl_settled strandedClient) 2 = None"
    by (simp_all add: strandedClient_def onReady_def newClient_def postRequest_def onReply_def closeAnswered_def onExit_def)
  with worker_loss_settles [OF clean_close_strands_request(1), of 1] show ?thesis by force
qed

end
