(* ===== verification/Workflow_Service.thy ===== *)
theory Workflow_Service
  imports Workflow Persistence_Client
begin

text \<open>
  \<open>packages/platform/src/workflow-service.ts\<close>: the application service that executes a command. It
  admits the command, looks for its receipt, reads the history, prepares and commits the transition,
  and builds its answer from the stored receipt and events alone. Other users of the journal may act
  before each of its requests.
\<close>

section \<open>The service\<close>

text \<open>\<open>WorkflowPersistence\<close>: the three methods of the persistence client that the service calls.\<close>

record 'w workflowPersistence =
  wp_lookupCommandReceipt :: "commandIdentity \<Rightarrow> 'w \<Rightarrow> (persistenceError + commitReceipt option) \<times> 'w"
  wp_readEvents :: "jstring \<Rightarrow> jstring \<Rightarrow> 'w \<Rightarrow> (persistenceError + json list) \<times> 'w"
  wp_commit :: "journalAppendBatch \<Rightarrow> 'w \<Rightarrow> (persistenceError + commitReceipt) \<times> 'w"

datatype serviceError = OfKernel kernelError | OfPersistence persistenceError

record workflowCommandResult =
  wc_state :: workflowRunState
  wc_receipt :: commitReceipt

definition liftError :: "('e \<Rightarrow> 'f) \<Rightarrow> ('w \<Rightarrow> ('e + 'a) \<times> 'w) \<Rightarrow> 'w \<Rightarrow> ('f + 'a) \<times> 'w" where
  "liftError f m w = (case m w of (Inl e, w') \<Rightarrow> (Inl (f e), w') | (Inr x, w') \<Rightarrow> (Inr x, w'))"

definition replayRun ::
    "(jstring \<Rightarrow> jstring) \<Rightarrow> contractRegistry \<Rightarrow> 'w workflowPersistence \<Rightarrow> jstring \<Rightarrow> 'w
       \<Rightarrow> (serviceError + workflowRunState replayResult) \<times> 'w" where
  "replayRun sha reg port aggregateId =
     bindS (liftError OfPersistence (wp_readEvents port (js ''WorkflowRun'') aggregateId)) (\<lambda>events.
       liftError OfKernel (pureS (replay sha reg workflowRunDefinition aggregateId (of_json (JArr events)))))"

definition replayInvalid :: serviceError where
  "replayInvalid = OfKernel (KernelError KERNEL_REPLAY_INVALID)"

text \<open>\<open>#result\<close>: first the checks of the receipt, then those of the events and their replay.\<close>

definition receiptBinds :: "(jstring \<Rightarrow> jstring) \<Rightarrow> commandEnvelope \<Rightarrow> commitReceipt \<Rightarrow> bool" where
  "receiptBinds sha command receipt \<longleftrightarrow> rc_commandId receipt = cm_commandId command \<and>
     rc_aggregateType receipt = cm_aggregateType command \<and> rc_aggregateId receipt = cm_aggregateId command \<and>
     rc_receiptHash receipt = receiptHashOf sha receipt"

definition eventVersion :: "json \<Rightarrow> int" where
  "eventVersion j = ev_aggregateVersion (eventOf j)"

definition committedEvents :: "commandEnvelope \<Rightarrow> commitReceipt \<Rightarrow> json list \<Rightarrow> json list" where
  "committedEvents command receipt events =
     filter (\<lambda>j. eventVersion j > num_to_int (cm_expectedVersion command) \<and>
       eventVersion j \<le> rc_committedVersion receipt) events"

definition resultOfEvents ::
    "(jstring \<Rightarrow> jstring) \<Rightarrow> contractRegistry \<Rightarrow> commandEnvelope \<Rightarrow> commitReceipt \<Rightarrow> json list
       \<Rightarrow> serviceError + workflowCommandResult" where
  "resultOfEvents sha reg command receipt events =
     (let committed = committedEvents command receipt events in
      if sha (canon (strArray (map (\<lambda>j. ev_eventId (eventOf j)) committed))) \<noteq>
           sha (canon (strArray (rc_eventIds receipt))) \<or>
         list_ex (\<lambda>j. ev_causationId (eventOf j) \<noteq> cm_commandId command) committed
      then Inl replayInvalid
      else
        (case replay sha reg workflowRunDefinition (cm_aggregateId command)
               (of_json (JArr (filter (\<lambda>j. eventVersion j \<le> rc_committedVersion receipt) events))) of
           Inl e \<Rightarrow> Inl (OfKernel e)
         | Inr replayed \<Rightarrow>
             (case rp_state replayed of
                None \<Rightarrow> Inl replayInvalid
              | Some state \<Rightarrow>
                  if rp_version replayed \<noteq> rc_committedVersion receipt then Inl replayInvalid
                  else Inr \<lparr>wc_state = state, wc_receipt = receipt\<rparr>)))"

definition commandResult ::
    "(jstring \<Rightarrow> jstring) \<Rightarrow> contractRegistry \<Rightarrow> 'w workflowPersistence \<Rightarrow> commandEnvelope \<Rightarrow> commitReceipt \<Rightarrow> 'w
       \<Rightarrow> (serviceError + workflowCommandResult) \<times> 'w" where
  "commandResult sha reg port command receipt =
     (if \<not> receiptBinds sha command receipt then pureS (Inl replayInvalid)
      else
        bindS (liftError OfPersistence (wp_readEvents port (cm_aggregateType command) (cm_aggregateId command))) (\<lambda>events.
          pureS (resultOfEvents sha reg command receipt events)))"

text \<open>The body of the \<open>try\<close>, and the errors after which the receipt is looked for once more.\<close>

definition attempt ::
    "(jstring \<Rightarrow> jstring) \<Rightarrow> contractRegistry \<Rightarrow> 'w workflowPersistence \<Rightarrow> transitionContext \<Rightarrow> commandEnvelope \<Rightarrow> 'w
       \<Rightarrow> (serviceError + commitReceipt) \<times> 'w" where
  "attempt sha reg port context command =
     bindS (liftError OfPersistence (wp_readEvents port (cm_aggregateType command) (cm_aggregateId command))) (\<lambda>history.
     bindS (liftError OfKernel (pureS (prepare sha reg workflowRunDefinition (of_json (cm_object command))
              (of_json (JArr history)) context))) (\<lambda>transition.
       liftError OfPersistence (wp_commit port (pt_batch transition))))"

fun mayBeRaced :: "serviceError \<Rightarrow> bool" where
  "mayBeRaced (OfKernel e) = (e = KernelError KERNEL_VERSION_CONFLICT)"
| "mayBeRaced (OfPersistence e) = (e = PersistenceError PERSISTENCE_OPTIMISTIC_CONCURRENCY)"

definition execute ::
    "(jstring \<Rightarrow> jstring) \<Rightarrow> contractRegistry \<Rightarrow> 'w workflowPersistence \<Rightarrow> transitionContext \<Rightarrow> unknown \<Rightarrow> 'w
       \<Rightarrow> (serviceError + workflowCommandResult) \<times> 'w" where
  "execute sha reg port context input =
     bindS (liftError OfKernel (pureS (admitCommand sha reg workflowRunDefinition input))) (\<lambda>command.
     let identity = commandIdentityOf sha command;
         lookup = liftError OfPersistence (wp_lookupCommandReceipt port identity);
         result = commandResult sha reg port command in
     bindS lookup (\<lambda>duplicate.
       case duplicate of
         Some receipt \<Rightarrow> result receipt
       | None \<Rightarrow>
           (\<lambda>w. case attempt sha reg port context command w of
              (Inr receipt, w') \<Rightarrow> result receipt w'
            | (Inl e, w') \<Rightarrow>
                if mayBeRaced e
                then bindS lookup (\<lambda>raced. case raced of Some receipt \<Rightarrow> result receipt | None \<Rightarrow> pureS (Inl e)) w'
                else (Inl e, w'))))"

lemma bindS_Inr_iff: "bindS m f w = (Inr y, w') \<longleftrightarrow> (\<exists>x w1. m w = (Inr x, w1) \<and> f x w1 = (Inr y, w'))"
  by (auto simp: bindS_def split: prod.splits sum.splits)

lemma liftError_Inr_iff [simp]: "liftError g m w = (Inr y, w') \<longleftrightarrow> m w = (Inr y, w')"
  by (auto simp: liftError_def split: prod.splits sum.splits)

lemma pureS_Inr_iff [simp]: "pureS r w = (a, w') \<longleftrightarrow> r = a \<and> w' = w"
  by (auto simp: pureS_def)

section \<open>What the service relies on\<close>

text \<open>
  The journal as its clients know it: the receipt stored for an identity and the events of a stream.
  Time only adds to both, a receipt that is returned is the stored one, and reads return the stream, up to
  the default limit of 10000 events.
\<close>

locale journal =
  fixes port :: "'w workflowPersistence" and ok :: "'w \<Rightarrow> bool" and later :: "'w \<Rightarrow> 'w \<Rightarrow> bool"
    and stored :: "'w \<Rightarrow> commandIdentity \<Rightarrow> commitReceipt option" and stream :: "'w \<Rightarrow> jstring \<Rightarrow> jstring \<Rightarrow> json list"
  assumes later_ok: "ok w \<Longrightarrow> later w w' \<Longrightarrow> ok w'"
    and later_refl: "later w w"
    and later_trans: "later w w' \<Longrightarrow> later w' w'' \<Longrightarrow> later w w''"
    and stored_later: "ok w \<Longrightarrow> later w w' \<Longrightarrow> stored w i = Some r \<Longrightarrow> stored w' i = Some r"
    and stream_later: "ok w \<Longrightarrow> later w w' \<Longrightarrow> prefix (stream w ty a) (stream w' ty a)"
    and stream_wf: "ok w \<Longrightarrow> \<forall>j \<in> set (stream w ty a). json_wf j \<and> norm j = j"
    and stream_versions: "ok w \<Longrightarrow> map eventVersion (stream w ty a) = map int [1..<Suc (length (stream w ty a))]"
    and lookup_later: "ok w \<Longrightarrow> wp_lookupCommandReceipt port i w = (answer, w') \<Longrightarrow> later w w'"
    and lookup_stored: "ok w \<Longrightarrow> wp_lookupCommandReceipt port i w = (Inr found, w') \<Longrightarrow> found = stored w' i"
    and read_later: "ok w \<Longrightarrow> wp_readEvents port ty a w = (events, w') \<Longrightarrow> later w w'"
    and read_stream: "ok w \<Longrightarrow> wp_readEvents port ty a w = (Inr items, w') \<Longrightarrow> items = take 10000 (stream w' ty a)"
    and commit_later: "ok w \<Longrightarrow> json_wf (batchJson b) \<Longrightarrow> wp_commit port b w = (receipt, w') \<Longrightarrow> later w w'"
    and commit_stored: "ok w \<Longrightarrow> json_wf (batchJson b) \<Longrightarrow> wp_commit port b w = (Inr r, w') \<Longrightarrow> stored w' (ba_identity b) = Some r"
begin

end

section \<open>What an answer says\<close>

lemma admit_again:
  assumes "admitCommand sha reg domain input = Inr c" "unknown_wf input"
  shows "admitCommand sha reg domain (of_json (cm_object c)) = Inr c"
proof -
  note s = admitCommand_Inr(1) [OF assms(1)]
  have "norm (cm_object c) = cm_object c" "json_wf (cm_object c)"
    by (rule snapshot_Inr [OF assms(2) s], simp)+
  then have "snapshot (of_json (cm_object c)) = snapshot input" using s snapshot_json by simp
  then show ?thesis using assms(1) by (simp only: admitCommand_def)
qed

lemma newBatch_wf: "eventWf event \<Longrightarrow> json_wf (batchJson (newBatch sha command context event))"
  by (simp add: batchJson_def newBatch_def Let_def auditJson_def eventWf_def eventJson_wf)

lemma filter_versions:
  assumes "map eventVersion xs = map int [1..<Suc (length xs)]" "0 \<le> v"
  shows "filter (\<lambda>j. eventVersion j \<le> v) xs = take (nat v) xs"
  using assms(1)
proof (induction xs rule: rev_induct)
  case (snoc x xs)
  then have "map eventVersion xs = map int [1..<Suc (length xs)]" "eventVersion x = int (length xs) + 1"
    by (simp_all add: comp_def)
  then show ?case using snoc.IH assms(2) by auto
qed simp

lemma versions_take:
  "map eventVersion xs = map int [1..<Suc (length xs)] \<Longrightarrow>
     map eventVersion (take n xs) = map int [1..<Suc (length (take n xs))]"
proof -
  assume m: "map eventVersion xs = map int [1..<Suc (length xs)]"
  have "map eventVersion (take n xs) = take n (map int [1..<Suc (length xs)])" by (simp only: take_map [symmetric] m)
  also have "\<dots> = map int (take n [1..<Suc (length xs)])" by (simp only: take_map)
  also have "take n [1..<Suc (length xs)] = [1..<Suc (length (take n xs))]" by (simp add: take_upt min_def del: upt_Suc)
  finally show ?thesis .
qed

lemma result_receipt: "resultOfEvents sha reg command receipt events = Inr res \<Longrightarrow> wc_receipt res = receipt"
  by (auto simp: resultOfEvents_def Let_def split: if_splits sum.splits option.splits simp del: of_json.simps)

text \<open>The answer is that of the one event that created the run.\<close>

lemma result_run:
  assumes r: "resultOfEvents sha reg command receipt events = Inr res"
    and wf: "\<forall>j \<in> set events. json_wf j \<and> norm j = j" "map eventVersion events = map int [1..<Suc (length events)]"
  obtains j rest where "events = j # rest" "wc_receipt res = receipt" "rc_committedVersion receipt = 1"
    "replay sha reg workflowRunDefinition (cm_aggregateId command) (of_json (JArr [j])) =
       Inr \<lparr>rp_state = Some (wc_state res), rp_version = 1\<rparr>"
    "num_to_int (cm_expectedVersion command) = 0 \<longrightarrow> ev_causationId (eventOf j) = cm_commandId command"
proof -
  let ?seen = "filter (\<lambda>j. eventVersion j \<le> rc_committedVersion receipt) events"
  obtain rep where rep: "replay sha reg workflowRunDefinition (cm_aggregateId command) (of_json (JArr ?seen)) = Inr rep"
    using r by (auto simp: resultOfEvents_def Let_def split: if_splits sum.splits simp del: of_json.simps)
  obtain state where st: "rp_state rep = Some state" "rp_version rep = rc_committedVersion receipt"
      "res = \<lparr>wc_state = state, wc_receipt = receipt\<rparr>"
    using r rep by (auto simp: resultOfEvents_def Let_def split: if_splits option.splits simp del: of_json.simps)
  have causes: "\<forall>j \<in> set (committedEvents command receipt events). ev_causationId (eventOf j) = cm_commandId command"
    using r by (auto simp: resultOfEvents_def Let_def list_ex_iff split: if_splits simp del: of_json.simps)
  have wfs: "\<forall>j \<in> set ?seen. json_wf j" using wf(1) by simp
  have one: "length ?seen = 1" "rc_committedVersion receipt = 1" "rep = \<lparr>rp_state = Some state, rp_version = 1\<rparr>"
    using replay_run [OF replay_Inr [OF rep wfs]] st by (auto simp: map_eq_Cons_conv)
  have "?seen = take 1 events" using filter_versions [OF wf(2), of "rc_committedVersion receipt"] one(2) by simp
  moreover from this one(1) obtain j rest where e: "events = j # rest" by (cases events) auto
  ultimately have seen: "?seen = [j]" by simp
  have "eventVersion j = 1" using wf(2) by (simp add: e upt_rec)
  then have "num_to_int (cm_expectedVersion command) = 0 \<Longrightarrow> j \<in> set (committedEvents command receipt events)"
    by (simp add: committedEvents_def e one(2))
  then show thesis
    using that [of j rest] e st(3) one(2,3) rep [unfolded seen] causes by simp
qed

context journal
begin

text \<open>The prepared batch is that of the admitted command, and well formed.\<close>

lemma attempt_stored:
  assumes ok: "ok w" and adm: "admitCommand sha reg workflowRunDefinition input = Inr command" "unknown_wf input"
    and a: "attempt sha reg port context command w = (answer, w')"
  shows "later w w' \<and> (\<forall>r. answer = Inr r \<longrightarrow> stored w' (commandIdentityOf sha command) = Some r)"
proof (cases "wp_readEvents port (cm_aggregateType command) (cm_aggregateId command) w")
  case (Pair events w1)
  have l1: "later w w1" by (rule read_later [OF ok Pair])
  have ok1: "ok w1" by (rule later_ok [OF ok l1])
  show ?thesis
  proof (cases events)
    case (Inl e)
    then have "w' = w1" "answer = Inl (OfPersistence e)"
      using a Pair by (simp_all add: attempt_def bindS_def liftError_def)
    then show ?thesis using l1 by simp
  next
    case (Inr items)
    let ?p = "prepare sha reg workflowRunDefinition (of_json (cm_object command)) (of_json (JArr items)) context"
    have items: "\<forall>j \<in> set items. json_wf j"
      using read_stream [OF ok Pair [unfolded Inr]] stream_wf [OF ok1] by (auto dest: in_set_takeD)
    show ?thesis
    proof (cases ?p)
      case (Inl e)
      then have "w' = w1" "answer = Inl (OfKernel e)"
        using a Pair Inr by (simp_all add: attempt_def bindS_def liftError_def pureS_def del: of_json.simps)
      then show ?thesis using l1 by simp
    next
      case p: (Inr t)
      then obtain receipt where c: "wp_commit port (pt_batch t) w1 = (receipt, w')"
        and ans: "\<And>r. answer = Inr r \<Longrightarrow> receipt = Inr r"
        using a Pair Inr
        by (auto simp: attempt_def bindS_def liftError_def pureS_def simp del: of_json.simps split: prod.splits sum.splits)
      have "json_wf (cm_object command)" by (rule admitted_wf(1) [OF adm])
      then have "unknown_wf (of_json (cm_object command))" by (simp add: unknown_wf_of_json)
      from run.prepare_recoverable [OF p items this] obtain command' event where
        "admitCommand sha reg workflowRunDefinition (of_json (cm_object command)) = Inr command'"
        and b: "pt_batch t = newBatch sha command' context event" "eventWf event"
          "num_to_int (cm_expectedVersion command') = int (length items)" by blast
      then have "command' = command" using admit_again [OF adm] by simp
      then have wf: "json_wf (batchJson (pt_batch t))" and i: "ba_identity (pt_batch t) = commandIdentityOf sha command"
        using b newBatch_wf by simp_all
      have "later w w'" using later_trans [OF l1 commit_later [OF ok1 wf c]] .
      then show ?thesis using commit_stored [OF ok1 wf] c ans i by metis
    qed
  qed
qed

lemma lookup_found:
  assumes ok: "ok w" and l: "wp_lookupCommandReceipt port i w = (answer, w')"
  shows "later w w'" "answer = Inr (Some r) \<Longrightarrow> stored w' i = Some r"
  using lookup_later [OF ok l] lookup_stored [OF ok, of i "Some r" w'] l by simp_all

text \<open>Every answer is built from the receipt stored for the command.\<close>

lemma execute_answer:
  assumes ok: "ok w" and wf: "unknown_wf input"
    and x: "execute sha reg port context input w = (Inr res, w')"
  obtains command receipt w1 where "admitCommand sha reg workflowRunDefinition input = Inr command"
    "later w w1" "stored w1 (commandIdentityOf sha command) = Some receipt"
    "commandResult sha reg port command receipt w1 = (Inr res, w')"
proof -
  let ?lookup = "\<lambda>command. liftError OfPersistence (wp_lookupCommandReceipt port (commandIdentityOf sha command))"
  obtain command found w1 where adm: "admitCommand sha reg workflowRunDefinition input = Inr command"
    and l: "wp_lookupCommandReceipt port (commandIdentityOf sha command) w = (Inr found, w1)"
    and rest: "(case found of
         Some receipt \<Rightarrow> commandResult sha reg port command receipt
       | None \<Rightarrow>
           (\<lambda>w. case attempt sha reg port context command w of
              (Inr receipt, w') \<Rightarrow> commandResult sha reg port command receipt w'
            | (Inl e, w') \<Rightarrow>
                if mayBeRaced e
                then bindS (?lookup command) (\<lambda>raced. case raced of
                  Some receipt \<Rightarrow> commandResult sha reg port command receipt | None \<Rightarrow> pureS (Inl e)) w'
                else (Inl e, w'))) w1 = (Inr res, w')"
    using x unfolding execute_def Let_def bindS_Inr_iff liftError_Inr_iff pureS_Inr_iff by blast
  note l1 = lookup_found [OF ok l]
  have ok1: "ok w1" by (rule later_ok [OF ok l1(1)])
  show thesis
  proof (cases found)
    case (Some receipt)
    then show thesis using that [OF adm l1(1)] l1(2) rest by simp
  next
    case None
    obtain answer w2 where a: "attempt sha reg port context command w1 = (answer, w2)" by fastforce
    note s = attempt_stored [OF ok1 adm wf a]
    have l2: "later w w2" using later_trans l1(1) s by blast
    have ok2: "ok w2" by (rule later_ok [OF ok l2])
    show thesis
    proof (cases answer)
      case (Inr receipt)
      then show thesis using that [OF adm l2] s rest None a by simp
    next
      case (Inl e)
      then have "bindS (?lookup command) (\<lambda>raced. case raced of
          Some receipt \<Rightarrow> commandResult sha reg port command receipt | None \<Rightarrow> pureS (Inl e)) w2 = (Inr res, w')"
        using rest None a by (auto split: if_splits)
      then obtain raced w3 where l': "wp_lookupCommandReceipt port (commandIdentityOf sha command) w2 = (Inr raced, w3)"
        and r: "(case raced of Some receipt \<Rightarrow> commandResult sha reg port command receipt | None \<Rightarrow> pureS (Inl e)) w3 = (Inr res, w')"
        unfolding bindS_Inr_iff liftError_Inr_iff by blast
      then obtain receipt where some: "raced = Some receipt" by (cases raced) auto
      note l3 = lookup_found [OF ok2 l']
      show thesis
        using that [OF adm later_trans [OF l2 l3(1)], of receipt] l3(2) r some by simp
    qed
  qed
qed

end

context journal
begin

text \<open>An answer is computed from the stored receipt and the stream at its end.\<close>

lemma answer_result:
  assumes ok: "ok w" and wf: "unknown_wf input"
    and x: "execute sha reg port context input w = (Inr res, w')"
  obtains command where "admitCommand sha reg workflowRunDefinition input = Inr command"
    "later w w'" "stored w' (commandIdentityOf sha command) = Some (wc_receipt res)"
    "receiptBinds sha command (wc_receipt res)"
    "resultOfEvents sha reg command (wc_receipt res)
      (take 10000 (stream w' (js ''WorkflowRun'') (cm_aggregateId command))) = Inr res"
proof -
  obtain command receipt w1 where adm: "admitCommand sha reg workflowRunDefinition input = Inr command"
    and l: "later w w1" "stored w1 (commandIdentityOf sha command) = Some receipt"
    and r: "commandResult sha reg port command receipt w1 = (Inr res, w')"
    by (rule execute_answer [OF ok wf x])
  have ok1: "ok w1" by (rule later_ok [OF ok l(1)])
  have ty: "cm_aggregateType command = js ''WorkflowRun''" using admitCommand_Inr(3) [OF adm] by simp
  have binds: "receiptBinds sha command receipt"
    using r by (auto simp: commandResult_def split: if_splits)
  then obtain events where e: "wp_readEvents port (js ''WorkflowRun'') (cm_aggregateId command) w1 = (Inr events, w')"
    and res: "resultOfEvents sha reg command receipt events = Inr res"
    using r unfolding commandResult_def bindS_Inr_iff liftError_Inr_iff pureS_Inr_iff ty by (auto simp: bindS_Inr_iff)
  have l1: "later w1 w'" by (rule read_later [OF ok1 e])
  have rc: "wc_receipt res = receipt" by (rule result_receipt [OF res])
  show thesis
    using that [OF adm later_trans [OF l(1) l1]] stored_later [OF ok1 l1 l(2)] binds
      res [unfolded read_stream [OF ok1 e]] rc by simp
qed

lemma answer_sound:
  assumes ok: "ok w" and wf: "unknown_wf input"
    and x: "execute sha reg port context input w = (Inr res, w')"
  obtains command j rest where "admitCommand sha reg workflowRunDefinition input = Inr command"
    "later w w'" "stored w' (commandIdentityOf sha command) = Some (wc_receipt res)"
    "rc_committedVersion (wc_receipt res) = 1" "rc_commandId (wc_receipt res) = cm_commandId command"
    "stream w' (js ''WorkflowRun'') (cm_aggregateId command) = j # rest"
    "replay sha reg workflowRunDefinition (cm_aggregateId command) (of_json (JArr [j])) =
       Inr \<lparr>rp_state = Some (wc_state res), rp_version = 1\<rparr>"
    "num_to_int (cm_expectedVersion command) = 0 \<longrightarrow> ev_causationId (eventOf j) = cm_commandId command"
proof -
  obtain command where a: "admitCommand sha reg workflowRunDefinition input = Inr command"
    "later w w'" "stored w' (commandIdentityOf sha command) = Some (wc_receipt res)"
    "receiptBinds sha command (wc_receipt res)"
    "resultOfEvents sha reg command (wc_receipt res)
      (take 10000 (stream w' (js ''WorkflowRun'') (cm_aggregateId command))) = Inr res"
    by (rule answer_result [OF ok wf x])
  let ?S = "stream w' (js ''WorkflowRun'') (cm_aggregateId command)"
  have ok': "ok w'" by (rule later_ok [OF ok a(2)])
  have ewf: "\<forall>j \<in> set (take 10000 ?S). json_wf j \<and> norm j = j"
    using stream_wf [OF ok'] by (auto dest: in_set_takeD)
  obtain j rest where j: "take 10000 ?S = j # rest" "rc_committedVersion (wc_receipt res) = 1"
    "replay sha reg workflowRunDefinition (cm_aggregateId command) (of_json (JArr [j])) =
       Inr \<lparr>rp_state = Some (wc_state res), rp_version = 1\<rparr>"
    "num_to_int (cm_expectedVersion command) = 0 \<longrightarrow> ev_causationId (eventOf j) = cm_commandId command"
    by (rule result_run [OF a(5) ewf versions_take [OF stream_versions [OF ok']]])
  obtain rest' where s: "?S = j # rest'" using j(1) by (cases ?S) auto
  then show thesis using that [OF a(1-3)] j(2-4) a(4) by (simp add: receiptBinds_def)
qed

text \<open>Executing a command again, at any later time and whatever happened meanwhile, never gives another
  answer.\<close>

lemma answers_agree:
  assumes ok: "ok w" and wf: "unknown_wf input"
    and x1: "execute sha reg port context1 input w = (Inr res1, w1)" and l: "later w1 w2"
    and x2: "execute sha reg port context2 input w2 = (Inr res2, w3)"
  shows "res2 = res1"
proof -
  let ?S = "\<lambda>w command. stream w (js ''WorkflowRun'') (cm_aggregateId command)"
  obtain command j1 rest1 where a: "admitCommand sha reg workflowRunDefinition input = Inr command" "later w w1"
    "stored w1 (commandIdentityOf sha command) = Some (wc_receipt res1)" "?S w1 command = j1 # rest1"
    "replay sha reg workflowRunDefinition (cm_aggregateId command) (of_json (JArr [j1])) =
       Inr \<lparr>rp_state = Some (wc_state res1), rp_version = 1\<rparr>"
    by (rule answer_sound [OF ok wf x1])
  have ok1: "ok w1" by (rule later_ok [OF ok a(2)])
  have ok2: "ok w2" by (rule later_ok [OF ok1 l])
  obtain command' j2 rest2 where b: "admitCommand sha reg workflowRunDefinition input = Inr command'" "later w2 w3"
    "stored w3 (commandIdentityOf sha command') = Some (wc_receipt res2)" "?S w3 command' = j2 # rest2"
    "replay sha reg workflowRunDefinition (cm_aggregateId command') (of_json (JArr [j2])) =
       Inr \<lparr>rp_state = Some (wc_state res2), rp_version = 1\<rparr>"
    by (rule answer_sound [OF ok2 wf x2])
  have c: "command' = command" using a(1) b(1) by simp
  have l3: "later w1 w3" by (rule later_trans [OF l b(2)])
  have "wc_receipt res2 = wc_receipt res1" using stored_later [OF ok1 l3 a(3)] b(3) c by simp
  moreover have "j2 = j1" using stream_later [OF ok1 l3, of "js ''WorkflowRun''" "cm_aggregateId command"] a(4) b(4) c
    by (simp add: prefix_def)
  then have "wc_state res2 = wc_state res1" using a(5) b(5) c by simp
  ultimately show ?thesis by simp
qed

text \<open>Of the commands that would create one run at most one is ever answered.\<close>

lemma one_creator:
  assumes ok: "ok w" and wf: "unknown_wf input1" "unknown_wf input2"
    and x1: "execute sha reg port context1 input1 w = (Inr res1, w1)" and l: "later w1 w2"
    and x2: "execute sha reg port context2 input2 w2 = (Inr res2, w3)"
    and adm: "admitCommand sha reg workflowRunDefinition input1 = Inr c1" "admitCommand sha reg workflowRunDefinition input2 = Inr c2"
    and same: "cm_aggregateId c2 = cm_aggregateId c1"
      "num_to_int (cm_expectedVersion c1) = 0" "num_to_int (cm_expectedVersion c2) = 0"
  shows "cm_commandId c2 = cm_commandId c1"
proof -
  let ?S = "\<lambda>w. stream w (js ''WorkflowRun'') (cm_aggregateId c1)"
  obtain c j1 rest1 where a: "admitCommand sha reg workflowRunDefinition input1 = Inr c" "later w w1"
    "stream w1 (js ''WorkflowRun'') (cm_aggregateId c) = j1 # rest1"
    "num_to_int (cm_expectedVersion c) = 0 \<longrightarrow> ev_causationId (eventOf j1) = cm_commandId c"
    by (rule answer_sound [OF ok wf(1) x1])
  have ok1: "ok w1" by (rule later_ok [OF ok a(2)])
  have ok2: "ok w2" by (rule later_ok [OF ok1 l])
  obtain c' j2 rest2 where b: "admitCommand sha reg workflowRunDefinition input2 = Inr c'" "later w2 w3"
    "stream w3 (js ''WorkflowRun'') (cm_aggregateId c') = j2 # rest2"
    "num_to_int (cm_expectedVersion c') = 0 \<longrightarrow> ev_causationId (eventOf j2) = cm_commandId c'"
    by (rule answer_sound [OF ok2 wf(2) x2])
  have c: "c = c1" "c' = c2" using a(1) b(1) adm by simp_all
  have "prefix (?S w1) (?S w3)" by (rule stream_later [OF ok1 later_trans [OF l b(2)]])
  then have "j2 = j1" using a(3) b(3) c same(1) by (simp add: prefix_def)
  then show ?thesis using a(4) b(4) c same by simp
qed

end

end
