(* ===== verification/Service_Journal.thy ===== *)
theory Service_Journal
  imports Workflow_Service
begin

section \<open>The persistence client provides it\<close>

definition workerPort ::
    "(jstring \<Rightarrow> jstring) \<Rightarrow> contractRegistry \<Rightarrow> (nat \<Rightarrow> turn) \<Rightarrow> world workflowPersistence" where
  "workerPort sha reg env = \<lparr>wp_lookupCommandReceipt = clientLookup sha reg env,
     wp_readEvents = (\<lambda>aggregateType aggregateId. clientReadEvents sha env aggregateType aggregateId 10000),
     wp_commit = (\<lambda>batch. clientCommit sha reg env (of_json (batchJson batch)))\<rparr>"

text \<open>A journal in order, without an open qualification transaction.\<close>

definition idleOk :: "(jstring \<Rightarrow> jstring) \<Rightarrow> worker \<Rightarrow> bool" where
  "idleOk sha w \<longleftrightarrow> workerOk sha w \<and> w_transaction w = None"

definition worldOk :: "(jstring \<Rightarrow> jstring) \<Rightarrow> world \<Rightarrow> bool" where
  "worldOk sha world \<longleftrightarrow> idleOk sha (wd_worker world)"

definition worldLater :: "(jstring \<Rightarrow> jstring) \<Rightarrow> world \<Rightarrow> world \<Rightarrow> bool" where
  "worldLater sha world world' \<longleftrightarrow> (worldOk sha world \<longrightarrow>
     worldOk sha world' \<and> grows (w_file (wd_worker world)) (w_file (wd_worker world')))"

definition storedReceipt :: "tables \<Rightarrow> commandIdentity \<Rightarrow> commitReceipt option" where
  "storedReceipt t i =
     (case findCommandDuplicate i t of
        Inr (Some row) \<Rightarrow> (case parseReceipt (rr_receiptJson row) of Inr r \<Rightarrow> Some r | Inl _ \<Rightarrow> None)
      | _ \<Rightarrow> None)"

definition storedStream :: "tables \<Rightarrow> jstring \<Rightarrow> jstring \<Rightarrow> json list" where
  "storedStream t ty a = map (\<lambda>row. the (parseCanonical (er_eventJson row))) (streamRows ty a t)"

lemma idleOk_visible: "idleOk sha w \<Longrightarrow> visible w = w_file w"
  by (simp add: idleOk_def visible_def)

lemma commitBatch_idle:
  assumes w: "idleOk sha w" and e: "\<forall>e \<in> set (ba_events b). eventWf e" and c: "commitBatch sha b w = (answer, w')"
  shows "idleOk sha w' \<and> grows (w_file w) (w_file w')"
  using c
proof (cases rule: commitBatch_cases)
  case (fresh r t)
  have "tablesOk sha (w_file w)" using w unfolding idleOk_def workerOk_def by (elim conjE)
  then have "0 \<le> ba_expectedVersion b"
    using appendBatch_Inr(1) [OF fresh(5)] currentAggregateVersion_stream by (metis of_nat_0_le_iff)
  then have "batchWf b" using e by (simp add: batchWf_def)
  then show ?thesis using commitBatch_step [OF _ _ c] w fresh by (simp add: idleOk_def)
qed (use w in simp_all)

lemma runTransaction_idle: "w_transaction w = None \<Longrightarrow> w_transaction (snd (runTransaction action w)) = None"
  by (auto simp: runTransaction_def split: sum.splits)

lemma act_idle:
  assumes "idleOk sha w"
  shows "idleOk sha (act sha a w) \<and> grows (w_file w) (w_file (act sha a w))"
proof -
  have w: "workerOk sha w" "w_transaction w = None" using assms by (simp_all add: idleOk_def)
  then have ok: "tablesOk sha (w_file w)" unfolding workerOk_def by (elim conjE)
  note step = handle_step [OF w(1) _ surjective_pairing]
  show ?thesis
  proof (cases a)
    case (Commits b)
    have c: "commitBatch sha b w = (fst (commitBatch sha b w), snd (commitBatch sha b w))" by simp
    have "batchWf b \<Longrightarrow> idleOk sha (snd (commitBatch sha b w)) \<and> grows (w_file w) (w_file (snd (commitBatch sha b w)))"
      by (rule commitBatch_idle [OF assms _ c]) (simp add: batchWf_def)
    then show ?thesis using assms by (simp add: Commits)
  next
    case (RecordsInbox r)
    have "workerOk sha (act sha a w) \<and> grows (w_file w) (w_file (act sha a w))"
      using step [of "ReqRecordInbox r"] by (simp add: requestWf_def RecordsInbox)
    then show ?thesis using runTransaction_idle [OF w(2)] by (simp add: idleOk_def RecordsInbox)
  next
    case (SavesCheckpoint c)
    have "workerOk sha (act sha a w) \<and> grows (w_file w) (w_file (act sha a w))"
      using step [of "ReqSaveCheckpoint c"] by (simp add: requestWf_def SavesCheckpoint)
    then show ?thesis using runTransaction_idle [OF w(2)] by (simp add: idleOk_def SavesCheckpoint)
  next
    case Closes
    then show ?thesis
      using closeDatabase_step [OF w(1)] w(2)
      by (auto simp: idleOk_def closeDatabase_def Let_def rollback_def)
  next
    case Reopens
    then show ?thesis using ok by (simp add: idleOk_def) (simp add: openWorker_def)
  qed
qed

lemma others_idle:
  "idleOk sha w \<Longrightarrow> idleOk sha (fold (act sha) actions w) \<and> grows (w_file w) (w_file (fold (act sha) actions w))"
proof (induction actions arbitrary: w)
  case (Cons a actions)
  then show ?case using act_idle [of sha w a] grows_trans by auto
qed simp

text \<open>A request that is answered was handled by the worker it found.\<close>

lemma request_idle:
  assumes w: "worldOk sha world" and r: "askWorker sha env req world = (answer, world')"
    and h: "\<forall>w reply w'. idleOk sha w \<longrightarrow> handle sha req w = (reply, w') \<longrightarrow>
      idleOk sha w' \<and> grows (w_file w) (w_file w')"
  shows "worldOk sha world' \<and> grows (w_file (wd_worker world)) (w_file (wd_worker world')) \<and>
    (\<forall>reply. answer = Inr reply \<longrightarrow> (\<exists>w. idleOk sha w \<and> handle sha req w = (Inr reply, wd_worker world')))"
proof -
  let ?w = "fold (act sha) (tn_others (env (wd_turn world))) (wd_worker world)"
  have o: "idleOk sha ?w" "grows (w_file (wd_worker world)) (w_file ?w)"
    using others_idle w by (simp_all add: worldOk_def)
  obtain reply w' where hw: "handle sha req ?w = (reply, w')" by fastforce
  note s = h [rule_format, OF o(1) hw]
  have reopen: "idleOk sha v \<Longrightarrow> idleOk sha (openWorker (w_file v))" for v
    by (simp add: idleOk_def workerOk_def [of sha v]) (simp add: openWorker_def)
  have opened: "w_file (openWorker t) = t" for t by (simp add: openWorker_def)
  show ?thesis
    using r o s hw reopen [OF o(1)] reopen [of w'] grows_trans [OF o(2)]
    unfolding askWorker_def Let_def
    by (cases "tn_delivery (env (wd_turn world))"; cases reply) (auto simp: worldOk_def opened)
qed

lemma prefix_mapI: "prefix xs ys \<Longrightarrow> prefix (map f xs) (map f ys)"
  by (auto simp: prefix_def)

lemma streamRows_prefix: "grows t t' \<Longrightarrow> prefix (streamRows ty a t) (streamRows ty a t')"
  by (auto simp: grows_def prefix_def streamRows_def)

lemma storedReceipt_row:
  assumes "tablesOk sha t" "row \<in> set (t_receipts t)" "sameIdentity i row" "parseReceipt (rr_receiptJson row) = Inr r"
  shows "storedReceipt t i = Some r"
  using findCommandDuplicate_stored [OF assms(1-3)] assms(4) by (simp add: storedReceipt_def)

lemma storedReceipt_grows:
  assumes "tablesOk sha t'" "grows t t'" "storedReceipt t i = Some r"
  shows "storedReceipt t' i = Some r"
proof -
  obtain row where "findCommandDuplicate i t = Inr (Some row)" and p: "parseReceipt (rr_receiptJson row) = Inr r"
    using assms(3) by (auto simp: storedReceipt_def split: sum.splits option.splits)
  then have row: "row \<in> set (t_receipts t)" "sameIdentity i row" using findCommandDuplicate_Some by blast+
  then have "row \<in> set (t_receipts t')" using assms(2) by (auto simp: grows_def prefix_def)
  then show ?thesis using storedReceipt_row [OF assms(1) _ row(2) p] by simp
qed

lemma lookup_storedReceipt: "lookupCommandReceipt i t = Inr found \<Longrightarrow> found = storedReceipt t i"
  by (auto simp: lookupCommandReceipt_def storedReceipt_def split: option.splits)

text \<open>The events of a stream, as they are read.\<close>

lemma storedStream_events:
  assumes ok: "tablesOk sha t"
  obtains es where "storedStream t ty a = map (\<lambda>e. norm (eventJson e)) es" "\<forall>e \<in> set es. eventWf e"
    "map ev_aggregateVersion es = map int [1..<Suc (length es)]"
    "\<And>limit. readEvents ty a limit t = Inr (sqlLimit limit (storedStream t ty a))"
proof -
  have rows: "\<forall>row \<in> set (streamRows ty a t). rowOk sha row"
    using ok by (simp add: tablesOk_def streamRows_def)
  obtain es where es: "map er_eventJson (streamRows ty a t) = map (\<lambda>e. canon (eventJson e)) es"
    "map er_aggregateVersion (streamRows ty a t) = map ev_aggregateVersion es" "\<forall>e \<in> set es. eventWf e"
    using rows_events [OF rows] by blast
  have len: "length es = length (streamRows ty a t)" using es(1) by (metis length_map)
  have "storedStream t ty a = map (\<lambda>s. the (parseCanonical s)) (map er_eventJson (streamRows ty a t))"
    by (simp add: storedStream_def)
  also have "\<dots> = map (\<lambda>e. norm (eventJson e)) es"
    unfolding es(1) using es(3) by (simp add: parseCanonical_canon eventJson_wf eventWf_def)
  finally have s: "storedStream t ty a = map (\<lambda>e. norm (eventJson e)) es" .
  have "map ev_aggregateVersion es = map int [1..<Suc (length es)]"
    using ok es(2) by (simp add: tablesOk_def len)
  moreover have "readEvents ty a limit t = Inr (sqlLimit limit (storedStream t ty a))" for limit
    unfolding s by (rule readEvents_stream [OF ok es(3,1)])
  ultimately show thesis using that s es(3) by blast
qed

lemma eventVersion_norm: "eventVersion (norm (eventJson e)) = ev_aggregateVersion e"
  by (simp add: eventVersion_def eventOf_norm)

lemma batchOf_identity: "ba_identity (batchOf (norm (batchJson b))) = ba_identity b"
proof -
  obtain kvs where k: "batchJson b = JObj kvs" "distinct (map fst kvs)" by (simp add: batchJson_def)
  have "strAt (norm (batchJson b)) k = strAt (batchJson b) k" for k
    unfolding k(1) by (rule norm_object_fields(1) [OF k(2)])
  then have "ba_identity (batchOf (norm (batchJson b))) = ba_identity (batchOf (batchJson b))"
    by (simp only: batchOf_def journalAppendBatch.select_convs)
  also have "\<dots> = ba_identity b" by (simp add: batchOf_def strAt_def batchJson_def)
  finally show ?thesis .
qed

lemma batchOf_events_wf:
  assumes "json_wf j" shows "\<forall>e \<in> set (ba_events (batchOf j)). eventWf e"
proof -
  have "\<forall>x \<in> set (arrayAt j k). json_wf x" for k
    using json_wf_at [OF assms, of k] by (cases "at j k") (simp_all add: arrayAt_def)
  then show ?thesis by (auto simp: batchOf_def eventWf_def eventOf_def json_wf_at)
qed

lemma validateContract_Inr: "validateContract reg i j = Inr k \<Longrightarrow> k = j"
  by (auto simp: validateContract_def validateIdentity_def split: sum.splits option.splits)

lemma validateBatch_Inr:
  assumes "validateBatch reg (of_json (batchJson b)) = Inr j" "json_wf (batchJson b)"
  shows "j = norm (batchJson b)" "json_wf j"
proof -
  have "reparse (of_json (batchJson b)) = Inr (norm (batchJson b))" by (rule reparse_json [OF assms(2)])
  then show "j = norm (batchJson b)"
    using assms(1) by (auto simp: validateBatch_def dest!: validateContract_Inr)
  then show "json_wf j" using assms(2) json_wf_norm by simp
qed

lemma Inr_eq_bindE: "Inr y = bindE m f \<longleftrightarrow> (\<exists>x. m = Inr x \<and> f x = Inr y)"
  unfolding bindE_Inr_iff [symmetric] by (rule eq_commute)

lemma lookup_idle:
  assumes "worldOk sha w" "clientLookup sha reg env i w = (answer, w')"
  shows "worldLater sha w w' \<and> (\<forall>found. answer = Inr found \<longrightarrow> found = storedReceipt (w_file (wd_worker w')) i)"
proof (cases "validLookup i")
  case True
  obtain r w1 where q: "askWorker sha env (ReqLookupCommandReceipt i) w = (r, w1)" by fastforce
  then have w1: "w1 = w'" using assms(2) True by (cases r) (auto simp: clientLookup_def bindS_def pureS_def)
  have h: "\<forall>v reply v'. idleOk sha v \<longrightarrow> handle sha (ReqLookupCommandReceipt i) v = (reply, v') \<longrightarrow>
      idleOk sha v' \<and> grows (w_file v) (w_file v')" by (auto simp: mapReply_pair)
  note s = request_idle [OF assms(1) q h, unfolded w1]
  have "found = storedReceipt (w_file (wd_worker w')) i" if f: "answer = Inr found" for found
  proof -
    obtain reply where r: "r = Inr reply" using assms(2) True f q by (cases r) (auto simp: clientLookup_def bindS_def pureS_def)
    then have "reply = ReplyLookup found"
      using assms(2) True f q
      by (auto simp: clientLookup_def bindS_def pureS_def asReceipt_def split: reply.splits option.splits)
    moreover obtain v where v: "idleOk sha v" "handle sha (ReqLookupCommandReceipt i) v = (Inr reply, wd_worker w')"
      using s r by blast
    ultimately have "lookupCommandReceipt i (w_file v) = Inr found" "wd_worker w' = v"
      by (auto simp: mapReply_pair onDatabase_def idleOk_visible Inr_eq_bindE split: if_splits)
    then show ?thesis using lookup_storedReceipt by simp
  qed
  moreover have "worldLater sha w w'" unfolding worldLater_def by (intro impI conjI conjunct1 [OF s] conjunct1 [OF conjunct2 [OF s]])
  ultimately show ?thesis by blast
qed (use assms in \<open>auto simp: clientLookup_def pureS_def worldLater_def\<close>)

lemma read_idle:
  assumes "worldOk sha w" "clientReadEvents sha env ty a 10000 w = (answer, w')"
  shows "worldLater sha w w' \<and> (\<forall>items. answer = Inr items \<longrightarrow>
    items = take 10000 (storedStream (w_file (wd_worker w')) ty a))"
proof -
  obtain r w1 where q: "askWorker sha env (ReqReadEvents ty a 10000) w = (r, w1)" by fastforce
  then have w1: "w1 = w'" using assms(2)
    by (cases r) (auto simp: clientReadEvents_def bindS_def pureS_def maxSafeInteger_def)
  have h: "\<forall>v reply v'. idleOk sha v \<longrightarrow> handle sha (ReqReadEvents ty a 10000) v = (reply, v') \<longrightarrow>
      idleOk sha v' \<and> grows (w_file v) (w_file v')" by (auto simp: mapReply_pair)
  note s = request_idle [OF assms(1) q h, unfolded w1]
  have "items = take 10000 (storedStream (w_file (wd_worker w')) ty a)" if f: "answer = Inr items" for items
  proof -
    obtain reply where r: "r = Inr reply"
      using assms(2) f q by (cases r) (auto simp: clientReadEvents_def bindS_def pureS_def maxSafeInteger_def)
    then have "reply = ReplyEvents items"
      using assms(2) f q
      by (auto simp: clientReadEvents_def bindS_def pureS_def maxSafeInteger_def split: reply.splits)
    moreover obtain v where v: "idleOk sha v" "handle sha (ReqReadEvents ty a 10000) v = (Inr reply, wd_worker w')"
      using s r by blast
    ultimately have e: "readEvents ty a 10000 (w_file v) = Inr items" "wd_worker w' = v"
      by (auto simp: mapReply_pair onDatabase_def idleOk_visible Inr_eq_bindE split: if_splits)
    have ok: "tablesOk sha (w_file v)" using v(1) unfolding idleOk_def workerOk_def by (elim conjE)
    show ?thesis
      by (rule storedStream_events [OF ok, of ty a]) (use e in \<open>simp add: sqlLimit_def\<close>)
  qed
  moreover have "worldLater sha w w'" unfolding worldLater_def by (intro impI conjI conjunct1 [OF s] conjunct1 [OF conjunct2 [OF s]])
  ultimately show ?thesis by blast
qed

lemma commit_idle:
  assumes "worldOk sha w" "json_wf (batchJson b)" "clientCommit sha reg env (of_json (batchJson b)) w = (answer, w')"
  shows "worldLater sha w w' \<and> (\<forall>r. answer = Inr r \<longrightarrow> storedReceipt (w_file (wd_worker w')) (ba_identity b) = Some r)"
proof (cases "validateBatch reg (of_json (batchJson b))")
  case (Inl e)
  then show ?thesis
    using assms by (auto simp: clientCommit_def bindS_def pureS_def worldLater_def simp del: of_json.simps)
next
  case (Inr j)
  note j = validateBatch_Inr [OF Inr assms(2)]
  obtain r w1 where q: "askWorker sha env (ReqCommit (batchOf j)) w = (r, w1)" by fastforce
  then have w1: "w1 = w'" using assms(3) Inr
    by (cases r) (auto simp: clientCommit_def bindS_def pureS_def simp del: of_json.simps)
  have h: "\<forall>v reply v'. idleOk sha v \<longrightarrow> handle sha (ReqCommit (batchOf j)) v = (reply, v') \<longrightarrow>
      idleOk sha v' \<and> grows (w_file v) (w_file v')"
  proof (intro allI impI)
    fix v reply v'
    assume v: "idleOk sha v" "handle sha (ReqCommit (batchOf j)) v = (reply, v')"
    then have "commitBatch sha (batchOf j) v = (fst (commitBatch sha (batchOf j) v), v')" by (simp add: mapReply_pair)
    then show "idleOk sha v' \<and> grows (w_file v) (w_file v')"
      by (rule commitBatch_idle [OF v(1) batchOf_events_wf [OF j(2)]])
  qed
  note s = request_idle [OF assms(1) q h, unfolded w1]
  have "storedReceipt (w_file (wd_worker w')) (ba_identity b) = Some x" if f: "answer = Inr x" for x
  proof -
    obtain reply where r: "r = Inr reply"
      using assms(3) f q Inr by (cases r) (auto simp: clientCommit_def bindS_def pureS_def simp del: of_json.simps)
    then have "reply = ReplyReceipt x"
      using assms(3) f q Inr
      by (auto simp: clientCommit_def bindS_def pureS_def asReceipt_def simp del: of_json.simps split: reply.splits)
    moreover obtain v where v: "idleOk sha v" "handle sha (ReqCommit (batchOf j)) v = (Inr reply, wd_worker w')"
      using s r by blast
    ultimately have c: "commitBatch sha (batchOf j) v = (Inr x, wd_worker w')" by (simp only: handle_commit)
    have "workerOk sha v" using v(1) by (simp add: idleOk_def)
    from committed_receipt [OF this c] obtain row where
      row: "row \<in> set (t_receipts (w_file (wd_worker w')))" "sameIdentity (ba_identity b) row"
        "parseReceipt (rr_receiptJson row) = Inr x"
      by (auto simp: j(1) batchOf_identity)
    have "tablesOk sha (w_file (wd_worker w'))"
      using s unfolding worldOk_def idleOk_def workerOk_def by (elim conjE)
    then show ?thesis using storedReceipt_row row by blast
  qed
  moreover have "worldLater sha w w'" unfolding worldLater_def by (intro impI conjI conjunct1 [OF s] conjunct1 [OF conjunct2 [OF s]])
  ultimately show ?thesis by blast
qed

lemma worldOk_tables: "worldOk sha w \<Longrightarrow> tablesOk sha (w_file (wd_worker w))"
  unfolding worldOk_def idleOk_def workerOk_def by (elim conjE)

interpretation workerJournal: journal "workerPort sha reg env" "worldOk sha" "worldLater sha"
  "\<lambda>w. storedReceipt (w_file (wd_worker w))" "\<lambda>w. storedStream (w_file (wd_worker w))" for sha reg env
proof unfold_locales
  fix w w' w'' :: world and i r ty a
  show "worldOk sha w \<Longrightarrow> worldLater sha w w' \<Longrightarrow> worldOk sha w'" by (simp add: worldLater_def)
  show "worldLater sha w w" by (simp add: worldLater_def)
  show "worldLater sha w w' \<Longrightarrow> worldLater sha w' w'' \<Longrightarrow> worldLater sha w w''"
    unfolding worldLater_def using grows_trans by blast
  show "storedReceipt (w_file (wd_worker w')) i = Some r"
    if "worldOk sha w" "worldLater sha w w'" "storedReceipt (w_file (wd_worker w)) i = Some r"
  proof (rule storedReceipt_grows [OF worldOk_tables [of sha w'] _ that(3)])
    show "worldOk sha w'" "grows (w_file (wd_worker w)) (w_file (wd_worker w'))"
      using that(1,2) by (simp_all add: worldLater_def)
  qed
  show "prefix (storedStream (w_file (wd_worker w)) ty a) (storedStream (w_file (wd_worker w')) ty a)"
    if "worldOk sha w" "worldLater sha w w'"
    using that by (simp add: worldLater_def storedStream_def prefix_mapI streamRows_prefix)
  assume ok: "worldOk sha w"
  note t = worldOk_tables [OF ok]
  show "\<forall>j \<in> set (storedStream (w_file (wd_worker w)) ty a). json_wf j \<and> norm j = j"
    by (rule storedStream_events [OF t, of ty a]) (auto simp: norm_norm json_wf_norm eventJson_wf eventWf_def)
  show "map eventVersion (storedStream (w_file (wd_worker w)) ty a) =
      map int [1..<Suc (length (storedStream (w_file (wd_worker w)) ty a))]"
    by (rule storedStream_events [OF t, of ty a]) (simp add: eventVersion_norm comp_def del: upt_Suc)
  fix answer found events items b receipt
  show "worldLater sha w w'" if "wp_lookupCommandReceipt (workerPort sha reg env) i w = (answer, w')"
    using lookup_idle [OF ok] that by (simp add: workerPort_def)
  show "found = storedReceipt (w_file (wd_worker w')) i"
    if "wp_lookupCommandReceipt (workerPort sha reg env) i w = (Inr found, w')"
    using lookup_idle [OF ok] that by (simp add: workerPort_def)
  show "worldLater sha w w'" if "wp_readEvents (workerPort sha reg env) ty a w = (events, w')"
    using read_idle [OF ok] that by (simp add: workerPort_def)
  show "items = take 10000 (storedStream (w_file (wd_worker w')) ty a)"
    if "wp_readEvents (workerPort sha reg env) ty a w = (Inr items, w')"
    using read_idle [OF ok] that by (simp add: workerPort_def)
  assume b: "json_wf (batchJson b)"
  show "worldLater sha w w'" if "wp_commit (workerPort sha reg env) b w = (receipt, w')"
    using commit_idle [OF ok b] that by (simp add: workerPort_def)
  show "storedReceipt (w_file (wd_worker w')) (ba_identity b) = Some r"
    if "wp_commit (workerPort sha reg env) b w = (Inr r, w')"
    using commit_idle [OF ok b] that by (simp add: workerPort_def)
qed

section \<open>Execution without interference\<close>

definition quiet :: "(nat \<Rightarrow> turn) \<Rightarrow> bool" where
  "quiet env \<longleftrightarrow> env = (\<lambda>_. \<lparr>tn_others = [], tn_delivery = Delivered\<rparr>)"

lemma request_quiet:
  "quiet env \<Longrightarrow> handle sha req (wd_worker world) = (Inr reply, w') \<Longrightarrow>
     askWorker sha env req world = (Inr reply, \<lparr>wd_worker = w', wd_turn = Suc (wd_turn world)\<rparr>)"
  by (simp add: quiet_def askWorker_def Let_def)

lemma lookup_quiet:
  assumes "quiet env" "validLookup i" "w_open (wd_worker world)"
    "lookupCommandReceipt i (visible (wd_worker world)) = Inr found"
    "case found of None \<Rightarrow> True | Some r \<Rightarrow> validateContract reg receiptSchemaId (receiptJson r) = Inr (receiptJson r)"
  shows "clientLookup sha reg env i world = (Inr found, \<lparr>wd_worker = wd_worker world, wd_turn = Suc (wd_turn world)\<rparr>)"
proof -
  have "handle sha (ReqLookupCommandReceipt i) (wd_worker world) = (Inr (ReplyLookup found), wd_worker world)"
    using assms(3,4) by (simp add: mapReply_pair onDatabase_def del: bindE_Inr_iff)
  note q = request_quiet [OF assms(1) this]
  show ?thesis
    using assms(2,5) by (cases found) (simp_all add: clientLookup_def bindS_def pureS_def q asReceipt_def del: bindE_Inr_iff)
qed

lemma read_quiet:
  assumes "quiet env" "w_open (wd_worker world)" "idleOk sha (wd_worker world)"
  shows "clientReadEvents sha env ty a 10000 world =
    (Inr (take 10000 (storedStream (w_file (wd_worker world)) ty a)), \<lparr>wd_worker = wd_worker world, wd_turn = Suc (wd_turn world)\<rparr>)"
proof -
  have "tablesOk sha (w_file (wd_worker world))" using assms(3) unfolding idleOk_def workerOk_def by (elim conjE)
  then have "readEvents ty a 10000 (w_file (wd_worker world)) = Inr (take 10000 (storedStream (w_file (wd_worker world)) ty a))"
    by (rule storedStream_events [of sha _ ty a]) (simp add: sqlLimit_def)
  then have "handle sha (ReqReadEvents ty a 10000) (wd_worker world) =
      (Inr (ReplyEvents (take 10000 (storedStream (w_file (wd_worker world)) ty a))), wd_worker world)"
    using assms(2) by (simp add: mapReply_pair onDatabase_def idleOk_visible [OF assms(3)] del: bindE_Inr_iff)
  note q = request_quiet [OF assms(1) this]
  show ?thesis by (simp add: clientReadEvents_def bindS_def pureS_def q maxSafeInteger_def)
qed

lemma idleOk_transaction: "idleOk sha w \<Longrightarrow> w_transaction w = None"
  by (simp add: idleOk_def)

lemma commit_quiet:
  assumes "quiet env" "idleOk sha (wd_worker world)" "w_open (wd_worker world)"
    "\<forall>row \<in> set (t_receipts (w_file (wd_worker world))). \<not> sharesIdentity (ba_identity b) row"
    "committable sha b (w_file (wd_worker world))"
    "validateBatch reg (of_json (batchJson b)) = Inr j" "batchOf j = b"
    "\<And>r. validateContract reg receiptSchemaId (receiptJson r) = Inr (receiptJson r)"
  obtains r t where "appendBatch sha b (w_file (wd_worker world)) = Inr (r, t)"
    "clientCommit sha reg env (of_json (batchJson b)) world =
      (Inr r, \<lparr>wd_worker = (wd_worker world)\<lparr>w_file := t\<rparr>, wd_turn = Suc (wd_turn world)\<rparr>)"
proof -
  let ?w = "wd_worker world"
  have ok: "tablesOk sha (w_file ?w)" using assms(2) unfolding idleOk_def workerOk_def by (elim conjE)
  have v: "verifyOutbox sha b = Inr ()"
    using assms(5) by (auto simp: committable_def verifyOutbox_def list_ex_iff)
  obtain r t where a: "appendBatch sha b (w_file ?w) = Inr (r, t)"
    using appendBatch_iff [OF ok assms(4) v] assms(5) by blast
  have none: "findCommandDuplicate (ba_identity b) (w_file ?w) = Inr None"
    using assms(4) by (simp only: findCommandDuplicate_None)
  have "commitBatch sha b ?w = (Inr r, ?w\<lparr>w_file := t\<rparr>)"
    using a none v assms(3) idleOk_visible [OF assms(2)] idleOk_transaction [OF assms(2)]
    by (simp add: commitBatch_def onDatabase_def runTransaction_def commitAction_def del: bindE_Inr_iff)
  then have "handle sha (ReqCommit (batchOf j)) ?w = (Inr (ReplyReceipt r), ?w\<lparr>w_file := t\<rparr>)"
    unfolding assms(7) by (simp only: handle_commit)
  note q = request_quiet [OF assms(1) this]
  have "clientCommit sha reg env (of_json (batchJson b)) world =
      (Inr r, \<lparr>wd_worker = ?w\<lparr>w_file := t\<rparr>, wd_turn = Suc (wd_turn world)\<rparr>)"
    using assms(6,8) by (simp add: clientCommit_def bindS_def pureS_def q asReceipt_def del: bindE_Inr_iff of_json.simps)
  with a show thesis by (rule that)
qed

text \<open>A batch of the kernel is read back by the worker as it is.\<close>

lemma at_norm_batch: "at (norm (batchJson b)) k = norm (at (batchJson b) k)" "strAt (norm (batchJson b)) k = strAt (batchJson b) k"
proof -
  obtain kvs where k: "batchJson b = JObj kvs" "distinct (map fst kvs)" by (simp add: batchJson_def)
  show "at (norm (batchJson b)) k = norm (at (batchJson b) k)" "strAt (norm (batchJson b)) k = strAt (batchJson b) k"
    unfolding k(1) by (simp_all only: norm_object_fields [OF k(2)])
qed

lemma auditOf_norm: "auditOf (norm (auditJson a)) = a"
proof -
  obtain kvs where k: "auditJson a = JObj kvs" "distinct (map fst kvs)" by (simp add: auditJson_def)
  have "strAt (norm (auditJson a)) k = strAt (auditJson a) k" for k
    unfolding k(1) by (rule norm_object_fields(1) [OF k(2)])
  then have "auditOf (norm (auditJson a)) = auditOf (auditJson a)" by (simp only: auditOf_def)
  also have "\<dots> = a" by (simp add: auditOf_def auditJson_def strAt_def)
  finally show ?thesis .
qed

lemma batchOf_batchJson:
  assumes "ba_outbox b = []" "\<forall>e \<in> set (ba_events b). norm (ev_actor e) = ev_actor e \<and> norm (ev_payload e) = ev_payload e"
  shows "batchOf (norm (batchJson b)) = b"
proof -
  let ?stream = "[(js ''aggregateType'', JStr (ba_aggregateType b)), (js ''aggregateId'', JStr (ba_aggregateId b)),
     (js ''expectedVersion'', JNum (numInt (ba_expectedVersion b)))]"
  have s: "at (norm (batchJson b)) ''stream'' = norm (JObj ?stream)"
    unfolding at_norm_batch(1) by (simp add: at_def batchJson_def)
  have d: "distinct (map fst ?stream)" by simp
  note f = norm_object_fields(1,2) [OF d]
  have arrays: "arrayAt (norm (batchJson b)) ''events'' = map (\<lambda>e. norm (eventJson e)) (ba_events b)"
    "arrayAt (norm (batchJson b)) ''outbox'' = []"
    "arrayAt (norm (batchJson b)) ''audit'' = map (\<lambda>a. norm (auditJson a)) (ba_audit b)"
    unfolding arrayAt_def at_norm_batch(1) using assms(1) by (simp_all add: at_def batchJson_def comp_def)
  have "map (\<lambda>e. eventOf (norm (eventJson e))) (ba_events b) = ba_events b"
    by (rule map_idI) (use assms(2) in \<open>simp add: eventOf_norm\<close>)
  then show ?thesis
    unfolding batchOf_def arrays s f at_norm_batch(2)
    using assms(1) by (simp add: comp_def auditOf_norm strAt_def intAt_def batchJson_def)
qed

lemma makeReceipt_fields:
  "rc_commandId (makeReceipt sha b v) = id_commandId (ba_identity b)"
  "rc_aggregateType (makeReceipt sha b v) = ba_aggregateType b"
  "rc_aggregateId (makeReceipt sha b v) = ba_aggregateId b"
  "rc_committedVersion (makeReceipt sha b v) = v + int (length (ba_events b))"
  "rc_eventIds (makeReceipt sha b v) = map ev_eventId (ba_events b)"
  "rc_receiptHash (makeReceipt sha b v) = receiptHashOf sha (makeReceipt sha b v)"
  by (simp_all add: makeReceipt_def Let_def receiptHashOf_def receiptBaseObj_def)

lemma commandIdentityOf_simps [simp]: "id_commandId (commandIdentityOf sha command) = cm_commandId command"
  by (simp add: commandIdentityOf_def)

lemma norm_at: "norm j = j \<Longrightarrow> json_wf j \<Longrightarrow> norm (at j k) = at j k"
proof (cases j)
  case (JObj kvs)
  assume "norm j = j" "json_wf j"
  then have "at (norm (JObj kvs)) k = at j k" "distinct (map fst kvs)" by (simp_all add: JObj)
  then show ?thesis using norm_object_fields(3) [of kvs k] by (simp only: JObj)
qed (simp_all add: at_def)

text \<open>What \<open>prepare\<close> made of a command and an empty history.\<close>

lemma prepared_run:
  assumes adm: "admitCommand sha reg workflowRunDefinition input = Inr command" "unknown_wf input"
    and p: "prepare sha reg workflowRunDefinition (of_json (cm_object command)) (of_json (JArr [])) context = Inr t"
  obtains event where "pt_batch t = newBatch sha command context event" "eventWf event"
    "norm (ev_actor event) = ev_actor event" "norm (ev_payload event) = ev_payload event"
    "num_to_int (cm_expectedVersion command) = 0" "ev_aggregateVersion event = 1"
    "ev_causationId event = cm_commandId command"
    "replay sha reg workflowRunDefinition (cm_aggregateId command) (of_json (JArr [norm (eventJson event)])) =
       Inr \<lparr>rp_state = Some (pt_state t), rp_version = 1\<rparr>"
proof -
  have wf: "json_wf (cm_object command)" by (rule admitted_wf(1) [OF adm])
  then have u: "unknown_wf (of_json (cm_object command))" by (simp add: unknown_wf_of_json)
  note again = admit_again [OF adm]
  obtain command' event where r: "admitCommand sha reg workflowRunDefinition (of_json (cm_object command)) = Inr command'"
    "pt_batch t = newBatch sha command' context event" "eventWf event"
    "num_to_int (cm_expectedVersion command') = int (length ([] :: json list))"
    "ev_causationId event = cm_commandId command'"
    "ev_aggregateVersion event = int (length ([] :: json list)) + 1"
    "\<And>stored. \<forall>j \<in> set stored. json_wf j \<Longrightarrow> map norm stored = map norm [] @ [norm (eventJson event)] \<Longrightarrow>
      replay sha reg workflowRunDefinition (cm_aggregateId command') (of_json (JArr stored)) =
        Inr \<lparr>rp_state = Some (pt_state t), rp_version = int (length ([] :: json list)) + 1\<rparr>"
    using run.prepare_recoverable [OF p _ u] by auto
  have c: "command' = command" using r(1) again by simp
  have "json_wf (eventJson event)" using r(3) eventJson_wf by (simp add: eventWf_def)
  then have rep: "replay sha reg workflowRunDefinition (cm_aggregateId command) (of_json (JArr [norm (eventJson event)])) =
       Inr \<lparr>rp_state = Some (pt_state t), rp_version = 1\<rparr>"
    using r(7) [of "[norm (eventJson event)]"] c by (simp add: json_wf_norm norm_norm del: of_json.simps)
  show thesis
  proof (rule prepare_steps [OF p])
    fix command2 h rp d decision eventType schemaId payload ref nxt
    assume s: "admitCommand sha reg workflowRunDefinition (of_json (cm_object command)) = Inr command2"
      "ad_decide workflowRunDefinition (rp_state rp) command2 = Inr d" "snapshot d = Inr decision"
      "proposedEvent workflowRunDefinition decision = Inr (eventType, schemaId, Some payload)"
      "pt_batch t = newBatch sha command2 context (newEvent sha command2 context (rp_version rp) eventType ref payload)"
    have c2: "command2 = command" using s(1) again by simp
    have "ba_events (pt_batch t) = [event]" by (simp only: r(2) newBatch_simps)
    moreover have "ba_events (pt_batch t) = [newEvent sha command context (rp_version rp) eventType ref payload]"
      by (simp only: s(5) c2 newBatch_simps)
    ultimately have e: "event = newEvent sha command context (rp_version rp) eventType ref payload" by simp
    have "payload = createdPayload command"
      by (rule decide_run(5) [OF _ s(3) admitted_wf(3) [OF adm] s(4)]) (use s(2) c2 in simp)
    then have "norm (ev_payload event) = ev_payload event" by (simp add: e newEvent_def createdPayload_def norm_norm del: norm.simps)
    moreover have "norm (ev_actor event) = ev_actor event"
    proof -
      have n: "norm (cm_object command) = cm_object command"
        by (rule snapshot_Inr [OF adm(2) admitCommand_Inr(1) [OF adm(1)]], simp)
      have "cm_actor command = at (cm_object command) ''actor''"
        by (subst admitCommand_Inr(2) [OF adm(1)]) (simp add: commandOf_def)
      moreover have "norm (at (cm_object command) ''actor'') = at (cm_object command) ''actor''"
        by (rule norm_at [OF n wf])
      ultimately show ?thesis by (simp add: e newEvent_def)
    qed
    ultimately show thesis
      using that [of event] r c rep by simp
  qed
qed

text \<open>The steps of a creation that succeeds.\<close>

lemma executes_new_run:
  assumes "quiet env" "worldOk sha world" "w_open (wd_worker world)" "unknown_wf input"
    "admitCommand sha reg workflowRunDefinition input = Inr command" "validLookup (commandIdentityOf sha command)"
    "\<forall>row \<in> set (t_receipts (w_file (wd_worker world))). \<not> sharesIdentity (commandIdentityOf sha command) row"
    "storedStream (w_file (wd_worker world)) (js ''WorkflowRun'') (cm_aggregateId command) = []"
    "prepare sha reg workflowRunDefinition (of_json (cm_object command)) (of_json (JArr [])) context = Inr t"
    "validateBatch reg (of_json (batchJson (pt_batch t))) = Inr j"
    "committable sha (pt_batch t) (w_file (wd_worker world))"
    "\<And>r. validateContract reg receiptSchemaId (receiptJson r) = Inr (receiptJson r)"
  shows "\<exists>r world'. execute sha reg (workerPort sha reg env) context input world =
      (Inr \<lparr>wc_state = pt_state t, wc_receipt = r\<rparr>, world') \<and>
    storedReceipt (w_file (wd_worker world')) (commandIdentityOf sha command) = Some r \<and>
    storedStream (w_file (wd_worker world')) (js ''WorkflowRun'') (cm_aggregateId command) =
      map (\<lambda>e. norm (eventJson e)) (ba_events (pt_batch t))"
proof -
  let ?w = "wd_worker world" and ?i = "commandIdentityOf sha command" and ?b = "pt_batch t"
  obtain event where b: "?b = newBatch sha command context event" "eventWf event"
    "norm (ev_actor event) = ev_actor event" "norm (ev_payload event) = ev_payload event"
    "num_to_int (cm_expectedVersion command) = 0" "ev_aggregateVersion event = 1"
    "ev_causationId event = cm_commandId command"
    "replay sha reg workflowRunDefinition (cm_aggregateId command) (of_json (JArr [norm (eventJson event)])) =
       Inr \<lparr>rp_state = Some (pt_state t), rp_version = 1\<rparr>"
    by (rule prepared_run [OF assms(5,4,9)])
  have ty: "cm_aggregateType command = js ''WorkflowRun''" using admitCommand_Inr(3) [OF assms(5)] by simp
  have bf: "ba_identity ?b = ?i" "ba_aggregateType ?b = js ''WorkflowRun''" "ba_aggregateId ?b = cm_aggregateId command"
    "ba_events ?b = [event]" "ba_outbox ?b = []" "ba_expectedVersion ?b = 0"
    by (simp_all add: b(1,5) ty)
  have idle: "idleOk sha ?w" using assms(2) by (simp add: worldOk_def)
  have ok: "tablesOk sha (w_file ?w)" by (rule worldOk_tables [OF assms(2)])
  have none: "lookupCommandReceipt ?i (visible ?w) = Inr None"
    using assms(7) idleOk_visible [OF idle]
    by (simp add: lookupCommandReceipt_def findCommandDuplicate_None [symmetric] del: bindE_Inr_iff)
  let ?w1 = "\<lparr>wd_worker = ?w, wd_turn = Suc (wd_turn world)\<rparr>"
  have l: "clientLookup sha reg env ?i world = (Inr None, ?w1)"
    by (rule lookup_quiet [OF assms(1,6,3) none]) simp
  let ?w2 = "\<lparr>wd_worker = ?w, wd_turn = Suc (Suc (wd_turn world))\<rparr>"
  have h: "clientReadEvents sha env (js ''WorkflowRun'') (cm_aggregateId command) 10000 ?w1 = (Inr [], ?w2)"
    using read_quiet [OF assms(1), of ?w1 sha "js ''WorkflowRun''" "cm_aggregateId command"] assms(3,8) idle by simp
  have "j = norm (batchJson ?b)"
    by (rule validateBatch_Inr(1) [OF assms(10)]) (simp add: b(1) newBatch_wf b(2))
  then have same: "batchOf j = ?b" using batchOf_batchJson [of ?b] bf(4,5) b(3,4) by simp
  obtain r t' where a: "appendBatch sha ?b (w_file ?w) = Inr (r, t')"
    and c: "clientCommit sha reg env (of_json (batchJson ?b)) ?w2 =
      (Inr r, \<lparr>wd_worker = ?w\<lparr>w_file := t'\<rparr>, wd_turn = Suc (Suc (Suc (wd_turn world)))\<rparr>)"
    using commit_quiet [OF assms(1), of sha ?w2 ?b reg j] idle assms(3,7,10,11,12) bf(1) same by auto
  let ?w3 = "\<lparr>wd_worker = ?w\<lparr>w_file := t'\<rparr>, wd_turn = Suc (Suc (Suc (wd_turn world)))\<rparr>"
  have "worldLater sha ?w2 ?w3"
    using commit_idle [OF _ _ c] idle newBatch_wf [OF b(2)] by (simp add: worldOk_def b(1))
  then have ok3: "worldOk sha ?w3" using idle by (simp add: worldLater_def worldOk_def)
  then have ok3': "tablesOk sha t'" using worldOk_tables by fastforce
  note s = appendBatch_streams [OF ok a] and m = appendBatch_Inr(2) [OF a]
  have "streamRows (js ''WorkflowRun'') (cm_aggregateId command) (w_file ?w) = []"
    using assms(8) by (simp add: storedStream_def)
  then have stream: "storedStream t' (js ''WorkflowRun'') (cm_aggregateId command) = [norm (eventJson event)]"
    using s(2) [of "js ''WorkflowRun''" "cm_aggregateId command"] bf b(2)
    by (simp add: storedStream_def parseCanonical_canon eventJson_wf eventWf_def)
  have r: "rc_commandId r = cm_commandId command" "rc_aggregateType r = cm_aggregateType command"
    "rc_aggregateId r = cm_aggregateId command" "rc_committedVersion r = 1" "rc_eventIds r = [ev_eventId event]"
    "rc_receiptHash r = receiptHashOf sha r"
    unfolding m makeReceipt_fields(1-5) using makeReceipt_fields(6) bf ty by simp_all
  have ev: "eventOf (norm (eventJson event)) = event" using eventOf_norm [of event] b(3,4) by simp
  have "resultOfEvents sha reg command r [norm (eventJson event)] = Inr \<lparr>wc_state = pt_state t, wc_receipt = r\<rparr>"
    using b(5-8) r(4,5) by (simp add: resultOfEvents_def committedEvents_def eventVersion_def ev del: of_json.simps)
  moreover have "clientReadEvents sha env (js ''WorkflowRun'') (cm_aggregateId command) 10000 ?w3 =
      (Inr [norm (eventJson event)], \<lparr>wd_worker = ?w\<lparr>w_file := t'\<rparr>, wd_turn = Suc (Suc (Suc (Suc (wd_turn world))))\<rparr>)"
    using read_quiet [OF assms(1), of ?w3 sha "js ''WorkflowRun''" "cm_aggregateId command"] assms(3) ok3 stream
    by (simp add: worldOk_def)
  ultimately have result: "commandResult sha reg (workerPort sha reg env) command r ?w3 =
      (Inr \<lparr>wc_state = pt_state t, wc_receipt = r\<rparr>,
        \<lparr>wd_worker = ?w\<lparr>w_file := t'\<rparr>, wd_turn = Suc (Suc (Suc (Suc (wd_turn world))))\<rparr>)"
    using r by (simp add: commandResult_def receiptBinds_def ty workerPort_def bindS_def liftError_def pureS_def)
  have "attempt sha reg (workerPort sha reg env) context command ?w1 = (Inr r, ?w3)"
    using assms(9) h c by (simp add: attempt_def ty workerPort_def bindS_def liftError_def pureS_def del: of_json.simps)
  then have x: "execute sha reg (workerPort sha reg env) context input world =
      (Inr \<lparr>wc_state = pt_state t, wc_receipt = r\<rparr>,
        \<lparr>wd_worker = ?w\<lparr>w_file := t'\<rparr>, wd_turn = Suc (Suc (Suc (Suc (wd_turn world))))\<rparr>)"
    using assms(5) l result by (simp add: execute_def workerPort_def bindS_def liftError_def pureS_def Let_def)
  have "storedReceipt t' ?i = Some r"
    using commit_idle [OF _ _ c] idle newBatch_wf [OF b(2)] bf(1) by (simp add: worldOk_def b(1))
  then show ?thesis using x stream bf(4) by (intro exI [of _ r]) auto
qed


section \<open>Properties of the service\<close>

text \<open>C20. An answer of the service is the journal's: whatever other users do between its requests and
  whatever requests are lost, a successful answer carries the receipt stored for the command and the state
  that the first event of its run replays to; a command that expects no earlier version caused that
  event, the run is at version 1, and nothing that was stored has changed.\<close>

theorem execute_sound:
  assumes "worldOk sha w" "unknown_wf input"
    "execute sha reg (workerPort sha reg env) context input w = (Inr res, w')"
  shows "worldOk sha w' \<and> grows (w_file (wd_worker w)) (w_file (wd_worker w')) \<and>
    (\<exists>command j rest. admitCommand sha reg workflowRunDefinition input = Inr command \<and>
      storedReceipt (w_file (wd_worker w')) (commandIdentityOf sha command) = Some (wc_receipt res) \<and>
      rc_committedVersion (wc_receipt res) = 1 \<and> rc_commandId (wc_receipt res) = cm_commandId command \<and>
      storedStream (w_file (wd_worker w')) (js ''WorkflowRun'') (cm_aggregateId command) = j # rest \<and>
      replay sha reg workflowRunDefinition (cm_aggregateId command) (of_json (JArr [j])) =
        Inr \<lparr>rp_state = Some (wc_state res), rp_version = 1\<rparr> \<and>
      (num_to_int (cm_expectedVersion command) = 0 \<longrightarrow> ev_causationId (eventOf j) = cm_commandId command))"
  by (rule workerJournal.answer_sound [OF assms]) (use assms(1) in \<open>auto simp: worldLater_def simp del: of_json.simps\<close>)

text \<open>At most one command creates a run: of two commands for the same run that expect no earlier version,
  executed at any two times in any contexts, both are answered only if they are one command.\<close>

theorem execute_one_creator:
  assumes "worldOk sha w" "unknown_wf input1" "unknown_wf input2"
    "execute sha reg (workerPort sha reg env) context1 input1 w = (Inr res1, w1)" "worldLater sha w1 w2"
    "execute sha reg (workerPort sha reg env) context2 input2 w2 = (Inr res2, w3)"
    "admitCommand sha reg workflowRunDefinition input1 = Inr c1"
    "admitCommand sha reg workflowRunDefinition input2 = Inr c2"
    "cm_aggregateId c2 = cm_aggregateId c1"
    "num_to_int (cm_expectedVersion c1) = 0" "num_to_int (cm_expectedVersion c2) = 0"
  shows "cm_commandId c2 = cm_commandId c1"
  by (rule workerJournal.one_creator [OF assms])

text \<open>Every answer has passed the client's checks.\<close>

lemma clientLookup_valid:
  assumes "clientLookup sha reg env i w = (Inr found, w')"
  shows "validLookup i" "found = Some r \<Longrightarrow> validateContract reg receiptSchemaId (receiptJson r) = Inr (receiptJson r)"
proof -
  show v: "validLookup i" using assms by (auto simp: clientLookup_def pureS_def split: if_splits)
  assume "found = Some r"
  then obtain j where "validateContract reg receiptSchemaId (receiptJson r) = Inr j"
    using assms v
    by (auto simp: clientLookup_def bindS_def pureS_def asReceipt_def split: reply.splits option.splits prod.splits sum.splits)
  then show "validateContract reg receiptSchemaId (receiptJson r) = Inr (receiptJson r)"
    using validateContract_Inr by blast
qed

lemma clientCommit_valid:
  assumes "clientCommit sha reg env batch w = (Inr r, w')"
  shows "validateContract reg receiptSchemaId (receiptJson r) = Inr (receiptJson r)"
proof -
  obtain reply where "asReceipt reg reply = Inr r"
    using assms by (auto simp: clientCommit_def bindS_def pureS_def split: prod.splits sum.splits)
  then obtain j where "validateContract reg receiptSchemaId (receiptJson r) = Inr j"
    by (auto simp: asReceipt_def split: reply.splits)
  then show ?thesis using validateContract_Inr by blast
qed

lemma commandResult_receipt:
  "commandResult sha reg port command receipt w = (Inr res, w') \<Longrightarrow> wc_receipt res = receipt"
  by (auto simp: commandResult_def bindS_Inr_iff result_receipt split: if_splits)

lemma workerPort_simps [simp]:
  "wp_lookupCommandReceipt (workerPort sha reg env) = clientLookup sha reg env"
  "wp_readEvents (workerPort sha reg env) ty a = clientReadEvents sha env ty a 10000"
  "wp_commit (workerPort sha reg env) b = clientCommit sha reg env (of_json (batchJson b))"
  by (simp_all add: workerPort_def)

lemma execute_valid:
  assumes adm: "admitCommand sha reg workflowRunDefinition input = Inr command"
    and x: "execute sha reg (workerPort sha reg env) context input w = (Inr res, w')"
  shows "validLookup (commandIdentityOf sha command) \<and>
    validateContract reg receiptSchemaId (receiptJson (wc_receipt res)) = Inr (receiptJson (wc_receipt res))"
proof -
  let ?port = "workerPort sha reg env"
  let ?lookup = "liftError OfPersistence (clientLookup sha reg env (commandIdentityOf sha command))"
  obtain found w1 where l: "clientLookup sha reg env (commandIdentityOf sha command) w = (Inr found, w1)"
    and rest: "(case found of
         Some receipt \<Rightarrow> commandResult sha reg ?port command receipt
       | None \<Rightarrow>
           (\<lambda>w. case attempt sha reg ?port context command w of
              (Inr receipt, w') \<Rightarrow> commandResult sha reg ?port command receipt w'
            | (Inl e, w') \<Rightarrow>
                if mayBeRaced e
                then bindS ?lookup (\<lambda>raced. case raced of
                  Some receipt \<Rightarrow> commandResult sha reg ?port command receipt | None \<Rightarrow> pureS (Inl e)) w'
                else (Inl e, w'))) w1 = (Inr res, w')"
    using x adm unfolding execute_def Let_def workerPort_simps bindS_Inr_iff liftError_Inr_iff pureS_Inr_iff by auto
  have v: "validLookup (commandIdentityOf sha command)" by (rule clientLookup_valid(1) [OF l])
  have answered: ?thesis if "commandResult sha reg ?port command receipt wx = (Inr res, w')"
    "validateContract reg receiptSchemaId (receiptJson receipt) = Inr (receiptJson receipt)" for receipt wx
    using that v commandResult_receipt [OF that(1)] by simp
  show ?thesis
  proof (cases found)
    case (Some receipt)
    then show ?thesis using rest clientLookup_valid(2) [OF l Some] by (intro answered [of receipt w1]) simp_all
  next
    case None
    obtain answer w2 where a: "attempt sha reg ?port context command w1 = (answer, w2)" by fastforce
    show ?thesis
    proof (cases answer)
      case (Inr receipt)
      then obtain batch w3 where "clientCommit sha reg env batch w3 = (Inr receipt, w2)"
        using a Inr unfolding Inr attempt_def bindS_Inr_iff liftError_Inr_iff workerPort_simps by blast
      then show ?thesis using rest a None Inr clientCommit_valid by (intro answered [of receipt w2]) auto
    next
      case (Inl e)
      then have "bindS ?lookup (\<lambda>raced. case raced of
          Some receipt \<Rightarrow> commandResult sha reg ?port command receipt | None \<Rightarrow> pureS (Inl e)) w2 = (Inr res, w')"
        using rest None a by (auto split: if_splits)
      then obtain raced w3 where l': "clientLookup sha reg env (commandIdentityOf sha command) w2 = (Inr raced, w3)"
        and r: "(case raced of Some receipt \<Rightarrow> commandResult sha reg ?port command receipt | None \<Rightarrow> pureS (Inl e)) w3 = (Inr res, w')"
        unfolding bindS_Inr_iff liftError_Inr_iff by blast
      then obtain receipt where some: "raced = Some receipt" by (cases raced) auto
      then show ?thesis using r clientLookup_valid(2) [OF l' some] by (intro answered [of receipt w3]) simp_all
    qed
  qed
qed

text \<open>The answer depends only on the events up to the committed version.\<close>

lemma result_stable:
  assumes r: "resultOfEvents sha reg command receipt (take 10000 xs) = Inr res" and p: "prefix xs ys"
    and v: "map eventVersion xs = map int [1..<Suc (length xs)]" "map eventVersion ys = map int [1..<Suc (length ys)]"
    and wf: "\<forall>j \<in> set xs. json_wf j \<and> norm j = j"
  shows "resultOfEvents sha reg command receipt (take 10000 ys) = Inr res"
proof -
  have wf': "\<forall>j \<in> set (take 10000 xs). json_wf j \<and> norm j = j" using wf by (auto dest: in_set_takeD)
  obtain j rest where j: "take 10000 xs = j # rest" "rc_committedVersion receipt = 1"
    by (rule result_run [OF r wf' versions_take [OF v(1)]])
  let ?f = "filter (\<lambda>j. eventVersion j \<le> rc_committedVersion receipt)"
  have "?f (take 10000 zs) = take 1 (take 10000 zs)" if "map eventVersion zs = map int [1..<Suc (length zs)]" for zs
    using filter_versions [OF versions_take [OF that, of 10000], of "rc_committedVersion receipt"] j(2) by simp
  then have f: "?f (take 10000 xs) = take 1 xs" "?f (take 10000 ys) = take 1 ys" using v by simp_all
  have "take 1 ys = take 1 xs" using p j(1) by (cases xs; cases ys) auto
  then have same: "?f (take 10000 ys) = ?f (take 10000 xs)" using f by simp
  have c: "committedEvents command receipt zs = filter (\<lambda>j. eventVersion j > num_to_int (cm_expectedVersion command)) (?f zs)" for zs
    by (simp add: committedEvents_def conj_commute)
  show ?thesis using r unfolding resultOfEvents_def c same Let_def .
qed

lemma answered_again:
  assumes "worldOk sha w" "unknown_wf input"
    "execute sha reg (workerPort sha reg env) context input w = (Inr res, w1)"
    "worldLater sha w1 w2" "quiet env2" "w_open (wd_worker w2)"
  shows "\<exists>n. execute sha reg (workerPort sha reg env2) context2 input w2 =
    (Inr res, \<lparr>wd_worker = wd_worker w2, wd_turn = n\<rparr>)"
proof -
  obtain command where a: "admitCommand sha reg workflowRunDefinition input = Inr command"
    "worldLater sha w w1"
    "storedReceipt (w_file (wd_worker w1)) (commandIdentityOf sha command) = Some (wc_receipt res)"
    "receiptBinds sha command (wc_receipt res)"
    "resultOfEvents sha reg command (wc_receipt res)
      (take 10000 (storedStream (w_file (wd_worker w1)) (js ''WorkflowRun'') (cm_aggregateId command))) = Inr res"
    by (rule workerJournal.answer_result [OF assms(1-3)])
  note valid = execute_valid [OF a(1) assms(3)]
  let ?i = "commandIdentityOf sha command" and ?S = "\<lambda>w. storedStream (w_file (wd_worker w)) (js ''WorkflowRun'') (cm_aggregateId command)"
  have ok1: "worldOk sha w1" by (rule workerJournal.later_ok [OF assms(1) a(2)])
  have ok2: "worldOk sha w2" by (rule workerJournal.later_ok [OF ok1 assms(4)])
  then have idle: "idleOk sha (wd_worker w2)" by (simp add: worldOk_def)
  have s: "storedReceipt (w_file (wd_worker w2)) ?i = Some (wc_receipt res)"
    by (rule workerJournal.stored_later [OF ok1 assms(4) a(3)])
  then have "lookupCommandReceipt ?i (visible (wd_worker w2)) = Inr (Some (wc_receipt res))"
    unfolding idleOk_visible [OF idle]
    by (auto simp: storedReceipt_def lookupCommandReceipt_def split: sum.splits option.splits)
  then have l: "clientLookup sha reg env2 ?i w2 =
      (Inr (Some (wc_receipt res)), \<lparr>wd_worker = wd_worker w2, wd_turn = Suc (wd_turn w2)\<rparr>)"
    using valid by (intro lookup_quiet [OF assms(5) _ assms(6)]) simp_all
  have ty: "cm_aggregateType command = js ''WorkflowRun''" using admitCommand_Inr(3) [OF a(1)] by simp
  have "resultOfEvents sha reg command (wc_receipt res) (take 10000 (?S w2)) = Inr res"
    by (rule result_stable [OF a(5) workerJournal.stream_later [OF ok1 assms(4)]
        workerJournal.stream_versions [OF ok1] workerJournal.stream_versions [OF ok2]
        workerJournal.stream_wf [OF ok1]])
  then have "commandResult sha reg (workerPort sha reg env2) command (wc_receipt res)
      \<lparr>wd_worker = wd_worker w2, wd_turn = Suc (wd_turn w2)\<rparr> =
      (Inr res, \<lparr>wd_worker = wd_worker w2, wd_turn = Suc (Suc (wd_turn w2))\<rparr>)"
    using a(4) read_quiet [OF assms(5), of "\<lparr>wd_worker = wd_worker w2, wd_turn = Suc (wd_turn w2)\<rparr>"] assms(6) idle
    by (simp add: commandResult_def ty bindS_def liftError_def pureS_def)
  then show ?thesis
    using a(1) l by (simp add: execute_def bindS_def liftError_def pureS_def Let_def)
qed

text \<open>C21. Retrying is safe and ends: once a command has been answered, executing it again in any later state of the
  journal, from another process and with fresh identifiers, returns the same answer on an open worker
  that is not disturbed, and stores nothing.\<close>

theorem execute_retry:
  assumes "worldOk sha w" "unknown_wf input"
    "execute sha reg (workerPort sha reg env) context input w = (Inr res, w1)"
    "worldLater sha w1 w2" "quiet env2" "w_open (wd_worker w2)"
  shows "\<exists>n. execute sha reg (workerPort sha reg env2) context2 input w2 =
    (Inr res, \<lparr>wd_worker = wd_worker w2, wd_turn = n\<rparr>)"
  by (rule answered_again [OF assms])

section \<open>An example execution\<close>

definition exQuiet :: "nat \<Rightarrow> turn" where
  "exQuiet = (\<lambda>_. \<lparr>tn_others = [], tn_delivery = Delivered\<rparr>)"

definition exWorld :: world where
  "exWorld = \<lparr>wd_worker = openWorker emptyTables, wd_turn = 0\<rparr>"

lemma ex_quiet: "quiet exQuiet"
  by (simp add: quiet_def exQuiet_def)

lemma ex_hex64: "matches hex64 (replicate 64 48)"
  by code_simp

lemma ex_world: "worldOk sha exWorld" "w_open (wd_worker exWorld)" "w_file (wd_worker exWorld) = emptyTables"
  using tablesOk_empty [of sha] by (simp_all add: worldOk_def exWorld_def idleOk_def) (simp_all add: openWorker_def)

lemma ex_lookup: "validLookup (commandIdentityOf exSha exCommand)"
  by (simp add: validLookup_def commandIdentityOf_def ex_command_fields exSha_def ex_hex64)

lemma ex_contract:
  "schemaId \<in> set [batchSchemaId, receiptSchemaId] \<Longrightarrow> validateContract exRegistry schemaId j = Inr j"
proof -
  assume i: "schemaId \<in> set [batchSchemaId, receiptSchemaId]"
  then have "resolveIdentity exRegistry (kernelSchema schemaId) = Inr (exEntry schemaId)"
    by (intro ex_resolve(1)) (auto simp: receiptSchemaId_def)
  then have "resolveIdentity exRegistry \<lparr>ci_schemaId = schemaId, ci_schemaVersion = js ''1.0.0''\<rparr> = Inr (exEntry schemaId)"
    by (simp only: kernelSchema_def)
  then show ?thesis by (simp add: validateContract_def validateIdentity_def exRegistry_def)
qed

abbreviation exRunBatch :: journalAppendBatch where
  "exRunBatch \<equiv> newBatch exSha exCommand exContext exCreated"

lemma ex_batch_wf: "json_wf (batchJson exRunBatch)"
  by (rule newBatch_wf [OF ex_created_wf])

lemma ex_batch_valid: "validateBatch exRegistry (of_json (batchJson exRunBatch)) = Inr (norm (batchJson exRunBatch))"
proof -
  have "resolveIdentity exRegistry (kernelSchema (js ''urn:aseos:schema:workflow-run-created-payload:1.0.0'')) =
      Inr (exEntry (js ''urn:aseos:schema:workflow-run-created-payload:1.0.0''))"
    by (rule ex_resolve(1)) simp
  then have r: "resolveIdentity exRegistry \<lparr>ci_schemaId = js ''urn:aseos:schema:workflow-run-created-payload:1.0.0'',
      ci_schemaVersion = js ''1.0.0''\<rparr> = Inr (exEntry (js ''urn:aseos:schema:workflow-run-created-payload:1.0.0''))"
    by (simp only: kernelSchema_def)
  have ref: "schemaRefOf (at (norm (eventJson exCreated)) ''payloadSchema'') = ev_payloadSchema exCreated"
    by (simp add: ex_created_json schemaRefOf_json)
  have "validateEnvelope exRegistry (norm (eventJson exCreated)) = Inr ()"
    unfolding validateEnvelope_def ref Let_def
    by (simp add: ex_created_fields r validateIdentity_def exEntry_def) (simp add: exRegistry_def)
  moreover have "arrayAt (norm (batchJson exRunBatch)) ''events'' = [norm (eventJson exCreated)]"
    "arrayAt (norm (batchJson exRunBatch)) ''outbox'' = []"
    unfolding arrayAt_def at_norm_batch(1) by (simp_all add: at_def batchJson_def)
  ultimately show ?thesis
    by (simp add: validateBatch_def reparse_json [OF ex_batch_wf] ex_contract del: bindE_Inr_iff of_json.simps)
qed

lemma ex_run_committable: "committable exSha exRunBatch emptyTables"
  by (simp add: committable_def emptyTables_def streamRows_def newBatch_def Let_def ex_command_fields ex_created_fields
      eventStorable_def commandIdentityOf_def makeReceipt_def receiptHashOf_def exSha_def sqlLength_zeros)

lemma ex_empty: "t_receipts emptyTables = []" "storedStream emptyTables ty a = []"
  by (simp_all add: emptyTables_def storedStream_def streamRows_def)

lemma ex_input: "unknown_wf (of_json exCommandJson)"
  by (simp add: unknown_wf_of_json ex_command_wf)

lemma ex_premises:
  "\<forall>row \<in> set (t_receipts (w_file (wd_worker exWorld))). \<not> sharesIdentity (commandIdentityOf exSha exCommand) row"
  "storedStream (w_file (wd_worker exWorld)) (js ''WorkflowRun'') (cm_aggregateId exCommand) = []"
  "prepare exSha exRegistry workflowRunDefinition (of_json (cm_object exCommand)) (of_json (JArr [])) exContext = Inr exTransition"
  "validateBatch exRegistry (of_json (batchJson (pt_batch exTransition))) = Inr (norm (batchJson exRunBatch))"
  "committable exSha (pt_batch exTransition) (w_file (wd_worker exWorld))"
  using ex_prepare ex_batch_valid ex_run_committable
  by (simp_all add: ex_world(3) ex_empty exTransition_def ex_command_fields del: of_json.simps)


text \<open>The execution that the other examples start from.\<close>

lemma ex_executed:
  obtains r world' where "execute exSha exRegistry (workerPort exSha exRegistry exQuiet) exContext (of_json exCommandJson) exWorld =
      (Inr \<lparr>wc_state = exRun, wc_receipt = r\<rparr>, world')"
  using executes_new_run [OF ex_quiet ex_world(1,2) ex_input ex_admit ex_lookup ex_premises] ex_contract
  by (auto simp: exTransition_def simp del: of_json.simps)

theorem execute_sound_witness:
  "\<exists>res w'. execute exSha exRegistry (workerPort exSha exRegistry exQuiet) exContext (of_json exCommandJson) exWorld = (Inr res, w') \<and>
     storedReceipt (w_file (wd_worker w')) (commandIdentityOf exSha exCommand) = Some (wc_receipt res)"
proof -
  obtain r w' where x: "execute exSha exRegistry (workerPort exSha exRegistry exQuiet) exContext (of_json exCommandJson) exWorld =
      (Inr \<lparr>wc_state = exRun, wc_receipt = r\<rparr>, w')" by (rule ex_executed)
  from execute_sound [OF ex_world(1) ex_input x] ex_admit have
    "storedReceipt (w_file (wd_worker w')) (commandIdentityOf exSha exCommand) = Some r" by auto
  with x show ?thesis by auto
qed

text \<open>Another process opens the file afterwards.\<close>

definition exReopened :: "world \<Rightarrow> world" where
  "exReopened w = \<lparr>wd_worker = openWorker (w_file (wd_worker w)), wd_turn = 0\<rparr>"

lemma ex_reopened:
  assumes "worldOk sha w"
  shows "worldLater sha w (exReopened w)" "w_open (wd_worker (exReopened w))"
  using worldOk_tables [OF assms] by (simp_all add: worldLater_def worldOk_def idleOk_def exReopened_def)
    (simp_all add: openWorker_def)

theorem execute_retry_witness:
  "\<exists>res w' n. execute exSha exRegistry (workerPort exSha exRegistry exQuiet) exContext (of_json exCommandJson) exWorld = (Inr res, w') \<and>
     execute exSha exRegistry (workerPort exSha exRegistry exQuiet) exContext (of_json exCommandJson) (exReopened w') =
       (Inr res, \<lparr>wd_worker = wd_worker (exReopened w'), wd_turn = n\<rparr>)"
proof -
  obtain r w' where x: "execute exSha exRegistry (workerPort exSha exRegistry exQuiet) exContext (of_json exCommandJson) exWorld =
      (Inr \<lparr>wc_state = exRun, wc_receipt = r\<rparr>, w')" by (rule ex_executed)
  have ok: "worldOk exSha w'"
    by (rule workerJournal.answer_result [OF ex_world(1) ex_input x]) (use ex_world(1) in \<open>simp add: worldLater_def\<close>)
  from execute_retry [OF ex_world(1) ex_input x ex_reopened(1) [OF ok] ex_quiet ex_reopened(2) [OF ok]] x
  show ?thesis by blast
qed

theorem execute_one_creator_witness:
  "\<exists>res1 w1 res2 w3. execute exSha exRegistry (workerPort exSha exRegistry exQuiet) exContext (of_json exCommandJson) exWorld = (Inr res1, w1) \<and>
     execute exSha exRegistry (workerPort exSha exRegistry exQuiet) exContext (of_json exCommandJson) (exReopened w1) = (Inr res2, w3) \<and>
     cm_commandId exCommand = cm_commandId exCommand"
proof -
  obtain r w1 where x: "execute exSha exRegistry (workerPort exSha exRegistry exQuiet) exContext (of_json exCommandJson) exWorld =
      (Inr \<lparr>wc_state = exRun, wc_receipt = r\<rparr>, w1)" by (rule ex_executed)
  have ok: "worldOk exSha w1"
    by (rule workerJournal.answer_result [OF ex_world(1) ex_input x]) (use ex_world(1) in \<open>simp add: worldLater_def\<close>)
  obtain w3 where y: "execute exSha exRegistry (workerPort exSha exRegistry exQuiet) exContext (of_json exCommandJson) (exReopened w1) =
      (Inr \<lparr>wc_state = exRun, wc_receipt = r\<rparr>, w3)"
    using answered_again [OF ex_world(1) ex_input x ex_reopened(1) [OF ok] ex_quiet ex_reopened(2) [OF ok]] by blast
  have e: "num_to_int (cm_expectedVersion exCommand) = 0" by (simp add: ex_command_fields)
  from execute_one_creator [OF ex_world(1) ex_input ex_input x ex_reopened(1) [OF ok] y ex_admit ex_admit refl e e] x y
  show ?thesis by blast
qed

end
