(* ===== verification/Idempotency.thy ===== *)
theory Idempotency
  imports Regex
begin

text \<open>
  \<open>packages/platform/src/idempotency.ts\<close>: the bounded registry that remembers the result of a key for a time.
  The map is the list of its entries in the order of insertion; times are integers (milliseconds).
\<close>

section \<open>The registry\<close>

record idempotencyEntry =
  ie_payloadHash :: jstring
  ie_resultIdentity :: jstring
  ie_expiresAt :: int

record idempotencyRegistry =
  ir_capacity :: nat
  ir_ttlMs :: int
  ir_entries :: "(jstring \<times> idempotencyEntry) list"

datatype lookupOutcome = MISS | REPLAY jstring | CONFLICT

text \<open>The constructor throws a \<open>RangeError\<close> (\<open>None\<close>) unless both are positive safe integers.\<close>

definition newIdempotencyRegistry :: "int \<Rightarrow> int \<Rightarrow> idempotencyRegistry option" where
  "newIdempotencyRegistry capacity ttlMs =
     (if \<bar>capacity\<bar> > 2 ^ 53 - 1 \<or> capacity < 1 \<or> \<bar>ttlMs\<bar> > 2 ^ 53 - 1 \<or> ttlMs < 1 then None
      else Some \<lparr>ir_capacity = nat capacity, ir_ttlMs = ttlMs, ir_entries = []\<rparr>)"

definition prune :: "int \<Rightarrow> idempotencyRegistry \<Rightarrow> idempotencyRegistry" where
  "prune now r = r\<lparr>ir_entries := filter (\<lambda>(key, entry). \<not> ie_expiresAt entry \<le> now) (ir_entries r)\<rparr>"

definition registrySize :: "int \<Rightarrow> idempotencyRegistry \<Rightarrow> nat \<times> idempotencyRegistry" where
  "registrySize now r = (let r' = prune now r in (length (ir_entries r'), r'))"

definition idempotencyLookup ::
    "jstring \<Rightarrow> jstring \<Rightarrow> int \<Rightarrow> idempotencyRegistry \<Rightarrow> lookupOutcome \<times> idempotencyRegistry" where
  "idempotencyLookup key payloadHash now r =
     (let r' = prune now r in
      (case map_of (ir_entries r') key of
         None \<Rightarrow> MISS
       | Some entry \<Rightarrow> if ie_payloadHash entry \<noteq> payloadHash then CONFLICT else REPLAY (ie_resultIdentity entry), r'))"

text \<open>Deleting the oldest entry while the map is full.\<close>

fun evict :: "nat \<Rightarrow> 'a list \<Rightarrow> 'a list" where
  "evict capacity [] = []"
| "evict capacity (e # es) = (if length (e # es) \<ge> capacity then evict capacity es else e # es)"

text \<open>\<open>record\<close>: \<open>Inl\<close> is the error \<open>IDEMPOTENCY_PAYLOAD_CONFLICT\<close>.\<close>

definition idempotencyRecord ::
    "jstring \<Rightarrow> jstring \<Rightarrow> jstring \<Rightarrow> int \<Rightarrow> idempotencyRegistry \<Rightarrow> (unit + unit) \<times> idempotencyRegistry" where
  "idempotencyRecord key payloadHash resultIdentity now r =
     (case idempotencyLookup key payloadHash now (prune now r) of
        (CONFLICT, r') \<Rightarrow> (Inl (), r')
      | (REPLAY _, r') \<Rightarrow> (Inr (), r')
      | (MISS, r') \<Rightarrow>
          (Inr (), r'\<lparr>ir_entries := evict (ir_capacity r') (ir_entries r') @
             [(key, \<lparr>ie_payloadHash = payloadHash, ie_resultIdentity = resultIdentity,
                ie_expiresAt = now + ir_ttlMs r'\<rparr>)]\<rparr>))"

section \<open>Its bound\<close>

inductive registryStep :: "idempotencyRegistry \<Rightarrow> idempotencyRegistry \<Rightarrow> bool" where
  Size: "registryStep r (snd (registrySize now r))"
| Lookup: "registryStep r (snd (idempotencyLookup key payloadHash now r))"
| Record: "registryStep r (snd (idempotencyRecord key payloadHash resultIdentity now r))"

inductive_cases registryStepE: "registryStep r r'"

definition registryOk :: "idempotencyRegistry \<Rightarrow> bool" where
  "registryOk r \<longleftrightarrow> 1 \<le> ir_capacity r \<and> 0 < ir_ttlMs r \<and> length (ir_entries r) \<le> ir_capacity r \<and>
     distinct (map fst (ir_entries r))"

lemma evict_suffix: "\<exists>old. es = old @ evict n es"
proof (induction es)
  case (Cons e es)
  then obtain old where "es = old @ evict n es" by blast
  then have "e # es = (e # old) @ evict n es" by simp
  then show ?case unfolding evict.simps by (cases "length (e # es) \<ge> n") (simp_all only: if_True if_False, blast, blast)
qed simp

lemma evict_length: "1 \<le> n \<Longrightarrow> length (evict n es) < n"
  by (induction es) auto

lemma evict_keeps: "length ys < n \<Longrightarrow> \<exists>old new. xs = old @ new \<and> evict n (xs @ ys) = new @ ys"
proof (induction xs)
  case Nil
  then show ?case by (cases ys) auto
next
  case (Cons x xs)
  then obtain old new where "xs = old @ new" "evict n (xs @ ys) = new @ ys" by blast
  then show ?case by (cases "length (x # xs @ ys) \<ge> n") (auto intro: exI [of _ "x # old"] exI [of _ "[]"])
qed

lemma distinct_filter_map: "distinct (map f xs) \<Longrightarrow> distinct (map f (filter P xs))"
  by (induction xs) auto

lemma prune_ok: "registryOk r \<Longrightarrow> registryOk (prune now r)"
  by (auto simp: registryOk_def prune_def distinct_filter_map intro: order_trans [OF length_filter_le])

lemma prune_prune [simp]: "prune now (prune now r) = prune now r"
  by (simp add: prune_def)

lemma prune_simps [simp]: "ir_capacity (prune now r) = ir_capacity r" "ir_ttlMs (prune now r) = ir_ttlMs r"
  by (simp_all add: prune_def)

lemma idempotencyRecord_cases:
  obtains (conflict) entry where "map_of (ir_entries (prune now r)) key = Some entry" "ie_payloadHash entry \<noteq> payloadHash"
      "idempotencyRecord key payloadHash resultIdentity now r = (Inl (), prune now r)"
  | (replay) entry where "map_of (ir_entries (prune now r)) key = Some entry" "ie_payloadHash entry = payloadHash"
      "idempotencyRecord key payloadHash resultIdentity now r = (Inr (), prune now r)"
  | (new) "map_of (ir_entries (prune now r)) key = None"
      "idempotencyRecord key payloadHash resultIdentity now r = (Inr (), (prune now r)\<lparr>ir_entries :=
         evict (ir_capacity r) (ir_entries (prune now r)) @ [(key, \<lparr>ie_payloadHash = payloadHash,
           ie_resultIdentity = resultIdentity, ie_expiresAt = now + ir_ttlMs r\<rparr>)]\<rparr>)"
proof (cases "map_of (ir_entries (prune now r)) key")
  case None
  then show thesis using new by (simp add: idempotencyRecord_def idempotencyLookup_def Let_def)
next
  case (Some entry)
  then show thesis using conflict [of entry] replay [of entry]
    by (cases "ie_payloadHash entry = payloadHash") (simp_all add: idempotencyRecord_def idempotencyLookup_def Let_def)
qed

lemma idempotencyRecord_ok:
  assumes "registryOk r" shows "registryOk (snd (idempotencyRecord key payloadHash resultIdentity now r))"
proof (cases rule: idempotencyRecord_cases [of now r key payloadHash resultIdentity])
  case new
  note p = prune_ok [OF assms, of now]
  obtain old where old: "ir_entries (prune now r) = old @ evict (ir_capacity r) (ir_entries (prune now r))"
    using evict_suffix by blast
  then have "set (evict (ir_capacity r) (ir_entries (prune now r))) \<subseteq> set (ir_entries (prune now r))"
    by (metis Un_upper2 set_append)
  moreover have "key \<notin> fst ` set (ir_entries (prune now r))" using new(1) by (simp add: map_of_eq_None_iff)
  moreover have "distinct (map fst (evict (ir_capacity r) (ir_entries (prune now r))))"
    using p old unfolding registryOk_def by (metis distinct_append map_append)
  moreover have "length (evict (ir_capacity r) (ir_entries (prune now r))) < ir_capacity r"
    by (rule evict_length) (use p in \<open>simp add: registryOk_def\<close>)
  ultimately show ?thesis using p new(2) by (auto simp: registryOk_def Suc_le_eq)
qed (use prune_ok [OF assms] in simp_all)

lemma registryStep_ok: "registryStep r r' \<Longrightarrow> registryOk r \<Longrightarrow> registryOk r' \<and> ir_capacity r' = ir_capacity r"
proof (erule registryStepE)
  fix now assume "r' = snd (registrySize now r)" "registryOk r"
  then show ?thesis by (simp add: registrySize_def Let_def prune_ok)
next
  fix key h now assume "r' = snd (idempotencyLookup key h now r)" "registryOk r"
  then show ?thesis by (simp add: idempotencyLookup_def Let_def prune_ok)
next
  fix key h i now assume r: "r' = snd (idempotencyRecord key h i now r)" "registryOk r"
  have "ir_capacity (snd (idempotencyRecord key h i now r)) = ir_capacity r"
    by (cases rule: idempotencyRecord_cases [of now r key h i]) simp_all
  then show ?thesis using r idempotencyRecord_ok by simp
qed

text \<open>The registry never holds more than its capacity nor two entries of one key, whatever is looked up
  and recorded at whatever times.\<close>

theorem registry_bounded:
  assumes "newIdempotencyRegistry capacity ttlMs = Some r0" "registryStep\<^sup>*\<^sup>* r0 r"
  shows "int (length (ir_entries r)) \<le> capacity \<and> distinct (map fst (ir_entries r))"
proof -
  have r0: "registryOk r0" "int (ir_capacity r0) = capacity"
    using assms(1) by (auto simp: newIdempotencyRegistry_def registryOk_def split: if_splits)
  have "registryOk r \<and> ir_capacity r = ir_capacity r0"
    using assms(2) r0(1) by (induction rule: rtranclp_induct) (auto dest: registryStep_ok)
  then show ?thesis using r0(2) by (auto simp: registryOk_def)
qed

section \<open>Its memory\<close>

text \<open>Later records, each with its key, hash, result and time.\<close>

fun recordAll :: "(jstring \<times> jstring \<times> jstring \<times> int) list \<Rightarrow> idempotencyRegistry \<Rightarrow> idempotencyRegistry" where
  "recordAll [] r = r"
| "recordAll ((key, h, i, now) # ops) r = recordAll ops (snd (idempotencyRecord key h i now r))"

lemma remembered:
  assumes "registryOk r" "ir_entries r = old @ (key, entry) # new" "length new + length ops < ir_capacity r"
    "\<forall>(k, h, i, now) \<in> set ops. now < ie_expiresAt entry"
  shows "registryOk (recordAll ops r) \<and> map_of (ir_entries (recordAll ops r)) key = Some entry"
  using assms
proof (induction ops arbitrary: r old new)
  case Nil
  then have "distinct (map fst (ir_entries r))" "(key, entry) \<in> set (ir_entries r)" by (simp_all add: registryOk_def)
  then show ?case using Nil.prems(1) by simp
next
  case (Cons op ops)
  obtain k h i now where op: "op = (k, h, i, now)" by (cases op)
  have now: "now < ie_expiresAt entry" using Cons.prems(4) by (simp add: op)
  let ?live = "filter (\<lambda>(key, entry). \<not> ie_expiresAt entry \<le> now)"
  have p: "ir_entries (prune now r) = ?live old @ (key, entry) # ?live new"
    using Cons.prems(2) now by (simp add: prune_def)
  have "length (?live new) \<le> length new" "length new + length ops + 1 < ir_capacity r"
    using Cons.prems(3) by simp_all
  then have len: "length (?live new) + length ops + 1 < ir_capacity r" by linarith
  let ?r' = "snd (idempotencyRecord k h i now r)"
  have ok: "registryOk ?r'" by (rule idempotencyRecord_ok [OF Cons.prems(1)])
  have "\<exists>old' new'. ir_entries ?r' = old' @ (key, entry) # new' \<and> length new' + length ops < ir_capacity ?r'"
  proof (cases rule: idempotencyRecord_cases [of now r k h i])
    case new
    have "length ((key, entry) # ?live new) < ir_capacity r"
      using len by simp
    from evict_keeps [OF this, of "?live old"] obtain a b where
      "evict (ir_capacity r) (ir_entries (prune now r)) = b @ (key, entry) # ?live new" unfolding p by blast
    then have "ir_entries ?r' = b @ (key, entry) # (?live new @ [(k, \<lparr>ie_payloadHash = h, ie_resultIdentity = i,
        ie_expiresAt = now + ir_ttlMs r\<rparr>)])" "ir_capacity ?r' = ir_capacity r" using new(2) by simp_all
    moreover have "length (?live new @ [(k, \<lparr>ie_payloadHash = h, ie_resultIdentity = i,
        ie_expiresAt = now + ir_ttlMs r\<rparr>)]) + length ops < ir_capacity r" using len by simp
    ultimately show ?thesis by metis
  next
    case conflict
    then have "ir_entries ?r' = ?live old @ (key, entry) # ?live new" "ir_capacity ?r' = ir_capacity r" using p by simp_all
    moreover have "length (?live new) + length ops < ir_capacity r" using len by simp
    ultimately show ?thesis by metis
  next
    case replay
    then have "ir_entries ?r' = ?live old @ (key, entry) # ?live new" "ir_capacity ?r' = ir_capacity r" using p by simp_all
    moreover have "length (?live new) + length ops < ir_capacity r" using len by simp
    ultimately show ?thesis by metis
  qed
  then obtain old' new' where e: "ir_entries ?r' = old' @ (key, entry) # new'" "length new' + length ops < ir_capacity ?r'"
    by blast
  from Cons.IH [OF ok e] Cons.prems(4) show ?case by (simp add: op)
qed

text \<open>A recorded result is remembered: until its time to live has passed, and as long as fewer than
  \<open>capacity\<close> records follow, a lookup of the key replays the result for the same payload hash and reports a
  conflict for any other, and from then on it is a miss.\<close>

theorem registry_remembers:
  assumes "registryOk r" "fst (idempotencyLookup key payloadHash now r) = MISS"
    "length ops < ir_capacity r" "\<forall>(k, h, i, t) \<in> set ops. t < now + ir_ttlMs r"
    "r' = recordAll ops (snd (idempotencyRecord key payloadHash resultIdentity now r))"
  shows "fst (idempotencyLookup key h now' r') =
    (if now' < now + ir_ttlMs r then if h = payloadHash then REPLAY resultIdentity else CONFLICT else MISS)"
proof -
  let ?entry = "\<lparr>ie_payloadHash = payloadHash, ie_resultIdentity = resultIdentity, ie_expiresAt = now + ir_ttlMs r\<rparr>"
  let ?r1 = "snd (idempotencyRecord key payloadHash resultIdentity now r)"
  have miss: "map_of (ir_entries (prune now r)) key = None"
    using assms(2) by (auto simp: idempotencyLookup_def Let_def split: option.splits if_splits)
  then have r1: "?r1 = (prune now r)\<lparr>ir_entries := evict (ir_capacity r) (ir_entries (prune now r)) @ [(key, ?entry)]\<rparr>"
    by (cases rule: idempotencyRecord_cases [of now r key payloadHash resultIdentity]) simp_all
  have "registryOk r' \<and> map_of (ir_entries r') key = Some ?entry"
    unfolding assms(5)
    by (rule remembered [OF idempotencyRecord_ok [OF assms(1)]]) (use assms(3,4) in \<open>auto simp: r1\<close>)
  then have d: "distinct (map fst (ir_entries r'))" "(key, ?entry) \<in> set (ir_entries r')"
    by (simp_all add: registryOk_def map_of_SomeD)
  show ?thesis
  proof (cases "now' < now + ir_ttlMs r")
    case True
    then have "(key, ?entry) \<in> set (ir_entries (prune now' r'))" using d(2) by (simp add: prune_def)
    moreover have "distinct (map fst (ir_entries (prune now' r')))"
      using distinct_filter_map [OF d(1)] by (simp add: prune_def)
    ultimately have "map_of (ir_entries (prune now' r')) key = Some ?entry" by (intro map_of_is_SomeI)
    then show ?thesis using True unfolding idempotencyLookup_def Let_def by simp
  next
    case False
    have "e = ?entry" if "(key, e) \<in> set (ir_entries r')" for e
      using map_of_is_SomeI [OF d(1) that] map_of_is_SomeI [OF d] by simp
    then have "key \<notin> fst ` set (ir_entries (prune now' r'))" using False by (fastforce simp: prune_def)
    then have "map_of (ir_entries (prune now' r')) key = None" by (simp add: map_of_eq_None_iff)
    then show ?thesis using False by (simp add: idempotencyLookup_def Let_def)
  qed
qed

theorem registry_bounded_witness:
  "int (length (ir_entries (snd (idempotencyRecord (js ''k'') (js ''h'') (js ''i'') 0
     \<lparr>ir_capacity = 1, ir_ttlMs = 10, ir_entries = []\<rparr>)))) \<le> 1"
proof -
  have "newIdempotencyRegistry 1 10 = Some \<lparr>ir_capacity = 1, ir_ttlMs = 10, ir_entries = []\<rparr>"
    by (simp add: newIdempotencyRegistry_def)
  from registry_bounded [OF this r_into_rtranclp [of registryStep, OF Record]] show ?thesis by blast
qed

theorem registry_remembers_witness:
  "fst (idempotencyLookup (js ''k'') (js ''h'') 9 (snd (idempotencyRecord (js ''k'') (js ''h'') (js ''i'') 0
     \<lparr>ir_capacity = 1, ir_ttlMs = 10, ir_entries = []\<rparr>))) = REPLAY (js ''i'')"
  using registry_remembers [of "\<lparr>ir_capacity = 1, ir_ttlMs = 10, ir_entries = []\<rparr>" "js ''k''" "js ''h''" 0 "[]"
      _ "js ''i''" "js ''h''" 9]
  by (simp add: registryOk_def idempotencyLookup_def Let_def prune_def)

end
