(* ===== verification/Identity.thy ===== *)
theory Identity
  imports Regex
begin

unbundle bit_operations_syntax

text \<open>
  \<open>packages/platform/src/identity.ts\<close>: identifiers of version 7, a 48-bit timestamp and random bits. The
  random bytes are an argument.
\<close>

section \<open>UUIDs\<close>

text \<open>\<open>timestamp & 0xff\<close> takes the low 32 bits first; the loop fills bytes 5 to 0.\<close>

fun putTimestamp :: "nat \<Rightarrow> int \<Rightarrow> 8 word list \<Rightarrow> 8 word list" where
  "putTimestamp 0 timestamp bytes = bytes"
| "putTimestamp (Suc index) timestamp bytes =
     putTimestamp index (timestamp div 256) (bytes[index := ucast ((word_of_int timestamp :: 32 word) AND 255)])"

definition hexDigit :: "nat \<Rightarrow> 16 word" where
  "hexDigit d = (if d < 10 then 48 + of_nat d else 87 + of_nat d)"

definition toHex :: "8 word list \<Rightarrow> jstring" where
  "toHex bytes = concat (map (\<lambda>b. [hexDigit (unat b div 16), hexDigit (unat b mod 16)]) bytes)"

definition markVersion :: "8 word list \<Rightarrow> 8 word list" where
  "markVersion bytes = (let b = bytes[6 := 0x70 OR (bytes ! 6 AND 0x0f)] in b[8 := 0x80 OR (b ! 8 AND 0x3f)])"

definition groups :: "jstring \<Rightarrow> jstring" where
  "groups hex = take 8 hex @ js ''-'' @ take 4 (drop 8 hex) @ js ''-'' @ take 4 (drop 12 hex) @ js ''-'' @
     take 4 (drop 16 hex) @ js ''-'' @ drop 20 hex"

text \<open>\<open>None\<close> is the \<open>RangeError\<close>.\<close>

definition createUuidV7 :: "int \<Rightarrow> 8 word list \<Rightarrow> jstring option" where
  "createUuidV7 now random =
     (if \<bar>now\<bar> > 2 ^ 53 - 1 \<or> now < 0 \<or> now > 0xffffffffffff then None
      else Some (groups (toHex (markVersion (putTimestamp 6 now random)))))"

section \<open>Their form\<close>

lemma putTimestamp_length [simp]: "length (putTimestamp n t bytes) = length bytes"
  by (induction n t bytes rule: putTimestamp.induct) simp_all

lemma putTimestamp_tail: "n \<le> k \<Longrightarrow> putTimestamp n t bytes ! k = bytes ! k"
  by (induction n t bytes rule: putTimestamp.induct) simp_all

lemma low_byte: "(ucast ((word_of_int t :: 32 word) AND 255) :: 8 word) = word_of_int t"
proof -
  have e: "(255 :: 32 word) = mask 8" by (simp add: mask_eq_exp_minus_1)
  show ?thesis unfolding e by (rule bit_word_eqI) (auto simp: bit_simps)
qed

text \<open>Byte k of the timestamp.\<close>

lemma putTimestamp_nth:
  "k < n \<Longrightarrow> n \<le> length bytes \<Longrightarrow> putTimestamp n t bytes ! k = word_of_int (t div 256 ^ (n - 1 - k))"
proof (induction n t bytes rule: putTimestamp.induct)
  case (2 index timestamp bytes)
  show ?case
  proof (cases "k = index")
    case True
    then show ?thesis using 2 by (simp add: putTimestamp_tail low_byte)
  next
    case False
    then have k: "k < index" using 2 by simp
    then have "putTimestamp (Suc index) timestamp bytes ! k = word_of_int (timestamp div 256 div 256 ^ (index - 1 - k))"
      using 2 by simp
    also have "timestamp div 256 div 256 ^ (index - 1 - k) = timestamp div 256 ^ (index - k)"
      using k by (simp add: div_mult2_eq' [symmetric] zdiv_zmult2_eq [symmetric] power_Suc [symmetric] Suc_diff_Suc del: power_Suc)
    finally show ?thesis by simp
  qed
qed simp

lemma hexDigit_hex: "d < 16 \<Longrightarrow> [hexDigit d] \<in> lang hexCls"
proof -
  assume "d < 16"
  then have "d \<in> set [0..<16]" by simp
  moreover have "\<forall>d \<in> set [0..<16]. matches hexCls [hexDigit d]" by code_simp
  ultimately show ?thesis using matches_lang by blast
qed

lemma lang_rep: "length s = n \<Longrightarrow> \<forall>c \<in> set s. [c] \<in> lang r \<Longrightarrow> s \<in> lang (rep n r)"
proof (induction n r arbitrary: s rule: rep.induct)
  case (2 r)
  then show ?case by (cases s) auto
next
  case (3 n r)
  then obtain c t where s: "s = c # t" "length t = Suc n" by (cases s) auto
  with 3 have "[c] \<in> lang r" "t \<in> lang (rep (Suc n) r)" by auto
  then show ?case unfolding s(1) by (auto intro: exI [of _ "[c]"])
qed simp

lemma version_nibble: "unat (0x70 OR (b AND 0x0f) :: 8 word) div 16 = 7"
proof -
  have e: "(0x0f :: 8 word) = mask 4" by (simp add: mask_eq_exp_minus_1)
  have "drop_bit 4 (0x70 OR (b AND 0x0f) :: 8 word) = 7"
    unfolding e by (simp add: drop_bit_or flip: take_bit_eq_mask) (simp add: drop_bit_take_bit)
  then have "unat (drop_bit 4 (0x70 OR (b AND 0x0f) :: 8 word)) = 7" by simp
  then show ?thesis by (simp add: drop_bit_eq_div unat_div_distrib)
qed

lemma variant_nibble: "unat (0x80 OR (b AND 0x3f) :: 8 word) div 16 \<in> {8, 9, 10, 11}"
proof -
  have e: "(0x3f :: 8 word) = mask 6" by (simp add: mask_eq_exp_minus_1)
  let ?y = "take_bit 2 (drop_bit 4 b)"
  have d: "drop_bit 4 (0x80 OR (b AND 0x3f) :: 8 word) = 8 OR ?y"
    unfolding e by (simp add: drop_bit_or flip: take_bit_eq_mask) (simp add: drop_bit_take_bit)
  have "unat ?y < 4"
    by (simp add: unsigned_take_bit_eq take_bit_nat_eq_self_iff less_le_trans [OF take_bit_nat_less_exp])
  then have "unat ?y \<in> {0, 1, 2, 3}" by auto
  then have "?y \<in> {0, 1, 2, 3}" by (auto simp: word_unat_eq_iff)
  then have "unat (8 OR ?y) \<in> {8, 9, 10, 11}" by (elim insertE emptyE; simp only:; code_simp)
  then have "unat (drop_bit 4 (0x80 OR (b AND 0x3f) :: 8 word)) \<in> {8, 9, 10, 11}" by (simp only: d)
  then show ?thesis by (simp add: drop_bit_eq_div unat_div_distrib)
qed

definition byteHex :: "8 word \<Rightarrow> jstring" where
  "byteHex b = [hexDigit (unat b div 16), hexDigit (unat b mod 16)]"

lemma byteHex_hex: "c \<in> set (byteHex b) \<Longrightarrow> [c] \<in> lang hexCls"
proof -
  have "unat b < 256" using unsigned_less [of b] by simp
  then have "unat b div 16 < 16" by (simp add: less_mult_imp_div_less)
  then show "c \<in> set (byteHex b) \<Longrightarrow> [c] \<in> lang hexCls" using hexDigit_hex by (auto simp: byteHex_def)
qed

lemma list16:
  assumes "length xs = 16"
  obtains b0 b1 b2 b3 b4 b5 b6 b7 b8 b9 b10 b11 b12 b13 b14 b15 where
    "xs = [b0, b1, b2, b3, b4, b5, b6, b7, b8, b9, b10, b11, b12, b13, b14, b15]"
  using assms by (auto simp: numeral_eq_Suc length_Suc_conv)

text \<open>The identifier of a timestamp and random bytes, byte by byte.\<close>

lemma uuid_bytes:
  assumes "createUuidV7 now [r0, r1, r2, r3, r4, r5, r6, r7, r8, r9, r10, r11, r12, r13, r14, r15] = Some s"
  shows "s = concat (map (\<lambda>k. byteHex (word_of_int (now div 256 ^ k))) [5, 4, 3, 2]) @ js ''-'' @
    concat (map (\<lambda>k. byteHex (word_of_int (now div 256 ^ k))) [1, 0]) @ js ''-'' @
    byteHex (0x70 OR (r6 AND 0x0f)) @ byteHex r7 @ js ''-'' @ byteHex (0x80 OR (r8 AND 0x3f)) @ byteHex r9 @ js ''-'' @
    concat (map byteHex [r10, r11, r12, r13, r14, r15])"
proof -
  let ?r = "[r0, r1, r2, r3, r4, r5, r6, r7, r8, r9, r10, r11, r12, r13, r14, r15]"
  let ?p = "putTimestamp 6 now ?r"
  have "?p = map (\<lambda>k. ?p ! k) [0..<16]"
    by (rule nth_equalityI) simp_all
  also have "[0..<16] = [0, 1, 2, 3, 4, 5, 6, 7, 8, 9, 10, 11, 12, 13, 14, 15 :: nat]" by (simp add: upt_rec)
  finally have p: "?p = [word_of_int (now div 256 ^ 5), word_of_int (now div 256 ^ 4), word_of_int (now div 256 ^ 3),
     word_of_int (now div 256 ^ 2), word_of_int (now div 256 ^ 1), word_of_int (now div 256 ^ 0),
     r6, r7, r8, r9, r10, r11, r12, r13, r14, r15]"
    by (simp add: putTimestamp_nth putTimestamp_tail del: putTimestamp.simps)
  show ?thesis
    using assms unfolding createUuidV7_def p
    by (simp add: markVersion_def Let_def groups_def toHex_def byteHex_def js_def split: if_splits)
qed

lemma seqs_mem: "u \<in> lang r \<Longrightarrow> v \<in> lang (seqs rs) \<Longrightarrow> u @ v \<in> lang (seqs (r # rs))"
  unfolding lang_seqs_Cons by blast

lemma byteHex_length [simp]: "length (byteHex b) = 2"
  by (simp add: byteHex_def)

lemma lit_js: "js [c] \<in> lang (lit [c])"
  by (simp add: lit_def js_def inCls_def)

text \<open>C23. An identifier has the form of a version 7 UUID, 36 characters with the version and the variant in their
  places, whatever the random bytes are.\<close>

theorem uuid_form:
  assumes "createUuidV7 now random = Some s" "length random = 16"
  shows "matches uuidV7 s \<and> length s = 36"
proof -
  obtain r0 r1 r2 r3 r4 r5 r6 r7 r8 r9 r10 r11 r12 r13 r14 r15 where
    r: "random = [r0, r1, r2, r3, r4, r5, r6, r7, r8, r9, r10, r11, r12, r13, r14, r15]"
    by (rule list16 [OF assms(2)])
  let ?t = "\<lambda>k. byteHex (word_of_int (now div 256 ^ k))"
  let ?a = "concat (map ?t [5, 4, 3, 2])" and ?b = "concat (map ?t [1, 0])"
  let ?v = "0x70 OR (r6 AND 0x0f)" and ?w = "0x80 OR (r8 AND 0x3f)"
  let ?vl = "[hexDigit (unat ?v mod 16)]" and ?wl = "[hexDigit (unat ?w mod 16)]"
  let ?tail = "concat (map byteHex [r10, r11, r12, r13, r14, r15])"
  note s = uuid_bytes [OF assms(1) [unfolded r]]
  have v: "byteHex ?v = js ''7'' @ ?vl"
    unfolding byteHex_def version_nibble by (simp add: hexDigit_def js_def)
  have w: "byteHex ?w = [hexDigit (unat ?w div 16)] @ ?wl" by (simp add: byteHex_def)
  have variant: "[hexDigit (unat ?w div 16)] \<in> lang (Cls [rng CHR ''8'' CHR ''9'', rng CHR ''a'' CHR ''b''])"
    using variant_nibble [of r8]
    by (elim insertE emptyE; simp only: matches_lang [symmetric]; code_simp)
  have low: "\<forall>c \<in> set [hexDigit (unat (x :: 8 word) mod 16)]. [c] \<in> lang hexCls" for x
    using hexDigit_hex [of "unat x mod 16"] by simp
  have hex: "xs \<in> lang (rep n hexCls)" if "length xs = n" "\<forall>c \<in> set xs. [c] \<in> lang hexCls" for xs n
    by (rule lang_rep [OF that])
  have "s = ?a @ js ''-'' @ ?b @ js ''-'' @ js ''7'' @ (?vl @ byteHex r7) @ js ''-'' @
      [hexDigit (unat ?w div 16)] @ (?wl @ byteHex r9) @ js ''-'' @ ?tail"
    unfolding s v w by simp
  also have "\<dots> \<in> lang uuidV7"
    unfolding uuidV7_def
    by (intro seqs_mem hex lit_js variant) (use low byteHex_hex in \<open>auto simp: seqs.simps(2) intro!: hex\<close>)
  finally show ?thesis unfolding matches_lang [symmetric] using s by simp
qed

section \<open>Their timestamp\<close>

definition hexValue :: "16 word \<Rightarrow> nat" where
  "hexValue c = (if c \<le> 57 then unat c - 48 else unat c - 87)"

text \<open>The first 48 bits of an identifier.\<close>

definition uuidTimestamp :: "jstring \<Rightarrow> int" where
  "uuidTimestamp s = foldl (\<lambda>n c. 16 * n + int (hexValue c)) 0 (take 8 s @ take 4 (drop 9 s))"

lemma hexValue_hexDigit: "d < 16 \<Longrightarrow> hexValue (hexDigit d) = d"
proof -
  assume "d < 16"
  then have "d \<in> set [0..<16]" by simp
  moreover have "\<forall>d \<in> set [0..<16]. hexValue (hexDigit d) = d" by code_simp
  ultimately show ?thesis by blast
qed

lemma byteHex_value:
  "foldl (\<lambda>n c. 16 * n + int (hexValue c)) v (byteHex b @ s) = foldl (\<lambda>n c. 16 * n + int (hexValue c)) (256 * v + uint b) s"
proof -
  have "unat b < 256" using unsigned_less [of b] by simp
  then have low: "unat b div 16 < 16" by (simp add: less_mult_imp_div_less)
  have u: "16 * int (unat b div 16) + int (unat b mod 16) = uint b"
    by (simp add: zdiv_int zmod_int)
  have "16 * (16 * v + x) + y = 256 * v + (16 * x + y)" for x y :: int by simp
  then have "16 * (16 * v + int (unat b div 16)) + int (unat b mod 16) = 256 * v + uint b"
    by (simp only: u)
  with low show ?thesis by (simp add: byteHex_def hexValue_hexDigit add.assoc)
qed

lemma base256: "0 \<le> n \<Longrightarrow> n < 2 ^ 48 \<Longrightarrow>
  256 * (256 * (256 * (256 * (256 * ((n div 256 ^ 5) mod 256) + (n div 256 ^ 4) mod 256) + (n div 256 ^ 3) mod 256) +
    (n div 256 ^ 2) mod 256) + (n div 256) mod 256) + n mod 256 = (n::int)"
proof -
  assume n: "0 \<le> n" "n < 2 ^ 48"
  have step: "256 * (m div 256) + m mod 256 = m" for m :: int by simp
  have d: "n div 256 ^ Suc k = n div 256 ^ k div 256" for k
    by (simp only: power_Suc2) (rule zdiv_zmult2_eq, simp)
  have e: "n div 256 ^ 5 mod 256 = n div 256 ^ 5" using n by simp
  have s: "256 * (n div 256 ^ Suc k) + n div 256 ^ k mod 256 = n div 256 ^ k" for k
    unfolding d by (rule step)
  show ?thesis
    unfolding e using s [of 4] s [of 3] s [of 2] s [of 1] s [of 0] by (simp add: numeral_eq_Suc)
qed

text \<open>The time of an identifier can be read back from its first twelve digits, so identifiers of two
  different milliseconds are different, and \<open>createUuidV7\<close> succeeds exactly for the times of 48 bits.\<close>

theorem uuid_timestamp:
  assumes "length random = 16"
  shows "(createUuidV7 now random = None \<longleftrightarrow> now < 0 \<or> 2 ^ 48 \<le> now) \<and>
    (\<forall>s. createUuidV7 now random = Some s \<longrightarrow> uuidTimestamp s = now)"
proof -
  obtain r0 r1 r2 r3 r4 r5 r6 r7 r8 r9 r10 r11 r12 r13 r14 r15 where
    r: "random = [r0, r1, r2, r3, r4, r5, r6, r7, r8, r9, r10, r11, r12, r13, r14, r15]"
    by (rule list16 [OF assms])
  have none: "createUuidV7 now random = None \<longleftrightarrow> now < 0 \<or> 2 ^ 48 \<le> now"
    by (auto simp: createUuidV7_def)
  have "uuidTimestamp s = now" if "createUuidV7 now random = Some s" for s
  proof -
    let ?t = "\<lambda>k. byteHex (word_of_int (now div 256 ^ k))"
    have n: "0 \<le> now" "now < 2 ^ 48" using none that by simp_all
    have c: "createUuidV7 now [r0, r1, r2, r3, r4, r5, r6, r7, r8, r9, r10, r11, r12, r13, r14, r15] = Some s"
      using that unfolding r .
    have "\<exists>rest. s = (?t 5 @ ?t 4 @ ?t 3 @ ?t 2) @ js ''-'' @ (?t 1 @ ?t 0) @ rest"
      using uuid_bytes [OF c] by simp
    then obtain rest where s: "s = (?t 5 @ ?t 4 @ ?t 3 @ ?t 2) @ js ''-'' @ (?t 1 @ ?t 0) @ rest" by blast
    have d: "take 8 s @ take 4 (drop 9 s) = ?t 5 @ ?t 4 @ ?t 3 @ ?t 2 @ ?t 1 @ ?t 0 @ []"
      unfolding s by (simp add: js_def)
    have u: "uint (word_of_int m :: 8 word) = m mod 256" for m
      by (simp add: uint_word_of_int take_bit_eq_mod)
    show ?thesis
      unfolding uuidTimestamp_def d byteHex_value u using base256 [OF n] by simp
  qed
  then show ?thesis using none by blast
qed

theorem uuid_form_witness: "\<exists>s. createUuidV7 1700000000000 (replicate 16 255) = Some s \<and> matches uuidV7 s"
proof -
  obtain s where s: "createUuidV7 1700000000000 (replicate 16 255) = Some s" by (simp add: createUuidV7_def)
  from uuid_form [OF this] show ?thesis using s by simp
qed

theorem uuid_timestamp_witness: "\<exists>s. createUuidV7 1700000000000 (replicate 16 255) = Some s \<and> uuidTimestamp s = 1700000000000"
proof -
  obtain s where s: "createUuidV7 1700000000000 (replicate 16 255) = Some s" by (simp add: createUuidV7_def)
  have "length (replicate 16 255 :: 8 word list) = 16" by simp
  from uuid_timestamp [OF this, of 1700000000000] show ?thesis using s by blast
qed

end
