(* ===== verification/Runtime_Lock.thy ===== *)
theory Runtime_Lock
  imports Canonical_Json Regex
begin

text \<open>
  \<open>packages/platform/src/filesystem.ts\<close>: the lock that elects one control runtime for a data root. Contenders
  are claim directories; each draws a ticket larger than every ticket it reads, then looks at the others
  until none is smaller and none is still choosing. Every access to the file system is one step of
  \<open>lockStep\<close>, and the steps of all contenders, of processes that end and of failing calls interleave.
\<close>

section \<open>Claims and the shared directory\<close>

type_synonym claimName = jstring

definition claimPattern :: rx where
  "claimPattern = seqs [Cls [rng CHR ''1'' CHR ''9''], Star digitCls, lit ''-'', rep 32 hexCls]"

definition claimPid :: "claimName \<Rightarrow> int option" where
  "claimPid name =
     (if \<not> matches claimPattern name then None
      else let pid = int (valDigits (takeWhile (\<lambda>c. c \<noteq> 45) name)) in
        if pid > 2147483647 then None else Some pid)"

text \<open>What \<open>JSON.parse\<close> of \<open>ticket.json\<close> can give: no file, \<open>null\<close>, a number, or anything else.\<close>

datatype ticketFile = TicketAbsent | TicketNull | TicketNumber int | TicketOther

record runtimeClaim =
  rcl_name :: claimName
  rcl_ticket :: "int option"

text \<open>The text of \<open>control-api.lock\<close>, with the process id read from it, if it is a valid one.\<close>

record lockFile =
  lf_text :: jstring
  lf_pid :: "int option"

definition lockContent :: "jstring \<Rightarrow> int \<Rightarrow> jstring" where
  "lockContent instanceId pid =
     js ''{'' @ quoteString (js ''instanceId'') @ js '':'' @ quoteString instanceId @ js '','' @
     quoteString (js ''pid'') @ js '':'' @ natStr (nat pid) @ js ''}'' @ [10]"

section \<open>One contender\<close>

text \<open>
  A scan of the claims: \<open>readdir\<close> has not begun, has begun (with the directories present then), or has
  answered; then each name is looked at in turn.
\<close>

datatype scanPoint =
  AtNext | AtTicket claimName | AtStat claimName | AtUnlink claimName | AtRmdir claimName

datatype scan =
  Unlisted
| Listing "claimName list"
| Entries scanPoint "claimName list" "runtimeClaim list"

datatype lockError = CONTROL_RUNTIME_LOCK_FAILED | CONTROL_RUNTIME_ALREADY_ACTIVE

datatype lockExit = Refused lockError | Released | ReleaseFailed | Abandoned | Died

datatype lockPhase =
  Idle
| Drawing scan
| Publishing int
| Checking int scan
| Examining int
| Writing int
| Written int
| Holding int
| ReleaseRead int
| ReleaseRemove int
| Unlinking lockExit
| Removing lockExit
| Ended lockExit

record lockState =
  ls_claims :: "claimName \<Rightarrow> ticketFile option"
  ls_made :: "claimName list"
  ls_alive :: "int list"
  ls_lock :: "lockFile option"
  ls_instance :: "claimName \<Rightarrow> jstring"
  ls_phase :: "claimName \<Rightarrow> lockPhase"

definition goto :: "claimName \<Rightarrow> lockPhase \<Rightarrow> lockState \<Rightarrow> lockState" where
  "goto n ph s = s\<lparr>ls_phase := (ls_phase s)(n := ph)\<rparr>"

definition setClaim :: "claimName \<Rightarrow> ticketFile option \<Rightarrow> lockState \<Rightarrow> lockState" where
  "setClaim n file s = s\<lparr>ls_claims := (ls_claims s)(n := file)\<rparr>"

definition present :: "lockState \<Rightarrow> claimName list" where
  "present s = filter (\<lambda>n. ls_claims s n \<noteq> None) (ls_made s)"

text \<open>\<open>processExists\<close>.\<close>

definition processExists :: "lockState \<Rightarrow> int \<Rightarrow> bool" where
  "processExists s pid = (pid \<in> set (ls_alive s))"

text \<open>Removing \<open>ticket.json\<close>, the first step of removing a claim directory.\<close>

definition unlinkTicket :: "claimName \<Rightarrow> lockState \<Rightarrow> lockState" where
  "unlinkTicket n s = (if ls_claims s n = None then s else setClaim n (Some TicketAbsent) s)"

text \<open>The next step of \<open>readRuntimeClaims\<close>; \<open>Inl\<close> is an exception.\<close>

definition scanTicket :: "lockState \<Rightarrow> claimName \<Rightarrow> claimName list \<Rightarrow> runtimeClaim list \<Rightarrow> unit + scan" where
  "scanTicket s n rest found =
     (case ls_claims s n of
        None \<Rightarrow> Inr (Entries (AtStat n) rest found)
      | Some TicketAbsent \<Rightarrow> Inr (Entries (AtStat n) rest found)
      | Some TicketNull \<Rightarrow> Inr (Entries AtNext rest (found @ [\<lparr>rcl_name = n, rcl_ticket = None\<rparr>]))
      | Some (TicketNumber t) \<Rightarrow>
          if \<bar>t\<bar> > 2 ^ 53 - 1 \<or> t < 1 then Inl ()
          else Inr (Entries AtNext rest (found @ [\<lparr>rcl_name = n, rcl_ticket = Some t\<rparr>]))
      | Some TicketOther \<Rightarrow> Inl ())"

fun scanRun :: "lockState \<Rightarrow> scan \<Rightarrow> (unit + scan) \<times> lockState" where
  "scanRun s Unlisted = (Inr (Listing (present s)), s)"
| "scanRun s (Listing before) = (Inr (Listing before), s)"
| "scanRun s (Entries AtNext [] found) = (Inr (Entries AtNext [] found), s)"
| "scanRun s (Entries AtNext (n # rest) found) =
     (case claimPid n of
        None \<Rightarrow> (Inl (), s)
      | Some pid \<Rightarrow>
          if \<not> processExists s pid then (Inr (Entries (AtUnlink n) rest found), s)
          else (Inr (Entries (AtTicket n) rest found), s))"
| "scanRun s (Entries (AtUnlink n) rest found) = (Inr (Entries (AtRmdir n) rest found), unlinkTicket n s)"
| "scanRun s (Entries (AtRmdir n) rest found) = (Inr (Entries AtNext rest found), setClaim n None s)"
| "scanRun s (Entries (AtTicket n) rest found) = (scanTicket s n rest found, s)"
| "scanRun s (Entries (AtStat n) rest found) =
     (if ls_claims s n = None then (Inr (Entries AtNext rest found), s)
      else (Inr (Entries AtNext rest (found @ [\<lparr>rcl_name = n, rcl_ticket = None\<rparr>])), s))"

text \<open>
  An answer of \<open>readdir\<close>: it has every directory that was there throughout, and no other than those
  that were made at some time.
\<close>

definition listed :: "lockState \<Rightarrow> claimName list \<Rightarrow> claimName list \<Rightarrow> bool" where
  "listed s before names =
     (list_all (\<lambda>n. ls_claims s n \<noteq> None \<longrightarrow> n \<in> set names) before \<and> list_all (\<lambda>n. n \<in> set (ls_made s)) names)"

definition maxTicket :: "runtimeClaim list \<Rightarrow> int" where
  "maxTicket claims = foldl (\<lambda>m c. max m (case rcl_ticket c of None \<Rightarrow> 0 | Some t \<Rightarrow> t)) 0 claims"

definition precedes :: "runtimeClaim \<Rightarrow> int \<Rightarrow> claimName \<Rightarrow> bool" where
  "precedes c ticket name =
     (case rcl_ticket c of None \<Rightarrow> False | Some t \<Rightarrow> t < ticket \<or> t = ticket \<and> rcl_name c < name)"

text \<open>The election at the end of a scan; \<open>expired\<close> says that the budget of five seconds is used up.\<close>

definition judge :: "bool \<Rightarrow> int \<Rightarrow> claimName \<Rightarrow> runtimeClaim list \<Rightarrow> lockPhase" where
  "judge expired ticket name claims =
     (let others = filter (\<lambda>c. rcl_name c \<noteq> name) claims in
      if list_ex (\<lambda>c. precedes c ticket name) others then Unlinking (Refused CONTROL_RUNTIME_ALREADY_ACTIVE)
      else if \<not> list_ex (\<lambda>c. rcl_ticket c = None) others then Examining ticket
      else if expired then Unlinking (Refused CONTROL_RUNTIME_LOCK_FAILED)
      else Checking ticket Unlisted)"

section \<open>The steps of the lock\<close>

definition ownLock :: "lockState \<Rightarrow> claimName \<Rightarrow> lockFile" where
  "ownLock s n = (case claimPid n of
     None \<Rightarrow> \<lparr>lf_text = [], lf_pid = None\<rparr>
   | Some pid \<Rightarrow> \<lparr>lf_text = lockContent (ls_instance s n) pid, lf_pid = Some pid\<rparr>)"

definition scanned :: "(scan \<Rightarrow> lockPhase) \<Rightarrow> claimName \<Rightarrow> scan \<Rightarrow> lockState \<Rightarrow> lockState" where
  "scanned phase n sc s =
     (case scanRun s sc of
        (Inl _, s') \<Rightarrow> goto n (Unlinking (Refused CONTROL_RUNTIME_LOCK_FAILED)) s'
      | (Inr sc', s') \<Rightarrow> goto n (phase sc') s')"

text \<open>The look at the lock file left by the last runtime.\<close>

definition examine :: "lockState \<Rightarrow> int \<Rightarrow> lockPhase" where
  "examine s ticket =
     (case ls_lock s of
        None \<Rightarrow> Writing ticket
      | Some file \<Rightarrow>
          (case lf_pid file of
             None \<Rightarrow> Unlinking (Refused CONTROL_RUNTIME_LOCK_FAILED)
           | Some pid \<Rightarrow> if processExists s pid then Unlinking (Refused CONTROL_RUNTIME_ALREADY_ACTIVE) else Writing ticket))"

text \<open>One step of \<open>acquireRuntimeLock\<close>, or of the function it returns; \<open>None\<close> if it waits for another event.\<close>

fun contend :: "bool \<Rightarrow> claimName \<Rightarrow> lockPhase \<Rightarrow> lockState \<Rightarrow> lockState option" where
  "contend expired n (Drawing (Listing before)) s = None"
| "contend expired n (Drawing (Entries AtNext [] found)) s =
     (let ticket = 1 + maxTicket found in
      Some (goto n (if \<bar>ticket\<bar> > 2 ^ 53 - 1 then Unlinking (Refused CONTROL_RUNTIME_LOCK_FAILED) else Publishing ticket) s))"
| "contend expired n (Drawing sc) s = Some (scanned Drawing n sc s)"
| "contend expired n (Publishing t) s =
     Some (goto n (Checking t Unlisted) (setClaim n (Some (TicketNumber t)) s))"
| "contend expired n (Checking t (Listing before)) s = None"
| "contend expired n (Checking t (Entries AtNext [] found)) s = Some (goto n (judge expired t n found) s)"
| "contend expired n (Checking t sc) s = Some (scanned (Checking t) n sc s)"
| "contend expired n (Examining t) s = Some (goto n (examine s t) s)"
| "contend expired n (Writing t) s = Some (goto n (Written t) (s\<lparr>ls_lock := Some (ownLock s n)\<rparr>))"
| "contend expired n (Written t) s = Some (goto n (Holding t) s)"
| "contend expired n (ReleaseRead t) s =
     Some (goto n (case ls_lock s of
        None \<Rightarrow> Unlinking Released
      | Some file \<Rightarrow> if lf_text file = lf_text (ownLock s n) then ReleaseRemove t else Unlinking Released) s)"
| "contend expired n (ReleaseRemove t) s = Some (goto n (Unlinking Released) (s\<lparr>ls_lock := None\<rparr>))"
| "contend expired n (Unlinking e) s = Some (goto n (Removing e) (unlinkTicket n s))"
| "contend expired n (Removing e) s = Some (goto n (Ended e) (setClaim n None s))"
| "contend expired n _ s = None"

text \<open>A failing call of the file system: the exception leads to the removal of the claim.\<close>

fun faulted :: "lockPhase \<Rightarrow> lockPhase option" where
  "faulted (Drawing sc) = Some (Unlinking (Refused CONTROL_RUNTIME_LOCK_FAILED))"
| "faulted (Publishing t) = Some (Unlinking (Refused CONTROL_RUNTIME_LOCK_FAILED))"
| "faulted (Checking t sc) = Some (Unlinking (Refused CONTROL_RUNTIME_LOCK_FAILED))"
| "faulted (Examining t) = Some (Unlinking (Refused CONTROL_RUNTIME_LOCK_FAILED))"
| "faulted (Writing t) = Some (Unlinking (Refused CONTROL_RUNTIME_LOCK_FAILED))"
| "faulted (Written t) = Some (Unlinking (Refused CONTROL_RUNTIME_LOCK_FAILED))"
| "faulted (ReleaseRead t) = Some (Unlinking ReleaseFailed)"
| "faulted (ReleaseRemove t) = Some (Unlinking ReleaseFailed)"
| "faulted (Unlinking e) = Some (Ended Abandoned)"
| "faulted (Removing e) = Some (Ended Abandoned)"
| "faulted _ = None"

text \<open>\<open>runtimeClaims\<close> scans again when Windows denies a path.\<close>

fun rescanned :: "lockPhase \<Rightarrow> lockPhase option" where
  "rescanned (Drawing sc) = Some (Drawing Unlisted)"
| "rescanned (Checking t sc) = Some (Checking t Unlisted)"
| "rescanned _ = None"

fun answered :: "lockState \<Rightarrow> claimName list \<Rightarrow> lockPhase \<Rightarrow> lockPhase option" where
  "answered s names (Drawing (Listing before)) =
     (if listed s before names then Some (Drawing (Entries AtNext names [])) else None)"
| "answered s names (Checking t (Listing before)) =
     (if listed s before names then Some (Checking t (Entries AtNext names [])) else None)"
| "answered s names _ = None"

fun finished :: "lockPhase \<Rightarrow> bool" where
  "finished Idle = True"
| "finished (Ended e) = True"
| "finished _ = False"

datatype lockEvent =
  Begin claimName jstring
| Run claimName
| Expire claimName
| Answer claimName "claimName list"
| Rescan claimName
| Fault claimName
| Release claimName
| Spawn int
| Die int

fun lockStep :: "lockEvent \<Rightarrow> lockState \<Rightarrow> lockState option" where
  "lockStep (Begin n instanceId) s =
     (case claimPid n of
        None \<Rightarrow> None
      | Some pid \<Rightarrow>
          if \<not> processExists s pid \<or> n \<in> set (ls_made s) \<or> ls_phase s n \<noteq> Idle then None
          else Some (goto n (Drawing Unlisted) (setClaim n (Some TicketAbsent)
                 (s\<lparr>ls_made := n # ls_made s, ls_instance := (ls_instance s)(n := instanceId)\<rparr>))))"
| "lockStep (Run n) s = contend False n (ls_phase s n) s"
| "lockStep (Expire n) s = contend True n (ls_phase s n) s"
| "lockStep (Answer n names) s = map_option (\<lambda>ph. goto n ph s) (answered s names (ls_phase s n))"
| "lockStep (Rescan n) s = map_option (\<lambda>ph. goto n ph s) (rescanned (ls_phase s n))"
| "lockStep (Fault n) s = map_option (\<lambda>ph. goto n ph s) (faulted (ls_phase s n))"
| "lockStep (Release n) s = (case ls_phase s n of Holding t \<Rightarrow> Some (goto n (ReleaseRead t) s) | _ \<Rightarrow> None)"
| "lockStep (Spawn pid) s = Some (s\<lparr>ls_alive := pid # ls_alive s\<rparr>)"
| "lockStep (Die pid) s =
     Some (s\<lparr>ls_alive := filter (\<lambda>p. p \<noteq> pid) (ls_alive s),
       ls_phase := (\<lambda>n. if claimPid n = Some pid \<and> \<not> finished (ls_phase s n) then Ended Died else ls_phase s n)\<rparr>)"

fun lockRun :: "lockEvent list \<Rightarrow> lockState \<Rightarrow> lockState option" where
  "lockRun [] s = Some s"
| "lockRun (e # es) s = (case lockStep e s of None \<Rightarrow> None | Some s' \<Rightarrow> lockRun es s')"

text \<open>At first nobody contends; the directory may have any leftover claims, the lock file any text.\<close>

definition lockInitial :: "lockState \<Rightarrow> bool" where
  "lockInitial s \<longleftrightarrow> (\<forall>n. ls_phase s n = Idle) \<and> (\<forall>n. ls_claims s n \<noteq> None \<longrightarrow> n \<in> set (ls_made s))"

section \<open>The order of the contenders\<close>

fun ticketOf :: "lockPhase \<Rightarrow> int option" where
  "ticketOf (Checking t sc) = Some t"
| "ticketOf (Examining t) = Some t"
| "ticketOf (Writing t) = Some t"
| "ticketOf (Written t) = Some t"
| "ticketOf (Holding t) = Some t"
| "ticketOf (ReleaseRead t) = Some t"
| "ticketOf (ReleaseRemove t) = Some t"
| "ticketOf _ = None"

fun engaged :: "lockPhase \<Rightarrow> bool" where
  "engaged (Drawing sc) = True"
| "engaged (Publishing t) = True"
| "engaged ph = (ticketOf ph \<noteq> None)"

text \<open>The phases in which the lock file is looked at, written, held or removed.\<close>

fun elected :: "lockPhase \<Rightarrow> bool" where
  "elected (Checking t sc) = False"
| "elected ph = (ticketOf ph \<noteq> None)"

fun scanOf :: "lockPhase \<Rightarrow> scan option" where
  "scanOf (Drawing sc) = Some sc"
| "scanOf (Checking t sc) = Some sc"
| "scanOf _ = None"

fun pointNames :: "scanPoint \<Rightarrow> claimName set" where
  "pointNames AtNext = {}"
| "pointNames (AtTicket n) = {n}"
| "pointNames (AtStat n) = {n}"
| "pointNames (AtUnlink n) = {n}"
| "pointNames (AtRmdir n) = {n}"

fun scanNames :: "scan \<Rightarrow> claimName set" where
  "scanNames (Entries pt rest found) = pointNames pt \<union> set rest"
| "scanNames _ = {}"

fun reclaims :: "scan \<Rightarrow> claimName set" where
  "reclaims (Entries (AtUnlink n) rest found) = {n}"
| "reclaims (Entries (AtRmdir n) rest found) = {n}"
| "reclaims _ = {}"

definition earlier :: "int \<Rightarrow> claimName \<Rightarrow> int \<Rightarrow> claimName \<Rightarrow> bool" where
  "earlier t p u q \<longleftrightarrow> t < u \<or> t = u \<and> p < q"

text \<open>A scan of \<open>p\<close> with ticket \<open>t\<close> will not look at \<open>q\<close> any more, and what it saw of \<open>q\<close> comes later.\<close>

fun clears :: "claimName \<Rightarrow> int \<Rightarrow> claimName \<Rightarrow> scan \<Rightarrow> bool" where
  "clears p t q Unlisted = False"
| "clears p t q (Listing before) = (q \<notin> set before)"
| "clears p t q (Entries pt rest found) =
     (q \<notin> set rest \<and> q \<notin> pointNames pt \<and>
      (\<forall>c \<in> set found. rcl_name c = q \<longrightarrow> (\<exists>u. rcl_ticket c = Some u \<and> earlier t p u q)))"

fun passed :: "lockPhase \<Rightarrow> claimName \<Rightarrow> claimName \<Rightarrow> bool" where
  "passed (Checking t sc) p q = clears p t q sc"
| "passed ph p q = elected ph"

text \<open>A contender that draws its ticket has seen, or will see, the ticket \<open>t\<close> of \<open>p\<close>.\<close>

fun drawSees :: "claimName \<Rightarrow> int \<Rightarrow> scan \<Rightarrow> bool" where
  "drawSees p t Unlisted = True"
| "drawSees p t (Listing before) = (p \<in> set before)"
| "drawSees p t (Entries pt rest found) =
     (p \<in> set rest \<or> pt = AtTicket p \<or> (\<exists>c \<in> set found. \<exists>v. rcl_ticket c = Some v \<and> t \<le> v))"

fun yields :: "claimName \<Rightarrow> int \<Rightarrow> lockPhase \<Rightarrow> claimName \<Rightarrow> bool" where
  "yields p t (Drawing sc) q = drawSees p t sc"
| "yields p t (Publishing u) q = earlier t p u q"
| "yields p t ph q = (\<forall>u. ticketOf ph = Some u \<longrightarrow> earlier t p u q)"

definition claimOf :: "lockPhase \<Rightarrow> ticketFile" where
  "claimOf ph = (case ticketOf ph of None \<Rightarrow> TicketAbsent | Some t \<Rightarrow> TicketNumber t)"

fun ticketSafe :: "lockPhase \<Rightarrow> bool" where
  "ticketSafe (Publishing t) = (1 \<le> t \<and> t \<le> 2 ^ 53 - 1)"
| "ticketSafe ph = (\<forall>t. ticketOf ph = Some t \<longrightarrow> 1 \<le> t \<and> t \<le> 2 ^ 53 - 1)"

definition madeOk :: "lockState \<Rightarrow> bool" where
  "madeOk s \<longleftrightarrow> (\<forall>n. ls_claims s n \<noteq> None \<longrightarrow> n \<in> set (ls_made s)) \<and>
     (\<forall>n. ls_phase s n \<noteq> Idle \<longrightarrow> n \<in> set (ls_made s)) \<and>
     (\<forall>n sc. scanOf (ls_phase s n) = Some sc \<longrightarrow> scanNames sc \<subseteq> set (ls_made s))"

definition runs :: "lockState \<Rightarrow> claimName \<Rightarrow> bool" where
  "runs s n \<longleftrightarrow> (\<exists>pid. claimPid n = Some pid \<and> pid \<in> set (ls_alive s))"

definition engagedOk :: "lockState \<Rightarrow> bool" where
  "engagedOk s \<longleftrightarrow> (\<forall>n. engaged (ls_phase s n) \<longrightarrow>
     runs s n \<and> ls_claims s n = Some (claimOf (ls_phase s n)) \<and> ticketSafe (ls_phase s n))"

definition reclaimOk :: "lockState \<Rightarrow> bool" where
  "reclaimOk s \<longleftrightarrow> (\<forall>n sc m. scanOf (ls_phase s n) = Some sc \<longrightarrow> m \<in> reclaims sc \<longrightarrow> \<not> engaged (ls_phase s m))"

definition orderOk :: "lockState \<Rightarrow> bool" where
  "orderOk s \<longleftrightarrow> (\<forall>p q t. p \<noteq> q \<longrightarrow> passed (ls_phase s p) p q \<longrightarrow> ticketOf (ls_phase s p) = Some t \<longrightarrow>
     yields p t (ls_phase s q) q)"

definition lockInv :: "lockState \<Rightarrow> bool" where
  "lockInv s \<longleftrightarrow> madeOk s \<and> engagedOk s \<and> reclaimOk s \<and> orderOk s"

lemma ticketOf_engaged [simp]: "ticketOf ph = Some t \<Longrightarrow> engaged ph"
  by (cases ph) simp_all

lemma elected_ticket: "elected ph \<Longrightarrow> \<exists>t. ticketOf ph = Some t"
  by (cases ph) simp_all

lemma elected_passed: "elected ph \<Longrightarrow> passed ph p q"
  by (cases ph) simp_all

lemma passed_ticket: "passed ph p q \<Longrightarrow> \<exists>t. ticketOf ph = Some t"
  by (cases ph) simp_all

lemma yields_ticket: "yields p t ph q \<Longrightarrow> ticketOf ph = Some u \<Longrightarrow> earlier t p u q"
  by (cases ph) simp_all

lemma yields_disengaged: "\<not> engaged ph \<Longrightarrow> yields p t ph q"
  by (cases ph) simp_all

lemma earlier_asym: "earlier t p u q \<Longrightarrow> \<not> earlier u q t p"
  by (auto simp: earlier_def)

text \<open>Two claims cannot both be elected.\<close>

lemma inv_exclusive:
  assumes "lockInv s" "p \<noteq> q" "elected (ls_phase s p)"
  shows "\<not> elected (ls_phase s q)"
proof
  assume q: "elected (ls_phase s q)"
  obtain t u where t: "ticketOf (ls_phase s p) = Some t" and u: "ticketOf (ls_phase s q) = Some u"
    using elected_ticket assms(3) q by blast
  have o: "orderOk s" using assms(1) by (simp add: lockInv_def)
  have "earlier t p u q"
    using o assms(2) elected_passed [OF assms(3)] t u unfolding orderOk_def by (blast dest: yields_ticket)
  moreover have "earlier u q t p"
    using o assms(2) elected_passed [OF q] t u unfolding orderOk_def by (metis yields_ticket)
  ultimately show False using earlier_asym by blast
qed

text \<open>What one contender's step has to show.\<close>

lemma inv_move:
  assumes inv: "lockInv s"
    and s': "ls_phase s' = (ls_phase s)(n := ph)" "ls_made s' = ls_made s" "ls_alive s' = ls_alive s"
    and n: "ls_phase s n \<noteq> Idle"
    and claims: "\<forall>m. ls_claims s' m \<noteq> None \<longrightarrow> m \<in> set (ls_made s)"
      "\<forall>m. m \<noteq> n \<longrightarrow> engaged (ls_phase s m) \<longrightarrow> ls_claims s' m = ls_claims s m"
    and own: "engaged ph \<longrightarrow> engaged (ls_phase s n) \<and> ls_claims s' n = Some (claimOf ph) \<and> ticketSafe ph"
    and scan: "\<forall>sc. scanOf ph = Some sc \<longrightarrow> scanNames sc \<subseteq> set (ls_made s) \<and>
      (\<forall>m \<in> reclaims sc. m \<noteq> n \<longrightarrow> \<not> engaged (ls_phase s m)) \<and> n \<notin> reclaims sc"
    and clear: "\<forall>q t. q \<noteq> n \<longrightarrow> passed ph n q \<longrightarrow> ticketOf ph = Some t \<longrightarrow> yields n t (ls_phase s q) q"
    and seen: "\<forall>p t. p \<noteq> n \<longrightarrow> passed (ls_phase s p) p n \<longrightarrow> ticketOf (ls_phase s p) = Some t \<longrightarrow> yields p t ph n"
  shows "lockInv s'"
proof -
  have i: "madeOk s" "engagedOk s" "reclaimOk s" "orderOk s" using inv by (simp_all add: lockInv_def)
  have "n \<in> set (ls_made s)" using i(1) n by (simp add: madeOk_def)
  then have "madeOk s'" using i(1) claims(1) scan by (auto simp: madeOk_def s')
  moreover have "engagedOk s'"
    unfolding engagedOk_def
  proof (intro allI impI)
    fix m assume "engaged (ls_phase s' m)"
    then show "runs s' m \<and> ls_claims s' m = Some (claimOf (ls_phase s' m)) \<and> ticketSafe (ls_phase s' m)"
      using i(2) own claims(2) by (cases "m = n") (auto simp: s' engagedOk_def runs_def)
  qed
  moreover have "reclaimOk s'"
    unfolding reclaimOk_def
  proof (intro allI impI)
    fix k sc m assume k: "scanOf (ls_phase s' k) = Some sc" "m \<in> reclaims sc"
    show "\<not> engaged (ls_phase s' m)"
    proof (cases "k = n")
      case True
      then show ?thesis using k scan by (cases "m = n") (auto simp: s')
    next
      case False
      then have "\<not> engaged (ls_phase s m)" using k i(3) by (auto simp: s' reclaimOk_def)
      then show ?thesis using own by (auto simp: s')
    qed
  qed
  moreover have "orderOk s'"
    unfolding orderOk_def
  proof (intro allI impI)
    fix p q t assume a: "p \<noteq> q" "passed (ls_phase s' p) p q" "ticketOf (ls_phase s' p) = Some t"
    show "yields p t (ls_phase s' q) q"
    proof (cases "p = n")
      case True
      then show ?thesis using a clear by (simp add: s')
    next
      case False
      then show ?thesis using a seen i(4) by (cases "q = n") (simp_all add: s' orderOk_def)
    qed
  qed
  ultimately show ?thesis by (simp add: lockInv_def)
qed

section \<open>The steps keep the order\<close>

lemma inv_engaged:
  assumes "lockInv s" "engaged (ls_phase s n)"
  shows "runs s n" "ls_claims s n = Some (claimOf (ls_phase s n))" "ticketSafe (ls_phase s n)" "n \<in> set (ls_made s)"
  using assms by (simp_all add: lockInv_def engagedOk_def madeOk_def)

lemma inv_order: "lockInv s \<Longrightarrow> p \<noteq> q \<Longrightarrow> passed (ls_phase s p) p q \<Longrightarrow> ticketOf (ls_phase s p) = Some t \<Longrightarrow>
  yields p t (ls_phase s q) q"
  by (simp add: lockInv_def orderOk_def)

lemma goto_simps [simp]:
  "ls_phase (goto n ph s) = (ls_phase s)(n := ph)" "ls_claims (goto n ph s) = ls_claims s"
  "ls_made (goto n ph s) = ls_made s" "ls_alive (goto n ph s) = ls_alive s" "ls_lock (goto n ph s) = ls_lock s"
  "ls_instance (goto n ph s) = ls_instance s"
  by (simp_all add: goto_def)

lemma setClaim_simps [simp]:
  "ls_phase (setClaim n f s) = ls_phase s" "ls_claims (setClaim n f s) = (ls_claims s)(n := f)"
  "ls_made (setClaim n f s) = ls_made s" "ls_alive (setClaim n f s) = ls_alive s" "ls_lock (setClaim n f s) = ls_lock s"
  "ls_instance (setClaim n f s) = ls_instance s"
  by (simp_all add: setClaim_def)

lemma unlinkTicket_simps [simp]:
  "ls_phase (unlinkTicket n s) = ls_phase s" "ls_made (unlinkTicket n s) = ls_made s"
  "ls_alive (unlinkTicket n s) = ls_alive s" "ls_lock (unlinkTicket n s) = ls_lock s"
  "ls_instance (unlinkTicket n s) = ls_instance s"
  "m \<noteq> n \<Longrightarrow> ls_claims (unlinkTicket n s) m = ls_claims s m"
  "ls_claims (unlinkTicket n s) m = None \<longleftrightarrow> ls_claims s m = None"
  by (auto simp: unlinkTicket_def)

lemma scanTicket_frame: "scanTicket s n rest found = Inr sc' \<Longrightarrow> scanNames sc' \<subseteq> insert n (set rest) \<and> reclaims sc' = {}"
  by (auto simp: scanTicket_def split: option.splits ticketFile.splits if_splits)

text \<open>A step of a scan touches the claims of nobody who contends.\<close>

lemma scanRun_frame:
  assumes "scanRun s sc = (r, s')"
  shows "ls_phase s' = ls_phase s \<and> ls_made s' = ls_made s \<and> ls_alive s' = ls_alive s \<and> ls_lock s' = ls_lock s \<and>
    ls_instance s' = ls_instance s \<and>
    (\<forall>m. m \<notin> reclaims sc \<longrightarrow> ls_claims s' m = ls_claims s m) \<and>
    (\<forall>m. ls_claims s m = None \<longrightarrow> ls_claims s' m = None)"
  using assms
  by (cases "(s, sc)" rule: scanRun.cases) (auto split: option.splits if_splits)

lemma present_iff: "n \<in> set (present s) \<longleftrightarrow> n \<in> set (ls_made s) \<and> ls_claims s n \<noteq> None"
  by (simp add: present_def)

lemma runs_not_dead: "runs s n \<Longrightarrow> claimPid n = Some pid \<Longrightarrow> processExists s pid"
  by (simp add: runs_def processExists_def)

lemma scanRun_names:
  assumes inv: "lockInv s" and sc: "scanOf (ls_phase s n) = Some sc" and r: "scanRun s sc = (Inr sc', s')"
  shows "scanNames sc' \<subseteq> set (ls_made s) \<and> (\<forall>m \<in> reclaims sc'. \<not> engaged (ls_phase s m))"
proof -
  have names: "scanNames sc \<subseteq> set (ls_made s)" and re: "\<forall>m \<in> reclaims sc. \<not> engaged (ls_phase s m)"
    using inv sc by (auto simp: lockInv_def madeOk_def reclaimOk_def)
  have dead: "\<not> engaged (ls_phase s m)" if "claimPid m = Some pid" "\<not> processExists s pid" for m pid
    using that inv_engaged(1) [OF inv] runs_not_dead by blast
  show ?thesis
    using r names re
  proof (cases "(s, sc)" rule: scanRun.cases)
    case (7 s m rest found)
    then show ?thesis using r names scanTicket_frame by fastforce
  next
    case (4 s0 m rest found)
    then show ?thesis using r names dead by (auto split: option.splits if_splits)
  qed (auto split: option.splits if_splits)
qed

text \<open>What a scan has newly cleared comes later.\<close>

lemma ticket_yields: "ticketOf ph = Some u \<Longrightarrow> earlier t p u q \<Longrightarrow> yields p t ph q"
  by (cases ph) simp_all

lemma claim_yields:
  assumes "lockInv s" "ls_claims s q = Some (TicketNumber u)" "earlier t p u q"
  shows "yields p t (ls_phase s q) q"
proof (cases "engaged (ls_phase s q)")
  case True
  then have "ticketOf (ls_phase s q) = Some u"
    using inv_engaged(2) [OF assms(1) True] assms(2) by (simp add: claimOf_def split: option.splits)
  then show ?thesis using assms(3) by (rule ticket_yields)
qed (rule yields_disengaged)

lemma missing_yields: "lockInv s \<Longrightarrow> ls_claims s q = None \<Longrightarrow> yields p t (ls_phase s q) q"
  using inv_engaged(2) yields_disengaged by fastforce

lemma scanRun_clears:
  assumes inv: "lockInv s" and sc: "scanOf (ls_phase s n) = Some sc" and r: "scanRun s sc = (Inr sc', s')"
    and c: "clears n t q sc'"
  shows "clears n t q sc \<or> yields n t (ls_phase s q) q"
proof -
  have re: "\<forall>m \<in> reclaims sc. \<not> engaged (ls_phase s m)"
    using inv sc by (auto simp: lockInv_def reclaimOk_def)
  show ?thesis
    using r c
  proof (cases "(s, sc)" rule: scanRun.cases)
    case (1 s0)
    then have "q \<notin> set (present s)" using r c by auto
    then have "ls_claims s q = None" using inv by (auto simp: present_iff lockInv_def madeOk_def)
    then show ?thesis using missing_yields [OF inv] by blast
  next
    case (6 s0 m rest found)
    then show ?thesis using r c re yields_disengaged by (cases "q = m") auto
  next
    case (7 s0 m rest found)
    then show ?thesis using r c claim_yields [OF inv]
      by (cases "q = m") (auto simp: scanTicket_def split: option.splits ticketFile.splits if_splits)
  next
    case (8 s0 m rest found)
    then show ?thesis using r c missing_yields [OF inv] by (cases "q = m") (auto split: if_splits)
  qed (auto split: option.splits if_splits)
qed

lemma scanRun_sees:
  assumes inv: "lockInv s" and sc: "scanOf (ls_phase s n) = Some sc" and r: "scanRun s sc = (Inr sc', s')"
    and p: "ticketOf (ls_phase s p) = Some t" and d: "drawSees p t sc"
  shows "drawSees p t sc'"
proof -
  have e: "engaged (ls_phase s p)" using p by (rule ticketOf_engaged)
  note k = inv_engaged [OF inv e]
  have safe: "1 \<le> t \<and> t \<le> 2 ^ 53 - 1" using k(3) p by (cases "ls_phase s p") simp_all
  have number: "ls_claims s p = Some (TicketNumber t)" using k(2) p by (simp add: claimOf_def)
  show ?thesis
    using r d
  proof (cases "(s, sc)" rule: scanRun.cases)
    case (1 s0)
    then show ?thesis using r k by (auto simp: present_iff)
  next
    case (4 s0 m rest found)
    then show ?thesis using r d runs_not_dead [OF k(1)] k(1) by (auto simp: runs_def split: option.splits if_splits)
  next
    case (7 s0 m rest found)
    then show ?thesis using r d number safe
      by (cases "m = p") (auto simp: scanTicket_def split: option.splits ticketFile.splits if_splits)
  qed (auto split: option.splits if_splits)
qed

lemma claims_made: "lockInv s \<Longrightarrow> ls_claims s m \<noteq> None \<Longrightarrow> m \<in> set (ls_made s)"
  by (simp add: lockInv_def madeOk_def)

text \<open>Leaving the contest.\<close>

lemma inv_leave:
  assumes "lockInv s" "ls_phase s n \<noteq> Idle" "\<not> engaged ph" "scanOf ph = None"
    "ls_phase s' = (ls_phase s)(n := ph)" "ls_made s' = ls_made s" "ls_alive s' = ls_alive s"
    "\<forall>m. ls_claims s m = None \<longrightarrow> m \<noteq> n \<longrightarrow> ls_claims s' m = None"
    "\<forall>m. m \<noteq> n \<longrightarrow> engaged (ls_phase s m) \<longrightarrow> ls_claims s' m = ls_claims s m"
  shows "lockInv s'"
proof (rule inv_move [OF assms(1) assms(5) assms(6) assms(7) assms(2) _ assms(9)])
  have "n \<in> set (ls_made s)" using assms(1,2) by (simp add: lockInv_def madeOk_def)
  then show "\<forall>m. ls_claims s' m \<noteq> None \<longrightarrow> m \<in> set (ls_made s)"
    using claims_made [OF assms(1)] assms(8) by metis
qed (use assms(3,4) passed_ticket yields_disengaged in \<open>auto dest: ticketOf_engaged\<close>)

text \<open>Going on with a ticket that stays the same.\<close>

lemma inv_continue:
  assumes "lockInv s" "ticketOf (ls_phase s n) = Some t" "ticketOf ph = Some t" "scanOf ph = None"
    "\<forall>q. q \<noteq> n \<longrightarrow> passed ph n q \<longrightarrow> yields n t (ls_phase s q) q"
    "ls_phase s' = (ls_phase s)(n := ph)" "ls_made s' = ls_made s" "ls_alive s' = ls_alive s" "ls_claims s' = ls_claims s"
  shows "lockInv s'"
proof (rule inv_move [OF assms(1) assms(6) assms(7) assms(8)])
  have e: "engaged (ls_phase s n)" using assms(2) by (rule ticketOf_engaged)
  show "ls_phase s n \<noteq> Idle" using e by auto
  have s: "ticketSafe (ls_phase s n) \<longrightarrow> ticketSafe ph"
    using assms(2,3) by (cases ph; cases "ls_phase s n") simp_all
  show "engaged ph \<longrightarrow> engaged (ls_phase s n) \<and> ls_claims s' n = Some (claimOf ph) \<and> ticketSafe ph"
    using inv_engaged [OF assms(1) e] assms(2,3,9) e s by (simp add: claimOf_def)
  have y: "yields p u (ls_phase s n) n \<longrightarrow> yields p u ph n" for p u
    using yields_ticket [OF _ assms(2)] ticket_yields [OF assms(3)] by blast
  show "\<forall>p u. p \<noteq> n \<longrightarrow> passed (ls_phase s p) p n \<longrightarrow> ticketOf (ls_phase s p) = Some u \<longrightarrow> yields p u ph n"
    using assms(1) y unfolding lockInv_def orderOk_def by blast
qed (use assms claims_made in auto)

lemma elected_clears: "lockInv s \<Longrightarrow> elected (ls_phase s n) \<Longrightarrow> ticketOf (ls_phase s n) = Some t \<Longrightarrow> q \<noteq> n \<Longrightarrow>
  yields n t (ls_phase s q) q"
  unfolding lockInv_def orderOk_def using elected_passed by metis

text \<open>One step of a scan.\<close>

lemma inv_scanned_draw:
  assumes inv: "lockInv s" and ph: "ls_phase s n = Drawing sc"
  shows "lockInv (scanned Drawing n sc s)"
proof (cases "scanRun s sc")
  case (Pair r s')
  note f = scanRun_frame [OF Pair]
  have e: "engaged (ls_phase s n)" "scanOf (ls_phase s n) = Some sc" by (simp_all add: ph)
  have re: "\<forall>m \<in> reclaims sc. \<not> engaged (ls_phase s m)" using inv e(2) by (auto simp: lockInv_def reclaimOk_def)
  have keep: "ls_claims s' m = ls_claims s m" if "engaged (ls_phase s m)" for m using f re that by blast
  show ?thesis
  proof (cases r)
    case (Inl u)
    show ?thesis
      unfolding scanned_def Pair Inl
      by (simp, rule inv_leave [OF inv, where n = n]) (use f keep e in \<open>auto simp: ph\<close>)
  next
    case (Inr sc')
    note r = Pair [unfolded Inr]
    show ?thesis
      unfolding scanned_def Pair Inr
    proof (simp, rule inv_move [OF inv, where n = n and ph = "Drawing sc'"])
      show "\<forall>m. ls_claims (goto n (Drawing sc') s') m \<noteq> None \<longrightarrow> m \<in> set (ls_made s)"
        using f claims_made [OF inv] by (metis goto_simps(2))
      show "\<forall>sca. scanOf (Drawing sc') = Some sca \<longrightarrow> scanNames sca \<subseteq> set (ls_made s) \<and>
          (\<forall>m \<in> reclaims sca. m \<noteq> n \<longrightarrow> \<not> engaged (ls_phase s m)) \<and> n \<notin> reclaims sca"
        using scanRun_names [OF inv e(2) r] e(1) by auto
      have "yields p t (Drawing sc) n" if "p \<noteq> n" "passed (ls_phase s p) p n" "ticketOf (ls_phase s p) = Some t" for p t
        using inv that unfolding lockInv_def orderOk_def by (metis ph)
      then show "\<forall>p t. p \<noteq> n \<longrightarrow> passed (ls_phase s p) p n \<longrightarrow> ticketOf (ls_phase s p) = Some t \<longrightarrow> yields p t (Drawing sc') n"
        using scanRun_sees [OF inv e(2) r] by auto
    qed (use f keep e inv_engaged [OF inv e(1)] in \<open>auto simp: ph claimOf_def\<close>)
  qed
qed

lemma inv_scanned_check:
  assumes inv: "lockInv s" and ph: "ls_phase s n = Checking t sc"
  shows "lockInv (scanned (Checking t) n sc s)"
proof (cases "scanRun s sc")
  case (Pair r s')
  note f = scanRun_frame [OF Pair]
  have e: "engaged (ls_phase s n)" "scanOf (ls_phase s n) = Some sc" by (simp_all add: ph)
  have re: "\<forall>m \<in> reclaims sc. \<not> engaged (ls_phase s m)" using inv e(2) by (auto simp: lockInv_def reclaimOk_def)
  have keep: "ls_claims s' m = ls_claims s m" if "engaged (ls_phase s m)" for m using f re that by blast
  show ?thesis
  proof (cases r)
    case (Inl u)
    show ?thesis
      unfolding scanned_def Pair Inl
      by (simp, rule inv_leave [OF inv, where n = n]) (use f keep e in \<open>auto simp: ph\<close>)
  next
    case (Inr sc')
    note r = Pair [unfolded Inr]
    show ?thesis
      unfolding scanned_def Pair Inr
    proof (simp, rule inv_move [OF inv, where n = n and ph = "Checking t sc'"])
      show "\<forall>m. ls_claims (goto n (Checking t sc') s') m \<noteq> None \<longrightarrow> m \<in> set (ls_made s)"
        using f claims_made [OF inv] by (metis goto_simps(2))
      show "\<forall>sca. scanOf (Checking t sc') = Some sca \<longrightarrow> scanNames sca \<subseteq> set (ls_made s) \<and>
          (\<forall>m \<in> reclaims sca. m \<noteq> n \<longrightarrow> \<not> engaged (ls_phase s m)) \<and> n \<notin> reclaims sca"
        using scanRun_names [OF inv e(2) r] e(1) by auto
      have "yields n t (ls_phase s q) q" if "q \<noteq> n" "clears n t q sc" for q
        using inv that unfolding lockInv_def orderOk_def by (metis ph passed.simps(1) ticketOf.simps(1))
      then show "\<forall>q ta. q \<noteq> n \<longrightarrow> passed (Checking t sc') n q \<longrightarrow> ticketOf (Checking t sc') = Some ta \<longrightarrow>
          yields n ta (ls_phase s q) q"
        using scanRun_clears [OF inv e(2) r] by auto
      have "yields p u (Checking t sc) n" if "p \<noteq> n" "passed (ls_phase s p) p n" "ticketOf (ls_phase s p) = Some u" for p u
        using inv that unfolding lockInv_def orderOk_def by (metis ph)
      then show "\<forall>p u. p \<noteq> n \<longrightarrow> passed (ls_phase s p) p n \<longrightarrow> ticketOf (ls_phase s p) = Some u \<longrightarrow> yields p u (Checking t sc') n"
        by auto
    qed (use f keep e inv_engaged [OF inv e(1)] in \<open>auto simp: ph claimOf_def\<close>)
  qed
qed

lemma maxTicket_ge: "c \<in> set found \<Longrightarrow> rcl_ticket c = Some v \<Longrightarrow> v \<le> maxTicket found"
proof -
  have mono: "m \<le> foldl (\<lambda>m c. max m (case rcl_ticket c of None \<Rightarrow> 0 | Some t \<Rightarrow> t)) m cs" for m cs
  proof (induction cs arbitrary: m)
    case (Cons d ds)
    show ?case using Cons.IH [of "max m (case rcl_ticket d of None \<Rightarrow> 0 | Some t \<Rightarrow> t)"] by simp
  qed simp
  have "c \<in> set cs \<Longrightarrow> rcl_ticket c = Some v \<Longrightarrow>
      v \<le> foldl (\<lambda>m c. max m (case rcl_ticket c of None \<Rightarrow> 0 | Some t \<Rightarrow> t)) m cs" for cs m
  proof (induction cs arbitrary: m)
    case (Cons d ds)
    show ?case
    proof (cases "c = d")
      case True
      then show ?thesis using Cons.prems(2) mono [of "max m v" ds] by simp
    next
      case False
      then show ?thesis using Cons by simp
    qed
  qed simp
  then show "c \<in> set found \<Longrightarrow> rcl_ticket c = Some v \<Longrightarrow> v \<le> maxTicket found"
    unfolding maxTicket_def by blast
qed

lemma maxTicket_nonneg: "0 \<le> maxTicket found"
proof -
  have "(0::int) \<le> m \<Longrightarrow> 0 \<le> foldl (\<lambda>m c. max m (case rcl_ticket c of None \<Rightarrow> 0 | Some t \<Rightarrow> t)) m found" for m
    by (induction found arbitrary: m) simp_all
  then show ?thesis by (simp add: maxTicket_def)
qed

text \<open>The ticket that a finished draw chooses is larger than every ticket it had to respect.\<close>

lemma inv_drawn:
  assumes inv: "lockInv s" and ph: "ls_phase s n = Drawing (Entries AtNext [] found)"
    and small: "1 + maxTicket found \<le> 2 ^ 53 - 1"
  shows "lockInv (goto n (Publishing (1 + maxTicket found)) s)"
proof (rule inv_move [OF inv, where n = n])
  have e: "engaged (ls_phase s n)" by (simp add: ph)
  show "engaged (Publishing (1 + maxTicket found)) \<longrightarrow> engaged (ls_phase s n) \<and>
      ls_claims (goto n (Publishing (1 + maxTicket found)) s) n = Some (claimOf (Publishing (1 + maxTicket found))) \<and>
      ticketSafe (Publishing (1 + maxTicket found))"
    using inv_engaged [OF inv e] small maxTicket_nonneg [of found] by (simp add: ph claimOf_def)
  have "earlier t p (1 + maxTicket found) n"
    if p: "p \<noteq> n" "passed (ls_phase s p) p n" "ticketOf (ls_phase s p) = Some t" for p t
  proof -
    have "yields p t (Drawing (Entries AtNext [] found)) n"
      using inv p unfolding lockInv_def orderOk_def by (metis ph)
    then obtain c v where "c \<in> set found" "rcl_ticket c = Some v" "t \<le> v" by auto
    then show ?thesis using maxTicket_ge by (fastforce simp: earlier_def)
  qed
  then show "\<forall>p t. p \<noteq> n \<longrightarrow> passed (ls_phase s p) p n \<longrightarrow> ticketOf (ls_phase s p) = Some t \<longrightarrow>
      yields p t (Publishing (1 + maxTicket found)) n"
    by simp
qed (use claims_made [OF inv] in \<open>auto simp: ph\<close>)

lemma inv_published:
  assumes inv: "lockInv s" and ph: "ls_phase s n = Publishing t"
  shows "lockInv (goto n (Checking t Unlisted) (setClaim n (Some (TicketNumber t)) s))"
proof (rule inv_move [OF inv, where n = n])
  have e: "engaged (ls_phase s n)" by (simp add: ph)
  note k = inv_engaged [OF inv e]
  show "\<forall>m. ls_claims (goto n (Checking t Unlisted) (setClaim n (Some (TicketNumber t)) s)) m \<noteq> None \<longrightarrow>
      m \<in> set (ls_made s)"
    using claims_made [OF inv] k(4) by auto
  show "engaged (Checking t Unlisted) \<longrightarrow> engaged (ls_phase s n) \<and>
      ls_claims (goto n (Checking t Unlisted) (setClaim n (Some (TicketNumber t)) s)) n = Some (claimOf (Checking t Unlisted)) \<and>
      ticketSafe (Checking t Unlisted)"
    using k(3) by (simp add: ph claimOf_def)
  have "yields p u (Publishing t) n"
    if "p \<noteq> n" "passed (ls_phase s p) p n" "ticketOf (ls_phase s p) = Some u" for p u
    using inv that unfolding lockInv_def orderOk_def by (metis ph)
  then show "\<forall>p u. p \<noteq> n \<longrightarrow> passed (ls_phase s p) p n \<longrightarrow> ticketOf (ls_phase s p) = Some u \<longrightarrow>
      yields p u (Checking t Unlisted) n"
    by simp
qed (simp_all add: ph)

text \<open>The election: nobody was seen who comes first or is still choosing.\<close>

lemma inv_judged:
  assumes inv: "lockInv s" and ph: "ls_phase s n = Checking t (Entries AtNext [] found)"
  shows "lockInv (goto n (judge expired t n found) s)"
proof -
  have tk: "ticketOf (ls_phase s n) = Some t" by (simp add: ph)
  consider (leave) e where "judge expired t n found = Unlinking e" | (again) "judge expired t n found = Checking t Unlisted"
    | (elected) "judge expired t n found = Examining t"
      "\<forall>c \<in> set found. rcl_name c \<noteq> n \<longrightarrow> \<not> precedes c t n \<and> rcl_ticket c \<noteq> None"
    by (fastforce simp: judge_def list_ex_iff Let_def split: if_splits)
  then show ?thesis
  proof cases
    case leave
    show ?thesis
      unfolding leave by (rule inv_leave [OF inv, where n = n]) (simp_all add: ph)
  next
    case again
    show ?thesis
      unfolding again
    proof (rule inv_move [OF inv, where n = n])
      have e: "engaged (ls_phase s n)" by (simp add: ph)
      note k = inv_engaged [OF inv e]
      show "engaged (Checking t Unlisted) \<longrightarrow> engaged (ls_phase s n) \<and>
          ls_claims (goto n (Checking t Unlisted) s) n = Some (claimOf (Checking t Unlisted)) \<and> ticketSafe (Checking t Unlisted)"
        using k(2,3) by (simp add: ph claimOf_def)
      have "yields p u (ls_phase s n) n"
        if "p \<noteq> n" "passed (ls_phase s p) p n" "ticketOf (ls_phase s p) = Some u" for p u
        using inv that unfolding lockInv_def orderOk_def by metis
      then show "\<forall>p u. p \<noteq> n \<longrightarrow> passed (ls_phase s p) p n \<longrightarrow> ticketOf (ls_phase s p) = Some u \<longrightarrow>
          yields p u (Checking t Unlisted) n"
        by (simp add: ph)
    qed (use claims_made [OF inv] in \<open>simp_all add: ph\<close>)
  next
    case elected
    have "yields n t (ls_phase s q) q" if q: "q \<noteq> n" for q
    proof -
      have "earlier t n u q" if "c \<in> set found" "rcl_name c = q" "rcl_ticket c = Some u" for c u
      proof -
        have "\<not> precedes c t n" using elected(2) that q by blast
        then have "\<not> (u < t \<or> u = t \<and> q < n)" using that by (simp add: precedes_def)
        then show ?thesis using q unfolding earlier_def by (metis linorder_neqE)
      qed
      moreover have "rcl_ticket c \<noteq> None" if "c \<in> set found" "rcl_name c = q" for c
        using elected(2) that q by auto
      ultimately have "clears n t q (Entries AtNext [] found)" by (simp, blast)
      then show ?thesis using inv q unfolding lockInv_def orderOk_def
        by (metis ph passed.simps(1) ticketOf.simps(1))
    qed
    then show ?thesis
      unfolding elected(1) by (intro inv_continue [OF inv tk]) simp_all
  qed
qed

end
