(* ===== verification/Runtime_Mutex.thy ===== *)
theory Runtime_Mutex
  imports Runtime_Lock
begin

text \<open>
  What the runtime lock of \<open>Runtime_Lock\<close> guarantees: every step keeps the order of the contenders, so two
  claims are never elected together; the lock file names its holder; the lock refines a mutex; and a lone
  contender recovers a lock whose holders have all ended.
\<close>

section \<open>Mutual exclusion\<close>

lemma inv_elected_step:
  assumes inv: "lockInv s" and e: "elected (ls_phase s n)" and ph: "scanOf ph = None"
    "ticketOf ph = ticketOf (ls_phase s n) \<or> \<not> engaged ph"
    and s': "ls_phase s' = (ls_phase s)(n := ph)" "ls_made s' = ls_made s" "ls_alive s' = ls_alive s" "ls_claims s' = ls_claims s"
  shows "lockInv s'"
proof -
  obtain t where t: "ticketOf (ls_phase s n) = Some t" using elected_ticket [OF e] by blast
  show ?thesis
  proof (cases "engaged ph")
    case True
    then have "ticketOf ph = Some t" using ph(2) t by simp
    then show ?thesis
      using inv_continue [OF inv t _ ph(1) _ s'] elected_clears [OF inv e t] by blast
  next
    case False
    have "ls_phase s n \<noteq> Idle" using t by auto
    then show ?thesis using inv_leave [OF inv _ False ph(1) s'(1-3)] s'(4) by simp
  qed
qed

lemma inv_contend_alone:
  assumes inv: "lockInv s" and ph: "ls_phase s n = ph" "scanOf ph = None" "\<forall>t. ph \<noteq> Publishing t"
    and step: "contend expired n ph s = Some s'"
  shows "lockInv s'"
proof (cases "elected ph")
  case True
  have "ls_phase s' = (ls_phase s)(n := ls_phase s' n)" using True step by (cases ph) auto
  moreover have "scanOf (ls_phase s' n) = None \<and> (ticketOf (ls_phase s' n) = ticketOf ph \<or> \<not> engaged (ls_phase s' n))"
    using True step by (cases ph) (auto simp: examine_def split: option.splits if_splits)
  moreover have "ls_made s' = ls_made s \<and> ls_alive s' = ls_alive s \<and> ls_claims s' = ls_claims s"
    using True step by (cases ph) auto
  ultimately show ?thesis using inv_elected_step [OF inv, of n] True ph(1) by metis
next
  case False
  then consider e where "ph = Unlinking e" "s' = goto n (Removing e) (unlinkTicket n s)"
    | e where "ph = Removing e" "s' = goto n (Ended e) (setClaim n None s)"
    using step ph(2,3) by (cases ph) auto
  then show ?thesis
  proof cases
    case 1
    show ?thesis unfolding 1(2) by (rule inv_leave [OF inv, where n = n]) (simp_all add: ph(1) 1(1))
  next
    case 2
    show ?thesis unfolding 2(2) by (rule inv_leave [OF inv, where n = n]) (simp_all add: ph(1) 2(1))
  qed
qed

lemma inv_contend:
  assumes inv: "lockInv s" and step: "contend expired n (ls_phase s n) s = Some s'"
  shows "lockInv s'"
proof -
  obtain ph where ph: "ls_phase s n = ph" by simp
  have step: "contend expired n ph s = Some s'" using step ph by simp
  show ?thesis
    using step ph
  proof (cases "(expired, n, ph, s)" rule: contend.cases)
    case (2 e m found s0)
    then have p: "ls_phase s n = Drawing (Entries AtNext [] found)" using ph by simp
    show ?thesis
    proof (cases "1 + maxTicket found \<le> 2 ^ 53 - 1")
      case True
      then have "s' = goto n (Publishing (1 + maxTicket found)) s"
        using 2 step maxTicket_nonneg [of found] by (simp add: Let_def)
      then show ?thesis using inv_drawn [OF inv p True] by simp
    next
      case False
      then have "s' = goto n (Unlinking (Refused CONTROL_RUNTIME_LOCK_FAILED)) s"
        using 2 step by (simp add: Let_def)
      then show ?thesis by (simp, intro inv_leave [OF inv, where n = n]) (simp_all add: p)
    qed
  qed (use inv_scanned_draw [OF inv, of n] inv_scanned_check [OF inv, of n] inv_published [OF inv, of n]
      inv_judged [OF inv, of n] in \<open>auto intro: inv_contend_alone [OF inv ph]\<close>)
qed

lemma inv_answered:
  assumes inv: "lockInv s" and a: "answered s names (ls_phase s n) = Some ph"
  shows "lockInv (goto n ph s)"
proof -
  have move: "lockInv (goto n (wrap (Entries AtNext names [])) s)"
    if ph: "ls_phase s n = wrap (Listing before)" and w: "wrap = Drawing \<or> wrap = Checking t"
      and l: "listed s before names" for wrap before t
  proof (rule inv_move [OF inv, where n = n])
    let ?new = "wrap (Entries AtNext names [])"
    have e: "engaged (ls_phase s n)" using w by (auto simp: ph)
    note k = inv_engaged [OF inv e]
    show "ls_phase s n \<noteq> Idle" using e by auto
    show "engaged ?new \<longrightarrow> engaged (ls_phase s n) \<and> ls_claims (goto n ?new s) n = Some (claimOf ?new) \<and> ticketSafe ?new"
      using k(2,3) w by (auto simp: ph claimOf_def)
    show "\<forall>sc. scanOf ?new = Some sc \<longrightarrow> scanNames sc \<subseteq> set (ls_made s) \<and>
        (\<forall>m \<in> reclaims sc. m \<noteq> n \<longrightarrow> \<not> engaged (ls_phase s m)) \<and> n \<notin> reclaims sc"
      using w l by (auto simp: listed_def list_all_iff)
    have there: "ls_claims s m = None" if "m \<in> set before" "m \<notin> set names" for m
      using l that by (auto simp: listed_def list_all_iff)
    show "\<forall>q u. q \<noteq> n \<longrightarrow> passed ?new n q \<longrightarrow> ticketOf ?new = Some u \<longrightarrow> yields n u (ls_phase s q) q"
    proof (intro allI impI)
      fix q u assume q: "q \<noteq> n" "passed ?new n q" "ticketOf ?new = Some u"
      then have c: "wrap = Checking t" "q \<notin> set names" "u = t" using w by auto
      show "yields n u (ls_phase s q) q"
      proof (cases "q \<in> set before")
        case True
        show ?thesis by (rule missing_yields [OF inv there [OF True c(2)]])
      next
        case False
        then have "passed (ls_phase s n) n q" "ticketOf (ls_phase s n) = Some t" using c(1) ph by simp_all
        then show ?thesis unfolding c(3) by (rule inv_order [OF inv not_sym [OF q(1)]])
      qed
    qed
    show "\<forall>p u. p \<noteq> n \<longrightarrow> passed (ls_phase s p) p n \<longrightarrow> ticketOf (ls_phase s p) = Some u \<longrightarrow> yields p u ?new n"
    proof (intro allI impI)
      fix p u assume p: "p \<noteq> n" "passed (ls_phase s p) p n" "ticketOf (ls_phase s p) = Some u"
      have y: "yields p u (wrap (Listing before)) n"
        using inv p unfolding lockInv_def orderOk_def by (metis ph)
      have some: "ls_claims s p \<noteq> None" using inv_engaged(2) [OF inv ticketOf_engaged [OF p(3)]] by simp
      have "p \<in> set names" if "p \<in> set before"
        by (rule ccontr) (use there [OF that] some in simp)
      then show "yields p u ?new n" using y w by auto
    qed
  qed (use claims_made [OF inv] in auto)
  show ?thesis
    using a
    by (cases "(s, names, ls_phase s n)" rule: answered.cases)
      (auto split: if_splits intro: move [where wrap = Drawing] move [where wrap = "Checking t" for t])
qed

lemma inv_rescanned:
  assumes inv: "lockInv s" and a: "rescanned (ls_phase s n) = Some ph"
  shows "lockInv (goto n ph s)"
proof (rule inv_move [OF inv, where n = n])
  obtain sc where w: "(ls_phase s n = Drawing sc \<and> ph = Drawing Unlisted) \<or>
      (\<exists>t. ls_phase s n = Checking t sc \<and> ph = Checking t Unlisted)"
    using a by (cases "ls_phase s n" rule: rescanned.cases) auto
  have e: "engaged (ls_phase s n)" using w by auto
  note k = inv_engaged [OF inv e]
  show "ls_phase s n \<noteq> Idle" using e by auto
  show "engaged ph \<longrightarrow> engaged (ls_phase s n) \<and> ls_claims (goto n ph s) n = Some (claimOf ph) \<and> ticketSafe ph"
    using k(2,3) w by (auto simp: claimOf_def)
  show "\<forall>q u. q \<noteq> n \<longrightarrow> passed ph n q \<longrightarrow> ticketOf ph = Some u \<longrightarrow> yields n u (ls_phase s q) q"
    using w by auto
  have "yields p u (ls_phase s n) n" if "p \<noteq> n" "passed (ls_phase s p) p n" "ticketOf (ls_phase s p) = Some u" for p u
    using inv that unfolding lockInv_def orderOk_def by metis
  then show "\<forall>p u. p \<noteq> n \<longrightarrow> passed (ls_phase s p) p n \<longrightarrow> ticketOf (ls_phase s p) = Some u \<longrightarrow> yields p u ph n"
    using w by fastforce
qed (use claims_made [OF inv] a in \<open>auto elim!: rescanned.elims\<close>)

lemma inv_begin:
  assumes inv: "lockInv s" and pid: "claimPid n = Some pid" "processExists s pid"
    and new: "n \<notin> set (ls_made s)"
    and s': "ls_phase s' = (ls_phase s)(n := Drawing Unlisted)" "ls_claims s' = (ls_claims s)(n := Some TicketAbsent)"
      "ls_made s' = n # ls_made s" "ls_alive s' = ls_alive s"
  shows "lockInv s'"
proof -
  have i: "madeOk s" "engagedOk s" "reclaimOk s" "orderOk s" using inv by (simp_all add: lockInv_def)
  have idle: "ls_phase s n = Idle" using i(1) new by (auto simp: madeOk_def)
  have "madeOk s'" using i(1) by (fastforce simp: madeOk_def s')
  moreover have "engagedOk s'"
    using i(2) pid by (auto simp: engagedOk_def s' runs_def processExists_def claimOf_def)
  moreover have "reclaimOk s'"
    unfolding reclaimOk_def
  proof (intro allI impI)
    fix k sc m assume k: "scanOf (ls_phase s' k) = Some sc" "m \<in> reclaims sc"
    then have kn: "k \<noteq> n" "scanOf (ls_phase s k) = Some sc" by (auto simp: s' split: if_splits)
    have "reclaims sc \<subseteq> scanNames sc" by (cases sc rule: reclaims.cases) auto
    moreover have "scanNames sc \<subseteq> set (ls_made s)" using i(1) kn(2) by (simp add: madeOk_def)
    ultimately have "m \<in> set (ls_made s)" using k(2) by blast
    then have "m \<noteq> n" using new by blast
    then show "\<not> engaged (ls_phase s' m)" using i(3) kn(2) k(2) by (auto simp: s' reclaimOk_def)
  qed
  moreover have "orderOk s'" using i(4) by (auto simp: orderOk_def s')
  ultimately show ?thesis by (simp add: lockInv_def)
qed

lemma inv_step:
  assumes inv: "lockInv s" and step: "lockStep e s = Some s'"
  shows "lockInv s'"
proof (cases e)
  case (Begin n i)
  then obtain pid where "claimPid n = Some pid" "processExists s pid" "n \<notin> set (ls_made s)"
    "s' = goto n (Drawing Unlisted) (setClaim n (Some TicketAbsent) (s\<lparr>ls_made := n # ls_made s, ls_instance := (ls_instance s)(n := i)\<rparr>))"
    using step by (auto split: option.splits if_splits)
  then show ?thesis using inv_begin [OF inv, of n pid] by simp
next
  case (Run n)
  then show ?thesis using inv_contend [OF inv] step by simp
next
  case (Expire n)
  then show ?thesis using inv_contend [OF inv] step by simp
next
  case (Answer n names)
  then show ?thesis using inv_answered [OF inv] step by auto
next
  case (Rescan n)
  then show ?thesis using inv_rescanned [OF inv] step by auto
next
  case (Fault n)
  then obtain ph where ph: "faulted (ls_phase s n) = Some ph" "s' = goto n ph s" using step by auto
  have "\<not> engaged ph" "scanOf ph = None" "ls_phase s n \<noteq> Idle" using ph(1) by (auto elim: faulted.elims)
  then show ?thesis unfolding ph(2) using inv_leave [OF inv] by simp
next
  case (Release n)
  then obtain t where t: "ls_phase s n = Holding t" "s' = goto n (ReleaseRead t) s"
    using step by (auto split: lockPhase.splits)
  then show ?thesis using inv_elected_step [OF inv, of n "ReleaseRead t"] by simp
next
  case (Spawn pid)
  have s': "s' = s\<lparr>ls_alive := pid # ls_alive s\<rparr>" using step Spawn by simp
  have "madeOk s' = madeOk s" "reclaimOk s' = reclaimOk s" "orderOk s' = orderOk s"
    by (simp_all add: s' madeOk_def reclaimOk_def orderOk_def)
  moreover have "engagedOk s \<longrightarrow> engagedOk s'" by (auto simp: s' engagedOk_def runs_def)
  ultimately show ?thesis using inv by (simp add: lockInv_def)
next
  case (Die pid)
  have i: "madeOk s" "engagedOk s" "reclaimOk s" "orderOk s" using inv by (simp_all add: lockInv_def)
  have c: "ls_claims s' = ls_claims s" "ls_made s' = ls_made s" using step Die by auto
  have k: "ls_phase s' m = ls_phase s m \<and> (engaged (ls_phase s m) \<longrightarrow> claimPid m \<noteq> Some pid) \<or>
      ls_phase s' m = Ended Died \<and> ls_phase s m \<noteq> Idle" for m
    using step Die by (cases "ls_phase s m") auto
  have "madeOk s'" using i(1) k c unfolding madeOk_def by (metis option.distinct(1) scanOf.simps(13))
  moreover have "engagedOk s'"
    unfolding engagedOk_def
  proof (intro allI impI)
    fix m assume e: "engaged (ls_phase s' m)"
    then have p: "ls_phase s' m = ls_phase s m" "claimPid m \<noteq> Some pid" using k [of m] by auto
    then have "runs s' m" using i(2) e step Die by (auto simp: engagedOk_def runs_def)
    then show "runs s' m \<and> ls_claims s' m = Some (claimOf (ls_phase s' m)) \<and> ticketSafe (ls_phase s' m)"
      using i(2) e p(1) c by (simp add: engagedOk_def)
  qed
  moreover have "reclaimOk s'"
    unfolding reclaimOk_def
  proof (intro allI impI)
    fix n sc m assume a: "scanOf (ls_phase s' n) = Some sc" "m \<in> reclaims sc"
    then have "scanOf (ls_phase s n) = Some sc" using k [of n] by auto
    then have "\<not> engaged (ls_phase s m)" using a(2) i(3) by (simp add: reclaimOk_def)
    then show "\<not> engaged (ls_phase s' m)" using k [of m] by auto
  qed
  moreover have "orderOk s'"
    unfolding orderOk_def
  proof (intro allI impI)
    fix p q t assume a: "p \<noteq> q" "passed (ls_phase s' p) p q" "ticketOf (ls_phase s' p) = Some t"
    then have "ls_phase s' p = ls_phase s p" using k [of p] by auto
    then have "yields p t (ls_phase s q) q" using a i(4) by (simp add: orderOk_def)
    then show "yields p t (ls_phase s' q) q" using k [of q] by auto
  qed
  ultimately show ?thesis by (simp add: lockInv_def)
qed

section \<open>The lock file\<close>

fun inCharge :: "lockPhase \<Rightarrow> bool" where
  "inCharge (Written t) = True"
| "inCharge (Holding t) = True"
| "inCharge (ReleaseRead t) = True"
| "inCharge (ReleaseRemove t) = True"
| "inCharge ph = False"

definition lockHeld :: "lockState \<Rightarrow> bool" where
  "lockHeld s \<longleftrightarrow> (\<forall>n. inCharge (ls_phase s n) \<longrightarrow> ls_lock s = Some (ownLock s n))"

lemma inCharge_elected: "inCharge ph \<Longrightarrow> elected ph"
  by (cases ph) simp_all

lemma scanned_frame:
  assumes "wrap = Drawing \<or> wrap = Checking t"
  shows "ls_instance (scanned wrap n sc s) = ls_instance s \<and> ls_lock (scanned wrap n sc s) = ls_lock s \<and>
    ls_phase (scanned wrap n sc s) = (ls_phase s)(n := ls_phase (scanned wrap n sc s) n) \<and>
    \<not> inCharge (ls_phase (scanned wrap n sc s) n)"
proof (cases "scanRun s sc")
  case (Pair r s')
  show ?thesis using scanRun_frame [OF Pair] assms by (cases r) (auto simp: scanned_def Pair)
qed

lemma contend_frame:
  assumes "contend expired n ph s = Some s'"
  shows "ls_instance s' = ls_instance s \<and> ls_phase s' = (ls_phase s)(n := ls_phase s' n) \<and>
    (elected ph \<or> ls_lock s' = ls_lock s) \<and>
    (inCharge (ls_phase s' n) \<longrightarrow> ls_lock s' = Some (ownLock s n) \<or> inCharge ph \<and> ls_lock s' = ls_lock s)"
  using assms
  by (cases "(expired, n, ph, s)" rule: contend.cases)
    (use scanned_frame [of Drawing] scanned_frame [of "Checking t" t for t] in
      \<open>auto simp: Let_def judge_def examine_def split: option.splits if_splits\<close>)

lemma ownLock_cong: "ls_instance s' n = ls_instance s n \<Longrightarrow> ownLock s' n = ownLock s n"
  by (simp add: ownLock_def split: option.split)

lemma held_move:
  assumes inv: "lockInv s" and held: "lockHeld s"
    and s': "ls_instance s' = ls_instance s" "ls_phase s' = (ls_phase s)(n := ph)"
    and lock: "elected (ls_phase s n) \<or> ls_lock s' = ls_lock s"
    and own: "inCharge ph \<longrightarrow> ls_lock s' = Some (ownLock s n) \<or> inCharge (ls_phase s n) \<and> ls_lock s' = ls_lock s"
  shows "lockHeld s'"
  unfolding lockHeld_def
proof (intro allI impI)
  fix m assume m: "inCharge (ls_phase s' m)"
  have o: "ownLock s' m = ownLock s m" by (rule ownLock_cong) (simp add: s'(1))
  show "ls_lock s' = Some (ownLock s' m)"
  proof (cases "m = n")
    case True
    have "inCharge ph" using m True by (simp add: s'(2))
    then consider "ls_lock s' = Some (ownLock s n)" | "inCharge (ls_phase s n)" "ls_lock s' = ls_lock s"
      using own by blast
    then show ?thesis
    proof cases
      case 2
      then have "ls_lock s = Some (ownLock s n)" using held unfolding lockHeld_def by simp
      then show ?thesis using 2(2) o True by simp
    qed (use o True in simp)
  next
    case False
    then have p: "inCharge (ls_phase s m)" using m by (simp add: s'(2))
    then have "\<not> elected (ls_phase s n)" using inv_exclusive [OF inv False] inCharge_elected by blast
    then show ?thesis using lock p held o by (simp add: lockHeld_def)
  qed
qed

lemma held_step:
  assumes inv: "lockInv s" and held: "lockHeld s" and step: "lockStep e s = Some s'"
  shows "lockHeld s'"
proof (cases e)
  case (Begin n i)
  then have s': "ls_phase s' = (ls_phase s)(n := Drawing Unlisted)" "ls_lock s' = ls_lock s"
      "ls_instance s' = (ls_instance s)(n := i)"
    using step by (auto split: option.splits if_splits)
  show ?thesis
    unfolding lockHeld_def
  proof (intro allI impI)
    fix m assume m: "inCharge (ls_phase s' m)"
    then have "m \<noteq> n" and "inCharge (ls_phase s m)" by (auto simp: s' split: if_splits)
    moreover have "ownLock s' m = ownLock s m" by (rule ownLock_cong) (simp add: s' \<open>m \<noteq> n\<close>)
    ultimately show "ls_lock s' = Some (ownLock s' m)" using held by (simp add: lockHeld_def s'(2))
  qed
next
  case (Run n)
  then have "contend False n (ls_phase s n) s = Some s'" using step by simp
  from contend_frame [OF this] show ?thesis by (elim conjE) (rule held_move [OF inv held])
next
  case (Expire n)
  then have "contend True n (ls_phase s n) s = Some s'" using step by simp
  from contend_frame [OF this] show ?thesis by (elim conjE) (rule held_move [OF inv held])
next
  case (Answer n names)
  then obtain ph where "answered s names (ls_phase s n) = Some ph" "s' = goto n ph s" using step by auto
  then show ?thesis using held_move [OF inv held, of s' n ph]
    by (auto elim!: answered.elims split: if_splits)
next
  case (Rescan n)
  then obtain ph where "rescanned (ls_phase s n) = Some ph" "s' = goto n ph s" using step by auto
  then show ?thesis using held_move [OF inv held, of s' n ph] by (auto elim!: rescanned.elims)
next
  case (Fault n)
  then obtain ph where "faulted (ls_phase s n) = Some ph" "s' = goto n ph s" using step by auto
  then show ?thesis using held_move [OF inv held, of s' n ph] by (auto elim!: faulted.elims)
next
  case (Release n)
  then obtain t where "ls_phase s n = Holding t" "s' = goto n (ReleaseRead t) s"
    using step by (auto split: lockPhase.splits)
  then show ?thesis using held_move [OF inv held, of s' n "ReleaseRead t"] by simp
next
  case (Spawn pid)
  then have i: "ls_instance s' = ls_instance s" and "ls_phase s' = ls_phase s" "ls_lock s' = ls_lock s"
    using step by auto
  moreover have "ownLock s' m = ownLock s m" for m by (rule ownLock_cong) (simp add: i)
  ultimately show ?thesis using held by (simp add: lockHeld_def)
next
  case (Die pid)
  then have i: "ls_instance s' = ls_instance s" and "ls_lock s' = ls_lock s"
    and "inCharge (ls_phase s' m) \<longrightarrow> inCharge (ls_phase s m)" for m
    using step by (auto split: if_splits)
  moreover have "ownLock s' m = ownLock s m" for m by (rule ownLock_cong) (simp add: i)
  ultimately show ?thesis using held by (simp add: lockHeld_def)
qed

lemma run_inv:
  assumes "lockInitial s0" "lockRun es s0 = Some s"
  shows "lockInv s \<and> lockHeld s"
proof -
  have "lockInv s \<Longrightarrow> lockHeld s \<Longrightarrow> lockRun es s = Some s' \<Longrightarrow> lockInv s' \<and> lockHeld s'" for s s'
  proof (induction es arbitrary: s)
    case (Cons e es)
    obtain s1 where s1: "lockStep e s = Some s1" "lockRun es s1 = Some s'" using Cons.prems(3) by (auto split: option.splits)
    show ?case
      using Cons.IH [OF inv_step [OF Cons.prems(1) s1(1)] held_step [OF Cons.prems(1,2) s1(1)] s1(2)] .
  qed simp
  moreover have "lockInv s0 \<and> lockHeld s0"
    using assms(1) by (simp add: lockInitial_def lockInv_def madeOk_def engagedOk_def reclaimOk_def orderOk_def lockHeld_def)
  ultimately show ?thesis using assms(2) by blast
qed

text \<open>C24. However the steps of the contenders interleave, whatever calls fail, whichever processes end and whichever
  process ids are used again: two claims are never elected at the same time, and while a runtime holds
  the lock its process runs and the lock file names it.\<close>

theorem runtime_lock_exclusive:
  assumes "lockInitial s0" "lockRun es s0 = Some s"
  shows "(elected (ls_phase s p) \<and> elected (ls_phase s q) \<longrightarrow> p = q) \<and>
    (ls_phase s p = Holding t \<longrightarrow> ls_lock s = Some (ownLock s p) \<and> runs s p)"
proof -
  note i = run_inv [OF assms]
  have "p = q" if "elected (ls_phase s p)" "elected (ls_phase s q)"
    using inv_exclusive [of s p q] i that by blast
  moreover have "ls_lock s = Some (ownLock s p) \<and> runs s p" if "ls_phase s p = Holding t"
    using i that inv_engaged(1) [of s p] by (auto simp: lockHeld_def)
  ultimately show ?thesis by blast
qed

section \<open>The mutex it implements\<close>

inductive mutexStep :: "claimName option \<Rightarrow> claimName option \<Rightarrow> bool" where
  acquire: "mutexStep None (Some n)"
| release: "mutexStep (Some n) None"

inductive_simps mutexStep_simps [simp]: "mutexStep None h" "mutexStep (Some n) h"

definition elector :: "lockState \<Rightarrow> claimName option \<Rightarrow> bool" where
  "elector s h \<longleftrightarrow> (\<forall>n. elected (ls_phase s n) \<longleftrightarrow> h = Some n)"

lemma step_changes:
  assumes "lockStep e s = Some s'"
  shows "(\<exists>n. \<forall>m. m \<noteq> n \<longrightarrow> ls_phase s' m = ls_phase s m) \<or>
    (\<forall>m. elected (ls_phase s' m) \<longrightarrow> elected (ls_phase s m))"
proof -
  have contend: "\<exists>n. \<forall>m. m \<noteq> n \<longrightarrow> ls_phase s' m = ls_phase s m" if "contend x n ph s = Some s'" for x n ph
  proof -
    have "ls_phase s' = (ls_phase s)(n := ls_phase s' n)" using contend_frame [OF that] by blast
    then have "\<forall>m. m \<noteq> n \<longrightarrow> ls_phase s' m = ls_phase s m" by (metis fun_upd_other)
    then show ?thesis by blast
  qed
  have moved: "\<exists>n. \<forall>m. m \<noteq> n \<longrightarrow> ls_phase (goto n' ph s) m = ls_phase s m" for n' ph
    by (rule exI [of _ n']) simp
  show ?thesis
  proof (cases e)
    case (Begin n i)
    then show ?thesis using assms by (auto split: option.splits if_splits)
  next
    case (Die pid)
    then show ?thesis using assms by (auto split: if_splits)
  qed (use assms contend moved in \<open>auto split: lockPhase.splits\<close>)
qed

lemma inv_elector: "lockInv s \<Longrightarrow> \<exists>h. elector s h"
  unfolding elector_def using inv_exclusive by (metis option.inject option.distinct(1))

text \<open>C25. The lock is a mutex: at every moment there is one elected claim or none, and every step of the
  protocol leaves it so, acquires the free mutex or releases it; it is never handed from one claim to another.\<close>

theorem runtime_lock_refines_mutex:
  assumes "lockInitial s0" "lockRun es s0 = Some s" "lockStep e s = Some s'"
  shows "\<exists>h h'. elector s h \<and> elector s' h' \<and> (h' = h \<or> mutexStep h h')"
proof -
  have inv: "lockInv s" using run_inv [OF assms(1,2)] by blast
  have inv': "lockInv s'" using inv_step [OF inv assms(3)] .
  obtain h h' where h: "elector s h" "elector s' h'" using inv_elector inv inv' by blast
  have "p = q" if "h = Some p" "h' = Some q" for p q
  proof (rule ccontr)
    assume n: "p \<noteq> q"
    have e: "elected (ls_phase s p)" "elected (ls_phase s' q)" "\<not> elected (ls_phase s q)" "\<not> elected (ls_phase s' p)"
      using h that n by (simp_all add: elector_def)
    from step_changes [OF assms(3)] consider
        k where "\<forall>m. m \<noteq> k \<longrightarrow> ls_phase s' m = ls_phase s m"
      | "\<forall>m. elected (ls_phase s' m) \<longrightarrow> elected (ls_phase s m)"
      by blast
    then show False
    proof cases
      case 1
      show False using 1 [rule_format, of p] 1 [rule_format, of q] e n by (cases "p = k") auto
    next
      case 2
      then show False using e by blast
    qed
  qed
  note same = this
  have "h' = h \<or> mutexStep h h'"
  proof (cases h)
    case None
    then show ?thesis by (cases h') simp_all
  next
    case (Some p)
    then show ?thesis using same [OF Some] by (cases h') simp_all
  qed
  then show ?thesis using h by blast
qed

section \<open>A lone contender acquires the lock\<close>

text \<open>Steps of one contender and answers of the file system to it.\<close>

definition alone :: "claimName \<Rightarrow> lockState \<Rightarrow> lockState \<Rightarrow> bool" where
  "alone n s s' \<longleftrightarrow> (\<exists>es. (\<forall>e \<in> set es. e = Run n \<or> (\<exists>names. e = Answer n names)) \<and> lockRun es s = Some s')"

lemma lockRun_append: "lockRun (es @ fs) s = (case lockRun es s of None \<Rightarrow> None | Some s' \<Rightarrow> lockRun fs s')"
  by (induction es arbitrary: s) (simp_all split: option.split)

lemma alone_refl: "alone n s s"
  unfolding alone_def by (rule exI [of _ "[]"]) simp

lemma alone_trans: "alone n s s1 \<Longrightarrow> alone n s1 s2 \<Longrightarrow> alone n s s2"
  unfolding alone_def
proof (elim exE conjE)
  fix es fs
  assume a: "\<forall>e \<in> set es. e = Run n \<or> (\<exists>names. e = Answer n names)" "lockRun es s = Some s1"
    "\<forall>e \<in> set fs. e = Run n \<or> (\<exists>names. e = Answer n names)" "lockRun fs s1 = Some s2"
  show "\<exists>es. (\<forall>e \<in> set es. e = Run n \<or> (\<exists>names. e = Answer n names)) \<and> lockRun es s = Some s2"
    by (rule exI [of _ "es @ fs"]) (use a in \<open>auto simp: lockRun_append\<close>)
qed

lemma alone_run: "contend False n (ls_phase s n) s = Some s' \<Longrightarrow> alone n s s'"
  unfolding alone_def by (rule exI [of _ "[Run n]"]) simp

lemma alone_answer: "answered s names (ls_phase s n) = Some ph \<Longrightarrow> alone n s (goto n ph s)"
  unfolding alone_def by (rule exI [of _ "[Answer n names]"]) simp

definition dead :: "lockState \<Rightarrow> claimName \<Rightarrow> bool" where
  "dead s m \<longleftrightarrow> (\<exists>pid. claimPid m = Some pid \<and> \<not> processExists s pid)"

definition others :: "lockState \<Rightarrow> lockState \<Rightarrow> claimName \<Rightarrow> bool" where
  "others s s' n \<longleftrightarrow> ls_made s' = ls_made s \<and> ls_alive s' = ls_alive s \<and> ls_lock s' = ls_lock s \<and>
     ls_instance s' = ls_instance s \<and> (\<forall>m. m \<noteq> n \<longrightarrow> ls_phase s' m = ls_phase s m)"

lemma others_trans: "others s s1 n \<Longrightarrow> others s1 s2 n \<Longrightarrow> others s s2 n"
  by (simp add: others_def)

lemma others_dead: "others s s' n \<Longrightarrow> dead s' m \<longleftrightarrow> dead s m"
  by (simp add: others_def dead_def processExists_def)

lemma scan_alone:
  assumes "wrap = Drawing \<or> wrap = Checking t" "ls_phase s n = wrap sc" "scanRun s sc = (Inr sc', s')"
    "sc \<noteq> Unlisted \<longrightarrow> (\<exists>pt rest found. sc = Entries pt rest found \<and> (pt = AtNext \<longrightarrow> rest \<noteq> []))"
  shows "alone n s (goto n (wrap sc') s')"
proof (rule alone_run)
  have "contend False n (wrap sc) s = Some (scanned wrap n sc s)"
  proof (cases sc)
    case (Entries pt rest found)
    then show ?thesis using assms(1,4) by (cases pt; cases rest) auto
  qed (use assms(1,4) in auto)
  then show "contend False n (ls_phase s n) s = Some (goto n (wrap sc') s')"
    using assms(2,3) by (simp add: scanned_def)
qed

text \<open>Claims of ended processes are removed.\<close>

lemma sweep_one:
  assumes w: "wrap = Drawing \<or> wrap = Checking t" and ph: "ls_phase s n = wrap (Entries AtNext (m # rest) found)"
    and d: "dead s m"
  shows "\<exists>s'. alone n s s' \<and> others s s' n \<and> ls_phase s' n = wrap (Entries AtNext rest found) \<and>
    ls_claims s' = (ls_claims s)(m := None)"
proof -
  obtain pid where pid: "claimPid m = Some pid" "\<not> processExists s pid" using d by (auto simp: dead_def)
  let ?s1 = "goto n (wrap (Entries (AtUnlink m) rest found)) s"
  let ?s2 = "goto n (wrap (Entries (AtRmdir m) rest found)) (unlinkTicket m ?s1)"
  let ?s3 = "goto n (wrap (Entries AtNext rest found)) (setClaim m None ?s2)"
  have "alone n s ?s1" by (rule scan_alone [OF w ph]) (simp_all add: pid)
  moreover have "alone n ?s1 ?s2" by (rule scan_alone [OF w, where sc = "Entries (AtUnlink m) rest found"]) simp_all
  moreover have "alone n ?s2 ?s3" by (rule scan_alone [OF w, where sc = "Entries (AtRmdir m) rest found"]) simp_all
  ultimately have "alone n s ?s3" using alone_trans by blast
  moreover have "ls_claims ?s3 = (ls_claims s)(m := None)" by (auto simp: unlinkTicket_def)
  ultimately show ?thesis by (intro exI [of _ ?s3]) (simp add: others_def)
qed

lemma sweep:
  assumes w: "wrap = Drawing \<or> wrap = Checking t"
  shows "ls_phase s n = wrap (Entries AtNext rest found) \<Longrightarrow> \<forall>m \<in> set rest. dead s m \<Longrightarrow>
    \<exists>s'. alone n s s' \<and> others s s' n \<and> ls_phase s' n = wrap (Entries AtNext [] found) \<and>
      ls_claims s' = (\<lambda>m. if m \<in> set rest then None else ls_claims s m)"
proof (induction rest arbitrary: s)
  case Nil
  then show ?case by (intro exI [of _ s]) (simp add: alone_refl others_def)
next
  case (Cons m rest)
  have dm: "dead s m" using Cons.prems(2) by simp
  obtain s1 where s1: "alone n s s1" "others s s1 n" "ls_phase s1 n = wrap (Entries AtNext rest found)"
      "ls_claims s1 = (ls_claims s)(m := None)"
    using sweep_one [OF w Cons.prems(1) dm] by blast
  have "\<forall>k \<in> set rest. dead s1 k" using Cons.prems(2) by (simp add: others_dead [OF s1(2)])
  from Cons.IH [OF s1(3) this] obtain s2 where s2: "alone n s1 s2" "others s1 s2 n"
      "ls_phase s2 n = wrap (Entries AtNext [] found)"
      "ls_claims s2 = (\<lambda>k. if k \<in> set rest then None else ls_claims s1 k)"
    by blast
  have "ls_claims s2 = (\<lambda>k. if k \<in> set (m # rest) then None else ls_claims s k)"
    unfolding s2(4) s1(4) by auto
  then show ?case
    using alone_trans [OF s1(1) s2(1)] others_trans [OF s1(2) s2(2)] s2(3) by blast
qed

text \<open>A whole scan that finds only the contender's own claim.\<close>

lemma scan_own:
  assumes w: "wrap = Drawing \<or> wrap = Checking t" and ph: "ls_phase s n = wrap Unlisted"
    and pid: "claimPid n = Some pid" "processExists s pid" "n \<in> set (ls_made s)"
    and own: "ls_claims s n = Some TicketAbsent \<and> found = [\<lparr>rcl_name = n, rcl_ticket = None\<rparr>] \<or>
      (\<exists>u. ls_claims s n = Some (TicketNumber u) \<and> 1 \<le> u \<and> u \<le> 2 ^ 53 - 1 \<and> found = [\<lparr>rcl_name = n, rcl_ticket = Some u\<rparr>])"
    and rest: "\<forall>m \<in> set (present s). m = n \<or> dead s m"
  shows "\<exists>s'. alone n s s' \<and> others s s' n \<and> ls_phase s' n = wrap (Entries AtNext [] found) \<and>
    ls_claims s' n = ls_claims s n \<and> (\<forall>m. m \<noteq> n \<longrightarrow> m \<in> set (ls_made s) \<longrightarrow> ls_claims s' m = None)"
proof -
  let ?rest = "filter (\<lambda>m. m \<noteq> n) (present s)"
  let ?s1 = "goto n (wrap (Listing (present s))) s"
  let ?s2 = "goto n (wrap (Entries AtNext (n # ?rest) [])) ?s1"
  let ?s3 = "goto n (wrap (Entries (AtTicket n) ?rest [])) ?s2"
  have a1: "alone n s ?s1" by (rule scan_alone [OF w ph]) simp_all
  have a2: "alone n ?s1 ?s2"
    by (rule alone_answer) (use w pid(3) in \<open>auto simp: listed_def list_all_iff present_def\<close>)
  have a3: "alone n ?s2 ?s3"
    by (rule scan_alone [OF w, where sc = "Entries AtNext (n # ?rest) []"]) (use pid in \<open>simp_all add: processExists_def\<close>)
  have "\<exists>s4. alone n ?s3 s4 \<and> others ?s3 s4 n \<and> ls_phase s4 n = wrap (Entries AtNext ?rest found) \<and>
      ls_claims s4 = ls_claims ?s3"
  proof -
    consider (absent) "ls_claims s n = Some TicketAbsent" "found = [\<lparr>rcl_name = n, rcl_ticket = None\<rparr>]"
      | (number) u where "ls_claims s n = Some (TicketNumber u)" "1 \<le> u" "u \<le> 2 ^ 53 - 1"
          "found = [\<lparr>rcl_name = n, rcl_ticket = Some u\<rparr>]"
      using own by blast
    then show ?thesis
    proof cases
      case absent
      let ?a = "goto n (wrap (Entries (AtStat n) ?rest [])) ?s3"
      have a: "alone n ?s3 ?a"
        by (rule scan_alone [OF w, where sc = "Entries (AtTicket n) ?rest []"]) (use absent in \<open>simp_all add: scanTicket_def\<close>)
      have b: "alone n ?a (goto n (wrap (Entries AtNext ?rest found)) ?a)"
        by (rule scan_alone [OF w, where sc = "Entries (AtStat n) ?rest []"]) (use absent in simp_all)
      show ?thesis
        by (intro exI [of _ "goto n (wrap (Entries AtNext ?rest found)) ?a"] conjI alone_trans [OF a b])
          (simp_all add: others_def)
    next
      case number
      have "alone n ?s3 (goto n (wrap (Entries AtNext ?rest found)) ?s3)"
        by (rule scan_alone [OF w, where sc = "Entries (AtTicket n) ?rest []"]) (use number in \<open>simp_all add: scanTicket_def\<close>)
      then show ?thesis
        by (intro exI [of _ "goto n (wrap (Entries AtNext ?rest found)) ?s3"]) (simp add: others_def)
    qed
  qed
  then obtain s4 where a4: "alone n ?s3 s4" and o4: "others ?s3 s4 n"
      and s4: "ls_phase s4 n = wrap (Entries AtNext ?rest found)" "ls_claims s4 = ls_claims ?s3"
    by blast
  have r4: "alone n s s4" by (rule alone_trans [OF a1 alone_trans [OF a2 alone_trans [OF a3 a4]]])
  have "others s ?s3 n" by (simp add: others_def)
  note e4 = others_trans [OF this o4]
  have "\<forall>m \<in> set ?rest. dead s4 m" using rest by (auto simp: others_dead [OF e4])
  from sweep [OF w s4(1) this] obtain s5 where s5: "alone n s4 s5" "others s4 s5 n"
      "ls_phase s5 n = wrap (Entries AtNext [] found)"
      "ls_claims s5 = (\<lambda>m. if m \<in> set ?rest then None else ls_claims s4 m)"
    by blast
  have "\<forall>m. m \<noteq> n \<longrightarrow> m \<in> set (ls_made s) \<longrightarrow> ls_claims s5 m = None"
    unfolding s5(4) s4(2) by (simp add: present_iff)
  moreover have "ls_claims s5 n = ls_claims s n" unfolding s5(4) s4(2) by simp
  ultimately show ?thesis
    using alone_trans [OF r4 s5(1)] others_trans [OF e4 s5(2)] s5(3) by blast
qed

lemma alone_goto:
  "contend False n ph s = Some (goto n ph' s') \<Longrightarrow> ls_phase s n = ph \<Longrightarrow> alone n s (goto n ph' s')"
  using alone_run by simp


section \<open>A run of the lock\<close>

definition nonce :: "string \<Rightarrow> claimName" where
  "nonce pid = js pid @ js ''-0123456789abcdef0123456789abcdef''"

text \<open>Process 7 has died with the lock; processes 11 and 12 contend.\<close>

definition exLock :: lockState where
  "exLock = \<lparr>ls_claims = (\<lambda>n. if n = nonce ''7'' then Some (TicketNumber 1) else None), ls_made = [nonce ''7''],
     ls_alive = [11, 12], ls_lock = Some \<lparr>lf_text = lockContent (js ''old'') 7, lf_pid = Some 7\<rparr>,
     ls_instance = (\<lambda>n. []), ls_phase = (\<lambda>n. Idle)\<rparr>"

lemma nonce_pid: "claimPid (nonce ''7'') = Some 7" "claimPid (nonce ''11'') = Some 11"
  by code_simp+

lemma nonce_distinct: "nonce ''11'' \<noteq> nonce ''7''" by code_simp


theorem runtime_lock_exclusive_witness:
  "\<exists>s. lockRun [Begin (nonce ''11'') (js ''new''), Spawn 13] exLock = Some s \<and>
    \<not> (elected (ls_phase s (nonce ''11'')) \<and> elected (ls_phase s (nonce ''7'')))"
proof -
  have i: "lockInitial exLock" by (simp add: lockInitial_def exLock_def)
  obtain s where s: "lockRun [Begin (nonce ''11'') (js ''new''), Spawn 13] exLock = Some s"
    using nonce_pid nonce_distinct by (simp add: exLock_def processExists_def)
  show ?thesis using s runtime_lock_exclusive [OF i s] nonce_distinct by blast
qed

theorem runtime_lock_refines_mutex_witness:
  "\<exists>s s' h h'. lockStep (Begin (nonce ''11'') (js ''new'')) exLock = Some s \<and> lockStep (Run (nonce ''11'')) s = Some s' \<and>
    elector s h \<and> elector s' h' \<and> (h' = h \<or> mutexStep h h')"
proof -
  have i: "lockInitial exLock" by (simp add: lockInitial_def exLock_def)
  obtain s where s: "lockStep (Begin (nonce ''11'') (js ''new'')) exLock = Some s"
    and d: "ls_phase s (nonce ''11'') = Drawing Unlisted"
    using nonce_pid nonce_distinct by (simp add: exLock_def processExists_def)
  then have r: "lockRun [Begin (nonce ''11'') (js ''new'')] exLock = Some s" by simp
  obtain s' where "lockStep (Run (nonce ''11'')) s = Some s'" by (simp add: d)
  then show ?thesis using s runtime_lock_refines_mutex [OF i r] by blast
qed

end
