(* ===== verification/Control_Errors.thy ===== *)
theory Control_Errors
  imports Regex Control_Contract
begin

text \<open>
  \<open>packages/platform/src/errors.ts\<close>: what a message may say at the public boundary. The patterns have
  the flags g, i and u; matching is by ordered lists of successes, as backtracking tries them.
\<close>

section \<open>Patterns tried in order\<close>

text \<open>The case folding of the flags i and u, as far as ASCII letters are concerned.\<close>

definition foldUnit :: "16 word \<Rightarrow> 16 word" where
  "foldUnit c = (if 65 \<le> c \<and> c \<le> 90 then c + 32 else if c = 0x17F then 115 else if c = 0x212A then 107 else c)"

definition isWord :: "16 word \<Rightarrow> bool" where
  "isWord c = (let d = foldUnit c in 97 \<le> d \<and> d \<le> 122 \<or> 48 \<le> d \<and> d \<le> 57 \<or> d = 95)"

text \<open>A position in a text: what lies before it, backwards, and what lies after it.\<close>

type_synonym position = "jstring \<times> jstring"

definition atBoundary :: "position \<Rightarrow> bool" where
  "atBoundary pos =
     (case pos of (before, after) \<Rightarrow>
        (case before of [] \<Rightarrow> False | c # _ \<Rightarrow> isWord c) \<noteq> (case after of [] \<Rightarrow> False | c # _ \<Rightarrow> isWord c))"

type_synonym matcher = "position \<Rightarrow> position list"

definition boundary :: matcher where
  "boundary pos = (if atBoundary pos then [pos] else [])"

fun word :: "jstring \<Rightarrow> matcher" where
  "word [] pos = [pos]"
| "word (p # ps) (before, c # after) = (if foldUnit c = p then word ps (c # before, after) else [])"
| "word (p # ps) (before, []) = []"

text \<open>\<open>X{n,}\<close> for a class of characters, the longest first.\<close>

definition atLeast :: "nat \<Rightarrow> (16 word \<Rightarrow> bool) \<Rightarrow> matcher" where
  "atLeast n P pos =
     (case pos of (before, after) \<Rightarrow>
        map (\<lambda>k. (rev (take k after) @ before, drop k after)) (rev [n..<Suc (length (takeWhile P after))]))"

definition andThen :: "matcher \<Rightarrow> matcher \<Rightarrow> matcher" where
  "andThen p q pos = concat (map q (p pos))"

definition orElse :: "matcher \<Rightarrow> matcher \<Rightarrow> matcher" where
  "orElse p q pos = p pos @ q pos"

definition optional :: "matcher \<Rightarrow> matcher" where
  "optional p pos = p pos @ [pos]"

text \<open>The greedy star of a pattern that consumes something; \<open>fuel\<close> is at least the length of the rest.\<close>

fun many :: "nat \<Rightarrow> matcher \<Rightarrow> matcher" where
  "many 0 p pos = [pos]"
| "many (Suc fuel) p pos = concat (map (many fuel p) (p pos)) @ [pos]"

text \<open>\<open>replace\<close> with the flag g: the first success at each position that consumes something.\<close>

function replaceAllMatches :: "matcher \<Rightarrow> jstring \<Rightarrow> position \<Rightarrow> jstring" where
  "replaceAllMatches p by (before, after) =
     (case after of
        [] \<Rightarrow> []
      | c # rest \<Rightarrow>
          (case p (before, after) of
             [] \<Rightarrow> c # replaceAllMatches p by (c # before, rest)
           | (b, r) # _ \<Rightarrow>
               if length r < length after then by @ replaceAllMatches p by (b, r)
               else c # replaceAllMatches p by (c # before, rest)))"
  by pat_completeness auto
termination by (relation "measure (\<lambda>(p, by, before, after). length after)") auto

declare replaceAllMatches.simps [simp del]

section \<open>redactForPublicBoundary\<close>

definition isTokenUnit :: "16 word \<Rightarrow> bool" where
  "isTokenUnit c = (isWord c \<or> c = 45)"

definition secretValue :: matcher where
  "secretValue = andThen boundary (andThen (optional (andThen (word (js ''bearer'')) (atLeast 1 isWhite)))
     (andThen (atLeast 32 isTokenUnit) boundary))"

definition windowsPath :: matcher where
  "windowsPath = andThen boundary (andThen (\<lambda>pos. case pos of
       (before, c # after) \<Rightarrow> if 97 \<le> foldUnit c \<and> foldUnit c \<le> 122 then [(c # before, after)] else []
     | (before, []) \<Rightarrow> [])
     (andThen (word (js '':'' @ [92])) (atLeast 1 (\<lambda>c. \<not> isWhite c \<and> c \<noteq> 34 \<and> c \<noteq> 39))))"

definition posixSecretPath :: "nat \<Rightarrow> matcher" where
  "posixSecretPath fuel = andThen (word (js ''/''))
     (andThen (many fuel (andThen (atLeast 1 (\<lambda>c. \<not> isWhite c \<and> c \<noteq> 47)) (word (js ''/''))))
     (andThen (orElse (andThen (word (js ''secret'')) (optional (word (js ''s''))))
                (andThen (word (js ''credential'')) (optional (word (js ''s'')))))
       (optional (andThen (word (js ''/'')) (atLeast 0 (\<lambda>c. \<not> isWhite c \<and> c \<noteq> 34 \<and> c \<noteq> 39))))))"

definition redactForPublicBoundary :: "jstring \<Rightarrow> jstring" where
  "redactForPublicBoundary text =
     (let a = replaceAllMatches secretValue (js ''[REDACTED]'') ([], text);
          b = replaceAllMatches windowsPath (js ''[REDACTED_PATH]'') ([], a);
          c = replaceAllMatches (posixSecretPath (length b)) (js ''[REDACTED_PATH]'') ([], b)
      in take 512 c)"

end
