(* ===== verification/Control_Server.thy ===== *)
theory Control_Server
  imports Control_Errors Idempotency
begin

text \<open>
  \<open>packages/platform/src/server.ts\<close>: the control API of a runtime, on the loopback interface.
\<close>

section \<open>Limits and state\<close>

text \<open>A limit as it is given: \<open>None\<close> is a value that is no integer.\<close>

type_synonym givenLimits = "(jstring \<times> int option) list"

definition defaultLimits :: givenLimits where
  "defaultLimits = map (\<lambda>(k, v). (js k, Some v))
     [(''maxHeaderBytes'', 16384), (''maxUrlBytes'', 2048), (''maxBodyBytes'', 16384), (''maxResponseBytes'', 262144),
      (''maxConcurrentRequests'', 64), (''requestTimeoutMs'', 10000), (''authFailureCapacity'', 20),
      (''authFailureWindowMs'', 60000), (''idempotencyCapacity'', 1024), (''idempotencyTtlMs'', 900000),
      (''sseConnectionCapacity'', 8), (''sseRetentionCapacity'', 512), (''sseHeartbeatMs'', 15000),
      (''sseMaxBufferedBytes'', 262144)]"

record controlLimits =
  cl_maxHeaderBytes :: int
  cl_maxUrlBytes :: int
  cl_maxBodyBytes :: int
  cl_maxResponseBytes :: int
  cl_maxConcurrentRequests :: int
  cl_requestTimeoutMs :: int
  cl_authFailureCapacity :: int
  cl_authFailureWindowMs :: int
  cl_idempotencyCapacity :: int
  cl_idempotencyTtlMs :: int
  cl_sseConnectionCapacity :: int
  cl_sseRetentionCapacity :: int
  cl_sseHeartbeatMs :: int
  cl_sseMaxBufferedBytes :: int

text \<open>\<open>{ ...a, ...b }\<close>, and the check of every limit.\<close>

definition overlay :: "('k \<times> 'v) list \<Rightarrow> ('k \<times> 'v) list \<Rightarrow> ('k \<times> 'v) list" where
  "overlay a b = map (\<lambda>(k, v). (k, case map_of b k of None \<Rightarrow> v | Some w \<Rightarrow> w)) a @
     filter (\<lambda>(k, v). map_of a k = None) b"

definition limitOf :: "givenLimits \<Rightarrow> string \<Rightarrow> int" where
  "limitOf limits k = (case map_of limits (js k) of Some (Some n) \<Rightarrow> n | _ \<Rightarrow> 0)"

definition mergeLimits :: "givenLimits \<Rightarrow> controlLimits option" where
  "mergeLimits input =
     (let result = overlay defaultLimits input in
      if list_ex (\<lambda>(name, v). case v of None \<Rightarrow> True | Some n \<Rightarrow> n > 2 ^ 53 - 1 \<or> n < 1) result then None
      else Some \<lparr>cl_maxHeaderBytes = limitOf result ''maxHeaderBytes'', cl_maxUrlBytes = limitOf result ''maxUrlBytes'',
        cl_maxBodyBytes = limitOf result ''maxBodyBytes'', cl_maxResponseBytes = limitOf result ''maxResponseBytes'',
        cl_maxConcurrentRequests = limitOf result ''maxConcurrentRequests'',
        cl_requestTimeoutMs = limitOf result ''requestTimeoutMs'',
        cl_authFailureCapacity = limitOf result ''authFailureCapacity'',
        cl_authFailureWindowMs = limitOf result ''authFailureWindowMs'',
        cl_idempotencyCapacity = limitOf result ''idempotencyCapacity'',
        cl_idempotencyTtlMs = limitOf result ''idempotencyTtlMs'',
        cl_sseConnectionCapacity = limitOf result ''sseConnectionCapacity'',
        cl_sseRetentionCapacity = limitOf result ''sseRetentionCapacity'',
        cl_sseHeartbeatMs = limitOf result ''sseHeartbeatMs'',
        cl_sseMaxBufferedBytes = limitOf result ''sseMaxBufferedBytes''\<rparr>)"

record controlEndpointDescriptor =
  ed_instanceId :: jstring
  ed_pid :: int
  ed_startedAt :: jstring
  ed_port :: int
  ed_frameworkVersion :: jstring
  ed_releaseId :: jstring
  ed_tokenFileRef :: jstring

record requestIdentity =
  ri_requestId :: jstring
  ri_correlationId :: jstring

record authFailureState =
  af_count :: int
  af_resetAt :: int

text \<open>An event stream: what is buffered, and the frames written to it so far.\<close>

record eventConnection =
  ec_id :: nat
  ec_bufferedBytes :: int
  ec_frames :: "jstring list"

record serverState =
  sv_descriptor :: controlEndpointDescriptor
  sv_tokenHash :: jstring
  sv_allowedOrigins :: "jstring list"
  sv_limits :: controlLimits
  sv_idempotency :: idempotencyRegistry
  sv_authFailures :: "(jstring \<times> authFailureState) list"
  sv_notifications :: "(jstring \<times> json) list"
  sv_connections :: "eventConnection list"
  sv_closed :: "eventConnection list"
  sv_sequence :: int
  sv_activeRequests :: int
  sv_stopRequested :: bool
  sv_securityFinding :: "(json \<times> int) option"

section \<open>Requests and answers\<close>

datatype headerValue = HStr jstring | HList "jstring list"

record controlRequest =
  rq_method :: jstring
  rq_url :: "jstring option"
  rq_headers :: "(jstring \<times> headerValue) list"
  rq_rawHeaders :: "jstring list"
  rq_localAddress :: "jstring option"
  rq_remoteAddress :: "jstring option"

definition header :: "controlRequest \<Rightarrow> string \<Rightarrow> headerValue option" where
  "header req k = map_of (rq_headers req) (js k)"

definition headerText :: "controlRequest \<Rightarrow> string \<Rightarrow> jstring option" where
  "headerText req k = (case header req k of Some (HStr s) \<Rightarrow> Some s | _ \<Rightarrow> None)"

text \<open>
  An answer; its type is \<open>None\<close> when there is no body. \<open>an_stop\<close> says that the runtime stops once the
  answer is sent.
\<close>

record answer =
  an_status :: int
  an_contentType :: "jstring option"
  an_body :: "json option"
  an_origin :: "jstring option"
  an_retryAfter :: "int option"
  an_stop :: bool

definition obj :: "(string \<times> json) list \<Rightarrow> json" where
  "obj kvs = JObj (map (\<lambda>(k, v). (js k, v)) kvs)"

abbreviation text_of :: "string \<Rightarrow> json" where "text_of s \<equiv> JStr (js s)"

abbreviation num_of :: "int \<Rightarrow> json" where "num_of n \<equiv> JNum (numInt n)"

text \<open>\<open>fresh\<close> is the identifier that \<open>createUuidV7\<close> gives for this request.\<close>

definition identity :: "jstring \<Rightarrow> controlRequest \<Rightarrow> requestIdentity" where
  "identity fresh req =
     (let requestId = (case headerText req ''x-request-id'' of
            Some s \<Rightarrow> if matches uuidV7 s then s else fresh | None \<Rightarrow> fresh);
          correlationId = (case headerText req ''x-correlation-id'' of
            Some s \<Rightarrow> if matches uuidV7 s then s else requestId | None \<Rightarrow> requestId)
      in \<lparr>ri_requestId = requestId, ri_correlationId = correlationId\<rparr>)"

fun rawHosts :: "jstring list \<Rightarrow> jstring list" where
  "rawHosts (name # v # rest) = (if toLowerCase name = js ''host'' then v # rawHosts rest else rawHosts rest)"
| "rawHosts _ = []"

definition exactHostHeader :: "controlRequest \<Rightarrow> jstring \<Rightarrow> bool" where
  "exactHostHeader req expected =
     (let hosts = rawHosts (rq_rawHeaders req) in
      length hosts = 1 \<and> hosts ! 0 = expected \<and> header req ''host'' = Some (HStr expected))"

definition validSubjectRef :: "json option \<Rightarrow> bool" where
  "validSubjectRef v =
     (case objectValue v of
        None \<Rightarrow> False
      | Some subject \<Rightarrow>
          (let n = length (objKeys subject) in
           n = 2 \<or> n = 3 \<and> strWith subject ''subjectVersion'' (\<lambda>_. True)) \<and>
          strWith subject ''subjectType'' (matches typeName) \<and>
          strWith subject ''subjectId'' (lengthIn 1 256) \<and>
          (getKey subject ''subjectVersion'' = None \<or> strWith subject ''subjectVersion'' (lengthIn 1 128)))"

definition problemCategory :: "int \<Rightarrow> string" where
  "problemCategory status =
     (if status \<ge> 500 then (if status = 504 then ''TIMEOUT'' else ''UNAVAILABLE'')
      else if status = 409 \<or> status = 412 then ''CONFLICT''
      else if status = 401 then ''AUTHENTICATION''
      else if status = 403 \<or> status = 429 then ''AUTHORIZATION''
      else ''VALIDATION'')"

definition problem :: "requestIdentity \<Rightarrow> int \<Rightarrow> jstring \<Rightarrow> string \<Rightarrow> jstring \<Rightarrow> string \<Rightarrow> json" where
  "problem ids status code title detail retryability =
     obj [(''schemaVersion'', text_of ''1.0.0''),
       (''type'', JStr (js ''https://aseos.local/problems/'' @ map (\<lambda>c. if c = 95 then 45 else c) (toLowerCase code))),
       (''title'', text_of title), (''status'', num_of status),
       (''detail'', JStr (redactForPublicBoundary detail)), (''code'', JStr code),
       (''category'', text_of (problemCategory status)), (''retryability'', text_of retryability),
       (''requestId'', JStr (ri_requestId ids)), (''correlationId'', JStr (ri_correlationId ids)),
       (''subjectRef'', obj [(''subjectType'', text_of ''ControlRequest''), (''subjectId'', JStr (ri_requestId ids))]),
       (''remediation'', text_of (if status = 401 then ''Reload the runtime descriptor and token, then retry.''
          else ''Correct the request and retry.''))]"

definition preflightHeaders :: "jstring list" where
  "preflightHeaders = map js [''authorization'', ''content-type'', ''idempotency-key'', ''if-match'', ''last-event-id'',
     ''x-correlation-id'', ''x-request-id'']"

definition validPreflight :: "controlRequest \<Rightarrow> jstring \<Rightarrow> bool" where
  "validPreflight req pathname =
     (let expectedMethod = (if pathname = js ''/v1/runtime/stop'' then js ''POST'' else js ''GET'') in
      if header req ''access-control-request-method'' \<noteq> Some (HStr expectedMethod) then False
      else
        (case header req ''access-control-request-headers'' of
           None \<Rightarrow> True
         | Some (HList _) \<Rightarrow> False
         | Some (HStr s) \<Rightarrow>
             let names = filter (\<lambda>n. n \<noteq> []) (map (\<lambda>n. toLowerCase (trim n)) (splitOn 44 s)) in
             0 < length names \<and> list_all (\<lambda>n. n \<in> set preflightHeaders) names))"

text \<open>\<open>sendJson\<close>: a body over the limit is replaced by an empty answer of status 500.\<close>

definition sendJson :: "int \<Rightarrow> int \<Rightarrow> json \<Rightarrow> string \<Rightarrow> answer" where
  "sendJson maxBytes status body contentType =
     (if int (byteLength (stringify body)) > maxBytes
      then \<lparr>an_status = 500, an_contentType = None, an_body = None, an_origin = None, an_retryAfter = None, an_stop = False\<rparr>
      else \<lparr>an_status = status, an_contentType = Some (js contentType @ js ''; charset=utf-8''), an_body = Some body,
        an_origin = None, an_retryAfter = None, an_stop = False\<rparr>)"

definition sendProblem :: "serverState \<Rightarrow> requestIdentity \<Rightarrow> int \<Rightarrow> string \<Rightarrow> string \<Rightarrow> string \<Rightarrow> string \<Rightarrow> answer" where
  "sendProblem st ids status code title detail retryability =
     sendJson (cl_maxResponseBytes (sv_limits st)) status (problem ids status (js code) title (js detail) retryability)
       ''application/problem+json''"

section \<open>Authentication\<close>

definition tokenMatches :: "(jstring \<Rightarrow> jstring) \<Rightarrow> jstring option \<Rightarrow> jstring \<Rightarrow> bool" where
  "tokenMatches sha h expectedHash =
     (case h of None \<Rightarrow> False
      | Some s \<Rightarrow> startsWith s (js ''Bearer '') \<and> sha (drop 7 s) = expectedHash)"

text \<open>\<open>Map.set\<close>: a key that is there keeps its place.\<close>

fun setKey :: "'k \<Rightarrow> 'v \<Rightarrow> ('k \<times> 'v) list \<Rightarrow> ('k \<times> 'v) list" where
  "setKey k v [] = [(k, v)]"
| "setKey k v ((k', v') # kvs) = (if k' = k then (k, v) # kvs else (k', v') # setKey k v kvs)"

definition registerAuthFailure :: "int \<Rightarrow> jstring \<Rightarrow> serverState \<Rightarrow> (bool \<times> int) \<times> serverState" where
  "registerAuthFailure now remote st =
     (let failures = sv_authFailures st;
          expired = (case map_of failures remote of None \<Rightarrow> True | Some entry \<Rightarrow> af_resetAt entry \<le> now);
          entry = (case map_of failures remote of
              Some entry \<Rightarrow> if expired then \<lparr>af_count = 0, af_resetAt = now + cl_authFailureWindowMs (sv_limits st)\<rparr> else entry
            | None \<Rightarrow> \<lparr>af_count = 0, af_resetAt = now + cl_authFailureWindowMs (sv_limits st)\<rparr>);
          kept = (if expired \<and> length failures \<ge> 32 then tl failures else failures);
          counted = entry\<lparr>af_count := af_count entry + 1\<rparr>
      in ((af_count counted > cl_authFailureCapacity (sv_limits st), max 1 (- ((now - af_resetAt counted) div 1000))),
          st\<lparr>sv_authFailures := setKey remote counted kept\<rparr>))"

text \<open>The finding that clients are being refused, until it expires.\<close>

definition securityFindings :: "int \<Rightarrow> serverState \<Rightarrow> json list \<times> serverState" where
  "securityFindings now st =
     (case sv_securityFinding st of
        None \<Rightarrow> ([], st)
      | Some (finding, expiresAt) \<Rightarrow>
          if expiresAt \<le> now then ([], st\<lparr>sv_securityFinding := None\<rparr>) else ([finding], st))"

definition securityFinding :: "jstring \<Rightarrow> jstring \<Rightarrow> jstring \<Rightarrow> json" where
  "securityFinding findingId instanceId detectedAt =
     obj [(''schemaVersion'', text_of ''1.0.0''), (''findingId'', JStr findingId),
       (''code'', text_of ''CONTROL_AUTH_FAILURE_RATE_LIMITED''), (''severity'', text_of ''WARNING''),
       (''subjectRef'', obj [(''subjectType'', text_of ''Runtime''), (''subjectId'', JStr instanceId)]),
       (''evidenceRefs'', JArr []),
       (''remediation'', text_of ''Inspect local clients and rotate the runtime token by restarting.''),
       (''detectedAt'', JStr detectedAt)]"

text \<open>
  What the handling of a request takes from outside: SHA-256, the URL parser of the platform (path and search
  of a target), the ISO text of a time, and the identifiers and the clock of this request. The clock is
  read once for the part before the body is read and once for the part after it.
\<close>

record handling =
  hd_sha :: "jstring \<Rightarrow> jstring"
  hd_parseUrl :: "jstring \<Rightarrow> (jstring \<times> jstring) option"
  hd_iso :: "int \<Rightarrow> jstring"
  hd_uptime :: "int \<Rightarrow> jstring \<Rightarrow> int" \<comment> \<open>the time since an ISO text\<close>
  hd_requestId :: jstring
  hd_otherId :: jstring
  hd_now :: int
  hd_later :: int

definition rejectUnauthorized :: "handling \<Rightarrow> requestIdentity \<Rightarrow> controlRequest \<Rightarrow> serverState \<Rightarrow> answer \<times> serverState" where
  "rejectUnauthorized h ids req st =
     (let remote = (case rq_remoteAddress req of None \<Rightarrow> js ''unknown'' | Some r \<Rightarrow> r);
          now = hd_now h in
      case registerAuthFailure now remote st of
        ((limited, retryAfter), st1) \<Rightarrow>
          let fresh = (case sv_securityFinding st1 of None \<Rightarrow> True | Some (_, expiresAt) \<Rightarrow> expiresAt \<le> now);
              st2 = (if limited \<and> fresh
                then st1\<lparr>sv_securityFinding := Some
                  (securityFinding (hd_otherId h) (ed_instanceId (sv_descriptor st1)) (hd_iso h now),
                   now + cl_authFailureWindowMs (sv_limits st1))\<rparr>
                else st1);
              a = sendProblem st2 ids (if limited then 429 else 401)
                    (if limited then ''CONTROL_AUTH_RATE_LIMITED'' else ''CONTROL_AUTH_REQUIRED'')
                    (if limited then ''Authentication rate limited'' else ''Authentication required'')
                    ''A valid bearer token is required'' (if limited then ''RETRYABLE'' else ''NON_RETRYABLE'')
          in (if limited then a\<lparr>an_retryAfter := Some retryAfter\<rparr> else a, st2))"

section \<open>Before the body\<close>

definition routes :: "jstring list" where
  "routes = map js [''/v1/version'', ''/v1/health'', ''/v1/endpoint'', ''/v1/status'', ''/v1/doctor'', ''/v1/events'',
     ''/v1/runtime/stop'']"

definition loopback :: jstring where
  "loopback = js ''127.0.0.1''"

definition hostOf :: "serverState \<Rightarrow> jstring" where
  "hostOf st = loopback @ js '':'' @ natStr (nat (ed_port (sv_descriptor st)))"

text \<open>The checks of a request that owns a slot; \<open>Inr\<close> is the path of a request whose body is read next.\<close>

definition beforeBody ::
    "handling \<Rightarrow> requestIdentity \<Rightarrow> controlRequest \<Rightarrow> serverState \<Rightarrow> (answer + jstring) \<times> serverState" where
  "beforeBody h ids req st =
     (let refuse = (\<lambda>status code title detail. (Inl (sendProblem st ids status code title detail ''NON_RETRYABLE''), st));
          origin = headerText req ''origin'' in
      if rq_localAddress req \<noteq> Some loopback \<or> \<not> exactHostHeader req (hostOf st)
      then refuse 400 ''CONTROL_HOST_REJECTED'' ''Host rejected'' ''Host must identify the active loopback endpoint''
      else if (case header req ''origin'' of None \<Rightarrow> False | Some (HList _) \<Rightarrow> True
               | Some (HStr s) \<Rightarrow> s \<notin> set (sv_allowedOrigins st))
      then refuse 403 ''CONTROL_ORIGIN_REJECTED'' ''Origin rejected'' ''The browser origin is not registered''
      else
        (case hd_parseUrl h (case rq_url req of None \<Rightarrow> [] | Some u \<Rightarrow> u) of
           None \<Rightarrow> refuse 500 ''CONTROL_INTERNAL_ERROR'' ''Request failed'' ''Invalid URL''
         | Some (pathname, search) \<Rightarrow>
             if search \<noteq> []
             then refuse 400 ''CONTROL_QUERY_REJECTED'' ''Query rejected'' ''This endpoint does not accept query parameters''
             else if rq_method req = js ''OPTIONS'' then
               (if origin = None \<or> \<not> validPreflight req pathname \<or> pathname \<notin> set routes
                then refuse 403 ''CONTROL_PREFLIGHT_REJECTED'' ''Preflight rejected'' ''The browser preflight is not allowed''
                else (Inl \<lparr>an_status = 204, an_contentType = None, an_body = None, an_origin = origin,
                        an_retryAfter = None, an_stop = False\<rparr>, st))
             else if \<not> tokenMatches (hd_sha h) (headerText req ''authorization'') (sv_tokenHash st) then
               (case rejectUnauthorized h ids req st of (a, st') \<Rightarrow> (Inl a, st'))
             else (Inr pathname, st)))"

section \<open>Reading the body\<close>

fun rejectUnexpectedBody :: "int \<Rightarrow> int \<Rightarrow> int list \<Rightarrow> (string \<times> string) + unit" where
  "rejectUnexpectedBody limit bytes [] =
     (if bytes \<noteq> 0 then Inl (''CONTROL_BODY_NOT_ALLOWED'', ''This endpoint does not accept a body'') else Inr ())"
| "rejectUnexpectedBody limit bytes (chunk # chunks) =
     (if bytes + chunk > limit then Inl (''CONTROL_BODY_TOO_LARGE'', ''Request body limit exceeded'')
      else rejectUnexpectedBody limit (bytes + chunk) chunks)"

section \<open>Event streams\<close>

definition writeSseFrame :: "eventConnection \<Rightarrow> jstring \<Rightarrow> int \<Rightarrow> eventConnection option" where
  "writeSseFrame connection data maxBuffered =
     (let bytes = int (byteLength data) in
      if ec_bufferedBytes connection + bytes > maxBuffered then None
      else Some (connection\<lparr>ec_bufferedBytes := ec_bufferedBytes connection + bytes,
             ec_frames := ec_frames connection @ [data]\<rparr>))"

definition sseFrame :: "jstring \<Rightarrow> jstring \<Rightarrow> json \<Rightarrow> jstring" where
  "sseFrame notificationId kind notification =
     js ''id: '' @ notificationId @ [10] @ js ''event: '' @ kind @ [10] @ js ''data: '' @ stringify notification @ [10, 10]"

definition kindOf :: "json \<Rightarrow> jstring" where
  "kindOf notification = (case notification of JObj kvs \<Rightarrow> (case getKey kvs ''kind'' of Some (JStr k) \<Rightarrow> k | _ \<Rightarrow> []) | _ \<Rightarrow> [])"

definition writeSse :: "eventConnection \<Rightarrow> jstring \<times> json \<Rightarrow> int \<Rightarrow> eventConnection option" where
  "writeSse connection notification maxBuffered =
     writeSseFrame connection (sseFrame (fst notification) (kindOf (snd notification)) (snd notification)) maxBuffered"

definition gapFrame :: jstring where
  "gapFrame = js ''event: gap'' @ [10] @ js ''data: '' @
     stringify (obj [(''code'', text_of ''CONTROL_SSE_RETENTION_GAP'')]) @ [10, 10]"

definition heartbeatFrame :: jstring where
  "heartbeatFrame = js '': heartbeat'' @ [10, 10]"

text \<open>Closing: the connection leaves the set, and what was written to it stays written.\<close>

definition closeEventConnection :: "eventConnection \<Rightarrow> serverState \<Rightarrow> serverState" where
  "closeEventConnection connection st =
     st\<lparr>sv_connections := filter (\<lambda>c. ec_id c \<noteq> ec_id connection) (sv_connections st),
        sv_closed := sv_closed st @ [connection]\<rparr>"

text \<open>The replay of retained notifications; the flag says whether every frame could be written.\<close>

fun replayFrames :: "int \<Rightarrow> eventConnection \<Rightarrow> (jstring \<times> json) list \<Rightarrow> bool \<times> eventConnection" where
  "replayFrames maxBuffered connection [] = (True, connection)"
| "replayFrames maxBuffered connection (n # ns) =
     (case writeSse connection n maxBuffered of
        None \<Rightarrow> (False, connection)
      | Some connection' \<Rightarrow> replayFrames maxBuffered connection' ns)"

definition startReplay :: "jstring option \<Rightarrow> serverState \<Rightarrow> eventConnection \<Rightarrow> bool \<times> eventConnection" where
  "startReplay lastId st connection =
     (let maxBuffered = cl_sseMaxBufferedBytes (sv_limits st); retained = sv_notifications st in
      case lastId of
        None \<Rightarrow> (True, connection)
      | Some i \<Rightarrow>
          if retained = [] then (True, connection)
          else if list_ex (\<lambda>n. fst n = i) retained
          then replayFrames maxBuffered connection (tl (dropWhile (\<lambda>n. fst n \<noteq> i) retained))
          else
            (case writeSseFrame connection gapFrame maxBuffered of
               None \<Rightarrow> (False, connection)
             | Some connection' \<Rightarrow> (True, connection')))"

text \<open>\<open>Inr\<close> is an event stream that was opened; \<open>c\<close> names its connection.\<close>

definition serveEvents :: "nat \<Rightarrow> requestIdentity \<Rightarrow> controlRequest \<Rightarrow> serverState \<Rightarrow> (answer + unit) \<times> serverState" where
  "serveEvents c ids req st =
     (if int (length (sv_connections st)) \<ge> cl_sseConnectionCapacity (sv_limits st)
      then (Inl (sendProblem st ids 503 ''CONTROL_SSE_CAPACITY'' ''SSE capacity reached'' ''Too many event streams are active'' ''RETRYABLE''), st)
      else
        let connection = \<lparr>ec_id = c, ec_bufferedBytes = 0, ec_frames = []\<rparr> in
        (case startReplay (headerText req ''last-event-id'') st connection of
           (written, connection') \<Rightarrow>
             let st' = st\<lparr>sv_connections := sv_connections st @ [connection']\<rparr> in
             (Inr (), if written then st' else closeEventConnection connection' st')))"

section \<open>The routes\<close>

definition identityMembers :: "requestIdentity \<Rightarrow> (string \<times> json) list" where
  "identityMembers ids = [(''requestId'', JStr (ri_requestId ids)), (''correlationId'', JStr (ri_correlationId ids))]"

definition metadata :: "int \<Rightarrow> serverState \<Rightarrow> json \<times> serverState" where
  "metadata now st =
     (let limits = sv_limits st in
      case registrySize now (sv_idempotency st) of
        (entries, idempotency) \<Rightarrow>
          (obj [(''authenticationRateLimit'', obj [(''capacity'', num_of (cl_authFailureCapacity limits)),
               (''windowMs'', num_of (cl_authFailureWindowMs limits))]),
             (''idempotency'', obj [(''capacity'', num_of (cl_idempotencyCapacity limits)),
               (''ttlMs'', num_of (cl_idempotencyTtlMs limits)), (''entries'', num_of (int entries))]),
             (''sse'', obj [(''connectionCapacity'', num_of (cl_sseConnectionCapacity limits)),
               (''activeConnections'', num_of (int (length (sv_connections st)))),
               (''retentionCapacity'', num_of (cl_sseRetentionCapacity limits)),
               (''retainedNotifications'', num_of (int (length (sv_notifications st)))),
               (''heartbeatMs'', num_of (cl_sseHeartbeatMs limits))])],
           st\<lparr>sv_idempotency := idempotency\<rparr>))"

definition versionBody :: "controlEndpointDescriptor \<Rightarrow> requestIdentity \<Rightarrow> json" where
  "versionBody current ids =
     obj ([(''schemaVersion'', text_of ''1.0.0''), (''apiVersion'', text_of ''v1''),
       (''frameworkVersion'', JStr (ed_frameworkVersion current)), (''releaseId'', JStr (ed_releaseId current)),
       (''instanceId'', JStr (ed_instanceId current))] @ identityMembers ids)"

definition healthBody :: "controlEndpointDescriptor \<Rightarrow> jstring \<Rightarrow> json list \<Rightarrow> json" where
  "healthBody current checkedAt findings =
     obj [(''schemaVersion'', text_of ''1.0.0''), (''instanceId'', JStr (ed_instanceId current)),
       (''readiness'', text_of (if findings = [] then ''READY'' else ''DEGRADED'')),
       (''runtimeVersion'', JStr (ed_frameworkVersion current)), (''releaseId'', JStr (ed_releaseId current)),
       (''stateVersion'', num_of 0), (''checkedAt'', JStr checkedAt), (''findings'', JArr findings)]"

definition endpointBody :: "controlEndpointDescriptor \<Rightarrow> json" where
  "endpointBody current =
     obj [(''schemaVersion'', text_of ''1.0.0''), (''instanceId'', JStr (ed_instanceId current)), (''pid'', num_of (ed_pid current)),
       (''startedAt'', JStr (ed_startedAt current)), (''host'', JStr loopback), (''port'', num_of (ed_port current)),
       (''apiVersions'', JArr [text_of ''v1'']), (''frameworkVersion'', JStr (ed_frameworkVersion current)),
       (''releaseId'', JStr (ed_releaseId current)), (''tokenFileRef'', JStr (ed_tokenFileRef current))]"

definition statusBody :: "controlEndpointDescriptor \<Rightarrow> int \<Rightarrow> json \<Rightarrow> requestIdentity \<Rightarrow> json" where
  "statusBody current uptimeMs limits ids =
     obj ([(''schemaVersion'', text_of ''1.0.0''), (''status'', text_of ''READY''), (''instanceId'', JStr (ed_instanceId current)),
       (''uptimeMs'', num_of uptimeMs), (''limits'', limits)] @ identityMembers ids)"

definition doctorBody :: "json list \<Rightarrow> requestIdentity \<Rightarrow> json" where
  "doctorBody findings ids =
     obj ([(''schemaVersion'', text_of ''1.0.0''), (''status'', text_of (if findings = [] then ''PASS'' else ''FINDINGS'')),
       (''findings'', JArr findings)] @ identityMembers ids)"

definition stopBody :: "jstring \<Rightarrow> json" where
  "stopBody operationId =
     obj [(''schemaVersion'', text_of ''1.0.0''), (''operationId'', JStr operationId), (''type'', text_of ''RuntimeStop''),
       (''status'', text_of ''ACCEPTED''), (''resourceUri'', JStr (js ''/v1/operations/'' @ operationId)), (''evidenceRefs'', JArr [])]"

text \<open>\<open>/^[A-Za-z0-9._:/+-]{16,256}$/u\<close>\<close>

definition idempotencyKey :: rx where
  "idempotencyKey = (let c = Cls [rng CHR ''A'' CHR ''Z'', rng CHR ''a'' CHR ''z'', rng CHR ''0'' CHR ''9'', rng CHR ''.'' CHR ''.'',
       rng CHR ''_'' CHR ''_'', rng CHR '':'' CHR '':'', rng CHR ''/'' CHR ''/'', rng CHR ''+'' CHR ''+'', rng CHR ''-'' CHR ''-''] in
     Seq (rep 16 c) (repUpTo 240 c))"

definition stopPayloadHash :: "(jstring \<Rightarrow> jstring) \<Rightarrow> jstring \<Rightarrow> jstring" where
  "stopPayloadHash sha instanceId =
     sha (canon (obj [(''action'', text_of ''runtime.stop''), (''instanceId'', JStr instanceId)]))"

definition serveStop :: "handling \<Rightarrow> requestIdentity \<Rightarrow> controlRequest \<Rightarrow> serverState \<Rightarrow> answer \<times> serverState" where
  "serveStop h ids req st =
     (let current = sv_descriptor st; now = hd_later h in
      case headerText req ''idempotency-key'' of
        None \<Rightarrow> (sendProblem st ids 400 ''CONTROL_IDEMPOTENCY_KEY_REQUIRED'' ''Idempotency key required''
             ''A valid Idempotency-Key header is required'' ''NON_RETRYABLE'', st)
      | Some key \<Rightarrow>
          if \<not> matches idempotencyKey key
          then (sendProblem st ids 400 ''CONTROL_IDEMPOTENCY_KEY_REQUIRED'' ''Idempotency key required''
             ''A valid Idempotency-Key header is required'' ''NON_RETRYABLE'', st)
          else if header req ''if-match'' = None
          then (sendProblem st ids 428 ''CONTROL_PRECONDITION_REQUIRED'' ''Runtime identity precondition required''
             ''If-Match must identify the active runtime instance'' ''NON_RETRYABLE'', st)
          else if header req ''if-match'' \<noteq> Some (HStr (js [CHR 34] @ ed_instanceId current @ js [CHR 34]))
          then (sendProblem st ids 412 ''CONTROL_INSTANCE_VERSION_MISMATCH'' ''Runtime identity precondition failed''
             ''If-Match must identify the active runtime instance'' ''NON_RETRYABLE'', st)
          else
            let payloadHash = stopPayloadHash (hd_sha h) (ed_instanceId current) in
            (case idempotencyLookup key payloadHash now (sv_idempotency st) of
               (CONFLICT, r) \<Rightarrow>
                 (sendProblem st ids 409 ''CONTROL_IDEMPOTENCY_CONFLICT'' ''Idempotency conflict''
                    ''The key was already used with another payload'' ''NON_RETRYABLE'', st\<lparr>sv_idempotency := r\<rparr>)
             | (found, r) \<Rightarrow>
                 let operationId = (case found of REPLAY i \<Rightarrow> i | _ \<Rightarrow> hd_otherId h);
                     r' = snd (idempotencyRecord key payloadHash operationId now r)
                 in ((sendJson (cl_maxResponseBytes (sv_limits st)) 202 (stopBody operationId) ''application/json'')\<lparr>an_stop := True\<rparr>,
                     st\<lparr>sv_idempotency := r'\<rparr>)))"

text \<open>After the body: the media type and the routes. \<open>Inr\<close> is an opened event stream, named \<open>c\<close>.\<close>

definition serveRoute ::
    "nat \<Rightarrow> handling \<Rightarrow> requestIdentity \<Rightarrow> jstring \<Rightarrow> controlRequest \<Rightarrow> serverState \<Rightarrow> (answer + unit) \<times> serverState" where
  "serveRoute c h ids pathname req st =
     (let current = sv_descriptor st; now = hd_later h; maxBytes = cl_maxResponseBytes (sv_limits st);
          get = (rq_method req = js ''GET'');
          send = (\<lambda>body. Inl (sendJson maxBytes 200 body ''application/json'')) in
      if header req ''content-type'' \<noteq> None \<and> header req ''content-type'' \<noteq> Some (HStr (js ''application/json''))
      then (Inl (sendProblem st ids 415 ''CONTROL_CONTENT_TYPE_UNSUPPORTED'' ''Content type unsupported''
             ''Only application/json is supported'' ''NON_RETRYABLE''), st)
      else if get \<and> pathname = js ''/v1/version'' then (send (versionBody current ids), st)
      else if get \<and> pathname = js ''/v1/health'' then
        (case securityFindings now st of (findings, st') \<Rightarrow> (send (healthBody current (hd_iso h now) findings), st'))
      else if get \<and> pathname = js ''/v1/endpoint'' then (send (endpointBody current), st)
      else if get \<and> pathname = js ''/v1/status'' then
        (case metadata now st of (limits, st') \<Rightarrow>
           (send (statusBody current (max 0 (hd_uptime h now (ed_startedAt current))) limits ids), st'))
      else if get \<and> pathname = js ''/v1/doctor'' then
        (case securityFindings now st of (findings, st') \<Rightarrow> (send (doctorBody findings ids), st'))
      else if get \<and> pathname = js ''/v1/events'' then serveEvents c ids req st
      else if rq_method req = js ''POST'' \<and> pathname = js ''/v1/runtime/stop'' then
        (case serveStop h ids req st of (a, st') \<Rightarrow> (Inl a, st'))
      else (Inl (sendProblem st ids 404 ''CONTROL_ROUTE_NOT_FOUND'' ''Route not found''
             ''The versioned endpoint does not exist'' ''NON_RETRYABLE''), st))"

definition withOrigin :: "controlRequest \<Rightarrow> answer \<Rightarrow> answer" where
  "withOrigin req a = a\<lparr>an_origin := headerText req ''origin''\<rparr>"

text \<open>The part of a request after the body: the errors of reading it, then the route.\<close>

definition afterBody ::
    "nat \<Rightarrow> handling \<Rightarrow> requestIdentity \<Rightarrow> jstring \<Rightarrow> controlRequest \<Rightarrow> int list \<Rightarrow> serverState \<Rightarrow> (answer + unit) \<times> serverState" where
  "afterBody c h ids pathname req chunks st =
     (case rejectUnexpectedBody (cl_maxBodyBytes (sv_limits st)) 0 chunks of
        Inl (code, detail) \<Rightarrow>
          (Inl (withOrigin req (sendProblem st ids (if code = ''CONTROL_BODY_TOO_LARGE'' then 413 else 400) code
             ''Request failed'' detail ''NON_RETRYABLE'')), st)
      | Inr _ \<Rightarrow>
          (case serveRoute c h ids pathname req st of
             (Inl a, st') \<Rightarrow> (Inl (withOrigin req a), st')
           | (Inr u, st') \<Rightarrow> (Inr u, st')))"

section \<open>Requests in flight\<close>

record openRequest =
  or_id :: nat
  or_request :: controlRequest
  or_ids :: requestIdentity
  or_path :: jstring
  or_slotOwned :: bool
  or_timedOut :: bool

record server =
  srv_state :: serverState
  srv_open :: "openRequest list"
  srv_answers :: "(nat \<times> answer) list"

definition answerWith :: "nat \<Rightarrow> answer \<Rightarrow> server \<Rightarrow> server" where
  "answerWith i a s = s\<lparr>srv_answers := srv_answers s @ [(i, a)]\<rparr>"

definition addActive :: "int \<Rightarrow> serverState \<Rightarrow> serverState" where
  "addActive n st = st\<lparr>sv_activeRequests := sv_activeRequests st + n\<rparr>"

text \<open>A request arrives: the checks of its target and of the load, its slot, and the part before its body.\<close>

definition arrive :: "nat \<Rightarrow> handling \<Rightarrow> controlRequest \<Rightarrow> server \<Rightarrow> server" where
  "arrive i h req s =
     (let st = srv_state s; limits = sv_limits st; ids = identity (hd_requestId h) req;
          urlText = (case rq_url req of None \<Rightarrow> [] | Some u \<Rightarrow> u) in
      if int (byteLength urlText) > cl_maxUrlBytes limits
      then answerWith i (sendProblem st ids 414 ''CONTROL_URL_TOO_LONG'' ''URL too long''
             ''The request target exceeded its limit'' ''NON_RETRYABLE'') s
      else if sv_activeRequests st \<ge> cl_maxConcurrentRequests limits
      then answerWith i (sendProblem st ids 503 ''CONTROL_CONCURRENCY_LIMIT'' ''Runtime busy''
             ''The request concurrency limit was reached'' ''RETRYABLE'') s
      else
        (case beforeBody h ids req (addActive 1 st) of
           (Inl a, st') \<Rightarrow> answerWith i a (s\<lparr>srv_state := addActive (- 1) st'\<rparr>)
         | (Inr pathname, st') \<Rightarrow>
             s\<lparr>srv_state := st', srv_open := srv_open s @ [\<lparr>or_id = i, or_request = req, or_ids = ids, or_path = pathname,
                 or_slotOwned = True, or_timedOut = False\<rparr>]\<rparr>))"

definition releaseSlot :: "openRequest \<Rightarrow> serverState \<Rightarrow> serverState" where
  "releaseSlot r st = (if or_slotOwned r then addActive (- 1) st else st)"

definition findOpen :: "nat \<Rightarrow> server \<Rightarrow> openRequest option" where
  "findOpen i s = find (\<lambda>r. or_id r = i) (srv_open s)"

definition dropOpen :: "nat \<Rightarrow> server \<Rightarrow> server" where
  "dropOpen i s = s\<lparr>srv_open := filter (\<lambda>r. or_id r \<noteq> i) (srv_open s)\<rparr>"

text \<open>The body of a request has been read; a request that has timed out is not served any more.\<close>

definition bodyRead :: "nat \<Rightarrow> handling \<Rightarrow> int list \<Rightarrow> server \<Rightarrow> server" where
  "bodyRead i h chunks s =
     (case findOpen i s of
        None \<Rightarrow> s
      | Some r \<Rightarrow>
          if or_timedOut r then dropOpen i (s\<lparr>srv_state := releaseSlot r (srv_state s)\<rparr>)
          else
            (case afterBody i h (or_ids r) (or_path r) (or_request r) chunks (srv_state s) of
               (Inl a, st') \<Rightarrow> answerWith i a (dropOpen i (s\<lparr>srv_state := releaseSlot r st'\<rparr>))
             | (Inr _, st') \<Rightarrow> dropOpen i (s\<lparr>srv_state := releaseSlot r st'\<rparr>)))"

text \<open>The timer of a request fires while its body is read: its slot is released and 504 is answered.\<close>

definition timeout :: "nat \<Rightarrow> server \<Rightarrow> server" where
  "timeout i s =
     (case findOpen i s of
        None \<Rightarrow> s
      | Some r \<Rightarrow>
          if or_timedOut r then s
          else answerWith i (withOrigin (or_request r) (sendProblem (srv_state s) (or_ids r) 504 ''CONTROL_REQUEST_TIMEOUT'' ''Request timed out''
                 ''The request exceeded its execution budget'' ''RETRYABLE''))
               (s\<lparr>srv_state := releaseSlot r (srv_state s),
                 srv_open := map (\<lambda>q. if or_id q = i then q\<lparr>or_slotOwned := False, or_timedOut := True\<rparr> else q) (srv_open s)\<rparr>))"

text \<open>The response of a request is closed before its body was read: its slot is released.\<close>

definition responseClosed :: "nat \<Rightarrow> server \<Rightarrow> server" where
  "responseClosed i s =
     (case findOpen i s of
        None \<Rightarrow> s
      | Some r \<Rightarrow> dropOpen i (s\<lparr>srv_state := releaseSlot r (srv_state s)\<rparr>))"

section \<open>Notifications\<close>

definition notificationKinds :: "string list" where
  "notificationKinds = [''RUNTIME_STATUS'', ''OPERATION_METADATA'', ''EVIDENCE_METADATA'']"

definition validNotification :: "jobject \<Rightarrow> bool" where
  "validNotification candidate =
     (isNonNegativeInteger (getKey candidate ''projectionVersion'') \<and>
      validSubjectRef (getKey candidate ''subjectRef'') \<and>
      strWith candidate ''kind'' (\<lambda>s. s \<in> set (map js notificationKinds)) \<and>
      strWith candidate ''resourceUri'' (\<lambda>s. startsWith s (js ''/v1/'') \<and> length s \<le> 1024))"

definition memberOr :: "jobject \<Rightarrow> string \<Rightarrow> json" where
  "memberOr candidate k = (case getKey candidate k of Some v \<Rightarrow> v | None \<Rightarrow> JNull)"

definition newNotification :: "jstring \<Rightarrow> jstring \<Rightarrow> jobject \<Rightarrow> json" where
  "newNotification notificationId occurredAt candidate =
     obj [(''schemaVersion'', text_of ''1.0.0''), (''notificationId'', JStr notificationId),
       (''kind'', memberOr candidate ''kind''), (''subjectRef'', memberOr candidate ''subjectRef''),
       (''projectionVersion'', memberOr candidate ''projectionVersion''), (''occurredAt'', JStr occurredAt),
       (''resourceUri'', memberOr candidate ''resourceUri'')]"

text \<open>Writing to every open stream; one that cannot take the frame is closed.\<close>

fun broadcast :: "(jstring \<times> json) \<Rightarrow> eventConnection list \<Rightarrow> serverState \<Rightarrow> serverState" where
  "broadcast n [] st = st"
| "broadcast n (c # cs) st =
     broadcast n cs
       (case writeSse c n (cl_sseMaxBufferedBytes (sv_limits st)) of
          None \<Rightarrow> closeEventConnection c st
        | Some c' \<Rightarrow> st\<lparr>sv_connections := map (\<lambda>d. if ec_id d = ec_id c then c' else d) (sv_connections st)\<rparr>)"

definition publishNotification ::
    "jstring \<Rightarrow> jstring \<Rightarrow> jobject \<Rightarrow> serverState \<Rightarrow> (controlError + json) \<times> serverState" where
  "publishNotification notificationId occurredAt candidate st =
     (if sv_stopRequested st then (Inl (ControlApiError (js ''CONTROL_RUNTIME_STOPPED'')), st)
      else if \<not> validNotification candidate then (Inl (ControlApiError (js ''CONTROL_NOTIFICATION_INVALID'')), st)
      else
        let notification = newNotification notificationId occurredAt candidate;
            all = sv_notifications st @ [(notificationId, notification)];
            retained = drop (length all - nat (cl_sseRetentionCapacity (sv_limits st))) all
        in (Inr notification,
            broadcast (notificationId, notification) (sv_connections st) (st\<lparr>sv_notifications := retained, sv_sequence := sv_sequence st + 1\<rparr>)))"

definition stopRequests :: "serverState \<Rightarrow> serverState" where
  "stopRequests st = fold closeEventConnection (sv_connections st) (st\<lparr>sv_stopRequested := True\<rparr>)"

text \<open>A heartbeat, the flush of written bytes, and the end of a stream.\<close>

definition heartbeat :: "nat \<Rightarrow> serverState \<Rightarrow> serverState" where
  "heartbeat c st =
     (case find (\<lambda>d. ec_id d = c) (sv_connections st) of
        None \<Rightarrow> st
      | Some connection \<Rightarrow>
          (case writeSseFrame connection heartbeatFrame (cl_sseMaxBufferedBytes (sv_limits st)) of
             None \<Rightarrow> closeEventConnection connection st
           | Some c' \<Rightarrow> st\<lparr>sv_connections := map (\<lambda>d. if ec_id d = c then c' else d) (sv_connections st)\<rparr>))"

definition flushed :: "nat \<Rightarrow> int \<Rightarrow> serverState \<Rightarrow> serverState" where
  "flushed c bytes st =
     st\<lparr>sv_connections := map (\<lambda>d. if ec_id d = c then d\<lparr>ec_bufferedBytes := max 0 (ec_bufferedBytes d - bytes)\<rparr> else d)
        (sv_connections st)\<rparr>"

definition streamEnded :: "nat \<Rightarrow> serverState \<Rightarrow> serverState" where
  "streamEnded c st =
     (case find (\<lambda>d. ec_id d = c) (sv_connections st) of
        None \<Rightarrow> st | Some connection \<Rightarrow> closeEventConnection connection st)"

datatype serverEvent =
  Arrive nat handling controlRequest
| BodyRead nat handling "int list"
| Timeout nat
| ResponseClosed nat
| Publish jstring jstring jobject
| Heartbeat nat
| Flushed nat int
| StreamEnded nat
| Stop

definition onState :: "(serverState \<Rightarrow> serverState) \<Rightarrow> server \<Rightarrow> server" where
  "onState f s = s\<lparr>srv_state := f (srv_state s)\<rparr>"

text \<open>Requests are numbered: a number is used once, also for the event stream its request opens.\<close>

fun serverStep :: "serverEvent \<Rightarrow> server \<Rightarrow> server" where
  "serverStep (Arrive i h req) s = arrive i h req s"
| "serverStep (BodyRead i h chunks) s = bodyRead i h chunks s"
| "serverStep (Timeout i) s = timeout i s"
| "serverStep (ResponseClosed i) s = responseClosed i s"
| "serverStep (Publish i t c) s = onState (\<lambda>st. snd (publishNotification i t c st)) s"
| "serverStep (Heartbeat c) s = onState (heartbeat c) s"
| "serverStep (Flushed c n) s = onState (flushed c n) s"
| "serverStep (StreamEnded c) s = onState (streamEnded c) s"
| "serverStep Stop s = onState stopRequests s"

section \<open>Starting the control API\<close>

record startOptions =
  so_dataRoot :: jstring
  so_frameworkVersion :: jstring
  so_releaseId :: jstring
  so_allowedOrigins :: "jstring list option"
  so_limits :: givenLimits

text \<open>The parts of a URL that \<open>new URL\<close> finds, if the text is one.\<close>

record urlParts =
  up_username :: jstring
  up_password :: jstring
  up_origin :: jstring

text \<open>
  What the platform answers while a runtime starts: the lock, the parser of URLs, the token file, the bound
  port, the descriptor file, and whether the control files and the lock can be removed again.
\<close>

record startWorld =
  sw_lock :: "controlError + unit"
  sw_parseUrl :: "jstring \<Rightarrow> urlParts option"
  sw_token :: "controlError + jstring"
  sw_listen :: "controlError + int"
  sw_write :: "controlError + unit"
  sw_removed :: bool
  sw_released :: bool

fun normalizedOrigins :: "(jstring \<Rightarrow> urlParts option) \<Rightarrow> jstring list \<Rightarrow> controlError + jstring list" where
  "normalizedOrigins parse [] = Inr []"
| "normalizedOrigins parse (candidate # rest) =
     (case parse candidate of
        None \<Rightarrow> Inl OtherError
      | Some url \<Rightarrow>
          if up_username url \<noteq> [] \<or> up_password url \<noteq> [] \<or> up_origin url \<noteq> candidate
          then Inl (ControlApiError (js ''CONTROL_ORIGIN_INVALID''))
          else (case normalizedOrigins parse rest of Inl e \<Rightarrow> Inl e | Inr cs \<Rightarrow> Inr (candidate # cs)))"

text \<open>How a start ends: its result, and whether the lock is held and the server listens then.\<close>

record startResult =
  sr_result :: "controlError + server"
  sr_lockHeld :: bool
  sr_listening :: bool

definition startFailed :: "controlError \<Rightarrow> bool \<Rightarrow> startResult" where
  "startFailed e lockHeld = \<lparr>sr_result = Inl e, sr_lockHeld = lockHeld, sr_listening = False\<rparr>"

text \<open>The \<open>catch\<close> of a start: the server is closed, the control files removed, the lock released.\<close>

definition startCleanup :: "startWorld \<Rightarrow> controlError \<Rightarrow> startResult" where
  "startCleanup w e =
     (if \<not> sw_removed w then startFailed OtherError True
      else if \<not> sw_released w then startFailed OtherError True
      else startFailed e False)"

definition startState ::
    "controlEndpointDescriptor \<Rightarrow> jstring \<Rightarrow> jstring list \<Rightarrow> controlLimits \<Rightarrow> idempotencyRegistry \<Rightarrow> serverState" where
  "startState descriptor tokenHash origins limits registry =
     \<lparr>sv_descriptor = descriptor, sv_tokenHash = tokenHash, sv_allowedOrigins = origins, sv_limits = limits,
      sv_idempotency = registry, sv_authFailures = [], sv_notifications = [], sv_connections = [], sv_closed = [],
      sv_sequence = 0,      sv_activeRequests = 0, sv_stopRequested = False, sv_securityFinding = None\<rparr>"

definition startedNotification :: "jstring \<Rightarrow> jobject" where
  "startedNotification instanceId =
     [(js ''kind'', text_of ''RUNTIME_STATUS''),
      (js ''subjectRef'', obj [(''subjectType'', text_of ''Runtime''), (''subjectId'', JStr instanceId)]),
      (js ''projectionVersion'', num_of 0), (js ''resourceUri'', text_of ''/v1/status'')]"

text \<open>
  \<open>startControlApi\<close>; the identifiers, the time, the process id and the reference to the token file are
  arguments, as is SHA-256.
\<close>

definition startControlApi ::
    "(jstring \<Rightarrow> jstring) \<Rightarrow> startWorld \<Rightarrow> jstring \<Rightarrow> jstring \<Rightarrow> jstring \<Rightarrow> int \<Rightarrow> jstring \<Rightarrow> startOptions \<Rightarrow> startResult" where
  "startControlApi sha w instanceId notificationId startedAt pid tokenFileRef options =
     (if trim (so_dataRoot options) = [] \<or> \<not> matches semver (so_frameworkVersion options) \<or>
         length (so_releaseId options) < 1 \<or> length (so_releaseId options) > 256
      then startFailed (ControlApiError (js ''CONTROL_START_OPTIONS_INVALID'')) False
      else
        (case mergeLimits (so_limits options) of
           None \<Rightarrow> startFailed OtherError False
         | Some limits \<Rightarrow>
             (case sw_lock w of
                Inl e \<Rightarrow> startFailed e False
              | Inr _ \<Rightarrow>
                  (case normalizedOrigins (sw_parseUrl w) (case so_allowedOrigins options of None \<Rightarrow> [] | Some os \<Rightarrow> os) of
                     Inl e \<Rightarrow> startFailed e True
                   | Inr origins \<Rightarrow>
                       (case newIdempotencyRegistry (cl_idempotencyCapacity limits) (cl_idempotencyTtlMs limits) of
                          None \<Rightarrow> startFailed OtherError True
                        | Some registry \<Rightarrow>
                            (case sw_token w of
                               Inl e \<Rightarrow> startCleanup w e
                             | Inr token \<Rightarrow>
                                 (case sw_listen w of
                                    Inl e \<Rightarrow> startCleanup w e
                                  | Inr port \<Rightarrow>
                                      (case sw_write w of
                                         Inl e \<Rightarrow> startCleanup w e
                                       | Inr _ \<Rightarrow>
                                           let descriptor = \<lparr>ed_instanceId = instanceId, ed_pid = pid, ed_startedAt = startedAt,
                                                 ed_port = port, ed_frameworkVersion = so_frameworkVersion options,
                                                 ed_releaseId = so_releaseId options, ed_tokenFileRef = tokenFileRef\<rparr>;
                                               st = startState descriptor (sha token) origins limits registry;
                                               st' = snd (publishNotification notificationId startedAt
                                                 (startedNotification instanceId) st)
                                           in \<lparr>sr_result = Inr \<lparr>srv_state = st', srv_open = [], srv_answers = []\<rparr>,
                                               sr_lockHeld = True, sr_listening = True\<rparr>))))))))"

text \<open>\<open>stop\<close>: the streams and the server are closed, the control files removed, the lock released.\<close>

definition stopRuntime :: "startWorld \<Rightarrow> server \<Rightarrow> (controlError + unit) \<times> server \<times> bool" where
  "stopRuntime w s =
     (let s' = onState stopRequests s in
      if \<not> sw_removed w \<or> \<not> sw_released w then (Inl OtherError, s', True) else (Inr (), s', False))"

end
