(* ===== verification/Control_Invariant.thy ===== *)
theory Control_Invariant
  imports Control_Server
begin

text \<open>
  The invariant of the server of \<open>Control_Server\<close>: its limits hold after every request, timer and notification,
  the slots in use are those of the requests in flight, and only authorized requests are served.
\<close>

section \<open>The bounds of a server\<close>

definition isSafe :: "int \<Rightarrow> bool" where
  "isSafe n \<longleftrightarrow> 1 \<le> n \<and> n \<le> 2 ^ 53 - 1"

definition limitsOk :: "controlLimits \<Rightarrow> bool" where
  "limitsOk l \<longleftrightarrow> isSafe (cl_maxResponseBytes l) \<and> isSafe (cl_maxConcurrentRequests l) \<and> isSafe (cl_authFailureCapacity l) \<and>
     isSafe (cl_authFailureWindowMs l) \<and> isSafe (cl_idempotencyCapacity l) \<and> isSafe (cl_idempotencyTtlMs l) \<and>
     isSafe (cl_sseConnectionCapacity l) \<and> isSafe (cl_sseRetentionCapacity l) \<and> isSafe (cl_sseHeartbeatMs l) \<and>
     isSafe (cl_sseMaxBufferedBytes l)"

definition streamsOk :: "controlLimits \<Rightarrow> eventConnection list \<Rightarrow> bool" where
  "streamsOk l cs \<longleftrightarrow> distinct (map ec_id cs) \<and> int (length cs) \<le> cl_sseConnectionCapacity l \<and>
     (\<forall>c \<in> set cs. 0 \<le> ec_bufferedBytes c \<and> ec_bufferedBytes c \<le> cl_sseMaxBufferedBytes l)"

definition stateOk :: "serverState \<Rightarrow> bool" where
  "stateOk st \<longleftrightarrow> limitsOk (sv_limits st) \<and> streamsOk (sv_limits st) (sv_connections st) \<and>
     int (length (sv_notifications st)) \<le> cl_sseRetentionCapacity (sv_limits st) \<and>
     length (sv_authFailures st) \<le> 32 \<and> registryOk (sv_idempotency st) \<and>
     int (ir_capacity (sv_idempotency st)) = cl_idempotencyCapacity (sv_limits st)"

text \<open>What no request or event changes: the identity, the token and the limits of the runtime.\<close>

definition sameRuntime :: "serverState \<Rightarrow> serverState \<Rightarrow> bool" where
  "sameRuntime st st' \<longleftrightarrow> sv_descriptor st' = sv_descriptor st \<and> sv_tokenHash st' = sv_tokenHash st \<and>
     sv_allowedOrigins st' = sv_allowedOrigins st \<and> sv_limits st' = sv_limits st \<and>
     sv_activeRequests st' = sv_activeRequests st"

text \<open>The streams there have been: the open ones and the closed ones.\<close>

definition streamIds :: "serverState \<Rightarrow> nat set" where
  "streamIds st = ec_id ` (set (sv_connections st) \<union> set (sv_closed st))"

definition keeps :: "serverState \<Rightarrow> serverState \<Rightarrow> bool" where
  "keeps st st' \<longleftrightarrow> stateOk st' \<and> sameRuntime st st' \<and>
     ec_id ` set (sv_connections st') \<subseteq> ec_id ` set (sv_connections st) \<and> streamIds st' = streamIds st"

lemma keeps_refl [simp]: "keeps st st \<longleftrightarrow> stateOk st"
  by (simp add: keeps_def sameRuntime_def)

lemma sameRuntime_trans: "sameRuntime st st1 \<Longrightarrow> sameRuntime st1 st2 \<Longrightarrow> sameRuntime st st2"
  by (simp add: sameRuntime_def)

lemma keeps_trans: "keeps st st1 \<Longrightarrow> keeps st1 st2 \<Longrightarrow> keeps st st2"
  unfolding keeps_def using sameRuntime_trans subset_trans by metis

lemma keeps_ok: "keeps st st' \<Longrightarrow> stateOk st'"
  by (simp add: keeps_def)

lemma setKey_length: "length (setKey k v kvs) = (if k \<in> fst ` set kvs then length kvs else Suc (length kvs))"
  by (induction k v kvs rule: setKey.induct) auto

lemma registerAuthFailure_keeps:
  assumes "stateOk st" shows "keeps st (snd (registerAuthFailure now remote st))"
proof -
  let ?fs = "sv_authFailures st"
  have l: "length ?fs \<le> 32" using assms by (simp add: stateOk_def)
  have present: "remote \<in> fst ` set ?fs" if "map_of ?fs remote = Some e" for e
    using map_of_SomeD [OF that] by force
  have "length (setKey remote e (if x \<and> length ?fs \<ge> 32 then tl ?fs else ?fs)) \<le> 32"
    if "\<not> x \<longrightarrow> remote \<in> fst ` set ?fs" for x e
    using l that by (auto simp: setKey_length)
  moreover have "\<not> (case map_of ?fs remote of None \<Rightarrow> True | Some entry \<Rightarrow> af_resetAt entry \<le> now) \<longrightarrow> remote \<in> fst ` set ?fs"
    using present by (auto split: option.splits)
  ultimately show ?thesis
    using assms by (simp add: registerAuthFailure_def Let_def keeps_def stateOk_def sameRuntime_def streamIds_def)
qed

lemma rejectUnauthorized_keeps:
  assumes "stateOk st" "rejectUnauthorized h ids req st = (a, st')" shows "keeps st st'"
proof -
  define remote where "remote = (case rq_remoteAddress req of None \<Rightarrow> js ''unknown'' | Some r \<Rightarrow> r)"
  obtain x y st1 where r: "registerAuthFailure (hd_now h) remote st = ((x, y), st1)" by (metis prod.collapse)
  have k: "keeps st st1" using registerAuthFailure_keeps [OF assms(1), of "hd_now h" remote] by (simp add: r)
  have s: "st' = st1 \<or> (\<exists>f. st' = st1\<lparr>sv_securityFinding := f\<rparr>)"
    using assms(2) unfolding rejectUnauthorized_def remote_def [symmetric] Let_def r by (auto split: if_splits)
  have "keeps st1 (st1\<lparr>sv_securityFinding := f\<rparr>)" for f
    using keeps_ok [OF k] by (simp add: keeps_def stateOk_def sameRuntime_def streamIds_def)
  then show ?thesis using k s keeps_trans by blast
qed

lemma beforeBody_keeps:
  assumes "stateOk st" "beforeBody h ids req st = (r, st')" shows "keeps st st'"
  using assms(2) rejectUnauthorized_keeps [OF assms(1)] assms(1)
  unfolding beforeBody_def Let_def by (auto split: if_splits option.splits headerValue.splits prod.splits)

lemma writeSseFrame_ok:
  assumes "writeSseFrame c data m = Some c'" "0 \<le> ec_bufferedBytes c"
  shows "ec_id c' = ec_id c \<and> 0 \<le> ec_bufferedBytes c' \<and> ec_bufferedBytes c' \<le> m \<and>
    ec_frames c' = ec_frames c @ [data]"
  using assms by (auto simp: writeSseFrame_def Let_def split: if_splits)

lemma replayFrames_ok:
  "replayFrames m c ns = (w, c') \<Longrightarrow> 0 \<le> ec_bufferedBytes c \<Longrightarrow> ec_bufferedBytes c \<le> m \<Longrightarrow>
     ec_id c' = ec_id c \<and> 0 \<le> ec_bufferedBytes c' \<and> ec_bufferedBytes c' \<le> m"
proof (induction m c ns rule: replayFrames.induct)
  case (2 m c n ns)
  show ?case
  proof (cases "writeSse c n m")
    case None
    then show ?thesis using 2 by simp
  next
    case (Some d)
    then have "ec_id d = ec_id c \<and> 0 \<le> ec_bufferedBytes d \<and> ec_bufferedBytes d \<le> m"
      using writeSseFrame_ok 2(3) by (auto simp: writeSse_def)
    then show ?thesis using 2 Some by auto
  qed
qed simp

lemma startReplay_ok:
  assumes "startReplay lastId st c = (w, c')" "0 \<le> ec_bufferedBytes c" "ec_bufferedBytes c \<le> cl_sseMaxBufferedBytes (sv_limits st)"
  shows "ec_id c' = ec_id c \<and> 0 \<le> ec_bufferedBytes c' \<and> ec_bufferedBytes c' \<le> cl_sseMaxBufferedBytes (sv_limits st)"
proof -
  have "w = True \<and> c' = c \<or> (\<exists>ns. replayFrames (cl_sseMaxBufferedBytes (sv_limits st)) c ns = (w, c')) \<or>
      (\<exists>d. writeSseFrame c gapFrame (cl_sseMaxBufferedBytes (sv_limits st)) = Some d \<and> c' = d) \<or> c' = c"
    using assms(1) by (auto simp: startReplay_def Let_def split: option.splits if_splits)
  then show ?thesis using assms(2,3) replayFrames_ok writeSseFrame_ok by blast
qed

lemma streamsOk_close: "streamsOk l cs \<Longrightarrow> streamsOk l (filter P cs)"
  using length_filter_le [of P cs] by (auto simp: streamsOk_def distinct_filter_map simp del: length_filter_le)

lemma closeEventConnection_keeps: "stateOk st \<Longrightarrow> ec_id c \<in> streamIds st \<Longrightarrow> keeps st (closeEventConnection c st)"
proof -
  assume a: "stateOk st" and c: "ec_id c \<in> streamIds st"
  then have "streamsOk (sv_limits st) (filter (\<lambda>d. ec_id d \<noteq> ec_id c) (sv_connections st))"
    by (simp add: stateOk_def streamsOk_close)
  then show ?thesis using a c by (auto simp: keeps_def stateOk_def sameRuntime_def closeEventConnection_def streamIds_def)
qed

text \<open>Replacing a stream by one of the same name.\<close>

lemma streams_update_keeps:
  assumes "stateOk st"
    and "\<forall>d \<in> set (sv_connections st). ec_id (f d) = ec_id d \<and> 0 \<le> ec_bufferedBytes (f d) \<and>
      ec_bufferedBytes (f d) \<le> cl_sseMaxBufferedBytes (sv_limits st)"
  shows "keeps st (st\<lparr>sv_connections := map f (sv_connections st)\<rparr>)"
proof -
  have ids: "map ec_id (map f (sv_connections st)) = map ec_id (sv_connections st)" using assms(2) by simp
  then have "streamsOk (sv_limits st) (map f (sv_connections st))"
    using assms unfolding streamsOk_def ids by (simp add: stateOk_def streamsOk_def)
  moreover have "ec_id ` f ` set (sv_connections st) = ec_id ` set (sv_connections st)"
    using arg_cong [OF ids, of set] by (simp add: image_image)
  ultimately show ?thesis using assms(1) by (simp add: keeps_def stateOk_def sameRuntime_def streamIds_def image_Un)
qed

lemma heartbeat_keeps: "stateOk st \<Longrightarrow> keeps st (heartbeat c st)"
proof -
  assume a: "stateOk st"
  show ?thesis
  proof (cases "find (\<lambda>d. ec_id d = c) (sv_connections st)")
    case None
    then show ?thesis using a by (simp add: heartbeat_def)
  next
    case (Some d)
    then have d: "d \<in> set (sv_connections st)" "ec_id d = c" by (auto simp: find_Some_iff)
    show ?thesis
    proof (cases "writeSseFrame d heartbeatFrame (cl_sseMaxBufferedBytes (sv_limits st))")
      case None
      then show ?thesis using Some closeEventConnection_keeps [OF a] d by (auto simp: heartbeat_def streamIds_def)
    next
      case w: (Some d')
      have "0 \<le> ec_bufferedBytes d" using a d(1) by (simp add: stateOk_def streamsOk_def)
      note k = writeSseFrame_ok [OF w this]
      have "keeps st (st\<lparr>sv_connections := map (\<lambda>e. if ec_id e = c then d' else e) (sv_connections st)\<rparr>)"
        by (rule streams_update_keeps [OF a]) (use k d a in \<open>auto simp: stateOk_def streamsOk_def\<close>)
      then show ?thesis using Some w by (simp add: heartbeat_def)
    qed
  qed
qed

lemma flushed_keeps: "stateOk st \<Longrightarrow> 0 \<le> n \<Longrightarrow> keeps st (flushed c n st)"
  unfolding flushed_def by (rule streams_update_keeps) (auto simp: stateOk_def streamsOk_def)

lemma streamEnded_keeps: "stateOk st \<Longrightarrow> keeps st (streamEnded c st)"
  using closeEventConnection_keeps by (auto simp: streamEnded_def streamIds_def find_Some_iff split: option.splits)

lemma stopRequests_keeps: "stateOk st \<Longrightarrow> keeps st (stopRequests st)"
proof -
  assume a: "stateOk st"
  have closes: "stateOk s \<Longrightarrow> ec_id ` set cs \<subseteq> streamIds s \<Longrightarrow> keeps s (fold closeEventConnection cs s)" for cs s
  proof (induction cs arbitrary: s)
    case (Cons c cs)
    have k: "keeps s (closeEventConnection c s)" using Cons.prems by (intro closeEventConnection_keeps) auto
    have "ec_id ` set cs \<subseteq> streamIds (closeEventConnection c s)" using Cons.prems(2) k by (simp add: keeps_def)
    from keeps_trans [OF k Cons.IH [OF keeps_ok [OF k] this]] show ?case by simp
  qed simp
  have k: "keeps st (st\<lparr>sv_stopRequested := True\<rparr>)" using a by (simp add: keeps_def stateOk_def sameRuntime_def streamIds_def)
  have "ec_id ` set (sv_connections st) \<subseteq> streamIds (st\<lparr>sv_stopRequested := True\<rparr>)" by (auto simp: streamIds_def)
  from keeps_trans [OF k closes [OF keeps_ok [OF k] this]] show ?thesis by (simp add: stopRequests_def)
qed

lemma broadcast_keeps: "stateOk st \<Longrightarrow> keeps st (broadcast n cs st)"
  if "\<forall>c \<in> set cs. 0 \<le> ec_bufferedBytes c \<and> ec_id c \<in> streamIds st" for cs
  using that
proof (induction cs arbitrary: st)
  case (Cons c cs)
  define st1 where "st1 = (case writeSse c n (cl_sseMaxBufferedBytes (sv_limits st)) of
      None \<Rightarrow> closeEventConnection c st
    | Some c' \<Rightarrow> st\<lparr>sv_connections := map (\<lambda>d. if ec_id d = ec_id c then c' else d) (sv_connections st)\<rparr>)"
  have "keeps st st1"
  proof (cases "writeSse c n (cl_sseMaxBufferedBytes (sv_limits st))")
    case None
    then show ?thesis using closeEventConnection_keeps [OF Cons.prems(1)] Cons.prems(2) by (simp add: st1_def)
  next
    case (Some c')
    have "0 \<le> ec_bufferedBytes c" using Cons.prems(2) by simp
    then have "ec_id c' = ec_id c \<and> 0 \<le> ec_bufferedBytes c' \<and> ec_bufferedBytes c' \<le> cl_sseMaxBufferedBytes (sv_limits st)"
      using writeSseFrame_ok Some unfolding writeSse_def by blast
    then have "keeps st (st\<lparr>sv_connections := map (\<lambda>d. if ec_id d = ec_id c then c' else d) (sv_connections st)\<rparr>)"
      by (intro streams_update_keeps [OF Cons.prems(1)]) (use Cons.prems(1) in \<open>auto simp: stateOk_def streamsOk_def\<close>)
    then show ?thesis by (simp add: st1_def Some)
  qed
  moreover have "broadcast n (c # cs) st = broadcast n cs st1" by (simp add: st1_def)
  moreover have "keeps st1 (broadcast n cs st1)"
    by (rule Cons.IH) (use \<open>keeps st st1\<close> keeps_ok Cons.prems(2) in \<open>auto simp: keeps_def\<close>)
  ultimately show ?case using keeps_trans by simp
qed simp

lemma publishNotification_keeps:
  assumes "stateOk st" "publishNotification i t candidate st = (r, st')" shows "keeps st st'"
proof -
  let ?n = "newNotification i t candidate" and ?cap = "cl_sseRetentionCapacity (sv_limits st)"
  define retained where
    "retained = drop (length (sv_notifications st @ [(i, ?n)]) - nat ?cap) (sv_notifications st @ [(i, ?n)])"
  let ?st1 = "st\<lparr>sv_notifications := retained, sv_sequence := sv_sequence st + 1\<rparr>"
  have cases: "st' = st \<or> st' = broadcast (i, ?n) (sv_connections st) ?st1"
    using assms(2) unfolding publishNotification_def Let_def retained_def by (auto split: if_splits)
  have "length retained \<le> nat ?cap" unfolding retained_def length_drop by simp
  then have "int (length retained) \<le> ?cap" using assms(1) by (simp add: stateOk_def limitsOk_def isSafe_def nat_le_iff le_nat_iff)
  then have k: "keeps st ?st1" using assms(1) by (simp add: keeps_def stateOk_def sameRuntime_def streamIds_def)
  have "keeps ?st1 (broadcast (i, ?n) (sv_connections st) ?st1)"
    by (rule broadcast_keeps) (use assms(1) keeps_ok [OF k] in \<open>auto simp: stateOk_def streamsOk_def streamIds_def\<close>)
  then show ?thesis using cases assms(1) keeps_trans [OF k] by auto
qed

text \<open>A route may open an event stream of the name it is given; otherwise the streams only close.\<close>

definition opens :: "nat \<Rightarrow> serverState \<Rightarrow> serverState \<Rightarrow> bool" where
  "opens c st st' \<longleftrightarrow> stateOk st' \<and> sameRuntime st st' \<and>
     ec_id ` set (sv_connections st') \<subseteq> insert c (ec_id ` set (sv_connections st)) \<and>
     streamIds st' \<subseteq> insert c (streamIds st)"

lemma keeps_opens: "keeps st st' \<Longrightarrow> opens c st st'"
  by (auto simp: keeps_def opens_def)

lemma serveEvents_opens:
  assumes ok: "stateOk st" and new: "c \<notin> ec_id ` set (sv_connections st)" and s: "serveEvents c ids req st = (r, st')"
  shows "opens c st st'"
proof (cases "int (length (sv_connections st)) \<ge> cl_sseConnectionCapacity (sv_limits st)")
  case True
  then show ?thesis using s ok keeps_opens by (auto simp: serveEvents_def)
next
  case False
  let ?c = "\<lparr>ec_id = c, ec_bufferedBytes = 0, ec_frames = []\<rparr>"
  obtain w d where d: "startReplay (headerText req ''last-event-id'') st ?c = (w, d)" by fastforce
  let ?st1 = "st\<lparr>sv_connections := sv_connections st @ [d]\<rparr>"
  have k: "ec_id d = c \<and> 0 \<le> ec_bufferedBytes d \<and> ec_bufferedBytes d \<le> cl_sseMaxBufferedBytes (sv_limits st)"
    using startReplay_ok [OF d] ok by (simp add: stateOk_def limitsOk_def isSafe_def)
  have "streamsOk (sv_limits st) (sv_connections st @ [d])"
    using ok False new k by (auto simp: stateOk_def streamsOk_def)
  then have o: "opens c st ?st1" using ok k by (auto simp: opens_def stateOk_def sameRuntime_def streamIds_def)
  then have "keeps ?st1 (closeEventConnection d ?st1)" by (intro closeEventConnection_keeps) (auto simp: opens_def streamIds_def)
  then have "opens c st (closeEventConnection d ?st1)" using o by (auto simp: opens_def keeps_def sameRuntime_def)
  then show ?thesis using s False d o by (auto simp: serveEvents_def Let_def split: if_splits)
qed

lemma registry_keeps:
  "stateOk st \<Longrightarrow> registryOk r \<Longrightarrow> ir_capacity r = ir_capacity (sv_idempotency st) \<Longrightarrow> keeps st (st\<lparr>sv_idempotency := r\<rparr>)"
  by (simp add: keeps_def stateOk_def sameRuntime_def streamIds_def)

lemma serveStop_keeps:
  assumes ok: "stateOk st" and s: "serveStop h ids req st = (a, st')" shows "keeps st st'"
proof -
  have r0: "registryOk (sv_idempotency st)" using ok by (simp add: stateOk_def)
  have l: "registryOk (snd (idempotencyLookup key p now (sv_idempotency st))) \<and>
      ir_capacity (snd (idempotencyLookup key p now (sv_idempotency st))) = ir_capacity (sv_idempotency st)" for key p now
    by (rule registryStep_ok [OF registryStep.Lookup r0])
  have rec: "registryOk (snd (idempotencyRecord key p i now (snd (idempotencyLookup key p now (sv_idempotency st))))) \<and>
      ir_capacity (snd (idempotencyRecord key p i now (snd (idempotencyLookup key p now (sv_idempotency st))))) =
        ir_capacity (sv_idempotency st)" for key p now i
    using registryStep_ok [OF registryStep.Record] l by metis
  have "st' = st \<or> (\<exists>r. registryOk r \<and> ir_capacity r = ir_capacity (sv_idempotency st) \<and> st' = st\<lparr>sv_idempotency := r\<rparr>)"
  proof (cases "headerText req ''idempotency-key''")
    case None
    then show ?thesis using s by (simp add: serveStop_def)
  next
    case (Some key)
    let ?p = "stopPayloadHash (hd_sha h) (ed_instanceId (sv_descriptor st))"
    obtain f r where f: "idempotencyLookup key ?p (hd_later h) (sv_idempotency st) = (f, r)" by fastforce
    have r: "registryOk r \<and> ir_capacity r = ir_capacity (sv_idempotency st)" using l [of key ?p "hd_later h"] by (simp add: f)
    have r': "registryOk (snd (idempotencyRecord key ?p i (hd_later h) r)) \<and>
        ir_capacity (snd (idempotencyRecord key ?p i (hd_later h) r)) = ir_capacity (sv_idempotency st)" for i
      using rec [of key ?p i "hd_later h"] by (simp add: f)
    show ?thesis
      using s r r' by (cases f) (auto simp: serveStop_def Some f Let_def split: if_splits)
  qed
  then show ?thesis using ok registry_keeps by auto
qed

lemma serveRoute_opens:
  assumes ok: "stateOk st" and new: "c \<notin> ec_id ` set (sv_connections st)"
    and s: "serveRoute c h ids pathname req st = (r, st')"
  shows "opens c st st'"
proof -
  have f: "keeps st (snd (securityFindings now st))" for now
    using ok by (simp add: securityFindings_def keeps_def stateOk_def sameRuntime_def streamIds_def split: option.split)
  have m: "keeps st (snd (metadata now st))" for now
    using registryStep_ok [OF registryStep.Size, of "sv_idempotency st" now] ok registry_keeps [OF ok]
    by (cases "registrySize now (sv_idempotency st)") (simp add: metadata_def Let_def stateOk_def)
  have "keeps st st' \<or> serveEvents c ids req st = (r, st')"
    using s ok serveStop_keeps [OF ok] f [of "hd_later h"] m [of "hd_later h"]
    by (auto simp: serveRoute_def Let_def split: if_splits prod.splits)
  then show ?thesis using keeps_opens serveEvents_opens [OF ok new] by blast
qed

lemma afterBody_opens:
  assumes "stateOk st" "c \<notin> ec_id ` set (sv_connections st)" "afterBody c h ids pathname req chunks st = (r, st')"
  shows "opens c st st'"
  using assms(3) serveRoute_opens [OF assms(1,2)] keeps_opens assms(1)
  by (auto simp: afterBody_def split: sum.splits prod.splits)

section \<open>The requests in flight\<close>

definition slots :: "openRequest list \<Rightarrow> int" where
  "slots rs = int (length (filter or_slotOwned rs))"

definition serverOk :: "server \<Rightarrow> bool" where
  "serverOk s \<longleftrightarrow> stateOk (srv_state s) \<and> distinct (map or_id (srv_open s)) \<and>
     sv_activeRequests (srv_state s) = slots (srv_open s) \<and>
     sv_activeRequests (srv_state s) \<le> cl_maxConcurrentRequests (sv_limits (srv_state s)) \<and>
     or_id ` set (srv_open s) \<inter> ec_id ` set (sv_connections (srv_state s)) = {}"

text \<open>Events that can happen: requests have new numbers, and no more is flushed than nothing.\<close>

fun eventOk :: "serverEvent \<Rightarrow> server \<Rightarrow> bool" where
  "eventOk (Arrive i h req) s = (i \<notin> or_id ` set (srv_open s) \<and> i \<notin> ec_id ` set (sv_connections (srv_state s)))"
| "eventOk (Flushed c n) s = (0 \<le> n)"
| "eventOk e s = True"

lemma addActive_simps [simp]:
  "sv_limits (addActive n st) = sv_limits st" "sv_connections (addActive n st) = sv_connections st"
  "sv_activeRequests (addActive n st) = sv_activeRequests st + n" "stateOk (addActive n st) = stateOk st"
  "sv_descriptor (addActive n st) = sv_descriptor st" "sv_tokenHash (addActive n st) = sv_tokenHash st"
  "sv_allowedOrigins (addActive n st) = sv_allowedOrigins st" "sv_idempotency (addActive n st) = sv_idempotency st"
  "sv_notifications (addActive n st) = sv_notifications st" "streamIds (addActive n st) = streamIds st"
  by (simp_all add: addActive_def stateOk_def streamIds_def)

lemma answerWith_simps [simp]: "srv_state (answerWith i a s) = srv_state s" "srv_open (answerWith i a s) = srv_open s"
  by (simp_all add: answerWith_def)

lemma dropOpen_simps [simp]: "srv_state (dropOpen i s) = srv_state s"
    "srv_open (dropOpen i s) = filter (\<lambda>r. or_id r \<noteq> i) (srv_open s)"
  by (simp_all add: dropOpen_def)

lemma slots_drop:
  assumes "distinct (map or_id rs)" "find (\<lambda>r. or_id r = i) rs = Some r"
  shows "slots (filter (\<lambda>r. or_id r \<noteq> i) rs) = slots rs - (if or_slotOwned r then 1 else 0)"
  using assms
proof (induction rs)
  case (Cons q rs)
  show ?case
  proof (cases "or_id q = i")
    case True
    then have "or_id q' \<noteq> i" if "q' \<in> set rs" for q' using Cons.prems(1) that True by (metis distinct.simps(2) imageI list.set_map list.simps(9))
    then have "filter (\<lambda>r. or_id r \<noteq> i) rs = rs" by (simp add: filter_id_conv)
    then show ?thesis using True Cons.prems(2) by (auto simp: slots_def)
  next
    case False
    then show ?thesis using Cons by (auto simp: slots_def)
  qed
qed simp

lemma releaseSlot_state: "releaseSlot r st = (if or_slotOwned r then addActive (- 1) st else st)"
  by (simp add: releaseSlot_def)

text \<open>A request leaves with its slot, after whatever it did to the state.\<close>

lemma leave_ok:
  assumes ok: "serverOk s" and r: "findOpen i s = Some r" and st: "opens i (srv_state s) st'"
  shows "serverOk (dropOpen i (s\<lparr>srv_state := releaseSlot r st'\<rparr>))"
proof -
  have d: "distinct (map or_id (srv_open s))" using ok by (simp add: serverOk_def)
  have f: "find (\<lambda>r. or_id r = i) (srv_open s) = Some r" using r by (simp add: findOpen_def)
  have "slots (filter (\<lambda>r. or_id r \<noteq> i) (srv_open s)) = slots (srv_open s) - (if or_slotOwned r then 1 else 0)"
    by (rule slots_drop [OF d f])
  moreover have "or_id ` set (filter (\<lambda>r. or_id r \<noteq> i) (srv_open s)) \<inter> ec_id ` set (sv_connections st') = {}"
  proof -
    have "or_id ` set (filter (\<lambda>r. or_id r \<noteq> i) (srv_open s)) \<subseteq> or_id ` set (srv_open s) - {i}" by auto
    moreover have "ec_id ` set (sv_connections st') \<subseteq> insert i (ec_id ` set (sv_connections (srv_state s)))"
      using st by (simp add: opens_def)
    moreover have "or_id ` set (srv_open s) \<inter> ec_id ` set (sv_connections (srv_state s)) = {}"
      using ok by (simp add: serverOk_def)
    ultimately show ?thesis by blast
  qed
  ultimately show ?thesis
    using ok st by (simp add: serverOk_def opens_def sameRuntime_def releaseSlot_state distinct_filter_map)
qed

lemma on_state_ok:
  assumes "serverOk s" "keeps (srv_state s) st'" shows "serverOk (s\<lparr>srv_state := st'\<rparr>)"
  using assms by (fastforce simp: serverOk_def keeps_def sameRuntime_def)

lemma serverOk_answer [simp]: "serverOk (answerWith i a s) = serverOk s"
  by (simp add: serverOk_def)

lemma arrive_ok:
  assumes ok: "serverOk s" and new: "eventOk (Arrive i h req) s" shows "serverOk (arrive i h req s)"
proof -
  let ?ids = "identity (hd_requestId h) req" and ?st = "srv_state s"
  obtain r st' where b: "beforeBody h ?ids req (addActive 1 ?st) = (r, st')" by fastforce
  have k: "keeps (addActive 1 ?st) st'" by (rule beforeBody_keeps [OF _ b]) (use ok in \<open>simp add: serverOk_def\<close>)
  show ?thesis
  proof (cases "sv_activeRequests ?st \<ge> cl_maxConcurrentRequests (sv_limits ?st) \<or>
      int (byteLength (case rq_url req of None \<Rightarrow> [] | Some u \<Rightarrow> u)) > cl_maxUrlBytes (sv_limits ?st)")
    case True
    then show ?thesis using ok by (auto simp: arrive_def Let_def)
  next
    case False
    show ?thesis
    proof (cases r)
      case (Inl a)
      have "keeps ?st (addActive (- 1) st')"
        using k by (auto simp: keeps_def sameRuntime_def)
      then show ?thesis using False on_state_ok [OF ok] by (simp add: arrive_def Let_def b Inl)
    next
      case (Inr pathname)
      let ?r = "\<lparr>or_id = i, or_request = req, or_ids = ?ids, or_path = pathname, or_slotOwned = True, or_timedOut = False\<rparr>"
      have a: "arrive i h req s = s\<lparr>srv_state := st', srv_open := srv_open s @ [?r]\<rparr>"
        using False by (simp add: arrive_def Let_def b Inr)
      have "ec_id ` set (sv_connections st') \<subseteq> ec_id ` set (sv_connections ?st)" using k by (simp add: keeps_def)
      then have "or_id ` set (srv_open s @ [?r]) \<inter> ec_id ` set (sv_connections st') = {}"
        using ok new by (simp add: serverOk_def) blast
      then show ?thesis
        using False ok new k unfolding a by (simp add: serverOk_def keeps_def sameRuntime_def slots_def)
    qed
  qed
qed

lemma bodyRead_ok: "serverOk s \<Longrightarrow> serverOk (bodyRead i h chunks s)"
proof -
  assume ok: "serverOk s"
  show ?thesis
  proof (cases "findOpen i s")
    case None
    then show ?thesis using ok by (simp add: bodyRead_def)
  next
    case (Some r)
    obtain x st' where a: "afterBody i h (or_ids r) (or_path r) (or_request r) chunks (srv_state s) = (x, st')" by fastforce
    have i: "i \<in> or_id ` set (srv_open s)" using Some by (auto simp: findOpen_def find_Some_iff)
    then have "i \<notin> ec_id ` set (sv_connections (srv_state s))" using ok by (auto simp: serverOk_def)
    then have "opens i (srv_state s) st'" using afterBody_opens [OF _ _ a] ok by (simp add: serverOk_def)
    moreover have "opens i (srv_state s) (srv_state s)" using ok keeps_opens by (simp add: serverOk_def)
    ultimately show ?thesis
      using leave_ok [OF ok Some] Some a by (cases x) (auto simp: bodyRead_def)
  qed
qed

lemma timeout_ok: "serverOk s \<Longrightarrow> serverOk (timeout i s)"
proof -
  assume ok: "serverOk s"
  show ?thesis
  proof (cases "findOpen i s")
    case None
    then show ?thesis using ok by (simp add: timeout_def)
  next
    case (Some r)
    let ?f = "\<lambda>q. if or_id q = i then q\<lparr>or_slotOwned := False, or_timedOut := True\<rparr> else q"
    have d: "distinct (map or_id (srv_open s))" using ok by (simp add: serverOk_def)
    have ids: "map or_id (map ?f (srv_open s)) = map or_id (srv_open s)" by simp
    have eq: "or_id ` (\<lambda>x. ?f x) ` set (srv_open s) = or_id ` set (srv_open s)"
      using arg_cong [OF ids, of set] by (simp only: set_map)
    have "filter or_slotOwned (map ?f rs) = filter or_slotOwned (filter (\<lambda>r. or_id r \<noteq> i) rs)" for rs
      by (induction rs) auto
    then have "slots (map ?f (srv_open s)) = slots (filter (\<lambda>r. or_id r \<noteq> i) (srv_open s))"
      unfolding slots_def by (rule arg_cong)
    also have "\<dots> = slots (srv_open s) - (if or_slotOwned r then 1 else 0)"
      using slots_drop [OF d] Some by (simp add: findOpen_def)
    finally have sl: "slots (map ?f (srv_open s)) = slots (srv_open s) - (if or_slotOwned r then 1 else 0)" .
    show ?thesis
      using ok Some sl eq ids
      by (auto simp: timeout_def serverOk_def releaseSlot_state simp del: map_map)
  qed
qed

lemma responseClosed_ok: "serverOk s \<Longrightarrow> serverOk (responseClosed i s)"
proof (cases "findOpen i s")
  case (Some r)
  assume ok: "serverOk s"
  then have "opens i (srv_state s) (srv_state s)" using keeps_opens by (simp add: serverOk_def)
  from leave_ok [OF ok Some this] show ?thesis by (simp add: responseClosed_def Some)
qed (simp add: responseClosed_def)

lemma serverStep_ok:
  assumes ok: "serverOk s" and e: "eventOk e s" shows "serverOk (serverStep e s)"
proof -
  have st: "stateOk (srv_state s)" using ok by (simp add: serverOk_def)
  show ?thesis
  proof (cases e)
    case (Arrive i h req)
    then show ?thesis using arrive_ok [OF ok] e by simp
  next
    case (Publish i t c)
    then show ?thesis
      using on_state_ok [OF ok publishNotification_keeps [OF st]] by (simp add: onState_def prod_eq_iff)
  qed (use e on_state_ok [OF ok] bodyRead_ok [OF ok] timeout_ok [OF ok] responseClosed_ok [OF ok] heartbeat_keeps [OF st]
      flushed_keeps [OF st] streamEnded_keeps [OF st] stopRequests_keeps [OF st] in \<open>simp_all add: onState_def\<close>)
qed

section \<open>A started server\<close>

lemma overlay_key: "map_of a k = Some v \<Longrightarrow> map_of (overlay a b) k = Some (case map_of b k of None \<Rightarrow> v | Some w \<Rightarrow> w)"
proof -
  assume "map_of a k = Some v"
  then have "map_of (map (\<lambda>(k, v). (k, case map_of b k of None \<Rightarrow> v | Some w \<Rightarrow> w)) a) k =
      Some (case map_of b k of None \<Rightarrow> v | Some w \<Rightarrow> w)"
    by (induction a) (auto split: if_splits option.splits)
  then show ?thesis by (simp add: overlay_def map_add_Some_iff)
qed

lemma mergeLimits_ok: "mergeLimits given = Some l \<Longrightarrow> limitsOk l"
proof -
  assume m: "mergeLimits given = Some l"
  let ?result = "overlay defaultLimits given"
  have all: "\<exists>n. v = Some n \<and> isSafe n" if "(k, v) \<in> set ?result" for k v
    using m that by (force simp: mergeLimits_def Let_def list_ex_iff isSafe_def split: if_splits option.splits)
  have pos: "isSafe (limitOf ?result k)" if "map_of defaultLimits (js k) \<noteq> None" for k
  proof -
    from that obtain u where "map_of defaultLimits (js k) = Some u" by blast
    from overlay_key [OF this, of given] obtain v where "map_of ?result (js k) = Some v" by simp
    then show ?thesis using all [OF map_of_SomeD] by (fastforce simp: limitOf_def)
  qed
  have "list_all (\<lambda>k. map_of defaultLimits (js k) \<noteq> None) [''maxResponseBytes'', ''maxConcurrentRequests'',
      ''authFailureCapacity'', ''authFailureWindowMs'', ''idempotencyCapacity'', ''idempotencyTtlMs'', ''sseConnectionCapacity'',
      ''sseRetentionCapacity'', ''sseHeartbeatMs'', ''sseMaxBufferedBytes'']"
    by code_simp
  then have keys: "isSafe (limitOf ?result k)" if "k \<in> set [''maxResponseBytes'', ''maxConcurrentRequests'',
      ''authFailureCapacity'', ''authFailureWindowMs'', ''idempotencyCapacity'', ''idempotencyTtlMs'', ''sseConnectionCapacity'',
      ''sseRetentionCapacity'', ''sseHeartbeatMs'', ''sseMaxBufferedBytes'']" for k
    using that unfolding list_all_iff by (intro pos) blast
  have "cl_maxResponseBytes l = limitOf ?result ''maxResponseBytes'' \<and>
      cl_maxConcurrentRequests l = limitOf ?result ''maxConcurrentRequests'' \<and>
      cl_authFailureCapacity l = limitOf ?result ''authFailureCapacity'' \<and>
      cl_authFailureWindowMs l = limitOf ?result ''authFailureWindowMs'' \<and>
      cl_idempotencyCapacity l = limitOf ?result ''idempotencyCapacity'' \<and>
      cl_idempotencyTtlMs l = limitOf ?result ''idempotencyTtlMs'' \<and>
      cl_sseConnectionCapacity l = limitOf ?result ''sseConnectionCapacity'' \<and>
      cl_sseRetentionCapacity l = limitOf ?result ''sseRetentionCapacity'' \<and>
      cl_sseHeartbeatMs l = limitOf ?result ''sseHeartbeatMs'' \<and>
      cl_sseMaxBufferedBytes l = limitOf ?result ''sseMaxBufferedBytes''"
    using m by (simp add: mergeLimits_def Let_def split: if_split_asm) (hypsubst, simp)
  then show ?thesis unfolding limitsOk_def by (simp only: keys list.set insert_iff simp_thms)
qed

text \<open>What a successful start leaves: the state of the options, and one notification.\<close>

lemma startControlApi_state:
  assumes "sr_result (startControlApi sha w instanceId nid startedAt pid ref options) = Inr s"
  shows "\<exists>limits registry descriptor origins token.
    mergeLimits (so_limits options) = Some limits \<and> sw_token w = Inr token \<and>
    normalizedOrigins (sw_parseUrl w) (case so_allowedOrigins options of None \<Rightarrow> [] | Some os \<Rightarrow> os) = Inr origins \<and>
    newIdempotencyRegistry (cl_idempotencyCapacity limits) (cl_idempotencyTtlMs limits) = Some registry \<and>
    ed_instanceId descriptor = instanceId \<and>
    s = \<lparr>srv_state = snd (publishNotification nid startedAt (startedNotification instanceId)
            (startState descriptor (sha token) origins limits registry)), srv_open = [], srv_answers = []\<rparr>"
proof -
  have fails: "sr_result (startFailed e x) \<noteq> Inr s" "sr_result (startCleanup w e) \<noteq> Inr s" for e x
    by (simp_all add: startFailed_def startCleanup_def)
  show ?thesis
    using assms unfolding startControlApi_def
    by (auto simp: fails Let_def split: if_splits option.splits sum.splits
        intro!: exI [of _ "\<lparr>ed_instanceId = instanceId, ed_pid = pid, ed_startedAt = startedAt, ed_port = _,
          ed_frameworkVersion = so_frameworkVersion options, ed_releaseId = so_releaseId options, ed_tokenFileRef = ref\<rparr>"])
qed

lemma startControlApi_ok:
  assumes "sr_result (startControlApi sha w instanceId nid startedAt pid ref options) = Inr s" shows "serverOk s"
proof -
  obtain limits registry descriptor origins token where l: "mergeLimits (so_limits options) = Some limits"
    and r: "newIdempotencyRegistry (cl_idempotencyCapacity limits) (cl_idempotencyTtlMs limits) = Some registry"
    and s: "s = \<lparr>srv_state = snd (publishNotification nid startedAt (startedNotification instanceId)
            (startState descriptor (sha token) origins limits registry)), srv_open = [], srv_answers = []\<rparr>"
    using startControlApi_state [OF assms] by metis
  let ?st = "startState descriptor (sha token) origins limits registry"
  have "registryOk registry" "int (ir_capacity registry) = cl_idempotencyCapacity limits"
    using r by (auto simp: newIdempotencyRegistry_def registryOk_def split: if_splits)
  then have "stateOk ?st"
    using mergeLimits_ok [OF l] by (simp add: startState_def stateOk_def streamsOk_def limitsOk_def isSafe_def)
  then have k: "keeps ?st (srv_state s)"
    unfolding s by (simp add: publishNotification_keeps prod_eq_iff)
  then have "sv_connections (srv_state s) = [] \<and> sv_activeRequests (srv_state s) = 0"
    by (simp add: keeps_def sameRuntime_def startState_def)
  then show ?thesis
    using keeps_ok [OF k] by (simp add: serverOk_def s slots_def stateOk_def limitsOk_def isSafe_def)
qed

section \<open>Runs\<close>

fun serverRun :: "serverEvent list \<Rightarrow> server \<Rightarrow> server" where
  "serverRun [] s = s"
| "serverRun (e # es) s = serverRun es (serverStep e s)"

fun runOk :: "serverEvent list \<Rightarrow> server \<Rightarrow> bool" where
  "runOk [] s = True"
| "runOk (e # es) s = (eventOk e s \<and> runOk es (serverStep e s))"

lemma serverRun_ok: "runOk es s \<Longrightarrow> serverOk s \<Longrightarrow> serverOk (serverRun es s)"
  by (induction es arbitrary: s) (auto intro: serverStep_ok)

lemma serverRun_append: "serverRun (es @ es') s = serverRun es' (serverRun es s)"
  by (induction es arbitrary: s) auto

lemma runOk_append: "runOk (es @ es') s \<longleftrightarrow> runOk es s \<and> runOk es' (serverRun es s)"
  by (induction es arbitrary: s) auto

section \<open>Who is served\<close>

text \<open>
  A request that may be served: it came over the loopback interface to this port, from no browser origin or a
  registered one, and carries a bearer token with the hash of the runtime's token.
\<close>

definition authorized :: "handling \<Rightarrow> serverState \<Rightarrow> controlRequest \<Rightarrow> bool" where
  "authorized h st req \<longleftrightarrow>
     rq_localAddress req = Some loopback \<and> exactHostHeader req (hostOf st) \<and>
     (header req ''origin'' = None \<or> (\<exists>s \<in> set (sv_allowedOrigins st). header req ''origin'' = Some (HStr s))) \<and>
     (\<exists>t. headerText req ''authorization'' = Some (js ''Bearer '' @ t) \<and> hd_sha h t = sv_tokenHash st)"

lemma authorized_cong:
  "sv_descriptor st' = sv_descriptor st \<Longrightarrow> sv_tokenHash st' = sv_tokenHash st \<Longrightarrow> sv_allowedOrigins st' = sv_allowedOrigins st \<Longrightarrow>
   authorized h st' req = authorized h st req"
  by (simp add: authorized_def hostOf_def)

lemma tokenMatches_bearer: "tokenMatches sha h e \<Longrightarrow> \<exists>t. h = Some (js ''Bearer '' @ t) \<and> sha t = e"
proof -
  assume t: "tokenMatches sha h e"
  then obtain s where s: "h = Some s" "startsWith s (js ''Bearer '')" "sha (drop 7 s) = e"
    by (auto simp: tokenMatches_def split: option.splits)
  then obtain t where "s = js ''Bearer '' @ t" by (auto simp: startsWith_iff)
  moreover have "length (js ''Bearer '') = 7" by (simp add: js_def)
  ultimately show ?thesis using s by (auto simp: js_def)
qed

lemma sendProblem_refuses:
  "an_status (sendProblem st ids status code title detail retry) \<in> {status, 500}"
  "\<not> an_stop (sendProblem st ids status code title detail retry)"
  by (simp_all add: sendProblem_def sendJson_def)

text \<open>An answer that gives nothing away and stops nothing.\<close>

definition refusal :: "answer \<Rightarrow> bool" where
  "refusal a \<longleftrightarrow> an_status a \<noteq> 200 \<and> an_status a \<noteq> 202 \<and> \<not> an_stop a"

lemma refusal_problem: "status \<noteq> 200 \<Longrightarrow> status \<noteq> 202 \<Longrightarrow> refusal (sendProblem st ids status code title detail retry)"
  using sendProblem_refuses [of st ids status code title detail retry] by (auto simp: refusal_def)

lemma refusal_withOrigin [simp]: "refusal (withOrigin req a) = refusal a"
  by (simp add: refusal_def withOrigin_def)

lemma refusal_retryAfter [simp]: "refusal (a\<lparr>an_retryAfter := x\<rparr>) = refusal a"
  by (simp add: refusal_def)

lemma rejectUnauthorized_refuses: "rejectUnauthorized h ids req st = (a, st') \<Longrightarrow> refusal a"
  unfolding rejectUnauthorized_def Let_def by (auto simp: refusal_problem split: prod.splits if_splits)

lemma beforeBody_refuses: "beforeBody h ids req st = (Inl a, st') \<Longrightarrow> refusal a"
  using rejectUnauthorized_refuses [of h ids req st a st'] unfolding beforeBody_def Let_def
  by (auto simp: refusal_problem split: if_splits option.splits prod.splits) (auto simp: refusal_def)

lemma beforeBody_authorized: "beforeBody h ids req st = (Inr p, st') \<Longrightarrow> authorized h st req"
proof -
  assume b: "beforeBody h ids req st = (Inr p, st')"
  then have t: "tokenMatches (hd_sha h) (headerText req ''authorization'') (sv_tokenHash st)"
    and l: "rq_localAddress req = Some loopback" "exactHostHeader req (hostOf st)"
    and o: "\<not> (case header req ''origin'' of None \<Rightarrow> False | Some (HList _) \<Rightarrow> True | Some (HStr s) \<Rightarrow> s \<notin> set (sv_allowedOrigins st))"
    unfolding beforeBody_def Let_def by (auto split: if_split_asm option.split_asm prod.split_asm)
  from o have "header req ''origin'' = None \<or> (\<exists>s \<in> set (sv_allowedOrigins st). header req ''origin'' = Some (HStr s))"
    by (auto split: option.splits headerValue.splits)
  then show ?thesis using tokenMatches_bearer [OF t] l by (simp add: authorized_def)
qed

section \<open>Over a run\<close>

text \<open>Only numbers that satisfy \<open>P\<close> are served, or being served.\<close>

definition servesOnly :: "(nat \<Rightarrow> bool) \<Rightarrow> server \<Rightarrow> bool" where
  "servesOnly P s \<longleftrightarrow> (\<forall>(i, a) \<in> set (srv_answers s). refusal a \<or> P i) \<and> (\<forall>r \<in> set (srv_open s). P (or_id r)) \<and>
     (\<forall>c \<in> streamIds (srv_state s). P c)"

definition sameIdentity :: "server \<Rightarrow> server \<Rightarrow> bool" where
  "sameIdentity s s' \<longleftrightarrow> sv_descriptor (srv_state s') = sv_descriptor (srv_state s) \<and>
     sv_tokenHash (srv_state s') = sv_tokenHash (srv_state s) \<and>
     sv_allowedOrigins (srv_state s') = sv_allowedOrigins (srv_state s) \<and> sv_limits (srv_state s') = sv_limits (srv_state s)"

lemma servesOnly_True: "servesOnly (\<lambda>_. True) s"
  by (auto simp: servesOnly_def)

lemma servesOnly_answer: "servesOnly P (answerWith i a s) \<longleftrightarrow> (refusal a \<or> P i) \<and> servesOnly P s"
  by (auto simp: servesOnly_def answerWith_def)

lemma releaseSlot_simps [simp]:
  "streamIds (releaseSlot r st) = streamIds st" "sv_descriptor (releaseSlot r st) = sv_descriptor st"
  "sv_tokenHash (releaseSlot r st) = sv_tokenHash st" "sv_allowedOrigins (releaseSlot r st) = sv_allowedOrigins st"
  "sv_limits (releaseSlot r st) = sv_limits st"
  by (simp_all add: releaseSlot_state)

lemma servesOnly_state:
  assumes "servesOnly P s" "keeps (srv_state s) st'"
  shows "servesOnly P (s\<lparr>srv_state := st'\<rparr>) \<and> sameIdentity s (s\<lparr>srv_state := st'\<rparr>)"
  using assms by (simp add: servesOnly_def keeps_def sameRuntime_def sameIdentity_def)

lemma servesOnly_leave:
  assumes "servesOnly P s" "findOpen i s = Some r" "opens i (srv_state s) st'"
  shows "servesOnly P (dropOpen i (s\<lparr>srv_state := releaseSlot r st'\<rparr>)) \<and>
    sameIdentity s (dropOpen i (s\<lparr>srv_state := releaseSlot r st'\<rparr>)) \<and> P i"
proof -
  have "r \<in> set (srv_open s)" "or_id r = i" using assms(2) by (auto simp: findOpen_def find_Some_iff)
  then have "P i" using assms(1) by (auto simp: servesOnly_def)
  then show ?thesis using assms(1,3) by (auto simp: servesOnly_def opens_def sameRuntime_def sameIdentity_def dropOpen_def)
qed

lemma arrive_serves:
  assumes ok: "serverOk s" and s: "servesOnly P s" and p: "authorized h (srv_state s) req \<Longrightarrow> P i"
  shows "servesOnly P (arrive i h req s) \<and> sameIdentity s (arrive i h req s)"
proof -
  let ?ids = "identity (hd_requestId h) req" and ?st = "srv_state s"
  obtain r st' where b: "beforeBody h ?ids req (addActive 1 ?st) = (r, st')" by fastforce
  have k: "keeps (addActive 1 ?st) st'" by (rule beforeBody_keeps [OF _ b]) (use ok in \<open>simp add: serverOk_def\<close>)
  show ?thesis
  proof (cases "sv_activeRequests ?st \<ge> cl_maxConcurrentRequests (sv_limits ?st) \<or>
      int (byteLength (case rq_url req of None \<Rightarrow> [] | Some u \<Rightarrow> u)) > cl_maxUrlBytes (sv_limits ?st)")
    case True
    then show ?thesis using s by (auto simp: arrive_def Let_def servesOnly_answer refusal_problem sameIdentity_def)
  next
    case False
    show ?thesis
    proof (cases r)
      case (Inl a)
      have "keeps ?st (addActive (- 1) st')" using k by (auto simp: keeps_def sameRuntime_def)
      from servesOnly_state [OF s this] beforeBody_refuses [of h ?ids req _ a st'] show ?thesis
        using False b by (simp add: arrive_def Let_def Inl servesOnly_answer sameIdentity_def)
    next
      case (Inr pathname)
      have "authorized h ?st req"
        using beforeBody_authorized [of h ?ids req "addActive 1 ?st" pathname st'] b Inr
        by (simp add: authorized_cong [of "addActive 1 ?st" ?st])
      then have "P i" by (rule p)
      then show ?thesis
        using False b Inr s k by (simp add: arrive_def Let_def servesOnly_def keeps_def sameRuntime_def sameIdentity_def)
    qed
  qed
qed

lemma bodyRead_serves:
  assumes ok: "serverOk s" and s: "servesOnly P s"
  shows "servesOnly P (bodyRead i h chunks s) \<and> sameIdentity s (bodyRead i h chunks s)"
proof (cases "findOpen i s")
  case None
  then show ?thesis using s by (simp add: bodyRead_def sameIdentity_def)
next
  case (Some r)
  obtain x st' where a: "afterBody i h (or_ids r) (or_path r) (or_request r) chunks (srv_state s) = (x, st')" by fastforce
  have i: "i \<in> or_id ` set (srv_open s)" using Some by (auto simp: findOpen_def find_Some_iff)
  then have "i \<notin> ec_id ` set (sv_connections (srv_state s))" using ok by (auto simp: serverOk_def)
  then have "opens i (srv_state s) st'" using afterBody_opens [OF _ _ a] ok by (simp add: serverOk_def)
  moreover have "opens i (srv_state s) (srv_state s)" using ok keeps_opens by (simp add: serverOk_def)
  ultimately show ?thesis
    using servesOnly_leave [OF s Some, of st'] servesOnly_leave [OF s Some, of "srv_state s"] Some a
    by (cases x) (simp_all add: bodyRead_def servesOnly_answer sameIdentity_def)
qed

lemma timeout_serves:
  assumes s: "servesOnly P s" shows "servesOnly P (timeout i s) \<and> sameIdentity s (timeout i s)"
proof (cases "findOpen i s")
  case (Some r)
  have "r \<in> set (srv_open s)" "or_id r = i" using Some by (auto simp: findOpen_def find_Some_iff)
  then have "P i" using s by (auto simp: servesOnly_def)
  then show ?thesis using s Some by (auto simp: timeout_def servesOnly_def sameIdentity_def answerWith_def)
qed (use s in \<open>simp add: timeout_def sameIdentity_def\<close>)

lemma responseClosed_serves:
  assumes ok: "serverOk s" and s: "servesOnly P s"
  shows "servesOnly P (responseClosed i s) \<and> sameIdentity s (responseClosed i s)"
proof (cases "findOpen i s")
  case (Some r)
  have "opens i (srv_state s) (srv_state s)" using ok keeps_opens by (simp add: serverOk_def)
  from servesOnly_leave [OF s Some this] show ?thesis by (simp add: responseClosed_def Some)
qed (use s in \<open>simp add: responseClosed_def sameIdentity_def\<close>)

lemma serverStep_serves:
  assumes ok: "serverOk s" and e: "eventOk e s" and s: "servesOnly P s"
    and p: "\<And>i h req. e = Arrive i h req \<Longrightarrow> authorized h (srv_state s) req \<Longrightarrow> P i"
  shows "servesOnly P (serverStep e s) \<and> sameIdentity s (serverStep e s)"
proof -
  have st: "stateOk (srv_state s)" using ok by (simp add: serverOk_def)
  show ?thesis
  proof (cases e)
    case (Arrive i h req)
    then show ?thesis using arrive_serves [OF ok s] p by simp
  next
    case (Publish i t c)
    then show ?thesis
      using servesOnly_state [OF s publishNotification_keeps [OF st]] by (simp add: onState_def prod_eq_iff)
  qed (use e servesOnly_state [OF s] bodyRead_serves [OF ok s] timeout_serves [OF s] responseClosed_serves [OF ok s]
      heartbeat_keeps [OF st] flushed_keeps [OF st] streamEnded_keeps [OF st] stopRequests_keeps [OF st]
      in \<open>simp_all add: onState_def\<close>)
qed

fun arrivals :: "serverEvent list \<Rightarrow> nat list" where
  "arrivals [] = []"
| "arrivals (Arrive i h req # es) = i # arrivals es"
| "arrivals (e # es) = arrivals es"

lemma arrivals_mem: "Arrive i h req \<in> set es \<Longrightarrow> i \<in> set (arrivals es)"
  by (induction es rule: arrivals.induct) auto

lemma arrivals_unique:
  "distinct (arrivals es) \<Longrightarrow> Arrive i h req \<in> set es \<Longrightarrow> Arrive i h' req' \<in> set es \<Longrightarrow> h' = h \<and> req' = req"
  by (induction es rule: arrivals.induct) (auto dest: arrivals_mem)

lemma serverRun_serves:
  assumes "runOk es s" "serverOk s" "servesOnly P s"
    "\<And>i h req. Arrive i h req \<in> set es \<Longrightarrow> authorized h (srv_state s) req \<Longrightarrow> P i"
  shows "servesOnly P (serverRun es s) \<and> sameIdentity s (serverRun es s)"
  using assms
proof (induction es arbitrary: s)
  case Nil
  then show ?case by (simp add: sameIdentity_def)
next
  case (Cons e es)
  have k: "servesOnly P (serverStep e s) \<and> sameIdentity s (serverStep e s)"
    by (rule serverStep_serves) (use Cons.prems in auto)
  have "authorized h (srv_state (serverStep e s)) req = authorized h (srv_state s) req" for h req
    using k by (intro authorized_cong) (simp_all add: sameIdentity_def)
  then have "servesOnly P (serverRun es (serverStep e s)) \<and> sameIdentity (serverStep e s) (serverRun es (serverStep e s))"
  proof (intro Cons.IH)
    show "P i" if "Arrive i h req \<in> set es" "authorized h (srv_state (serverStep e s)) req" for i h req
      using Cons.prems(4) [of i h req] that \<open>\<And>h req. authorized h (srv_state (serverStep e s)) req = authorized h (srv_state s) req\<close>
      by simp
  qed (use Cons.prems k serverStep_ok in auto)
  then show ?case using k by (simp add: sameIdentity_def)
qed

lemma startControlApi_fresh:
  assumes "sr_result (startControlApi sha w instanceId nid startedAt pid ref options) = Inr s"
  shows "srv_answers s = [] \<and> srv_open s = [] \<and> streamIds (srv_state s) = {} \<and>
    (\<exists>token. sw_token w = Inr token \<and> sv_tokenHash (srv_state s) = sha token)"
proof -
  from startControlApi_state [OF assms] obtain limits registry descriptor origins token where
    l: "mergeLimits (so_limits options) = Some limits" and t: "sw_token w = Inr token"
    and r: "newIdempotencyRegistry (cl_idempotencyCapacity limits) (cl_idempotencyTtlMs limits) = Some registry"
    and s: "s = \<lparr>srv_state = snd (publishNotification nid startedAt (startedNotification instanceId)
            (startState descriptor (sha token) origins limits registry)), srv_open = [], srv_answers = []\<rparr>"
    by metis
  let ?st = "startState descriptor (sha token) origins limits registry"
  have "registryOk registry" "int (ir_capacity registry) = cl_idempotencyCapacity limits"
    using r by (auto simp: newIdempotencyRegistry_def registryOk_def split: if_splits)
  then have "stateOk ?st"
    using mergeLimits_ok [OF l] by (simp add: startState_def stateOk_def streamsOk_def limitsOk_def isSafe_def)
  then have "keeps ?st (srv_state s)" unfolding s by (simp add: publishNotification_keeps prod_eq_iff)
  then show ?thesis using t by (simp add: keeps_def sameRuntime_def s startState_def streamIds_def)
qed

end
