(* ===== verification/Control_Streams.thy ===== *)
theory Control_Streams
  imports Control_Invariant
begin

text \<open>
  What the event streams of the server carry: how the connections and the retained notifications follow the
  history of everything published, and how failed authentications are limited.
\<close>

section \<open>The rate of failed authentications\<close>

text \<open>Failed attempts of one remote address, one after the other: whether each was limited.\<close>

fun failedAttempts :: "jstring \<Rightarrow> int list \<Rightarrow> serverState \<Rightarrow> bool list" where
  "failedAttempts remote [] st = []"
| "failedAttempts remote (t # ts) st =
     (case registerAuthFailure t remote st of ((limited, _), st') \<Rightarrow> limited # failedAttempts remote ts st')"

lemma map_of_setKey: "map_of (setKey k v kvs) k = Some v"
  by (induction k v kvs rule: setKey.induct) auto

lemma registerAuthFailure_counts:
  assumes "map_of (sv_authFailures st) remote = Some \<lparr>af_count = n, af_resetAt = r\<rparr>" "t < r"
  shows "\<exists>st'. registerAuthFailure t remote st =
      ((cl_authFailureCapacity (sv_limits st) < n + 1, max 1 (- ((t - r) div 1000))), st') \<and> sv_limits st' = sv_limits st \<and>
    map_of (sv_authFailures st') remote = Some \<lparr>af_count = n + 1, af_resetAt = r\<rparr>"
  using assms by (simp add: registerAuthFailure_def Let_def map_of_setKey)

lemma failedAttempts_counted:
  assumes "map_of (sv_authFailures st) remote = Some \<lparr>af_count = int n, af_resetAt = r\<rparr>" "\<forall>t \<in> set ts. t < r"
  shows "failedAttempts remote ts st =
    map (\<lambda>k. cl_authFailureCapacity (sv_limits st) < int k) [Suc n..<Suc n + length ts]"
  using assms
proof (induction ts arbitrary: st n)
  case (Cons t ts)
  obtain st' x where s: "registerAuthFailure t remote st = ((cl_authFailureCapacity (sv_limits st) < int (Suc n), x), st')"
      "sv_limits st' = sv_limits st"
      "map_of (sv_authFailures st') remote = Some \<lparr>af_count = int (Suc n), af_resetAt = r\<rparr>"
    using registerAuthFailure_counts [OF Cons.prems(1), of t] Cons.prems(2) by (force simp: algebra_simps)
  have "failedAttempts remote ts st' =
      map (\<lambda>k. cl_authFailureCapacity (sv_limits st) < int k) [Suc (Suc n)..<Suc (Suc n) + length ts]"
    using Cons.IH [OF s(3)] Cons.prems(2) s(2) by simp
  moreover have "[Suc n..<Suc n + length (t # ts)] = Suc n # [Suc (Suc n)..<Suc (Suc n) + length ts]"
    using upt_conv_Cons [of "Suc n" "Suc n + length (t # ts)"] by simp
  ultimately show ?case using s(1) by simp
qed simp

section \<open>What a stream has carried\<close>

definition frameOf :: "jstring \<times> json \<Rightarrow> jstring" where
  "frameOf n = sseFrame (fst n) (kindOf (snd n)) (snd n)"

definition carried :: "eventConnection \<Rightarrow> jstring list" where
  "carried c = filter (\<lambda>f. f \<noteq> heartbeatFrame \<and> f \<noteq> gapFrame) (ec_frames c)"

lemma frameOf_first: "hd (frameOf n) = 105 \<and> frameOf n \<noteq> []"
  by (simp add: frameOf_def sseFrame_def js_def)

lemma frameOf_carried [simp]: "frameOf n \<noteq> heartbeatFrame" "frameOf n \<noteq> gapFrame"
  using frameOf_first [of n] by (auto simp: heartbeatFrame_def gapFrame_def js_def)

text \<open>What the events of a run publish, in order.\<close>

fun publishedBy :: "serverEvent \<Rightarrow> server \<Rightarrow> (jstring \<times> json) list" where
  "publishedBy (Publish i t c) s = (case fst (publishNotification i t c (srv_state s)) of Inl _ \<Rightarrow> [] | Inr n \<Rightarrow> [(i, n)])"
| "publishedBy _ s = []"

fun published :: "serverEvent list \<Rightarrow> server \<Rightarrow> (jstring \<times> json) list" where
  "published [] s = []"
| "published (e # es) s = publishedBy e s @ published es (serverStep e s)"

definition segment :: "(jstring \<times> json) list \<Rightarrow> eventConnection \<Rightarrow> bool" where
  "segment hist c \<longleftrightarrow> (\<exists>pre mid post. hist = pre @ mid @ post \<and> carried c = map frameOf mid)"

definition upToNow :: "(jstring \<times> json) list \<Rightarrow> eventConnection \<Rightarrow> bool" where
  "upToNow hist c \<longleftrightarrow> (\<exists>pre mid. hist = pre @ mid \<and> carried c = map frameOf mid)"

definition streamsFollow :: "(jstring \<times> json) list \<Rightarrow> serverState \<Rightarrow> bool" where
  "streamsFollow hist st \<longleftrightarrow> (\<exists>old. hist = old @ sv_notifications st) \<and>
     (\<forall>c \<in> set (sv_connections st). upToNow hist c) \<and> (\<forall>c \<in> set (sv_closed st). segment hist c)"

lemma upToNow_segment: "upToNow hist c \<Longrightarrow> segment hist c"
  unfolding upToNow_def segment_def by (metis append_Nil2)

text \<open>States whose streams have carried the same.\<close>

definition sameStreams :: "serverState \<Rightarrow> serverState \<Rightarrow> bool" where
  "sameStreams st st' \<longleftrightarrow> sv_notifications st' = sv_notifications st \<and>
     carried ` set (sv_connections st') \<subseteq> carried ` set (sv_connections st) \<and>
     carried ` set (sv_closed st') \<subseteq> carried ` (set (sv_connections st) \<union> set (sv_closed st))"

lemma sameStreams_refl [simp]: "sameStreams st st"
  by (auto simp: sameStreams_def)

lemma sameStreams_eq:
  "sv_notifications st' = sv_notifications st \<Longrightarrow> sv_connections st' = sv_connections st \<Longrightarrow> sv_closed st' = sv_closed st \<Longrightarrow>
   sameStreams st st'"
  by (auto simp: sameStreams_def)

lemma upToNow_carried: "carried c = carried d \<Longrightarrow> upToNow hist c = upToNow hist d"
  by (simp add: upToNow_def)

lemma segment_carried: "carried c = carried d \<Longrightarrow> segment hist c = segment hist d"
  by (simp add: segment_def)

lemma sameStreams_follow:
  assumes f: "streamsFollow hist st" and s: "sameStreams st st'" shows "streamsFollow hist st'"
proof -
  have "upToNow hist c" if c: "c \<in> set (sv_connections st')" for c
  proof -
    obtain d where d: "d \<in> set (sv_connections st)" "carried c = carried d" using s c unfolding sameStreams_def by blast
    then have "upToNow hist d" using f by (simp add: streamsFollow_def)
    then show ?thesis using upToNow_carried [OF d(2)] by simp
  qed
  moreover have "segment hist c" if c: "c \<in> set (sv_closed st')" for c
  proof -
    obtain d where d: "d \<in> set (sv_connections st) \<union> set (sv_closed st)" "carried c = carried d"
      using s c unfolding sameStreams_def by blast
    then have "segment hist d" using f upToNow_segment [of hist d] by (auto simp: streamsFollow_def)
    then show ?thesis using segment_carried [OF d(2)] by simp
  qed
  ultimately show ?thesis using f s by (simp add: streamsFollow_def sameStreams_def)
qed

lemma carried_writeSseFrame:
  "writeSseFrame c data m = Some c' \<Longrightarrow>
     carried c' = carried c @ (if data \<noteq> heartbeatFrame \<and> data \<noteq> gapFrame then [data] else [])"
  by (auto simp: writeSseFrame_def Let_def carried_def split: if_splits)

lemma close_sameStreams: "c \<in> set (sv_connections st) \<Longrightarrow> sameStreams st (closeEventConnection c st)"
  by (auto simp: sameStreams_def closeEventConnection_def)

lemma replace_sameStreams:
  assumes "c \<in> set (sv_connections st)" "carried c' = carried c"
  shows "sameStreams st (st\<lparr>sv_connections := map (\<lambda>d. if ec_id d = i then c' else d) (sv_connections st)\<rparr>)"
proof -
  have "carried (if ec_id d = i then c' else d) \<in> carried ` set (sv_connections st)" if "d \<in> set (sv_connections st)" for d
    using assms that by simp
  then have "carried ` set (map (\<lambda>d. if ec_id d = i then c' else d) (sv_connections st)) \<subseteq> carried ` set (sv_connections st)"
    unfolding set_map image_image by blast
  then show ?thesis by (simp add: sameStreams_def image_mono)
qed

lemma heartbeat_sameStreams: "sameStreams st (heartbeat i st)"
proof (cases "find (\<lambda>d. ec_id d = i) (sv_connections st)")
  case (Some c)
  then have c: "c \<in> set (sv_connections st)" by (auto simp: find_Some_iff)
  show ?thesis
  proof (cases "writeSseFrame c heartbeatFrame (cl_sseMaxBufferedBytes (sv_limits st))")
    case None
    then show ?thesis using Some close_sameStreams [OF c] by (simp add: heartbeat_def)
  next
    case w: (Some c')
    then show ?thesis
      using Some replace_sameStreams [OF c, of c'] carried_writeSseFrame [OF w] by (simp add: heartbeat_def)
  qed
qed (simp add: heartbeat_def)

lemma flushed_sameStreams: "sameStreams st (flushed c n st)"
  by (auto simp: sameStreams_def flushed_def carried_def)

lemma streamEnded_sameStreams: "sameStreams st (streamEnded c st)"
  using close_sameStreams by (auto simp: streamEnded_def find_Some_iff split: option.splits)

lemma closeAll: "fold closeEventConnection cs st =
    st\<lparr>sv_connections := filter (\<lambda>d. ec_id d \<notin> ec_id ` set cs) (sv_connections st), sv_closed := sv_closed st @ cs\<rparr>"
proof (induction cs arbitrary: st)
  case (Cons c cs)
  have "filter (\<lambda>d. ec_id d \<notin> ec_id ` set cs) (filter (\<lambda>d. ec_id d \<noteq> ec_id c) ds) =
      filter (\<lambda>d. ec_id d \<notin> ec_id ` set (c # cs)) ds" for ds
    by (auto simp: filter_filter intro!: filter_cong)
  then show ?case unfolding fold_Cons comp_apply Cons.IH by (simp add: closeEventConnection_def)
qed simp

lemma stopRequests_sameStreams: "sameStreams st (stopRequests st)"
  by (auto simp: stopRequests_def closeAll sameStreams_def)

lemma rejectUnauthorized_sameStreams: "rejectUnauthorized h ids req st = (a, st') \<Longrightarrow> sameStreams st st'"
  unfolding rejectUnauthorized_def registerAuthFailure_def Let_def
  by (auto intro!: sameStreams_eq split: if_splits)

lemma beforeBody_sameStreams: "beforeBody h ids req st = (r, st') \<Longrightarrow> sameStreams st st'"
  using rejectUnauthorized_sameStreams [of h ids req st] unfolding beforeBody_def Let_def
  by (auto split: if_splits option.splits prod.splits)

lemma replayFrames_writes:
  "replayFrames m c ns = (w, c') \<Longrightarrow>
     \<exists>k. ec_frames c' = ec_frames c @ map frameOf (take k ns) \<and> carried c' = carried c @ map frameOf (take k ns) \<and>
       (w \<longrightarrow> k = length ns)"
proof (induction m c ns rule: replayFrames.induct)
  case (2 m c n ns)
  show ?case
  proof (cases "writeSse c n m")
    case None
    then show ?thesis using 2(2) by (intro exI [of _ 0]) simp
  next
    case (Some d)
    then have w: "writeSseFrame c (frameOf n) m = Some d" by (simp add: writeSse_def frameOf_def)
    have d: "ec_frames d = ec_frames c @ [frameOf n]" using w by (auto simp: writeSseFrame_def Let_def split: if_splits)
    obtain k where "ec_frames c' = ec_frames d @ map frameOf (take k ns) \<and> carried c' = carried d @ map frameOf (take k ns) \<and>
       (w \<longrightarrow> k = length ns)" using 2 Some by auto
    then show ?thesis using d carried_writeSseFrame [OF w] by (intro exI [of _ "Suc k"]) simp
  qed
qed (auto intro: exI [of _ 0])

lemma suffix_after: "\<exists>pre. ns = pre @ tl (dropWhile P ns)"
proof -
  have "ns = takeWhile P ns @ dropWhile P ns" by simp
  then show ?thesis by (metis append.assoc append_Cons append_Nil append_Nil2 list.collapse list.sel(2))
qed

lemma startReplay_carries:
  assumes f: "streamsFollow hist st" and s: "startReplay lastId st \<lparr>ec_id = i, ec_bufferedBytes = 0, ec_frames = []\<rparr> = (w, c)"
  shows "segment hist c \<and> (w \<longrightarrow> upToNow hist c)"
proof -
  let ?new = "\<lparr>ec_id = i, ec_bufferedBytes = 0, ec_frames = []\<rparr>" and ?m = "cl_sseMaxBufferedBytes (sv_limits st)"
  obtain old where h: "hist = old @ sv_notifications st" using f by (auto simp: streamsFollow_def)
  have new: "carried ?new = []" by (simp add: carried_def)
  have empty: "carried c = [] \<Longrightarrow> upToNow hist c" by (auto simp: upToNow_def)
  have cases: "carried c = [] \<or> (\<exists>i ns. ns = tl (dropWhile (\<lambda>n. fst n \<noteq> i) (sv_notifications st)) \<and> replayFrames ?m ?new ns = (w, c))"
  proof -
    have "c = ?new \<or> writeSseFrame ?new gapFrame ?m = Some c \<or>
        (\<exists>i ns. ns = tl (dropWhile (\<lambda>n. fst n \<noteq> i) (sv_notifications st)) \<and> replayFrames ?m ?new ns = (w, c))"
      using s by (auto simp: startReplay_def Let_def split: option.splits if_splits)
    then show ?thesis using new carried_writeSseFrame [of ?new gapFrame ?m c] by auto
  qed
  then show ?thesis
  proof
    assume "carried c = []"
    then show ?thesis using empty upToNow_segment by blast
  next
    assume "\<exists>i ns. ns = tl (dropWhile (\<lambda>n. fst n \<noteq> i) (sv_notifications st)) \<and> replayFrames ?m ?new ns = (w, c)"
    then obtain i ns where ns: "ns = tl (dropWhile (\<lambda>n. fst n \<noteq> i) (sv_notifications st))" "replayFrames ?m ?new ns = (w, c)" by blast
    obtain k where k: "carried c = map frameOf (take k ns)" "w \<longrightarrow> k = length ns"
      using replayFrames_writes [OF ns(2)] new by auto
    obtain pre where "sv_notifications st = pre @ ns" using suffix_after ns(1) by metis
    then have hist: "hist = (old @ pre) @ take k ns @ drop k ns" by (simp add: h)
    then have "segment hist c" using k(1) unfolding segment_def by blast
    moreover have "w \<longrightarrow> upToNow hist c"
      unfolding upToNow_def using hist k by (intro impI exI [of _ "old @ pre"] exI [of _ ns]) simp
    ultimately show ?thesis by blast
  qed
qed

lemma serveEvents_follow:
  assumes f: "streamsFollow hist st" and s: "serveEvents i ids req st = (r, st')" and new: "i \<notin> ec_id ` set (sv_connections st)"
  shows "streamsFollow hist st'"
proof (cases "int (length (sv_connections st)) \<ge> cl_sseConnectionCapacity (sv_limits st)")
  case True
  then show ?thesis using s f by (simp add: serveEvents_def)
next
  case False
  let ?new = "\<lparr>ec_id = i, ec_bufferedBytes = 0, ec_frames = []\<rparr>"
  obtain w c where c: "startReplay (headerText req ''last-event-id'') st ?new = (w, c)" by fastforce
  note k = startReplay_carries [OF f c]
  have "st' = (if w then st\<lparr>sv_connections := sv_connections st @ [c]\<rparr>
      else closeEventConnection c (st\<lparr>sv_connections := sv_connections st @ [c]\<rparr>))"
    using s False by (simp add: serveEvents_def Let_def c)
  then show ?thesis using f k by (cases w) (auto simp: streamsFollow_def closeEventConnection_def)
qed

lemma serveStop_sameStreams: "serveStop h ids req st = (a, st') \<Longrightarrow> sameStreams st st'"
  unfolding serveStop_def Let_def
  by (auto intro!: sameStreams_eq split: if_splits option.splits prod.splits lookupOutcome.splits)

lemma serveRoute_follow:
  assumes "streamsFollow hist st" "serveRoute i h ids pathname req st = (r, st')" "i \<notin> ec_id ` set (sv_connections st)"
  shows "streamsFollow hist st'"
proof -
  have f: "sameStreams st (snd (securityFindings now st))" for now
    by (auto simp: securityFindings_def intro!: sameStreams_eq split: option.split)
  have m: "sameStreams st (snd (metadata now st))" for now
    by (auto simp: metadata_def Let_def intro!: sameStreams_eq split: prod.split)
  have "sameStreams st st' \<or> serveEvents i ids req st = (r, st')"
    using assms(2) serveStop_sameStreams f [of "hd_later h"] m [of "hd_later h"]
    by (auto simp: serveRoute_def Let_def split: if_splits prod.splits)
  then show ?thesis using sameStreams_follow [OF assms(1)] serveEvents_follow [OF assms(1) _ assms(3)] by blast
qed

lemma afterBody_follow:
  assumes "streamsFollow hist st" "afterBody i h ids pathname req chunks st = (r, st')" "i \<notin> ec_id ` set (sv_connections st)"
  shows "streamsFollow hist st'"
  using assms(2) serveRoute_follow [OF assms(1) _ assms(3)] assms(1)
  by (auto simp: afterBody_def split: sum.splits prod.splits)

text \<open>A notification reaches every stream that can take it, and closes the others.\<close>

lemma broadcast_streams:
  "distinct (map ec_id (ds @ cs)) \<Longrightarrow> sv_connections st = ds @ cs \<Longrightarrow> m = cl_sseMaxBufferedBytes (sv_limits st) \<Longrightarrow>
   sv_connections (broadcast n cs st) = ds @ List.map_filter (\<lambda>c. writeSse c n m) cs \<and>
   sv_closed (broadcast n cs st) = sv_closed st @ filter (\<lambda>c. writeSse c n m = None) cs \<and>
   sv_notifications (broadcast n cs st) = sv_notifications st"
proof (induction cs arbitrary: ds st)
  case (Cons c cs)
  have "ec_id c \<notin> ec_id ` set ds \<union> ec_id ` set cs" using Cons.prems(1) by simp
  then have others: "ec_id d \<noteq> ec_id c" if "d \<in> set ds \<union> set cs" for d using that by (metis UnE UnI1 UnI2 imageI)
  show ?case
  proof (cases "writeSse c n m")
    case None
    let ?st = "closeEventConnection c st"
    have "filter (\<lambda>d. ec_id d \<noteq> ec_id c) ds = ds" "filter (\<lambda>d. ec_id d \<noteq> ec_id c) cs = cs"
      using others by (simp_all add: filter_id_conv)
    then have "sv_connections ?st = ds @ cs" using Cons.prems(2) by (simp add: closeEventConnection_def)
    moreover have "broadcast n (c # cs) st = broadcast n cs ?st" using None Cons.prems(3) by simp
    ultimately show ?thesis
      using Cons.IH [of ds ?st] Cons.prems None by (simp add: closeEventConnection_def map_filter_simps)
  next
    case (Some c')
    let ?st = "st\<lparr>sv_connections := map (\<lambda>d. if ec_id d = ec_id c then c' else d) (sv_connections st)\<rparr>"
    have id: "ec_id c' = ec_id c" using Some by (auto simp: writeSse_def writeSseFrame_def Let_def split: if_splits)
    have "map (\<lambda>d. if ec_id d = ec_id c then c' else d) ds = ds" "map (\<lambda>d. if ec_id d = ec_id c then c' else d) cs = cs"
      using others by (auto intro: map_idI)
    then have "sv_connections ?st = (ds @ [c']) @ cs" using Cons.prems(2) by simp
    moreover have "broadcast n (c # cs) st = broadcast n cs ?st" using Some Cons.prems(3) by simp
    ultimately show ?thesis
      using Cons.IH [of "ds @ [c']" ?st] Cons.prems Some id by (simp add: map_filter_simps)
  qed
qed (simp add: map_filter_simps)

lemma publish_follow:
  assumes f: "streamsFollow hist st" and d: "distinct (map ec_id (sv_connections st))"
    and p: "publishNotification i t candidate st = (r, st')"
  shows "streamsFollow (hist @ (case r of Inl _ \<Rightarrow> [] | Inr n \<Rightarrow> [(i, n)])) st'"
proof (cases r)
  case (Inl e)
  then show ?thesis using p f by (auto simp: publishNotification_def Let_def split: if_splits)
next
  case (Inr x)
  let ?n = "(i, x)" and ?m = "cl_sseMaxBufferedBytes (sv_limits st)"
  define retained where
    "retained = drop (length (sv_notifications st @ [?n]) - nat (cl_sseRetentionCapacity (sv_limits st))) (sv_notifications st @ [?n])"
  let ?st = "st\<lparr>sv_notifications := retained, sv_sequence := sv_sequence st + 1\<rparr>"
  have st': "st' = broadcast ?n (sv_connections st) ?st"
    using p Inr by (auto simp: publishNotification_def Let_def retained_def split: if_splits)
  have b: "sv_connections st' = List.map_filter (\<lambda>c. writeSse c ?n ?m) (sv_connections st) \<and>
     sv_closed st' = sv_closed st @ filter (\<lambda>c. writeSse c ?n ?m = None) (sv_connections st) \<and> sv_notifications st' = retained"
    unfolding st' using broadcast_streams [of "[]" "sv_connections st" ?st ?m ?n] d by simp
  obtain old where old: "hist = old @ sv_notifications st" using f by (auto simp: streamsFollow_def)
  have "\<exists>old'. hist @ [?n] = old' @ retained"
    unfolding retained_def old by (metis append.assoc append_take_drop_id)
  moreover have "upToNow (hist @ [?n]) c'" if "c' \<in> set (sv_connections st')" for c'
  proof -
    have "c' \<in> set (List.map_filter (\<lambda>c. writeSse c ?n ?m) (sv_connections st))" using that b by simp
    then obtain c where c: "c \<in> set (sv_connections st)" "writeSse c ?n ?m = Some c'" by (auto simp: map_filter_def)
    obtain pre mid where "hist = pre @ mid" "carried c = map frameOf mid" using f c(1) by (auto simp: streamsFollow_def upToNow_def)
    moreover have "carried c' = carried c @ [frameOf ?n]"
      using carried_writeSseFrame [of c "frameOf ?n" ?m c'] c(2) by (simp add: writeSse_def frameOf_def [symmetric, of ?n, simplified])
    ultimately show ?thesis unfolding upToNow_def by (intro exI [of _ pre] exI [of _ "mid @ [?n]"]) simp
  qed
  moreover have "segment (hist @ [?n]) c" if "c \<in> set (sv_closed st')" for c
  proof -
    have "segment hist c" using that b f upToNow_segment by (auto simp: streamsFollow_def)
    then show ?thesis unfolding segment_def by (metis append.assoc)
  qed
  ultimately show ?thesis using b Inr by (simp add: streamsFollow_def)
qed

lemma sameStreams_addActive [simp]: "sameStreams st (addActive n st') = sameStreams st st'" "sameStreams (addActive n st) st' = sameStreams st st'"
  by (simp_all add: sameStreams_def addActive_def)

lemma sameStreams_release [simp]: "streamsFollow hist (releaseSlot r st) = streamsFollow hist st"
  by (simp add: streamsFollow_def releaseSlot_def addActive_def)

lemma serverStep_follow:
  assumes ok: "serverOk s" and e: "eventOk e s" and f: "streamsFollow hist (srv_state s)"
  shows "streamsFollow (hist @ publishedBy e s) (srv_state (serverStep e s))"
proof -
  have same: "streamsFollow hist st'" if "sameStreams (srv_state s) st'" for st'
    using sameStreams_follow [OF f that] .
  show ?thesis
  proof (cases e)
    case (Arrive i h req)
    have "sameStreams (srv_state s) (srv_state (arrive i h req s))"
      using beforeBody_sameStreams [of h "identity (hd_requestId h) req" req "addActive 1 (srv_state s)"]
      by (auto simp: arrive_def Let_def split: prod.split sum.split)
    from same [OF this] show ?thesis using Arrive by simp
  next
    case (BodyRead i h chunks)
    have "streamsFollow hist (srv_state (bodyRead i h chunks s))"
    proof (cases "findOpen i s")
      case (Some r)
      obtain x st' where a: "afterBody i h (or_ids r) (or_path r) (or_request r) chunks (srv_state s) = (x, st')" by fastforce
      have "i \<in> or_id ` set (srv_open s)" using Some by (auto simp: findOpen_def find_Some_iff)
      then have "i \<notin> ec_id ` set (sv_connections (srv_state s))" using ok by (auto simp: serverOk_def)
      from afterBody_follow [OF f a this] show ?thesis using f Some a by (cases x) (simp_all add: bodyRead_def)
    qed (use f in \<open>simp add: bodyRead_def\<close>)
    then show ?thesis using BodyRead by simp
  next
    case (Timeout i)
    have "streamsFollow hist (srv_state (timeout i s))" using f by (simp add: timeout_def split: option.split)
    then show ?thesis using Timeout by simp
  next
    case (ResponseClosed i)
    have "streamsFollow hist (srv_state (responseClosed i s))" using f by (simp add: responseClosed_def split: option.split)
    then show ?thesis using ResponseClosed by simp
  next
    case (Publish i t c)
    obtain r st' where p: "publishNotification i t c (srv_state s) = (r, st')" by fastforce
    have "distinct (map ec_id (sv_connections (srv_state s)))" using ok by (simp add: serverOk_def stateOk_def streamsOk_def)
    from publish_follow [OF f this p] show ?thesis by (simp add: Publish onState_def p)
  qed (use same heartbeat_sameStreams flushed_sameStreams streamEnded_sameStreams stopRequests_sameStreams in \<open>simp_all add: onState_def\<close>)
qed

lemma serverRun_follow:
  "runOk es s \<Longrightarrow> serverOk s \<Longrightarrow> streamsFollow hist (srv_state s) \<Longrightarrow> streamsFollow (hist @ published es s) (srv_state (serverRun es s))"
proof (induction es arbitrary: s hist)
  case (Cons e es)
  have "streamsFollow (hist @ publishedBy e s) (srv_state (serverStep e s))"
    using serverStep_follow [of s e hist] Cons.prems by simp
  then have "streamsFollow ((hist @ publishedBy e s) @ published es (serverStep e s)) (srv_state (serverRun es (serverStep e s)))"
    using Cons.prems by (intro Cons.IH serverStep_ok) auto
  then show ?case by simp
qed simp

lemma startControlApi_follow:
  assumes "sr_result (startControlApi sha w instanceId nid startedAt pid ref options) = Inr s"
  shows "streamsFollow (sv_notifications (srv_state s)) (srv_state s)"
  using startControlApi_fresh [OF assms] by (simp add: streamsFollow_def streamIds_def)

lemma streams_follow_all:
  assumes "sr_result (startControlApi sha w instanceId nid startedAt pid ref options) = Inr s0" "runOk es s0"
  shows "streamsFollow (sv_notifications (srv_state s0) @ published es s0) (srv_state (serverRun es s0))"
  using serverRun_follow [OF assms(2) startControlApi_ok [OF assms(1)] startControlApi_follow [OF assms(1)]] .

lemma replayFrames_fit:
  "ec_bufferedBytes c + sum_list (map (\<lambda>n. int (byteLength (frameOf n))) ns) \<le> m \<Longrightarrow>
     replayFrames m c ns = (True, c\<lparr>ec_bufferedBytes := ec_bufferedBytes c + sum_list (map (\<lambda>n. int (byteLength (frameOf n))) ns),
       ec_frames := ec_frames c @ map frameOf ns\<rparr>)"
proof (induction ns arbitrary: c)
  case (Cons n ns)
  have "0 \<le> sum_list (map (\<lambda>n. int (byteLength (frameOf n))) ns)" by (intro sum_list_nonneg) auto
  then have "writeSse c n m = Some (c\<lparr>ec_bufferedBytes := ec_bufferedBytes c + int (byteLength (frameOf n)),
      ec_frames := ec_frames c @ [frameOf n]\<rparr>)"
    using Cons.prems by (simp add: writeSse_def writeSseFrame_def Let_def frameOf_def)
  then show ?case using Cons.prems by (simp add: Cons.IH algebra_simps)
qed simp

end
