(* ===== verification/Control_Events.thy ===== *)
theory Control_Events
  imports Control_Contract
begin

text \<open>
  \<open>packages/platform/src/client.ts\<close>, \<open>streamEvents\<close>: server-sent events as the client reads them from the
  chunks of a response, and the fact that where the chunks are cut does not matter.
\<close>

section \<open>The client's event stream\<close>

abbreviation eventInvalid :: controlError where
  "eventInvalid \<equiv> ControlApiError (js ''CONTROL_CLIENT_EVENT_INVALID'')"

datatype streamItem = Notification json | RetentionGap

text \<open>The text before the first empty line and the text after it.\<close>

fun splitFrame :: "jstring \<Rightarrow> (jstring \<times> jstring) option" where
  "splitFrame [] = None"
| "splitFrame [c] = None"
| "splitFrame (c # d # s) =
     (if c = 10 \<and> d = 10 then Some ([], s) else map_option (\<lambda>(f, r). (c # f, r)) (splitFrame (d # s)))"

lemma splitFrame_shorter: "splitFrame s = Some (f, r) \<Longrightarrow> length r < length s"
  by (induction s arbitrary: f rule: splitFrame.induct) (auto split: if_splits)

text \<open>The rest of the first line that starts with \<open>prefix\<close>.\<close>

definition lineValue :: "jstring \<Rightarrow> string \<Rightarrow> jstring option" where
  "lineValue frame prefix = map_option (drop (length prefix)) (find (\<lambda>line. startsWith line (js prefix)) (splitOn 10 frame))"

definition readFrame :: "(jstring \<Rightarrow> json option) \<Rightarrow> jstring \<Rightarrow> controlError + streamItem option" where
  "readFrame parse frame =
     (let event = lineValue frame ''event: ''; data = lineValue frame ''data: '' in
      if event = Some (js ''gap'') then
        (case objectValue (Option.bind data parse) of
           None \<Rightarrow> Inl eventInvalid
         | Some gap \<Rightarrow>
             if \<not> hasExactly gap [js ''code''] \<or> getKey gap ''code'' \<noteq> Some (JStr (js ''CONTROL_SSE_RETENTION_GAP''))
             then Inl eventInvalid else Inr (Some RetentionGap))
      else
        (case data of
           Some d \<Rightarrow>
             (case parse d of
                None \<Rightarrow> Inl eventInvalid
              | Some parsed \<Rightarrow>
                  if \<not> isNotification (Some parsed) \<or> event = None \<or>
                    (case parsed of JObj item \<Rightarrow> getKey item ''kind'' \<noteq> map_option JStr event | _ \<Rightarrow> True)
                  then Inl eventInvalid else Inr (Some (Notification parsed)))
         | None \<Rightarrow> if startsWith frame (js '':'') then Inr None else Inl eventInvalid))"

text \<open>The frames that are complete: the items they give, and the error that ends them or the text left.\<close>

function readFrames :: "(jstring \<Rightarrow> json option) \<Rightarrow> jstring \<Rightarrow> streamItem list \<times> (controlError + jstring)" where
  "readFrames parse pending =
     (case splitFrame pending of
        None \<Rightarrow> ([], Inr pending)
      | Some (frame, rest) \<Rightarrow>
          (case readFrame parse frame of
             Inl e \<Rightarrow> ([], Inl e)
           | Inr item \<Rightarrow>
               (case readFrames parse rest of
                  (items, outcome) \<Rightarrow> ((case item of None \<Rightarrow> items | Some i \<Rightarrow> i # items), outcome))))"
  by pat_completeness auto
termination by (relation "measure (\<lambda>(parse, pending). length pending)") (auto dest: splitFrame_shorter)

declare readFrames.simps [simp del]

record eventState =
  es_pending :: jstring
  es_bytes :: bytes \<comment> \<open>the unfinished character of the decoder\<close>
  es_undecodedBytes :: int
  es_atStart :: bool

definition startEvents :: eventState where
  "startEvents = \<lparr>es_pending = [], es_bytes = [], es_undecodedBytes = 0, es_atStart = True\<rparr>"

text \<open>The loop over the chunks: the items yielded, and how the stream ends.\<close>

fun readEventChunks :: "(jstring \<Rightarrow> json option) \<Rightarrow> nat \<Rightarrow> eventState \<Rightarrow> bytes list \<Rightarrow> streamItem list \<times> (controlError + unit)" where
  "readEventChunks parse maxBytes st [] =
     ([], if es_bytes st \<noteq> [] \<or> es_pending st \<noteq> [] then Inl eventInvalid else Inr ())"
| "readEventChunks parse maxBytes st (chunk # chunks) =
     (case decodeUtf8 (es_bytes st @ chunk) of
        None \<Rightarrow> ([], Inl eventInvalid)
      | Some (decoded, unfinished) \<Rightarrow>
          let undecodedBytes = es_undecodedBytes st + int (length chunk) - int (byteLength decoded);
              atStart = (es_atStart st \<and> decoded = []);
              shown = (if es_atStart st \<and> startsWith decoded [0xFEFF] then tl decoded else decoded);
              pending = es_pending st @ shown
          in
          if int (byteLength pending) + undecodedBytes > int maxBytes
          then ([], Inl (ControlApiError (js ''CONTROL_CLIENT_RESPONSE_TOO_LARGE'')))
          else
            (case readFrames parse pending of
               (items, Inl e) \<Rightarrow> (items, Inl e)
             | (items, Inr rest) \<Rightarrow>
                 (case readEventChunks parse maxBytes
                    \<lparr>es_pending = rest, es_bytes = unfinished, es_undecodedBytes = undecodedBytes, es_atStart = atStart\<rparr> chunks of
                    (later, outcome) \<Rightarrow> (items @ later, outcome))))"

text \<open>\<open>streamEvents\<close>; \<open>None\<close> is a request that fails or is aborted before an answer comes.\<close>

definition streamEvents ::
    "(jstring \<Rightarrow> bool) \<Rightarrow> (jstring \<Rightarrow> json option) \<Rightarrow> nat \<Rightarrow> httpAnswer option \<Rightarrow> streamItem list \<times> (controlError + unit)" where
  "streamEvents canParse parse maxBytes answer =
     (case answer of
        None \<Rightarrow> ([], Inl (ControlApiError (js ''CONTROL_CLIENT_UNAVAILABLE'')))
      | Some response \<Rightarrow>
          if ha_status response \<noteq> 200 then
            ([], Inl (case collectResponse parse maxBytes [] (ha_chunks response) of
               Inl e \<Rightarrow> e
             | Inr j \<Rightarrow> problemError canParse response j))
          else if responseMediaType (ha_contentType response) \<noteq> Some (js ''text/event-stream'')
          then ([], Inl responseInvalid)
          else readEventChunks parse maxBytes startEvents (ha_chunks response))"

section \<open>Chunks do not matter\<close>

lemma splitFrame_append: "splitFrame s = Some (f, r) \<Longrightarrow> splitFrame (s @ t) = Some (f, r @ t)"
  by (induction s arbitrary: f rule: splitFrame.induct) (auto split: if_splits)

lemma readFrames_append:
  "readFrames parse (s @ t) =
    (case readFrames parse s of
       (items, Inl e) \<Rightarrow> (items, Inl e)
     | (items, Inr rest) \<Rightarrow> (case readFrames parse (rest @ t) of (later, outcome) \<Rightarrow> (items @ later, outcome)))"
proof (induction parse s rule: readFrames.induct)
  case (1 parse s)
  show ?case
  proof (cases "splitFrame s")
    case None
    then show ?thesis by (simp add: readFrames.simps [of parse s] split: prod.split)
  next
    case (Some fr)
    obtain f r where fr: "fr = (f, r)" by (cases fr)
    have s: "splitFrame (s @ t) = Some (f, r @ t)" using splitFrame_append Some fr by simp
    show ?thesis
    proof (cases "readFrame parse f")
      case (Inl e)
      then show ?thesis using Some fr s by (simp add: readFrames.simps [of parse s] readFrames.simps [of parse "s @ t"])
    next
      case (Inr item)
      then show ?thesis
        using 1 [OF Some fr [symmetric] Inr] Some fr s
        by (cases item) (auto simp: readFrames.simps [of parse s] readFrames.simps [of parse "s @ t"] split: prod.splits sum.splits)
    qed
  qed
qed

lemma readFrames_rest: "readFrames parse s = (items, Inr rest) \<Longrightarrow> splitFrame rest = None \<and> (\<exists>p. s = p @ rest)"
proof (induction parse s arbitrary: items rule: readFrames.induct)
  case (1 parse s)
  show ?case
  proof (cases "splitFrame s")
    case None
    then show ?thesis using 1(2) by (auto simp: readFrames.simps [of parse s])
  next
    case (Some fr)
    obtain f r where fr: "fr = (f, r)" by (cases fr)
    have "\<exists>p. s = p @ r" using Some unfolding fr
      by (induction s arbitrary: f rule: splitFrame.induct) (auto split: if_splits)
    moreover obtain item where i: "readFrame parse f = Inr item"
      using 1(2) Some fr by (cases "readFrame parse f") (auto simp: readFrames.simps [of parse s])
    moreover obtain items' where "readFrames parse r = (items', Inr rest)"
      using 1(2) Some fr i by (auto simp: readFrames.simps [of parse s] split: prod.splits)
    ultimately show ?thesis using 1(1) [OF Some fr [symmetric] i] by fastforce
  qed
qed

lemma readFrames_done: "splitFrame s = None \<Longrightarrow> readFrames parse s = ([], Inr s)"
  by (simp add: readFrames.simps)

lemma byteLength_Cons: "byteLength s \<le> byteLength (c # s)" "byteLength (c # s) \<le> byteLength [c] + byteLength s"
proof -
  have "byteLength s \<le> byteLength (c # s) \<and> byteLength (c # s) \<le> byteLength [c] + byteLength s"
  proof (cases s)
    case (Cons d t)
    have high: "isHigh x \<Longrightarrow> \<not> x < 0x800 \<and> \<not> x < 0x80" "isLow x \<Longrightarrow> \<not> x < 0x800 \<and> \<not> x < 0x80" for x
      by (auto simp: isHigh_def isLow_def word_le_nat_alt word_less_nat_alt)
    show ?thesis
    proof (cases "isHigh c \<and> isLow d")
      case True
      have "byteLength (d # t) \<le> 3 + byteLength t \<and> byteLength t + 2 \<le> byteLength (d # t)"
      proof (cases t)
        case (Cons e u)
        have "\<not> isHigh d" using True by (auto simp: isHigh_def isLow_def word_le_nat_alt)
        then show ?thesis using Cons high(2) [of d] True by simp
      qed (use high(2) [of d] True in simp)
      then show ?thesis using Cons True high by auto
    qed (use Cons in auto)
  qed simp
  then show "byteLength s \<le> byteLength (c # s)" "byteLength (c # s) \<le> byteLength [c] + byteLength s" by auto
qed

lemma byteLength_suffix: "byteLength s \<le> byteLength (p @ s)"
  by (induction p) (auto intro: order_trans [OF _ byteLength_Cons(1)])

lemma byteLength_append: "byteLength (p @ s) \<le> byteLength p + byteLength s"
proof (induction p rule: byteLength.induct)
  case (2 c)
  then show ?case using byteLength_Cons(2) [of c s] by simp
next
  case (3 c d p)
  then show ?case by auto
qed simp

text \<open>How a stream whose bytes decode to a text ends, after its frames.\<close>

definition finish :: "streamItem list \<times> (controlError + jstring) \<Rightarrow> bytes \<Rightarrow> streamItem list \<times> (controlError + unit)" where
  "finish r unfinished = (case r of
       (items, Inl e) \<Rightarrow> (items, Inl e)
     | (items, Inr rest) \<Rightarrow> (items, if unfinished \<noteq> [] \<or> rest \<noteq> [] then Inl eventInvalid else Inr ()))"

lemma readEventChunks_whole:
  assumes "splitFrame (es_pending st) = None" "decodeUtf8 (es_bytes st @ concat chunks) = Some (s, unfinished)"
    "decodeUtf8 (es_bytes st) = Some ([], es_bytes st)"
    "int (byteLength (es_pending st)) + es_undecodedBytes st + int (length (concat chunks)) \<le> int maxBytes"
    "es_atStart st \<longrightarrow> \<not> startsWith s [0xFEFF]"
  shows "readEventChunks parse maxBytes st chunks = finish (readFrames parse (es_pending st @ s)) unfinished"
  using assms
proof (induction chunks arbitrary: st s)
  case Nil
  then show ?case by (simp add: readFrames_done finish_def)
next
  case (Cons chunk chunks)
  obtain d u where du: "decodeUtf8 (es_bytes st @ chunk) = Some (d, u)"
    using Cons.prems(2) decodeUtf8_append [of "es_bytes st @ chunk" "concat chunks"]
    by (cases "decodeUtf8 (es_bytes st @ chunk)") auto
  obtain t where t: "decodeUtf8 (u @ concat chunks) = Some (t, unfinished)" "s = d @ t"
    using Cons.prems(2) decodeUtf8_append [of "es_bytes st @ chunk" "concat chunks"] du
    by (cases "decodeUtf8 (u @ concat chunks)") auto
  have u: "decodeUtf8 u = Some ([], u)" using decodeUtf8_bytes [OF du] .
  have shown: "(if es_atStart st \<and> startsWith d [0xFEFF] then tl d else d) = d"
    using Cons.prems(5) t(2) by (cases d) auto
  let ?undecoded = "es_undecodedBytes st + int (length chunk) - int (byteLength d)"
  let ?pending = "es_pending st @ d"
  have "int (byteLength ?pending) \<le> int (byteLength (es_pending st)) + int (byteLength d)"
    using byteLength_append [of "es_pending st" d] by simp
  then have size: "int (byteLength ?pending) + ?undecoded + int (length (concat chunks)) \<le> int maxBytes"
    using Cons.prems(4) by simp
  obtain items outcome where f: "readFrames parse ?pending = (items, outcome)" by fastforce
  have whole: "readFrames parse (es_pending st @ s) =
      (case (items, outcome) of (items, Inl e) \<Rightarrow> (items, Inl e)
       | (items, Inr rest) \<Rightarrow> (case readFrames parse (rest @ t) of (later, outcome) \<Rightarrow> (items @ later, outcome)))"
    using readFrames_append [of parse ?pending t] f t(2) by simp
  show ?case
  proof (cases outcome)
    case (Inl e)
    then show ?thesis using du shown size f whole by (simp add: Let_def finish_def)
  next
    case (Inr rest)
    let ?st = "\<lparr>es_pending = rest, es_bytes = u, es_undecodedBytes = ?undecoded, es_atStart = es_atStart st \<and> d = []\<rparr>"
    obtain p where p: "?pending = p @ rest" "splitFrame rest = None" using readFrames_rest f Inr by blast
    have "int (byteLength rest) \<le> int (byteLength ?pending)" using p(1) byteLength_suffix by simp
    then have "int (byteLength rest) + ?undecoded + int (length (concat chunks)) \<le> int maxBytes" using size by simp
    moreover have "es_atStart ?st \<longrightarrow> \<not> startsWith t [0xFEFF]" using Cons.prems(5) t(2) by auto
    ultimately have "readEventChunks parse maxBytes ?st chunks = finish (readFrames parse (rest @ t)) unfinished"
      using Cons.IH [of ?st t] p(2) t u by simp
    then show ?thesis
      using du shown size f whole Inr by (simp add: Let_def finish_def split: prod.splits sum.splits)
  qed
qed

end
