(* ===== verification/Control_Session.thy ===== *)
theory Control_Session
  imports Control_Streams Control_Events
begin

text \<open>
  The two ends of an event stream together: the frames the server writes, cut into chunks anywhere, are the items
  the client yields, and every notification the server makes passes the client's checks.
\<close>

section \<open>Frames of the server, read by the client\<close>

text \<open>What a server writes to a stream, and what the client makes of it.\<close>

datatype sent = SentNotification "jstring \<times> json" | SentHeartbeat | SentGap

fun sentFrame :: "sent \<Rightarrow> jstring" where
  "sentFrame (SentNotification n) = frameOf n"
| "sentFrame SentHeartbeat = heartbeatFrame"
| "sentFrame SentGap = gapFrame"

fun sentItems :: "sent \<Rightarrow> streamItem list" where
  "sentItems (SentNotification n) = [Notification (snd n)]"
| "sentItems SentHeartbeat = []"
| "sentItems SentGap = [RetentionGap]"

text \<open>A notification as the server makes it: valid, with its identifier and a kind of the list.\<close>

definition notificationOk :: "(jstring \<Rightarrow> json option) \<Rightarrow> jstring \<times> json \<Rightarrow> bool" where
  "notificationOk parse n \<longleftrightarrow> isNotification (Some (snd n)) \<and> parse (stringify (snd n)) = Some (snd n) \<and> lineText (fst n) \<and>
     (\<exists>item k. snd n = JObj item \<and> k \<in> set notificationKinds \<and> getKey item ''kind'' = Some (JStr (js k)))"

fun sentOk :: "(jstring \<Rightarrow> json option) \<Rightarrow> sent \<Rightarrow> bool" where
  "sentOk parse (SentNotification n) = notificationOk parse n"
| "sentOk parse SentHeartbeat = True"
| "sentOk parse SentGap =
     (parse (stringify (obj [(''code'', text_of ''CONTROL_SSE_RETENTION_GAP'')])) = Some (obj [(''code'', text_of ''CONTROL_SSE_RETENTION_GAP'')]))"

lemma splitFrame_line: "10 \<notin> set l \<Longrightarrow> s \<noteq> [] \<Longrightarrow> splitFrame (l @ s) = map_option (\<lambda>(f, r). (l @ f, r)) (splitFrame s)"
proof (induction l)
  case (Cons c l)
  then obtain d t where "l @ s = d # t" by (cases "l @ s") auto
  then show ?case using Cons by (auto simp: option.map_comp intro!: option.map_cong)
qed (simp add: option.map_ident_strong)

lemma splitFrame_lines:
  "\<forall>l \<in> set ls. 10 \<notin> set l \<and> l \<noteq> [] \<Longrightarrow> ls \<noteq> [] \<Longrightarrow>
   splitFrame (joinWith [10] ls @ 10 # 10 # r) = Some (joinWith [10] ls, r)"
proof (induction ls)
  case (Cons l ls)
  show ?case
  proof (cases ls)
    case Nil
    then show ?thesis using Cons.prems splitFrame_line [of l "10 # 10 # r"] by (simp add: joinWith_def)
  next
    case (Cons m ms)
    have j: "joinWith [10] (l # ls) = l @ 10 # joinWith [10] ls" using Cons by (simp add: joinWith_def)
    obtain c t where c: "joinWith [10] ls = c # t" "c \<noteq> 10"
      using Cons.prems(1) Cons by (cases m; cases ms) (auto simp: joinWith_def)
    have "splitFrame (10 # joinWith [10] ls @ 10 # 10 # r) = Some (10 # joinWith [10] ls, r)"
      using Cons.IH Cons.prems Cons c by simp
    then show ?thesis using splitFrame_line [of l "10 # joinWith [10] ls @ 10 # 10 # r"] Cons.prems(1) by (simp add: j)
  qed
qed simp

lemma splitOn_line: "10 \<notin> set l \<Longrightarrow> splitOn 10 (l @ 10 # s) = l # splitOn 10 s" "10 \<notin> set l \<Longrightarrow> splitOn 10 l = [l]"
  by (induction l) (auto split: list.splits)

lemma splitOn_lines: "\<forall>l \<in> set ls. 10 \<notin> set l \<Longrightarrow> ls \<noteq> [] \<Longrightarrow> splitOn 10 (joinWith [10] ls) = ls"
proof (induction ls)
  case (Cons l ls)
  then show ?case using splitOn_line [of l] by (cases ls) (simp_all add: joinWith_def)
qed simp

text \<open>A frame as its lines, without the empty line that ends it.\<close>

definition frameLines :: "sent \<Rightarrow> jstring list" where
  "frameLines x = (case x of
       SentNotification n \<Rightarrow> [js ''id: '' @ fst n, js ''event: '' @ kindOf (snd n), js ''data: '' @ stringify (snd n)]
     | SentHeartbeat \<Rightarrow> [js '': heartbeat'']
     | SentGap \<Rightarrow> [js ''event: gap'', js ''data: '' @ stringify (obj [(''code'', text_of ''CONTROL_SSE_RETENTION_GAP'')])])"

lemma sentFrame_lines: "sentFrame x = joinWith [10] (frameLines x) @ [10, 10]"
  by (cases x) (simp_all add: frameLines_def frameOf_def sseFrame_def heartbeatFrame_def gapFrame_def joinWith_def)

lemma lineText_js: "list_all (\<lambda>c. (32 :: 16 word) \<le> of_char c \<and> of_char c < (0xD800 :: 16 word)) s \<Longrightarrow> lineText (js s)"
  by (intro lineText_plain) (auto simp: js_def list_all_iff intro: small_plain)

lemma frameLines_ok: "sentOk parse x \<Longrightarrow> l \<in> set (frameLines x) \<Longrightarrow> lineText l \<and> l \<noteq> []"
proof (cases x)
  case (SentNotification n)
  assume ok: "sentOk parse x" and l: "l \<in> set (frameLines x)"
  obtain item k where k: "snd n = JObj item" "k \<in> set notificationKinds" "getKey item ''kind'' = Some (JStr (js k))"
    using ok SentNotification by (auto simp: notificationOk_def)
  have "lineText (kindOf (snd n))"
    using k by (auto simp: kindOf_def notificationKinds_def intro!: lineText_js)
  moreover have "lineText (fst n)" using ok SentNotification by (simp add: notificationOk_def)
  ultimately show ?thesis
    using l SentNotification by (auto simp: frameLines_def intro!: lineText_append lineText_stringify lineText_js)
qed (auto simp: frameLines_def intro!: lineText_js lineText_append lineText_stringify)

lemma js_append_eq [simp]: "startsWith (js s @ t) (js s)" "startsWith (js s) (js s)"
  using startsWith_append [of "js s" "[]"] by simp_all

lemma lineValue_lines:
  "\<forall>l \<in> set ls. 10 \<notin> set l \<Longrightarrow> ls \<noteq> [] \<Longrightarrow>
   lineValue (joinWith [10] ls) p = map_option (drop (length p)) (find (\<lambda>l. startsWith l (js p)) ls)"
  by (simp add: lineValue_def splitOn_lines)

lemma readFrame_sent:
  assumes ok: "sentOk parse x"
  shows "readFrame parse (joinWith [10] (frameLines x)) = Inr (case sentItems x of [] \<Rightarrow> None | i # _ \<Rightarrow> Some i)"
proof -
  have ls: "\<forall>l \<in> set (frameLines x). 10 \<notin> set l" "frameLines x \<noteq> []"
    using frameLines_ok [OF ok] lineText_newline by (auto simp: frameLines_def split: sent.splits)
  note v = lineValue_lines [OF ls]
  show ?thesis
  proof (cases x)
    case (SentNotification n)
    obtain item k where k: "snd n = JObj item" "k \<in> set notificationKinds" "getKey item ''kind'' = Some (JStr (js k))"
      and p: "parse (stringify (snd n)) = Some (snd n)" "isNotification (Some (snd n))"
      using ok SentNotification by (auto simp: notificationOk_def)
    have kind: "kindOf (snd n) = js k" using k by (simp add: kindOf_def)
    have "lineValue (joinWith [10] (frameLines x)) ''event: '' = Some (js k)"
      "lineValue (joinWith [10] (frameLines x)) ''data: '' = Some (stringify (snd n))"
      unfolding v by (simp_all add: frameLines_def SentNotification kind js_def)
    moreover have "js k \<noteq> js ''gap''" using k(2) by (auto simp: notificationKinds_def js_def)
    ultimately show ?thesis using p k by (simp add: readFrame_def Let_def SentNotification)
  next
    case SentHeartbeat
    have "lineValue (joinWith [10] (frameLines x)) ''event: '' = None" "lineValue (joinWith [10] (frameLines x)) ''data: '' = None"
      unfolding v by (simp_all add: frameLines_def SentHeartbeat js_def)
    then show ?thesis by (simp add: readFrame_def Let_def SentHeartbeat frameLines_def joinWith_def js_def)
  next
    case SentGap
    have "lineValue (joinWith [10] (frameLines x)) ''event: '' = Some (js ''gap'')"
      "lineValue (joinWith [10] (frameLines x)) ''data: '' = Some (stringify (obj [(''code'', text_of ''CONTROL_SSE_RETENTION_GAP'')]))"
      unfolding v by (simp_all add: frameLines_def SentGap js_def)
    then show ?thesis
      using ok by (simp add: readFrame_def Let_def SentGap objectValue_def obj_def hasExactly_def objKeys_def)
  qed
qed

lemma readFrames_sent:
  assumes "list_all (sentOk parse) xs"
  shows "readFrames parse (concat (map sentFrame xs)) = (concat (map sentItems xs), Inr [])"
  using assms
proof (induction xs)
  case (Cons x xs)
  let ?rest = "concat (map sentFrame xs)"
  have "splitFrame (joinWith [10] (frameLines x) @ 10 # 10 # ?rest) = Some (joinWith [10] (frameLines x), ?rest)"
    using frameLines_ok [of parse x] lineText_newline Cons.prems
    by (intro splitFrame_lines) (auto simp: frameLines_def split: sent.splits)
  then have "splitFrame (concat (map sentFrame (x # xs))) = Some (joinWith [10] (frameLines x), ?rest)"
    by (simp add: sentFrame_lines)
  then show ?case
    using Cons readFrame_sent [of parse x]
    by (subst readFrames.simps) (cases x; simp)
qed (simp add: readFrames_done)

lemma wellFormed_frames: "list_all (sentOk parse) xs \<Longrightarrow> wellFormed (concat (map sentFrame xs))"
proof (induction xs)
  case (Cons x xs)
  have nl: "wellFormed [10, 10]" "wellFormed [10]" by (simp_all add: isHigh_def isLow_def)
  have "wellFormed (joinWith [10] ls)" if "\<forall>l \<in> set ls. lineText l" for ls
    using that
  proof (induction ls)
    case (Cons l ls)
    then have "wellFormed l" "wellFormed (joinWith [10] ls)" by (simp_all add: lineText_def)
    then show ?case
      using wellFormed_append [OF \<open>wellFormed l\<close> wellFormed_append [OF nl(2)]] by (cases ls) (simp_all add: joinWith_def)
  qed (simp add: joinWith_def)
  then have "wellFormed (sentFrame x)"
    using frameLines_ok [of parse x] Cons.prems nl unfolding sentFrame_lines by (intro wellFormed_append) auto
  then show ?case using Cons by (simp add: wellFormed_append)
qed simp

lemma frames_no_bom: "\<not> startsWith (concat (map sentFrame xs)) [0xFEFF]"
proof (cases xs)
  case (Cons x ys)
  obtain c s where "sentFrame x = c # s" "c \<noteq> 0xFEFF"
    by (cases x) (auto simp: frameOf_def sseFrame_def heartbeatFrame_def gapFrame_def js_def)
  then show ?thesis using Cons by simp
qed simp

definition eventStreamOf :: "bytes list \<Rightarrow> httpAnswer" where
  "eventStreamOf chunks = \<lparr>ha_status = 200, ha_contentType = Some (js ''text/event-stream; charset=utf-8''), ha_chunks = chunks\<rparr>"

lemma eventStream_type: "responseMediaType (ha_contentType (eventStreamOf chunks)) = Some (js ''text/event-stream'')"
proof -
  have "responseMediaType (Some (js ''text/event-stream; charset=utf-8'')) = Some (js ''text/event-stream'')" by code_simp
  then show ?thesis by (simp add: eventStreamOf_def)
qed

theorem stream_received:
  assumes "list_all (sentOk parse) xs" "concat chunks = utf8 (concat (map sentFrame xs))" "length (concat chunks) \<le> maxBytes"
  shows "streamEvents canParse parse maxBytes (Some (eventStreamOf chunks)) = (concat (map sentItems xs), Inr ())"
proof -
  have d: "decodeUtf8 (es_bytes startEvents @ concat chunks) = Some (concat (map sentFrame xs), [])"
    using decodeUtf8_utf8 [OF wellFormed_frames [OF assms(1)], of "[]"] assms(2) by (simp add: startEvents_def)
  have "readEventChunks parse maxBytes startEvents chunks =
      finish (readFrames parse (es_pending startEvents @ concat (map sentFrame xs))) []"
    by (rule readEventChunks_whole [OF _ d]) (use assms(3) frames_no_bom in \<open>simp_all add: startEvents_def\<close>)
  then have "readEventChunks parse maxBytes startEvents chunks = (concat (map sentItems xs), Inr ())"
    using readFrames_sent [OF assms(1)] by (simp add: startEvents_def finish_def)
  then show ?thesis using eventStream_type [of chunks] by (simp add: streamEvents_def) (simp add: eventStreamOf_def)
qed

section \<open>The server's notifications are valid for the client\<close>

lemma sort_keys: "distinct ks \<Longrightarrow> distinct ls \<Longrightarrow> set ks = set ls \<Longrightarrow> sort ks = sort (ls :: jstring list)"
  by (metis sorted_list_of_set_sort_remdups distinct_remdups_id)

lemma hasExactly_keys:
  assumes "distinct (map fst item)" "set expected \<subseteq> fst ` set item" "distinct expected" "length item = length expected"
  shows "hasExactly item expected"
proof -
  have "set (map fst item) = set expected"
    using assms card_subset_eq [of "set (map fst item)" "set expected"] distinct_card [of "map fst item"] distinct_card [of expected]
    by simp
  then have "sort (map fst item) = sort expected" using assms by (intro sort_keys) auto
  then show ?thesis by (simp add: hasExactly_def objKeys_def)
qed

lemma strWith_key: "strWith item k P \<Longrightarrow> js k \<in> fst ` set item"
  by (force simp: strWith_def split: option.splits dest: map_of_SomeD)

lemma strWith_text: "strWith item k P \<Longrightarrow> \<exists>s. getKey item k = Some (JStr s) \<and> P s"
  by (auto simp: strWith_def split: option.splits json.splits)

text \<open>What the server accepts as the subject of a notification, the client accepts.\<close>

lemma validSubjectRef_client:
  assumes "validSubjectRef v" "\<forall>item. v = Some (JObj item) \<longrightarrow> distinct (map fst item)" shows "isSubjectRef v"
proof -
  obtain item where v: "v = Some (JObj item)"
    using assms(1) by (auto simp: validSubjectRef_def objectValue_def split: option.splits)
  have d: "distinct (map fst item)" using assms(2) v by simp
  have s: "length item = 2 \<or> length item = 3 \<and> strWith item ''subjectVersion'' (\<lambda>_. True)"
    "strWith item ''subjectType'' (matches typeName)" "strWith item ''subjectId'' (lengthIn 1 256)"
    "getKey item ''subjectVersion'' = None \<or> strWith item ''subjectVersion'' (lengthIn 1 128)"
    using assms(1) v by (simp_all add: validSubjectRef_def objectValue_def Let_def objKeys_def)
  have keys: "js ''subjectType'' \<in> fst ` set item" "js ''subjectId'' \<in> fst ` set item"
    using s(2,3) strWith_key by blast+
  have "hasExactly item (if getKey item ''subjectVersion'' = None then map js [''subjectType'', ''subjectId'']
      else map js [''subjectType'', ''subjectId'', ''subjectVersion''])"
  proof (cases "getKey item ''subjectVersion'' = None")
    case True
    then have "length item = 2" using s(1) by (auto simp: strWith_def)
    then show ?thesis unfolding if_P [OF True] using keys d by (intro hasExactly_keys) simp_all
  next
    case False
    then have v: "js ''subjectVersion'' \<in> fst ` set item" by (simp add: map_of_eq_None_iff)
    have "card {js ''subjectType'', js ''subjectId'', js ''subjectVersion''} \<le> card (fst ` set item)"
      using v keys by (intro card_mono) auto
    then have "3 \<le> length item" using card_image_le [of "set item" fst] card_length [of item] by simp
    then have "length item = 3" using s(1) by auto
    then show ?thesis unfolding if_not_P [OF False] using keys v d by (intro hasExactly_keys) simp_all
  qed
  then show ?thesis using s v by (simp add: isSubjectRef_def objectValue_def)
qed

lemma hasExactly_obj:
  "hasExactly (map (\<lambda>(k, v). (js k, v)) kvs) ks = (joinWith [44] (sort (map js (map fst kvs))) = joinWith [44] (sort ks))"
  by (simp add: hasExactly_def objKeys_def case_prod_beta comp_def)

lemma newNotification_client:
  assumes v: "validNotification candidate" and i: "matches uuidV7 i" and t: "clientDateTime (Some (JStr t))"
    and d: "\<forall>item. getKey candidate ''subjectRef'' = Some (JObj item) \<longrightarrow> distinct (map fst item)"
  shows "isNotification (Some (newNotification i t candidate))"
proof -
  let ?m = "memberOr candidate"
  define n where "n = map (\<lambda>(k, v). (js k, v)) [(''schemaVersion'', text_of ''1.0.0''), (''notificationId'', JStr i), (''kind'', ?m ''kind''),
      (''subjectRef'', ?m ''subjectRef''), (''projectionVersion'', ?m ''projectionVersion''), (''occurredAt'', JStr t),
      (''resourceUri'', ?m ''resourceUri'')]"
  have n: "newNotification i t candidate = JObj n" by (simp add: newNotification_def obj_def n_def)
  have e: "hasExactly n (map js [''schemaVersion'', ''notificationId'', ''subjectRef'', ''projectionVersion'', ''kind'',
      ''occurredAt'', ''resourceUri''])"
    unfolding n_def hasExactly_obj by (simp only: list.map fst_conv) code_simp
  have k: "getKey n ''schemaVersion'' = Some (text_of ''1.0.0'')" "getKey n ''notificationId'' = Some (JStr i)"
    "getKey n ''kind'' = Some (?m ''kind'')" "getKey n ''subjectRef'' = Some (?m ''subjectRef'')"
    "getKey n ''projectionVersion'' = Some (?m ''projectionVersion'')" "getKey n ''occurredAt'' = Some (JStr t)"
    "getKey n ''resourceUri'' = Some (?m ''resourceUri'')"
    by (simp_all add: n_def)
  have p: "isNonNegativeInteger (Some (?m ''projectionVersion''))"
    using v by (auto simp: validNotification_def memberOr_def isNonNegativeInteger_def split: option.splits)
  have vs: "validSubjectRef (getKey candidate ''subjectRef'')" using v by (simp only: validNotification_def)
  then have "isSubjectRef (getKey candidate ''subjectRef'')" using validSubjectRef_client d by blast
  moreover obtain r where r: "getKey candidate ''subjectRef'' = Some r"
    using vs by (cases "getKey candidate ''subjectRef''") (simp_all add: validSubjectRef_def objectValue_def)
  ultimately have s: "isSubjectRef (Some (?m ''subjectRef''))" by (simp only: memberOr_def option.case)
  have "strWith candidate ''kind'' (\<lambda>s. s \<in> set (map js notificationKinds))"
    "strWith candidate ''resourceUri'' (\<lambda>s. startsWith s (js ''/v1/'') \<and> length s \<le> 1024)"
    using v by (simp_all only: validNotification_def)
  then obtain kd u where kd: "getKey candidate ''kind'' = Some (JStr kd)" "kd \<in> set (map js notificationKinds)"
    and u: "getKey candidate ''resourceUri'' = Some (JStr u)" "startsWith u (js ''/v1/'')" "length u \<le> 1024"
    by (auto dest!: strWith_text)
  have "memberOf n ''kind'' [''RUNTIME_STATUS'', ''OPERATION_METADATA'', ''EVIDENCE_METADATA'']"
    unfolding memberOf_def k(3) memberOr_def kd(1) option.case stringOf_def toStringOf.simps
    using kd(2) unfolding notificationKinds_def .
  moreover have "strWith n ''notificationId'' (matches uuidV7)" unfolding strWith_def k(2) using i by simp
  moreover have "strWith n ''resourceUri'' (\<lambda>s. startsWith s (js ''/v1/'') \<and> length s \<le> 1024)"
    unfolding strWith_def k(7) memberOr_def u(1) option.case using u(2,3) by simp
  ultimately show ?thesis
    using t p s e k(1) unfolding n isNotification_def objectValue_def option.case asObject.simps k(4-6) by blast
qed

lemma json_wf_member: "json_wf (JObj c) \<Longrightarrow> json_wf (memberOr c k)"
  by (auto simp: memberOr_def split: option.splits dest!: map_of_SomeD)

lemma newNotification_wf: "json_wf (JObj c) \<Longrightarrow> json_wf (newNotification i t c)"
  using json_wf_member [of c] by (simp add: newNotification_def obj_def del: json_wf.simps(6)) simp

lemma uuid_line: "matches uuidV7 i \<Longrightarrow> lineText i"
proof -
  assume m: "matches uuidV7 i"
  have r: "rxAll (\<lambda>(a, b). 32 \<le> a \<and> b < 0xD800) uuidV7" by code_simp
  have "plainUnit c" if "c \<in> set i" for c
    by (rule rxAll_lang [OF _ r m [unfolded matches_lang] that])
      (auto intro!: small_plain intro: order_trans order.strict_trans1)
  then show ?thesis by (simp add: lineText_plain list_all_iff)
qed

text \<open>The identifiers, times and contents a run publishes: version 7 identifiers, RFC 3339 times and plain JSON data.\<close>

definition publishOk :: "jstring \<Rightarrow> jstring \<Rightarrow> jobject \<Rightarrow> bool" where
  "publishOk i t c \<longleftrightarrow> matches uuidV7 i \<and> clientDateTime (Some (JStr t)) \<and> json_wf (JObj c)"

lemma publishOk_notification:
  assumes ok: "publishOk i t c" and v: "validNotification c" and p: "\<And>j. json_wf j \<Longrightarrow> parse (stringify j) = Some j"
  shows "notificationOk parse (i, newNotification i t c)"
proof -
  have wf: "json_wf (JObj c)" using ok by (simp add: publishOk_def)
  have "\<forall>item. getKey c ''subjectRef'' = Some (JObj item) \<longrightarrow> distinct (map fst item)"
  proof (intro allI impI)
    fix item assume "getKey c ''subjectRef'' = Some (JObj item)"
    then have "(js ''subjectRef'', JObj item) \<in> set c" by (rule map_of_SomeD)
    then have "json_wf (JObj item)" using wf unfolding json_wf.simps(6) [of c] by blast
    then show "distinct (map fst item)" by simp
  qed
  moreover have "matches uuidV7 i" "clientDateTime (Some (JStr t))" using ok by (simp_all only: publishOk_def)
  ultimately have n: "isNotification (Some (newNotification i t c))" using newNotification_client [OF v] by blast
  have "strWith c ''kind'' (\<lambda>s. s \<in> set (map js notificationKinds))" using v by (simp only: validNotification_def)
  then obtain k where k: "getKey c ''kind'' = Some (JStr (js k))" "k \<in> set notificationKinds"
    by (auto dest!: strWith_text)
  have "\<exists>item. newNotification i t c = JObj item \<and> getKey item ''kind'' = Some (JStr (js k))"
    unfolding newNotification_def obj_def memberOr_def k(1) by simp
  then show ?thesis
    unfolding notificationOk_def fst_conv snd_conv
    using n k(2) p [OF newNotification_wf [OF wf]] uuid_line [of i] \<open>matches uuidV7 i\<close> by blast
qed

lemma published_ok:
  assumes "\<And>j. json_wf j \<Longrightarrow> parse (stringify j) = Some j"
    "\<And>i t c. Publish i t c \<in> set es \<Longrightarrow> publishOk i t c" "n \<in> set (published es s)"
  shows "notificationOk parse n"
  using assms(2,3)
proof (induction es arbitrary: s)
  case (Cons e es)
  show ?case
  proof (cases "n \<in> set (published es (serverStep e s))")
    case False
    then obtain i t c where e: "e = Publish i t c" "n \<in> set (publishedBy (Publish i t c) s)"
      using Cons.prems(2) by (cases e) auto
    then have "n = (i, newNotification i t c)" "validNotification c"
      by (auto simp: publishNotification_def Let_def split: if_splits)
    then show ?thesis using publishOk_notification [OF _ _ assms(1)] Cons.prems(1) e by simp
  qed (use Cons in auto)
qed simp

lemma startControlApi_published:
  assumes "sr_result (startControlApi sha w instanceId nid startedAt pid ref options) = Inr s"
  shows "\<forall>n \<in> set (sv_notifications (srv_state s)).
    n = (nid, newNotification nid startedAt (startedNotification instanceId)) \<and> validNotification (startedNotification instanceId)"
proof -
  from startControlApi_state [OF assms] obtain limits registry descriptor origins token where
    s: "s = \<lparr>srv_state = snd (publishNotification nid startedAt (startedNotification instanceId)
            (startState descriptor (sha token) origins limits registry)), srv_open = [], srv_answers = []\<rparr>"
    by metis
  show ?thesis unfolding s by (auto simp: publishNotification_def Let_def startState_def split: if_splits dest!: in_set_dropD)
qed

text \<open>The frames of a stream, as what was sent.\<close>

fun sentNotes :: "sent \<Rightarrow> (jstring \<times> json) list" where
  "sentNotes (SentNotification n) = [n]"
| "sentNotes SentHeartbeat = []"
| "sentNotes SentGap = []"

lemma frames_sent:
  "filter (\<lambda>f. f \<noteq> heartbeatFrame \<and> f \<noteq> gapFrame) frames = map frameOf ns \<Longrightarrow>
   \<exists>xs. frames = map sentFrame xs \<and> ns = concat (map sentNotes xs)"
proof (induction frames arbitrary: ns)
  case (Cons f frames)
  consider "f = heartbeatFrame" | "f = gapFrame" | "f \<noteq> heartbeatFrame" "f \<noteq> gapFrame" by blast
  then show ?case
  proof cases
    case 1
    then obtain xs where "frames = map sentFrame xs \<and> ns = concat (map sentNotes xs)" using Cons by auto
    then show ?thesis using 1 by (intro exI [of _ "SentHeartbeat # xs"]) simp
  next
    case 2
    then obtain xs where "frames = map sentFrame xs \<and> ns = concat (map sentNotes xs)" using Cons by auto
    then show ?thesis using 2 by (intro exI [of _ "SentGap # xs"]) simp
  next
    case 3
    then obtain n ms where n: "ns = n # ms" "f = frameOf n" "filter (\<lambda>f. f \<noteq> heartbeatFrame \<and> f \<noteq> gapFrame) frames = map frameOf ms"
      using Cons.prems by (cases ns) auto
    then obtain xs where "frames = map sentFrame xs \<and> ms = concat (map sentNotes xs)" using Cons.IH by blast
    then show ?thesis using n by (intro exI [of _ "SentNotification n # xs"]) simp
  qed
qed simp

lemma items_notes:
  "filter (\<lambda>i. i \<noteq> RetentionGap) (concat (map sentItems xs)) = map (\<lambda>n. Notification (snd n)) (concat (map sentNotes xs))"
proof (induction xs)
  case (Cons x xs)
  then show ?case by (cases x) auto
qed simp

end
