(* ===== verification/Control_Exchange.thy ===== *)
theory Control_Exchange
  imports Control_Session
begin

text \<open>
  The calls of \<open>createControlApiClient\<close> and the server that answers them: what the client sends passes the
  server's checks, and what the server answers passes the client's.
\<close>

section \<open>The client's calls\<close>

record clientState =
  cs_descriptor :: controlEndpointDescriptor
  cs_token :: jstring
  cs_maxResponseBytes :: nat

text \<open>\<open>createControlApiClient\<close>: its operations, by method, path, further headers, check and expected status.\<close>

datatype clientCall = CallVersion | CallHealth | CallStatus | CallDoctor | CallStop jstring

fun callMethod :: "clientCall \<Rightarrow> jstring" where
  "callMethod (CallStop key) = js ''POST''"
| "callMethod _ = js ''GET''"

fun callPath :: "clientCall \<Rightarrow> jstring" where
  "callPath CallVersion = js ''/v1/version''"
| "callPath CallHealth = js ''/v1/health''"
| "callPath CallStatus = js ''/v1/status''"
| "callPath CallDoctor = js ''/v1/doctor''"
| "callPath (CallStop key) = js ''/v1/runtime/stop''"

fun callHeaders :: "clientState \<Rightarrow> clientCall \<Rightarrow> (jstring \<times> jstring) list" where
  "callHeaders c (CallStop key) =
     [(js ''idempotency-key'', key), (js ''if-match'', js [CHR 34] @ ed_instanceId (cs_descriptor c) @ js [CHR 34])]"
| "callHeaders c _ = []"

fun callCheck :: "clientCall \<Rightarrow> contractCheck" where
  "callCheck CallVersion = LocalCheck isVersionResponse"
| "callCheck CallHealth = HealthContract"
| "callCheck CallStatus = LocalCheck isStatusResponse"
| "callCheck CallDoctor = LocalCheck isDoctorResponse"
| "callCheck (CallStop key) = OperationContract"

fun callStatus :: "clientCall \<Rightarrow> int" where
  "callStatus (CallStop key) = 202"
| "callStatus _ = 200"

text \<open>\<open>requestOptions\<close>: the headers the client sends, as they arrive over the loopback interface.\<close>

definition requestHeaders :: "clientState \<Rightarrow> (jstring \<times> jstring) list \<Rightarrow> (jstring \<times> jstring) list" where
  "requestHeaders c extra =
     overlay [(js ''accept'', js ''application/json, application/problem+json''),
         (js ''authorization'', js ''Bearer '' @ cs_token c),
         (js ''host'', loopback @ js '':'' @ natStr (nat (ed_port (cs_descriptor c))))] extra"

definition arriving :: "clientState \<Rightarrow> jstring \<Rightarrow> jstring \<Rightarrow> (jstring \<times> jstring) list \<Rightarrow> controlRequest" where
  "arriving c httpMethod path extra =
     \<lparr>rq_method = httpMethod, rq_url = Some path,
      rq_headers = map (\<lambda>(k, v). (k, HStr v)) (requestHeaders c extra),
      rq_rawHeaders = concat (map (\<lambda>(k, v). [k, v]) (requestHeaders c extra)),
      rq_localAddress = Some loopback, rq_remoteAddress = Some loopback\<rparr>"

definition callRequest :: "clientState \<Rightarrow> clientCall \<Rightarrow> controlRequest" where
  "callRequest c call = arriving c (callMethod call) (callPath call) (callHeaders c call)"

text \<open>An answer of the server, as it arrives at the client, in whatever chunks.\<close>

definition carries :: "answer \<Rightarrow> httpAnswer \<Rightarrow> bool" where
  "carries a r \<longleftrightarrow> ha_status r = an_status a \<and> ha_contentType r = an_contentType a \<and>
     concat (ha_chunks r) = (case an_body a of None \<Rightarrow> [] | Some j \<Rightarrow> utf8 (stringify j))"

text \<open>A call, answered by the server before anything else happens.\<close>

definition exchange :: "nat \<Rightarrow> handling \<Rightarrow> clientState \<Rightarrow> clientCall \<Rightarrow> server \<Rightarrow> server" where
  "exchange i h c call s = bodyRead i h [] (arrive i h (callRequest c call) s)"

section \<open>What arrives\<close>

lemma rawHosts_pairs:
  "rawHosts (concat (map (\<lambda>(k, v). [k, v]) kvs)) = map snd (filter (\<lambda>(k, v). toLowerCase k = js ''host'') kvs)"
  by (induction kvs) auto

lemma hostNames:
  "toLowerCase (js ''accept'') \<noteq> js ''host''" "toLowerCase (js ''authorization'') \<noteq> js ''host''"
  "toLowerCase (js ''host'') = js ''host''" "toLowerCase (js ''idempotency-key'') \<noteq> js ''host''"
  "toLowerCase (js ''if-match'') \<noteq> js ''host''"
  by code_simp+

text \<open>Further headers that do not get in the way of the first ones.\<close>

definition extraOk :: "(jstring \<times> jstring) list \<Rightarrow> bool" where
  "extraOk extra \<longleftrightarrow> list_all (\<lambda>(k, v). toLowerCase k \<noteq> js ''host'') extra \<and>
     list_all (\<lambda>k. map_of extra (js k) = None)
       [''origin'', ''content-type'', ''x-request-id'', ''x-correlation-id'', ''authorization'', ''host'']"

lemma overlay_map_of: "map_of (overlay a b) k = (case map_of b k of Some w \<Rightarrow> Some w | None \<Rightarrow> map_of a k)"
proof (cases "map_of a k")
  case None
  then have "k \<notin> fst ` set a" by (simp add: map_of_eq_None_iff)
  then have "map_of (map (\<lambda>(k, v). (k, case map_of b k of None \<Rightarrow> v | Some w \<Rightarrow> w)) a) k = None"
    by (force simp: map_of_eq_None_iff)
  moreover have "map_of (filter (\<lambda>(k, v). map_of a k = None) b) k = map_of b k"
    using None by (induction b) auto
  ultimately show ?thesis using None by (simp add: overlay_def map_add_def split: option.split)
next
  case (Some v)
  from overlay_key [OF Some, of b] show ?thesis by (simp add: Some split: option.split)
qed

lemma arriving_header:
  "header (arriving c m path extra) k = map_option HStr (map_of (requestHeaders c extra) (js k))"
proof -
  have "map_of (map (\<lambda>(k, v). (k, HStr v)) kvs) x = map_option HStr (map_of kvs x)" for kvs :: "(jstring \<times> jstring) list" and x
    by (induction kvs) auto
  then show ?thesis by (simp add: header_def arriving_def)
qed

lemma arriving_headers:
  "extraOk extra \<Longrightarrow> header (arriving c m path extra) ''origin'' = None"
  "extraOk extra \<Longrightarrow> header (arriving c m path extra) ''content-type'' = None"
  "extraOk extra \<Longrightarrow> header (arriving c m path extra) ''x-request-id'' = None"
  "extraOk extra \<Longrightarrow> header (arriving c m path extra) ''x-correlation-id'' = None"
  "extraOk extra \<Longrightarrow> header (arriving c m path extra) ''authorization'' = Some (HStr (js ''Bearer '' @ cs_token c))"
  "extraOk extra \<Longrightarrow> header (arriving c m path extra) ''host'' =
     Some (HStr (loopback @ js '':'' @ natStr (nat (ed_port (cs_descriptor c)))))"
  by (simp_all add: arriving_header requestHeaders_def extraOk_def overlay_map_of)

lemma arriving_host:
  assumes "ed_port (cs_descriptor c) = ed_port (sv_descriptor st)" "extraOk extra"
  shows "exactHostHeader (arriving c m path extra) (hostOf st)"
proof -
  have h: "header (arriving c m path extra) ''host'' = Some (HStr (hostOf st))"
    using assms by (simp add: arriving_headers hostOf_def)
  have "filter (\<lambda>(k, v). toLowerCase k = js ''host'') (filter P extra) = []" for P
    using assms(2) by (auto simp: extraOk_def filter_empty_conv list_all_iff)
  moreover have "map_of extra (js ''host'') = None" using assms(2) by (simp add: extraOk_def)
  ultimately have "rawHosts (rq_rawHeaders (arriving c m path extra)) = [hostOf st]"
    using assms(1) by (simp add: arriving_def rawHosts_pairs requestHeaders_def overlay_def hostNames hostOf_def)
  then show ?thesis using h by (simp add: exactHostHeader_def)
qed

lemma arriving_simps [simp]:
  "rq_method (arriving c m path extra) = m" "rq_url (arriving c m path extra) = Some path"
  "rq_localAddress (arriving c m path extra) = Some loopback"
  by (simp_all add: arriving_def)

lemma arrive_arriving:
  assumes "cs_descriptor c = sv_descriptor (srv_state s)" "hd_sha h (cs_token c) = sv_tokenHash (srv_state s)"
    "hd_parseUrl h path = Some (path, [])" "int (byteLength path) \<le> cl_maxUrlBytes (sv_limits (srv_state s))"
    "sv_activeRequests (srv_state s) < cl_maxConcurrentRequests (sv_limits (srv_state s))"
    "m \<noteq> js ''OPTIONS''" "extraOk extra"
  shows "arrive i h (arriving c m path extra) s =
    s\<lparr>srv_state := addActive 1 (srv_state s),
      srv_open := srv_open s @ [\<lparr>or_id = i, or_request = arriving c m path extra,
        or_ids = \<lparr>ri_requestId = hd_requestId h, ri_correlationId = hd_requestId h\<rparr>, or_path = path,
        or_slotOwned = True, or_timedOut = False\<rparr>]\<rparr>"
proof -
  let ?req = "arriving c m path extra"
  have ids: "identity (hd_requestId h) ?req = \<lparr>ri_requestId = hd_requestId h, ri_correlationId = hd_requestId h\<rparr>"
    using assms(7) by (simp add: identity_def headerText_def arriving_headers Let_def)
  have host: "exactHostHeader ?req (hostOf (addActive 1 (srv_state s)))"
    by (rule arriving_host) (simp_all add: assms)
  have token: "tokenMatches (hd_sha h) (headerText ?req ''authorization'') (sv_tokenHash (srv_state s))"
  proof -
    have "length (js ''Bearer '') = 7" by (simp add: js_def)
    then show ?thesis using assms(2,7) by (simp add: tokenMatches_def headerText_def arriving_headers js_def [of "[]"])
  qed
  have "beforeBody h ids ?req (addActive 1 (srv_state s)) = (Inr path, addActive 1 (srv_state s))" for ids
    using host token assms(3,6,7) by (simp add: beforeBody_def Let_def arriving_headers)
  then show ?thesis using assms(4,5) by (simp add: arrive_def Let_def ids)
qed

lemma callRequest_extra: "extraOk (callHeaders c call)"
  by (cases call) (simp_all add: extraOk_def hostNames)

lemma callMethod_options: "callMethod call \<noteq> js ''OPTIONS''"
  by (cases call) simp_all

lemma callRequest_headers:
  "header (callRequest c call) ''content-type'' = None"
  "header (callRequest c (CallStop key)) ''idempotency-key'' = Some (HStr key)"
  "header (callRequest c (CallStop key)) ''if-match'' =
     Some (HStr (js [CHR 34] @ ed_instanceId (cs_descriptor c) @ js [CHR 34]))"
  using arriving_headers(2) [OF callRequest_extra]
  by (simp_all add: callRequest_def) (simp_all add: arriving_header requestHeaders_def overlay_map_of)

lemma callRequest_simps [simp]:
  "rq_method (callRequest c call) = callMethod call" "rq_url (callRequest c call) = Some (callPath call)"
  by (simp_all add: callRequest_def)

lemmas arrive_call = arrive_arriving [where c = c and m = "callMethod call" and path = "callPath call" and extra = "callHeaders c call",
    OF _ _ _ _ _ callMethod_options callRequest_extra, folded callRequest_def] for c call

text \<open>\<open>streamEvents\<close>: the request for the event stream, from the start or after a notification.\<close>

definition eventHeaders :: "jstring option \<Rightarrow> (jstring \<times> jstring) list" where
  "eventHeaders lastEventId = (js ''accept'', js ''text/event-stream'') #
     (case lastEventId of None \<Rightarrow> [] | Some i \<Rightarrow> [(js ''last-event-id'', i)])"

definition eventRequest :: "clientState \<Rightarrow> jstring option \<Rightarrow> controlRequest" where
  "eventRequest c lastEventId = arriving c (js ''GET'') (js ''/v1/events'') (eventHeaders lastEventId)"

lemma eventRequest_extra: "extraOk (eventHeaders lastEventId)"
proof -
  have "toLowerCase (js ''last-event-id'') \<noteq> js ''host''" by code_simp
  then show ?thesis by (auto simp: extraOk_def eventHeaders_def hostNames split: option.split)
qed

lemma eventRequest_last: "headerText (eventRequest c lastEventId) ''last-event-id'' = lastEventId"
  by (simp add: headerText_def eventRequest_def arriving_header requestHeaders_def overlay_map_of eventHeaders_def split: option.split)

text \<open>A client that knows the runtime opens a stream.\<close>

lemma stream_opened:
  assumes "cs_descriptor c = sv_descriptor (srv_state s)" "hd_sha h (cs_token c) = sv_tokenHash (srv_state s)"
    "hd_parseUrl h (js ''/v1/events'') = Some (js ''/v1/events'', [])" "int (byteLength (js ''/v1/events'')) \<le> cl_maxUrlBytes (sv_limits (srv_state s))"
    "sv_activeRequests (srv_state s) < cl_maxConcurrentRequests (sv_limits (srv_state s))"
    "i \<notin> or_id ` set (srv_open s)"
    "serveEvents i \<lparr>ri_requestId = hd_requestId h, ri_correlationId = hd_requestId h\<rparr> (eventRequest c lastEventId)
       (addActive 1 (srv_state s)) = (Inr (), st')"
  shows "bodyRead i h [] (arrive i h (eventRequest c lastEventId) s) = s\<lparr>srv_state := addActive (- 1) st'\<rparr>"
proof -
  let ?r = "\<lparr>or_id = i, or_request = eventRequest c lastEventId,
        or_ids = \<lparr>ri_requestId = hd_requestId h, ri_correlationId = hd_requestId h\<rparr>, or_path = js ''/v1/events'',
        or_slotOwned = True, or_timedOut = False\<rparr>"
  have a: "arrive i h (eventRequest c lastEventId) s =
      s\<lparr>srv_state := addActive 1 (srv_state s), srv_open := srv_open s @ [?r]\<rparr>"
    using arrive_arriving [OF assms(1-5) _ eventRequest_extra, of "js ''GET''"] by (simp add: eventRequest_def)
  have "find (\<lambda>r. or_id r = i) (rs @ [?r]) = Some ?r" if "i \<notin> or_id ` set rs" for rs
    using that by (induction rs) auto
  then have f: "findOpen i (arrive i h (eventRequest c lastEventId) s) = Some ?r"
    using a assms(6) by (simp add: findOpen_def)
  have ct: "header (eventRequest c lastEventId) ''content-type'' = None"
    using arriving_headers(2) [OF eventRequest_extra] by (simp add: eventRequest_def)
  have "rq_method (eventRequest c lastEventId) = js ''GET''" by (simp add: eventRequest_def)
  then have "afterBody i h (or_ids ?r) (js ''/v1/events'') (eventRequest c lastEventId) [] (addActive 1 (srv_state s)) = (Inr (), st')"
    using assms(7) ct by (simp add: afterBody_def serveRoute_def Let_def)
  moreover have "filter (\<lambda>r. or_id r \<noteq> i) (srv_open s) = srv_open s" using assms(6) by (auto simp: filter_id_conv)
  ultimately show ?thesis using f by (simp add: bodyRead_def a dropOpen_def releaseSlot_def)
qed

section \<open>Answers the client accepts\<close>

definition jsKeys :: "(string \<times> json) list \<Rightarrow> jobject" where
  "jsKeys kvs = map (\<lambda>(k, v). (js k, v)) kvs"

lemma obj_jsKeys: "obj kvs = JObj (jsKeys kvs)"
  by (simp add: obj_def jsKeys_def)

lemma getKey_jsKeys [simp]: "getKey (jsKeys kvs) k = map_of kvs k"
  unfolding jsKeys_def by (induction kvs) auto

lemma objectValue_obj [simp]: "objectValue (Some (obj kvs)) = Some (jsKeys kvs)"
  by (simp add: objectValue_def obj_jsKeys)

lemma hasExactly_jsKeys:
  "joinWith [44] (sort (map js (map fst kvs))) = joinWith [44] (sort (map js ks)) \<Longrightarrow> hasExactly (jsKeys kvs) (map js ks)"
  unfolding jsKeys_def hasExactly_obj .

lemma json_wf_obj: "json_wf (obj kvs) \<longleftrightarrow> distinct (map fst kvs) \<and> (\<forall>(k, v) \<in> set kvs. json_wf v)"
proof -
  have "map fst (jsKeys kvs) = map js (map fst kvs)" by (auto simp: jsKeys_def)
  then have "distinct (map fst (jsKeys kvs)) = distinct (map fst kvs)"
    by (simp add: distinct_map [of js "map fst kvs"] inj_on_def del: map_map)
  moreover have "(\<forall>(k, v) \<in> set (jsKeys kvs). json_wf v) \<longleftrightarrow> (\<forall>(k, v) \<in> set kvs. json_wf v)"
    by (auto simp: jsKeys_def)
  ultimately show ?thesis by (simp add: obj_jsKeys)
qed

definition runtimeValid :: "controlEndpointDescriptor \<Rightarrow> bool" where
  "runtimeValid d \<longleftrightarrow> matches uuidV7 (ed_instanceId d) \<and> matches semver (ed_frameworkVersion d) \<and> lengthIn 1 256 (ed_releaseId d)"

definition idsValid :: "requestIdentity \<Rightarrow> bool" where
  "idsValid ids \<longleftrightarrow> matches uuidV7 (ri_requestId ids) \<and> matches uuidV7 (ri_correlationId ids)"

lemmas answer_checks = strWith_def memberOf_def stringOf_def validRequestIdentity_def uniqueArray_def lengthIn_def

lemma versionBody_valid:
  assumes "runtimeValid d" "idsValid ids" shows "isVersionResponse (Some (versionBody d ids)) \<and> json_wf (versionBody d ids)"
proof -
  have e: "hasExactly (jsKeys [(''schemaVersion'', a), (''apiVersion'', b), (''frameworkVersion'', c), (''releaseId'', e),
      (''instanceId'', f), (''requestId'', g), (''correlationId'', i)])
      (map js [''schemaVersion'', ''apiVersion'', ''frameworkVersion'', ''releaseId'', ''instanceId'', ''requestId'', ''correlationId''])"
    for a b c e f g i
    by (rule hasExactly_jsKeys) (simp only: list.map fst_conv)
  show ?thesis
    using assms e unfolding versionBody_def identityMembers_def append.simps isVersionResponse_def objectValue_obj option.case
    by (simp add: strWith_def validRequestIdentity_def runtimeValid_def idsValid_def json_wf_obj)
qed

lemma securityFinding_valid:
  assumes "matches uuidV7 i" "lengthIn 1 256 inst" "clientDateTime (Some (JStr t))"
  shows "isDiagnosticFinding (Some (securityFinding i inst t)) \<and> json_wf (securityFinding i inst t)"
proof -
  have e: "hasExactly (jsKeys [(''schemaVersion'', a), (''findingId'', b), (''code'', c), (''severity'', d), (''subjectRef'', f),
      (''evidenceRefs'', g), (''remediation'', k), (''detectedAt'', l)])
      (map js [''schemaVersion'', ''findingId'', ''code'', ''severity'', ''subjectRef'', ''evidenceRefs'', ''remediation'', ''detectedAt''])"
    for a b c d f g k l
    by (rule hasExactly_jsKeys) (simp only: list.map fst_conv)
  have e': "hasExactly (jsKeys [(''subjectType'', a), (''subjectId'', b)]) (map js [''subjectType'', ''subjectId''])" for a b
    by (rule hasExactly_jsKeys) (simp only: list.map fst_conv)
  have c: "matches codeName (js ''CONTROL_AUTH_FAILURE_RATE_LIMITED'') \<and> lengthIn 3 128 (js ''CONTROL_AUTH_FAILURE_RATE_LIMITED'')"
    "matches typeName (js ''Runtime'')"
    "lengthIn 1 2048 (js ''Inspect local clients and rotate the runtime token by restarting.'')"
    by code_simp+
  have s: "isSubjectRef (Some (obj [(''subjectType'', text_of ''Runtime''), (''subjectId'', JStr inst)]))"
    using e' c(2) assms(2) by (simp add: isSubjectRef_def strWith_def)
  show ?thesis
    using assms e c s unfolding securityFinding_def isDiagnosticFinding_def objectValue_obj option.case
    by (simp add: strWith_def memberOf_def stringOf_def uniqueArray_def uniqueValues_def json_wf_obj)
qed

lemma healthBody_valid:
  assumes "runtimeValid d" "clientDateTime (Some (JStr t))"
    "list_all (\<lambda>f. isDiagnosticFinding (Some f) \<and> json_wf f) findings" "length findings \<le> 1"
  shows "isHealthResponse (Some (healthBody d t findings)) \<and> json_wf (healthBody d t findings)"
proof -
  have e: "hasExactly (jsKeys [(''schemaVersion'', a), (''instanceId'', b), (''readiness'', c), (''runtimeVersion'', g),
      (''releaseId'', k), (''stateVersion'', l), (''checkedAt'', m), (''findings'', n)])
      (map js [''schemaVersion'', ''instanceId'', ''readiness'', ''runtimeVersion'', ''releaseId'', ''stateVersion'',
        ''checkedAt'', ''findings''])" for a b c g k l m n
    by (rule hasExactly_jsKeys) (simp only: list.map fst_conv)
  have u: "uniqueValues findings" using assms(4) by (cases findings) (auto simp: uniqueValues_def)
  have z: "isNonNegativeInteger (Some (num_of 0))" by (simp add: isNonNegativeInteger_def maxSafeInteger_def)
  have r: "memberOf (jsKeys [(''schemaVersion'', a), (''instanceId'', b), (''readiness'', text_of (if x then ''READY'' else ''DEGRADED'')),
      (''runtimeVersion'', g), (''releaseId'', k), (''stateVersion'', l), (''checkedAt'', m), (''findings'', n)])
      ''readiness'' [''READY'', ''DEGRADED'', ''NOT_READY'']" for a b x g k l m n
    by (cases x) (simp_all add: memberOf_def stringOf_def)
  show ?thesis
    using assms e u z r unfolding healthBody_def isHealthResponse_def objectValue_obj option.case
    by (simp add: strWith_def uniqueArray_def runtimeValid_def json_wf_obj list_all_iff)
qed

lemma doctorBody_valid:
  assumes "idsValid ids" "list_all (\<lambda>f. isDiagnosticFinding (Some f) \<and> json_wf f) findings" "length findings \<le> 1"
  shows "isDoctorResponse (Some (doctorBody findings ids)) \<and> json_wf (doctorBody findings ids)"
proof -
  have e: "hasExactly (jsKeys [(''schemaVersion'', a), (''status'', b), (''findings'', c), (''requestId'', g), (''correlationId'', k)])
      (map js [''schemaVersion'', ''status'', ''findings'', ''requestId'', ''correlationId''])" for a b c g k
    by (rule hasExactly_jsKeys) (simp only: list.map fst_conv)
  have u: "uniqueValues findings" using assms(3) by (cases findings) (auto simp: uniqueValues_def)
  show ?thesis
    using assms e u unfolding doctorBody_def identityMembers_def append.simps isDoctorResponse_def objectValue_obj option.case
    by (simp add: strWith_def uniqueArray_def validRequestIdentity_def idsValid_def json_wf_obj list_all_iff)
qed

lemma isPositiveInteger_num [simp]: "isPositiveInteger (Some (num_of n)) \<longleftrightarrow> 1 \<le> n \<and> n \<le> 2 ^ 53 - 1"
  by (auto simp: isPositiveInteger_def maxSafeInteger_def)

lemma isNonNegativeInteger_num [simp]: "isNonNegativeInteger (Some (num_of n)) \<longleftrightarrow> 0 \<le> n \<and> n \<le> 2 ^ 53 - 1"
  by (auto simp: isNonNegativeInteger_def maxSafeInteger_def)

definition limitsBody :: "int \<Rightarrow> int \<Rightarrow> int \<Rightarrow> int \<Rightarrow> int \<Rightarrow> int \<Rightarrow> int \<Rightarrow> int \<Rightarrow> int \<Rightarrow> int \<Rightarrow> json" where
  "limitsBody a b c d e f g h i k =
     obj [(''authenticationRateLimit'', obj [(''capacity'', num_of a), (''windowMs'', num_of b)]),
       (''idempotency'', obj [(''capacity'', num_of c), (''ttlMs'', num_of d), (''entries'', num_of e)]),
       (''sse'', obj [(''connectionCapacity'', num_of f), (''activeConnections'', num_of g), (''retentionCapacity'', num_of h),
          (''retainedNotifications'', num_of i), (''heartbeatMs'', num_of k)])]"

lemma objectWith_obj:
  "map_of kvs k = Some (obj members) \<Longrightarrow>
   objectWith (jsKeys kvs) k keys P = (hasExactly (jsKeys members) (map js keys) \<and> P (jsKeys members))"
  by (simp add: objectWith_def)

lemma statusBody_valid:
  assumes "runtimeValid d" "idsValid ids" "0 \<le> uptime" "uptime \<le> 2 ^ 53 - 1"
    "1 \<le> a" "a \<le> 2 ^ 53 - 1" "1 \<le> b" "b \<le> 2 ^ 53 - 1" "1 \<le> c" "c \<le> 2 ^ 53 - 1" "1 \<le> t" "t \<le> 2 ^ 53 - 1"
    "0 \<le> e" "e \<le> 2 ^ 53 - 1" "1 \<le> f" "f \<le> 2 ^ 53 - 1" "0 \<le> g" "g \<le> 2 ^ 53 - 1" "1 \<le> h" "h \<le> 2 ^ 53 - 1"
    "0 \<le> i" "i \<le> 2 ^ 53 - 1" "1 \<le> k" "k \<le> 2 ^ 53 - 1"
  shows "isStatusResponse (Some (statusBody d uptime (limitsBody a b c t e f g h i k) ids)) \<and>
    json_wf (statusBody d uptime (limitsBody a b c t e f g h i k) ids)"
proof -
  have e0: "hasExactly (jsKeys [(''schemaVersion'', p), (''status'', q), (''instanceId'', r), (''uptimeMs'', u), (''limits'', v),
      (''requestId'', x), (''correlationId'', y)])
      (map js [''schemaVersion'', ''status'', ''instanceId'', ''uptimeMs'', ''limits'', ''requestId'', ''correlationId''])"
    for p q r u v x y
    by (rule hasExactly_jsKeys) (simp only: list.map fst_conv)
  have e1: "hasExactly (jsKeys [(''authenticationRateLimit'', p), (''idempotency'', q), (''sse'', r)])
      (map js [''authenticationRateLimit'', ''idempotency'', ''sse''])" for p q r
    by (rule hasExactly_jsKeys) (simp only: list.map fst_conv)
  have e2: "hasExactly (jsKeys [(''capacity'', p), (''windowMs'', q)]) (map js [''capacity'', ''windowMs''])"
    "hasExactly (jsKeys [(''capacity'', p), (''ttlMs'', q), (''entries'', r)]) (map js [''capacity'', ''ttlMs'', ''entries''])"
    "hasExactly (jsKeys [(''connectionCapacity'', p), (''activeConnections'', q), (''retentionCapacity'', r),
        (''retainedNotifications'', u), (''heartbeatMs'', v)])
      (map js [''connectionCapacity'', ''activeConnections'', ''retentionCapacity'', ''retainedNotifications'', ''heartbeatMs''])"
    for p q r u v
    by (rule hasExactly_jsKeys, simp only: list.map fst_conv)+
  have wf: "json_wf (limitsBody a b c t e f g h i k)" by (simp add: limitsBody_def json_wf_obj)
  show ?thesis
    using assms wf e0 e1 e2
    unfolding statusBody_def identityMembers_def append.simps isStatusResponse_def objectValue_obj option.case limitsBody_def
    by (simp add: strWith_def validRequestIdentity_def runtimeValid_def idsValid_def json_wf_obj objectWith_obj)
qed

lemma stopBody_valid:
  assumes "matches uuidV7 operationId" "length operationId \<le> 512"
  shows "isOperationRef (Some (stopBody operationId)) \<and> json_wf (stopBody operationId)"
proof -
  have e: "hasExactly (jsKeys [(''schemaVersion'', a), (''operationId'', b), (''type'', c), (''status'', g), (''resourceUri'', k),
      (''evidenceRefs'', l)]) (map js [''schemaVersion'', ''operationId'', ''type'', ''status'', ''resourceUri'', ''evidenceRefs''])"
    for a b c g k l
    by (rule hasExactly_jsKeys) (simp only: list.map fst_conv)
  have c: "matches typeName (js ''RuntimeStop'')" "lengthIn 3 128 (js ''ACCEPTED'') \<and> matches codeName (js ''ACCEPTED'')"
    "length (js ''/v1/operations/'') = 15"
    by code_simp+
  show ?thesis
    using assms e c unfolding stopBody_def isOperationRef_def objectValue_obj option.case
    by (simp add: strWith_def uniqueArray_def uniqueValues_def json_wf_obj)
qed

section \<open>The finding of a run\<close>

text \<open>Only a refused request makes a finding, with the identifier and the time of its handling.\<close>

definition findingOk :: "serverState \<Rightarrow> bool" where
  "findingOk st \<longleftrightarrow> (\<forall>f e. sv_securityFinding st = Some (f, e) \<longrightarrow> isDiagnosticFinding (Some f) \<and> json_wf f)"

definition handlingOk :: "handling \<Rightarrow> bool" where
  "handlingOk h \<longleftrightarrow> matches uuidV7 (hd_requestId h) \<and> matches uuidV7 (hd_otherId h) \<and>
     clientDateTime (Some (JStr (hd_iso h (hd_now h)))) \<and> clientDateTime (Some (JStr (hd_iso h (hd_later h))))"

lemma findingOk_cong: "sv_securityFinding st' = sv_securityFinding st \<Longrightarrow> findingOk st' = findingOk st"
  by (simp add: findingOk_def)

lemma findingOk_None: "sv_securityFinding st = None \<Longrightarrow> findingOk st"
  by (simp add: findingOk_def)

lemma closeEventConnection_finding [simp]: "sv_securityFinding (closeEventConnection c st) = sv_securityFinding st"
  by (simp add: closeEventConnection_def)

lemma broadcast_finding [simp]: "sv_securityFinding (broadcast n cs st) = sv_securityFinding st"
  by (induction n cs st rule: broadcast.induct) (auto split: option.splits)

lemma publishNotification_finding [simp]: "sv_securityFinding (snd (publishNotification i t c st)) = sv_securityFinding st"
  by (simp add: publishNotification_def Let_def)

lemma stream_finding [simp]:
  "sv_securityFinding (heartbeat c st) = sv_securityFinding st" "sv_securityFinding (flushed c n st) = sv_securityFinding st"
  "sv_securityFinding (streamEnded c st) = sv_securityFinding st" "sv_securityFinding (stopRequests st) = sv_securityFinding st"
  by (simp_all add: heartbeat_def flushed_def streamEnded_def stopRequests_def closeAll split: option.split)

lemma serveEvents_finding: "serveEvents c ids req st = (r, st') \<Longrightarrow> sv_securityFinding st' = sv_securityFinding st"
  by (auto simp: serveEvents_def Let_def split: if_splits prod.splits)

lemma serveStop_finding: "serveStop h ids req st = (a, st') \<Longrightarrow> sv_securityFinding st' = sv_securityFinding st"
  unfolding serveStop_def Let_def by (auto split: if_splits option.splits prod.splits lookupOutcome.splits)

lemma securityFindings_state: "sv_securityFinding (snd (securityFindings now st)) = sv_securityFinding st \<or>
    sv_securityFinding (snd (securityFindings now st)) = None"
  by (auto simp: securityFindings_def split: option.split)

lemma serveRoute_finding:
  "serveRoute c h ids pathname req st = (r, st') \<Longrightarrow>
   sv_securityFinding st' = sv_securityFinding st \<or> sv_securityFinding st' = None"
  using serveStop_finding serveEvents_finding securityFindings_state [of "hd_later h" st]
  by (auto simp: serveRoute_def Let_def metadata_def split: if_splits prod.splits)

lemma afterBody_finding:
  "afterBody c h ids pathname req chunks st = (r, st') \<Longrightarrow>
   sv_securityFinding st' = sv_securityFinding st \<or> sv_securityFinding st' = None"
  using serveRoute_finding by (auto simp: afterBody_def split: sum.splits prod.splits)

lemma rejectUnauthorized_finding:
  assumes f: "findingOk st" and h: "handlingOk h" and v: "lengthIn 1 256 (ed_instanceId (sv_descriptor st))"
    and r: "rejectUnauthorized h ids req st = (a, st')"
  shows "findingOk st'"
proof -
  define remote where "remote = (case rq_remoteAddress req of None \<Rightarrow> js ''unknown'' | Some r \<Rightarrow> r)"
  obtain x y st1 where s1: "registerAuthFailure (hd_now h) remote st = ((x, y), st1)" by (metis prod.collapse)
  then have same: "sv_securityFinding st1 = sv_securityFinding st" "sv_descriptor st1 = sv_descriptor st"
    by (auto simp: registerAuthFailure_def Let_def)
  have "sv_securityFinding st' = sv_securityFinding st \<or>
      (\<exists>e. sv_securityFinding st' = Some (securityFinding (hd_otherId h) (ed_instanceId (sv_descriptor st)) (hd_iso h (hd_now h)), e))"
    using r same unfolding rejectUnauthorized_def remote_def [symmetric] Let_def s1 by (auto split: if_splits)
  then show ?thesis
    using f securityFinding_valid [of "hd_otherId h" "ed_instanceId (sv_descriptor st)" "hd_iso h (hd_now h)"] h v
    by (auto simp: findingOk_def handlingOk_def)
qed

lemma beforeBody_finding:
  "findingOk st \<Longrightarrow> handlingOk h \<Longrightarrow> lengthIn 1 256 (ed_instanceId (sv_descriptor st)) \<Longrightarrow>
   beforeBody h ids req st = (r, st') \<Longrightarrow> findingOk st'"
  using rejectUnauthorized_finding [of st h ids req] unfolding beforeBody_def Let_def
  by (auto split: if_splits option.splits prod.splits)

lemma addActive_finding [simp]: "findingOk (addActive n st) = findingOk st"
  by (simp add: findingOk_def addActive_def)

lemma releaseSlot_finding [simp]: "findingOk (releaseSlot r st) = findingOk st"
  by (simp add: releaseSlot_def)

lemma afterBody_findingOk: "afterBody c h ids pathname req chunks st = (r, st') \<Longrightarrow> findingOk st \<Longrightarrow> findingOk st'"
  using afterBody_finding [of c h ids pathname req chunks st r st'] by (auto simp: findingOk_def)

lemma serverStep_finding:
  assumes f: "findingOk (srv_state s)" and v: "lengthIn 1 256 (ed_instanceId (sv_descriptor (srv_state s)))"
    and h: "\<And>i h req. e = Arrive i h req \<Longrightarrow> handlingOk h"
  shows "findingOk (srv_state (serverStep e s))"
proof (cases e)
  case (Arrive i h req)
  obtain r st' where b: "beforeBody h (identity (hd_requestId h) req) req (addActive 1 (srv_state s)) = (r, st')" by fastforce
  have "findingOk st'" by (rule beforeBody_finding [OF _ h [OF Arrive] _ b]) (use f v in simp_all)
  then show ?thesis using Arrive f b by (cases r) (auto simp: arrive_def Let_def)
next
  case (BodyRead i h chunks)
  then show ?thesis
    using f afterBody_findingOk by (auto simp: bodyRead_def split: option.split sum.split prod.split)
next
  case (Timeout i)
  then show ?thesis using f by (simp add: timeout_def split: option.split)
next
  case (ResponseClosed i)
  then show ?thesis using f by (simp add: responseClosed_def split: option.split)
next
  case (Publish i t c)
  then show ?thesis using f findingOk_cong [OF publishNotification_finding] by (simp add: onState_def)
qed (use f in \<open>simp_all add: onState_def findingOk_def\<close>)

lemma serverRun_finding:
  assumes "runOk es s" "serverOk s" "findingOk (srv_state s)" "lengthIn 1 256 (ed_instanceId (sv_descriptor (srv_state s)))"
    "\<And>i h req. Arrive i h req \<in> set es \<Longrightarrow> handlingOk h"
  shows "findingOk (srv_state (serverRun es s))"
  using assms
proof (induction es arbitrary: s)
  case (Cons e es)
  have "sameIdentity s (serverStep e s)"
    using serverStep_serves [of s e "\<lambda>_. True"] Cons.prems(1,2) servesOnly_True by simp
  moreover have "findingOk (srv_state (serverStep e s))" using serverStep_finding Cons.prems(3-5) by (metis list.set_intros(1))
  moreover have "serverOk (serverStep e s)" using serverStep_ok Cons.prems(1,2) by simp
  moreover have "handlingOk h" if "Arrive i h req \<in> set es" for i h req
    by (rule Cons.prems(5) [of i h req]) (use that in simp)
  ultimately show ?case
    using Cons.IH [of "serverStep e s"] Cons.prems(1,4) by (simp add: sameIdentity_def)
qed simp

section \<open>The client and the server\<close>

lemma collectResponse_whole:
  "length acc + length (concat chunks) \<le> maxBytes \<Longrightarrow> collectResponse parse maxBytes acc chunks =
     (case parse (bufferToString (acc @ concat chunks)) of None \<Rightarrow> Inl responseInvalid | Some j \<Rightarrow> Inr j)"
  by (induction chunks arbitrary: acc) auto

lemma invoke_accepts:
  assumes "ha_status r = status" "200 \<le> status" "status < 300" "ha_contentType r = Some (js ''application/json; charset=utf-8'')"
    "concat (ha_chunks r) = utf8 (stringify j)" "byteLength (stringify j) \<le> maxBytes" "parse (stringify j) = Some j"
    "meets canParse check (Some j)"
  shows "invoke canParse parse maxBytes check status (Some r) = Inr j"
proof -
  have "wellFormed (stringify j)" using lineText_stringify by (simp add: lineText_def)
  then have "collectResponse parse maxBytes [] (ha_chunks r) = Inr j"
    using assms(5-7) by (simp add: collectResponse_whole length_utf8 bufferToString_utf8)
  moreover have "responseMediaType (Some (js ''application/json; charset=utf-8'')) = Some (js ''application/json'')" by code_simp
  ultimately show ?thesis using assms by (simp add: invoke_def Let_def)
qed

definition answersWith :: "(jstring \<Rightarrow> bool) \<Rightarrow> (jstring \<Rightarrow> json option) \<Rightarrow> clientState \<Rightarrow> clientCall \<Rightarrow> int \<Rightarrow> json \<Rightarrow> answer \<Rightarrow> bool" where
  "answersWith canParse parse c call maxBytes j a \<longleftrightarrow> meets canParse (callCheck call) (Some j) \<and>
     (if int (byteLength (stringify j)) \<le> maxBytes
      then an_status a = callStatus call \<and> an_body a = Some j \<and>
        (\<forall>r. carries a r \<and> byteLength (stringify j) \<le> cs_maxResponseBytes c \<longrightarrow>
          invoke canParse parse (cs_maxResponseBytes c) (callCheck call) (callStatus call) (Some r) = Inr j)
      else an_status a = 500 \<and> an_body a = None)"

lemma sendJson_answers:
  assumes "meets canParse (callCheck call) (Some j)" "parse (stringify j) = Some j" "status = callStatus call"
    "a = sendJson maxBytes status j ''application/json'' \<or> a = (sendJson maxBytes status j ''application/json'')\<lparr>an_stop := True\<rparr>"
  shows "answersWith canParse parse c call maxBytes j (withOrigin req a)"
proof -
  have s: "200 \<le> status" "status < 300" using assms(3) by (cases call; simp)+
  have t: "js ''application/json'' @ js ''; charset=utf-8'' = js ''application/json; charset=utf-8''" by (simp add: js_def)
  show ?thesis
    using assms s t invoke_accepts [of _ status j "cs_maxResponseBytes c" parse canParse "callCheck call"]
    by (auto simp: answersWith_def withOrigin_def sendJson_def carries_def)
qed

lemma exchange_answer:
  assumes "cs_descriptor c = sv_descriptor (srv_state s)" "hd_sha h (cs_token c) = sv_tokenHash (srv_state s)"
    "hd_parseUrl h (callPath call) = Some (callPath call, [])"
    "int (byteLength (callPath call)) \<le> cl_maxUrlBytes (sv_limits (srv_state s))"
    "sv_activeRequests (srv_state s) < cl_maxConcurrentRequests (sv_limits (srv_state s))"
    "i \<notin> or_id ` set (srv_open s)"
    "serveRoute i h \<lparr>ri_requestId = hd_requestId h, ri_correlationId = hd_requestId h\<rparr> (callPath call) (callRequest c call)
       (addActive 1 (srv_state s)) = (Inl a, st')"
  shows "srv_answers (exchange i h c call s) = srv_answers s @ [(i, withOrigin (callRequest c call) a)]"
proof -
  let ?r = "\<lparr>or_id = i, or_request = callRequest c call,
        or_ids = \<lparr>ri_requestId = hd_requestId h, ri_correlationId = hd_requestId h\<rparr>, or_path = callPath call,
        or_slotOwned = True, or_timedOut = False\<rparr>"
  have "find (\<lambda>r. or_id r = i) (rs @ [?r]) = Some ?r" if "i \<notin> or_id ` set rs" for rs
    using that by (induction rs) auto
  then have "findOpen i (arrive i h (callRequest c call) s) = Some ?r"
    using arrive_call [OF assms(1-5)] assms(6) by (simp add: findOpen_def)
  moreover have "afterBody i h \<lparr>ri_requestId = hd_requestId h, ri_correlationId = hd_requestId h\<rparr> (callPath call) (callRequest c call) []
      (addActive 1 (srv_state s)) = (Inl (withOrigin (callRequest c call) a), st')"
    using assms(7) by (simp add: afterBody_def)
  ultimately show ?thesis
    unfolding exchange_def bodyRead_def arrive_call [OF assms(1-5)] by (simp add: answerWith_def dropOpen_def)
qed

lemma findings_ok:
  assumes "findingOk st"
  shows "list_all (\<lambda>f. isDiagnosticFinding (Some f) \<and> json_wf f) (fst (securityFindings now st)) \<and>
    length (fst (securityFindings now st)) \<le> 1"
  using assms by (auto simp: securityFindings_def findingOk_def split: option.split)

fun fixedLength :: "rx \<Rightarrow> nat option" where
  "fixedLength Eps = Some 0"
| "fixedLength (Cls rs) = Some 1"
| "fixedLength (Seq r s) = (case (fixedLength r, fixedLength s) of (Some m, Some n) \<Rightarrow> Some (m + n) | _ \<Rightarrow> None)"
| "fixedLength _ = None"

lemma fixedLength_lang: "fixedLength r = Some n \<Longrightarrow> w \<in> lang r \<Longrightarrow> length w = n"
  by (induction r arbitrary: n w rule: fixedLength.induct) (auto split: option.splits)

lemma uuid_length: "matches uuidV7 s \<Longrightarrow> length s = 36"
proof -
  assume "matches uuidV7 s"
  moreover have "fixedLength uuidV7 = Some 36" by code_simp
  ultimately show ?thesis using fixedLength_lang by (simp add: matches_lang)
qed

text \<open>What a call relies on: the client knows this runtime and its token, and the request is a fresh one it has room for.\<close>

definition callReady :: "clientState \<Rightarrow> handling \<Rightarrow> clientCall \<Rightarrow> nat \<Rightarrow> server \<Rightarrow> bool" where
  "callReady c h call i s \<longleftrightarrow>
     cs_descriptor c = sv_descriptor (srv_state s) \<and> hd_sha h (cs_token c) = sv_tokenHash (srv_state s) \<and>
     hd_parseUrl h (callPath call) = Some (callPath call, []) \<and>
     int (byteLength (callPath call)) \<le> cl_maxUrlBytes (sv_limits (srv_state s)) \<and>
     sv_activeRequests (srv_state s) < cl_maxConcurrentRequests (sv_limits (srv_state s)) \<and>
     i \<notin> or_id ` set (srv_open s) \<and> handlingOk h \<and>
     hd_uptime h (hd_later h) (ed_startedAt (cs_descriptor c)) \<le> 2 ^ 53 - 1 \<and>
     (case call of CallStop key \<Rightarrow> matches idempotencyKey key \<and>
         fst (idempotencyLookup key (stopPayloadHash (hd_sha h) (ed_instanceId (cs_descriptor c))) (hd_later h)
           (sv_idempotency (srv_state s))) = MISS
      | _ \<Rightarrow> True)"

lemma metadata_limits:
  assumes "stateOk st"
  obtains e g i where "fst (metadata now st) = limitsBody (cl_authFailureCapacity (sv_limits st)) (cl_authFailureWindowMs (sv_limits st))
      (cl_idempotencyCapacity (sv_limits st)) (cl_idempotencyTtlMs (sv_limits st)) e (cl_sseConnectionCapacity (sv_limits st)) g
      (cl_sseRetentionCapacity (sv_limits st)) i (cl_sseHeartbeatMs (sv_limits st))"
    "0 \<le> e" "e \<le> cl_idempotencyCapacity (sv_limits st)" "0 \<le> g" "g \<le> cl_sseConnectionCapacity (sv_limits st)"
    "0 \<le> i" "i \<le> cl_sseRetentionCapacity (sv_limits st)"
proof -
  obtain n r where r: "registrySize now (sv_idempotency st) = (n, r)" by fastforce
  have "registryOk r \<and> ir_capacity r = ir_capacity (sv_idempotency st)"
    using registryStep_ok [OF registryStep.Size, of "sv_idempotency st" now] assms r by (simp add: stateOk_def)
  moreover have "n = length (ir_entries r)" using r by (auto simp: registrySize_def Let_def)
  ultimately have "int n \<le> cl_idempotencyCapacity (sv_limits st)" using assms by (auto simp: registryOk_def stateOk_def)
  then show ?thesis
    using that [of "int n" "int (length (sv_connections st))" "int (length (sv_notifications st))"] assms
    by (simp add: metadata_def Let_def r limitsBody_def stateOk_def streamsOk_def)
qed

text \<open>A health answer is that of the runtime the client knows.\<close>

definition fromRuntime :: "clientState \<Rightarrow> clientCall \<Rightarrow> json \<Rightarrow> bool" where
  "fromRuntime c call j \<longleftrightarrow> (call = CallHealth \<longrightarrow> (\<exists>t fs. j = healthBody (cs_descriptor c) t fs))"

lemma serveRoute_call:
  assumes ok: "serverOk s" and f: "findingOk (srv_state s)" and v: "runtimeValid (cs_descriptor c)" and r: "callReady c h call i s"
    and p: "\<And>j. json_wf j \<Longrightarrow> parse (stringify j) = Some j"
  shows "\<exists>a st' j. serveRoute i h \<lparr>ri_requestId = hd_requestId h, ri_correlationId = hd_requestId h\<rparr> (callPath call)
      (callRequest c call) (addActive 1 (srv_state s)) = (Inl a, st') \<and>
    answersWith canParse parse c call (cl_maxResponseBytes (sv_limits (srv_state s))) j (withOrigin (callRequest c call) a) \<and> fromRuntime c call j"
proof -
  let ?ids = "\<lparr>ri_requestId = hd_requestId h, ri_correlationId = hd_requestId h\<rparr>" and ?req = "callRequest c call"
  let ?st = "addActive 1 (srv_state s)" and ?max = "cl_maxResponseBytes (sv_limits (srv_state s))"
  have d: "sv_descriptor (srv_state s) = cs_descriptor c" using r by (simp add: callReady_def)
  have st: "stateOk ?st" using ok by (simp add: serverOk_def)
  have ids: "idsValid ?ids" using r by (simp add: callReady_def handlingOk_def idsValid_def)
  have route: "serveRoute i h ?ids path ?req ?st =
      (let now = hd_later h; get = (callMethod call = js ''GET''); send = (\<lambda>body. Inl (sendJson ?max 200 body ''application/json'')) in
       if get \<and> path = js ''/v1/version'' then (send (versionBody (cs_descriptor c) ?ids), ?st)
       else if get \<and> path = js ''/v1/health'' then
         (case securityFindings now ?st of (findings, st') \<Rightarrow> (send (healthBody (cs_descriptor c) (hd_iso h now) findings), st'))
       else if get \<and> path = js ''/v1/endpoint'' then (send (endpointBody (cs_descriptor c)), ?st)
       else if get \<and> path = js ''/v1/status'' then
         (case metadata now ?st of (limits, st') \<Rightarrow>
            (send (statusBody (cs_descriptor c) (max 0 (hd_uptime h now (ed_startedAt (cs_descriptor c)))) limits ?ids), st'))
       else if get \<and> path = js ''/v1/doctor'' then
         (case securityFindings now ?st of (findings, st') \<Rightarrow> (send (doctorBody findings ?ids), st'))
       else if get \<and> path = js ''/v1/events'' then serveEvents i ?ids ?req ?st
       else if callMethod call = js ''POST'' \<and> path = js ''/v1/runtime/stop'' then
         (case serveStop h ?ids ?req ?st of (a, st') \<Rightarrow> (Inl a, st'))
       else (Inl (sendProblem ?st ?ids 404 ''CONTROL_ROUTE_NOT_FOUND'' ''Route not found''
             ''The versioned endpoint does not exist'' ''NON_RETRYABLE''), ?st))" for path
    by (simp add: serveRoute_def Let_def callRequest_headers d)
  have ok200: "answersWith canParse parse c call ?max j (withOrigin ?req (sendJson ?max 200 j ''application/json''))"
    if "callStatus call = 200" "meets canParse (callCheck call) (Some j)" "json_wf j" for j
    using sendJson_answers [of canParse call j parse 200 _ ?max c ?req] p [OF that(3)] that(1,2) by simp
  note fnd = findings_ok [of ?st "hd_later h", simplified, OF f]
  show ?thesis
  proof (cases call)
    case CallVersion
    then show ?thesis
      using ok200 [of "versionBody (cs_descriptor c) ?ids"] versionBody_valid [OF v ids]
      unfolding route by (intro exI) (auto simp: Let_def meets_def fromRuntime_def)
  next
    case CallHealth
    obtain fs st' where fs: "securityFindings (hd_later h) ?st = (fs, st')" by fastforce
    have "isHealthResponse (Some (healthBody (cs_descriptor c) (hd_iso h (hd_later h)) fs)) \<and>
        json_wf (healthBody (cs_descriptor c) (hd_iso h (hd_later h)) fs)"
      by (rule healthBody_valid [OF v]) (use r fnd fs in \<open>simp_all add: callReady_def handlingOk_def\<close>)
    then show ?thesis
      using ok200 [of "healthBody (cs_descriptor c) (hd_iso h (hd_later h)) fs"] CallHealth
      unfolding route by (intro exI) (auto simp: Let_def meets_def fs fromRuntime_def)
  next
    case CallStatus
    obtain m st' where m: "metadata (hd_later h) ?st = (m, st')" by fastforce
    let ?body = "statusBody (cs_descriptor c) (max 0 (hd_uptime h (hd_later h) (ed_startedAt (cs_descriptor c)))) m ?ids"
    have u: "max 0 (hd_uptime h (hd_later h) (ed_startedAt (cs_descriptor c))) \<le> 2 ^ 53 - 1" using r by (auto simp: callReady_def)
    have "isStatusResponse (Some ?body) \<and> json_wf ?body"
    proof (rule metadata_limits [OF st, of "hd_later h"])
      fix e g k
      assume b: "fst (metadata (hd_later h) ?st) = limitsBody (cl_authFailureCapacity (sv_limits ?st)) (cl_authFailureWindowMs (sv_limits ?st))
        (cl_idempotencyCapacity (sv_limits ?st)) (cl_idempotencyTtlMs (sv_limits ?st)) e (cl_sseConnectionCapacity (sv_limits ?st)) g
        (cl_sseRetentionCapacity (sv_limits ?st)) k (cl_sseHeartbeatMs (sv_limits ?st))"
        "0 \<le> e" "e \<le> cl_idempotencyCapacity (sv_limits ?st)" "0 \<le> g" "g \<le> cl_sseConnectionCapacity (sv_limits ?st)"
        "0 \<le> k" "k \<le> cl_sseRetentionCapacity (sv_limits ?st)"
      have l: "limitsOk (sv_limits ?st)" using st by (simp add: stateOk_def)
      have m': "m = limitsBody (cl_authFailureCapacity (sv_limits ?st)) (cl_authFailureWindowMs (sv_limits ?st))
        (cl_idempotencyCapacity (sv_limits ?st)) (cl_idempotencyTtlMs (sv_limits ?st)) e (cl_sseConnectionCapacity (sv_limits ?st)) g
        (cl_sseRetentionCapacity (sv_limits ?st)) k (cl_sseHeartbeatMs (sv_limits ?st))" using b(1) m by simp
      show ?thesis
        unfolding m' by (rule statusBody_valid [OF v ids _ u]) (use b(2-) l in \<open>auto simp: limitsOk_def isSafe_def\<close>)
    qed
    then show ?thesis
      using ok200 [of ?body] CallStatus unfolding route by (intro exI) (auto simp: Let_def meets_def m fromRuntime_def)
  next
    case CallDoctor
    obtain fs st' where fs: "securityFindings (hd_later h) ?st = (fs, st')" by fastforce
    have "isDoctorResponse (Some (doctorBody fs ?ids)) \<and> json_wf (doctorBody fs ?ids)"
      by (rule doctorBody_valid [OF ids]) (use fnd fs in simp_all)
    then show ?thesis
      using ok200 [of "doctorBody fs ?ids"] CallDoctor unfolding route by (intro exI) (auto simp: Let_def meets_def fs fromRuntime_def)
  next
    case (CallStop key)
    let ?p = "stopPayloadHash (hd_sha h) (ed_instanceId (cs_descriptor c))"
    have key: "matches idempotencyKey key" "matches uuidV7 (hd_otherId h)"
      and miss: "fst (idempotencyLookup key ?p (hd_later h) (sv_idempotency ?st)) = MISS"
      using r CallStop by (auto simp: callReady_def handlingOk_def)
    obtain reg where reg: "idempotencyLookup key ?p (hd_later h) (sv_idempotency ?st) = (MISS, reg)"
      using miss by (cases "idempotencyLookup key ?p (hd_later h) (sv_idempotency ?st)") simp
    let ?a = "(sendJson ?max 202 (stopBody (hd_otherId h)) ''application/json'')\<lparr>an_stop := True\<rparr>"
    have s: "\<exists>st'. serveStop h ?ids ?req ?st = (?a, st')"
      using key(1) reg d by (simp add: serveStop_def Let_def headerText_def callRequest_headers CallStop)
    have "answersWith canParse parse c call ?max (stopBody (hd_otherId h)) (withOrigin ?req ?a)"
      by (rule sendJson_answers [where status = 202])
        (use stopBody_valid [OF key(2)] uuid_length [OF key(2)] p CallStop in \<open>simp_all add: meets_def\<close>)
    then show ?thesis using s CallStop unfolding route by (auto simp: Let_def fromRuntime_def)
  qed
qed

lemma startControlApi_finding:
  assumes "sr_result (startControlApi sha w instanceId nid startedAt pid ref options) = Inr s" shows "findingOk (srv_state s)"
proof -
  from startControlApi_state [OF assms] obtain limits registry descriptor origins token where
    "s = \<lparr>srv_state = snd (publishNotification nid startedAt (startedNotification instanceId)
            (startState descriptor (sha token) origins limits registry)), srv_open = [], srv_answers = []\<rparr>"
    by metis
  then show ?thesis by (intro findingOk_None) (simp add: startState_def)
qed

lemma exchange_answers:
  assumes "sr_result (startControlApi sha w instanceId nid startedAt pid ref options) = Inr s0" "runOk es s0"
    "\<And>i h req. Arrive i h req \<in> set es \<Longrightarrow> handlingOk h"
    "\<And>j. json_wf j \<Longrightarrow> parse (stringify j) = Some j"
    "s = serverRun es s0" "runtimeValid (cs_descriptor c)" "callReady c h call i s"
  shows "\<exists>a j. srv_answers (exchange i h c call s) = srv_answers s @ [(i, a)] \<and>
    answersWith canParse parse c call (cl_maxResponseBytes (sv_limits (srv_state s))) j a \<and> fromRuntime c call j"
proof -
  have ok: "serverOk s" using serverRun_ok [OF assms(2) startControlApi_ok [OF assms(1)]] assms(5) by simp
  have same: "sameIdentity s0 s"
    using serverRun_serves [OF assms(2) startControlApi_ok [OF assms(1)] servesOnly_True] assms(5) by simp
  have "cs_descriptor c = sv_descriptor (srv_state s0)" using assms(7) same by (simp add: callReady_def sameIdentity_def)
  moreover have "36 \<le> length (ed_instanceId (cs_descriptor c)) \<and> length (ed_instanceId (cs_descriptor c)) \<le> 36"
    using assms(6) uuid_length by (simp add: runtimeValid_def)
  ultimately have "lengthIn 1 256 (ed_instanceId (sv_descriptor (srv_state s0)))" by (simp add: lengthIn_def)
  then have f: "findingOk (srv_state s)"
    using serverRun_finding [OF assms(2) startControlApi_ok [OF assms(1)] startControlApi_finding [OF assms(1)] _ assms(3)] assms(5) by simp
  obtain a st' j where a: "serveRoute i h \<lparr>ri_requestId = hd_requestId h, ri_correlationId = hd_requestId h\<rparr> (callPath call)
      (callRequest c call) (addActive 1 (srv_state s)) = (Inl a, st')"
    "answersWith canParse parse c call (cl_maxResponseBytes (sv_limits (srv_state s))) j (withOrigin (callRequest c call) a)" "fromRuntime c call j"
    using serveRoute_call [OF ok f assms(6,7,4)] by blast
  have "srv_answers (exchange i h c call s) = srv_answers s @ [(i, withOrigin (callRequest c call) a)]"
    by (rule exchange_answer [OF _ _ _ _ _ _ a(1)]) (use assms(7) in \<open>simp_all add: callReady_def\<close>)
  then show ?thesis using a(2,3) by blast
qed

end
