(* ===== verification/Control_Example.thy ===== *)
theory Control_Example
  imports Control_Exchange
begin

text \<open>
  A configuration on which the properties of the control API are instantiated: a server that starts, and a client that
  knows its token.
\<close>

section \<open>An example\<close>

definition exampleId :: "string \<Rightarrow> jstring" where
  "exampleId s = js (''0190aaaa-0000-7000-8000-00000000000'' @ s)"

definition exampleOrigins :: "jstring list" where
  "exampleOrigins = [js ''http://localhost:5173'']"

definition exampleOptions :: startOptions where
  "exampleOptions = \<lparr>so_dataRoot = js ''/data'', so_frameworkVersion = js ''1.0.0'', so_releaseId = js ''local'',
     so_allowedOrigins = Some exampleOrigins, so_limits = [(js ''authFailureCapacity'', Some 2)]\<rparr>"

definition exampleWorld :: startWorld where
  "exampleWorld = \<lparr>sw_lock = Inr (), sw_parseUrl = (\<lambda>s. Some \<lparr>up_username = [], up_password = [], up_origin = s\<rparr>),
     sw_token = Inr (js ''secret''), sw_listen = Inr 4000, sw_write = Inr (), sw_removed = True, sw_released = True\<rparr>"

text \<open>A stand-in for SHA-256.\<close>

definition exampleSha :: "jstring \<Rightarrow> jstring" where
  "exampleSha s = js ''h'' @ s"

definition exampleTime :: jstring where
  "exampleTime = js ''2024-06-01T12:00:00.000Z''"

definition exampleStart :: startResult where
  "exampleStart = startControlApi exampleSha exampleWorld (exampleId ''1'') (exampleId ''2'') exampleTime 77
     (js ''control/token'') exampleOptions"

definition exampleServer :: server where
  "exampleServer = (case sr_result exampleStart of Inr s \<Rightarrow> s | Inl e \<Rightarrow> undefined)"

definition exampleDescriptor :: controlEndpointDescriptor where
  "exampleDescriptor = \<lparr>ed_instanceId = exampleId ''1'', ed_pid = 77, ed_startedAt = exampleTime, ed_port = 4000,
     ed_frameworkVersion = js ''1.0.0'', ed_releaseId = js ''local'', ed_tokenFileRef = js ''control/token''\<rparr>"

lemma example_start: "sr_result exampleStart = Inr exampleServer"
proof -
  have "isl (sr_result exampleStart) = False" by code_simp
  then show ?thesis by (cases "sr_result exampleStart") (auto simp: exampleServer_def)
qed

text \<open>A handling of a request, and a client with the token.\<close>

definition exampleHandling :: handling where
  "exampleHandling = \<lparr>hd_sha = exampleSha, hd_parseUrl = (\<lambda>s. Some (s, [])), hd_iso = (\<lambda>_. exampleTime), hd_uptime = (\<lambda>_ _. 5),
     hd_requestId = exampleId ''3'', hd_otherId = exampleId ''4'', hd_now = 1000, hd_later = 1001\<rparr>"

definition exampleClient :: clientState where
  "exampleClient = \<lparr>cs_descriptor = exampleDescriptor, cs_token = js ''secret'', cs_maxResponseBytes = 262144\<rparr>"

definition exampleCandidate :: jobject where
  "exampleCandidate = [(js ''kind'', text_of ''OPERATION_METADATA''),
     (js ''subjectRef'', obj [(''subjectType'', text_of ''Run''), (''subjectId'', text_of ''r1'')]),
     (js ''projectionVersion'', num_of 3), (js ''resourceUri'', text_of ''/v1/status'')]"

definition exampleLimits :: controlLimits where
  "exampleLimits = \<lparr>cl_maxHeaderBytes = 16384, cl_maxUrlBytes = 2048, cl_maxBodyBytes = 16384, cl_maxResponseBytes = 262144,
     cl_maxConcurrentRequests = 64, cl_requestTimeoutMs = 10000, cl_authFailureCapacity = 2, cl_authFailureWindowMs = 60000,
     cl_idempotencyCapacity = 1024, cl_idempotencyTtlMs = 900000, cl_sseConnectionCapacity = 8, cl_sseRetentionCapacity = 512,
     cl_sseHeartbeatMs = 15000, cl_sseMaxBufferedBytes = 262144\<rparr>"

lemma example_merged: "mergeLimits (so_limits exampleOptions) = Some exampleLimits"
  by code_simp

lemmas example_limits = exampleLimits_def

definition exampleRegistry :: idempotencyRegistry where
  "exampleRegistry = the (newIdempotencyRegistry (cl_idempotencyCapacity exampleLimits) (cl_idempotencyTtlMs exampleLimits))"

definition exampleNotification :: "jstring \<times> json" where
  "exampleNotification = (exampleId ''2'', newNotification (exampleId ''2'') exampleTime (startedNotification (exampleId ''1'')))"

lemma example_server:
  "exampleServer = \<lparr>srv_state = (startState exampleDescriptor (js ''hsecret'') exampleOrigins exampleLimits exampleRegistry)
     \<lparr>sv_notifications := [exampleNotification], sv_sequence := 1\<rparr>, srv_open = [], srv_answers = []\<rparr>"
proof -
  have v: "validNotification (startedNotification (exampleId ''1''))" by code_simp
  have "publishNotification (exampleId ''2'') exampleTime (startedNotification (exampleId ''1''))
      (startState exampleDescriptor (js ''hsecret'') exampleOrigins exampleLimits exampleRegistry) =
    (Inr (snd exampleNotification), (startState exampleDescriptor (js ''hsecret'') exampleOrigins exampleLimits exampleRegistry)
     \<lparr>sv_notifications := [exampleNotification], sv_sequence := 1\<rparr>)"
    using v by (simp add: publishNotification_def startState_def exampleNotification_def example_limits Let_def)
  moreover have "\<not> (trim (so_dataRoot exampleOptions) = [] \<or> \<not> matches semver (so_frameworkVersion exampleOptions) \<or>
      length (so_releaseId exampleOptions) < 1 \<or> length (so_releaseId exampleOptions) > 256)"
    by code_simp
  moreover note example_merged
  moreover have "newIdempotencyRegistry (cl_idempotencyCapacity exampleLimits) (cl_idempotencyTtlMs exampleLimits) = Some exampleRegistry"
  proof -
    have "newIdempotencyRegistry (cl_idempotencyCapacity exampleLimits) (cl_idempotencyTtlMs exampleLimits) \<noteq> None" by code_simp
    then show ?thesis by (auto simp: exampleRegistry_def)
  qed
  moreover have "normalizedOrigins (sw_parseUrl exampleWorld) exampleOrigins = Inr exampleOrigins"
    by (simp add: exampleOrigins_def exampleWorld_def)
  moreover have "exampleSha (js ''secret'') = js ''hsecret''" by (simp add: exampleSha_def js_def)
  ultimately show ?thesis
    unfolding exampleServer_def exampleStart_def startControlApi_def
    by (simp add: exampleWorld_def exampleOptions_def exampleDescriptor_def)
qed

end
