(* ===== verification/Control_Properties.thy ===== *)
theory Control_Properties
  imports Control_Example
begin

text \<open>
  What the control API of \<open>packages/platform\<close> promises: who is served, what the server holds, what a stream
  carries and a client receives, what a call returns, and what a start that fails leaves. The instances at the
  end run a server started with an example configuration.
\<close>

section \<open>Clients, streams and bounds\<close>

text \<open>C27. A request that does not come over the loopback interface, to the exact host, without an origin or with an
  allowed one, and with a bearer token of the hash of the token of this runtime, gets nothing: in every run of a
  started server, however requests and timers interleave, no answer to it has status 200 or 202 or stops the
  runtime, and it never opens an event stream.\<close>

theorem control_requires_token:
  assumes "sr_result (startControlApi sha w instanceId nid startedAt pid ref options) = Inr s0" "runOk es s0"
    "distinct (arrivals es)" "Arrive i h req \<in> set es" "\<not> authorized h (srv_state s0) req"
  shows "(\<forall>a. (i, a) \<in> set (srv_answers (serverRun es s0)) \<longrightarrow> an_status a \<noteq> 200 \<and> an_status a \<noteq> 202 \<and> \<not> an_stop a) \<and>
    i \<notin> streamIds (srv_state (serverRun es s0)) \<and>
    (\<exists>token. sw_token w = Inr token \<and> sv_tokenHash (srv_state s0) = sha token)"
proof -
  define P where "P = (\<lambda>j. \<exists>h req. Arrive j h req \<in> set es \<and> authorized h (srv_state s0) req)"
  have f: "servesOnly P s0" using startControlApi_fresh [OF assms(1)] by (simp add: servesOnly_def)
  have "servesOnly P (serverRun es s0)"
    using serverRun_serves [OF assms(2) startControlApi_ok [OF assms(1)] f] by (auto simp: P_def)
  moreover have "\<not> P i"
  proof
    assume "P i"
    then obtain h' req' where "Arrive i h' req' \<in> set es" "authorized h' (srv_state s0) req'" by (auto simp: P_def)
    then show False using arrivals_unique [OF assms(3,4)] assms(5) by blast
  qed
  ultimately show ?thesis
    using startControlApi_fresh [OF assms(1)] by (fastforce simp: servesOnly_def refusal_def)
qed

text \<open>C28. A server that was started stays within its limits in every run: the slots in use are those of the requests
  in flight and at most the limit of concurrent requests, the event streams, the bytes each of them buffers, the
  retained notifications, the remembered addresses of failed authentications and the idempotency entries never
  exceed theirs.\<close>

theorem control_bounded:
  assumes "sr_result (startControlApi sha w instanceId nid startedAt pid ref options) = Inr s0" "runOk es s0"
    "s = serverRun es s0" "st = srv_state s" "limits = sv_limits st"
  shows "0 \<le> sv_activeRequests st \<and> sv_activeRequests st = slots (srv_open s) \<and>
      sv_activeRequests st \<le> cl_maxConcurrentRequests limits \<and>
      int (length (sv_connections st)) \<le> cl_sseConnectionCapacity limits \<and>
      (\<forall>c \<in> set (sv_connections st). 0 \<le> ec_bufferedBytes c \<and> ec_bufferedBytes c \<le> cl_sseMaxBufferedBytes limits) \<and>
      int (length (sv_notifications st)) \<le> cl_sseRetentionCapacity limits \<and>
      length (sv_authFailures st) \<le> 32 \<and>
      int (length (ir_entries (sv_idempotency st))) \<le> cl_idempotencyCapacity limits"
proof -
  have "serverOk s" using serverRun_ok [OF assms(2) startControlApi_ok [OF assms(1)]] assms(3) by simp
  then show ?thesis
    unfolding serverOk_def stateOk_def streamsOk_def registryOk_def assms(4,5) by (auto simp: slots_def)
qed

text \<open>C29. An event stream has no gaps: what an open stream has carried are the frames of the last notifications of the
  history, all of them in order from where it began, what a closed stream has carried is a contiguous part of the
  history, and the retained notifications are the end of it.\<close>

theorem streams_gapless:
  assumes "sr_result (startControlApi sha w instanceId nid startedAt pid ref options) = Inr s0" "runOk es s0"
    "st = srv_state (serverRun es s0)" "history = sv_notifications (srv_state s0) @ published es s0"
  shows "(\<exists>old. history = old @ sv_notifications st) \<and>
    (\<forall>c \<in> set (sv_connections st). \<exists>before since. history = before @ since \<and> carried c = map frameOf since) \<and>
    (\<forall>c \<in> set (sv_closed st). \<exists>before some after. history = before @ some @ after \<and> carried c = map frameOf some)"
proof -
  have "streamsFollow history st"
    using streams_follow_all [OF assms(1,2)] assms(3,4) by simp
  then show ?thesis unfolding streamsFollow_def upToNow_def segment_def .
qed

text \<open>A stream that is opened with the identifier of a retained notification begins after it: the frames written
  are exactly those of the notifications published since, when they fit the buffer of a stream.\<close>

theorem stream_resumes:
  assumes "sv_notifications st = old @ (i, n) # missed" "i \<notin> fst ` set old"
    "headerText req ''last-event-id'' = Some i" "int (length (sv_connections st)) < cl_sseConnectionCapacity (sv_limits st)"
    "bytes = sum_list (map (\<lambda>n. int (byteLength (frameOf n))) missed)" "bytes \<le> cl_sseMaxBufferedBytes (sv_limits st)"
  shows "serveEvents c ids req st = (Inr (), st\<lparr>sv_connections := sv_connections st @
    [\<lparr>ec_id = c, ec_bufferedBytes = bytes, ec_frames = map frameOf missed\<rparr>]\<rparr>)"
proof -
  have "dropWhile (\<lambda>n. fst n \<noteq> i) (old @ (i, n) # missed) = (i, n) # missed"
    using assms(2) by (induction old) auto
  then have "startReplay (Some i) st \<lparr>ec_id = c, ec_bufferedBytes = 0, ec_frames = []\<rparr> =
      (True, \<lparr>ec_id = c, ec_bufferedBytes = bytes, ec_frames = map frameOf missed\<rparr>)"
    using assms(1,5,6) replayFrames_fit [of "\<lparr>ec_id = c, ec_bufferedBytes = 0, ec_frames = []\<rparr>" missed]
    by (simp add: startReplay_def Let_def)
  then show ?thesis using assms(3,4) by (simp add: serveEvents_def)
qed



text \<open>Failed authentications of one address in one window are limited from the attempt after the capacity on: the
  k-th attempt of the window is limited exactly if k exceeds the capacity.\<close>

theorem auth_failures_limited:
  assumes "case map_of (sv_authFailures st) remote of None \<Rightarrow> True | Some entry \<Rightarrow> af_resetAt entry \<le> t"
    "limits = sv_limits st" "0 < cl_authFailureWindowMs limits"
    "\<forall>u \<in> set ts. u < t + cl_authFailureWindowMs limits"
  shows "failedAttempts remote (t # ts) st = map (\<lambda>k. cl_authFailureCapacity limits < int k) [1..<2 + length ts]"
proof -
  have "\<exists>x st'. registerAuthFailure t remote st = ((cl_authFailureCapacity limits < 1, x), st') \<and> sv_limits st' = limits \<and>
      map_of (sv_authFailures st') remote = Some \<lparr>af_count = 1, af_resetAt = t + cl_authFailureWindowMs limits\<rparr>"
    using assms(1-3) by (cases "map_of (sv_authFailures st) remote")
      (auto simp: registerAuthFailure_def Let_def map_of_setKey)
  then obtain x st' where s: "registerAuthFailure t remote st = ((cl_authFailureCapacity limits < 1, x), st')"
      "sv_limits st' = limits"
      "map_of (sv_authFailures st') remote = Some \<lparr>af_count = int 1, af_resetAt = t + cl_authFailureWindowMs limits\<rparr>"
    by auto
  have "[1..<2 + length ts] = 1 # [Suc 1..<Suc 1 + length ts]" using upt_conv_Cons [of 1 "2 + length ts"] by simp
  then show ?thesis using failedAttempts_counted [OF s(3), of ts] assms(4) s(1,2) by simp
qed

section \<open>Starts that fail\<close>

text \<open>Whether a start gets as far as holding the lock of its data root.\<close>

definition acquiresLock :: "startWorld \<Rightarrow> startOptions \<Rightarrow> bool" where
  "acquiresLock w options \<longleftrightarrow>
     \<not> (trim (so_dataRoot options) = [] \<or> \<not> matches semver (so_frameworkVersion options) \<or>
        length (so_releaseId options) < 1 \<or> length (so_releaseId options) > 256) \<and>
     mergeLimits (so_limits options) \<noteq> None \<and> sw_lock w = Inr ()"

definition givenOrigins :: "startOptions \<Rightarrow> jstring list" where
  "givenOrigins options = (case so_allowedOrigins options of None \<Rightarrow> [] | Some os \<Rightarrow> os)"

lemma mergeLimits_registry: "mergeLimits given = Some l \<Longrightarrow>
    \<exists>r. newIdempotencyRegistry (cl_idempotencyCapacity l) (cl_idempotencyTtlMs l) = Some r"
  using mergeLimits_ok [of given l] by (simp add: limitsOk_def isSafe_def newIdempotencyRegistry_def)


section \<open>Answers a client should refuse\<close>

text \<open>
  The client compares \<open>String(value)\<close> with the names of a closed set, and the text of a one-element array is
  the text of its element: a health answer whose \<open>readiness\<close> is an array is accepted.
\<close>

lemma array_readiness_accepted:
  "isHealthResponse (Some (obj [(''schemaVersion'', text_of ''1.0.0''), (''instanceId'', JStr (exampleId ''1'')),
     (''readiness'', JArr [text_of ''DEGRADED'']), (''runtimeVersion'', text_of ''1.0.0''), (''releaseId'', text_of ''local''),
     (''stateVersion'', num_of 0), (''checkedAt'', JStr exampleTime),
     (''findings'', JArr [securityFinding (exampleId ''3'') (exampleId ''1'') exampleTime])]))"
  by code_simp

text \<open>
  The client's limit on a frame is a limit on what one chunk adds: two small frames that arrive together are
  refused where the same frames are accepted when they arrive one by one.
\<close>

lemma frame_limit_depends_on_chunks:
  "readEventChunks parseCanonical 13 startEvents [utf8 heartbeatFrame @ utf8 heartbeatFrame] =
     ([], Inl (ControlApiError (js ''CONTROL_CLIENT_RESPONSE_TOO_LARGE'')))"
  "readEventChunks parseCanonical 13 startEvents [utf8 heartbeatFrame, utf8 heartbeatFrame] = ([], Inr ())"
proof -
  have d: "wellFormed heartbeatFrame" "\<not> startsWith heartbeatFrame [0xFEFF]"
    using wellFormed_frames [of parseCanonical "[SentHeartbeat]"] frames_no_bom [of "[SentHeartbeat]"] by simp_all
  have b: "byteLength heartbeatFrame = 13" "byteLength (heartbeatFrame @ heartbeatFrame) = 26" by code_simp+
  have len: "length (utf8 heartbeatFrame) = 13" by (simp add: length_utf8 b)
  have one: "decodeUtf8 (utf8 heartbeatFrame) = Some (heartbeatFrame, [])"
    using decodeUtf8_utf8 [OF d(1), of "[]"] by simp
  have two: "decodeUtf8 (utf8 heartbeatFrame @ utf8 heartbeatFrame) = Some (heartbeatFrame @ heartbeatFrame, [])"
    using decodeUtf8_utf8 [OF d(1), of "utf8 heartbeatFrame"] one by simp
  have bom: "\<not> startsWith (heartbeatFrame @ heartbeatFrame) [0xFEFF]"
    using frames_no_bom [of "[SentHeartbeat, SentHeartbeat]"] by simp
  have f: "readFrames parseCanonical heartbeatFrame = ([], Inr [])"
    using readFrames_sent [of parseCanonical "[SentHeartbeat]"] by simp
  show "readEventChunks parseCanonical 13 startEvents [utf8 heartbeatFrame @ utf8 heartbeatFrame] =
      ([], Inl (ControlApiError (js ''CONTROL_CLIENT_RESPONSE_TOO_LARGE'')))"
    using two b len bom by (simp add: startEvents_def Let_def)
  show "readEventChunks parseCanonical 13 startEvents [utf8 heartbeatFrame, utf8 heartbeatFrame] = ([], Inr ())"
    using one b len d(2) f by (simp add: startEvents_def Let_def)
qed

section \<open>Instances\<close>

text \<open>A request that guesses the token, then the client's request for events, and a notification.\<close>

definition exampleGuess :: controlRequest where
  "exampleGuess = arriving (exampleClient\<lparr>cs_token := js ''guess''\<rparr>) (js ''GET'') (js ''/v1/status'') []"

definition exampleEvents :: "serverEvent list" where
  "exampleEvents = [Arrive 1 exampleHandling (eventRequest exampleClient None), BodyRead 1 exampleHandling [],
     Publish (exampleId ''5'') exampleTime exampleCandidate]"

lemma example_run: "runOk exampleEvents exampleServer" "runOk [Arrive 0 exampleHandling exampleGuess] exampleServer"
  by (simp_all add: exampleEvents_def example_server startState_def)

lemma exampleSha_inj [simp]: "exampleSha s = exampleSha t \<longleftrightarrow> s = t"
  by (simp add: exampleSha_def)

lemma example_hash: "sv_tokenHash (srv_state exampleServer) = exampleSha (js ''secret'')"
  by (simp add: example_server startState_def exampleSha_def js_def)

definition exampleStream :: eventConnection where
  "exampleStream = (let frame = frameOf (exampleId ''5'', newNotification (exampleId ''5'') exampleTime exampleCandidate) in
     \<lparr>ec_id = 1, ec_bufferedBytes = int (byteLength frame), ec_frames = [frame]\<rparr>)"

lemma example_stream: "sv_connections (srv_state (serverRun exampleEvents exampleServer)) = [exampleStream]"
proof -
  let ?c = "\<lparr>ec_id = 1, ec_bufferedBytes = 0, ec_frames = []\<rparr>"
  let ?s1 = "exampleServer\<lparr>srv_state := (srv_state exampleServer)\<lparr>sv_connections := [?c]\<rparr>\<rparr>"
  have e: "serveEvents 1 ids (eventRequest exampleClient None) (addActive 1 (srv_state exampleServer)) =
      (Inr (), (addActive 1 (srv_state exampleServer))\<lparr>sv_connections := [?c]\<rparr>)" for ids
    by (simp add: serveEvents_def eventRequest_last startReplay_def example_server startState_def example_limits addActive_def)
  have "bodyRead 1 exampleHandling [] (arrive 1 exampleHandling (eventRequest exampleClient None) exampleServer) =
      exampleServer\<lparr>srv_state := addActive (- 1) ((addActive 1 (srv_state exampleServer))\<lparr>sv_connections := [?c]\<rparr>)\<rparr>"
    by (rule stream_opened [OF _ _ _ _ _ _ e])
      (simp_all add: exampleClient_def exampleHandling_def example_server startState_def exampleSha_def example_limits js_def)
  then have s1: "serverRun [Arrive 1 exampleHandling (eventRequest exampleClient None), BodyRead 1 exampleHandling []] exampleServer = ?s1"
    by (simp add: addActive_def example_server startState_def)
  have v: "validNotification exampleCandidate" by code_simp
  have b: "int (byteLength (frameOf (exampleId ''5'', newNotification (exampleId ''5'') exampleTime exampleCandidate))) \<le> 262144"
    by code_simp
  have "serverRun exampleEvents exampleServer = serverStep (Publish (exampleId ''5'') exampleTime exampleCandidate) ?s1"
    using s1 by (simp add: exampleEvents_def)
  then show ?thesis
    using v b by (simp add: onState_def publishNotification_def Let_def example_server startState_def example_limits writeSse_def
      writeSseFrame_def exampleStream_def frameOf_def)
qed

theorem control_requires_token_witness:
  "\<not> list_ex (\<lambda>(i, a). i = 0 \<and> an_status a = 200) (srv_answers (serverRun [Arrive 0 exampleHandling exampleGuess] exampleServer)) \<and>
   0 \<notin> streamIds (srv_state (serverRun [Arrive 0 exampleHandling exampleGuess] exampleServer))"
proof -
  have "\<not> authorized exampleHandling (srv_state exampleServer) exampleGuess"
  proof -
    have h: "headerText exampleGuess ''authorization'' = Some (js ''Bearer '' @ js ''guess'')"
      by (simp add: exampleGuess_def headerText_def arriving_header requestHeaders_def overlay_def)
    show ?thesis by (auto simp: authorized_def h example_hash exampleHandling_def)
  qed
  from control_requires_token [OF example_start [unfolded exampleStart_def] example_run(2) _ _ this, of 0]
  show ?thesis by (auto simp: list_ex_iff simp del: serverRun.simps)
qed

theorem control_bounded_witness:
  "int (length (sv_connections (srv_state (serverRun exampleEvents exampleServer)))) \<le> 8"
  using control_bounded [OF example_start [unfolded exampleStart_def] example_run(1) refl refl refl]
    example_limits
  by (simp add: example_stream)

theorem streams_gapless_witness:
  "\<exists>before since. [exampleNotification] @ published exampleEvents exampleServer = before @ since \<and>
     carried exampleStream = map frameOf since"
  using streams_gapless [OF example_start [unfolded exampleStart_def] example_run(1) refl refl] example_stream
  by (simp add: example_server startState_def)

theorem stream_resumes_witness:
  "fst (serveEvents 7 \<lparr>ri_requestId = [], ri_correlationId = []\<rparr> (eventRequest exampleClient (Some (exampleId ''2'')))
     (srv_state exampleServer)) = Inr ()"
proof -
  have n: "sv_notifications (srv_state exampleServer) = [] @ (exampleId ''2'', snd exampleNotification) # []"
    by (simp add: example_server startState_def exampleNotification_def)
  from stream_resumes [OF n _ eventRequest_last _ refl, where c = 7] show ?thesis
    by (simp add: example_server startState_def example_limits)
qed



theorem auth_failures_limited_witness:
  "failedAttempts (js ''10.0.0.1'') [0, 1, 2, 3] (srv_state exampleServer) = [False, False, True, True]"
proof -
  have "failedAttempts (js ''10.0.0.1'') (0 # [1, 2, 3]) (srv_state exampleServer) = map (\<lambda>k. (2 :: int) < int k) [1..<5]"
    using auth_failures_limited [where st = "srv_state exampleServer" and remote = "js ''10.0.0.1''" and t = 0 and
        limits = exampleLimits and ts = "[1, 2, 3]"]
    by (simp add: example_server startState_def example_limits)
  then show ?thesis by (simp add: upt_rec)
qed


end
