(* ===== verification/Control_Files.thy ===== *)
theory Control_Files
  imports Control_Exchange Repository_Files
begin

text \<open>
  \<open>packages/platform/src/filesystem.ts\<close>: the files by which a client finds the runtime of a data root, and the
  connection of a client (\<open>createControlApiClient\<close> of \<open>client.ts\<close>). This is the POSIX branch: paths are lists of
  segments, and the file system is a map from paths to texts with permission bits. Each call may fail.
\<close>

unbundle bit_operations_syntax

section \<open>Paths\<close>

record controlPaths =
  cp_descriptorPath :: "jstring list"
  cp_tokenFilePath :: "jstring list"
  cp_lockFilePath :: "jstring list"

definition controlPathsOf :: "jstring list \<Rightarrow> controlPaths" where
  "controlPathsOf root =
     \<lparr>cp_descriptorPath = root @ [js ''state'', js ''runtime'', js ''control-endpoint.json''],
      cp_tokenFilePath = root @ [js ''secrets'', js ''runtime'', js ''control-api.token''],
      cp_lockFilePath = root @ [js ''state'', js ''runtime'', js ''control-api.lock'']\<rparr>"

definition isWithin :: "jstring list \<Rightarrow> jstring list \<Rightarrow> bool" where
  "isWithin root candidate =
     (let delta = relativePath root candidate in
      delta = [] \<or> \<not> startsWith delta (js ''../'') \<and> delta \<noteq> js ''..'' \<and> \<not> isAbsolutePath delta)"

section \<open>Files\<close>

record fileEntry =
  fe_content :: jstring
  fe_mode :: "16 word"

type_synonym fileStore = "jstring list \<Rightarrow> fileEntry option"

text \<open>How the calls of \<open>replaceAtomically\<close> end; a write that fails may leave a part of the content.\<close>

datatype writeOutcome = NotCreated | Partial jstring | Written

record replaceOutcomes =
  ro_mkdir :: bool
  ro_write :: writeOutcome
  ro_sync :: bool
  ro_rename :: bool
  ro_remove :: bool

text \<open>
  Whether \<open>replaceAtomically\<close> succeeds, and the contents of the file system after each of its calls, from the
  contents it starts with on. \<open>umask\<close> is that of the process, \<open>temporary\<close> the path of the temporary file.
\<close>

definition removeTemporary :: "replaceOutcomes \<Rightarrow> jstring list \<Rightarrow> fileStore \<Rightarrow> fileStore" where
  "removeTemporary ro temporary fs = (if ro_remove ro then fs(temporary := None) else fs)"

definition replaceAtomically ::
    "replaceOutcomes \<Rightarrow> 16 word \<Rightarrow> jstring list \<Rightarrow> jstring list \<Rightarrow> jstring \<Rightarrow> 16 word \<Rightarrow> fileStore \<Rightarrow> bool \<times> fileStore list" where
  "replaceAtomically ro umask path temporary content mode fs =
     (if \<not> ro_mkdir ro then (False, [fs])
      else
        let entry = (\<lambda>t. \<lparr>fe_content = t, fe_mode = mode AND NOT umask\<rparr>);
            written = (case ro_write ro of
                NotCreated \<Rightarrow> fs
              | Partial t \<Rightarrow> fs(temporary \<mapsto> entry t)
              | Written \<Rightarrow> fs(temporary \<mapsto> entry content));
            renamed = (written(path := written temporary))(temporary := None) in
        if ro_write ro \<noteq> Written \<or> \<not> ro_sync ro \<or> \<not> ro_rename ro
        then (False, [fs, written, removeTemporary ro temporary written])
        else (ro_remove ro, [fs, written, renamed, removeTemporary ro temporary renamed]))"

section \<open>The token\<close>

text \<open>\<open>/^[A-Za-z0-9_-]{43}$/u\<close>\<close>

definition tokenPattern :: rx where
  "tokenPattern = rep 43 (Cls [rng CHR ''A'' CHR ''Z'', rng CHR ''a'' CHR ''z'', rng CHR ''0'' CHR ''9'', rng CHR ''_'' CHR ''_'', rng CHR ''-'' CHR ''-''])"

definition posixUserOnly :: "fileStore \<Rightarrow> jstring list \<Rightarrow> (bool \<times> bool)" where
  "posixUserOnly fs path = (case fs path of None \<Rightarrow> (False, False) | Some e \<Rightarrow> (True, fe_mode e AND 0x3F = 0))"

record tokenOutcomes =
  to_replace :: replaceOutcomes
  to_chmod :: bool
  to_stat :: bool
  to_remove :: bool

definition setMode :: "jstring list \<Rightarrow> 16 word \<Rightarrow> fileStore \<Rightarrow> fileStore" where
  "setMode path mode fs = fs(path := map_option (\<lambda>e. e\<lparr>fe_mode := mode\<rparr>) (fs path))"

text \<open>
  \<open>createSecureToken\<close>: the token, or the error and the file system without a token. When even the removal
  fails, its error is what is thrown, and the file may remain.
\<close>

definition createSecureToken ::
    "tokenOutcomes \<Rightarrow> 16 word \<Rightarrow> jstring \<Rightarrow> jstring list \<Rightarrow> jstring list \<Rightarrow> fileStore \<Rightarrow> (controlError + jstring) \<times> fileStore" where
  "createSecureToken oc umask token path temporary fs =
     (let failed = (\<lambda>e fs. if to_remove oc then (Inl e, fs(path := None)) else (Inl OtherError, fs));
          createFailed = ControlApiError (js ''CONTROL_TOKEN_CREATE_FAILED'') in
      case replaceAtomically (to_replace oc) umask path temporary (token @ [10]) 0x180 fs of
        (False, trace) \<Rightarrow> failed createFailed (last trace)
      | (True, trace) \<Rightarrow>
          if \<not> to_chmod oc then failed createFailed (last trace)
          else
            let fs' = setMode path 0x180 (last trace) in
            if \<not> to_stat oc \<or> \<not> fst (posixUserOnly fs' path) then failed createFailed fs'
            else if \<not> snd (posixUserOnly fs' path)
            then failed (ControlApiError (js ''CONTROL_TOKEN_ACL_UNSAFE'')) fs'
            else (Inr token, fs'))"

definition verifyControlPathUserOnly :: "bool \<Rightarrow> jstring list \<Rightarrow> fileStore \<Rightarrow> controlError + unit" where
  "verifyControlPathUserOnly statOk path fs =
     (if \<not> statOk \<or> \<not> fst (posixUserOnly fs path) \<or> \<not> snd (posixUserOnly fs path)
      then Inl (ControlApiError (js ''CONTROL_TOKEN_ACL_UNSAFE'')) else Inr ())"

section \<open>The descriptor\<close>

text \<open>\<open>JSON.stringify(value, undefined, 2)\<close>\<close>

definition newline :: "nat \<Rightarrow> jstring" where
  "newline depth = 10 # replicate (2 * depth) 32"

fun prettyText :: "nat \<Rightarrow> json \<Rightarrow> jstring" where
  "prettyText depth (JArr xs) =
     (if xs = [] then js ''[]''
      else js ''['' @ joinWith (js '','') (map (\<lambda>x. newline (depth + 1) @ prettyText (depth + 1) x) xs) @ newline depth @ js '']'')"
| "prettyText depth (JObj kvs) =
     (if kvs = [] then js ''{}''
      else js ''{'' @ joinWith (js '','') (map (\<lambda>(k, v). newline (depth + 1) @ quoteString k @ js '': '' @ prettyText (depth + 1) v) kvs) @
        newline depth @ js ''}'')"
| "prettyText depth v = stringify v"

definition writeDescriptor ::
    "replaceOutcomes \<Rightarrow> 16 word \<Rightarrow> jstring list \<Rightarrow> jstring list \<Rightarrow> controlEndpointDescriptor \<Rightarrow> fileStore \<Rightarrow> (controlError + unit) \<times> fileStore" where
  "writeDescriptor ro umask path temporary d fs =
     (case replaceAtomically ro umask path temporary (prettyText 0 (endpointBody d) @ [10]) 0x180 fs of
        (ok, trace) \<Rightarrow> (if ok then Inr () else Inl (ControlApiError (js ''CONTROL_DESCRIPTOR_WRITE_FAILED'')), last trace))"

text \<open>
  \<open>/^(?!\/)(?![A-Za-z]:)(?!.*(?:^|\/)\.\.(?:\/|$))[A-Za-z0-9._/-]+$/u\<close>: no colon is in the class, so the second
  condition always holds.
\<close>

definition tokenRefOk :: "jstring \<Rightarrow> bool" where
  "tokenRefOk s \<longleftrightarrow> matches (many1 (Cls [rng CHR ''A'' CHR ''Z'', rng CHR ''a'' CHR ''z'', rng CHR ''0'' CHR ''9'', rng CHR ''.'' CHR ''.'',
       rng CHR ''_'' CHR ''_'', rng CHR ''/'' CHR ''/'', rng CHR ''-'' CHR ''-''])) s \<and>
     \<not> startsWith s (js ''/'') \<and> js ''..'' \<notin> set (splitOn 47 s)"

text \<open>\<open>/^v[1-9][0-9]*$/u\<close>\<close>

definition apiVersionRx :: rx where
  "apiVersionRx = seqs [lit ''v'', Cls [rng CHR ''1'' CHR ''9''], Star digitCls]"

definition safeIntegerIn :: "jobject \<Rightarrow> string \<Rightarrow> int \<Rightarrow> int \<Rightarrow> bool" where
  "safeIntegerIn d k a b = (case getKey d k of Some (JNum n) \<Rightarrow> isSafeInteger n \<and> a \<le> num_to_int n \<and> num_to_int n \<le> b | _ \<Rightarrow> False)"

definition descriptorKeys :: "string list" where
  "descriptorKeys = [''apiVersions'', ''frameworkVersion'', ''host'', ''instanceId'', ''pid'', ''port'', ''releaseId'',
     ''schemaVersion'', ''startedAt'', ''tokenFileRef'']"

definition validDescriptor :: "jstring list \<Rightarrow> jobject \<Rightarrow> bool" where
  "validDescriptor root d \<longleftrightarrow>
     hasExactly d (map js descriptorKeys) \<and> getKey d ''schemaVersion'' = Some (text_of ''1.0.0'') \<and>
     strWith d ''instanceId'' (matches uuidV7) \<and> safeIntegerIn d ''pid'' 1 2147483647 \<and>
     clientDateTime (getKey d ''startedAt'') \<and> getKey d ''host'' = Some (JStr loopback) \<and> safeIntegerIn d ''port'' 1 65535 \<and>
     (case getKey d ''apiVersions'' of
        Some (JArr vs) \<Rightarrow> vs \<noteq> [] \<and> list_all (\<lambda>v. case v of JStr s \<Rightarrow> matches apiVersionRx s | _ \<Rightarrow> False) vs \<and> distinct vs
      | _ \<Rightarrow> False) \<and>
     strWith d ''frameworkVersion'' (matches semver) \<and> strWith d ''releaseId'' (lengthIn 1 256) \<and>
     strWith d ''tokenFileRef'' (\<lambda>r. lengthIn 1 512 r \<and> tokenRefOk r \<and> \<not> isAbsolutePath r \<and> isWithin root (resolvePath root r))"

text \<open>A descriptor that was read, with the API versions it names.\<close>

definition stringField :: "jobject \<Rightarrow> string \<Rightarrow> jstring" where
  "stringField d k = (case getKey d k of Some (JStr s) \<Rightarrow> s | _ \<Rightarrow> [])"

definition integerField :: "jobject \<Rightarrow> string \<Rightarrow> int" where
  "integerField d k = (case getKey d k of Some (JNum n) \<Rightarrow> num_to_int n | _ \<Rightarrow> 0)"

definition readDescriptor :: "jobject \<Rightarrow> controlEndpointDescriptor" where
  "readDescriptor d = \<lparr>ed_instanceId = stringField d ''instanceId'', ed_pid = integerField d ''pid'', ed_startedAt = stringField d ''startedAt'',
     ed_port = integerField d ''port'', ed_frameworkVersion = stringField d ''frameworkVersion'', ed_releaseId = stringField d ''releaseId'',
     ed_tokenFileRef = stringField d ''tokenFileRef''\<rparr>"

definition apiVersionsOf :: "jobject \<Rightarrow> json list" where
  "apiVersionsOf d = (case getKey d ''apiVersions'' of Some (JArr vs) \<Rightarrow> vs | _ \<Rightarrow> [])"

definition validateDescriptor :: "jstring list \<Rightarrow> json \<Rightarrow> controlError + controlEndpointDescriptor \<times> json list" where
  "validateDescriptor root value =
     (case value of
        JObj d \<Rightarrow> if validDescriptor root d then Inr (readDescriptor d, apiVersionsOf d)
                 else Inl (ControlApiError (js ''CONTROL_DESCRIPTOR_INVALID''))
      | _ \<Rightarrow> Inl (ControlApiError (js ''CONTROL_DESCRIPTOR_INVALID'')))"

definition discoverControlEndpoint ::
    "(jstring \<Rightarrow> json option) \<Rightarrow> jstring list \<Rightarrow> fileStore \<Rightarrow> controlError + controlEndpointDescriptor \<times> json list" where
  "discoverControlEndpoint parse root fs =
     (let unavailable = Inl (ControlApiError (js ''CONTROL_DESCRIPTOR_UNAVAILABLE'')) in
      case fs (cp_descriptorPath (controlPathsOf root)) of
        None \<Rightarrow> unavailable
      | Some e \<Rightarrow>
          if byteLength (fe_content e) > 16384 then unavailable
          else (case parse (fe_content e) of None \<Rightarrow> unavailable | Some value \<Rightarrow> validateDescriptor root value))"

definition readControlToken :: "jstring list \<Rightarrow> controlEndpointDescriptor \<Rightarrow> fileStore \<Rightarrow> controlError + jstring" where
  "readControlToken root d fs =
     (let path = resolvePath root (ed_tokenFileRef d) in
      if \<not> isWithin root path then Inl (ControlApiError (js ''CONTROL_TOKEN_REF_UNSAFE''))
      else
        (case fs path of
           None \<Rightarrow> Inl (ControlApiError (js ''CONTROL_TOKEN_UNAVAILABLE''))
         | Some e \<Rightarrow>
             if matches tokenPattern (trim (fe_content e)) then Inr (trim (fe_content e))
             else Inl (ControlApiError (js ''CONTROL_TOKEN_UNAVAILABLE''))))"

text \<open>\<open>removeControlFiles\<close>: both removals are started; the result is an error if one of them fails.\<close>

definition removeControlFiles :: "bool \<Rightarrow> bool \<Rightarrow> jstring list \<Rightarrow> fileStore \<Rightarrow> bool \<times> fileStore" where
  "removeControlFiles descriptorRemoved tokenRemoved root fs =
     (let p = controlPathsOf root;
          fs1 = (if descriptorRemoved then fs(cp_descriptorPath p := None) else fs);
          fs2 = (if tokenRemoved then fs1(cp_tokenFilePath p := None) else fs1)
      in (descriptorRemoved \<and> tokenRemoved, fs2))"

section \<open>Connecting a client\<close>

text \<open>The health a runtime reports names the instance, version and release of the descriptor.\<close>

definition describedBy :: "controlEndpointDescriptor \<Rightarrow> json \<Rightarrow> bool" where
  "describedBy d firstHealth = (case firstHealth of
       JObj h \<Rightarrow> getKey h ''instanceId'' = Some (JStr (ed_instanceId d)) \<and>
         getKey h ''runtimeVersion'' = Some (JStr (ed_frameworkVersion d)) \<and>
         getKey h ''releaseId'' = Some (JStr (ed_releaseId d))
     | _ \<Rightarrow> False)"

text \<open>
  \<open>createControlApiClient\<close>: \<open>alive\<close> says whether a process exists, \<open>transport\<close> what the HTTP request of a call returns
  to a client in the given state.
\<close>

definition createControlApiClient ::
    "(jstring \<Rightarrow> bool) \<Rightarrow> (jstring \<Rightarrow> json option) \<Rightarrow> (int \<Rightarrow> bool) \<Rightarrow> (clientState \<Rightarrow> clientCall \<Rightarrow> httpAnswer option) \<Rightarrow>
     jstring list \<Rightarrow> nat option \<Rightarrow> fileStore \<Rightarrow> controlError + clientState" where
  "createControlApiClient canParse parse alive transport root maxResponseBytes fs =
     bindE (discoverControlEndpoint parse root fs) (\<lambda>(d, versions).
       if text_of ''v1'' \<notin> set versions then Inl (ControlApiError (js ''CONTROL_API_VERSION_UNSUPPORTED''))
       else if \<not> alive (ed_pid d) then Inl (ControlApiError (js ''CONTROL_DESCRIPTOR_STALE''))
       else bindE (readControlToken root d fs) (\<lambda>token.
         let c = \<lparr>cs_descriptor = d, cs_token = token,
               cs_maxResponseBytes = (case maxResponseBytes of None \<Rightarrow> 262144 | Some n \<Rightarrow> n)\<rparr> in
         bindE (invoke canParse parse (cs_maxResponseBytes c) (callCheck CallHealth) (callStatus CallHealth)
             (transport c CallHealth)) (\<lambda>firstHealth.
           if describedBy d firstHealth then Inr c
           else Inl (ControlApiError (js ''CONTROL_ENDPOINT_IDENTITY_MISMATCH'')))))"

section \<open>Files are replaced whole\<close>

lemma mode_private: "((0x180 :: 16 word) AND m) AND 0x3F = 0"
proof -
  have "((0x180 :: 16 word) AND m) AND 0x3F = (0x180 AND 0x3F) AND m" by (simp add: and.commute and.left_commute)
  then show ?thesis by simp
qed

definition privateFile :: "fileEntry \<Rightarrow> bool" where
  "privateFile e \<longleftrightarrow> fe_mode e AND 0x3F = 0"

lemma replaceAtomically_steps:
  assumes "replaceAtomically ro umask path temporary content mode fs = (ok, trace)" "path \<noteq> temporary"
  shows "trace \<noteq> [] \<and> hd trace = fs" "s \<in> set trace \<Longrightarrow> q \<noteq> path \<Longrightarrow> q \<noteq> temporary \<Longrightarrow> s q = fs q"
    "s \<in> set trace \<Longrightarrow> s path = fs path \<or> s path = Some \<lparr>fe_content = content, fe_mode = mode AND NOT umask\<rparr>"
    "ok \<Longrightarrow> last trace path = Some \<lparr>fe_content = content, fe_mode = mode AND NOT umask\<rparr> \<and> last trace temporary = None"
    "s \<in> set trace \<Longrightarrow> s temporary = fs temporary \<or> s temporary = None \<or> (\<exists>t. s temporary = Some \<lparr>fe_content = t, fe_mode = mode AND NOT umask\<rparr>)"
  using assms
  by (auto simp: replaceAtomically_def removeTemporary_def Let_def split: if_splits writeOutcome.splits)

text \<open>A file is replaced whole: at no moment does its path hold a part of the new content, and no other path changes.\<close>

theorem replace_is_atomic:
  assumes "replaceAtomically ro umask path temporary content mode fs = (ok, trace)" "path \<noteq> temporary" "s \<in> set trace"
  shows "(s path = fs path \<or> s path = Some \<lparr>fe_content = content, fe_mode = mode AND NOT umask\<rparr>) \<and>
    (\<forall>q. q \<noteq> path \<and> q \<noteq> temporary \<longrightarrow> s q = fs q) \<and>
    (ok \<longrightarrow> last trace path = Some \<lparr>fe_content = content, fe_mode = mode AND NOT umask\<rparr>)"
  using replaceAtomically_steps [OF assms(1,2)] assms(3) by blast

lemma createSecureToken_ok:
  assumes "createSecureToken oc umask token path temporary fs = (Inr t, fs')" "path \<noteq> temporary"
  shows "t = token \<and> fs' path = Some \<lparr>fe_content = token @ [10], fe_mode = 0x180\<rparr>"
proof -
  obtain ok trace where r: "replaceAtomically (to_replace oc) umask path temporary (token @ [10]) 0x180 fs = (ok, trace)" by fastforce
  then have "ok" "t = token" "fs' = setMode path 0x180 (last trace)"
    using assms(1) by (auto simp: createSecureToken_def Let_def split: if_splits bool.splits)
  then show ?thesis using replaceAtomically_steps(4) [OF r assms(2)] by (simp add: setMode_def)
qed

lemma createSecureToken_failed:
  "createSecureToken oc umask token path temporary fs = (Inl e, fs') \<Longrightarrow> to_remove oc \<Longrightarrow> fs' path = None"
  by (auto simp: createSecureToken_def Let_def split: if_splits bool.splits prod.splits)

text \<open>The calls of \<open>createSecureToken\<close>, one after the other.\<close>

definition tokenTrace ::
    "tokenOutcomes \<Rightarrow> 16 word \<Rightarrow> jstring \<Rightarrow> jstring list \<Rightarrow> jstring list \<Rightarrow> fileStore \<Rightarrow> fileStore list" where
  "tokenTrace oc umask token path temporary fs =
     snd (replaceAtomically (to_replace oc) umask path temporary (token @ [10]) 0x180 fs) @
     [snd (createSecureToken oc umask token path temporary fs)]"

section \<open>A runtime is found by its files\<close>

definition tokenRef :: jstring where
  "tokenRef = js ''secrets/runtime/control-api.token''"

text \<open>The descriptor of a runtime that was started with an instance id, a process id and a port of the platform.\<close>

definition descriptorOk :: "controlEndpointDescriptor \<Rightarrow> bool" where
  "descriptorOk d \<longleftrightarrow> matches uuidV7 (ed_instanceId d) \<and> 1 \<le> ed_pid d \<and> ed_pid d \<le> 2147483647 \<and>
     clientDateTime (Some (JStr (ed_startedAt d))) \<and> 1 \<le> ed_port d \<and> ed_port d \<le> 65535 \<and>
     matches semver (ed_frameworkVersion d) \<and> lengthIn 1 256 (ed_releaseId d) \<and> ed_tokenFileRef d = tokenRef"

lemma walkSegments_plain:
  "\<forall>s \<in> set ss. s \<noteq> [] \<and> s \<noteq> js ''.'' \<and> s \<noteq> js ''..'' \<Longrightarrow> walkSegments here ss = here @ ss"
  by (induction ss arbitrary: here) simp_all

lemma splitOn_tokenRef: "splitOn 47 tokenRef = [js ''secrets'', js ''runtime'', js ''control-api.token'']"
  by code_simp

lemma tokenRef_ok: "lengthIn 1 512 tokenRef" "tokenRefOk tokenRef" "\<not> isAbsolutePath tokenRef"
  by code_simp+

lemma resolve_tokenRef: "resolvePath root tokenRef = cp_tokenFilePath (controlPathsOf root)"
  by (simp add: resolvePath_def tokenRef_ok splitOn_tokenRef walkSegments_plain controlPathsOf_def)

lemma relativeSegments_below: "relativeSegments root (root @ p) = p"
  by (induction root) (simp_all)

lemma isWithin_token: "isWithin root (cp_tokenFilePath (controlPathsOf root))"
proof -
  have "relativePath root (cp_tokenFilePath (controlPathsOf root)) = tokenRef"
    unfolding relativePath_def controlPathsOf_def controlPaths.simps relativeSegments_below by code_simp
  moreover have "\<not> startsWith tokenRef (js ''../'')" "tokenRef \<noteq> js ''..''" by code_simp+
  ultimately show ?thesis using tokenRef_ok(3) by (simp add: isWithin_def)
qed

lemma small_integer: "1 \<le> n \<Longrightarrow> n \<le> b \<Longrightarrow> b \<le> 2147483647 \<Longrightarrow> isSafeInteger (numInt n)"
  by (simp add: isSafeInteger_numInt maxSafeInteger_def)

lemma descriptor_keys:
  "joinWith [44] (sort (map js [''schemaVersion'', ''instanceId'', ''pid'', ''startedAt'', ''host'', ''port'', ''apiVersions'',
     ''frameworkVersion'', ''releaseId'', ''tokenFileRef''])) = joinWith [44] (sort (map js descriptorKeys))"
  by code_simp

lemma endpointBody_valid:
  assumes "descriptorOk d"
  shows "validateDescriptor root (endpointBody d) = Inr (d, [text_of ''v1''])"
proof -
  have v1: "matches apiVersionRx (js ''v1'')" by code_simp
  have safe: "isSafeInteger (numInt (ed_pid d))" "isSafeInteger (numInt (ed_port d))"
    using assms small_integer by (auto simp: descriptorOk_def)
  have e: "hasExactly (jsKeys [(''schemaVersion'', a), (''instanceId'', b), (''pid'', c), (''startedAt'', e), (''host'', f),
      (''port'', g), (''apiVersions'', h), (''frameworkVersion'', i), (''releaseId'', k), (''tokenFileRef'', l)]) (map js descriptorKeys)"
    for a b c e f g h i k l
    using descriptor_keys by (intro hasExactly_jsKeys) (simp only: list.map fst_conv)
  show ?thesis
    using assms v1 safe isWithin_token [of root] tokenRef_ok resolve_tokenRef [of root]
    by (simp add: validateDescriptor_def endpointBody_def obj_jsKeys validDescriptor_def readDescriptor_def apiVersionsOf_def
        getKey_jsKeys e descriptorOk_def strWith_def safeIntegerIn_def stringField_def integerField_def)
qed

section \<open>Discovery\<close>

definition descriptorText :: "controlEndpointDescriptor \<Rightarrow> jstring" where
  "descriptorText d = prettyText 0 (endpointBody d) @ [10]"

lemma writeDescriptor_ok:
  assumes "writeDescriptor ro umask path temporary d fs = (Inr u, fs')" "path \<noteq> temporary"
  shows "fs' path = Some \<lparr>fe_content = descriptorText d, fe_mode = 0x180 AND NOT umask\<rparr>"
    "q \<noteq> path \<Longrightarrow> q \<noteq> temporary \<Longrightarrow> fs' q = fs q"
proof -
  obtain ok trace where r: "replaceAtomically ro umask path temporary (prettyText 0 (endpointBody d) @ [10]) 0x180 fs = (ok, trace)"
    by fastforce
  then have o: "ok" "fs' = last trace" using assms(1) by (auto simp: writeDescriptor_def split: if_splits)
  note steps = replaceAtomically_steps [OF r assms(2)]
  show "fs' path = Some \<lparr>fe_content = descriptorText d, fe_mode = 0x180 AND NOT umask\<rparr>"
    using steps(4) o by (simp add: descriptorText_def)
  have "last trace \<in> set trace" using steps(1) by simp
  then show "q \<noteq> path \<Longrightarrow> q \<noteq> temporary \<Longrightarrow> fs' q = fs q" using steps(2) o(2) by blast
qed

lemma discovers:
  assumes "fs (cp_descriptorPath (controlPathsOf root)) = Some e" "fe_content e = descriptorText d"
    "descriptorOk d" "byteLength (descriptorText d) \<le> 16384" "parse (descriptorText d) = Some (endpointBody d)"
  shows "discoverControlEndpoint parse root fs = Inr (d, [text_of ''v1''])"
  using assms endpointBody_valid by (simp add: discoverControlEndpoint_def Let_def)

lemma token_chars:
  assumes "matches tokenPattern token" "c \<in> set token"
  shows "32 < c \<and> c < 128"
proof -
  have "rxAll (\<lambda>(a, b). 32 < a \<and> b < 128) tokenPattern" by code_simp
  then show ?thesis
    by (rule rxAll_lang [where P = "\<lambda>(a, b). 32 < a \<and> b < 128", rotated]) (use assms in \<open>auto simp: matches_lang\<close>)
qed

lemma isWhite_ascii: "32 < c \<Longrightarrow> c < 128 \<Longrightarrow> \<not> isWhite c"
  unfolding isWhite_def by (simp add: word_less_nat_alt word_le_nat_alt word_unat_eq_iff)

lemma trim_newline:
  assumes "s \<noteq> []" "\<And>c. c \<in> set s \<Longrightarrow> \<not> isWhite c"
  shows "trim (s @ [10]) = s"
proof -
  have w: "isWhite 10" by (simp add: isWhite_def)
  have "dropWhile isWhite (s @ [10]) = s @ [10]" using assms by (cases s) auto
  moreover have "\<not> isWhite (hd (rev s))" using assms hd_in_set [of "rev s"] by simp
  then have "dropWhile isWhite (10 # rev s) = rev s" using w by (simp add: dropWhile_eq_self_iff)
  ultimately show ?thesis by (simp add: trim_def)
qed

lemma token_trim:
  assumes "matches tokenPattern token"
  shows "trim (token @ [10]) = token"
proof (rule trim_newline)
  have "\<not> matches tokenPattern []" by code_simp
  then show "token \<noteq> []" using assms by auto
  show "\<not> isWhite c" if "c \<in> set token" for c using token_chars [OF assms that] isWhite_ascii by blast
qed

lemma reads_token:
  assumes "fs (cp_tokenFilePath (controlPathsOf root)) = Some e" "fe_content e = token @ [10]" "ed_tokenFileRef d = tokenRef"
    "matches tokenPattern token"
  shows "readControlToken root d fs = Inr token"
  using assms token_trim isWithin_token by (simp add: readControlToken_def resolve_tokenRef Let_def)

end
