(* ===== verification/Control_Connect.thy ===== *)
theory Control_Connect
  imports Control_Files Control_Example
begin

text \<open>
  How a client and a runtime of one data root find each other: the files of a start, their discovery, and the first
  call, on top of the exchange of \<open>Control_Exchange\<close>.
\<close>

section \<open>A client connects\<close>

lemma describedBy_health: "describedBy d (healthBody d t findings)"
  by (simp add: describedBy_def healthBody_def obj_jsKeys)

lemma closeEventConnection_descriptor [simp]: "sv_descriptor (closeEventConnection c st) = sv_descriptor st"
  by (simp add: closeEventConnection_def)

lemma broadcast_descriptor [simp]: "sv_descriptor (broadcast n cs st) = sv_descriptor st"
  by (induction n cs st rule: broadcast.induct) (auto split: option.splits)

lemma startControlApi_files:
  assumes "sr_result (startControlApi sha w instanceId nid startedAt pid ref options) = Inr s"
  shows "\<exists>token. sw_token w = Inr token \<and> sw_write w = Inr () \<and> ed_tokenFileRef (sv_descriptor (srv_state s)) = ref"
proof -
  have fails: "sr_result (startFailed e x) \<noteq> Inr s" "sr_result (startCleanup w e) \<noteq> Inr s" for e x
    by (simp_all add: startFailed_def startCleanup_def)
  have d: "sv_descriptor (snd (publishNotification nid startedAt n st)) = sv_descriptor st" for n st
    by (auto simp: publishNotification_def Let_def)
  show ?thesis
    using assms unfolding startControlApi_def
    by (auto simp: fails Let_def d startState_def split: if_splits option.splits sum.splits)
qed

text \<open>What a started runtime leaves in the file system, for its clients.\<close>

lemma runtime_files:
  assumes "createSecureToken oc umask token (cp_tokenFilePath (controlPathsOf root)) temporary1 fs0 = (Inr t, fs1)"
    "cp_tokenFilePath (controlPathsOf root) \<noteq> temporary1"
    "writeDescriptor ro umask (cp_descriptorPath (controlPathsOf root)) temporary2 d fs1 = (Inr u, fs2)"
    "temporary2 \<noteq> cp_descriptorPath (controlPathsOf root)" "temporary2 \<noteq> cp_tokenFilePath (controlPathsOf root)"
  shows "\<exists>e. fs2 (cp_descriptorPath (controlPathsOf root)) = Some e \<and> fe_content e = descriptorText d"
    "\<exists>e. fs2 (cp_tokenFilePath (controlPathsOf root)) = Some e \<and> fe_content e = token @ [10]"
proof -
  have p: "cp_tokenFilePath (controlPathsOf root) \<noteq> cp_descriptorPath (controlPathsOf root)"
    by (simp add: controlPathsOf_def js_def)
  show "\<exists>e. fs2 (cp_descriptorPath (controlPathsOf root)) = Some e \<and> fe_content e = descriptorText d"
    using writeDescriptor_ok(1) [OF assms(3)] assms(4) by auto
  show "\<exists>e. fs2 (cp_tokenFilePath (controlPathsOf root)) = Some e \<and> fe_content e = token @ [10]"
    using writeDescriptor_ok(2) [OF assms(3) assms(4) [symmetric] p assms(5) [symmetric]] createSecureToken_ok [OF assms(1,2)] by simp
qed

text \<open>A client that finds the files of a runtime, and is told its identity by it, is connected.\<close>

lemma connects:
  assumes "fs (cp_descriptorPath (controlPathsOf root)) = Some e" "fe_content e = descriptorText d"
    "fs (cp_tokenFilePath (controlPathsOf root)) = Some f" "fe_content f = token @ [10]"
    "descriptorOk d" "byteLength (descriptorText d) \<le> 16384" "matches tokenPattern token"
    "parse (descriptorText d) = Some (endpointBody d)" "alive (ed_pid d)"
    "c = \<lparr>cs_descriptor = d, cs_token = token, cs_maxResponseBytes = m\<rparr>"
    "invoke canParse parse m HealthContract 200 (transport c CallHealth) = Inr j" "describedBy d j"
  shows "createControlApiClient canParse parse alive transport root (Some m) fs = Inr c"
proof -
  have "discoverControlEndpoint parse root fs = Inr (d, [text_of ''v1''])" by (rule discovers [where fs = fs and parse = parse, OF assms(1,2,5,6,8)])
  moreover have "readControlToken root d fs = Inr token"
    by (rule reads_token [where fs = fs, OF assms(3,4) _ assms(7)]) (use assms(5) in \<open>simp add: descriptorOk_def\<close>)
  ultimately show ?thesis using assms(9-12) by (simp add: createControlApiClient_def)
qed

section \<open>Properties\<close>

text \<open>C36. The token is never exposed: on every path, after every call of its creation, there is what was there before, no
  file, or a file that only its owner can access; the created token is what the file then holds, and a creation that
  fails leaves no token unless even its removal fails.\<close>

theorem token_private:
  assumes "createSecureToken oc umask token path temporary fs = (r, fs')" "path \<noteq> temporary"
  shows "(\<forall>t. r = Inr t \<longrightarrow> t = token \<and> fs' path = Some \<lparr>fe_content = token @ [10], fe_mode = 0x180\<rparr>) \<and>
    (\<forall>e. r = Inl e \<longrightarrow> to_remove oc \<longrightarrow> fs' path = None) \<and>
    (\<forall>s \<in> set (tokenTrace oc umask token path temporary fs). \<forall>q. s q = fs q \<or> s q = None \<or> (\<exists>e. s q = Some e \<and> privateFile e))"
proof -
  obtain ok trace where r: "replaceAtomically (to_replace oc) umask path temporary (token @ [10]) 0x180 fs = (ok, trace)" by fastforce
  note steps = replaceAtomically_steps [OF r assms(2)]
  have priv: "privateFile \<lparr>fe_content = t, fe_mode = 0x180 AND NOT umask\<rparr>" for t by (simp add: privateFile_def mode_private)
  have t: "s q = fs q \<or> s q = None \<or> (\<exists>e. s q = Some e \<and> privateFile e)" if "s \<in> set trace" for s q
    using steps(2) [OF that, of q] steps(3) [OF that] steps(5) [OF that] priv by (cases "q = path"; cases "q = temporary") auto
  have l: "last trace \<in> set trace" using steps(1) by simp
  have "fs' = (last trace) \<or> fs' = (last trace)(path := None) \<or> fs' = setMode path 0x180 (last trace) \<or>
      fs' = (setMode path 0x180 (last trace))(path := None)"
    using assms(1) r by (auto simp: createSecureToken_def Let_def split: if_splits bool.splits)
  then have "fs' q = fs q \<or> fs' q = None \<or> (\<exists>e. fs' q = Some e \<and> privateFile e)" for q
    using t [OF l, of q] by (cases "q = path"; cases "last trace path") (auto simp: setMode_def privateFile_def)
  then show ?thesis
    using createSecureToken_ok [of oc umask token path temporary fs _ fs'] createSecureToken_failed [of oc umask token path temporary fs _ fs']
      assms t r
    by (auto simp: tokenTrace_def)
qed



section \<open>An example\<close>

definition exampleToken :: jstring where
  "exampleToken = replicate 43 65"

definition exampleRoot :: "jstring list" where
  "exampleRoot = [js ''data'']"

definition foundDescriptor :: controlEndpointDescriptor where
  "foundDescriptor = exampleDescriptor\<lparr>ed_pid := 7, ed_port := 80, ed_tokenFileRef := tokenRef\<rparr>"

definition foundServer :: server where
  "foundServer = \<lparr>srv_state = (startState foundDescriptor (exampleSha exampleToken) exampleOrigins exampleLimits exampleRegistry)
     \<lparr>sv_notifications := [exampleNotification], sv_sequence := 1\<rparr>, srv_open = [], srv_answers = []\<rparr>"

definition foundClient :: clientState where
  "foundClient = \<lparr>cs_descriptor = foundDescriptor, cs_token = exampleToken, cs_maxResponseBytes = 262144\<rparr>"

definition allDone :: replaceOutcomes where
  "allDone = \<lparr>ro_mkdir = True, ro_write = Written, ro_sync = True, ro_rename = True, ro_remove = True\<rparr>"

definition tokenDone :: tokenOutcomes where
  "tokenDone = \<lparr>to_replace = allDone, to_chmod = True, to_stat = True, to_remove = True\<rparr>"

definition exampleTokenFiles :: fileStore where
  "exampleTokenFiles = snd (createSecureToken tokenDone 0x12 exampleToken (cp_tokenFilePath (controlPathsOf exampleRoot)) [] (\<lambda>_. None))"

definition exampleFiles :: fileStore where
  "exampleFiles = snd (writeDescriptor allDone 0x12 (cp_descriptorPath (controlPathsOf exampleRoot)) [] foundDescriptor exampleTokenFiles)"

text \<open>\<open>JSON.parse\<close> on the texts of the example.\<close>

definition exampleParse :: "jstring \<Rightarrow> json option" where
  "exampleParse s = (if last s = 10 then Some (endpointBody foundDescriptor) else parseCanonical s)"

lemma example_files:
  "createSecureToken tokenDone 0x12 exampleToken (cp_tokenFilePath (controlPathsOf exampleRoot)) [] (\<lambda>_. None) =
     (Inr exampleToken, exampleTokenFiles)"
  "writeDescriptor allDone 0x12 (cp_descriptorPath (controlPathsOf exampleRoot)) [] foundDescriptor exampleTokenFiles =
     (Inr (), exampleFiles)"
proof -
  have "fst (createSecureToken tokenDone 0x12 exampleToken (cp_tokenFilePath (controlPathsOf exampleRoot)) [] (\<lambda>_. None)) = Inr exampleToken"
    by (simp add: createSecureToken_def replaceAtomically_def removeTemporary_def tokenDone_def allDone_def posixUserOnly_def setMode_def
        controlPathsOf_def Let_def)
  then show "createSecureToken tokenDone 0x12 exampleToken (cp_tokenFilePath (controlPathsOf exampleRoot)) [] (\<lambda>_. None) =
     (Inr exampleToken, exampleTokenFiles)" by (simp add: exampleTokenFiles_def prod_eq_iff)
  have "fst (writeDescriptor allDone 0x12 (cp_descriptorPath (controlPathsOf exampleRoot)) [] foundDescriptor exampleTokenFiles) = Inr ()"
    by (simp add: writeDescriptor_def replaceAtomically_def removeTemporary_def allDone_def Let_def)
  then show "writeDescriptor allDone 0x12 (cp_descriptorPath (controlPathsOf exampleRoot)) [] foundDescriptor exampleTokenFiles =
     (Inr (), exampleFiles)" by (simp add: exampleFiles_def prod_eq_iff)
qed

lemma stringify_last: "last (stringify j) \<noteq> 10"
proof (cases j)
  case (JNum n)
  have "last (numToString n) \<in> set (numToString n)" using numToString_first last_in_set by blast
  then have "isNumChar (last (numToString n))" by (rule isNumChar_numToString)
  moreover have "\<not> isNumChar 10" by code_simp
  ultimately show ?thesis using JNum by auto
next
  case (JBool b)
  have "last (stringify (JBool True)) \<noteq> 10" "last (stringify (JBool False)) \<noteq> 10" by code_simp+
  then show ?thesis using JBool by (cases b) simp_all
next
  case JNull
  have "last (stringify JNull) \<noteq> 10" by code_simp
  then show ?thesis using JNull by simp
qed (simp_all add: quoteString_def)

lemma example_parse: "json_wf j \<Longrightarrow> exampleParse (stringify j) = Some j"
  "exampleParse (descriptorText foundDescriptor) = Some (endpointBody foundDescriptor)"
  by (simp_all add: exampleParse_def stringify_last parse_stringify descriptorText_def)

lemma found_start:
  "sr_result (startControlApi exampleSha (exampleWorld\<lparr>sw_token := Inr exampleToken, sw_listen := Inr 80\<rparr>) (exampleId ''1'') (exampleId ''2'') exampleTime 7
     tokenRef exampleOptions) = Inr foundServer"
proof -
  have v: "validNotification (startedNotification (exampleId ''1''))" by code_simp
  have "publishNotification (exampleId ''2'') exampleTime (startedNotification (exampleId ''1''))
      (startState foundDescriptor (exampleSha exampleToken) exampleOrigins exampleLimits exampleRegistry) =
    (Inr (snd exampleNotification), (startState foundDescriptor (exampleSha exampleToken) exampleOrigins exampleLimits exampleRegistry)
     \<lparr>sv_notifications := [exampleNotification], sv_sequence := 1\<rparr>)"
    using v by (simp add: publishNotification_def startState_def exampleNotification_def example_limits Let_def)
  moreover have "\<not> (trim (so_dataRoot exampleOptions) = [] \<or> \<not> matches semver (so_frameworkVersion exampleOptions) \<or>
      length (so_releaseId exampleOptions) < 1 \<or> length (so_releaseId exampleOptions) > 256)"
    by code_simp
  moreover note example_merged
  moreover have "newIdempotencyRegistry (cl_idempotencyCapacity exampleLimits) (cl_idempotencyTtlMs exampleLimits) = Some exampleRegistry"
  proof -
    have "newIdempotencyRegistry (cl_idempotencyCapacity exampleLimits) (cl_idempotencyTtlMs exampleLimits) \<noteq> None" by code_simp
    then show ?thesis by (auto simp: exampleRegistry_def)
  qed
  moreover have "normalizedOrigins (sw_parseUrl exampleWorld) exampleOrigins = Inr exampleOrigins"
    by (simp add: exampleOrigins_def exampleWorld_def)
  ultimately show ?thesis
    unfolding startControlApi_def foundServer_def
    by (simp add: exampleWorld_def exampleOptions_def exampleDescriptor_def foundDescriptor_def)
qed

lemma found_descriptor: "descriptorOk foundDescriptor" "byteLength (descriptorText foundDescriptor) \<le> 16384"
proof -
  have "matches uuidV7 (exampleId ''1'')" "matches semver (js ''1.0.0'')" "lengthIn 1 256 (js ''local'')"
    "clientDateTime (Some (JStr exampleTime))"
    by code_simp+
  then show "descriptorOk foundDescriptor" by (simp add: descriptorOk_def foundDescriptor_def exampleDescriptor_def)
  have "int (byteLength (descriptorText foundDescriptor)) \<le> 600" by code_simp
  then show "byteLength (descriptorText foundDescriptor) \<le> 16384" by simp
qed

lemma found_ready: "callReady foundClient exampleHandling CallHealth 9 foundServer"
proof -
  have "matches uuidV7 (exampleId ''3'')" "matches uuidV7 (exampleId ''4'')" "clientDateTime (Some (JStr exampleTime))"
    "byteLength (js ''/v1/health'') \<le> 2048"
    by code_simp+
  then show ?thesis
    by (simp add: callReady_def foundClient_def exampleHandling_def foundServer_def startState_def example_limits handlingOk_def)
qed

lemma found_health:
  "srv_answers (exchange 9 exampleHandling foundClient CallHealth foundServer) =
     [(9, withOrigin (callRequest foundClient CallHealth) (sendJson 262144 200 (healthBody foundDescriptor exampleTime []) ''application/json''))]"
proof -
  have "js ''GET'' = js ''GET''" "js ''/v1/health'' \<noteq> js ''/v1/version''" by (simp_all add: js_def)
  then have "serveRoute 9 exampleHandling \<lparr>ri_requestId = hd_requestId exampleHandling, ri_correlationId = hd_requestId exampleHandling\<rparr>
      (callPath CallHealth) (callRequest foundClient CallHealth) (addActive 1 (srv_state foundServer)) =
    (Inl (sendJson 262144 200 (healthBody foundDescriptor exampleTime []) ''application/json''), addActive 1 (srv_state foundServer))"
    by (simp add: serveRoute_def Let_def callRequest_headers securityFindings_def foundServer_def startState_def example_limits
        exampleHandling_def addActive_def)
  from exchange_answer [OF _ _ _ _ _ _ this] found_ready show ?thesis
    by (simp add: callReady_def) (simp add: foundServer_def)
qed

lemma found_small: "int (byteLength (stringify (healthBody foundDescriptor exampleTime []))) \<le> 600"
  by code_simp

definition foundAnswer :: httpAnswer where
  "foundAnswer = \<lparr>ha_status = 200, ha_contentType = Some (js ''application/json'' @ js ''; charset=utf-8''),
     ha_chunks = [utf8 (stringify (healthBody foundDescriptor exampleTime []))]\<rparr>"


lemma found_client:
  "createControlApiClient (\<lambda>_. True) exampleParse (\<lambda>pid. pid = 7) (\<lambda>_ _. Some foundAnswer) exampleRoot (Some 262144) exampleFiles = Inr foundClient"
proof -
  let ?j = "healthBody foundDescriptor exampleTime []"
  have "clientDateTime (Some (JStr exampleTime))" by code_simp
  then have v: "isHealthResponse (Some ?j) \<and> json_wf ?j"
    by (intro healthBody_valid) (use found_descriptor in \<open>simp_all add: runtimeValid_def descriptorOk_def\<close>)
  have "answersWith (\<lambda>_. True) exampleParse foundClient CallHealth 262144 ?j
      (withOrigin (callRequest foundClient CallHealth) (sendJson 262144 200 ?j ''application/json''))"
    by (rule sendJson_answers [where status = 200]) (use v in \<open>simp_all add: meets_def example_parse\<close>)
  moreover have "carries (withOrigin (callRequest foundClient CallHealth) (sendJson 262144 200 ?j ''application/json'')) foundAnswer"
    using found_small by (simp add: carries_def foundAnswer_def withOrigin_def sendJson_def)
  ultimately have i: "invoke (\<lambda>_. True) exampleParse 262144 HealthContract 200 (Some foundAnswer) = Inr ?j"
    using found_small by (simp add: answersWith_def foundClient_def)
  obtain e f where "exampleFiles (cp_descriptorPath (controlPathsOf exampleRoot)) = Some e" "fe_content e = descriptorText foundDescriptor"
    "exampleFiles (cp_tokenFilePath (controlPathsOf exampleRoot)) = Some f" "fe_content f = exampleToken @ [10]"
    using runtime_files [OF example_files(1) _ example_files(2)] by (auto simp: controlPathsOf_def)
  moreover have "matches tokenPattern exampleToken" by code_simp
  moreover have "ed_pid foundDescriptor = 7" by (simp add: foundDescriptor_def)
  ultimately show ?thesis
    using i found_descriptor example_parse(2) describedBy_health by (intro connects) (simp_all add: foundClient_def)
qed


theorem token_private_witness:
  "exampleTokenFiles (cp_tokenFilePath (controlPathsOf exampleRoot)) = Some \<lparr>fe_content = exampleToken @ [10], fe_mode = 0x180\<rparr>"
  using token_private [OF example_files(1)] by (simp add: controlPathsOf_def)

end
