(* ===== verification/Spec2Isabelle.thy ===== *)
theory Spec2Isabelle
  imports Policy_Evaluate Policy_Yaml_Text Process_Adapter Service_Journal Idempotency Identity Runtime_Mutex Control_Properties Control_Connect
begin

text \<open>
  A model of the core of the AI Software Engineering OS (the repository's \<open>packages/\<close>): a local runtime
  in which every change of state is a command that is admitted against versioned contracts, decided by
  a policy and by a pure domain, and committed exactly once to an append-only journal in SQLite.

  \<^bold>\<open>The parts and how they interact.\<close> A client's command is untrusted JSON. \<open>packages/contracts\<close> gives
  its canonical text (\<open>canonical-json.ts\<close>), the registry of JSON schemas loaded from hashed authority files
  (\<open>registry.ts\<close>, \<open>repository.ts\<close>, \<open>compatibility.ts\<close>) and the types of the envelopes.
  \<open>packages/policy\<close> compiles policy sets and decides requests. \<open>packages/kernel\<close> admits commands, replays
  the events of an aggregate and prepares the one event and the journal batch of a transition, for a
  domain given as two pure functions; \<open>packages/workflow\<close> is such a domain. \<open>packages/persistence\<close> owns the
  journal: a client that checks every batch and bounds its pending requests, and a worker thread that
  commits batches to SQLite. \<open>packages/platform/src/workflow-service.ts\<close> composes kernel, workflow and client.

  \<^bold>\<open>The theories.\<close>
  \<^item> \<open>Prelude\<close>: errors as sums (\<open>bindE\<close>, \<open>mapE\<close>), strings of the language as lists of 16-bit units
    (\<open>jstring\<close>), decimal printing and sorted sets.
  \<^item> \<open>Js_Value\<close>, \<open>Canonical_Json\<close>: values of the language (\<open>unknown\<close>) and JSON data (\<open>json\<close>),
    \<open>canonicalize\<close> with each of its errors, and a parser of canonical text; its text identifies a value.
  \<^item> \<open>Regex\<close>: the regular expressions of the sources, decided by derivatives.
  \<^item> \<open>Policy_Value\<close>, \<open>Policy_Compile\<close>, \<open>Policy_Evaluate\<close>: \<open>packages/policy/src/index.ts\<close>.
  \<^item> \<open>Js_Number\<close>: how the text of a number is rounded to a double; \<open>Policy_Yaml\<close>: the restricted YAML of the
    same file, with its recursion given fuel that is proved to be enough; \<open>Policy_Yaml_Text\<close>: a printer of
    documents, and the proof that the parser reads back what it writes.
  \<^item> \<open>Envelopes\<close>: the records of \<open>types.generated.ts\<close> that are exchanged, their objects, and their reading
    back from JSON.
  \<^item> \<open>Repository_Files\<close>, \<open>Contracts_Registry\<close>: authority files and the schema registry.
  \<^item> \<open>Journal_Store\<close>: the tables of \<open>migrations/001-initial.sql\<close> with their constraints and the requests of
    \<open>persistence-worker.ts\<close>, one definition for each handler; \<open>Journal_Invariant\<close>: the invariant of the
    tables and of the worker, and the step relation \<open>journalStep\<close> (a request, or the loss of the process);
    \<open>Journal_Properties\<close>: what holds in every reachable worker.
  \<^item> \<open>Kernel\<close>: \<open>packages/kernel/src/index.ts\<close>, and the locale \<open>aggregate_domain\<close> of what the kernel may
    assume of a domain; \<open>Workflow\<close>: \<open>packages/workflow/src/index.ts\<close>, which provides it.
  \<^item> \<open>Persistence_Client\<close>: \<open>packages/persistence/src/index.ts\<close>, the checks of each method and the table of
    pending requests as the step relation \<open>clientStep\<close>.
  \<^item> \<open>Workflow_Service\<close>: \<open>packages/platform/src/workflow-service.ts\<close>, and the locale \<open>journal\<close> of what the
    service relies on; \<open>Service_Journal\<close>: the persistence client over the worker provides it, whatever
    other users do between two requests (\<open>tn_others\<close>) and whatever becomes of a request (\<open>delivery\<close>).
  \<^item> \<open>Runtime_Lock\<close>: the lock of \<open>filesystem.ts\<close> that elects one control runtime, as a step function over
    the claim directories, and its invariant; \<open>Runtime_Mutex\<close>: mutual exclusion, the mutex it refines, recovery.
  \<^item> \<open>Idempotency\<close>, \<open>Identity\<close>: \<open>idempotency.ts\<close> and \<open>identity.ts\<close> of \<open>packages/platform/src\<close>.
  \<^item> \<open>Json_Text\<close>, \<open>Utf8\<close>: the text of JSON data and its bytes, read in pieces, as the standard library does.
  \<^item> \<open>Control_Contract\<close>, \<open>Control_Events\<close>: \<open>client.ts\<close>, the checks of every answer of the control API, and the
    reading of an event stream from chunks of bytes; \<open>Control_Errors\<close>: \<open>errors.ts\<close>, what a message may say.
  \<^item> \<open>Control_Server\<close>: \<open>server.ts\<close>, the control API of a runtime. A request is the part before its body
    (\<open>arrive\<close>) and the part after it (\<open>bodyRead\<close>), since reading the body is its only await; timers, closed
    responses, flushed writes and notifications are the other constructors of \<open>serverEvent\<close>, in any order.
  \<^item> \<open>Control_Invariant\<close>, \<open>Control_Streams\<close>, \<open>Control_Session\<close>, \<open>Control_Exchange\<close>: the bounds of a server, who
    is served, what streams carry, and the client and the server together; \<open>Control_Properties\<close>: the results.
  \<^item> \<open>Control_Files\<close>: the token and the descriptor of a runtime in \<open>filesystem.ts\<close> (POSIX), replaced whole, and their
    discovery; \<open>Control_Connect\<close>: \<open>createControlApiClient\<close>, from the files of a start to the connected client.
  \<^item> \<open>Isolation\<close>: \<open>apps/worker/src/index.ts\<close>, how the isolation a task requires is matched with what the host was probed
    to provide; \<open>Process_Adapter\<close>: \<open>packages/adapters\<close>, the checks of a task, the request to the native helper and
    the evidence of what it did.

  \<^bold>\<open>State and errors.\<close> A worker is the record \<open>worker\<close>: the committed tables, the open transaction if
  any, and the two qualification flags. A transaction is the tables at its start, so ROLLBACK returns to
  them, and a lost process loses it. Every exception of the sources is a value: an error code, or one
  constructor for the exceptions that carry none. Messages and details of errors are kept only where a
  later branch reads them.

  \<^bold>\<open>What is shown.\<close> The policy evaluator allows only what a matching rule allows under the hard
  invariants, a denial wins, requirements merge to the strictest, and compiled sets are canonical and
  identified by their hash; a policy document that is accepted is safe data, and a printed document is read back.
  The journal only grows, keeps gapless versions and unique identities, and commits a command once; what it
  commits is what it reads. A replay checks what it accepts, and a prepared transition is exactly what a later
  replay recovers. The service's answer is the stored receipt with the state of the stored events, retries return
  the same answer, one command at most creates a run, and an undisturbed creation succeeds. At most one runtime
  holds the lock of a data root, and the lock of a dead one is recovered. The control API serves the bearer of the
  token and nobody else, stays within its limits, answers every call of its client with a body that the client
  accepts, and its event streams have no gaps from the publication to the reader. The token of a runtime is at no
  moment readable by others, and a client is connected by the files of a start to the runtime that wrote them.
  A task is run only under an isolation that is at least the required one, with a catalogued executable, an allowed
  environment and the budgets that its evidence repeats.

  \<^bold>\<open>Parameters and bounds.\<close> SHA-256 is a parameter \<open>sha\<close>; where a result needs that it does not collide
  on two texts, that is a hypothesis. Compiled JSON-schema validators are parameters of the registry.
  The file system's answers are the records \<open>repositoryView\<close>, \<open>replaceOutcomes\<close> and \<open>tokenOutcomes\<close>.
  \<open>JSON.parse\<close> and the URL parser are parameters of the control API, of which the results use that the text of
  JSON data is read back; identifiers, times and ports are arguments. Fuel is used by the parser of canonical
  text, which is given the length of its input, and by the parser of policy documents (\<open>yamlFuel\<close>, twice the
  number of lines and two), which is proved to be enough; every other loop is structural or has a measure.

  \<^bold>\<open>Not modelled.\<close> The runtime type assertions of TypeScript are readings that give empty values for fields
  of another type, since the schemas are checked first. Opening, migrating, attesting and backing up the database
  are calls of SQLite with little logic of their own, and the requests for them change no table. The Windows branch
  of \<open>filesystem.ts\<close> runs a native helper; so does the process adapter, of which the helper, the search of a path for
  links and the staging of inputs are arguments (\<open>adapterWorld\<close>). The inventory and the
  examples of \<open>packages/contracts\<close> read directories and compile JSON schemas with a third-party package, and
  \<open>apps/cli\<close> and \<open>apps/runtime\<close> start the packages that are modelled here. The scripts of \<open>scripts\<close> (toolchain, release,
  qualification, governance) inspect the repository and are no part of the running program. Sockets and the HTTP
  parser are the events \<open>serverEvent\<close>.
\<close>

end
